(* ===== verification/Prelude.thy ===== *)
theory Prelude
  imports Main "HOL-Library.Word" "HOL-Library.State_Monad" "HOL-Library.Monad_Syntax"
begin

unbundle bit_operations_syntax

section \<open>Shared types, state passing and generic lemmas\<close>

text \<open>
  This theory holds what every component of the development uses: the machine integer types
  of the C sources, the status codes of the HDF framework, the collections of simplification
  rules, and generic lemmas on state-passing programs, bit fields, little-endian byte strings
  and lists. Stateful C functions are modelled as values of the library's state monad
  (\<open>('s, 'a) state\<close>): \<open>run_state f s\<close> is the pair of the C return value and the new state.
\<close>

subsection \<open>Machine integers\<close>

type_synonym u8 = "8 word"
type_synonym u16 = "16 word"
type_synonym u32 = "32 word"
type_synonym u64 = "64 word"

text \<open>
  The status codes of the HDF framework. Their numbers belong to \<open>hdf_base.h\<close> of another
  repository, so only their names are modelled; \<open>HDF_CODE\<close> carries the integer that a
  callee outside this repository returned and the code passes on.
\<close>

datatype hdf_status =
    HDF_SUCCESS
  | HDF_FAILURE
  | HDF_ERR_INVALID_PARAM
  | HDF_ERR_INVALID_OBJECT
  | HDF_ERR_MALLOC_FAIL
  | HDF_ERR_TIMEOUT
  | HDF_ERR_IO
  | HDF_ERR_NOT_SUPPORT
  | HDF_DEV_ERR_OP
  | HDF_CODE int

subsection \<open>Collections of simplification rules\<close>

named_theorems run_simps \<open>what one operation of a component returns and does to the state\<close>
named_theorems frame_simps \<open>parts of the state an operation leaves alone\<close>
named_theorems keeps_intros \<open>which operations leave a part of the state alone\<close>

subsection \<open>State passing\<close>

text \<open>The value an operation returns, and the state it leaves.\<close>

abbreviation result :: "('s, 'a) state \<Rightarrow> 's \<Rightarrow> 'a" where
  "result m s \<equiv> fst (run_state m s)"

abbreviation after :: "('s, 'a) state \<Rightarrow> 's \<Rightarrow> 's" where
  "after m s \<equiv> snd (run_state m s)"

definition gets :: "('s \<Rightarrow> 'a) \<Rightarrow> ('s, 'a) state" where
  "gets f = State (\<lambda>s. (f s, s))"

definition modify :: "('s \<Rightarrow> 's) \<Rightarrow> ('s, unit) state" where
  "modify f = State (\<lambda>s. ((), f s))"

definition skip :: "('s, unit) state" where
  "skip = State_Monad.return ()"

lemma run_gets [simp]: "run_state (gets f) s = (f s, s)"
  by (simp add: gets_def)

lemma run_modify [simp]: "run_state (modify f) s = ((), f s)"
  by (simp add: modify_def)

lemma run_skip [simp]: "run_state skip s = ((), s)"
  by (simp add: skip_def)

lemma run_if [simp]:
  "run_state (if b then m else n) s = (if b then run_state m s else run_state n s)"
  by simp

lemma after_bind: "after (State_Monad.bind m f) s = after (f (result m s)) (after m s)"
  by (simp add: case_prod_beta)

lemma result_bind: "result (State_Monad.bind m f) s = result (f (result m s)) (after m s)"
  by (simp add: case_prod_beta)

lemmas bind_run = after_bind result_bind

text \<open>Run an operation for each element of a list, in order.\<close>

primrec for_each :: "'b list \<Rightarrow> ('b \<Rightarrow> ('s, unit) state) \<Rightarrow> ('s, unit) state" where
  "for_each [] f = skip"
| "for_each (x # xs) f = do { f x; for_each xs f }"

lemma after_for_each_Nil [simp]: "after (for_each [] f) s = s"
  by simp

lemma after_for_each_Cons [simp]:
  "after (for_each (x # xs) f) s = after (for_each xs f) (after (f x) s)"
  by (simp add: case_prod_beta)

lemma after_for_each_append:
  "after (for_each (xs @ ys) f) s = after (for_each ys f) (after (for_each xs f) s)"
  by (induction xs arbitrary: s) (simp_all add: case_prod_beta)

lemma after_for_each_inv:
  assumes "\<And>x s. P s \<Longrightarrow> P (after (f x) s)" and "P s"
  shows "P (after (for_each xs f) s)"
  using assms(2)
proof (induction xs arbitrary: s)
  case (Cons x xs)
  then show ?case using assms(1) by (simp add: case_prod_beta)
qed simp

text \<open>
  An operation keeps a part of the state (a record field, or any function of the state) when
  it never changes it. The rules follow the shape of a program, so that
  \<open>intro keeps_intros\<close> proves frame properties of whole functions.
\<close>

definition keeps :: "('s \<Rightarrow> 'b) \<Rightarrow> ('s, 'a) state \<Rightarrow> bool" where
  "keeps f m \<longleftrightarrow> (\<forall>s. f (after m s) = f s)"

lemma keepsD: "keeps f m \<Longrightarrow> f (after m s) = f s"
  by (simp add: keeps_def)

lemma keeps_return [keeps_intros]: "keeps f (State_Monad.return x)"
  by (simp add: keeps_def)

lemma keeps_skip [keeps_intros]: "keeps f skip"
  by (simp add: keeps_def)

lemma keeps_gets [keeps_intros]: "keeps f (gets g)"
  by (simp add: keeps_def)

lemma keeps_bind [keeps_intros]:
  "keeps f m \<Longrightarrow> (\<And>x. keeps f (g x)) \<Longrightarrow> keeps f (State_Monad.bind m g)"
  by (simp add: keeps_def case_prod_beta)

lemma keeps_if [keeps_intros]:
  "(b \<Longrightarrow> keeps f m) \<Longrightarrow> (\<not> b \<Longrightarrow> keeps f n) \<Longrightarrow> keeps f (if b then m else n)"
  by simp

lemma keeps_option [keeps_intros]:
  "(x = None \<Longrightarrow> keeps f m) \<Longrightarrow> (\<And>y. x = Some y \<Longrightarrow> keeps f (g y)) \<Longrightarrow>
   keeps f (case x of None \<Rightarrow> m | Some y \<Rightarrow> g y)"
  by (cases x) simp_all

lemma keeps_prod [keeps_intros]:
  "(\<And>a b. p = (a, b) \<Longrightarrow> keeps f (g a b)) \<Longrightarrow> keeps f (case p of (a, b) \<Rightarrow> g a b)"
  by (cases p) simp

lemma keeps_let [keeps_intros]: "keeps f (g x) \<Longrightarrow> keeps f (Let x g)"
  by simp

lemma keeps_modify: "(\<And>s. f (g s) = f s) \<Longrightarrow> keeps f (modify g)"
  by (simp add: keeps_def)

lemma keeps_for_each [keeps_intros]:
  "(\<And>x. keeps f (g x)) \<Longrightarrow> keeps f (for_each xs g)"
  by (induction xs) (auto intro: keeps_intros)

subsection \<open>Bit fields\<close>

text \<open>
  A C bit field of \<open>n\<close> bits at bit \<open>lo\<close> of a 32-bit union: reading takes the bits, writing
  replaces them by the low \<open>n\<close> bits of the value and keeps the others.
\<close>

definition bf_get :: "nat \<Rightarrow> nat \<Rightarrow> u32 \<Rightarrow> u32" where
  "bf_get lo n w = take_bit n (drop_bit lo w)"

definition bf_set :: "nat \<Rightarrow> nat \<Rightarrow> u32 \<Rightarrow> u32 \<Rightarrow> u32" where
  "bf_set lo n v w = (w AND NOT (push_bit lo (mask n))) OR push_bit lo (take_bit n v)"

lemma bit_bf_get: "bit (bf_get lo n w) i \<longleftrightarrow> i < n \<and> bit w (lo + i)"
  by (simp add: bf_get_def bit_take_bit_iff bit_drop_bit_eq add.commute)

lemma bit_bf_set:
  assumes "i < 32"
  shows "bit (bf_set lo n v w) i \<longleftrightarrow> (if lo \<le> i \<and> i < lo + n then bit v (i - lo) else bit w i)"
  using assms
  by (auto simp: bf_set_def bit_or_iff bit_and_iff bit_not_iff bit_push_bit_iff
      bit_mask_iff bit_take_bit_iff possible_bit_def)

lemma bf_get_set_same:
  assumes "lo + n \<le> 32"
  shows "bf_get lo n (bf_set lo n v w) = take_bit n v"
proof (rule bit_eqI)
  fix i
  assume "possible_bit TYPE(32 word) i"
  then show "bit (bf_get lo n (bf_set lo n v w)) i = bit (take_bit n v) i"
    using assms by (auto simp: bit_bf_get bit_bf_set bit_take_bit_iff)
qed

lemma bf_get_set_other:
  assumes "lo + n \<le> 32" and "lo' + n' \<le> lo \<or> lo + n \<le> lo'" and "lo' + n' \<le> 32"
  shows "bf_get lo' n' (bf_set lo n v w) = bf_get lo' n' w"
proof (rule bit_eqI)
  fix i
  assume "possible_bit TYPE(32 word) i"
  then show "bit (bf_get lo' n' (bf_set lo n v w)) i = bit (bf_get lo' n' w) i"
    using assms by (auto simp: bit_bf_get bit_bf_set)
qed

subsection \<open>Little-endian integers in byte strings\<close>

text \<open>
  \<open>get_unaligned_le16/32\<close> of the Linux headers on a byte string. \<open>None\<close> is a read past the
  end of the buffer, which in C is undefined; the parsers treat it as a memory fault, so that
  a theorem can say that they never cause one.
\<close>

definition byte_at :: "u8 list \<Rightarrow> nat \<Rightarrow> u8 option" where
  "byte_at bs i = (if i < length bs then Some (bs ! i) else None)"

definition le16_at :: "u8 list \<Rightarrow> nat \<Rightarrow> u16 option" where
  "le16_at bs i = (if i + 2 \<le> length bs
     then Some (ucast (bs ! i) OR push_bit 8 (ucast (bs ! (i + 1)))) else None)"

definition le32_at :: "u8 list \<Rightarrow> nat \<Rightarrow> u32 option" where
  "le32_at bs i = (if i + 4 \<le> length bs
     then Some (ucast (bs ! i) OR push_bit 8 (ucast (bs ! (i + 1)))
       OR push_bit 16 (ucast (bs ! (i + 2))) OR push_bit 24 (ucast (bs ! (i + 3))))
     else None)"

lemma byte_at_Some_iff: "(\<exists>b. byte_at bs i = Some b) \<longleftrightarrow> i < length bs"
  by (simp add: byte_at_def)

lemma byte_at_None_iff: "byte_at bs i = None \<longleftrightarrow> length bs \<le> i"
  by (auto simp: byte_at_def)

lemma le16_at_None_iff: "le16_at bs i = None \<longleftrightarrow> length bs < i + 2"
  by (auto simp: le16_at_def)

lemma le32_at_None_iff: "le32_at bs i = None \<longleftrightarrow> length bs < i + 4"
  by (auto simp: le32_at_def)

lemmas reads_None_iff = byte_at_None_iff le16_at_None_iff le32_at_None_iff

text \<open>The bytes of an integer, and the two directions of the round trip.\<close>

definition le16_bytes :: "u16 \<Rightarrow> u8 list" where
  "le16_bytes w = [ucast w, ucast (drop_bit 8 w)]"

definition le32_bytes :: "u32 \<Rightarrow> u8 list" where
  "le32_bytes w = [ucast w, ucast (drop_bit 8 w), ucast (drop_bit 16 w), ucast (drop_bit 24 w)]"

lemma length_le_bytes [simp]: "length (le16_bytes w) = 2" "length (le32_bytes v) = 4"
  by (simp_all add: le16_bytes_def le32_bytes_def)

lemma le16_join: "(ucast (ucast w :: u8) OR push_bit 8 (ucast (ucast (drop_bit 8 w) :: u8)) :: u16) = w"
proof (rule bit_word_eqI)
  fix n assume "n < LENGTH(16)"
  then show "bit (ucast (ucast w :: u8) OR push_bit 8 (ucast (ucast (drop_bit 8 w) :: u8)) :: u16) n = bit w n"
    by (cases "n < 8") (auto simp: bit_simps)
qed

lemma le32_join:
  "(ucast (ucast w :: u8) OR push_bit 8 (ucast (ucast (drop_bit 8 w) :: u8))
    OR push_bit 16 (ucast (ucast (drop_bit 16 w) :: u8)) OR push_bit 24 (ucast (ucast (drop_bit 24 w) :: u8)) :: u32) = w"
proof (rule bit_word_eqI)
  fix n assume "n < LENGTH(32)"
  then consider "n < 8" | "8 \<le> n" "n < 16" | "16 \<le> n" "n < 24" | "24 \<le> n" "n < 32" by fastforce
  then show "bit (ucast (ucast w :: u8) OR push_bit 8 (ucast (ucast (drop_bit 8 w) :: u8))
    OR push_bit 16 (ucast (ucast (drop_bit 16 w) :: u8)) OR push_bit 24 (ucast (ucast (drop_bit 24 w) :: u8)) :: u32) n = bit w n"
    by cases (auto simp: bit_simps)
qed

lemma le16_split:
  fixes a b :: u8
  defines "w \<equiv> (ucast a OR push_bit 8 (ucast b) :: u16)"
  shows "ucast w = a" "ucast (drop_bit 8 w) = b"
  by (rule bit_word_eqI; auto simp: w_def bit_simps dest: bit_imp_le_length)+

lemma le32_split:
  fixes a b c d :: u8
  defines "w \<equiv> (ucast a OR push_bit 8 (ucast b) OR push_bit 16 (ucast c) OR push_bit 24 (ucast d) :: u32)"
  shows "ucast w = a" "ucast (drop_bit 8 w) = b" "ucast (drop_bit 16 w) = c" "ucast (drop_bit 24 w) = d"
  by (rule bit_word_eqI; auto simp: w_def bit_simps dest: bit_imp_le_length)+

lemma le16_at_bytes [simp]: "le16_at (le16_bytes w @ rest) 0 = Some w"
  by (simp add: le16_at_def le16_bytes_def le16_join)

lemma le32_at_bytes [simp]: "le32_at (le32_bytes w @ rest) 0 = Some w"
  by (simp add: le32_at_def le32_bytes_def le32_join)

lemma le_at_append:
  "length xs \<le> i \<Longrightarrow> le16_at (xs @ ys) i = le16_at ys (i - length xs)"
  "length xs \<le> i \<Longrightarrow> le32_at (xs @ ys) i = le32_at ys (i - length xs)"
  by (auto simp: le16_at_def le32_at_def nth_append Suc_diff_le)

lemma le_at_drop:
  "n \<le> length xs \<Longrightarrow> le16_at (drop n xs) i = le16_at xs (n + i)"
  "n \<le> length xs \<Longrightarrow> le32_at (drop n xs) i = le32_at xs (n + i)"
  by (auto simp: le16_at_def le32_at_def add.assoc)

lemma le16_atD: "le16_at xs 0 = Some w \<Longrightarrow> xs = le16_bytes w @ drop 2 xs"
  by (cases xs; cases "tl xs")
     (auto simp: le16_at_def le16_bytes_def le16_split simp del: drop_bit_or split: if_splits)

lemma le32_atD:
  assumes "le32_at xs 0 = Some w"
  shows "xs = le32_bytes w @ drop 4 xs"
proof -
  from assms have len: "4 \<le> length xs" by (auto simp: le32_at_def split: if_splits)
  then have one: "take (Suc 0) xs = [xs ! 0]" by (cases xs) auto
  have "take 4 xs = [xs ! 0, xs ! 1, xs ! 2, xs ! 3]"
    using len by (simp add: eval_nat_numeral take_Suc_conv_app_nth one)
  then have xs: "xs = [xs ! 0, xs ! 1, xs ! 2, xs ! 3] @ drop 4 xs"
    by (metis append_take_drop_id)
  have "w = ucast (xs ! 0) OR push_bit 8 (ucast (xs ! 1)) OR push_bit 16 (ucast (xs ! 2)) OR push_bit 24 (ucast (xs ! 3))"
    using assms len by (simp add: le32_at_def numeral_2_eq_2)
  then have "le32_bytes w = [xs ! 0, xs ! 1, xs ! 2, xs ! 3]"
    unfolding le32_bytes_def by (simp only: le32_split)
  then show ?thesis using xs by metis
qed

subsection \<open>Integer arithmetic\<close>

text \<open>Rounding up as the sources write it, \<open>(x + d - 1) / d\<close>.\<close>

lemma ceil_div_lower:
  assumes "(0::nat) < d"
  shows "x \<le> (x + d - 1) div d * d"
proof -
  have "x + d - 1 = (x + d - 1) div d * d + (x + d - 1) mod d" by simp
  moreover have "(x + d - 1) mod d < d" using assms by simp
  ultimately show ?thesis by linarith
qed

lemma ceil_div_upper:
  assumes "(0::nat) < d" and "0 < x"
  shows "(x + d - 1) div d * d < x + d"
proof -
  have "(x + d - 1) div d * d \<le> x + d - 1" by (rule div_times_less_eq_dividend)
  then show ?thesis using assms by linarith
qed

lemma unat_lt_32: "unat (x :: u32) < 4294967296"
proof -
  have "unat x < 2 ^ LENGTH(32)" by (rule unsigned_less)
  then show ?thesis by simp
qed

lemma unat_lt_8: "unat (x :: u8) < 256"
proof -
  have "unat x < 2 ^ LENGTH(8)" by (rule unsigned_less)
  then show ?thesis by simp
qed

lemma unat_lt_16: "unat (x :: u16) < 65536"
proof -
  have "unat x < 2 ^ LENGTH(16)" by (rule unsigned_less)
  then show ?thesis by simp
qed

end
