(* ===== verification/Mipi_Tx_Bus.thy ===== *)
theory Mipi_Tx_Bus
  imports Prelude
begin

section \<open>The MIPI TX register file and its bus\<close>

text \<open>
  The register block of the Hi35xx MIPI transmitter (\<open>mipi_tx_reg.h\<close>) and the accesses the
  driver \<open>mipi_tx_hi35xx.c\<close> makes to it. The registers are \<open>volatile\<close>: what a read returns
  is decided by the hardware. The hardware is therefore a parameter, \<open>dev_read env hist r\<close>,
  the value register \<open>r\<close> returns after the bus history \<open>hist\<close>; every access, barrier and delay
  is appended to the history in program order, so theorems speak about the exact sequence of
  writes. The \<open>static\<close> and global variables of the driver are the other fields of the state.
\<close>

subsection \<open>Registers\<close>

datatype mreg =
    PWR_UP | CLKMGR_CFG | VCID | COLOR_CODING | LP_CMD_TIM | PCKHDL_CFG | GEN_VCID |
    MODE_CFG | VID_MODE_CFG | VID_PKT_SIZE | VID_NUM_CHUNKS | VID_NULL_SIZE |
    VID_HSA_TIME | VID_HBP_TIME | VID_HLINE_TIME | VID_VSA_LINES | VID_VBP_LINES |
    VID_VFP_LINES | VID_VACTIVE_LINES | EDPI_CMD_SIZE | CMD_MODE_CFG | GEN_HDR |
    GEN_PLD_DATA | CMD_PKT_STATUS | LP_WR_TO_CNT | BTA_TO_CNT | LPCLK_CTRL |
    PHY_TMR_LPCLK_CFG | PHY_TMR_CFG | PHY_RSTZ | PHY_IF_CFG | PHY_ULPS_CTRL | PHY_STATUS |
    PHY_TST_CTRL0 | PHY_TST_CTRL1 | INT_ST0 | INT_ST1 | INT_MSK0 | INT_MSK1 |
    OPERATION_MODE | VERT_DET | HORI0_DET | HORI1_DET | VSA_DET | V_H_SEND | DATATYPE0 |
    CSI_CTRL

text \<open>
  The struct \<open>MipiTxRegsTypeTag\<close>, field by field in order: a register of one 32-bit word, or
  (\<open>None\<close>) a reserved gap of so many words.
\<close>

definition MipiTxRegsTypeTag :: "(mreg option \<times> nat) list" where
  "MipiTxRegsTypeTag = [
    (None, 1), (Some PWR_UP, 1), (Some CLKMGR_CFG, 1), (Some VCID, 1),
    (Some COLOR_CODING, 1), (None, 1), (Some LP_CMD_TIM, 1), (None, 4),
    (Some PCKHDL_CFG, 1), (Some GEN_VCID, 1), (Some MODE_CFG, 1), (Some VID_MODE_CFG, 1),
    (Some VID_PKT_SIZE, 1), (Some VID_NUM_CHUNKS, 1), (Some VID_NULL_SIZE, 1),
    (Some VID_HSA_TIME, 1), (Some VID_HBP_TIME, 1), (Some VID_HLINE_TIME, 1),
    (Some VID_VSA_LINES, 1), (Some VID_VBP_LINES, 1), (Some VID_VFP_LINES, 1),
    (Some VID_VACTIVE_LINES, 1), (Some EDPI_CMD_SIZE, 1), (Some CMD_MODE_CFG, 1),
    (Some GEN_HDR, 1), (Some GEN_PLD_DATA, 1), (Some CMD_PKT_STATUS, 1), (None, 4),
    (Some LP_WR_TO_CNT, 1), (Some BTA_TO_CNT, 1), (None, 1), (Some LPCLK_CTRL, 1),
    (Some PHY_TMR_LPCLK_CFG, 1), (Some PHY_TMR_CFG, 1), (Some PHY_RSTZ, 1),
    (Some PHY_IF_CFG, 1), (Some PHY_ULPS_CTRL, 1), (None, 1), (Some PHY_STATUS, 1),
    (Some PHY_TST_CTRL0, 1), (Some PHY_TST_CTRL1, 1), (Some INT_ST0, 1), (Some INT_ST1, 1),
    (Some INT_MSK0, 1), (Some INT_MSK1, 1), (None, 79), (Some OPERATION_MODE, 1),
    (None, 2), (Some VERT_DET, 1), (Some HORI0_DET, 1), (Some HORI1_DET, 1),
    (Some VSA_DET, 1), (Some V_H_SEND, 1), (None, 2), (Some DATATYPE0, 1), (None, 1),
    (Some CSI_CTRL, 1), (None, 6)]"

text \<open>The byte offset the C layout rules give a field: four bytes for each word before it.\<close>

fun field_offset :: "(mreg option \<times> nat) list \<Rightarrow> mreg \<Rightarrow> nat option" where
  "field_offset [] r = None"
| "field_offset ((f, n) # fs) r =
     (if f = Some r then Some 0 else map_option (\<lambda>o'. 4 * n + o') (field_offset fs r))"

text \<open>The offset that the comment beside each field gives.\<close>

fun doc_offset :: "mreg \<Rightarrow> nat" where
    "doc_offset PWR_UP = 0x4"
  | "doc_offset CLKMGR_CFG = 0x8"
  | "doc_offset VCID = 0xc"
  | "doc_offset COLOR_CODING = 0x10"
  | "doc_offset LP_CMD_TIM = 0x18"
  | "doc_offset PCKHDL_CFG = 0x2c"
  | "doc_offset GEN_VCID = 0x30"
  | "doc_offset MODE_CFG = 0x34"
  | "doc_offset VID_MODE_CFG = 0x38"
  | "doc_offset VID_PKT_SIZE = 0x3c"
  | "doc_offset VID_NUM_CHUNKS = 0x40"
  | "doc_offset VID_NULL_SIZE = 0x44"
  | "doc_offset VID_HSA_TIME = 0x48"
  | "doc_offset VID_HBP_TIME = 0x4c"
  | "doc_offset VID_HLINE_TIME = 0x50"
  | "doc_offset VID_VSA_LINES = 0x54"
  | "doc_offset VID_VBP_LINES = 0x58"
  | "doc_offset VID_VFP_LINES = 0x5c"
  | "doc_offset VID_VACTIVE_LINES = 0x60"
  | "doc_offset EDPI_CMD_SIZE = 0x64"
  | "doc_offset CMD_MODE_CFG = 0x68"
  | "doc_offset GEN_HDR = 0x6c"
  | "doc_offset GEN_PLD_DATA = 0x70"
  | "doc_offset CMD_PKT_STATUS = 0x74"
  | "doc_offset LP_WR_TO_CNT = 0x88"
  | "doc_offset BTA_TO_CNT = 0x8c"
  | "doc_offset LPCLK_CTRL = 0x94"
  | "doc_offset PHY_TMR_LPCLK_CFG = 0x98"
  | "doc_offset PHY_TMR_CFG = 0x9c"
  | "doc_offset PHY_RSTZ = 0xa0"
  | "doc_offset PHY_IF_CFG = 0xa4"
  | "doc_offset PHY_ULPS_CTRL = 0xa8"
  | "doc_offset PHY_STATUS = 0xb0"
  | "doc_offset PHY_TST_CTRL0 = 0xb4"
  | "doc_offset PHY_TST_CTRL1 = 0xb8"
  | "doc_offset INT_ST0 = 0xbc"
  | "doc_offset INT_ST1 = 0xc0"
  | "doc_offset INT_MSK0 = 0xc4"
  | "doc_offset INT_MSK1 = 0xc8"
  | "doc_offset OPERATION_MODE = 0x208"
  | "doc_offset VERT_DET = 0x214"
  | "doc_offset HORI0_DET = 0x218"
  | "doc_offset HORI1_DET = 0x21c"
  | "doc_offset VSA_DET = 0x220"
  | "doc_offset V_H_SEND = 0x224"
  | "doc_offset DATATYPE0 = 0x230"
  | "doc_offset CSI_CTRL = 0x238"

lemma layout_documented: "field_offset MipiTxRegsTypeTag r = Some (doc_offset r)"
  by (cases r) (simp_all add: MipiTxRegsTypeTag_def)

text \<open>Registers are ordered by their place in the block.\<close>

instantiation mreg :: linorder
begin

definition less_eq_mreg :: "mreg \<Rightarrow> mreg \<Rightarrow> bool" where
  "less_eq_mreg a b \<longleftrightarrow> doc_offset a \<le> doc_offset b"

definition less_mreg :: "mreg \<Rightarrow> mreg \<Rightarrow> bool" where
  "less_mreg a b \<longleftrightarrow> doc_offset a < doc_offset b"

lemma field_offset_inj:
  assumes "field_offset fs a = Some k" and "field_offset fs b = Some k"
    and "\<forall>(f, n) \<in> set fs. 0 < n"
  shows "a = b"
  using assms
proof (induction fs arbitrary: k)
  case (Cons fn fs)
  obtain f n where "fn = (f, n)" by (cases fn)
  with Cons show ?case by (auto split: if_splits)
qed simp

lemma doc_offset_inj: "doc_offset a = doc_offset b \<Longrightarrow> a = b"
  using field_offset_inj [of MipiTxRegsTypeTag a "doc_offset a" b]
  by (simp add: layout_documented) (simp add: MipiTxRegsTypeTag_def)

instance
  by standard (auto simp: less_eq_mreg_def less_mreg_def intro: doc_offset_inj)

end

subsection \<open>Driver state, bus history and environment\<close>

datatype bus_op =
    Wr mreg u32
  | Rd mreg u32
  | Isb
  | Dsb
  | Dmb
  | Udelay nat
  | Msleep nat
  | IoRemapRegs bool
  | IoUnmapRegs
  | CrgRemap
  | CrgRd u32
  | CrgWr u32
  | CrgUnmap

record mipi_tx =
  regs_va :: bool
  reg_map_flag :: u32
  actual_phy_data_rate :: u32
  en_cfg :: bool
  en_hs_mode :: bool
  mem_fault :: bool
  live_bufs :: nat
  bus :: "bus_op list"

text \<open>
  \<open>regs_va\<close> is \<open>g_mipiTxRegsVa != NULL\<close>, \<open>reg_map_flag\<close> is \<open>g_regMapFlag\<close>,
  \<open>actual_phy_data_rate\<close> is \<open>g_actualPhyDataRate\<close>, \<open>en_cfg\<close> and \<open>en_hs_mode\<close> are \<open>g_enCfg\<close> and
  \<open>g_enHsMode\<close>; \<open>mem_fault\<close> records that C accessed memory outside an object, and
  \<open>live_bufs\<close> counts the buffers allocated and not freed. This is their value when the module
  is loaded.
\<close>

definition mipi_tx_loaded :: mipi_tx where
  "mipi_tx_loaded = \<lparr>regs_va = False, reg_map_flag = 0, actual_phy_data_rate = 0,
     en_cfg = False, en_hs_mode = False, mem_fault = False, live_bufs = 0, bus = []\<rparr>"

text \<open>
  What the driver asks of code outside the repository: the registers, the I/O mapping, the
  allocator, the user-space copies, and the contents of uninitialised stack variables.
\<close>

record mipi_env =
  dev_read :: "bus_op list \<Rightarrow> mreg \<Rightarrow> u32"
  crg_read :: "bus_op list \<Rightarrow> u32"
  io_remap_ok :: "bus_op list \<Rightarrow> bool"
  calloc_ok :: "nat \<Rightarrow> bool"
  access_ok :: bool
  copy_from_user :: "nat \<Rightarrow> u8 list \<Rightarrow> u8 list option"
  copy_to_user_ok :: bool
  memcpy_s_ok :: bool
  stack8 :: u8
  stack32 :: u32

definition emit :: "bus_op list \<Rightarrow> (mipi_tx, unit) state" where
  "emit ops = modify (\<lambda>s. s\<lparr>bus := bus s @ ops\<rparr>)"

definition wr :: "mreg \<Rightarrow> u32 \<Rightarrow> (mipi_tx, unit) state" where
  "wr r v = emit [Wr r v]"

definition rd :: "mipi_env \<Rightarrow> mreg \<Rightarrow> (mipi_tx, u32) state" where
  "rd env r = do {
     v \<leftarrow> gets (\<lambda>s. dev_read env (bus s) r);
     emit [Rd r v];
     State_Monad.return v }"

text \<open>\<open>OsalUDelay\<close> and \<open>OsalMSleep\<close>, seen from the bus.\<close>

definition OsalUDelay :: "nat \<Rightarrow> (mipi_tx, unit) state" where
  "OsalUDelay n = emit [Udelay n]"

definition OsalMSleep :: "nat \<Rightarrow> (mipi_tx, unit) state" where
  "OsalMSleep n = emit [Msleep n]"

lemma emit_emit [simp]: "State_Monad.bind (emit xs) (\<lambda>_. emit ys) = emit (xs @ ys)"
  by (rule state_ext) (simp add: emit_def)

lemma emit_emit_bind [simp]:
  "State_Monad.bind (emit xs) (\<lambda>_. State_Monad.bind (emit ys) f) =
   State_Monad.bind (emit (xs @ ys)) f"
  by (rule state_ext) (simp add: emit_def)

lemma run_emit [run_simps]: "run_state (emit ops) s = ((), s\<lparr>bus := bus s @ ops\<rparr>)"
  by (simp add: emit_def)

lemma run_rd [run_simps]:
  "run_state (rd env r) s =
     (dev_read env (bus s) r, s\<lparr>bus := bus s @ [Rd r (dev_read env (bus s) r)]\<rparr>)"
  by (simp add: rd_def run_simps)

lemma for_each_emit: "for_each xs (\<lambda>x. emit (f x)) = emit (concat (map f xs))"
  by (induction xs) (simp_all add: skip_def emit_def state_ext)

lemmas bus_defs = wr_def OsalUDelay_def OsalMSleep_def

subsection \<open>The bit fields of the status and data registers\<close>

text \<open>
  The unions \<open>U_CMD_PKT_STATUS\<close>, \<open>U_GEN_HDR\<close>, \<open>U_GEN_PLD_DATA\<close>, \<open>U_INT_ST1\<close> and the four
  detection registers: each field is \<open>bf_get\<close>/\<open>bf_set\<close> at its bit offset and width.
\<close>

definition gen_cmd_empty :: "u32 \<Rightarrow> u32" where "gen_cmd_empty = bf_get 0 1"
definition gen_pld_w_empty :: "u32 \<Rightarrow> u32" where "gen_pld_w_empty = bf_get 2 1"
definition gen_pld_w_full :: "u32 \<Rightarrow> u32" where "gen_pld_w_full = bf_get 3 1"
definition gen_pld_r_empty :: "u32 \<Rightarrow> u32" where "gen_pld_r_empty = bf_get 4 1"
definition gen_pld_rd_err :: "u32 \<Rightarrow> u32" where "gen_pld_rd_err = bf_get 11 1"

definition set_gen_dt :: "u32 \<Rightarrow> u32 \<Rightarrow> u32" where "set_gen_dt = bf_set 0 6"
definition set_gen_vc :: "u32 \<Rightarrow> u32 \<Rightarrow> u32" where "set_gen_vc = bf_set 6 2"
definition set_gen_wc_lsbyte :: "u32 \<Rightarrow> u32 \<Rightarrow> u32" where "set_gen_wc_lsbyte = bf_set 8 8"
definition set_gen_wc_msbyte :: "u32 \<Rightarrow> u32 \<Rightarrow> u32" where "set_gen_wc_msbyte = bf_set 16 8"

definition set_gen_pld_b1 :: "u8 \<Rightarrow> u32 \<Rightarrow> u32" where "set_gen_pld_b1 b = bf_set 0 8 (ucast b)"
definition set_gen_pld_b2 :: "u8 \<Rightarrow> u32 \<Rightarrow> u32" where "set_gen_pld_b2 b = bf_set 8 8 (ucast b)"
definition set_gen_pld_b3 :: "u8 \<Rightarrow> u32 \<Rightarrow> u32" where "set_gen_pld_b3 b = bf_set 16 8 (ucast b)"
definition set_gen_pld_b4 :: "u8 \<Rightarrow> u32 \<Rightarrow> u32" where "set_gen_pld_b4 b = bf_set 24 8 (ucast b)"
definition gen_pld_b1 :: "u32 \<Rightarrow> u8" where "gen_pld_b1 w = ucast (bf_get 0 8 w)"
definition gen_pld_b2 :: "u32 \<Rightarrow> u8" where "gen_pld_b2 w = ucast (bf_get 8 8 w)"
definition gen_pld_b3 :: "u32 \<Rightarrow> u8" where "gen_pld_b3 w = ucast (bf_get 16 8 w)"
definition gen_pld_b4 :: "u32 \<Rightarrow> u8" where "gen_pld_b4 w = ucast (bf_get 24 8 w)"

definition vact_det :: "u32 \<Rightarrow> u32" where "vact_det = bf_get 0 16"
definition vall_det :: "u32 \<Rightarrow> u32" where "vall_det = bf_get 16 16"
definition hact_det :: "u32 \<Rightarrow> u32" where "hact_det = bf_get 0 16"
definition hline_det :: "u32 \<Rightarrow> u32" where "hline_det = bf_get 16 16"
definition hsa_det :: "u32 \<Rightarrow> u32" where "hsa_det = bf_get 0 16"
definition hbp_det :: "u32 \<Rightarrow> u32" where "hbp_det = bf_get 16 16"
definition vsa_det :: "u32 \<Rightarrow> u32" where "vsa_det = bf_get 0 16"

lemmas pld_set_defs = set_gen_pld_b1_def set_gen_pld_b2_def set_gen_pld_b3_def set_gen_pld_b4_def
lemmas pld_get_defs = gen_pld_b1_def gen_pld_b2_def gen_pld_b3_def gen_pld_b4_def

lemma take_8_ucast [simp]: "ucast (take_bit 8 (ucast (b :: u8) :: u32)) = b"
  by (rule bit_eqI) (auto simp: bit_take_bit_iff bit_ucast_iff dest: bit_imp_le_length)

text \<open>Each byte of the payload register reads back what was written to it, and the
  assignments do not disturb each other.\<close>

lemma pld_bytes [simp]:
  "gen_pld_b1 (set_gen_pld_b1 b w) = b" "gen_pld_b1 (set_gen_pld_b2 b w) = gen_pld_b1 w"
  "gen_pld_b1 (set_gen_pld_b3 b w) = gen_pld_b1 w" "gen_pld_b1 (set_gen_pld_b4 b w) = gen_pld_b1 w"
  "gen_pld_b2 (set_gen_pld_b2 b w) = b" "gen_pld_b2 (set_gen_pld_b1 b w) = gen_pld_b2 w"
  "gen_pld_b2 (set_gen_pld_b3 b w) = gen_pld_b2 w" "gen_pld_b2 (set_gen_pld_b4 b w) = gen_pld_b2 w"
  "gen_pld_b3 (set_gen_pld_b3 b w) = b" "gen_pld_b3 (set_gen_pld_b1 b w) = gen_pld_b3 w"
  "gen_pld_b3 (set_gen_pld_b2 b w) = gen_pld_b3 w" "gen_pld_b3 (set_gen_pld_b4 b w) = gen_pld_b3 w"
  "gen_pld_b4 (set_gen_pld_b4 b w) = b" "gen_pld_b4 (set_gen_pld_b1 b w) = gen_pld_b4 w"
  "gen_pld_b4 (set_gen_pld_b2 b w) = gen_pld_b4 w" "gen_pld_b4 (set_gen_pld_b3 b w) = gen_pld_b4 w"
  by (simp_all add: pld_set_defs pld_get_defs bf_get_set_same bf_get_set_other)

subsection \<open>What the bus history says\<close>

text \<open>The values written to one register, in order.\<close>

fun writes_of :: "mreg \<Rightarrow> bus_op list \<Rightarrow> u32 list" where
  "writes_of r [] = []"
| "writes_of r (Wr r' v # ops) = (if r' = r then v # writes_of r ops else writes_of r ops)"
| "writes_of r (_ # ops) = writes_of r ops"

lemma writes_of_append [simp]: "writes_of r (xs @ ys) = writes_of r xs @ writes_of r ys"
  by (induction r xs rule: writes_of.induct) simp_all

text \<open>The values the hardware returned for one register, in order.\<close>

fun reads_of :: "mreg \<Rightarrow> bus_op list \<Rightarrow> u32 list" where
  "reads_of r [] = []"
| "reads_of r (Rd r' v # ops) = (if r' = r then v # reads_of r ops else reads_of r ops)"
| "reads_of r (_ # ops) = reads_of r ops"

lemma reads_of_append [simp]: "reads_of r (xs @ ys) = reads_of r xs @ reads_of r ys"
  by (induction r xs rule: reads_of.induct) simp_all

text \<open>The register block is touched only while it is mapped.\<close>

fun regs_mapped :: "bool \<Rightarrow> bus_op list \<Rightarrow> bool" where
  "regs_mapped m [] \<longleftrightarrow> True"
| "regs_mapped m (Wr _ _ # ops) \<longleftrightarrow> m \<and> regs_mapped m ops"
| "regs_mapped m (Rd _ _ # ops) \<longleftrightarrow> m \<and> regs_mapped m ops"
| "regs_mapped m (IoRemapRegs b # ops) \<longleftrightarrow> regs_mapped b ops"
| "regs_mapped m (IoUnmapRegs # ops) \<longleftrightarrow> regs_mapped False ops"
| "regs_mapped m (_ # ops) \<longleftrightarrow> regs_mapped m ops"

fun map_state :: "bool \<Rightarrow> bus_op list \<Rightarrow> bool" where
  "map_state m [] = m"
| "map_state m (IoRemapRegs b # ops) = map_state b ops"
| "map_state m (IoUnmapRegs # ops) = map_state False ops"
| "map_state m (_ # ops) = map_state m ops"

lemma regs_mapped_append:
  "regs_mapped m (xs @ ys) \<longleftrightarrow> regs_mapped m xs \<and> regs_mapped (map_state m xs) ys"
  by (induction m xs rule: regs_mapped.induct) auto

lemma map_state_append [simp]: "map_state m (xs @ ys) = map_state (map_state m xs) ys"
  by (induction m xs rule: map_state.induct) auto

text \<open>Accesses and delays only: neither a mapping nor an unmapping.\<close>

fun plain_op :: "bus_op \<Rightarrow> bool" where
  "plain_op (IoRemapRegs _) = False"
| "plain_op IoUnmapRegs = False"
| "plain_op _ = True"

lemma plain_map_state: "list_all plain_op ops \<Longrightarrow> map_state m ops = m"
  by (induction m ops rule: map_state.induct) auto

lemma plain_regs_mapped: "list_all plain_op ops \<Longrightarrow> regs_mapped True ops"
  by (induction "True" ops rule: regs_mapped.induct) auto

subsection \<open>Operations that only add to the history\<close>

text \<open>
  \<open>appends P m\<close>: operation \<open>m\<close> adds accesses that all satisfy \<open>P\<close> to the end of the history,
  and never rewrites it. With \<open>keeps\<close> this is the contract the parts of the driver share.
\<close>

named_theorems appends_intros \<open>which operations append which accesses\<close>

definition appends :: "(bus_op \<Rightarrow> bool) \<Rightarrow> (mipi_tx, 'a) state \<Rightarrow> bool" where
  "appends P m \<longleftrightarrow> (\<forall>s. \<exists>ops. bus (after m s) = bus s @ ops \<and> list_all P ops)"

lemma appendsE:
  assumes "appends P m"
  obtains ops where "bus (after m s) = bus s @ ops" and "list_all P ops"
  using assms by (auto simp: appends_def)

lemma appends_return [appends_intros]: "appends P (State_Monad.return x)"
  by (auto simp: appends_def intro: exI [of _ "[]"])

lemma appends_skip [appends_intros]: "appends P skip"
  by (auto simp: appends_def intro: exI [of _ "[]"])

lemma appends_gets [appends_intros]: "appends P (gets f)"
  by (auto simp: appends_def intro: exI [of _ "[]"])

lemma appends_emit: "list_all P ops \<Longrightarrow> appends P (emit ops)"
  by (auto simp: appends_def run_simps)

lemma appends_wr [appends_intros]: "(P (Wr r v)) \<Longrightarrow> appends P (wr r v)"
  by (simp add: wr_def appends_emit)

lemma appends_delay [appends_intros]:
  "P (Udelay n) \<Longrightarrow> appends P (OsalUDelay n)" "P (Msleep n) \<Longrightarrow> appends P (OsalMSleep n)"
  by (simp_all add: bus_defs appends_emit)

lemma appends_rd [appends_intros]: "(\<And>v. P (Rd r v)) \<Longrightarrow> appends P (rd env r)"
  by (auto simp: appends_def run_simps)

lemma appends_bind [appends_intros]:
  assumes "appends P m" and "\<And>x. appends P (g x)"
  shows "appends P (State_Monad.bind m g)"
  unfolding appends_def
proof
  fix s
  obtain ops where 1: "bus (after m s) = bus s @ ops" "list_all P ops"
    by (rule appendsE [OF assms(1)])
  obtain ops' where 2: "bus (after (g (result m s)) (after m s)) = bus (after m s) @ ops'" "list_all P ops'"
    by (rule appendsE [OF assms(2)])
  show "\<exists>ops. bus (after (State_Monad.bind m g) s) = bus s @ ops \<and> list_all P ops"
    using 1 2 by (intro exI [of _ "ops @ ops'"]) (simp add: case_prod_beta)
qed

lemma appends_if [appends_intros]:
  "(b \<Longrightarrow> appends P m) \<Longrightarrow> (\<not> b \<Longrightarrow> appends P n) \<Longrightarrow> appends P (if b then m else n)"
  by simp

lemma appends_option [appends_intros]:
  "(x = None \<Longrightarrow> appends P m) \<Longrightarrow> (\<And>y. x = Some y \<Longrightarrow> appends P (g y)) \<Longrightarrow>
   appends P (case x of None \<Rightarrow> m | Some y \<Rightarrow> g y)"
  by (cases x) simp_all

lemma appends_let [appends_intros]: "appends P (g x) \<Longrightarrow> appends P (Let x g)"
  by simp

lemma appends_prod [appends_intros]:
  "(\<And>a b. p = (a, b) \<Longrightarrow> appends P (g a b)) \<Longrightarrow> appends P (case p of (a, b) \<Rightarrow> g a b)"
  by (cases p) simp

lemma appends_modify [appends_intros]: "(\<And>s. bus (f s) = bus s) \<Longrightarrow> appends P (modify f)"
  by (auto simp: appends_def intro: exI [of _ "[]"])

lemma appends_for_each [appends_intros]:
  "(\<And>x. appends P (g x)) \<Longrightarrow> appends P (for_each xs g)"
  by (induction xs) (auto intro: appends_intros)

lemma appends_mono: "appends P m \<Longrightarrow> (\<And>x. P x \<Longrightarrow> Q x) \<Longrightarrow> appends Q m"
  unfolding appends_def by (metis list.pred_mono_strong)

text \<open>The fields other than the history survive any bus access.\<close>

abbreviation driver_vars :: "mipi_tx \<Rightarrow> bool \<times> u32 \<times> u32 \<times> bool \<times> bool \<times> bool" where
  "driver_vars s \<equiv> (regs_va s, reg_map_flag s, actual_phy_data_rate s, en_cfg s, en_hs_mode s, mem_fault s)"

abbreviation map_vars :: "mipi_tx \<Rightarrow> bool \<times> u32" where
  "map_vars s \<equiv> (regs_va s, reg_map_flag s)"

lemma keeps_emit [keeps_intros]:
  "keeps driver_vars (emit ops)" "keeps map_vars (emit ops)"
  by (simp_all add: keeps_def run_simps)

lemma keeps_rd [keeps_intros]: "keeps driver_vars (rd env r)" "keeps map_vars (rd env r)"
  by (simp_all add: keeps_def run_simps)

lemma keeps_bus_ops [keeps_intros]:
  "keeps driver_vars (wr r v)" "keeps map_vars (wr r v)"
  "keeps driver_vars (OsalUDelay n)" "keeps map_vars (OsalUDelay n)"
  "keeps driver_vars (OsalMSleep n)" "keeps map_vars (OsalMSleep n)"
  unfolding bus_defs by (rule keeps_intros)+

lemma keeps_map_vars: "keeps driver_vars m \<Longrightarrow> keeps map_vars m"
  by (simp add: keeps_def)

text \<open>An operation with both halves of the contract keeps the register block mapped.\<close>

definition map_inv :: "mipi_tx \<Rightarrow> bool" where
  "map_inv s \<longleftrightarrow> regs_mapped False (bus s) \<and> map_state False (bus s) = regs_va s \<and>
     (reg_map_flag s = 1 \<longleftrightarrow> regs_va s)"

lemma map_inv_loaded: "map_inv mipi_tx_loaded"
  by (simp add: map_inv_def mipi_tx_loaded_def)

lemma map_inv_step:
  assumes "appends plain_op m" and "keeps map_vars m" and "map_inv s" and "regs_va s"
  shows "map_inv (after m s)" and "regs_va (after m s)"
proof -
  obtain ops where ops: "bus (after m s) = bus s @ ops" "list_all plain_op ops"
    by (rule appendsE [OF assms(1)])
  have same: "regs_va (after m s) = regs_va s" "reg_map_flag (after m s) = reg_map_flag s"
    using keepsD [OF assms(2), of s] by simp_all
  show "map_inv (after m s)"
    using assms(3,4) ops same
    by (simp add: map_inv_def regs_mapped_append plain_map_state plain_regs_mapped)
  show "regs_va (after m s)" using same assms(4) by simp
qed

end
