(* ===== verification/Mipi_Tx_Phy.thy ===== *)
theory Mipi_Tx_Phy
  imports Mipi_Tx_Bus
begin

section \<open>MIPI TX: D-PHY programming, PLL and timing parameters\<close>

text \<open>
  The functions of \<open>mipi_tx_hi35xx.c\<close> that program the D-PHY: the test-interface write
  \<open>SetPhyReg\<close>, the PLL settings, and the global operation timing parameters. All arithmetic is
  in C's types: \<open>unsigned int\<close> is \<open>u32\<close> and wraps, the results are cut to \<open>unsigned char\<close>.
  The build options \<open>HI_FPGA\<close> and \<open>MIPI_TX_DEBUG\<close> are off.
\<close>

subsection \<open>Constants of the header\<close>

abbreviation (input) MIPI_TX_REF_CLK :: u32 where "MIPI_TX_REF_CLK \<equiv> 27"
abbreviation (input) TLPX :: u32 where "TLPX \<equiv> 60"
abbreviation (input) TCLK_PREPARE :: u32 where "TCLK_PREPARE \<equiv> 60"
abbreviation (input) TCLK_ZERO :: u32 where "TCLK_ZERO \<equiv> 250"
abbreviation (input) TCLK_TRAIL :: u32 where "TCLK_TRAIL \<equiv> 80"
abbreviation (input) TPRE_DELAY :: u32 where "TPRE_DELAY \<equiv> 100"
abbreviation (input) THS_PREPARE :: u32 where "THS_PREPARE \<equiv> 80"
abbreviation (input) THS_ZERO :: u32 where "THS_ZERO \<equiv> 180"
abbreviation (input) THS_TRAIL :: u32 where "THS_TRAIL \<equiv> 110"
abbreviation (input) PREPARE_COMPENSATE :: u32 where "PREPARE_COMPENSATE \<equiv> 10"
abbreviation (input) ROUNDUP_VALUE :: u32 where "ROUNDUP_VALUE \<equiv> 7999"
abbreviation (input) INNER_PEROID :: u32 where "INNER_PEROID \<equiv> 8000"

subsection \<open>The D-PHY test interface\<close>

definition HdfIsbDsbDmb :: "(mipi_tx, unit) state" where
  "HdfIsbDsbDmb = emit [Isb, Dsb, Dmb]"

definition SetPhyReg :: "u32 \<Rightarrow> u8 \<Rightarrow> (mipi_tx, unit) state" where
  "SetPhyReg addr value = do {
     HdfIsbDsbDmb;
     wr PHY_TST_CTRL1 (0x10000 + addr);
     HdfIsbDsbDmb;
     wr PHY_TST_CTRL0 0x2;
     HdfIsbDsbDmb;
     wr PHY_TST_CTRL0 0x0;
     HdfIsbDsbDmb;
     wr PHY_TST_CTRL1 (ucast value);
     HdfIsbDsbDmb;
     wr PHY_TST_CTRL0 0x2;
     HdfIsbDsbDmb;
     wr PHY_TST_CTRL0 0x0;
     HdfIsbDsbDmb }"

definition SetPhyReg_ops :: "u32 \<Rightarrow> u8 \<Rightarrow> bus_op list" where
  "SetPhyReg_ops addr value =
     [Isb, Dsb, Dmb, Wr PHY_TST_CTRL1 (0x10000 + addr),
      Isb, Dsb, Dmb, Wr PHY_TST_CTRL0 2, Isb, Dsb, Dmb, Wr PHY_TST_CTRL0 0,
      Isb, Dsb, Dmb, Wr PHY_TST_CTRL1 (ucast value),
      Isb, Dsb, Dmb, Wr PHY_TST_CTRL0 2, Isb, Dsb, Dmb, Wr PHY_TST_CTRL0 0,
      Isb, Dsb, Dmb]"

lemma SetPhyReg_emit [run_simps]: "SetPhyReg addr value = emit (SetPhyReg_ops addr value)"
  by (simp add: SetPhyReg_def SetPhyReg_ops_def HdfIsbDsbDmb_def bus_defs)

text \<open>
  Reading a bus history back as a sequence of PHY register writes: an address phase (bit 16
  of \<open>PHY_TST_CTRL1\<close> set, strobed by \<open>PHY_TST_CTRL0\<close>) followed by a data phase. This is the
  abstract view of \<open>SetPhyReg\<close>.
\<close>

fun pair_phases :: "u32 list \<Rightarrow> (u32 \<times> u8) list" where
  "pair_phases (a # d # vs) =
     (if bit a 16 \<and> \<not> bit d 16 then (a - 0x10000, ucast d) # pair_phases vs else pair_phases (d # vs))"
| "pair_phases _ = []"

definition phy_writes :: "bus_op list \<Rightarrow> (u32 \<times> u8) list" where
  "phy_writes ops = pair_phases (writes_of PHY_TST_CTRL1 ops)"

lemma writes_SetPhyReg_ops [simp]:
  "writes_of PHY_TST_CTRL1 (SetPhyReg_ops a v) = [0x10000 + a, ucast v]"
  by (simp add: SetPhyReg_ops_def)

lemma phase_bits:
  assumes "a < 0x10000"
  shows "bit (0x10000 + a :: u32) 16" and "\<not> bit (ucast (v :: u8) :: u32) 16"
proof -
  have "uint a < 2 ^ 16" using assms by (simp add: word_less_def)
  then have "take_bit 16 a = a"
    by (intro word_uint_eqI) (simp add: unsigned_take_bit_eq take_bit_int_eq_self)
  then have small: "\<not> bit a n" if "16 \<le> n" for n
    using that by (metis bit_take_bit_iff not_le)
  have "0x10000 + a = 0x10000 OR a"
  proof (rule disjunctive_add)
    fix n
    have "bit (0x10000 :: u32) n \<longleftrightarrow> n = 16"
      using bit_exp_iff [where 'a = "32 word", of 16 n] by (auto simp: possible_bit_def)
    then show "\<not> bit (0x10000 :: u32) n \<or> \<not> bit a n" using small by auto
  qed
  moreover have "bit (0x10000 :: u32) 16"
    using bit_exp_iff [where 'a = "32 word", of 16 16] by (simp add: possible_bit_def)
  ultimately show "bit (0x10000 + a) 16" by (simp add: bit_or_iff)
  show "\<not> bit (ucast v :: u32) 16"
    by (auto simp: bit_ucast_iff dest: bit_imp_le_length)
qed

lemma ucast_ucast_u8: "ucast (ucast (v :: u8) :: u32) = v"
  by (rule bit_eqI) (auto simp: bit_ucast_iff dest: bit_imp_le_length)

definition phy_script :: "(u32 \<times> u8) list \<Rightarrow> bus_op list" where
  "phy_script avs = concat (map (\<lambda>(a, v). SetPhyReg_ops a v) avs)"

lemma phy_script_simps [simp]:
  "phy_script [] = []"
  "phy_script ((a, v) # avs) = SetPhyReg_ops a v @ phy_script avs"
  by (simp_all add: phy_script_def)

lemma phy_script_append: "phy_script (xs @ ys) = phy_script xs @ phy_script ys"
  by (simp add: phy_script_def)

lemma phy_writes_script:
  assumes "\<forall>(a, v) \<in> set avs. a < 0x10000"
  shows "phy_writes (phy_script avs) = avs"
proof -
  have "pair_phases (writes_of PHY_TST_CTRL1 (phy_script avs)) = avs"
    using assms
  proof (induction avs)
    case (Cons av avs)
    obtain a v where av: "av = (a, v)" by (cases av)
    with Cons.prems have "a < 0x10000" by simp
    with Cons av show ?case by (simp add: phase_bits ucast_ucast_u8)
  qed simp
  then show ?thesis by (simp add: phy_writes_def)
qed

lemma SetPhyReg_ops_plain [simp]: "list_all plain_op (SetPhyReg_ops a v)"
  by (simp add: SetPhyReg_ops_def)

lemma phy_script_plain [simp]: "list_all plain_op (phy_script avs)"
  by (induction avs) auto

subsection \<open>PLL settings\<close>

definition MipiTxDrvGetPhyPllSet0 :: "u32 \<Rightarrow> u8" where
  "MipiTxDrvGetPhyPllSet0 phyDataRate =
     (if phyDataRate > 750 then 0x0
      else if phyDataRate > 375 then 0x8
      else if phyDataRate > 188 then 0xa
      else if phyDataRate > 94 then 0xc
      else 0xe)"

definition pllRef_of :: "u8 \<Rightarrow> int" where
  "pllRef_of pllSet0 =
     (if pllSet0 div 2 = 4 then 2
      else if pllSet0 div 2 = 5 then 4
      else if pllSet0 div 2 = 6 then 8
      else if pllSet0 div 2 = 7 then 16
      else 1)"

text \<open>
  The out-parameters come in with what they pointed to and go out with what was stored; when
  the product is too large for an \<open>int\<close> the function returns without storing.
\<close>

definition MipiTxDrvGetPhyPllSet1Set5 :: "u32 \<Rightarrow> u8 \<Rightarrow> u8 \<times> u8 \<Rightarrow> u8 \<times> u8" where
  "MipiTxDrvGetPhyPllSet1Set5 phyDataRate pllSet0 old =
     (let dataRateClk = uint ((phyDataRate + MIPI_TX_REF_CLK - 1) div MIPI_TX_REF_CLK);
          pllRef = pllRef_of pllSet0;
          int_multiplication = dataRateClk * pllRef
      in if int_multiplication > 0x7fffffff then old
         else if int_multiplication mod 2 \<noteq> 0
         then (0x10, word_of_int ((int_multiplication - 1) div 2))
         else (0x20, word_of_int (int_multiplication div 2 - 1)))"

abbreviation (input) PLL_SET0 :: u32 where "PLL_SET0 \<equiv> 0x60"
abbreviation (input) PLL_SET1 :: u32 where "PLL_SET1 \<equiv> 0x64"
abbreviation (input) PLL_SET2 :: u32 where "PLL_SET2 \<equiv> 0x65"
abbreviation (input) PLL_SET4 :: u32 where "PLL_SET4 \<equiv> 0x66"
abbreviation (input) PLL_SET5 :: u32 where "PLL_SET5 \<equiv> 0x67"

definition MipiTxDrvSetPhyPllSetX :: "mipi_env \<Rightarrow> u32 \<Rightarrow> (mipi_tx, unit) state" where
  "MipiTxDrvSetPhyPllSetX env phyDataRate = do {
     let pllSet0 = MipiTxDrvGetPhyPllSet0 phyDataRate;
     SetPhyReg PLL_SET0 pllSet0;
     let (pllSet1, pllSet5) =
       MipiTxDrvGetPhyPllSet1Set5 phyDataRate pllSet0 (stack8 env, stack8 env);
     SetPhyReg PLL_SET1 pllSet1;
     SetPhyReg PLL_SET2 0x2;
     SetPhyReg PLL_SET4 0x0;
     SetPhyReg PLL_SET5 pllSet5 }"

text \<open>
  The bit rate the PLL settings stand for: \<open>pllSet1\<close> 0x10 means an odd multiplier
  \<open>2 * pllSet5 + 1\<close>, 0x20 an even one \<open>2 * (pllSet5 + 1)\<close>, and \<open>pllSet0\<close> the output divider.
  The reference clock is 27.
\<close>

definition pll_multiplier :: "u8 \<times> u8 \<Rightarrow> int" where
  "pll_multiplier p = (if fst p = 0x10 then 2 * uint (snd p) + 1 else 2 * (uint (snd p) + 1))"

lemma rateClk_nat:
  assumes "unat rate \<le> 4294967269"
  shows "uint ((rate + 27 - 1 :: u32) div 27) = int ((unat rate + 26) div 27)"
proof -
  have "unat (26 + rate) = unat rate + 26"
    using assms by (simp add: unat_word_ariths)
  then have "unat ((26 + rate) div 27) = (unat rate + 26) div 27"
    by (simp add: unat_div)
  moreover have "rate + 27 - 1 = 26 + rate" by simp
  ultimately show ?thesis by (simp only: uint_nat)
qed

lemma pllRef_of_values:
  "pllRef_of 0 = 1" "pllRef_of 8 = 2" "pllRef_of 10 = 4" "pllRef_of 12 = 8" "pllRef_of 14 = 16"
  by (simp_all add: pllRef_of_def)

lemma pllRef_by_rate:
  "pllRef_of (MipiTxDrvGetPhyPllSet0 r) =
     (if unat r > 750 then 1 else if unat r > 375 then 2 else if unat r > 188 then 4
      else if unat r > 94 then 8 else 16)"
  unfolding MipiTxDrvGetPhyPllSet0_def if_distrib [of pllRef_of] pllRef_of_values
    word_less_nat_alt unat_numeral
  by simp

text \<open>The guard against \<open>int\<close> overflow never fires, whatever the requested rate.\<close>

lemma pll_product_small:
  "uint ((r + MIPI_TX_REF_CLK - 1) div MIPI_TX_REF_CLK) * pllRef_of (MipiTxDrvGetPhyPllSet0 r)
     \<le> 0x7fffffff"
proof (cases "unat r > 750")
  case True
  have "unat ((r + 27 - 1) div 27) = unat (r + 27 - 1) div 27" by (simp add: unat_div)
  moreover have "unat (r + 27 - 1) < 4294967296" by (rule unat_lt_32)
  ultimately have "unat ((r + 27 - 1) div 27) \<le> 159072862" by linarith
  then have "uint ((r + 27 - 1) div 27) \<le> 159072862" unfolding uint_nat by linarith
  moreover have "pllRef_of (MipiTxDrvGetPhyPllSet0 r) = 1"
    using True unfolding pllRef_by_rate by presburger
  ultimately show ?thesis by presburger
next
  case False
  then have "uint ((r + 27 - 1) div 27) = int ((unat r + 26) div 27)"
    by (intro rateClk_nat) simp
  moreover have "(unat r + 26) div 27 \<le> 28" using False by linarith
  ultimately show ?thesis by (auto simp: pllRef_by_rate)
qed

lemma uint_u8_of_int: "uint (word_of_int k :: u8) = k mod 256"
  by (simp add: uint_word_of_int)

lemma pll_set5_exact:
  assumes "0 < n" and "n \<le> 512"
  defines "p \<equiv> (if n mod 2 \<noteq> 0 then (0x10 :: u8, word_of_int ((n - 1) div 2) :: u8)
                 else (0x20, word_of_int (n div 2 - 1)))"
  shows "pll_multiplier p = n"
proof (cases "n mod 2 = 0")
  case True
  then have p: "p = (0x20, word_of_int (n div 2 - 1))" by (simp add: p_def)
  have "(n div 2 - 1) mod 256 = n div 2 - 1" using assms(1,2) True by auto
  then have "uint (snd p) = n div 2 - 1" unfolding p snd_conv uint_u8_of_int .
  moreover have "fst p \<noteq> 0x10" by (simp add: p)
  ultimately show ?thesis using True by (simp add: pll_multiplier_def) presburger
next
  case False
  then have p: "p = (0x10, word_of_int ((n - 1) div 2))" unfolding p_def by metis
  have "((n - 1) div 2) mod 256 = (n - 1) div 2" using assms(1,2) by simp
  then have "uint (snd p) = (n - 1) div 2" unfolding p snd_conv uint_u8_of_int .
  moreover have "fst p = 0x10" by (simp add: p)
  ultimately show ?thesis using False by (simp add: pll_multiplier_def) presburger
qed

lemma pll_multiplier_exact:
  assumes "0 < unat r" and "unat r \<le> 13824"
  shows "pll_multiplier (MipiTxDrvGetPhyPllSet1Set5 r (MipiTxDrvGetPhyPllSet0 r) old) =
    int ((unat r + 26) div 27) * pllRef_of (MipiTxDrvGetPhyPllSet0 r)"
proof -
  let ?n = "int ((unat r + 26) div 27) * pllRef_of (MipiTxDrvGetPhyPllSet0 r)"
  have clk: "uint ((r + 27 - 1) div 27) = int ((unat r + 26) div 27)"
    using assms by (intro rateClk_nat) simp
  have "0 < ?n" using assms by (simp add: pllRef_by_rate)
  moreover have "?n \<le> 512"
    using assms by (simp add: pllRef_by_rate) linarith
  moreover have "\<not> ?n > 0x7fffffff"
    using pll_product_small [of r] clk by simp
  ultimately show ?thesis
    using pll_set5_exact [of ?n] by (simp only: MipiTxDrvGetPhyPllSet1Set5_def Let_def clk if_False)
qed

subsection \<open>Timing parameters\<close>

text \<open>Time of \<open>k\<close> units at the actual rate, rounded up to the inner period.\<close>

definition periods :: "u32 \<Rightarrow> u32 \<Rightarrow> u32" where
  "periods rate k = (rate * k + ROUNDUP_VALUE) div INNER_PEROID"

definition MipiTxDrvGetPhyClkPrepare :: "u32 \<Rightarrow> u8" where
  "MipiTxDrvGetPhyClkPrepare rate =
     (let temp0 = ucast (periods rate TCLK_PREPARE - 1 + periods rate PREPARE_COMPENSATE -
            ((periods rate TCLK_PREPARE + periods rate PREPARE_COMPENSATE) * INNER_PEROID -
             PREPARE_COMPENSATE * rate - TCLK_PREPARE * rate) div INNER_PEROID) :: u8;
          temp1 = (if temp0 > 0 then temp0 else 0)
      in if (ucast temp1 + 1) * INNER_PEROID - PREPARE_COMPENSATE * rate > 94 * rate
         then (if temp0 > 0 then temp0 - 1 else 255)
         else (if temp0 > 0 then temp0 else 0))"

definition MipiTxDrvGetPhyDataPrepare :: "u32 \<Rightarrow> u8" where
  "MipiTxDrvGetPhyDataPrepare rate =
     (let temp0 = ucast (periods rate THS_PREPARE - 1 + periods rate PREPARE_COMPENSATE -
            ((periods rate THS_PREPARE + periods rate PREPARE_COMPENSATE) * INNER_PEROID -
             PREPARE_COMPENSATE * rate - THS_PREPARE * rate) div INNER_PEROID) :: u8;
          temp1 = (if temp0 > 0 then temp0 else 0)
      in if rate > 105 \<and>
            (ucast temp1 + 1) * INNER_PEROID - PREPARE_COMPENSATE * rate > 85 * rate + 6 * 1000
         then (if temp0 > 0 then temp0 - 1 else 255)
         else (if temp0 > 0 then temp0 else 0))"

record MipiTxPhyTimingParamTag =
  dataTpreDelay :: u8
  clkTlpx :: u8
  clkTclkPrepare :: u8
  clkTclkZero :: u8
  clkTclkTrail :: u8
  dataTlpx :: u8
  dataThsPrepare :: u8
  dataThsZero :: u8
  dataThsTrail :: u8

definition MipiTxDrvGetPhyTimingParam :: "u32 \<Rightarrow> MipiTxPhyTimingParamTag" where
  "MipiTxDrvGetPhyTimingParam rate = \<lparr>
     dataTpreDelay = ucast (periods rate TPRE_DELAY - 1),
     clkTlpx = ucast (periods rate TLPX - 1),
     clkTclkPrepare = MipiTxDrvGetPhyClkPrepare rate,
     clkTclkZero = (if periods rate TCLK_ZERO > 4 then ucast (periods rate TCLK_ZERO - 4) else 0),
     clkTclkTrail = ucast (periods rate TCLK_TRAIL),
     dataTlpx = ucast (periods rate TLPX - 1),
     dataThsPrepare = MipiTxDrvGetPhyDataPrepare rate,
     dataThsZero = (if periods rate THS_ZERO > 4 then ucast (periods rate THS_ZERO - 4) else 0),
     dataThsTrail = ucast (periods rate THS_TRAIL + 1)\<rparr>"

definition timing_script :: "MipiTxPhyTimingParamTag \<Rightarrow> (u32 \<times> u8) list" where
  "timing_script tp = [
     (0x28, dataTpreDelay tp), (0x38, dataTpreDelay tp),
     (0x48, dataTpreDelay tp), (0x58, dataTpreDelay tp),
     (0x10, clkTlpx tp), (0x11, clkTclkPrepare tp), (0x12, clkTclkZero tp), (0x13, clkTclkTrail tp),
     (0x20, dataTlpx tp), (0x21, dataThsPrepare tp), (0x22, dataThsZero tp), (0x23, dataThsTrail tp),
     (0x30, dataTlpx tp), (0x31, dataThsPrepare tp), (0x32, dataThsZero tp), (0x33, dataThsTrail tp),
     (0x40, dataTlpx tp), (0x41, dataThsPrepare tp), (0x42, dataThsZero tp), (0x43, dataThsTrail tp),
     (0x50, dataTlpx tp), (0x51, dataThsPrepare tp), (0x52, dataThsZero tp), (0x53, dataThsTrail tp)]"

definition MipiTxDrvSetPhyTimingParam :: "MipiTxPhyTimingParamTag \<Rightarrow> (mipi_tx, unit) state" where
  "MipiTxDrvSetPhyTimingParam tp = for_each (timing_script tp) (\<lambda>(a, v). SetPhyReg a v)"

definition MipiTxDrvSetPhyHsLpSwitchTime :: "MipiTxPhyTimingParamTag \<Rightarrow> (mipi_tx, unit) state" where
  "MipiTxDrvSetPhyHsLpSwitchTime tp = do {
     wr PHY_TMR_CFG (push_bit 16 (ucast (dataThsTrail tp) - 1) +
       ucast (dataTpreDelay tp) + ucast (dataTlpx tp) + ucast (dataThsPrepare tp) +
       ucast (dataThsZero tp) + 7);
     wr PHY_TMR_LPCLK_CFG (push_bit 16 (31 + ucast (dataThsTrail tp)) +
       ucast (clkTlpx tp) + ucast (clkTclkPrepare tp) + ucast (clkTclkZero tp) + 6) }"

subsection \<open>The scripts are what goes over the bus\<close>

definition pll_script :: "mipi_env \<Rightarrow> u32 \<Rightarrow> (u32 \<times> u8) list" where
  "pll_script env rate =
     (let set0 = MipiTxDrvGetPhyPllSet0 rate;
          p = MipiTxDrvGetPhyPllSet1Set5 rate set0 (stack8 env, stack8 env)
      in [(PLL_SET0, set0), (PLL_SET1, fst p), (PLL_SET2, 2), (PLL_SET4, 0), (PLL_SET5, snd p)])"

lemma MipiTxDrvSetPhyPllSetX_emit [run_simps]:
  "MipiTxDrvSetPhyPllSetX env rate = emit (phy_script (pll_script env rate))"
  by (simp add: MipiTxDrvSetPhyPllSetX_def pll_script_def run_simps Let_def case_prod_beta)

lemma MipiTxDrvSetPhyTimingParam_emit [run_simps]:
  "MipiTxDrvSetPhyTimingParam tp = emit (phy_script (timing_script tp))"
proof -
  have "(\<lambda>(a, v). SetPhyReg a v) = (\<lambda>x. emit (case x of (a, v) \<Rightarrow> SetPhyReg_ops a v))"
    by (auto simp: fun_eq_iff run_simps)
  then show ?thesis
    unfolding MipiTxDrvSetPhyTimingParam_def phy_script_def by (simp only: for_each_emit)
qed

subsection \<open>The timing parameters are exact\<close>

text \<open>
  Up to a rate of 8288 Mbit/s no intermediate value wraps and no result is cut by the
  conversion to \<open>unsigned char\<close>: the parameters are the times of the header, rounded up to the
  inner period and compensated.
\<close>

definition ceil8 :: "nat \<Rightarrow> nat" where
  "ceil8 n = (n + 7999) div 8000"

lemma periods_nat:
  assumes "unat r * unat k \<le> 4000000000"
  shows "unat (periods r k) = ceil8 (unat r * unat k)"
proof -
  have "unat (r * k) = unat r * unat k" using assms by (simp add: unat_word_ariths)
  then have "unat (r * k + 7999) = unat r * unat k + 7999"
    using assms by (simp add: unat_word_ariths)
  then show ?thesis by (simp add: periods_def ceil8_def unat_div)
qed

lemma unat_minus_le:
  assumes "unat b \<le> unat (a :: u32)"
  shows "unat (a - b) = unat a - unat b"
  using assms by (simp add: unat_sub word_le_nat_alt)

text \<open>The rounding expression of both prepare times is the rounded-up sum, less one.\<close>

lemma ceil8_bounds: "n \<le> ceil8 n * 8000" "ceil8 n * 8000 < n + 8000"
  unfolding ceil8_def by linarith+

lemma ceil8_le:
  assumes "z \<le> S * 8000"
  shows "ceil8 z \<le> S" and "(S * 8000 - z) div 8000 = S - ceil8 z"
proof -
  show c: "ceil8 z \<le> S" using assms ceil8_bounds(2) [of z] by linarith
  then obtain d where d: "S = ceil8 z + d" by (metis le_iff_add)
  have "(S * 8000 - z) div 8000 = d"
  proof (rule div_nat_eqI)
    show "8000 * d \<le> S * 8000 - z"
      using ceil8_bounds(1) [of z] unfolding d by (simp add: distrib_right)
    show "S * 8000 - z < 8000 * Suc d"
      using ceil8_bounds [of z] unfolding d by (simp add: distrib_right)
  qed
  then show "(S * 8000 - z) div 8000 = S - ceil8 z" by (simp add: d)
qed

lemma ceil8_complement:
  "x + y \<le> (ceil8 x + ceil8 y) * 8000"
  "ceil8 (x + y) \<le> ceil8 x + ceil8 y"
  "((ceil8 x + ceil8 y) * 8000 - y - x) div 8000 = ceil8 x + ceil8 y - ceil8 (x + y)"
proof -
  show le: "x + y \<le> (ceil8 x + ceil8 y) * 8000"
    using add_mono [OF ceil8_bounds(1) ceil8_bounds(1)] by (simp only: distrib_right)
  from le show "ceil8 (x + y) \<le> ceil8 x + ceil8 y" by (rule ceil8_le)
  have "(ceil8 x + ceil8 y) * 8000 - y - x = (ceil8 x + ceil8 y) * 8000 - (x + y)" by linarith
  with ceil8_le(2) [OF le]
  show "((ceil8 x + ceil8 y) * 8000 - y - x) div 8000 = ceil8 x + ceil8 y - ceil8 (x + y)"
    by (simp only:)
qed

lemma unat_ucast_u8: "unat (ucast (w :: u32) :: u8) = unat w mod 256"
  by (simp add: unsigned_ucast_eq take_bit_eq_mod)

lemma unat_ucast_u32: "unat (ucast (b :: u8) :: u32) = unat b"
proof -
  have "unat b < 256" by (rule unat_lt_8)
  then show ?thesis by (simp add: unsigned_ucast_eq take_bit_eq_mod)
qed

lemma prepare_temp0:
  assumes R: "0 < unat r" "unat r \<le> 8288" and k: "0 < unat k" "unat k \<le> 200"
  shows "unat (ucast (periods r k - 1 + periods r 10 -
      ((periods r k + periods r 10) * 8000 - 10 * r - k * r) div 8000) :: u8)
    = (ceil8 (unat r * (unat k + 10)) - 1) mod 256"
proof -
  let ?R = "unat r" and ?K = "unat k"
  define A B where "A = ceil8 (?R * ?K)" and "B = ceil8 (?R * 10)"
  have rk: "?R * ?K \<le> 8288 * 200" using R k by (intro mult_le_mono) auto
  have a: "unat (periods r k) = A" using rk by (simp add: A_def periods_nat)
  have b: "unat (periods r 10) = B" using R periods_nat [of r 10] by (simp add: B_def)
  have Ab: "1 \<le> A" "A \<le> 208" "1 \<le> B" "B \<le> 11"
    using R k rk unfolding A_def B_def ceil8_def
    by (simp_all add: div_le_mono Suc_le_eq div_greater_zero_iff)
  have kr: "unat (k * r) = ?R * ?K" "unat (10 * r) = ?R * 10"
    using rk R by (simp_all add: unat_word_ariths mult.commute)
  have s1: "unat ((periods r k + periods r 10) * 8000) = (A + B) * 8000"
    using Ab by (simp add: unat_word_ariths a b)
  have le: "?R * ?K + ?R * 10 \<le> (A + B) * 8000"
    unfolding A_def B_def by (rule ceil8_complement(1))
  define X where "X = (periods r k + periods r 10) * 8000"
  have "unat (X - 10 * r - k * r) = (A + B) * 8000 - ?R * 10 - ?R * ?K"
    using le by (simp add: unat_minus_le s1 [folded X_def] kr)
  then have s4: "unat ((X - 10 * r - k * r) div 8000) = A + B - ceil8 (?R * ?K + ?R * 10)"
    using ceil8_complement(3) [of "?R * ?K" "?R * 10", folded A_def B_def] by (simp add: unat_div)
  have c: "1 \<le> ceil8 (?R * ?K + ?R * 10)" "ceil8 (?R * ?K + ?R * 10) \<le> A + B"
    using R k by (simp_all add: A_def B_def ceil8_complement(2)) (simp add: ceil8_def div_greater_zero_iff Suc_le_eq)
  have s5: "unat (periods r k - 1 + periods r 10) = A - 1 + B"
    using Ab by (simp add: unat_word_ariths unat_minus_le a b)
  have "unat (periods r k - 1 + periods r 10 - (X - 10 * r - k * r) div 8000) = ceil8 (?R * ?K + ?R * 10) - 1"
    using c Ab by (simp add: unat_minus_le s4 s5)
  moreover have "?R * ?K + ?R * 10 = ?R * (?K + 10)" by (simp add: algebra_simps)
  ultimately show ?thesis by (simp add: unat_ucast_u8 X_def)
qed


lemma ceil8_mono: "m \<le> n \<Longrightarrow> ceil8 m \<le> ceil8 n"
  by (simp add: ceil8_def div_le_mono)

lemma ceil8_pos: "0 < n \<Longrightarrow> 1 \<le> ceil8 n"
  using ceil8_bounds(1) [of n] by linarith

text \<open>The second half of both functions: one level less when the rounded-up time is too long.\<close>

definition prepare_level :: "nat \<Rightarrow> bool \<Rightarrow> nat" where
  "prepare_level c too_long =
     (if too_long then (if c = 1 then 255 else c - 2) else c - 1)"

lemma clk_prepare_exact:
  assumes R: "0 < unat r" "unat r \<le> 8288"
  shows "unat (MipiTxDrvGetPhyClkPrepare r) =
    prepare_level (ceil8 (70 * unat r)) (104 * unat r < ceil8 (70 * unat r) * 8000)"
proof -
  let ?c = "ceil8 (70 * unat r)"
  define t :: u8 where "t = ucast (periods r 60 - 1 + periods r 10 -
      ((periods r 60 + periods r 10) * 8000 - 10 * r - 60 * r) div 8000)"
  have c: "1 \<le> ?c" "?c \<le> 73"
    using R ceil8_pos [of "70 * unat r"] ceil8_mono [of "70 * unat r" "70 * 8288"]
    by (simp_all add: ceil8_def)
  then have t: "unat t = ?c - 1"
    using prepare_temp0 [OF R, of 60] by (simp add: t_def mult.commute)
  have "70 * unat r \<le> ?c * 8000" by (rule ceil8_bounds(1))
  then have cmp: "(ucast t + 1) * 8000 - 10 * r > 94 * r \<longleftrightarrow> 104 * unat r < ?c * 8000"
    using R c by (simp add: word_less_nat_alt unat_minus_le unat_word_ariths unat_ucast_u32 t) linarith
  have t0: "t > 0 \<longleftrightarrow> ?c \<noteq> 1" using c t by (auto simp: word_less_nat_alt)
  have "MipiTxDrvGetPhyClkPrepare r =
      (if 104 * unat r < ?c * 8000 then (if ?c \<noteq> 1 then t - 1 else 255) else t)"
    unfolding MipiTxDrvGetPhyClkPrepare_def t_def [symmetric] Let_def
    using cmp t0 by (auto simp: word_gt_0)
  moreover have "?c \<noteq> 1 \<Longrightarrow> unat (t - 1) = ?c - 2"
    using c t t0 by (simp add: unat_minus_one word_gt_0)
  ultimately show ?thesis using t by (simp add: prepare_level_def)
qed

lemma data_prepare_exact:
  assumes R: "0 < unat r" "unat r \<le> 8288"
  shows "unat (MipiTxDrvGetPhyDataPrepare r) =
    prepare_level (ceil8 (90 * unat r)) (105 < unat r \<and> 95 * unat r + 6000 < ceil8 (90 * unat r) * 8000)"
proof -
  let ?c = "ceil8 (90 * unat r)"
  define t :: u8 where "t = ucast (periods r 80 - 1 + periods r 10 -
      ((periods r 80 + periods r 10) * 8000 - 10 * r - 80 * r) div 8000)"
  have c: "1 \<le> ?c" "?c \<le> 94"
    using R ceil8_pos [of "90 * unat r"] ceil8_mono [of "90 * unat r" "90 * 8288"]
    by (simp_all add: ceil8_def)
  then have t: "unat t = ?c - 1"
    using prepare_temp0 [OF R, of 80] by (simp add: t_def mult.commute)
  have "90 * unat r \<le> ?c * 8000" by (rule ceil8_bounds(1))
  then have cmp: "r > 105 \<and> (ucast t + 1) * 8000 - 10 * r > 85 * r + 6 * 1000 \<longleftrightarrow>
      105 < unat r \<and> 95 * unat r + 6000 < ?c * 8000"
    using R c by (simp add: word_less_nat_alt unat_minus_le unat_word_ariths unat_ucast_u32 t) linarith
  have t0: "t > 0 \<longleftrightarrow> ?c \<noteq> 1" using c t by (auto simp: word_less_nat_alt)
  have "MipiTxDrvGetPhyDataPrepare r =
      (if 105 < unat r \<and> 95 * unat r + 6000 < ?c * 8000 then (if ?c \<noteq> 1 then t - 1 else 255) else t)"
    unfolding MipiTxDrvGetPhyDataPrepare_def t_def [symmetric] Let_def
    using cmp t0 by (auto simp: word_gt_0)
  moreover have "?c \<noteq> 1 \<Longrightarrow> unat (t - 1) = ?c - 2"
    using c t t0 by (simp add: unat_minus_one word_gt_0)
  ultimately show ?thesis using t by (simp add: prepare_level_def)
qed


lemma periods_cut:
  assumes "unat r \<le> 8288" and "unat k \<le> 250"
  shows "unat (periods r k) = ceil8 (unat k * unat r)" "ceil8 (unat k * unat r) \<le> 259"
proof -
  have "unat k * unat r \<le> 250 * 8288" using assms by (intro mult_le_mono)
  then show "unat (periods r k) = ceil8 (unat k * unat r)" "ceil8 (unat k * unat r) \<le> 259"
    using periods_nat [of r k] ceil8_mono [of "unat k * unat r" "250 * 8288"]
    by (simp_all add: mult.commute) (simp add: ceil8_def)
qed

lemma cut_exact: "unat (w :: u32) < 256 \<Longrightarrow> unat (ucast w :: u8) = unat w"
  by (simp add: unat_ucast_u8)

lemma cut_periods_minus:
  assumes R: "0 < unat r" "unat r \<le> 8288" and k: "0 < unat k" "unat k \<le> 250"
    and c: "unat c \<le> ceil8 (unat k * unat r)" "ceil8 (unat k * unat r) < unat c + 256"
  shows "unat (ucast (periods r k - c) :: u8) = ceil8 (unat k * unat r) - unat c"
proof -
  have "unat (periods r k - c) = ceil8 (unat k * unat r) - unat c"
    using c by (simp add: unat_minus_le periods_cut R k)
  then show ?thesis using c by (simp add: cut_exact)
qed

lemma timing_params_exact:
  assumes R: "0 < unat r" "unat r \<le> 8288"
  defines "tp \<equiv> MipiTxDrvGetPhyTimingParam r"
  shows "unat (dataTpreDelay tp) = ceil8 (100 * unat r) - 1"
    and "unat (clkTlpx tp) = ceil8 (60 * unat r) - 1"
    and "unat (clkTclkZero tp) = ceil8 (250 * unat r) - 4"
    and "unat (clkTclkTrail tp) = ceil8 (80 * unat r)"
    and "unat (dataTlpx tp) = ceil8 (60 * unat r) - 1"
    and "unat (dataThsZero tp) = ceil8 (180 * unat r) - 4"
    and "unat (dataThsTrail tp) = ceil8 (110 * unat r) + 1"
proof -
  have le: "ceil8 (k * unat r) \<le> ceil8 (k * 8288)" for k
    using R by (intro ceil8_mono mult_le_mono) auto
  have pos: "0 < k \<Longrightarrow> 1 \<le> ceil8 (k * unat r)" for k using R by (intro ceil8_pos) simp
  note b = le [of 100] le [of 60] le [of 250] le [of 80] le [of 180] le [of 110]
  note p = pos [of 100] pos [of 60] pos [of 80] pos [of 110]
  show "unat (dataTpreDelay tp) = ceil8 (100 * unat r) - 1"
    using R b(1) p(1) cut_periods_minus [of r 100 1]
    by (simp add: tp_def MipiTxDrvGetPhyTimingParam_def ceil8_def)
  show "unat (clkTlpx tp) = ceil8 (60 * unat r) - 1" "unat (dataTlpx tp) = ceil8 (60 * unat r) - 1"
    using R b(2) p(2) cut_periods_minus [of r 60 1]
    by (simp_all add: tp_def MipiTxDrvGetPhyTimingParam_def ceil8_def)
  show "unat (clkTclkTrail tp) = ceil8 (80 * unat r)"
    using R b(4) periods_cut(1) [of r 80]
    by (simp add: tp_def MipiTxDrvGetPhyTimingParam_def cut_exact ceil8_def)
  show "unat (clkTclkZero tp) = ceil8 (250 * unat r) - 4"
    using R b(3) cut_periods_minus [of r 250 4] periods_cut(1) [of r 250]
    by (auto simp: tp_def MipiTxDrvGetPhyTimingParam_def word_less_nat_alt ceil8_def)
  show "unat (dataThsZero tp) = ceil8 (180 * unat r) - 4"
    using R b(5) cut_periods_minus [of r 180 4] periods_cut(1) [of r 180]
    by (auto simp: tp_def MipiTxDrvGetPhyTimingParam_def word_less_nat_alt ceil8_def)
  have "unat (periods r 110 + 1) = ceil8 (110 * unat r) + 1"
    using R b(6) periods_cut(1) [of r 110] by (simp add: unat_word_ariths ceil8_def)
  then show "unat (dataThsTrail tp) = ceil8 (110 * unat r) + 1"
    using R b(6) by (simp add: tp_def MipiTxDrvGetPhyTimingParam_def cut_exact ceil8_def)
qed

end
