(* ===== verification/Mipi_Tx_Ctrl.thy ===== *)
theory Mipi_Tx_Ctrl
  imports Mipi_Tx_Phy
begin

section \<open>MIPI TX: controller and PHY configuration\<close>

text \<open>
  The configuration half of \<open>mipi_tx_hi35xx.c\<close>: the device configuration (\<open>mipi_dsi_define.h\<close>),
  the functions that program the controller and the PHY from it, and the input and reset
  switches. C enumerations are \<open>u32\<close> values with the names of their enumerators, because the
  driver casts unchecked integers to them and validates afterwards.
\<close>

subsection \<open>The device configuration\<close>

abbreviation (input) OUTPUT_MODE_CSI :: u32 where "OUTPUT_MODE_CSI \<equiv> 0"
abbreviation (input) OUTPUT_MODE_DSI_VIDEO :: u32 where "OUTPUT_MODE_DSI_VIDEO \<equiv> 1"
abbreviation (input) OUTPUT_MODE_DSI_CMD :: u32 where "OUTPUT_MODE_DSI_CMD \<equiv> 2"
abbreviation (input) BURST_MODE :: u32 where "BURST_MODE \<equiv> 0"
abbreviation (input) NON_BURST_MODE_SYNC_PULSES :: u32 where "NON_BURST_MODE_SYNC_PULSES \<equiv> 1"
abbreviation (input) NON_BURST_MODE_SYNC_EVENTS :: u32 where "NON_BURST_MODE_SYNC_EVENTS \<equiv> 2"
abbreviation (input) OUT_FORMAT_RGB_16_BIT :: u32 where "OUT_FORMAT_RGB_16_BIT \<equiv> 0"
abbreviation (input) OUT_FORMAT_RGB_18_BIT :: u32 where "OUT_FORMAT_RGB_18_BIT \<equiv> 1"
abbreviation (input) OUT_FORMAT_RGB_24_BIT :: u32 where "OUT_FORMAT_RGB_24_BIT \<equiv> 2"
abbreviation (input) OUT_FORMAT_YUV420_8_BIT_NORMAL :: u32 where "OUT_FORMAT_YUV420_8_BIT_NORMAL \<equiv> 3"
abbreviation (input) OUT_FORMAT_YUV420_8_BIT_LEGACY :: u32 where "OUT_FORMAT_YUV420_8_BIT_LEGACY \<equiv> 4"
abbreviation (input) OUT_FORMAT_YUV422_8_BIT :: u32 where "OUT_FORMAT_YUV422_8_BIT \<equiv> 5"
abbreviation (input) LANE_MAX_NUM :: nat where "LANE_MAX_NUM \<equiv> 4"

record SyncInfoTag =
  vidPktSize :: u16
  vidHsaPixels :: u16
  vidHbpPixels :: u16
  vidHlinePixels :: u16
  vidVsaLines :: u16
  vidVbpLines :: u16
  vidVfpLines :: u16
  vidActiveLines :: u16
  edpiCmdSize :: u16

record ComboDevCfgTag =
  devno :: u32
  laneId :: "int list"
  outputMode :: u32
  videoMode :: u32
  outputFormat :: u32
  syncInfo :: SyncInfoTag
  phyDataRate :: u32
  pixelClk :: u32

subsection \<open>Controller settings\<close>

definition SetOutputFormat :: "ComboDevCfgTag \<Rightarrow> (mipi_tx, unit) state" where
  "SetOutputFormat cfg =
     (let colorCoding =
        (if outputMode cfg = OUTPUT_MODE_CSI then
           (if outputFormat cfg = OUT_FORMAT_YUV420_8_BIT_NORMAL then 0xd
            else if outputFormat cfg = OUT_FORMAT_YUV422_8_BIT then 0x1 else 0)
         else
           (if outputFormat cfg = OUT_FORMAT_RGB_16_BIT then 0x0
            else if outputFormat cfg = OUT_FORMAT_RGB_18_BIT then 0x3
            else if outputFormat cfg = OUT_FORMAT_RGB_24_BIT then 0x5 else 0))
      in wr COLOR_CODING colorCoding)"

definition SetVideoModeCfg :: "ComboDevCfgTag \<Rightarrow> (mipi_tx, unit) state" where
  "SetVideoModeCfg cfg =
     (let m = (if videoMode cfg = NON_BURST_MODE_SYNC_PULSES then 0
               else if videoMode cfg = NON_BURST_MODE_SYNC_EVENTS then 1 else 2);
          m' = (if outputMode cfg = OUTPUT_MODE_CSI \<or> outputMode cfg = OUTPUT_MODE_DSI_CMD
                then 2 else m)
      in wr VID_MODE_CFG (0x3f00 + m'))"

definition SetTimingConfig :: "ComboDevCfgTag \<Rightarrow> (mipi_tx, unit) state" where
  "SetTimingConfig cfg =
     (if pixelClk cfg = 0 then skip
      else do {
        rate \<leftarrow> gets actual_phy_data_rate;
        let hsa = rate * ucast (vidHsaPixels (syncInfo cfg)) * 125 div pixelClk cfg;
        let hbp = rate * ucast (vidHbpPixels (syncInfo cfg)) * 125 div pixelClk cfg;
        let hline = rate * ucast (vidHlinePixels (syncInfo cfg)) * 125 div pixelClk cfg;
        wr VID_HSA_TIME hsa;
        wr VID_HBP_TIME hbp;
        wr VID_HLINE_TIME hline;
        wr VID_VSA_LINES (ucast (vidVsaLines (syncInfo cfg)));
        wr VID_VBP_LINES (ucast (vidVbpLines (syncInfo cfg)));
        wr VID_VFP_LINES (ucast (vidVfpLines (syncInfo cfg)));
        wr VID_VACTIVE_LINES (ucast (vidActiveLines (syncInfo cfg))) })"

definition SetLaneConfig :: "int list \<Rightarrow> nat \<Rightarrow> (mipi_tx, unit) state" where
  "SetLaneConfig lanes len =
     wr PHY_IF_CFG (word_of_nat (length (filter (\<lambda>l. l \<noteq> -1) (take len lanes))) - 1)"

definition MipiTxDrvSetClkMgrCfg :: "(mipi_tx, unit) state" where
  "MipiTxDrvSetClkMgrCfg = do {
     rate \<leftarrow> gets actual_phy_data_rate;
     if rate div 160 < 2 then wr CLKMGR_CFG 0x102
     else wr CLKMGR_CFG (0x100 + (rate + 159) div 160) }"

definition actual_rate_of :: "u32 \<Rightarrow> u32" where
  "actual_rate_of r = ((r + MIPI_TX_REF_CLK - 1) div MIPI_TX_REF_CLK) * MIPI_TX_REF_CLK"

definition MipiTxDrvSetControllerCfg :: "ComboDevCfgTag option \<Rightarrow> (mipi_tx, unit) state" where
  "MipiTxDrvSetControllerCfg cfgp = (case cfgp of None \<Rightarrow> skip | Some cfg \<Rightarrow> do {
     wr OPERATION_MODE 0x0;
     wr VCID 0x0;
     SetOutputFormat cfg;
     modify (\<lambda>s. s\<lparr>actual_phy_data_rate := actual_rate_of (phyDataRate cfg)\<rparr>);
     MipiTxDrvSetClkMgrCfg;
     wr CMD_MODE_CFG 0xffffff00;
     wr PCKHDL_CFG 0x1c;
     wr GEN_VCID 0x0;
     wr MODE_CFG 0x1;
     SetVideoModeCfg cfg;
     (if outputMode cfg = OUTPUT_MODE_DSI_VIDEO \<or> outputMode cfg = OUTPUT_MODE_CSI
      then wr VID_PKT_SIZE (ucast (vidPktSize (syncInfo cfg)))
      else wr EDPI_CMD_SIZE (ucast (edpiCmdSize (syncInfo cfg))));
     wr VID_NUM_CHUNKS 0x0;
     wr VID_NULL_SIZE 0x0;
     SetTimingConfig cfg;
     wr LP_CMD_TIM 0x0;
     wr PHY_TMR_CFG 0x9002D;
     wr PHY_TMR_LPCLK_CFG 0x29002E;
     wr EDPI_CMD_SIZE 0xF0;
     wr LP_WR_TO_CNT 0x0;
     wr BTA_TO_CNT 0x0;
     SetLaneConfig (laneId cfg) LANE_MAX_NUM;
     wr PHY_ULPS_CTRL 0x0;
     wr INT_MSK0 0x0;
     wr PWR_UP 0x0;
     wr PWR_UP 0xf })"

subsection \<open>PHY settings\<close>

definition MipiTxDrvSetPhyCfg :: "mipi_env \<Rightarrow> ComboDevCfgTag option \<Rightarrow> (mipi_tx, unit) state" where
  "MipiTxDrvSetPhyCfg env cfgp = (case cfgp of None \<Rightarrow> skip | Some cfg \<Rightarrow> do {
     MipiTxDrvSetPhyPllSetX env (phyDataRate cfg);
     tp \<leftarrow> gets (\<lambda>s. MipiTxDrvGetPhyTimingParam (actual_phy_data_rate s));
     MipiTxDrvSetPhyTimingParam tp;
     MipiTxDrvSetPhyHsLpSwitchTime tp;
     wr EDPI_CMD_SIZE 0xF0;
     wr PHY_RSTZ 0xf;
     (if outputMode cfg = OUTPUT_MODE_CSI then
        (if outputFormat cfg = OUT_FORMAT_YUV420_8_BIT_NORMAL then do {
           wr DATATYPE0 0x10218; wr CSI_CTRL 0x1111 }
         else if outputFormat cfg = OUT_FORMAT_YUV422_8_BIT then do {
           wr DATATYPE0 0x1021E; wr CSI_CTRL 0x1111 }
         else skip)
      else
        (if outputFormat cfg = OUT_FORMAT_RGB_16_BIT then do {
           wr DATATYPE0 0x111213D; wr CSI_CTRL 0x10100 }
         else if outputFormat cfg = OUT_FORMAT_RGB_18_BIT then do {
           wr DATATYPE0 0x111213D; wr CSI_CTRL 0x10100 }
         else if outputFormat cfg = OUT_FORMAT_RGB_24_BIT then do {
           wr DATATYPE0 0x111213D; wr CSI_CTRL 0x10100 }
         else skip));
     wr PHY_RSTZ 0xF;
     OsalMSleep 1;
     wr LPCLK_CTRL 0x0 })"

subsection \<open>Reset, and switching the input\<close>

definition MipiTxReset :: "(mipi_tx, unit) state" where
  "MipiTxReset = do {
     wr PWR_UP 0x0;
     wr PHY_RSTZ 0xd;
     OsalUDelay 1;
     wr PWR_UP 0x1;
     wr PHY_RSTZ 0xf;
     OsalUDelay 1 }"

definition MipiTxDrvEnableInput :: "u32 \<Rightarrow> (mipi_tx, unit) state" where
  "MipiTxDrvEnableInput mode = do {
     (if mode = OUTPUT_MODE_DSI_VIDEO \<or> mode = OUTPUT_MODE_CSI then wr MODE_CFG 0x0 else skip);
     (if mode = OUTPUT_MODE_DSI_CMD then wr CMD_MODE_CFG 0x0 else skip);
     wr OPERATION_MODE 0x80150000;
     wr LPCLK_CTRL 0x1;
     MipiTxReset;
     modify (\<lambda>s. s\<lparr>en_hs_mode := True\<rparr>) }"

definition MipiTxDrvDisableInput :: "(mipi_tx, unit) state" where
  "MipiTxDrvDisableInput = do {
     wr OPERATION_MODE 0x0;
     wr CMD_MODE_CFG 0xffffff00;
     wr MODE_CFG 0x1;
     wr LPCLK_CTRL 0x0;
     MipiTxReset;
     modify (\<lambda>s. s\<lparr>en_hs_mode := False\<rparr>) }"

subsection \<open>Detected timing of the running device\<close>

record MipiTxDevPhyTag =
  vallDet :: u32
  vactDet :: u32
  hallDet :: u32
  hactDet :: u32
  hbpDet :: u32
  hsaDet :: u32
  vsaDet :: u32

definition MipiTxDrvGetDevStatus ::
  "mipi_env \<Rightarrow> MipiTxDevPhyTag option \<Rightarrow> (mipi_tx, MipiTxDevPhyTag option) state" where
  "MipiTxDrvGetDevStatus env phyCtx = (case phyCtx of None \<Rightarrow> State_Monad.return None
   | Some p \<Rightarrow> do {
       a \<leftarrow> rd env HORI0_DET;
       b \<leftarrow> rd env HORI0_DET;
       c \<leftarrow> rd env HORI1_DET;
       d \<leftarrow> rd env HORI1_DET;
       e \<leftarrow> rd env VERT_DET;
       f \<leftarrow> rd env VERT_DET;
       g \<leftarrow> rd env VSA_DET;
       State_Monad.return (Some \<lparr>vallDet = vall_det f, vactDet = vact_det e, hallDet = hline_det b,
         hactDet = hact_det a, hbpDet = hbp_det c, hsaDet = hsa_det d, vsaDet = vsa_det g\<rparr>) })"

subsection \<open>What the configuration writes, in order\<close>

definition color_coding :: "ComboDevCfgTag \<Rightarrow> u32" where
  "color_coding cfg =
     (if outputMode cfg = OUTPUT_MODE_CSI then
        (if outputFormat cfg = OUT_FORMAT_YUV420_8_BIT_NORMAL then 0xd
         else if outputFormat cfg = OUT_FORMAT_YUV422_8_BIT then 0x1 else 0)
      else
        (if outputFormat cfg = OUT_FORMAT_RGB_18_BIT then 0x3
         else if outputFormat cfg = OUT_FORMAT_RGB_24_BIT then 0x5 else 0))"

definition video_mode :: "ComboDevCfgTag \<Rightarrow> u32" where
  "video_mode cfg =
     (if outputMode cfg = OUTPUT_MODE_CSI \<or> outputMode cfg = OUTPUT_MODE_DSI_CMD then 2
      else if videoMode cfg = NON_BURST_MODE_SYNC_PULSES then 0
      else if videoMode cfg = NON_BURST_MODE_SYNC_EVENTS then 1 else 2)"

definition timing_ops :: "u32 \<Rightarrow> ComboDevCfgTag \<Rightarrow> bus_op list" where
  "timing_ops rate cfg =
     (if pixelClk cfg = 0 then []
      else [Wr VID_HSA_TIME (rate * ucast (vidHsaPixels (syncInfo cfg)) * 125 div pixelClk cfg),
        Wr VID_HBP_TIME (rate * ucast (vidHbpPixels (syncInfo cfg)) * 125 div pixelClk cfg),
        Wr VID_HLINE_TIME (rate * ucast (vidHlinePixels (syncInfo cfg)) * 125 div pixelClk cfg),
        Wr VID_VSA_LINES (ucast (vidVsaLines (syncInfo cfg))),
        Wr VID_VBP_LINES (ucast (vidVbpLines (syncInfo cfg))),
        Wr VID_VFP_LINES (ucast (vidVfpLines (syncInfo cfg))),
        Wr VID_VACTIVE_LINES (ucast (vidActiveLines (syncInfo cfg)))])"

definition clkmgr_value :: "u32 \<Rightarrow> u32" where
  "clkmgr_value rate = (if rate div 160 < 2 then 0x102 else 0x100 + (rate + 159) div 160)"

definition used_lanes :: "int list \<Rightarrow> nat" where
  "used_lanes lanes = length (filter (\<lambda>l. l \<noteq> -1) (take LANE_MAX_NUM lanes))"

definition controller_ops :: "ComboDevCfgTag \<Rightarrow> bus_op list" where
  "controller_ops cfg =
     (let rate = actual_rate_of (phyDataRate cfg) in
      [Wr OPERATION_MODE 0, Wr VCID 0, Wr COLOR_CODING (color_coding cfg),
       Wr CLKMGR_CFG (clkmgr_value rate), Wr CMD_MODE_CFG 0xffffff00, Wr PCKHDL_CFG 0x1c,
       Wr GEN_VCID 0, Wr MODE_CFG 1, Wr VID_MODE_CFG (0x3f00 + video_mode cfg),
       (if outputMode cfg = OUTPUT_MODE_DSI_VIDEO \<or> outputMode cfg = OUTPUT_MODE_CSI
        then Wr VID_PKT_SIZE (ucast (vidPktSize (syncInfo cfg)))
        else Wr EDPI_CMD_SIZE (ucast (edpiCmdSize (syncInfo cfg)))),
       Wr VID_NUM_CHUNKS 0, Wr VID_NULL_SIZE 0] @
      timing_ops rate cfg @
      [Wr LP_CMD_TIM 0, Wr PHY_TMR_CFG 0x9002D, Wr PHY_TMR_LPCLK_CFG 0x29002E, Wr EDPI_CMD_SIZE 0xF0,
       Wr LP_WR_TO_CNT 0, Wr BTA_TO_CNT 0, Wr PHY_IF_CFG (word_of_nat (used_lanes (laneId cfg)) - 1),
       Wr PHY_ULPS_CTRL 0, Wr INT_MSK0 0, Wr PWR_UP 0, Wr PWR_UP 0xf])"

lemma run_SetOutputFormat [run_simps]: "SetOutputFormat cfg = emit [Wr COLOR_CODING (color_coding cfg)]"
  by (simp add: SetOutputFormat_def color_coding_def bus_defs)

lemma run_SetVideoModeCfg [run_simps]: "SetVideoModeCfg cfg = emit [Wr VID_MODE_CFG (0x3f00 + video_mode cfg)]"
  by (simp add: SetVideoModeCfg_def video_mode_def bus_defs)

lemma run_SetTimingConfig [run_simps]:
  "run_state (SetTimingConfig cfg) s = ((), s\<lparr>bus := bus s @ timing_ops (actual_phy_data_rate s) cfg\<rparr>)"
  by (simp add: SetTimingConfig_def timing_ops_def bus_defs run_simps Let_def)

lemma run_SetClkMgrCfg [run_simps]:
  "run_state MipiTxDrvSetClkMgrCfg s = ((), s\<lparr>bus := bus s @ [Wr CLKMGR_CFG (clkmgr_value (actual_phy_data_rate s))]\<rparr>)"
  by (simp add: MipiTxDrvSetClkMgrCfg_def clkmgr_value_def bus_defs run_simps)

lemma run_SetLaneConfig [run_simps]:
  "SetLaneConfig lanes LANE_MAX_NUM = emit [Wr PHY_IF_CFG (word_of_nat (used_lanes lanes) - 1)]"
  by (simp add: SetLaneConfig_def used_lanes_def bus_defs)

lemma run_SetControllerCfg [run_simps]:
  "run_state (MipiTxDrvSetControllerCfg (Some cfg)) s =
     ((), s\<lparr>actual_phy_data_rate := actual_rate_of (phyDataRate cfg), bus := bus s @ controller_ops cfg\<rparr>)"
  by (simp add: MipiTxDrvSetControllerCfg_def controller_ops_def run_simps bus_defs Let_def)

text \<open>The register writes that depend on output mode and format.\<close>

definition format_ops :: "ComboDevCfgTag \<Rightarrow> bus_op list" where
  "format_ops cfg =
     (if outputMode cfg = OUTPUT_MODE_CSI then
        (if outputFormat cfg = OUT_FORMAT_YUV420_8_BIT_NORMAL then [Wr DATATYPE0 0x10218, Wr CSI_CTRL 0x1111]
         else if outputFormat cfg = OUT_FORMAT_YUV422_8_BIT then [Wr DATATYPE0 0x1021E, Wr CSI_CTRL 0x1111]
         else [])
      else if outputFormat cfg \<in> {OUT_FORMAT_RGB_16_BIT, OUT_FORMAT_RGB_18_BIT, OUT_FORMAT_RGB_24_BIT}
      then [Wr DATATYPE0 0x111213D, Wr CSI_CTRL 0x10100] else [])"

definition hs_lp_ops :: "MipiTxPhyTimingParamTag \<Rightarrow> bus_op list" where
  "hs_lp_ops tp =
     [Wr PHY_TMR_CFG (push_bit 16 (ucast (dataThsTrail tp) - 1) +
        ucast (dataTpreDelay tp) + ucast (dataTlpx tp) + ucast (dataThsPrepare tp) +
        ucast (dataThsZero tp) + 7),
      Wr PHY_TMR_LPCLK_CFG (push_bit 16 (31 + ucast (dataThsTrail tp)) +
        ucast (clkTlpx tp) + ucast (clkTclkPrepare tp) + ucast (clkTclkZero tp) + 6)]"

definition phy_cfg_ops :: "mipi_env \<Rightarrow> u32 \<Rightarrow> ComboDevCfgTag \<Rightarrow> bus_op list" where
  "phy_cfg_ops env rate cfg =
     (let tp = MipiTxDrvGetPhyTimingParam rate in
      phy_script (pll_script env (phyDataRate cfg) @ timing_script tp) @ hs_lp_ops tp @
      [Wr EDPI_CMD_SIZE 0xF0, Wr PHY_RSTZ 0xf] @ format_ops cfg @
      [Wr PHY_RSTZ 0xf, Msleep 1, Wr LPCLK_CTRL 0])"

lemma run_SetPhyHsLpSwitchTime [run_simps]: "MipiTxDrvSetPhyHsLpSwitchTime tp = emit (hs_lp_ops tp)"
  by (simp add: MipiTxDrvSetPhyHsLpSwitchTime_def hs_lp_ops_def bus_defs)

lemma run_SetPhyCfg [run_simps]:
  "run_state (MipiTxDrvSetPhyCfg env (Some cfg)) s =
     ((), s\<lparr>bus := bus s @ phy_cfg_ops env (actual_phy_data_rate s) cfg\<rparr>)"
  by (simp add: MipiTxDrvSetPhyCfg_def phy_cfg_ops_def format_ops_def run_simps bus_defs Let_def
      phy_script_append)

definition reset_ops :: "bus_op list" where
  "reset_ops = [Wr PWR_UP 0, Wr PHY_RSTZ 0xd, Udelay 1, Wr PWR_UP 1, Wr PHY_RSTZ 0xf, Udelay 1]"

lemma run_MipiTxReset [run_simps]: "MipiTxReset = emit reset_ops"
  by (simp add: MipiTxReset_def reset_ops_def bus_defs)

definition enable_ops :: "u32 \<Rightarrow> bus_op list" where
  "enable_ops mode =
     (if mode = OUTPUT_MODE_DSI_VIDEO \<or> mode = OUTPUT_MODE_CSI then [Wr MODE_CFG 0] else []) @
     (if mode = OUTPUT_MODE_DSI_CMD then [Wr CMD_MODE_CFG 0] else []) @
     [Wr OPERATION_MODE 0x80150000, Wr LPCLK_CTRL 1] @ reset_ops"

lemma run_EnableInput [run_simps]:
  "run_state (MipiTxDrvEnableInput mode) s = ((), s\<lparr>en_hs_mode := True, bus := bus s @ enable_ops mode\<rparr>)"
  by (simp add: MipiTxDrvEnableInput_def enable_ops_def run_simps bus_defs)

lemma run_DisableInput [run_simps]:
  "run_state MipiTxDrvDisableInput s = ((), s\<lparr>en_hs_mode := False,
     bus := bus s @ [Wr OPERATION_MODE 0, Wr CMD_MODE_CFG 0xffffff00, Wr MODE_CFG 1, Wr LPCLK_CTRL 0] @ reset_ops\<rparr>)"
  by (simp add: MipiTxDrvDisableInput_def run_simps bus_defs)

lemma controller_ops_plain [simp]: "list_all plain_op (controller_ops cfg)"
  by (simp add: controller_ops_def timing_ops_def Let_def)

lemma phy_cfg_ops_plain [simp]: "list_all plain_op (phy_cfg_ops env rate cfg)"
  by (simp add: phy_cfg_ops_def hs_lp_ops_def format_ops_def Let_def)

lemma switch_ops_plain [simp]: "list_all plain_op reset_ops" "list_all plain_op (enable_ops mode)"
  by (simp_all add: enable_ops_def reset_ops_def)

subsection \<open>The last value written to a register\<close>

definition last_written :: "mreg \<Rightarrow> bus_op list \<Rightarrow> u32 option" where
  "last_written r ops = (if writes_of r ops = [] then None else Some (last (writes_of r ops)))"

lemma writes_of_SetPhyReg_ops [simp]:
  "r \<noteq> PHY_TST_CTRL0 \<Longrightarrow> r \<noteq> PHY_TST_CTRL1 \<Longrightarrow> writes_of r (SetPhyReg_ops a v) = []"
  by (simp add: SetPhyReg_ops_def)

lemma writes_of_phy_script [simp]:
  "r \<noteq> PHY_TST_CTRL0 \<Longrightarrow> r \<noteq> PHY_TST_CTRL1 \<Longrightarrow> writes_of r (phy_script avs) = []"
  by (induction avs) auto

lemma no_phy_test_writes [simp]:
  "writes_of PHY_TST_CTRL1 (controller_ops cfg) = []"
  "writes_of PHY_TST_CTRL1 (hs_lp_ops tp) = []"
  "writes_of PHY_TST_CTRL1 (format_ops cfg) = []"
  by (simp_all add: controller_ops_def timing_ops_def hs_lp_ops_def format_ops_def Let_def)

lemma script_addresses:
  "\<forall>(a, v) \<in> set (pll_script env rate @ timing_script tp). a < 0x10000"
  by (simp add: pll_script_def timing_script_def Let_def)

lemma phy_writes_cfg:
  "phy_writes (controller_ops cfg @ phy_cfg_ops env rate cfg) =
     pll_script env (phyDataRate cfg) @ timing_script (MipiTxDrvGetPhyTimingParam rate)"
proof -
  let ?avs = "pll_script env (phyDataRate cfg) @ timing_script (MipiTxDrvGetPhyTimingParam rate)"
  have "writes_of PHY_TST_CTRL1 (controller_ops cfg @ phy_cfg_ops env rate cfg) =
      writes_of PHY_TST_CTRL1 (phy_script ?avs)"
    unfolding phy_cfg_ops_def Let_def by simp
  then show ?thesis using phy_writes_script [OF script_addresses] by (simp only: phy_writes_def)
qed

subsection \<open>The actual data rate\<close>

lemma actual_rate_exact:
  assumes "unat r \<le> 4294967268"
  shows "unat (actual_rate_of r) = (unat r + 26) div 27 * 27"
proof -
  have "uint ((r + 27 - 1) div 27) = int ((unat r + 26) div 27)"
    using assms by (intro rateClk_nat) simp
  then have d: "unat ((r + 27 - 1) div 27) = (unat r + 26) div 27" by (simp only: uint_nat of_nat_eq_iff)
  have "(unat r + 26) div 27 * 27 \<le> unat r + 26" by (rule div_times_less_eq_dividend)
  with assms have "(unat r + 26) div 27 * 27 < 4294967296" by linarith
  then have "unat (of_nat ((unat r + 26) div 27 * 27) :: u32) = (unat r + 26) div 27 * 27"
    by (simp only: unsigned_of_nat) (simp add: take_bit_nat_eq_self)
  moreover have "actual_rate_of r = of_nat ((unat r + 26) div 27 * 27)"
    unfolding actual_rate_of_def of_nat_mult d [symmetric] by (simp only: of_nat_unat ucast_id of_nat_numeral)
  ultimately show ?thesis by (simp only:)
qed

end
