(* ===== verification/Mipi_Tx_Cmd.thy ===== *)
theory Mipi_Tx_Cmd
  imports Mipi_Tx_Ctrl
begin

section \<open>MIPI TX: sending and receiving DSI commands\<close>

text \<open>
  The command half of \<open>mipi_tx_hi35xx.c\<close>: the five polling loops on the packet FIFOs, the
  payload writes and reads, the packet header, and the two operations \<open>MipiTxDrvSetCmdInfo\<close>
  and \<open>MipiTxDrvGetCmdInfo\<close>. Each loop is a recursive function with its counter \<open>waitCnt\<close>, whose
  termination follows from the timeout test of the code. Kernel and user memory behind a
  pointer is a byte list; a read or write outside of it sets \<open>mem_fault\<close> and ends the
  operation, because C gives it no meaning.
\<close>

abbreviation (input) MIPI_TX_READ_TIMEOUT_CNT :: nat where "MIPI_TX_READ_TIMEOUT_CNT \<equiv> 1000"
abbreviation (input) MIPI_TX_SET_DATA_SIZE :: u16 where "MIPI_TX_SET_DATA_SIZE \<equiv> 800"
abbreviation (input) MIPI_TX_GET_DATA_SIZE :: u16 where "MIPI_TX_GET_DATA_SIZE \<equiv> 160"

subsection \<open>The polling loops\<close>

function wait_cmd_fifo_empty :: "mipi_env \<Rightarrow> nat \<Rightarrow> (mipi_tx, hdf_status) state" where
  "wait_cmd_fifo_empty env waitCnt = do {
     cmdPktStatus \<leftarrow> rd env CMD_PKT_STATUS;
     OsalUDelay 1;
     if Suc waitCnt > MIPI_TX_READ_TIMEOUT_CNT then State_Monad.return HDF_ERR_TIMEOUT
     else if gen_cmd_empty cmdPktStatus = 0 then wait_cmd_fifo_empty env (Suc waitCnt)
     else State_Monad.return HDF_SUCCESS }"
  by auto
termination by (relation "measure (\<lambda>(env, n). Suc MIPI_TX_READ_TIMEOUT_CNT - n)") auto

definition MipiTxWaitCmdFifoEmpty :: "mipi_env \<Rightarrow> (mipi_tx, hdf_status) state" where
  "MipiTxWaitCmdFifoEmpty env = wait_cmd_fifo_empty env 0"

function wait_write_fifo_empty :: "mipi_env \<Rightarrow> nat \<Rightarrow> (mipi_tx, hdf_status) state" where
  "wait_write_fifo_empty env waitCnt = do {
     cmdPktStatus \<leftarrow> rd env CMD_PKT_STATUS;
     OsalUDelay 1;
     if Suc waitCnt > MIPI_TX_READ_TIMEOUT_CNT then State_Monad.return HDF_ERR_TIMEOUT
     else if gen_pld_w_empty cmdPktStatus = 0 then wait_write_fifo_empty env (Suc waitCnt)
     else State_Monad.return HDF_SUCCESS }"
  by auto
termination by (relation "measure (\<lambda>(env, n). Suc MIPI_TX_READ_TIMEOUT_CNT - n)") auto

definition MipiTxWaitWriteFifoEmpty :: "mipi_env \<Rightarrow> (mipi_tx, hdf_status) state" where
  "MipiTxWaitWriteFifoEmpty env = wait_write_fifo_empty env 0"

function wait_write_fifo_not_full :: "mipi_env \<Rightarrow> nat \<Rightarrow> (mipi_tx, hdf_status) state" where
  "wait_write_fifo_not_full env waitCnt = do {
     cmdPktStatus \<leftarrow> rd env CMD_PKT_STATUS;
     (if waitCnt > 0 then OsalUDelay 1 else skip);
     if waitCnt > MIPI_TX_READ_TIMEOUT_CNT then State_Monad.return HDF_ERR_TIMEOUT
     else if gen_pld_w_full cmdPktStatus = 1 then wait_write_fifo_not_full env (Suc waitCnt)
     else State_Monad.return HDF_SUCCESS }"
  by auto
termination by (relation "measure (\<lambda>(env, n). Suc MIPI_TX_READ_TIMEOUT_CNT - n)") auto

definition MipiTxWaitWriteFifoNotFull :: "mipi_env \<Rightarrow> (mipi_tx, hdf_status) state" where
  "MipiTxWaitWriteFifoNotFull env = wait_write_fifo_not_full env 0"

function wait_read_fifo_not_empty :: "mipi_env \<Rightarrow> nat \<Rightarrow> (mipi_tx, hdf_status) state" where
  "wait_read_fifo_not_empty env waitCnt = do {
     intSt1 \<leftarrow> rd env INT_ST1;
     intSt0 \<leftarrow> rd env INT_ST0;
     if intSt1 AND 0x3e \<noteq> 0 then State_Monad.return HDF_FAILURE
     else if waitCnt > MIPI_TX_READ_TIMEOUT_CNT then State_Monad.return HDF_ERR_TIMEOUT
     else do {
       OsalUDelay 1;
       cmdPktStatus \<leftarrow> rd env CMD_PKT_STATUS;
       if gen_pld_r_empty cmdPktStatus = 1 then wait_read_fifo_not_empty env (Suc waitCnt)
       else State_Monad.return HDF_SUCCESS } }"
  by auto
termination by (relation "measure (\<lambda>(env, n). Suc (Suc MIPI_TX_READ_TIMEOUT_CNT) - n)") auto

definition MipiTxWaitReadFifoNotEmpty :: "mipi_env \<Rightarrow> (mipi_tx, hdf_status) state" where
  "MipiTxWaitReadFifoNotEmpty env = wait_read_fifo_not_empty env 0"

function wait_read_fifo_empty :: "mipi_env \<Rightarrow> nat \<Rightarrow> (mipi_tx, hdf_status) state" where
  "wait_read_fifo_empty env waitCnt = do {
     intSt1 \<leftarrow> rd env INT_ST1;
     (if gen_pld_rd_err intSt1 = 0 then do { pldData \<leftarrow> rd env GEN_PLD_DATA; skip } else skip);
     OsalUDelay 1;
     if Suc waitCnt > MIPI_TX_READ_TIMEOUT_CNT then State_Monad.return HDF_ERR_TIMEOUT
     else if gen_pld_rd_err intSt1 = 0 then wait_read_fifo_empty env (Suc waitCnt)
     else State_Monad.return HDF_SUCCESS }"
  by auto
termination by (relation "measure (\<lambda>(env, n). Suc MIPI_TX_READ_TIMEOUT_CNT - n)") auto

definition MipiTxWaitReadFifoEmpty :: "mipi_env \<Rightarrow> (mipi_tx, hdf_status) state" where
  "MipiTxWaitReadFifoEmpty env = wait_read_fifo_empty env 0"

declare wait_cmd_fifo_empty.simps [simp del] wait_write_fifo_empty.simps [simp del]
  wait_write_fifo_not_full.simps [simp del] wait_read_fifo_not_empty.simps [simp del]
  wait_read_fifo_empty.simps [simp del]

subsection \<open>Sending a command\<close>

record CmdInfoTag =
  cmd_devno :: u32
  cmd_dataType :: u16
  cmdSize :: u16
  cmd :: "u8 list option"

record GetCmdInfoTag =
  get_devno :: u32
  get_dataType :: u16
  dataParam :: u16
  getDataSize :: u16
  getData :: bool

text \<open>
  The loop over the words of the payload; \<open>None\<close> is the early return after a timeout, and the
  bytes of \<open>genPldData\<close> that the last, partial word does not assign keep their old value.
\<close>

primrec payload_words ::
  "mipi_env \<Rightarrow> u8 list \<Rightarrow> nat list \<Rightarrow> u32 \<Rightarrow> (mipi_tx, u32 option) state" where
  "payload_words env bs [] genPldData = State_Monad.return (Some genPldData)"
| "payload_words env bs (i # is) genPldData = do {
     let genPldData = set_gen_pld_b4 (bs ! (i * 4 + 3)) (set_gen_pld_b3 (bs ! (i * 4 + 2))
       (set_gen_pld_b2 (bs ! (i * 4 + 1)) (set_gen_pld_b1 (bs ! (i * 4)) genPldData)));
     ret \<leftarrow> MipiTxWaitWriteFifoNotFull env;
     if ret \<noteq> HDF_SUCCESS then State_Monad.return None
     else do {
       wr GEN_PLD_DATA genPldData;
       payload_words env bs is genPldData } }"

definition MipiTxDrvSetPayloadData :: "mipi_env \<Rightarrow> u8 list \<Rightarrow> nat \<Rightarrow> (mipi_tx, unit) state" where
  "MipiTxDrvSetPayloadData env bs len = do {
     genPldData \<leftarrow> rd env GEN_PLD_DATA;
     r \<leftarrow> payload_words env bs [0..<len div 4] genPldData;
     case r of None \<Rightarrow> skip
     | Some genPldData \<Rightarrow>
         (let i = len div 4; j = len mod 4 in
          if j = 0 then skip
          else do {
            let genPldData = (if j > 0 then set_gen_pld_b1 (bs ! (i * 4)) genPldData else genPldData);
            let genPldData = (if j > 1 then set_gen_pld_b2 (bs ! (i * 4 + 1)) genPldData else genPldData);
            let genPldData = (if j > 2 then set_gen_pld_b3 (bs ! (i * 4 + 2)) genPldData else genPldData);
            ret \<leftarrow> MipiTxWaitWriteFifoNotFull env;
            if ret \<noteq> HDF_SUCCESS then skip
            else wr GEN_PLD_DATA genPldData }) }"

definition oob :: "'a \<Rightarrow> (mipi_tx, 'a) state" where
  "oob x = do { modify (\<lambda>s. s\<lparr>mem_fault := True\<rparr>); State_Monad.return x }"

definition LinuxCopyToKernel ::
  "mipi_env \<Rightarrow> u8 list \<Rightarrow> nat \<Rightarrow> (mipi_tx, hdf_status \<times> u8 list) state" where
  "LinuxCopyToKernel env src count =
     (if access_ok env then
        (case copy_from_user env count src of None \<Rightarrow> State_Monad.return (HDF_FAILURE, [])
         | Some dest \<Rightarrow> State_Monad.return (HDF_SUCCESS, dest))
      else if \<not> memcpy_s_ok env then State_Monad.return (HDF_FAILURE, [])
      else if length src < count then oob (HDF_FAILURE, [])
      else State_Monad.return (HDF_SUCCESS, take count src))"

definition OsalMemCalloc :: "mipi_env \<Rightarrow> nat \<Rightarrow> (mipi_tx, bool) state" where
  "OsalMemCalloc env n =
     (if calloc_ok env n then do { modify (\<lambda>s. s\<lparr>live_bufs := live_bufs s + 1\<rparr>); State_Monad.return True }
      else State_Monad.return False)"

definition OsalMemFree :: "(mipi_tx, unit) state" where
  "OsalMemFree = modify (\<lambda>s. s\<lparr>live_bufs := live_bufs s - 1\<rparr>)"

text \<open>The part of the function after the payload: the header, and the two waits.\<close>

definition send_header :: "mipi_env \<Rightarrow> u32 \<Rightarrow> CmdInfoTag \<Rightarrow> (mipi_tx, hdf_status) state" where
  "send_header env genHdr ci = do {
     let genHdr = set_gen_dt (ucast (cmd_dataType ci)) genHdr;
     let genHdr = set_gen_wc_lsbyte (ucast (cmdSize ci AND 0xff)) genHdr;
     let genHdr = set_gen_wc_msbyte (ucast (drop_bit 8 (cmdSize ci AND 0xff00))) genHdr;
     wr GEN_HDR genHdr;
     OsalUDelay 350;
     ret \<leftarrow> MipiTxWaitCmdFifoEmpty env;
     if ret \<noteq> HDF_SUCCESS then State_Monad.return HDF_FAILURE
     else do {
       ret \<leftarrow> MipiTxWaitWriteFifoEmpty env;
       if ret \<noteq> HDF_SUCCESS then State_Monad.return HDF_FAILURE
       else State_Monad.return HDF_SUCCESS } }"

definition MipiTxDrvSetCmdInfo :: "mipi_env \<Rightarrow> CmdInfoTag option \<Rightarrow> (mipi_tx, hdf_status) state" where
  "MipiTxDrvSetCmdInfo env cmdInfo = (case cmdInfo of None \<Rightarrow> State_Monad.return HDF_ERR_INVALID_OBJECT
   | Some ci \<Rightarrow> do {
       genHdr \<leftarrow> rd env GEN_HDR;
       case cmd ci of None \<Rightarrow> send_header env genHdr ci
       | Some src \<Rightarrow>
           if cmdSize ci > 200 \<or> cmdSize ci = 0 then State_Monad.return HDF_ERR_INVALID_PARAM
           else do {
             ok \<leftarrow> OsalMemCalloc env (unat (cmdSize ci));
             if \<not> ok then State_Monad.return HDF_ERR_MALLOC_FAIL
             else do {
               (ret, buf) \<leftarrow> LinuxCopyToKernel env src (unat (cmdSize ci));
               (if ret = HDF_SUCCESS then MipiTxDrvSetPayloadData env buf (unat (cmdSize ci)) else skip);
               OsalMemFree;
               if ret \<noteq> HDF_SUCCESS then State_Monad.return HDF_ERR_IO
               else send_header env genHdr ci } } })"

subsection \<open>Reading from the panel\<close>

definition MipiTxSendShortPacket ::
  "mipi_env \<Rightarrow> u8 \<Rightarrow> u16 \<Rightarrow> u16 \<Rightarrow> (mipi_tx, hdf_status) state" where
  "MipiTxSendShortPacket env virtualChannel dataType param = do {
     let genHdr = set_gen_vc (ucast virtualChannel) (stack32 env);
     let genHdr = set_gen_dt (ucast dataType) genHdr;
     let genHdr = set_gen_wc_lsbyte (ucast (param AND 0xff)) genHdr;
     let genHdr = set_gen_wc_msbyte (ucast (drop_bit 8 (param AND 0xff00))) genHdr;
     wr GEN_HDR genHdr;
     ret \<leftarrow> MipiTxWaitCmdFifoEmpty env;
     if ret \<noteq> HDF_SUCCESS then State_Monad.return HDF_FAILURE
     else State_Monad.return HDF_SUCCESS }"

primrec read_words ::
  "mipi_env \<Rightarrow> nat list \<Rightarrow> u8 list \<Rightarrow> (mipi_tx, hdf_status \<times> u8 list) state" where
  "read_words env [] dataBuf = State_Monad.return (HDF_SUCCESS, dataBuf)"
| "read_words env (i # is) dataBuf = do {
     ret \<leftarrow> MipiTxWaitReadFifoNotEmpty env;
     if ret \<noteq> HDF_SUCCESS then State_Monad.return (HDF_FAILURE, dataBuf)
     else do {
       pldData \<leftarrow> rd env GEN_PLD_DATA;
       read_words env is (dataBuf[i * 4 := gen_pld_b1 pldData, i * 4 + 1 := gen_pld_b2 pldData,
         i * 4 + 2 := gen_pld_b3 pldData, i * 4 + 3 := gen_pld_b4 pldData]) } }"

definition MipiTxGetReadFifoData ::
  "mipi_env \<Rightarrow> nat \<Rightarrow> u8 list \<Rightarrow> (mipi_tx, hdf_status \<times> u8 list) state" where
  "MipiTxGetReadFifoData env dataLen dataBuf = do {
     (ret, dataBuf) \<leftarrow> read_words env [0..<dataLen div 4] dataBuf;
     if ret \<noteq> HDF_SUCCESS then State_Monad.return (HDF_FAILURE, dataBuf)
     else (let i = dataLen div 4; j = dataLen mod 4 in
       if j = 0 then State_Monad.return (HDF_SUCCESS, dataBuf)
       else do {
         ret \<leftarrow> MipiTxWaitReadFifoNotEmpty env;
         if ret \<noteq> HDF_SUCCESS then State_Monad.return (HDF_FAILURE, dataBuf)
         else do {
           pldData \<leftarrow> rd env GEN_PLD_DATA;
           let dataBuf = (if j > 0 then dataBuf[i * 4 := gen_pld_b1 pldData] else dataBuf);
           let dataBuf = (if j > 1 then dataBuf[i * 4 + 1 := gen_pld_b2 pldData] else dataBuf);
           let dataBuf = (if j > 2 then dataBuf[i * 4 + 2 := gen_pld_b3 pldData] else dataBuf);
           State_Monad.return (HDF_SUCCESS, dataBuf) } }) }"

text \<open>
  The second result is what is stored to \<open>getData\<close>, \<open>None\<close> when nothing is. The buffer comes
  uninitialised from the allocator.
\<close>

definition MipiTxDrvGetCmdInfo ::
  "mipi_env \<Rightarrow> GetCmdInfoTag \<Rightarrow> (mipi_tx, hdf_status \<times> u8 list option) state" where
  "MipiTxDrvGetCmdInfo env gi = do {
     let dataLen = unat (getDataSize gi);
     ok \<leftarrow> OsalMemCalloc env dataLen;
     if \<not> ok then State_Monad.return (HDF_ERR_MALLOC_FAIL, None)
     else do {
       ret \<leftarrow> MipiTxWaitReadFifoEmpty env;
       if ret \<noteq> HDF_SUCCESS then do { OsalMemFree; State_Monad.return (HDF_FAILURE, None) }
       else do {
         ret \<leftarrow> MipiTxSendShortPacket env 0 (get_dataType gi) (dataParam gi);
         if ret \<noteq> HDF_SUCCESS then do { OsalMemFree; State_Monad.return (HDF_FAILURE, None) }
         else do {
           (ret, dataBuf) \<leftarrow> MipiTxGetReadFifoData env dataLen (replicate dataLen (stack8 env));
           if ret \<noteq> HDF_SUCCESS then do {
             MipiTxReset;
             OsalMemFree;
             State_Monad.return (HDF_FAILURE, None) }
           else if access_ok env \<and> \<not> copy_to_user_ok env \<or> \<not> access_ok env \<and> \<not> memcpy_s_ok env
           then do { OsalMemFree; State_Monad.return (HDF_FAILURE, None) }
           else do { OsalMemFree; State_Monad.return (HDF_SUCCESS, Some dataBuf) } } } } }"

subsection \<open>Operations that only talk to the bus\<close>

text \<open>
  \<open>talks P k m\<close>: operation \<open>m\<close> changes nothing but the history, to which it adds at most \<open>k\<close>
  accesses, all satisfying \<open>P\<close>. Such an operation keeps every variable of the driver.
\<close>

definition talks :: "(bus_op \<Rightarrow> bool) \<Rightarrow> nat \<Rightarrow> (mipi_tx, 'a) state \<Rightarrow> bool" where
  "talks P k m \<longleftrightarrow> (\<forall>s. \<exists>ops. after m s = s\<lparr>bus := bus s @ ops\<rparr> \<and> list_all P ops \<and> length ops \<le> k)"

lemma talksE:
  assumes "talks P k m"
  obtains ops where "after m s = s\<lparr>bus := bus s @ ops\<rparr>" and "list_all P ops" and "length ops \<le> k"
  using assms by (auto simp: talks_def)

lemma talksI:
  assumes "\<And>s. \<exists>ops. after m s = s\<lparr>bus := bus s @ ops\<rparr> \<and> list_all P ops \<and> length ops \<le> k"
  shows "talks P k m"
  using assms by (simp add: talks_def)

lemma talks_mono: "talks P k m \<Longrightarrow> (\<And>x. P x \<Longrightarrow> Q x) \<Longrightarrow> k \<le> l \<Longrightarrow> talks Q l m"
  unfolding talks_def by (metis list.pred_mono_strong order_trans)

lemma talks_return: "talks P k (State_Monad.return x)"
  by (auto intro!: talksI exI [of _ "[]"])

lemma talks_skip: "talks P k skip"
  by (auto intro!: talksI exI [of _ "[]"])

lemma talks_emit: "list_all P ops \<Longrightarrow> length ops \<le> k \<Longrightarrow> talks P k (emit ops)"
  by (auto intro!: talksI simp: run_simps)

lemma talks_one:
  "P (Wr r v) \<Longrightarrow> talks P 1 (wr r v)" "P (Udelay n) \<Longrightarrow> talks P 1 (OsalUDelay n)"
  by (simp_all add: bus_defs talks_emit)

lemma talks_rd: "(\<And>v. P (Rd r v)) \<Longrightarrow> talks P 1 (rd env r)"
  by (auto intro!: talksI simp: run_simps)

lemma talks_bind:
  assumes "talks P k m" and "\<And>x. talks P l (g x)"
  shows "talks P (k + l) (State_Monad.bind m g)"
proof (rule talksI)
  fix s
  obtain xs where 1: "after m s = s\<lparr>bus := bus s @ xs\<rparr>" "list_all P xs" "length xs \<le> k"
    by (rule talksE [OF assms(1)])
  obtain ys where 2: "after (g (result m s)) (after m s) = (after m s)\<lparr>bus := bus (after m s) @ ys\<rparr>"
    "list_all P ys" "length ys \<le> l"
    by (rule talksE [OF assms(2)])
  show "\<exists>ops. after (State_Monad.bind m g) s = s\<lparr>bus := bus s @ ops\<rparr> \<and> list_all P ops \<and> length ops \<le> k + l"
    unfolding after_bind using 1 2 by (intro exI [of _ "xs @ ys"]) simp
qed

lemma talks_if:
  "(b \<Longrightarrow> talks P k m) \<Longrightarrow> (\<not> b \<Longrightarrow> talks P k n) \<Longrightarrow> talks P k (if b then m else n)"
  by simp

lemma talks_appends: "talks P k m \<Longrightarrow> appends P m"
  unfolding talks_def appends_def by (metis mipi_tx.select_convs(8) mipi_tx.surjective mipi_tx.update_convs(8))

lemma talks_keeps:
  assumes "talks P k m" and "\<And>s b. f (s\<lparr>bus := b\<rparr>) = f s"
  shows "keeps f m"
  unfolding keeps_def using assms by (metis talksE)

subsection \<open>What a polling loop does\<close>

text \<open>The accesses a poll of the packet status makes, and the outcome of such a poll.\<close>

fun status_poll_op :: "bus_op \<Rightarrow> bool" where
  "status_poll_op (Rd r v) \<longleftrightarrow> r = CMD_PKT_STATUS"
| "status_poll_op (Udelay n) \<longleftrightarrow> True"
| "status_poll_op _ \<longleftrightarrow> False"

lemma status_poll_is_plain: "status_poll_op x \<Longrightarrow> plain_op x"
  by (cases x) simp_all

text \<open>What the packet status may be when nothing but polls follow the history \<open>h\<close>.\<close>

definition status_after :: "mipi_env \<Rightarrow> bus_op list \<Rightarrow> u32 set" where
  "status_after env h = {dev_read env (h @ xs) CMD_PKT_STATUS | xs. list_all status_poll_op xs}"

lemma status_now [simp]: "dev_read env h CMD_PKT_STATUS \<in> status_after env h"
  unfolding status_after_def by (auto intro!: exI [of _ "[]"])

lemma status_later: "list_all status_poll_op ys \<Longrightarrow> v \<in> status_after env (h @ ys) \<Longrightarrow> v \<in> status_after env h"
  unfolding status_after_def by clarsimp (metis list_all_append)

definition polled ::
  "mipi_env \<Rightarrow> bus_op list \<Rightarrow> (u32 \<Rightarrow> bool) \<Rightarrow> nat \<Rightarrow> hdf_status \<Rightarrow> bus_op list \<Rightarrow> bool" where
  "polled env h busy k ret ops \<longleftrightarrow>
     (let vs = reads_of CMD_PKT_STATUS ops
      in list_all status_poll_op ops \<and> length ops \<le> 2 * k \<and>
         vs \<noteq> [] \<and> (\<forall>v \<in> set (butlast vs). busy v) \<and> set vs \<subseteq> status_after env h \<and>
         (ret = HDF_SUCCESS \<and> \<not> busy (last vs) \<or> ret = HDF_ERR_TIMEOUT \<and> length vs = k))"

lemma polled_again:
  assumes "busy (dev_read env h CMD_PKT_STATUS)" and "v = dev_read env h CMD_PKT_STATUS"
  shows "polled env (h @ [Rd CMD_PKT_STATUS v, Udelay d]) busy k ret ops \<Longrightarrow>
      polled env h busy (Suc k) ret (Rd CMD_PKT_STATUS v # Udelay d # ops)"
    and "polled env (h @ [Rd CMD_PKT_STATUS v]) busy k ret ops \<Longrightarrow>
      polled env h busy (Suc k) ret (Rd CMD_PKT_STATUS v # ops)"
  using assms status_later [of "[Rd CMD_PKT_STATUS v, Udelay d]" _ env h]
    status_later [of "[Rd CMD_PKT_STATUS v]" _ env h]
  by (auto simp: polled_def Let_def)

lemma polled_once:
  "\<not> busy (dev_read env h CMD_PKT_STATUS) \<Longrightarrow>
   polled env h busy (Suc k) HDF_SUCCESS [Rd CMD_PKT_STATUS (dev_read env h CMD_PKT_STATUS), Udelay d]"
  "\<not> busy (dev_read env h CMD_PKT_STATUS) \<Longrightarrow>
   polled env h busy (Suc k) HDF_SUCCESS [Rd CMD_PKT_STATUS (dev_read env h CMD_PKT_STATUS)]"
  "polled env h busy (Suc 0) HDF_ERR_TIMEOUT [Rd CMD_PKT_STATUS (dev_read env h CMD_PKT_STATUS), Udelay d]"
  by (auto simp: polled_def)

text \<open>The interface the callers of the three status polls rely on.\<close>

locale fifo_wait =
  fixes wait :: "mipi_env \<Rightarrow> (mipi_tx, hdf_status) state"
    and busy :: "u32 \<Rightarrow> bool"
    and limit :: nat
  assumes wait_trace:
    "\<exists>ret ops. run_state (wait env) s = (ret, s\<lparr>bus := bus s @ ops\<rparr>) \<and> polled env (bus s) busy limit ret ops"
begin

lemma result_cases: "result (wait env) s = HDF_SUCCESS \<or> result (wait env) s = HDF_ERR_TIMEOUT"
  using wait_trace [of env s] by (auto simp: polled_def Let_def)

lemma talks_poll: "talks status_poll_op (2 * limit) (wait env)"
proof (rule talksI)
  fix s
  show "\<exists>ops. after (wait env) s = s\<lparr>bus := bus s @ ops\<rparr> \<and> list_all status_poll_op ops \<and> length ops \<le> 2 * limit"
    using wait_trace [of env s] by (auto simp: polled_def Let_def)
qed

lemma success_ready:
  assumes "result (wait env) s = HDF_SUCCESS"
  shows "\<not> busy (last (reads_of CMD_PKT_STATUS (bus (after (wait env) s))))"
    and "reads_of CMD_PKT_STATUS (bus (after (wait env) s)) \<noteq> []"
  using wait_trace [of env s] assms by (auto simp: polled_def Let_def)

text \<open>A device that is never busy is never waited for twice.\<close>

lemma ready_success:
  assumes "1 < limit" and free: "\<And>v. v \<in> status_after env (bus s) \<Longrightarrow> \<not> busy v"
  shows "result (wait env) s = HDF_SUCCESS"
proof -
  obtain ret ops where t: "run_state (wait env) s = (ret, s\<lparr>bus := bus s @ ops\<rparr>)"
    and p: "polled env (bus s) busy limit ret ops"
    using wait_trace by blast
  let ?vs = "reads_of CMD_PKT_STATUS ops"
  have "\<forall>v \<in> set ?vs. \<not> busy v" using p free by (auto simp: polled_def Let_def)
  moreover have "\<forall>v \<in> set (butlast ?vs). busy v" using p by (simp add: polled_def Let_def)
  ultimately have "butlast ?vs = []" by (metis in_set_butlastD last_in_set)
  then have "length ?vs - 1 = 0" by (metis length_butlast list.size(3))
  then have "length ?vs \<noteq> limit" using assms(1) by linarith
  then show ?thesis using p t by (auto simp: polled_def Let_def)
qed

text \<open>A device that is always busy is given up on, after exactly \<open>limit\<close> reads.\<close>

lemma stuck_timeout:
  assumes "\<And>v. v \<in> status_after env (bus s) \<Longrightarrow> busy v"
  shows "result (wait env) s = HDF_ERR_TIMEOUT"
    and "\<exists>vs. reads_of CMD_PKT_STATUS (bus (after (wait env) s)) = reads_of CMD_PKT_STATUS (bus s) @ vs \<and>
      length vs = limit"
proof -
  obtain ret ops where t: "run_state (wait env) s = (ret, s\<lparr>bus := bus s @ ops\<rparr>)"
    and p: "polled env (bus s) busy limit ret ops"
    using wait_trace by blast
  let ?vs = "reads_of CMD_PKT_STATUS ops"
  have "last ?vs \<in> set ?vs" using p by (simp add: polled_def Let_def)
  moreover have "\<forall>v \<in> set ?vs. busy v" using p assms by (auto simp: polled_def Let_def)
  ultimately have "busy (last ?vs)" by blast
  then have "ret = HDF_ERR_TIMEOUT \<and> length ?vs = limit" using p by (auto simp: polled_def Let_def)
  then show "result (wait env) s = HDF_ERR_TIMEOUT"
    and "\<exists>vs. reads_of CMD_PKT_STATUS (bus (after (wait env) s)) = reads_of CMD_PKT_STATUS (bus s) @ vs \<and>
      length vs = limit"
    using t by auto
qed

end

text \<open>Two of the loops have the same shape and differ in the bit they test only.\<close>

lemma wait_empty_trace:
  assumes unfold: "\<And>n. f n = do {
     v \<leftarrow> rd env CMD_PKT_STATUS;
     OsalUDelay 1;
     if Suc n > m then State_Monad.return HDF_ERR_TIMEOUT
     else if busy v then f (Suc n)
     else State_Monad.return HDF_SUCCESS }"
    and "n + k = m"
  shows "\<exists>ret ops. run_state (f n) s = (ret, s\<lparr>bus := bus s @ ops\<rparr>) \<and> polled env (bus s) busy (Suc k) ret ops"
  using assms(2)
proof (induction k arbitrary: n s)
  case 0
  then show ?case
    by (subst unfold) (auto simp: run_simps bus_defs intro!: exI polled_once)
next
  case (Suc k)
  let ?v = "dev_read env (bus s) CMD_PKT_STATUS"
  let ?s = "s\<lparr>bus := bus s @ [Rd CMD_PKT_STATUS ?v, Udelay 1]\<rparr>"
  have run: "run_state (f n) s = (if busy ?v then run_state (f (Suc n)) ?s else (HDF_SUCCESS, ?s))"
    using Suc.prems by (subst unfold) (simp add: run_simps bus_defs)
  show ?case
  proof (cases "busy ?v")
    case True
    obtain ret ops where "run_state (f (Suc n)) ?s = (ret, ?s\<lparr>bus := bus ?s @ ops\<rparr>)"
      and p: "polled env (bus ?s) busy (Suc k) ret ops"
      using Suc.IH [of "Suc n" ?s] Suc.prems by auto
    with run True show ?thesis
      using polled_again(1) [where busy = busy and h = "bus s", OF True refl, of 1 "Suc k" ret ops] p by auto
  next
    case False
    with run show ?thesis by (auto intro!: exI polled_once)
  qed
qed

lemma wait_not_full_trace:
  assumes "n + k = Suc MIPI_TX_READ_TIMEOUT_CNT"
  shows "\<exists>ret ops. run_state (wait_write_fifo_not_full env n) s = (ret, s\<lparr>bus := bus s @ ops\<rparr>) \<and>
    polled env (bus s) (\<lambda>v. gen_pld_w_full v = 1) (Suc k) ret ops"
  using assms
proof (induction k arbitrary: n s)
  case 0
  then show ?case
    by (subst wait_write_fifo_not_full.simps) (auto simp: run_simps bus_defs intro!: exI polled_once)
next
  case (Suc k)
  let ?v = "dev_read env (bus s) CMD_PKT_STATUS"
  let ?d = "if n > 0 then [Udelay 1] else []"
  let ?s = "s\<lparr>bus := bus s @ Rd CMD_PKT_STATUS ?v # ?d\<rparr>"
  have run: "run_state (wait_write_fifo_not_full env n) s =
      (if gen_pld_w_full ?v = 1 then run_state (wait_write_fifo_not_full env (Suc n)) ?s else (HDF_SUCCESS, ?s))"
    using Suc.prems by (subst wait_write_fifo_not_full.simps) (simp add: run_simps bus_defs)
  show ?case
  proof (cases "gen_pld_w_full ?v = 1")
    case True
    obtain ret ops where "run_state (wait_write_fifo_not_full env (Suc n)) ?s = (ret, ?s\<lparr>bus := bus ?s @ ops\<rparr>)"
      and p: "polled env (bus ?s) (\<lambda>v. gen_pld_w_full v = 1) (Suc k) ret ops"
      using Suc.IH [of "Suc n" ?s] Suc.prems by auto
    with run True show ?thesis
      using polled_again [where busy = "\<lambda>v. gen_pld_w_full v = 1" and h = "bus s", OF True refl] p by auto
  next
    case False
    with run show ?thesis by (auto intro!: exI polled_once)
  qed
qed

interpretation cmd_empty: fifo_wait MipiTxWaitCmdFifoEmpty "\<lambda>v. gen_cmd_empty v = 0" 1001
proof
  fix env s
  show "\<exists>ret ops. run_state (MipiTxWaitCmdFifoEmpty env) s = (ret, s\<lparr>bus := bus s @ ops\<rparr>) \<and>
      polled env (bus s) (\<lambda>v. gen_cmd_empty v = 0) 1001 ret ops"
    using wait_empty_trace [OF wait_cmd_fifo_empty.simps, of 0 1000 env s]
    by (simp add: MipiTxWaitCmdFifoEmpty_def)
qed

interpretation write_empty: fifo_wait MipiTxWaitWriteFifoEmpty "\<lambda>v. gen_pld_w_empty v = 0" 1001
proof
  fix env s
  show "\<exists>ret ops. run_state (MipiTxWaitWriteFifoEmpty env) s = (ret, s\<lparr>bus := bus s @ ops\<rparr>) \<and>
      polled env (bus s) (\<lambda>v. gen_pld_w_empty v = 0) 1001 ret ops"
    using wait_empty_trace [OF wait_write_fifo_empty.simps, of 0 1000 env s]
    by (simp add: MipiTxWaitWriteFifoEmpty_def)
qed

interpretation not_full: fifo_wait MipiTxWaitWriteFifoNotFull "\<lambda>v. gen_pld_w_full v = 1" 1002
proof
  fix env s
  show "\<exists>ret ops. run_state (MipiTxWaitWriteFifoNotFull env) s = (ret, s\<lparr>bus := bus s @ ops\<rparr>) \<and>
      polled env (bus s) (\<lambda>v. gen_pld_w_full v = 1) 1002 ret ops"
    using wait_not_full_trace [of 0 1001 env s]
    by (simp add: MipiTxWaitWriteFifoNotFull_def)
qed

subsection \<open>The read side polls\<close>

text \<open>Register reads and delays that leave the payload FIFO alone.\<close>

fun quiet :: "bus_op \<Rightarrow> bool" where
  "quiet (Rd r v) \<longleftrightarrow> r \<noteq> GEN_PLD_DATA"
| "quiet (Udelay n) \<longleftrightarrow> True"
| "quiet _ \<longleftrightarrow> False"

lemma status_poll_is_quiet: "status_poll_op x \<Longrightarrow> quiet x"
  by (cases x) simp_all

lemma quiet_is_plain: "quiet x \<Longrightarrow> plain_op x"
  by (cases x) simp_all

lemma quiet_history:
  "list_all quiet ops \<Longrightarrow> reads_of GEN_PLD_DATA ops = []" "list_all quiet ops \<Longrightarrow> writes_of r ops = []"
proof -
  have "list_all quiet ops \<Longrightarrow> reads_of q ops = []" if "q = GEN_PLD_DATA" for q
    using that by (induction q ops rule: reads_of.induct) auto
  then show "list_all quiet ops \<Longrightarrow> reads_of GEN_PLD_DATA ops = []" by simp
  show "list_all quiet ops \<Longrightarrow> writes_of r ops = []"
    by (induction r ops rule: writes_of.induct) auto
qed

lemma wait_read_not_empty_trace:
  assumes "n + k = Suc MIPI_TX_READ_TIMEOUT_CNT"
  shows "\<exists>ret ops. run_state (wait_read_fifo_not_empty env n) s = (ret, s\<lparr>bus := bus s @ ops\<rparr>) \<and>
    list_all quiet ops \<and> length ops \<le> 4 * Suc k \<and>
    ret \<in> {HDF_SUCCESS, HDF_FAILURE, HDF_ERR_TIMEOUT} \<and>
    (ret = HDF_SUCCESS \<longrightarrow> reads_of CMD_PKT_STATUS ops \<noteq> [] \<and>
       gen_pld_r_empty (last (reads_of CMD_PKT_STATUS ops)) \<noteq> 1)"
  using assms
proof (induction k arbitrary: n s)
  case 0
  then show ?case
    by (subst wait_read_fifo_not_empty.simps)
      (auto simp: run_simps bus_defs intro!: exI [of _ "[_, _]"])
next
  case (Suc k)
  let ?s1 = "s\<lparr>bus := bus s @ [Rd INT_ST1 (dev_read env (bus s) INT_ST1)]\<rparr>"
  let ?s2 = "?s1\<lparr>bus := bus ?s1 @ [Rd INT_ST0 (dev_read env (bus ?s1) INT_ST0)]\<rparr>"
  let ?s3 = "?s2\<lparr>bus := bus ?s2 @ [Udelay 1]\<rparr>"
  let ?v = "dev_read env (bus ?s3) CMD_PKT_STATUS"
  let ?s4 = "?s3\<lparr>bus := bus ?s3 @ [Rd CMD_PKT_STATUS ?v]\<rparr>"
  have run: "run_state (wait_read_fifo_not_empty env n) s =
      (if dev_read env (bus s) INT_ST1 AND 0x3e \<noteq> 0 then (HDF_FAILURE, ?s2)
       else if gen_pld_r_empty ?v = 1 then run_state (wait_read_fifo_not_empty env (Suc n)) ?s4
       else (HDF_SUCCESS, ?s4))"
    using Suc.prems by (subst wait_read_fifo_not_empty.simps) (simp add: run_simps bus_defs)
  consider "dev_read env (bus s) INT_ST1 AND 0x3e \<noteq> 0"
    | "dev_read env (bus s) INT_ST1 AND 0x3e = 0" "gen_pld_r_empty ?v = 1"
    | "dev_read env (bus s) INT_ST1 AND 0x3e = 0" "gen_pld_r_empty ?v \<noteq> 1"
    by blast
  then show ?case
  proof cases
    case 1
    with run show ?thesis by (auto intro!: exI [of _ "[_, _]"])
  next
    case 2
    obtain ret ops where "run_state (wait_read_fifo_not_empty env (Suc n)) ?s4 = (ret, ?s4\<lparr>bus := bus ?s4 @ ops\<rparr>)"
      and "list_all quiet ops" "length ops \<le> 4 * Suc k"
      "ret \<in> {HDF_SUCCESS, HDF_FAILURE, HDF_ERR_TIMEOUT}"
      "ret = HDF_SUCCESS \<longrightarrow> reads_of CMD_PKT_STATUS ops \<noteq> [] \<and>
       gen_pld_r_empty (last (reads_of CMD_PKT_STATUS ops)) \<noteq> 1"
      using Suc.IH [of "Suc n" ?s4] Suc.prems by auto
    with run 2 show ?thesis by auto
  next
    case 3
    with run show ?thesis by (auto intro!: exI [of _ "[_, _, _, _]"])
  qed
qed

lemma wait_read_empty_trace:
  assumes "n + k = MIPI_TX_READ_TIMEOUT_CNT"
  shows "\<exists>ret ops. run_state (wait_read_fifo_empty env n) s = (ret, s\<lparr>bus := bus s @ ops\<rparr>) \<and>
    list_all plain_op ops \<and> (\<forall>r. writes_of r ops = []) \<and> length ops \<le> 3 * Suc k \<and>
    ret \<in> {HDF_SUCCESS, HDF_ERR_TIMEOUT}"
  using assms
proof (induction k arbitrary: n s)
  case 0
  then show ?case
    by (subst wait_read_fifo_empty.simps) (auto simp: run_simps bus_defs)
next
  case (Suc k)
  let ?w = "dev_read env (bus s) INT_ST1"
  let ?s1 = "s\<lparr>bus := bus s @ [Rd INT_ST1 ?w]\<rparr>"
  let ?s2 = "?s1\<lparr>bus := bus ?s1 @ [Rd GEN_PLD_DATA (dev_read env (bus ?s1) GEN_PLD_DATA), Udelay 1]\<rparr>"
  have run: "run_state (wait_read_fifo_empty env n) s =
      (if gen_pld_rd_err ?w = 0 then run_state (wait_read_fifo_empty env (Suc n)) ?s2
       else (HDF_SUCCESS, ?s1\<lparr>bus := bus ?s1 @ [Udelay 1]\<rparr>))"
    using Suc.prems by (subst wait_read_fifo_empty.simps) (simp add: run_simps bus_defs)
  show ?case
  proof (cases "gen_pld_rd_err ?w = 0")
    case True
    obtain ret ops where "run_state (wait_read_fifo_empty env (Suc n)) ?s2 = (ret, ?s2\<lparr>bus := bus ?s2 @ ops\<rparr>)"
      and "list_all plain_op ops" "\<forall>r. writes_of r ops = []" "length ops \<le> 3 * Suc k"
      "ret \<in> {HDF_SUCCESS, HDF_ERR_TIMEOUT}"
      using Suc.IH [of "Suc n" ?s2] Suc.prems by auto
    with run True show ?thesis by auto
  next
    case False
    with run show ?thesis by auto
  qed
qed

text \<open>The two loops as their callers see them.\<close>

lemma read_not_empty_run:
  obtains ret ops where "run_state (MipiTxWaitReadFifoNotEmpty env) s = (ret, s\<lparr>bus := bus s @ ops\<rparr>)"
    and "list_all quiet ops" and "length ops \<le> 4008"
    and "ret \<in> {HDF_SUCCESS, HDF_FAILURE, HDF_ERR_TIMEOUT}"
    and "ret = HDF_SUCCESS \<Longrightarrow> reads_of CMD_PKT_STATUS ops \<noteq> [] \<and>
       gen_pld_r_empty (last (reads_of CMD_PKT_STATUS ops)) \<noteq> 1"
  using wait_read_not_empty_trace [of 0 1001 env s]
  by (auto simp: MipiTxWaitReadFifoNotEmpty_def)

lemma read_empty_run:
  obtains ret ops where "run_state (MipiTxWaitReadFifoEmpty env) s = (ret, s\<lparr>bus := bus s @ ops\<rparr>)"
    and "list_all plain_op ops" and "\<forall>r. writes_of r ops = []" and "length ops \<le> 3003"
  using wait_read_empty_trace [of 0 1000 env s]
  by (auto simp: MipiTxWaitReadFifoEmpty_def)

subsection \<open>The payload on the wire\<close>

text \<open>
  A write to \<open>GEN_PLD_DATA\<close> is guarded when the last packet status read before it said that the
  FIFO is not full, and no other payload write came in between.
\<close>

fun guarded :: "bool \<Rightarrow> bus_op list \<Rightarrow> bool" where
  "guarded p [] \<longleftrightarrow> True"
| "guarded p (Rd r v # ops) \<longleftrightarrow> guarded (if r = CMD_PKT_STATUS then gen_pld_w_full v \<noteq> 1 else p) ops"
| "guarded p (Wr r v # ops) \<longleftrightarrow> (if r = GEN_PLD_DATA then p \<and> guarded False ops else guarded p ops)"
| "guarded p (_ # ops) \<longleftrightarrow> guarded p ops"

fun room :: "bool \<Rightarrow> bus_op list \<Rightarrow> bool" where
  "room p [] \<longleftrightarrow> p"
| "room p (Rd r v # ops) \<longleftrightarrow> room (if r = CMD_PKT_STATUS then gen_pld_w_full v \<noteq> 1 else p) ops"
| "room p (Wr r v # ops) \<longleftrightarrow> room (if r = GEN_PLD_DATA then False else p) ops"
| "room p (_ # ops) \<longleftrightarrow> room p ops"

lemma guarded_append: "guarded p (xs @ ys) \<longleftrightarrow> guarded p xs \<and> guarded (room p xs) ys"
  by (induction p xs rule: guarded.induct) auto

lemma guarded_mono: "guarded False ops \<Longrightarrow> guarded p ops"
proof -
  have "guarded q ops \<Longrightarrow> \<not> q \<Longrightarrow> guarded p ops" for q
    by (induction q ops arbitrary: p rule: guarded.induct) (auto split: if_splits)
  then show "guarded False ops \<Longrightarrow> guarded p ops" by blast
qed

lemma guarded_join: "guarded False xs \<Longrightarrow> guarded False ys \<Longrightarrow> guarded False (xs @ ys)"
  by (simp add: guarded_append guarded_mono)

lemma guarded_unwritten: "writes_of GEN_PLD_DATA ops = [] \<Longrightarrow> guarded p ops"
proof -
  have "writes_of r ops = [] \<Longrightarrow> r = GEN_PLD_DATA \<Longrightarrow> guarded p ops" for r
    by (induction r ops arbitrary: p rule: writes_of.induct) (auto split: if_splits)
  then show "writes_of GEN_PLD_DATA ops = [] \<Longrightarrow> guarded p ops" by blast
qed

lemma room_polled:
  assumes "list_all status_poll_op ops" and "reads_of CMD_PKT_STATUS ops \<noteq> []"
  shows "room p ops \<longleftrightarrow> gen_pld_w_full (last (reads_of CMD_PKT_STATUS ops)) \<noteq> 1"
proof -
  have "list_all status_poll_op ops \<Longrightarrow>
      room p ops \<longleftrightarrow> (if reads_of r ops = [] then p else gen_pld_w_full (last (reads_of r ops)) \<noteq> 1)"
    if "r = CMD_PKT_STATUS" for r
    using that by (induction r ops arbitrary: p rule: reads_of.induct) auto
  then show ?thesis using assms by simp
qed

text \<open>Writing the payload touches no other register.\<close>

fun payload_op :: "bus_op \<Rightarrow> bool" where
  "payload_op (Wr r v) \<longleftrightarrow> r = GEN_PLD_DATA"
| "payload_op (Rd r v) \<longleftrightarrow> True"
| "payload_op (Udelay n) \<longleftrightarrow> True"
| "payload_op _ \<longleftrightarrow> False"

lemma quiet_is_payload: "quiet x \<Longrightarrow> payload_op x"
  by (cases x) simp_all

lemma payload_is_plain: "payload_op x \<Longrightarrow> plain_op x"
  by (cases x) simp_all

lemma payload_writes: "list_all payload_op ops \<Longrightarrow> r \<noteq> GEN_PLD_DATA \<Longrightarrow> writes_of r ops = []"
  by (induction r ops rule: writes_of.induct) auto

text \<open>The bytes of the payload words, in the order they go over the link.\<close>

definition word_bytes :: "u32 \<Rightarrow> u8 list" where
  "word_bytes w = [gen_pld_b1 w, gen_pld_b2 w, gen_pld_b3 w, gen_pld_b4 w]"

definition wire_bytes :: "bus_op list \<Rightarrow> u8 list" where
  "wire_bytes ops = concat (map word_bytes (writes_of GEN_PLD_DATA ops))"

lemma wire_bytes_append [simp]: "wire_bytes (xs @ ys) = wire_bytes xs @ wire_bytes ys"
  by (simp add: wire_bytes_def)

lemma wire_bytes_simps [simp]:
  "wire_bytes [] = []"
  "wire_bytes (Wr r v # ops) = (if r = GEN_PLD_DATA then word_bytes v @ wire_bytes ops else wire_bytes ops)"
  by (simp_all add: wire_bytes_def)

lemma wire_bytes_quiet: "list_all quiet ops \<Longrightarrow> wire_bytes ops = []"
  by (simp add: wire_bytes_def quiet_history)

text \<open>One word: wait, then write.\<close>

lemma not_full_run:
  obtains ret ops where "run_state (MipiTxWaitWriteFifoNotFull env) s = (ret, s\<lparr>bus := bus s @ ops\<rparr>)"
    and "list_all quiet ops" and "length ops \<le> 2004"
    and "ret = HDF_SUCCESS \<Longrightarrow> guarded False (ops @ [Wr GEN_PLD_DATA w])"
    and "guarded False ops"
    and "(\<forall>h. gen_pld_w_full (dev_read env h CMD_PKT_STATUS) \<noteq> 1) \<longrightarrow> ret = HDF_SUCCESS"
proof -
  obtain ret ops where t: "run_state (MipiTxWaitWriteFifoNotFull env) s = (ret, s\<lparr>bus := bus s @ ops\<rparr>)"
    and p: "polled env (bus s) (\<lambda>v. gen_pld_w_full v = 1) 1002 ret ops"
    using not_full.wait_trace by blast
  have polls: "list_all status_poll_op ops" "reads_of CMD_PKT_STATUS ops \<noteq> []"
    and "length ops \<le> 2004"
    and ok: "ret = HDF_SUCCESS \<Longrightarrow> gen_pld_w_full (last (reads_of CMD_PKT_STATUS ops)) \<noteq> 1"
    using p by (auto simp: polled_def Let_def)
  have q: "list_all quiet ops" by (rule list.pred_mono_strong [OF polls(1) status_poll_is_quiet])
  then have g: "guarded False ops" by (simp add: guarded_unwritten quiet_history)
  show ?thesis
  proof
    show "guarded False (ops @ [Wr GEN_PLD_DATA w])" if "ret = HDF_SUCCESS"
      using g ok [OF that] by (simp add: guarded_append room_polled [OF polls])
    show "(\<forall>h. gen_pld_w_full (dev_read env h CMD_PKT_STATUS) \<noteq> 1) \<longrightarrow> ret = HDF_SUCCESS"
      using not_full.ready_success [of env s] t by (auto simp: status_after_def)
  qed fact+
qed

text \<open>The whole words: on the wire is a prefix of the payload, all of it when the loop ended.\<close>

definition bytes_of_words :: "u8 list \<Rightarrow> nat list \<Rightarrow> u8 list" where
  "bytes_of_words bs is = concat (map (\<lambda>i. [bs ! (i * 4), bs ! (i * 4 + 1), bs ! (i * 4 + 2), bs ! (i * 4 + 3)]) is)"

abbreviation (input) never_full :: "mipi_env \<Rightarrow> bool" where
  "never_full env \<equiv> \<forall>h. gen_pld_w_full (dev_read env h CMD_PKT_STATUS) \<noteq> 1"

lemma payload_words_run:
  "\<exists>r ops m. run_state (payload_words env bs is pld) s = (r, s\<lparr>bus := bus s @ ops\<rparr>) \<and>
    list_all payload_op ops \<and> guarded False ops \<and> length ops \<le> 2005 * length is \<and>
    wire_bytes ops = bytes_of_words bs (take m is) \<and> (r \<noteq> None \<longrightarrow> length is \<le> m) \<and>
    (never_full env \<longrightarrow> r \<noteq> None)"
proof (induction "is" arbitrary: pld s)
  case Nil
  show ?case by (auto simp: bytes_of_words_def intro!: exI [of _ "[]"])
next
  case (Cons i "is")
  define w where "w = set_gen_pld_b4 (bs ! (i * 4 + 3)) (set_gen_pld_b3 (bs ! (i * 4 + 2))
     (set_gen_pld_b2 (bs ! (i * 4 + 1)) (set_gen_pld_b1 (bs ! (i * 4)) pld)))"
  have wb: "word_bytes w = bytes_of_words bs [i]"
    by (simp add: w_def word_bytes_def bytes_of_words_def)
  obtain ret ops where t: "run_state (MipiTxWaitWriteFifoNotFull env) s = (ret, s\<lparr>bus := bus s @ ops\<rparr>)"
    and q: "list_all quiet ops" and l: "length ops \<le> 2004"
    and g: "ret = HDF_SUCCESS \<Longrightarrow> guarded False (ops @ [Wr GEN_PLD_DATA w])" and g0: "guarded False ops"
    and ok: "never_full env \<longrightarrow> ret = HDF_SUCCESS"
    by (rule not_full_run [of env s w]) blast
  have plain: "list_all payload_op ops" by (rule list.pred_mono_strong [OF q quiet_is_payload])
  let ?s = "s\<lparr>bus := bus s @ ops @ [Wr GEN_PLD_DATA w]\<rparr>"
  have run: "run_state (payload_words env bs (i # is) pld) s =
      (if ret = HDF_SUCCESS then run_state (payload_words env bs is w) ?s else (None, s\<lparr>bus := bus s @ ops\<rparr>))"
    unfolding payload_words.simps Let_def w_def [symmetric] by (simp add: t run_simps bus_defs)
  show ?case
  proof (cases "ret = HDF_SUCCESS")
    case False
    with run plain g0 l wire_bytes_quiet [OF q] ok show ?thesis
      by (intro exI [of _ None] exI [of _ ops] exI [of _ 0]) (auto simp: bytes_of_words_def)
  next
    case True
    obtain r ops' m where t': "run_state (payload_words env bs is w) ?s = (r, ?s\<lparr>bus := bus ?s @ ops'\<rparr>)"
      and h: "list_all payload_op ops'" "guarded False ops'" "length ops' \<le> 2005 * length is"
        "wire_bytes ops' = bytes_of_words bs (take m is)" "r \<noteq> None \<longrightarrow> length is \<le> m"
        "never_full env \<longrightarrow> r \<noteq> None"
      using Cons.IH [of w ?s] by blast
    let ?ops = "(ops @ [Wr GEN_PLD_DATA w]) @ ops'"
    have "guarded False ?ops" by (rule guarded_join [OF g [OF True] h(2)])
    moreover have "wire_bytes ?ops = bytes_of_words bs (take (Suc m) (i # is))"
      using wire_bytes_quiet [OF q] h(4) by (simp add: wb) (simp add: bytes_of_words_def)
    moreover have "length ?ops \<le> 2005 * length (i # is)" using l h(3) by simp
    ultimately show ?thesis using run True t' h plain
      by (intro exI [of _ r] exI [of _ ?ops] exI [of _ "Suc m"]) simp
  qed
qed

lemma bytes_of_words_upt:
  assumes "4 * j \<le> length bs"
  shows "bytes_of_words bs [0..<j] = take (4 * j) bs"
  using assms
proof (induction j)
  case (Suc j)
  then have "take (4 * Suc j) bs = take (4 * j) bs @ [bs ! (4 * j), bs ! (4 * j + 1), bs ! (4 * j + 2), bs ! (4 * j + 3)]"
    by (simp add: take_Suc_conv_app_nth numeral_eq_Suc)
  with Suc show ?case by (simp add: bytes_of_words_def mult.commute)
qed (simp add: bytes_of_words_def)

lemma payload_run:
  assumes "length bs = n"
  obtains ops m where "after (MipiTxDrvSetPayloadData env bs n) s = s\<lparr>bus := bus s @ ops\<rparr>"
    and "list_all payload_op ops" and "guarded False ops" and "length ops \<le> 1 + 2005 * ((n + 3) div 4)"
    and "take n (wire_bytes ops) = take m bs"
    and "never_full env \<longrightarrow> m = n"
proof -
  let ?j = "n div 4" and ?k = "n mod 4"
  let ?pld = "dev_read env (bus s) GEN_PLD_DATA"
  let ?s = "s\<lparr>bus := bus s @ [Rd GEN_PLD_DATA ?pld]\<rparr>"
  obtain r ops m where t: "run_state (payload_words env bs [0..<?j] ?pld) ?s = (r, ?s\<lparr>bus := bus ?s @ ops\<rparr>)"
    and h: "list_all payload_op ops" "guarded False ops" "length ops \<le> 2005 * ?j"
      "wire_bytes ops = bytes_of_words bs (take m [0..<?j])"
    and full: "r \<noteq> None \<longrightarrow> ?j \<le> m" and free: "never_full env \<longrightarrow> r \<noteq> None"
    using payload_words_run [of env bs "[0..<?j]" ?pld ?s] unfolding length_upt diff_zero by blast
  have prefix: "wire_bytes ops = take (4 * min m ?j) bs"
  proof -
    have "take m [0..<?j] = [0..<min m ?j]" by (simp add: min_def)
    moreover have "4 * min m ?j \<le> length bs" using assms by linarith
    ultimately show ?thesis using h(4) bytes_of_words_upt by simp
  qed
  have cut: "take n (take (4 * min m ?j) bs) = take (4 * min m ?j) bs" by (simp add: assms min_def)
  show ?thesis
  proof (cases "r = None \<or> ?k = 0")
    case True
    then have "after (MipiTxDrvSetPayloadData env bs n) s = s\<lparr>bus := bus s @ Rd GEN_PLD_DATA ?pld # ops\<rparr>"
      using t by (auto simp: MipiTxDrvSetPayloadData_def run_simps after_bind split: option.split)
    moreover have "4 * min m ?j = n" if "never_full env" using True free that full by auto
    ultimately show ?thesis using h prefix cut
      by (intro that [of "Rd GEN_PLD_DATA ?pld # ops" "4 * min m ?j"])
        (auto simp: wire_bytes_def)
  next
    case False
    then obtain pld where r: "r = Some pld" and k: "?k \<noteq> 0" by auto
    define w where "w = (let w1 = set_gen_pld_b1 (bs ! (?j * 4)) pld;
        w2 = (if ?k > 1 then set_gen_pld_b2 (bs ! (?j * 4 + 1)) w1 else w1)
      in if ?k > 2 then set_gen_pld_b3 (bs ! (?j * 4 + 2)) w2 else w2)"
    let ?s' = "?s\<lparr>bus := bus ?s @ ops\<rparr>"
    obtain ret ops' where t': "run_state (MipiTxWaitWriteFifoNotFull env) ?s' = (ret, ?s'\<lparr>bus := bus ?s' @ ops'\<rparr>)"
      and q: "list_all quiet ops'" and l: "length ops' \<le> 2004"
      and g: "ret = HDF_SUCCESS \<Longrightarrow> guarded False (ops' @ [Wr GEN_PLD_DATA w])" and g0: "guarded False ops'"
      and ok: "never_full env \<longrightarrow> ret = HDF_SUCCESS"
      by (rule not_full_run [of env ?s' w]) blast
    let ?last = "if ret = HDF_SUCCESS then [Wr GEN_PLD_DATA w] else []"
    let ?ops = "(Rd GEN_PLD_DATA ?pld # ops) @ ops' @ ?last"
    have run: "after (MipiTxDrvSetPayloadData env bs n) s = s\<lparr>bus := bus s @ ?ops\<rparr>"
      using t t' k r by (simp add: MipiTxDrvSetPayloadData_def run_simps bus_defs w_def Let_def)
    have j: "min m ?j = ?j" using full r by simp
    have n: "n = 4 * ?j + ?k" by simp
    have wb: "take ?k (word_bytes w) = drop (4 * ?j) bs"
    proof (rule nth_equalityI)
      show "length (take ?k (word_bytes w)) = length (drop (4 * ?j) bs)"
        using assms by (simp add: word_bytes_def minus_mult_div_eq_mod)
      fix i
      assume "i < length (take ?k (word_bytes w))"
      then have "i < ?k" and "i < 3" by (auto simp: word_bytes_def)
      then consider "i = 0" | "i = 1" "?k > 1" | "i = 2" "?k > 2" by linarith
      then show "take ?k (word_bytes w) ! i = drop (4 * ?j) bs ! i"
        using k assms n by cases (auto simp: word_bytes_def w_def Let_def mult.commute)
    qed
    have "take n (wire_bytes (ops @ ops' @ ?last)) = (if ret = HDF_SUCCESS then bs else take (4 * ?j) bs)"
    proof (cases "ret = HDF_SUCCESS")
      case True
      have "take n (take (4 * ?j) bs @ word_bytes w) = take (4 * ?j) bs @ take ?k (word_bytes w)"
        using assms by (simp add: minus_mult_div_eq_mod)
      also have "\<dots> = bs" using wb by simp
      finally show ?thesis using True prefix j wire_bytes_quiet [OF q] by simp
    next
      case False
      then show ?thesis using cut prefix j wire_bytes_quiet [OF q] by simp
    qed
    moreover have "guarded False (ops @ ops' @ ?last)"
      using guarded_join [OF h(2)] g g0 by auto
    moreover have "length ?ops \<le> 1 + 2005 * ((n + 3) div 4)"
    proof -
      have "(n + 3) div 4 = ?j + 1" using k by presburger
      then show ?thesis using h(3) l by simp
    qed
    moreover have "list_all payload_op ops'" by (rule list.pred_mono_strong [OF q quiet_is_payload])
    ultimately show ?thesis using run h ok assms
      by (intro that [of ?ops "if ret = HDF_SUCCESS then n else 4 * ?j"]) (auto simp: wire_bytes_def)
  qed
qed

subsection \<open>The packet header\<close>

definition header_word :: "u32 \<Rightarrow> CmdInfoTag \<Rightarrow> u32" where
  "header_word h ci = set_gen_wc_msbyte (ucast (drop_bit 8 (cmdSize ci AND 0xff00)))
     (set_gen_wc_lsbyte (ucast (cmdSize ci AND 0xff)) (set_gen_dt (ucast (cmd_dataType ci)) h))"

lemma bf_get_set_wide:
  assumes "lo + n = mid" and "mid + n' = hi" and "hi \<le> 32"
  shows "bf_get lo (n + n') (bf_set mid n' v' (bf_set lo n v w)) = take_bit n v OR push_bit n (take_bit n' v')"
proof (rule bit_eqI)
  fix i
  assume "possible_bit TYPE(32 word) i"
  then show "bit (bf_get lo (n + n') (bf_set mid n' v' (bf_set lo n v w))) i =
      bit (take_bit n v OR push_bit n (take_bit n' v')) i"
    using assms by (cases "i < n") (auto simp: bit_bf_get bit_bf_set bit_simps)
qed

lemma u16_bytes:
  "take_bit 8 (ucast (w AND 0xff) :: u32) OR push_bit 8 (take_bit 8 (ucast (drop_bit 8 (w AND 0xff00)))) = ucast (w :: u16)"
  (is "?l = ?r")
proof -
  have lo: "w AND 0xff = take_bit 8 w"
    by (simp add: take_bit_eq_mask mask_eq_exp_minus_1)
  have ff: "(0xff00 :: u16) = push_bit 8 (mask 8)" by (simp add: mask_eq_exp_minus_1 push_bit_eq_mult)
  have "drop_bit 8 (w AND push_bit 8 (mask m)) = take_bit m (drop_bit 8 w)" for m
    by (rule bit_eqI) (auto simp: bit_simps dest: bit_imp_le_length)
  moreover have "take_bit 8 (drop_bit 8 w) = drop_bit 8 w"
    by (rule bit_eqI) (auto simp: bit_simps dest: bit_imp_le_length)
  ultimately have hi: "drop_bit 8 (w AND 0xff00) = drop_bit 8 w"
    unfolding ff by (simp only:)
  show ?thesis
    unfolding lo hi by (rule bit_eqI) (auto simp: bit_simps dest: bit_imp_le_length)
qed

text \<open>The header carries the data type and the word count, and keeps the virtual channel.\<close>

lemma header_fields:
  "bf_get 8 16 (header_word h ci) = ucast (cmdSize ci)"
  "bf_get 0 6 (header_word h ci) = take_bit 6 (ucast (cmd_dataType ci))"
  "bf_get 6 2 (header_word h ci) = bf_get 6 2 h"
proof -
  show "bf_get 8 16 (header_word h ci) = ucast (cmdSize ci)"
    using bf_get_set_wide [of 8 8 16 8 24] u16_bytes
    by (simp add: header_word_def set_gen_wc_msbyte_def set_gen_wc_lsbyte_def)
qed (simp_all add: header_word_def set_gen_wc_msbyte_def set_gen_wc_lsbyte_def set_gen_dt_def
    bf_get_set_same bf_get_set_other)

subsection \<open>One command from start to end\<close>

lemma send_header_run:
  "\<exists>ret ops. run_state (send_header env h ci) s = (ret, s\<lparr>bus := bus s @ Wr GEN_HDR (header_word h ci) # ops\<rparr>) \<and>
    list_all quiet ops \<and> length ops \<le> 4005 \<and> ret \<in> {HDF_SUCCESS, HDF_FAILURE} \<and>
    (ret = HDF_SUCCESS \<longrightarrow>
       (\<exists>v \<in> set (reads_of CMD_PKT_STATUS ops). gen_cmd_empty v \<noteq> 0) \<and>
       gen_pld_w_empty (last (reads_of CMD_PKT_STATUS ops)) \<noteq> 0)"
proof -
  let ?s = "s\<lparr>bus := bus s @ [Wr GEN_HDR (header_word h ci), Udelay 350]\<rparr>"
  obtain r1 o1 where t1: "run_state (MipiTxWaitCmdFifoEmpty env) ?s = (r1, ?s\<lparr>bus := bus ?s @ o1\<rparr>)"
    and p1: "polled env (bus ?s) (\<lambda>v. gen_cmd_empty v = 0) 1001 r1 o1"
    using cmd_empty.wait_trace by blast
  let ?s1 = "?s\<lparr>bus := bus ?s @ o1\<rparr>"
  obtain r2 o2 where t2: "run_state (MipiTxWaitWriteFifoEmpty env) ?s1 = (r2, ?s1\<lparr>bus := bus ?s1 @ o2\<rparr>)"
    and p2: "polled env (bus ?s1) (\<lambda>v. gen_pld_w_empty v = 0) 1001 r2 o2"
    using write_empty.wait_trace by blast
  have q: "list_all quiet o1" "list_all quiet o2" "length o1 \<le> 2002" "length o2 \<le> 2002"
    using p1 p2 by (auto simp: polled_def Let_def intro: list.pred_mono_strong [OF _ status_poll_is_quiet])
  have ok1: "\<exists>v \<in> set (reads_of CMD_PKT_STATUS o1). gen_cmd_empty v \<noteq> 0" if "r1 = HDF_SUCCESS"
    using p1 that by (auto simp: polled_def Let_def intro: last_in_set)
  have ok2: "reads_of CMD_PKT_STATUS o2 \<noteq> [] \<and> gen_pld_w_empty (last (reads_of CMD_PKT_STATUS o2)) \<noteq> 0"
    if "r2 = HDF_SUCCESS"
    using p2 that by (auto simp: polled_def Let_def)
  have run: "run_state (send_header env h ci) s =
    (if r1 = HDF_SUCCESS then (if r2 = HDF_SUCCESS then HDF_SUCCESS else HDF_FAILURE, ?s1\<lparr>bus := bus ?s1 @ o2\<rparr>)
     else (HDF_FAILURE, ?s1))"
    unfolding send_header_def Let_def header_word_def [symmetric]
    using t1 t2 by (simp add: run_simps bus_defs)
  show ?thesis
  proof (cases "r1 = HDF_SUCCESS")
    case True
    then show ?thesis using run q ok1 ok2
      by (intro exI [of _ "if r2 = HDF_SUCCESS then HDF_SUCCESS else HDF_FAILURE"] exI [of _ "Udelay 350 # o1 @ o2"]) auto
  next
    case False
    then show ?thesis using run q
      by (intro exI [of _ HDF_FAILURE] exI [of _ "Udelay 350 # o1"]) auto
  qed
qed

text \<open>
  What the Linux headers document of \<open>copy_from_user\<close>: when it succeeds, the destination holds
  the \<open>n\<close> bytes at the source.
\<close>

definition user_copy_ok :: "mipi_env \<Rightarrow> bool" where
  "user_copy_ok env \<longleftrightarrow>
     (\<forall>n src d. copy_from_user env n src = Some d \<longrightarrow> length d = n \<and> (n \<le> length src \<longrightarrow> d = take n src))"

lemma copy_run:
  assumes "user_copy_ok env" and "n \<le> length src"
  shows "\<exists>ret buf. run_state (LinuxCopyToKernel env src n) s = ((ret, buf), s) \<and>
    (ret = HDF_SUCCESS \<longrightarrow> buf = take n src)"
  using assms by (auto simp: LinuxCopyToKernel_def user_copy_ok_def split: option.splits)

lemma guarded_quiet: "list_all quiet ops \<Longrightarrow> guarded p ops"
  by (simp add: guarded_unwritten quiet_history)

text \<open>
  The whole operation: what it adds to the history, that it frees its buffer, and that it
  reports success only for a complete header and empty FIFOs.
\<close>

lemma set_cmd_run:
  assumes "user_copy_ok env" and "cmd ci = Some src" and "unat (cmdSize ci) \<le> length src"
  shows "\<exists>ops m. after (MipiTxDrvSetCmdInfo env (Some ci)) s = s\<lparr>bus := bus s @ ops\<rparr> \<and>
    list_all plain_op ops \<and> guarded False ops \<and> length ops \<le> 104258 \<and>
    take (unat (cmdSize ci)) (wire_bytes ops) = take m (take (unat (cmdSize ci)) src) \<and>
    (never_full env \<longrightarrow> result (MipiTxDrvSetCmdInfo env (Some ci)) s = HDF_SUCCESS \<longrightarrow> m = unat (cmdSize ci)) \<and>
    (result (MipiTxDrvSetCmdInfo env (Some ci)) s = HDF_SUCCESS \<longrightarrow>
       writes_of GEN_HDR ops = [header_word (dev_read env (bus s) GEN_HDR) ci] \<and>
       gen_pld_w_empty (last (reads_of CMD_PKT_STATUS ops)) \<noteq> 0)"
proof -
  let ?n = "unat (cmdSize ci)"
  let ?g = "Rd GEN_HDR (dev_read env (bus s) GEN_HDR)"
  let ?s = "s\<lparr>bus := bus s @ [?g]\<rparr>"
  let ?h = "dev_read env (bus s) GEN_HDR"
  show ?thesis
  proof (cases "cmdSize ci > 200 \<or> cmdSize ci = 0 \<or> \<not> calloc_ok env ?n")
    case True
    then show ?thesis using assms(2)
      by (intro exI [of _ "[?g]"] exI [of _ 0])
        (auto simp: MipiTxDrvSetCmdInfo_def OsalMemCalloc_def run_simps wire_bytes_def)
  next
    case False
    then have small: "?n \<le> 200" by (simp add: word_le_nat_alt not_less)
    let ?a = "?s\<lparr>live_bufs := live_bufs s + 1\<rparr>"
    obtain ret buf where c: "run_state (LinuxCopyToKernel env src ?n) ?a = ((ret, buf), ?a)"
      and b: "ret = HDF_SUCCESS \<longrightarrow> buf = take ?n src"
      using copy_run [OF assms(1,3), of ?a] by blast
    have len: "length (take ?n src) = ?n" using assms(3) by simp
    show ?thesis
    proof (cases "ret = HDF_SUCCESS")
      case no: False
      then have "run_state (MipiTxDrvSetCmdInfo env (Some ci)) s = (HDF_ERR_IO, ?s)"
        using assms(2) False c by (simp add: MipiTxDrvSetCmdInfo_def OsalMemCalloc_def OsalMemFree_def run_simps)
      then show ?thesis by (intro exI [of _ "[?g]"] exI [of _ 0]) (simp add: wire_bytes_def)
    next
      case yes: True
      obtain ops m where p: "after (MipiTxDrvSetPayloadData env buf ?n) ?a = ?a\<lparr>bus := bus ?a @ ops\<rparr>"
        and h: "list_all payload_op ops" "guarded False ops" "length ops \<le> 1 + 2005 * ((?n + 3) div 4)"
          "take ?n (wire_bytes ops) = take m buf" "never_full env \<longrightarrow> m = ?n"
        using payload_run [of buf ?n env ?a] b yes len by metis
      let ?s' = "?s\<lparr>bus := bus ?s @ ops\<rparr>"
      obtain r ops' where t: "run_state (send_header env ?h ci) ?s' =
          (r, ?s'\<lparr>bus := bus ?s' @ Wr GEN_HDR (header_word ?h ci) # ops'\<rparr>)"
        and q: "list_all quiet ops'" "length ops' \<le> 4005"
        and ok: "r = HDF_SUCCESS \<longrightarrow> (\<exists>v \<in> set (reads_of CMD_PKT_STATUS ops'). gen_cmd_empty v \<noteq> 0) \<and>
            gen_pld_w_empty (last (reads_of CMD_PKT_STATUS ops')) \<noteq> 0"
        using send_header_run [of env ?h ci ?s'] by blast
      have run: "run_state (MipiTxDrvSetCmdInfo env (Some ci)) s =
          (r, s\<lparr>bus := bus s @ ?g # ops @ Wr GEN_HDR (header_word ?h ci) # ops'\<rparr>)"
        using assms(2) False c yes p t
        by (simp add: MipiTxDrvSetCmdInfo_def OsalMemCalloc_def OsalMemFree_def run_simps case_prod_beta)
      let ?all = "?g # ops @ Wr GEN_HDR (header_word ?h ci) # ops'"
      have "(?n + 3) div 4 \<le> 50" using small by linarith
      then have "length ?all \<le> 104258" using h(3) q(2) by simp
      moreover have "guarded False ?all"
        using h(2) guarded_quiet [OF q(1)] by (simp add: guarded_append)
      moreover have "wire_bytes ?all = wire_bytes ops"
        using wire_bytes_quiet [OF q(1)] by (simp add: wire_bytes_def)
      then have "take ?n (wire_bytes ?all) = take m (take ?n src)"
        using h(4) b yes by simp
      moreover have "list_all plain_op ?all"
        using list.pred_mono_strong [OF h(1) payload_is_plain] list.pred_mono_strong [OF q(1) quiet_is_plain] by simp
      moreover have "r = HDF_SUCCESS \<longrightarrow> writes_of GEN_HDR ?all = [header_word ?h ci]"
        using payload_writes [OF h(1)] quiet_history(2) [OF q(1)] by simp
      moreover have "r = HDF_SUCCESS \<longrightarrow> gen_pld_w_empty (last (reads_of CMD_PKT_STATUS ?all)) \<noteq> 0"
      proof
        assume "r = HDF_SUCCESS"
        with ok have "reads_of CMD_PKT_STATUS ops' \<noteq> []"
          and "gen_pld_w_empty (last (reads_of CMD_PKT_STATUS ops')) \<noteq> 0" by auto
        then show "gen_pld_w_empty (last (reads_of CMD_PKT_STATUS ?all)) \<noteq> 0" by simp
      qed
      ultimately show ?thesis using run h(5) by (intro exI [of _ ?all] exI [of _ m]) auto
    qed
  qed
qed

subsection \<open>Reading the answer\<close>

lemma update_word:
  assumes "i * 4 + 4 \<le> length buf"
  shows "buf[i * 4 := a, i * 4 + 1 := b, i * 4 + 2 := c, i * 4 + 3 := d] =
    take (i * 4) buf @ [a, b, c, d] @ drop (i * 4 + 4) buf"
proof -
  define k where "k = i * 4"
  obtain xs w x y z ys where buf: "buf = xs @ w # x # y # z # ys" and len: "length xs = k"
  proof
    have l: "k + 4 \<le> length buf" using assms by (simp add: k_def)
    show "buf = take k buf @ buf ! k # buf ! (k + 1) # buf ! (k + 2) # buf ! (k + 3) # drop (k + 4) buf"
      using l by (simp add: Cons_nth_drop_Suc numeral_eq_Suc)
    show "length (take k buf) = k" using l by simp
  qed
  have "buf[k := a, k + 1 := b, k + 2 := c, k + 3 := d] = take k buf @ [a, b, c, d] @ drop (k + 4) buf"
    unfolding buf using len by (simp add: list_update_append numeral_eq_Suc)
  then show ?thesis by (simp add: k_def)
qed

text \<open>The whole words, from word \<open>a\<close> to word \<open>b\<close>.\<close>

lemma read_words_run:
  assumes "4 * b \<le> length buf"
  shows "\<exists>ret buf' ops. run_state (read_words env [a..<b] buf) s = ((ret, buf'), s\<lparr>bus := bus s @ ops\<rparr>) \<and>
    list_all plain_op ops \<and> (\<forall>r. writes_of r ops = []) \<and> length ops \<le> 4009 * (b - a) \<and>
    ret \<in> {HDF_SUCCESS, HDF_FAILURE} \<and>
    (ret = HDF_SUCCESS \<longrightarrow> length (reads_of GEN_PLD_DATA ops) = b - a \<and>
       (a \<le> b \<longrightarrow> buf' = take (4 * a) buf @ concat (map word_bytes (reads_of GEN_PLD_DATA ops)) @ drop (4 * b) buf))"
  using assms
proof (induction "b - a" arbitrary: a buf s)
  case 0
  then show ?case by (intro exI [of _ HDF_SUCCESS] exI [of _ buf] exI [of _ "[]"]) auto
next
  case (Suc n)
  then have up: "[a..<b] = a # [Suc a..<b]" by (simp add: upt_conv_Cons)
  have ab: "a < b" using Suc.hyps(2) by simp
  obtain ret ops where t: "run_state (MipiTxWaitReadFifoNotEmpty env) s = (ret, s\<lparr>bus := bus s @ ops\<rparr>)"
    and q: "list_all quiet ops" "length ops \<le> 4008"
    by (rule read_not_empty_run [of env s]) blast
  have plain: "list_all plain_op ops" by (rule list.pred_mono_strong [OF q(1) quiet_is_plain])
  show ?case
  proof (cases "ret = HDF_SUCCESS")
    case False
    then have "run_state (read_words env [a..<b] buf) s = ((HDF_FAILURE, buf), s\<lparr>bus := bus s @ ops\<rparr>)"
      unfolding up by (simp add: t)
    then show ?thesis using q plain ab quiet_history(2) [OF q(1)]
      by (intro exI [of _ HDF_FAILURE] exI [of _ buf] exI [of _ ops]) auto
  next
    case True
    let ?v = "dev_read env (bus s @ ops) GEN_PLD_DATA"
    let ?s = "s\<lparr>bus := bus s @ ops @ [Rd GEN_PLD_DATA ?v]\<rparr>"
    define buf1 where "buf1 = take (a * 4) buf @ word_bytes ?v @ drop (a * 4 + 4) buf"
    have fits: "a * 4 + 4 \<le> length buf" using ab Suc.prems by simp
    have run: "run_state (read_words env [a..<b] buf) s = run_state (read_words env [Suc a..<b] buf1) ?s"
      unfolding up read_words.simps update_word [OF fits] buf1_def word_bytes_def
      by (simp add: t True run_simps)
    have len: "length buf1 = length buf" using fits by (simp add: buf1_def word_bytes_def)
    have n: "n = b - Suc a" and fits1: "4 * b \<le> length buf1" using Suc.hyps(2) Suc.prems len by simp_all
    obtain ret' buf' ops' where t': "run_state (read_words env [Suc a..<b] buf1) ?s = ((ret', buf'), ?s\<lparr>bus := bus ?s @ ops'\<rparr>)"
      and h: "list_all plain_op ops'" "\<forall>r. writes_of r ops' = []" "length ops' \<le> 4009 * (b - Suc a)"
        "ret' \<in> {HDF_SUCCESS, HDF_FAILURE}"
      and ok: "ret' = HDF_SUCCESS \<longrightarrow> length (reads_of GEN_PLD_DATA ops') = b - Suc a \<and>
       (Suc a \<le> b \<longrightarrow> buf' = take (4 * Suc a) buf1 @ concat (map word_bytes (reads_of GEN_PLD_DATA ops')) @ drop (4 * b) buf1)"
      using Suc.hyps(1) [OF n fits1, of ?s] by blast
    let ?ops = "ops @ Rd GEN_PLD_DATA ?v # ops'"
    have head: "take (4 * Suc a) buf1 = take (4 * a) buf @ word_bytes ?v"
      using fits by (simp add: buf1_def word_bytes_def mult.commute)
    have tail: "drop (4 * b) buf1 = drop (4 * b) buf"
    proof -
      obtain m where "b = Suc a + m" using ab by (auto dest: less_imp_Suc_add)
      then show ?thesis using fits
        by (simp add: buf1_def word_bytes_def mult.commute numeral_eq_Suc ac_simps)
    qed
    have "length ?ops \<le> 4009 * (b - a)" using q(2) h(3) ab by (simp add: Suc_diff_Suc [symmetric])
    then show ?thesis
      using run t' h ok plain quiet_history [OF q(1)] head tail ab
      by (intro exI [of _ ret'] exI [of _ buf'] exI [of _ ?ops]) (auto simp: Suc_diff_Suc)
  qed
qed


lemma partial_word:
  assumes "length xs = i" and "length ys = k" and "k \<in> {1, 2, 3}"
    and "b1 = (xs @ ys)[i := a]" and "b2 = (if k > 1 then b1[i + 1 := b] else b1)"
    and "b3 = (if k > 2 then b2[i + 2 := c] else b2)"
  shows "b3 = xs @ take k [a, b, c, d]"
proof -
  consider y where "ys = [y]" "k = 1" | y z where "ys = [y, z]" "k = 2" | x y z where "ys = [x, y, z]" "k = 3"
    using assms(2,3) by (auto simp: length_Suc_conv numeral_eq_Suc)
  then show ?thesis using assms(1,4-6) by cases (simp_all add: list_update_append)
qed

lemma read_data_run:
  assumes "length buf = n"
  shows "\<exists>ret buf' ops. run_state (MipiTxGetReadFifoData env n buf) s = ((ret, buf'), s\<lparr>bus := bus s @ ops\<rparr>) \<and>
    list_all plain_op ops \<and> (\<forall>r. writes_of r ops = []) \<and> length ops \<le> 4009 * ((n + 3) div 4) \<and>
    ret \<in> {HDF_SUCCESS, HDF_FAILURE} \<and>
    (ret = HDF_SUCCESS \<longrightarrow> length (reads_of GEN_PLD_DATA ops) = (n + 3) div 4 \<and>
       buf' = take n (concat (map word_bytes (reads_of GEN_PLD_DATA ops))))"
proof -
  let ?j = "n div 4" and ?k = "n mod 4"
  have fits: "4 * ?j \<le> length buf" using assms by linarith
  obtain ret buf' ops where t: "run_state (read_words env [0..<?j] buf) s = ((ret, buf'), s\<lparr>bus := bus s @ ops\<rparr>)"
    and h: "list_all plain_op ops" "\<forall>r. writes_of r ops = []" "length ops \<le> 4009 * ?j"
      "ret \<in> {HDF_SUCCESS, HDF_FAILURE}"
    and ok: "ret = HDF_SUCCESS \<longrightarrow> length (reads_of GEN_PLD_DATA ops) = ?j \<and>
       buf' = concat (map word_bytes (reads_of GEN_PLD_DATA ops)) @ drop (4 * ?j) buf"
    using read_words_run [OF fits, of env 0 s] by auto
  let ?ws = "reads_of GEN_PLD_DATA ops"
  have len: "length (concat (map word_bytes ws)) = 4 * length ws" for ws
    by (induction ws) (simp_all add: word_bytes_def)
  have le: "4009 * ?j \<le> 4009 * ((n + 3) div 4)" by (simp add: div_le_mono)
  consider "ret \<noteq> HDF_SUCCESS" | "ret = HDF_SUCCESS" "?k = 0" | "ret = HDF_SUCCESS" "?k \<noteq> 0" by blast
  then show ?thesis
  proof cases
    case 1
    then have "run_state (MipiTxGetReadFifoData env n buf) s = ((HDF_FAILURE, buf'), s\<lparr>bus := bus s @ ops\<rparr>)"
      by (simp add: MipiTxGetReadFifoData_def t)
    then show ?thesis using h le by (intro exI [of _ HDF_FAILURE] exI [of _ buf'] exI [of _ ops]) auto
  next
    case 2
    then have "run_state (MipiTxGetReadFifoData env n buf) s = ((HDF_SUCCESS, buf'), s\<lparr>bus := bus s @ ops\<rparr>)"
      by (simp add: MipiTxGetReadFifoData_def t)
    moreover have "(n + 3) div 4 = ?j" and "4 * ?j = n" using 2 by presburger+
    ultimately show ?thesis using h le ok 2 len [of ?ws] assms
      by (intro exI [of _ HDF_SUCCESS] exI [of _ buf'] exI [of _ ops]) simp
  next
    case 3
    let ?s = "s\<lparr>bus := bus s @ ops\<rparr>"
    obtain ret' ops' where t': "run_state (MipiTxWaitReadFifoNotEmpty env) ?s = (ret', ?s\<lparr>bus := bus ?s @ ops'\<rparr>)"
      and q: "list_all quiet ops'" "length ops' \<le> 4008"
      by (rule read_not_empty_run [of env ?s]) blast
    have plain: "list_all plain_op ops'" by (rule list.pred_mono_strong [OF q(1) quiet_is_plain])
    have up: "(n + 3) div 4 = Suc ?j" using 3(2) by presburger
    show ?thesis
    proof (cases "ret' = HDF_SUCCESS")
      case False
      then have "run_state (MipiTxGetReadFifoData env n buf) s = ((HDF_FAILURE, buf'), s\<lparr>bus := bus s @ ops @ ops'\<rparr>)"
        using 3 t' by (simp add: MipiTxGetReadFifoData_def t Let_def)
      then show ?thesis using h plain q up quiet_history(2) [OF q(1)]
        by (intro exI [of _ HDF_FAILURE] exI [of _ buf'] exI [of _ "ops @ ops'"]) auto
    next
      case True
      let ?v = "dev_read env (bus s @ ops @ ops') GEN_PLD_DATA"
      let ?i = "?j * 4"
      define b1 where "b1 = buf'[?i := gen_pld_b1 ?v]"
      define b2 where "b2 = (if ?k > 1 then b1[?i + 1 := gen_pld_b2 ?v] else b1)"
      define b3 where "b3 = (if ?k > 2 then b2[?i + 2 := gen_pld_b3 ?v] else b2)"
      let ?ops = "ops @ ops' @ [Rd GEN_PLD_DATA ?v]"
      have run: "run_state (MipiTxGetReadFifoData env n buf) s = ((HDF_SUCCESS, b3), s\<lparr>bus := bus s @ ?ops\<rparr>)"
        using 3 t' True by (simp add: MipiTxGetReadFifoData_def t run_simps b1_def b2_def b3_def Let_def)
      have n: "n = ?i + ?k" by simp
      obtain xs ys where buf': "buf' = xs @ ys" "length xs = ?i" "length ys = ?k"
        "xs = concat (map word_bytes ?ws)"
        using ok 3(1) len [of ?ws] assms n
        by (metis length_drop mult.commute add_diff_cancel_left')
      have "b3 = xs @ take ?k (word_bytes ?v)"
      proof -
        have "?k \<in> {1, 2, 3}" using 3(2) by auto
        then show ?thesis
          unfolding word_bytes_def by (rule partial_word [OF buf'(2,3) _ b1_def [unfolded buf'(1)] b2_def b3_def])
      qed
      then have b3: "b3 = take n (concat (map word_bytes (reads_of GEN_PLD_DATA ?ops)))"
        using buf' quiet_history(1) [OF q(1)] by (simp add: minus_div_mult_eq_mod)
      show ?thesis using run b3 h plain q ok 3(1) up quiet_history [OF q(1)]
        by (intro exI [of _ HDF_SUCCESS] exI [of _ b3] exI [of _ ?ops]) auto
    qed
  qed
qed


definition request_word :: "u32 \<Rightarrow> GetCmdInfoTag \<Rightarrow> u32" where
  "request_word h gi = set_gen_wc_msbyte (ucast (drop_bit 8 (dataParam gi AND 0xff00)))
     (set_gen_wc_lsbyte (ucast (dataParam gi AND 0xff)) (set_gen_dt (ucast (get_dataType gi)) (set_gen_vc 0 h)))"

lemma request_fields:
  "bf_get 8 16 (request_word h gi) = ucast (dataParam gi)"
  "bf_get 0 6 (request_word h gi) = take_bit 6 (ucast (get_dataType gi))"
  "bf_get 6 2 (request_word h gi) = 0"
proof -
  show "bf_get 8 16 (request_word h gi) = ucast (dataParam gi)"
    using bf_get_set_wide [of 8 8 16 8 24] u16_bytes
    by (simp add: request_word_def set_gen_wc_msbyte_def set_gen_wc_lsbyte_def)
qed (simp_all add: request_word_def set_gen_wc_msbyte_def set_gen_wc_lsbyte_def set_gen_dt_def
    set_gen_vc_def bf_get_set_same bf_get_set_other)

lemma short_packet_run:
  "\<exists>ret ops. run_state (MipiTxSendShortPacket env 0 (get_dataType gi) (dataParam gi)) s =
      (ret, s\<lparr>bus := bus s @ Wr GEN_HDR (request_word (stack32 env) gi) # ops\<rparr>) \<and>
    list_all quiet ops \<and> length ops \<le> 2002"
proof -
  let ?s = "s\<lparr>bus := bus s @ [Wr GEN_HDR (request_word (stack32 env) gi)]\<rparr>"
  obtain ret ops where t: "run_state (MipiTxWaitCmdFifoEmpty env) ?s = (ret, ?s\<lparr>bus := bus ?s @ ops\<rparr>)"
    and p: "polled env (bus ?s) (\<lambda>v. gen_cmd_empty v = 0) 1001 ret ops"
    using cmd_empty.wait_trace by blast
  have "list_all quiet ops" "length ops \<le> 2002"
    using p by (auto simp: polled_def Let_def intro: list.pred_mono_strong [OF _ status_poll_is_quiet])
  moreover have "run_state (MipiTxSendShortPacket env 0 (get_dataType gi) (dataParam gi)) s =
      (if ret = HDF_SUCCESS then HDF_SUCCESS else HDF_FAILURE, ?s\<lparr>bus := bus ?s @ ops\<rparr>)"
    unfolding MipiTxSendShortPacket_def Let_def unsigned_0 request_word_def [symmetric]
    using t by (simp add: run_simps bus_defs)
  ultimately show ?thesis by auto
qed

text \<open>
  The whole operation. \<open>drained\<close> is what the stale FIFO words cost, \<open>ops\<close> are the accesses
  after the request header; the answer is the bytes of the words read in \<open>ops\<close>.
\<close>

lemma get_cmd_run:
  fixes gi :: GetCmdInfoTag
  defines "n \<equiv> unat (getDataSize gi)"
  shows "\<exists>ret out ops. run_state (MipiTxDrvGetCmdInfo env gi) s = ((ret, out), s\<lparr>bus := bus s @ ops\<rparr>) \<and>
    list_all plain_op ops \<and> writes_of GEN_PLD_DATA ops = [] \<and> length ops \<le> 5012 + 4009 * ((n + 3) div 4) \<and>
    (ret = HDF_SUCCESS \<longleftrightarrow> out \<noteq> None) \<and>
    (\<forall>d. out = Some d \<longrightarrow> (\<exists>drain ops'. ops = drain @ Wr GEN_HDR (request_word (stack32 env) gi) # ops' \<and>
       length (reads_of GEN_PLD_DATA ops') = (n + 3) div 4 \<and>
       d = take n (concat (map word_bytes (reads_of GEN_PLD_DATA ops')))))"
proof (cases "calloc_ok env n")
  case False
  then show ?thesis
    by (intro exI [of _ HDF_ERR_MALLOC_FAIL] exI [of _ None] exI [of _ "[]"])
      (simp add: MipiTxDrvGetCmdInfo_def OsalMemCalloc_def n_def Let_def)
next
  case ok: True
  let ?a = "s\<lparr>live_bufs := live_bufs s + 1\<rparr>"
  let ?hdr = "Wr GEN_HDR (request_word (stack32 env) gi)"
  obtain r1 o1 where t1: "run_state (MipiTxWaitReadFifoEmpty env) ?a = (r1, ?a\<lparr>bus := bus ?a @ o1\<rparr>)"
    and h1: "list_all plain_op o1" "\<forall>r. writes_of r o1 = []" "length o1 \<le> 3003"
    by (rule read_empty_run [of env ?a]) blast
  let ?b = "?a\<lparr>bus := bus ?a @ o1\<rparr>"
  obtain r2 o2 where t2: "run_state (MipiTxSendShortPacket env 0 (get_dataType gi) (dataParam gi)) ?b =
      (r2, ?b\<lparr>bus := bus ?b @ ?hdr # o2\<rparr>)"
    and h2: "list_all quiet o2" "length o2 \<le> 2002"
    using short_packet_run by blast
  let ?c = "?b\<lparr>bus := bus ?b @ ?hdr # o2\<rparr>"
  have p2: "list_all plain_op o2" by (rule list.pred_mono_strong [OF h2(1) quiet_is_plain])
  obtain r3 d o3 where t3: "run_state (MipiTxGetReadFifoData env n (replicate n (stack8 env))) ?c =
      ((r3, d), ?c\<lparr>bus := bus ?c @ o3\<rparr>)"
    and h3: "list_all plain_op o3" "\<forall>r. writes_of r o3 = []" "length o3 \<le> 4009 * ((n + 3) div 4)"
    and d: "r3 = HDF_SUCCESS \<longrightarrow> length (reads_of GEN_PLD_DATA o3) = (n + 3) div 4 \<and>
       d = take n (concat (map word_bytes (reads_of GEN_PLD_DATA o3)))"
    using read_data_run [of "replicate n (stack8 env)" n env ?c] by auto
  note run = MipiTxDrvGetCmdInfo_def OsalMemCalloc_def OsalMemFree_def Let_def n_def [symmetric] run_simps
  consider "r1 \<noteq> HDF_SUCCESS" | "r1 = HDF_SUCCESS" "r2 \<noteq> HDF_SUCCESS"
    | "r1 = HDF_SUCCESS" "r2 = HDF_SUCCESS" "r3 \<noteq> HDF_SUCCESS"
    | "r1 = HDF_SUCCESS" "r2 = HDF_SUCCESS" "r3 = HDF_SUCCESS" by blast
  then show ?thesis
  proof cases
    case 1
    then show ?thesis using ok t1 h1
      by (intro exI [of _ HDF_FAILURE] exI [of _ None] exI [of _ o1]) (simp add: run)
  next
    case 2
    then show ?thesis using ok t1 t2 h1 h2 p2 quiet_history(2) [OF h2(1)]
      by (intro exI [of _ HDF_FAILURE] exI [of _ None] exI [of _ "o1 @ ?hdr # o2"]) (simp add: run)
  next
    case 3
    then show ?thesis using ok t1 t2 t3 h1 h2 h3 p2 quiet_history(2) [OF h2(1)]
      by (intro exI [of _ HDF_FAILURE] exI [of _ None] exI [of _ "o1 @ ?hdr # o2 @ o3 @ reset_ops"])
        (simp add: run reset_ops_def)
  next
    case 4
    let ?ok = "\<not> (access_ok env \<and> \<not> copy_to_user_ok env \<or> \<not> access_ok env \<and> \<not> memcpy_s_ok env)"
    have "run_state (MipiTxDrvGetCmdInfo env gi) s =
        (if ?ok then (HDF_SUCCESS, Some d) else (HDF_FAILURE, None), s\<lparr>bus := bus s @ o1 @ ?hdr # o2 @ o3\<rparr>)"
      using 4 ok t1 t2 t3 by (simp add: run)
    moreover have "\<exists>drain ops'. o1 @ ?hdr # o2 @ o3 = drain @ ?hdr # ops' \<and>
       length (reads_of GEN_PLD_DATA ops') = (n + 3) div 4 \<and>
       d = take n (concat (map word_bytes (reads_of GEN_PLD_DATA ops')))"
      using d 4(3) quiet_history(1) [OF h2(1)] by (intro exI [of _ o1] exI [of _ "o2 @ o3"]) simp
    ultimately show ?thesis using h1 h2 h3 p2 quiet_history(2) [OF h2(1)]
      by (intro exI [of _ "if ?ok then HDF_SUCCESS else HDF_FAILURE"] exI [of _ "if ?ok then Some d else None"]
          exI [of _ "o1 @ ?hdr # o2 @ o3"]) (cases ?ok, simp_all)
  qed
qed

end
