(* ===== verification/Mipi_Tx.thy ===== *)
theory Mipi_Tx
  imports Mipi_Tx_Cmd
begin

section \<open>MIPI TX: the controller driver\<close>

text \<open>
  The outer half of \<open>mipi_tx_hi35xx.c\<close>: mapping the registers, the checks in front of every
  operation, the method table the DSI core calls through, and load and unload of the driver.
  The DSI core (\<open>mipi_dsi_core.h\<close>) belongs to another repository: its controller and command
  structures are records of the fields the driver reads, and the results of
  \<open>MipiDsiRegisterCntlr\<close> and \<open>MipiDsiDevModuleInit\<close> are arguments.
\<close>

subsection \<open>Mapping the registers and starting the clock\<close>

definition MipiTxDrvRegInit :: "mipi_env \<Rightarrow> (mipi_tx, hdf_status) state" where
  "MipiTxDrvRegInit env = do {
     va \<leftarrow> gets regs_va;
     if \<not> va then do {
       ok \<leftarrow> gets (\<lambda>s. io_remap_ok env (bus s));
       emit [IoRemapRegs ok];
       modify (\<lambda>s. s\<lparr>regs_va := ok\<rparr>);
       if \<not> ok then State_Monad.return HDF_FAILURE
       else do { modify (\<lambda>s. s\<lparr>reg_map_flag := 1\<rparr>); State_Monad.return HDF_SUCCESS } }
     else State_Monad.return HDF_SUCCESS }"

definition MipiTxDrvRegExit :: "(mipi_tx, unit) state" where
  "MipiTxDrvRegExit = do {
     flag \<leftarrow> gets reg_map_flag;
     if flag = 1 then do {
       va \<leftarrow> gets regs_va;
       (if va then do { emit [IoUnmapRegs]; modify (\<lambda>s. s\<lparr>regs_va := False\<rparr>) } else skip);
       modify (\<lambda>s. s\<lparr>reg_map_flag := 0\<rparr>) }
     else skip }"

text \<open>\<open>WriteReg32\<close> on the clock register: read, replace the masked bits, write back.\<close>

definition WriteReg32 :: "mipi_env \<Rightarrow> u32 \<Rightarrow> u32 \<Rightarrow> (mipi_tx, unit) state" where
  "WriteReg32 env value mask' = do {
     t \<leftarrow> gets (\<lambda>s. crg_read env (bus s));
     emit [CrgRd t];
     emit [CrgWr ((t AND NOT mask') OR (value AND mask'))] }"

definition MipiTxDrvHwInit :: "mipi_env \<Rightarrow> int \<Rightarrow> (mipi_tx, unit) state" where
  "MipiTxDrvHwInit env smooth = do {
     emit [CrgRemap];
     WriteReg32 env 1 0x1;
     (if smooth = 0 then WriteReg32 env 2 2 else skip);
     WriteReg32 env 0 2;
     WriteReg32 env 4 4;
     emit [CrgUnmap] }"

definition MipiTxDrvInit :: "mipi_env \<Rightarrow> int \<Rightarrow> (mipi_tx, hdf_status) state" where
  "MipiTxDrvInit env smooth = do {
     ret \<leftarrow> MipiTxDrvRegInit env;
     if ret \<noteq> HDF_SUCCESS then State_Monad.return HDF_FAILURE
     else do { MipiTxDrvHwInit env smooth; State_Monad.return HDF_SUCCESS } }"

definition MipiTxDrvExit :: "(mipi_tx, unit) state" where
  "MipiTxDrvExit = MipiTxDrvRegExit"

subsection \<open>Configuration\<close>

record DsiTimingInfo =
  xPixels :: u16
  hsaPixels :: u16
  hbpPixels :: u16
  hlinePixels :: u16
  vsaLines :: u16
  vbpLines :: u16
  vfpLines :: u16
  ylines :: u16
  edpiCmdSize_cfg :: u16

record MipiDsiCntlr =
  devNo :: u32
  lane :: nat
  dsi_mode :: u32
  burstMode :: u32
  format :: u32
  timing :: DsiTimingInfo
  cfg_phyDataRate :: u32
  cfg_pixelClk :: u32

text \<open>
  \<open>laneId\<close> has four entries; the loop over \<open>cfg.lane\<close> is bounded by the configuration only, so
  more lanes write behind the array.
\<close>

definition dev_cfg :: "MipiDsiCntlr \<Rightarrow> ComboDevCfgTag" where
  "dev_cfg c = \<lparr>devno = devNo c,
     laneId = map int [0..<min (lane c) LANE_MAX_NUM] @ replicate (LANE_MAX_NUM - lane c) (-1),
     outputMode = dsi_mode c, videoMode = burstMode c, outputFormat = format c,
     syncInfo = \<lparr>vidPktSize = xPixels (timing c), vidHsaPixels = hsaPixels (timing c),
       vidHbpPixels = hbpPixels (timing c), vidHlinePixels = hlinePixels (timing c),
       vidVsaLines = vsaLines (timing c), vidVbpLines = vbpLines (timing c),
       vidVfpLines = vfpLines (timing c), vidActiveLines = ylines (timing c),
       edpiCmdSize = edpiCmdSize_cfg (timing c)\<rparr>,
     phyDataRate = cfg_phyDataRate c, pixelClk = cfg_pixelClk c\<rparr>"

definition GetDevCfg :: "MipiDsiCntlr option \<Rightarrow> (mipi_tx, ComboDevCfgTag option) state" where
  "GetDevCfg cntlr = (case cntlr of None \<Rightarrow> State_Monad.return None
   | Some c \<Rightarrow>
       if lane c > LANE_MAX_NUM then oob (Some (dev_cfg c))
       else State_Monad.return (Some (dev_cfg c)))"

definition MipiTxCheckCombDevCfg :: "ComboDevCfgTag \<Rightarrow> (mipi_tx, hdf_status) state" where
  "MipiTxCheckCombDevCfg cfg = do {
     hs \<leftarrow> gets en_hs_mode;
     State_Monad.return
       (if hs then HDF_FAILURE
        else if devno cfg \<noteq> 0 then HDF_ERR_INVALID_PARAM
        else if list_ex (\<lambda>i. laneId cfg ! i \<noteq> int i \<and> laneId cfg ! i \<noteq> -1) [0..<LANE_MAX_NUM]
        then HDF_ERR_INVALID_PARAM
        else if outputMode cfg \<noteq> OUTPUT_MODE_CSI \<and> outputMode cfg \<noteq> OUTPUT_MODE_DSI_VIDEO \<and>
          outputMode cfg \<noteq> OUTPUT_MODE_DSI_CMD then HDF_ERR_INVALID_PARAM
        else if videoMode cfg \<noteq> BURST_MODE \<and> videoMode cfg \<noteq> NON_BURST_MODE_SYNC_PULSES \<and>
          videoMode cfg \<noteq> NON_BURST_MODE_SYNC_EVENTS then HDF_ERR_INVALID_PARAM
        else if outputFormat cfg \<noteq> OUT_FORMAT_RGB_16_BIT \<and> outputFormat cfg \<noteq> OUT_FORMAT_RGB_18_BIT \<and>
          outputFormat cfg \<noteq> OUT_FORMAT_RGB_24_BIT \<and> outputFormat cfg \<noteq> OUT_FORMAT_YUV420_8_BIT_NORMAL \<and>
          outputFormat cfg \<noteq> OUT_FORMAT_YUV420_8_BIT_LEGACY \<and> outputFormat cfg \<noteq> OUT_FORMAT_YUV422_8_BIT
        then HDF_ERR_INVALID_PARAM
        else HDF_SUCCESS) }"

definition MipiTxSetComboDevCfg :: "mipi_env \<Rightarrow> ComboDevCfgTag \<Rightarrow> (mipi_tx, hdf_status) state" where
  "MipiTxSetComboDevCfg env cfg = do {
     ret \<leftarrow> MipiTxCheckCombDevCfg cfg;
     if ret \<noteq> HDF_SUCCESS then State_Monad.return ret
     else do {
       MipiTxDrvSetControllerCfg (Some cfg);
       MipiTxDrvSetPhyCfg env (Some cfg);
       modify (\<lambda>s. s\<lparr>en_cfg := True\<rparr>);
       State_Monad.return ret } }"

definition Hi35xxSetCntlrCfg :: "mipi_env \<Rightarrow> MipiDsiCntlr option \<Rightarrow> (mipi_tx, hdf_status) state" where
  "Hi35xxSetCntlrCfg env cntlr = do {
     dev \<leftarrow> GetDevCfg cntlr;
     case dev of None \<Rightarrow> State_Monad.return HDF_ERR_INVALID_OBJECT
     | Some d \<Rightarrow> MipiTxSetComboDevCfg env d }"

subsection \<open>Commands\<close>

record DsiCmdDesc =
  dataType :: u16
  dataLen :: u32
  payload :: "u8 list"

definition MipiTxCheckSetCmdInfo :: "CmdInfoTag \<Rightarrow> (mipi_tx, hdf_status) state" where
  "MipiTxCheckSetCmdInfo ci = do {
     hs \<leftarrow> gets en_hs_mode;
     configured \<leftarrow> gets en_cfg;
     State_Monad.return
       (if hs then HDF_FAILURE
        else if \<not> configured then HDF_FAILURE
        else if cmd_devno ci \<noteq> 0 then HDF_ERR_INVALID_PARAM
        else if cmd ci \<noteq> None \<and> cmdSize ci > MIPI_TX_SET_DATA_SIZE then HDF_ERR_INVALID_PARAM
        else HDF_SUCCESS) }"

definition MipiTxSetCmd :: "mipi_env \<Rightarrow> CmdInfoTag option \<Rightarrow> (mipi_tx, hdf_status) state" where
  "MipiTxSetCmd env cmdInfo = (case cmdInfo of None \<Rightarrow> State_Monad.return HDF_ERR_INVALID_OBJECT
   | Some ci \<Rightarrow> do {
       ret \<leftarrow> MipiTxCheckSetCmdInfo ci;
       if ret \<noteq> HDF_SUCCESS then State_Monad.return ret
       else MipiTxDrvSetCmdInfo env (Some ci) })"

definition Hi35xxSetCmd :: "mipi_env \<Rightarrow> DsiCmdDesc option \<Rightarrow> (mipi_tx, hdf_status) state" where
  "Hi35xxSetCmd env desc = (case desc of None \<Rightarrow> State_Monad.return HDF_ERR_INVALID_OBJECT
   | Some c \<Rightarrow>
       if dataLen c > 2 then
         MipiTxSetCmd env (Some \<lparr>cmd_devno = 0, cmd_dataType = dataType c, cmdSize = ucast (dataLen c),
           cmd = Some (payload c)\<rparr>)
       else if dataLen c = 2 then
         (case (byte_at (payload c) 0, byte_at (payload c) 1) of
            (Some p0, Some p1) \<Rightarrow>
              (let tmp = (ucast p1 :: u16);
                   tmp = push_bit 8 (tmp AND 0x00ff);
                   tmp = 0xff00 AND tmp;
                   tmp = tmp OR ucast p0
               in MipiTxSetCmd env (Some \<lparr>cmd_devno = 0, cmd_dataType = dataType c, cmdSize = tmp,
                    cmd = None\<rparr>))
          | _ \<Rightarrow> oob HDF_FAILURE)
       else if dataLen c = 1 then
         (case byte_at (payload c) 0 of
            Some p0 \<Rightarrow> MipiTxSetCmd env (Some \<lparr>cmd_devno = 0, cmd_dataType = dataType c,
              cmdSize = ucast p0, cmd = None\<rparr>)
          | None \<Rightarrow> oob HDF_FAILURE)
       else State_Monad.return HDF_ERR_INVALID_PARAM)"

definition MipiTxCheckGetCmdInfo :: "GetCmdInfoTag \<Rightarrow> (mipi_tx, hdf_status) state" where
  "MipiTxCheckGetCmdInfo gi = do {
     hs \<leftarrow> gets en_hs_mode;
     configured \<leftarrow> gets en_cfg;
     State_Monad.return
       (if hs then HDF_FAILURE
        else if \<not> configured then HDF_FAILURE
        else if get_devno gi \<noteq> 0 then HDF_ERR_INVALID_PARAM
        else if getDataSize gi = 0 \<or> getDataSize gi > MIPI_TX_GET_DATA_SIZE then HDF_ERR_INVALID_PARAM
        else if \<not> getData gi then HDF_ERR_INVALID_OBJECT
        else HDF_SUCCESS) }"

definition MipiTxGetCmd ::
  "mipi_env \<Rightarrow> GetCmdInfoTag \<Rightarrow> (mipi_tx, hdf_status \<times> u8 list option) state" where
  "MipiTxGetCmd env gi = do {
     ret \<leftarrow> MipiTxCheckGetCmdInfo gi;
     if ret \<noteq> HDF_SUCCESS then State_Monad.return (ret, None)
     else MipiTxDrvGetCmdInfo env gi }"

definition Hi35xxGetCmd ::
  "mipi_env \<Rightarrow> DsiCmdDesc option \<Rightarrow> u32 \<Rightarrow> bool \<Rightarrow> (mipi_tx, hdf_status \<times> u8 list option) state" where
  "Hi35xxGetCmd env desc readLen out =
     (case desc of None \<Rightarrow> State_Monad.return (HDF_ERR_INVALID_OBJECT, None)
      | Some c \<Rightarrow>
          if \<not> out then State_Monad.return (HDF_ERR_INVALID_OBJECT, None)
          else (case byte_at (payload c) 0 of
              None \<Rightarrow> oob (HDF_FAILURE, None)
            | Some p0 \<Rightarrow> MipiTxGetCmd env \<lparr>get_devno = 0, get_dataType = dataType c,
                dataParam = ucast p0, getDataSize = ucast readLen, getData = out\<rparr>))"

subsection \<open>Switching modes, and the method table\<close>

definition Hi35xxToLp :: "(mipi_tx, unit) state" where
  "Hi35xxToLp = MipiTxDrvDisableInput"

definition Hi35xxToHs :: "MipiDsiCntlr option \<Rightarrow> (mipi_tx, unit) state" where
  "Hi35xxToHs cntlr = do {
     dev \<leftarrow> GetDevCfg cntlr;
     case dev of None \<Rightarrow> skip | Some d \<Rightarrow> MipiTxDrvEnableInput (outputMode d) }"

record MipiDsiCntlrMethod =
  m_setCntlrCfg :: "MipiDsiCntlr option \<Rightarrow> (mipi_tx, hdf_status) state"
  m_setCmd :: "DsiCmdDesc option \<Rightarrow> (mipi_tx, hdf_status) state"
  m_getCmd :: "DsiCmdDesc option \<Rightarrow> u32 \<Rightarrow> bool \<Rightarrow> (mipi_tx, hdf_status \<times> u8 list option) state"
  m_toHs :: "MipiDsiCntlr option \<Rightarrow> (mipi_tx, unit) state"
  m_toLp :: "(mipi_tx, unit) state"

definition g_method :: "mipi_env \<Rightarrow> MipiDsiCntlrMethod" where
  "g_method env = \<lparr>m_setCntlrCfg = Hi35xxSetCntlrCfg env, m_setCmd = Hi35xxSetCmd env,
     m_getCmd = Hi35xxGetCmd env, m_toHs = Hi35xxToHs, m_toLp = Hi35xxToLp\<rparr>"

subsection \<open>Loading and unloading\<close>

text \<open>
  The driver in its surroundings: \<open>registered\<close> is whether the DSI core knows the controller and
  may call its methods, \<open>dev_module\<close> whether the character device of \<open>mipi_tx_dev.c\<close> exists.
\<close>

record mipi_tx_sys =
  tx :: mipi_tx
  registered :: bool
  dev_module :: bool

definition Hi35xxMipiTxInit ::
  "mipi_env \<Rightarrow> hdf_status \<Rightarrow> hdf_status \<Rightarrow> (mipi_tx_sys, hdf_status) state" where
  "Hi35xxMipiTxInit env register_ret module_ret = do {
     modify (\<lambda>s. s\<lparr>registered := registered s \<or> register_ret = HDF_SUCCESS\<rparr>);
     if register_ret \<noteq> HDF_SUCCESS then State_Monad.return register_ret
     else do {
       ret \<leftarrow> gets (\<lambda>s. result (MipiTxDrvInit env 0) (tx s));
       modify (\<lambda>s. s\<lparr>tx := after (MipiTxDrvInit env 0) (tx s)\<rparr>);
       if ret \<noteq> HDF_SUCCESS then State_Monad.return ret
       else do {
         modify (\<lambda>s. s\<lparr>dev_module := dev_module s \<or> module_ret = HDF_SUCCESS\<rparr>);
         State_Monad.return module_ret } } }"

definition Hi35xxMipiTxRelease ::
  "bool \<Rightarrow> MipiDsiCntlr option \<Rightarrow> (mipi_tx_sys, unit) state" where
  "Hi35xxMipiTxRelease device cntlr =
     (if \<not> device then skip
      else (case cntlr of None \<Rightarrow> skip
       | Some c \<Rightarrow> do {
           modify (\<lambda>s. s\<lparr>tx := after MipiTxDrvExit (tx s)\<rparr>);
           modify (\<lambda>s. s\<lparr>dev_module := False\<rparr>);
           modify (\<lambda>s. s\<lparr>registered := False\<rparr>) }))"

subsection \<open>What the command operations may touch\<close>

text \<open>
  Commands write the header, the payload and, after a failed read, the two reset registers;
  they change no variable of the driver.
\<close>

fun cmd_op :: "bus_op \<Rightarrow> bool" where
  "cmd_op (Wr r v) \<longleftrightarrow> r \<in> {GEN_HDR, GEN_PLD_DATA, PWR_UP, PHY_RSTZ}"
| "cmd_op x \<longleftrightarrow> plain_op x"

lemma status_poll_is_cmd: "status_poll_op x \<Longrightarrow> cmd_op x"
  by (cases x) simp_all

lemma quiet_is_cmd: "quiet x \<Longrightarrow> cmd_op x"
  by (cases x) simp_all

lemma cmd_is_plain: "cmd_op x \<Longrightarrow> plain_op x"
  by (cases x) simp_all

lemma unwritten_is_cmd: "list_all plain_op ops \<Longrightarrow> \<forall>r. writes_of r ops = [] \<Longrightarrow> list_all cmd_op ops"
proof (induction ops)
  case (Cons x xs)
  have no: "writes_of r (x # xs) = []" for r using Cons.prems(2) by simp
  have "\<forall>r. writes_of r xs = []"
  proof
    fix r
    show "writes_of r xs = []" using no [of r] by (cases x) (auto split: if_splits)
  qed
  moreover have "x \<noteq> Wr r v" for r v
    using no [of r] by auto
  then have "cmd_op x" using Cons.prems(1) by (cases x) auto
  ultimately show ?case using Cons by simp
qed simp

lemma cmd_writes: "list_all cmd_op ops \<Longrightarrow> r \<notin> {GEN_HDR, GEN_PLD_DATA, PWR_UP, PHY_RSTZ} \<Longrightarrow> writes_of r ops = []"
  by (induction r ops rule: writes_of.induct) auto

abbreviation core_vars :: "mipi_tx \<Rightarrow> (bool \<times> u32) \<times> u32 \<times> bool \<times> bool" where
  "core_vars s \<equiv> (map_vars s, actual_phy_data_rate s, en_cfg s, en_hs_mode s)"

lemma keeps_core_emit [keeps_intros]: "keeps core_vars (emit ops)"
  by (simp add: keeps_def run_simps)

lemma keeps_core_bus [keeps_intros]:
  "keeps core_vars (wr r v)" "keeps core_vars (OsalUDelay n)" "keeps core_vars (rd env r)"
  by (simp_all add: keeps_def bus_defs run_simps)

lemma keeps_core_alloc [keeps_intros]:
  "keeps core_vars (OsalMemCalloc env n)" "keeps core_vars OsalMemFree" "keeps core_vars (oob x)"
  by (simp_all add: keeps_def OsalMemCalloc_def OsalMemFree_def oob_def)

lemma appends_alloc [appends_intros]:
  "appends P (OsalMemCalloc env n)" "appends P OsalMemFree" "appends P (oob x)"
  unfolding OsalMemCalloc_def OsalMemFree_def oob_def by (intro appends_intros; simp)+

lemma wait_talks:
  "talks cmd_op 2002 (MipiTxWaitCmdFifoEmpty env)" "talks cmd_op 2002 (MipiTxWaitWriteFifoEmpty env)"
  "talks cmd_op 2004 (MipiTxWaitWriteFifoNotFull env)"
  using talks_mono [OF cmd_empty.talks_poll status_poll_is_cmd, where l = 2002]
    talks_mono [OF write_empty.talks_poll status_poll_is_cmd, where l = 2002]
    talks_mono [OF not_full.talks_poll status_poll_is_cmd, where l = 2004]
  by simp_all

lemma read_wait_talks:
  "talks cmd_op 4008 (MipiTxWaitReadFifoNotEmpty env)" "talks cmd_op 3003 (MipiTxWaitReadFifoEmpty env)"
proof -
  show "talks cmd_op 4008 (MipiTxWaitReadFifoNotEmpty env)"
  proof (rule talksI)
    fix s
    obtain ret ops where "run_state (MipiTxWaitReadFifoNotEmpty env) s = (ret, s\<lparr>bus := bus s @ ops\<rparr>)"
      and "list_all quiet ops" "length ops \<le> 4008"
      by (rule read_not_empty_run [of env s]) blast
    then show "\<exists>ops. after (MipiTxWaitReadFifoNotEmpty env) s = s\<lparr>bus := bus s @ ops\<rparr> \<and>
        list_all cmd_op ops \<and> length ops \<le> 4008"
      by (auto intro: list.pred_mono_strong [OF _ quiet_is_cmd])
  qed
  show "talks cmd_op 3003 (MipiTxWaitReadFifoEmpty env)"
  proof (rule talksI)
    fix s
    obtain ret ops where "run_state (MipiTxWaitReadFifoEmpty env) s = (ret, s\<lparr>bus := bus s @ ops\<rparr>)"
      and "list_all plain_op ops" "\<forall>r. writes_of r ops = []" "length ops \<le> 3003"
      by (rule read_empty_run [of env s]) blast
    then show "\<exists>ops. after (MipiTxWaitReadFifoEmpty env) s = s\<lparr>bus := bus s @ ops\<rparr> \<and>
        list_all cmd_op ops \<and> length ops \<le> 3003"
      by (auto intro: unwritten_is_cmd)
  qed
qed

lemmas waits_appends [appends_intros] = wait_talks [THEN talks_appends] read_wait_talks [THEN talks_appends]

lemma waits_keep [keeps_intros]:
  "keeps core_vars (MipiTxWaitCmdFifoEmpty env)" "keeps core_vars (MipiTxWaitWriteFifoEmpty env)"
  "keeps core_vars (MipiTxWaitWriteFifoNotFull env)" "keeps core_vars (MipiTxWaitReadFifoNotEmpty env)"
  "keeps core_vars (MipiTxWaitReadFifoEmpty env)"
  by (rule talks_keeps [OF wait_talks(1)] talks_keeps [OF wait_talks(2)] talks_keeps [OF wait_talks(3)]
      talks_keeps [OF read_wait_talks(1)] talks_keeps [OF read_wait_talks(2)]; simp)+

lemma payload_words_frame [keeps_intros, appends_intros]:
  "keeps core_vars (payload_words env bs is w)" "appends cmd_op (payload_words env bs is w)"
proof -
  show "keeps core_vars (payload_words env bs is w)"
    by (induction "is" arbitrary: w) (auto intro!: keeps_intros simp: Let_def)
  show "appends cmd_op (payload_words env bs is w)"
    by (induction "is" arbitrary: w) (auto intro!: appends_intros simp: Let_def)
qed


lemma read_words_frame [keeps_intros, appends_intros]:
  "keeps core_vars (read_words env is d)" "appends cmd_op (read_words env is d)"
proof -
  show "keeps core_vars (read_words env is d)"
    by (induction "is" arbitrary: d) (auto intro!: keeps_intros)
  show "appends cmd_op (read_words env is d)"
    by (induction "is" arbitrary: d) (auto intro!: appends_intros)
qed

lemma copy_frame [keeps_intros, appends_intros]:
  "keeps core_vars (LinuxCopyToKernel env src n)" "appends cmd_op (LinuxCopyToKernel env src n)"
  unfolding LinuxCopyToKernel_def by (intro keeps_intros appends_intros)+

lemma set_payload_frame [keeps_intros, appends_intros]:
  "keeps core_vars (MipiTxDrvSetPayloadData env bs n)" "appends cmd_op (MipiTxDrvSetPayloadData env bs n)"
  unfolding MipiTxDrvSetPayloadData_def by (intro keeps_intros appends_intros cmd_op.simps insertI1; simp)+

lemma send_header_frame [keeps_intros, appends_intros]:
  "keeps core_vars (send_header env h ci)" "appends cmd_op (send_header env h ci)"
  unfolding send_header_def by (intro keeps_intros appends_intros; simp)+

lemma set_cmd_frame [keeps_intros, appends_intros]:
  "keeps core_vars (MipiTxDrvSetCmdInfo env ci)" "appends cmd_op (MipiTxDrvSetCmdInfo env ci)"
  unfolding MipiTxDrvSetCmdInfo_def by (intro keeps_intros appends_intros; simp)+

lemma short_packet_frame [keeps_intros, appends_intros]:
  "keeps core_vars (MipiTxSendShortPacket env vc dt p)" "appends cmd_op (MipiTxSendShortPacket env vc dt p)"
  unfolding MipiTxSendShortPacket_def by (intro keeps_intros appends_intros; simp)+

lemma read_data_frame [keeps_intros, appends_intros]:
  "keeps core_vars (MipiTxGetReadFifoData env n d)" "appends cmd_op (MipiTxGetReadFifoData env n d)"
  unfolding MipiTxGetReadFifoData_def by (intro keeps_intros appends_intros; simp)+

lemma reset_frame [keeps_intros, appends_intros]:
  "keeps core_vars MipiTxReset" "appends cmd_op MipiTxReset"
  unfolding MipiTxReset_def by (intro keeps_intros appends_intros; simp)+

lemma get_cmd_frame [keeps_intros, appends_intros]:
  "keeps core_vars (MipiTxDrvGetCmdInfo env gi)" "appends cmd_op (MipiTxDrvGetCmdInfo env gi)"
  unfolding MipiTxDrvGetCmdInfo_def by (intro keeps_intros appends_intros; simp)+

lemma Hi35xxSetCmd_frame [keeps_intros, appends_intros]:
  "keeps core_vars (Hi35xxSetCmd env c)" "appends cmd_op (Hi35xxSetCmd env c)"
  unfolding Hi35xxSetCmd_def MipiTxSetCmd_def MipiTxCheckSetCmdInfo_def
  by (intro keeps_intros appends_intros; simp)+

lemma Hi35xxGetCmd_frame [keeps_intros, appends_intros]:
  "keeps core_vars (Hi35xxGetCmd env c n b)" "appends cmd_op (Hi35xxGetCmd env c n b)"
  unfolding Hi35xxGetCmd_def MipiTxGetCmd_def MipiTxCheckGetCmdInfo_def
  by (intro keeps_intros appends_intros; simp)+

subsection \<open>Configuration, from start to end\<close>

text \<open>What a configuration is accepted for.\<close>

definition lanes_ok :: "ComboDevCfgTag \<Rightarrow> bool" where
  "lanes_ok cfg \<longleftrightarrow> list_all (\<lambda>i. laneId cfg ! i = int i \<or> laneId cfg ! i = -1) [0..<LANE_MAX_NUM]"

definition valid_cfg :: "ComboDevCfgTag \<Rightarrow> bool" where
  "valid_cfg cfg \<longleftrightarrow> devno cfg = 0 \<and>
     lanes_ok cfg \<and>
     outputMode cfg \<in> {OUTPUT_MODE_CSI, OUTPUT_MODE_DSI_VIDEO, OUTPUT_MODE_DSI_CMD} \<and>
     videoMode cfg \<in> {BURST_MODE, NON_BURST_MODE_SYNC_PULSES, NON_BURST_MODE_SYNC_EVENTS} \<and>
     outputFormat cfg \<in> {OUT_FORMAT_RGB_16_BIT, OUT_FORMAT_RGB_18_BIT, OUT_FORMAT_RGB_24_BIT,
       OUT_FORMAT_YUV420_8_BIT_NORMAL, OUT_FORMAT_YUV420_8_BIT_LEGACY, OUT_FORMAT_YUV422_8_BIT}"

lemma run_CheckCombDevCfg [run_simps]:
  "run_state (MipiTxCheckCombDevCfg cfg) s =
     (if en_hs_mode s then HDF_FAILURE else if valid_cfg cfg then HDF_SUCCESS else HDF_ERR_INVALID_PARAM, s)"
proof -
  have "list_ex (\<lambda>i. laneId cfg ! i \<noteq> int i \<and> laneId cfg ! i \<noteq> -1) [0..<LANE_MAX_NUM] \<longleftrightarrow> \<not> lanes_ok cfg"
    unfolding lanes_ok_def list_ex_iff list_all_iff by blast
  then show ?thesis unfolding MipiTxCheckCombDevCfg_def valid_cfg_def by (simp del: upt_rec_numeral)
qed

definition configured :: "mipi_env \<Rightarrow> ComboDevCfgTag \<Rightarrow> mipi_tx \<Rightarrow> mipi_tx" where
  "configured env cfg s =
     (let rate = actual_rate_of (phyDataRate cfg)
      in s\<lparr>actual_phy_data_rate := rate, en_cfg := True,
           bus := bus s @ controller_ops cfg @ phy_cfg_ops env rate cfg\<rparr>)"

lemma run_SetComboDevCfg [run_simps]:
  "run_state (MipiTxSetComboDevCfg env cfg) s =
     (if en_hs_mode s then (HDF_FAILURE, s)
      else if valid_cfg cfg then (HDF_SUCCESS, configured env cfg s)
      else (HDF_ERR_INVALID_PARAM, s))"
  by (simp add: MipiTxSetComboDevCfg_def run_simps configured_def Let_def)

lemma run_SetCntlrCfg [run_simps]:
  "run_state (Hi35xxSetCntlrCfg env (Some c)) s =
     run_state (MipiTxSetComboDevCfg env (dev_cfg c)) (if lane c > LANE_MAX_NUM then s\<lparr>mem_fault := True\<rparr> else s)"
  "run_state (Hi35xxSetCntlrCfg env None) s = (HDF_ERR_INVALID_OBJECT, s)"
  by (simp_all add: Hi35xxSetCntlrCfg_def GetDevCfg_def oob_def)

lemma run_ToHs [run_simps]:
  "run_state (Hi35xxToHs (Some c)) s =
     run_state (MipiTxDrvEnableInput (dsi_mode c)) (if lane c > LANE_MAX_NUM then s\<lparr>mem_fault := True\<rparr> else s)"
  "run_state (Hi35xxToHs None) s = ((), s)"
  by (simp_all add: Hi35xxToHs_def GetDevCfg_def oob_def dev_cfg_def)

text \<open>The lane table of a configuration is always accepted, and counts the lanes used.\<close>

lemma dev_cfg_lanes:
  "i < LANE_MAX_NUM \<Longrightarrow> laneId (dev_cfg c) ! i = (if i < lane c then int i else -1)"
  "used_lanes (laneId (dev_cfg c)) = min (lane c) LANE_MAX_NUM"
proof -
  assume "i < LANE_MAX_NUM"
  then show "laneId (dev_cfg c) ! i = (if i < lane c then int i else -1)"
    by (auto simp: dev_cfg_def nth_append min_def)
next
  have len: "length (laneId (dev_cfg c)) = LANE_MAX_NUM" by (simp add: dev_cfg_def min_def)
  have "filter (\<lambda>l. l \<noteq> - 1) (map int [0..<min (lane c) LANE_MAX_NUM]) = map int [0..<min (lane c) LANE_MAX_NUM]"
    by (rule filter_True) auto
  then show "used_lanes (laneId (dev_cfg c)) = min (lane c) LANE_MAX_NUM"
    unfolding used_lanes_def using len by (simp add: dev_cfg_def)
qed

subsection \<open>The high-speed flag and the hardware\<close>

definition hs_inv :: "mipi_tx \<Rightarrow> bool" where
  "hs_inv s \<longleftrightarrow> (en_hs_mode s \<longleftrightarrow> last_written OPERATION_MODE (bus s) = Some 0x80150000)"

lemma last_written_append:
  "last_written r (xs @ ys) = (if writes_of r ys = [] then last_written r xs else last_written r ys)"
  by (auto simp: last_written_def)

lemma opmode_writes [simp]:
  "writes_of OPERATION_MODE (controller_ops cfg) = [0]"
  "writes_of OPERATION_MODE (enable_ops mode) = [0x80150000]"
  "writes_of OPERATION_MODE reset_ops = []"
  by (simp_all add: controller_ops_def timing_ops_def enable_ops_def reset_ops_def Let_def)

lemma opmode_phy [simp]: "writes_of OPERATION_MODE (phy_cfg_ops env rate cfg) = []"
proof -
  have "writes_of OPERATION_MODE (hs_lp_ops tp) = []" for tp by (simp add: hs_lp_ops_def)
  moreover have "writes_of OPERATION_MODE (format_ops cfg) = []" by (simp add: format_ops_def)
  ultimately show ?thesis by (simp add: phy_cfg_ops_def Let_def)
qed

lemma hs_inv_loaded: "hs_inv mipi_tx_loaded"
  by (simp add: hs_inv_def mipi_tx_loaded_def last_written_def)

lemma hs_inv_cmd:
  assumes "appends cmd_op m" and "keeps core_vars m" and "hs_inv s"
  shows "hs_inv (after m s)"
proof -
  obtain ops where "bus (after m s) = bus s @ ops" "list_all cmd_op ops"
    by (rule appendsE [OF assms(1)])
  then show ?thesis
    using keepsD [OF assms(2), of s] assms(3) cmd_writes [of ops OPERATION_MODE]
    by (simp add: hs_inv_def last_written_append)
qed

lemma configured_frame [simp]:
  "en_hs_mode (configured env cfg s) = en_hs_mode s" "mem_fault (configured env cfg s) = mem_fault s"
  "regs_va (configured env cfg s) = regs_va s" "reg_map_flag (configured env cfg s) = reg_map_flag s"
  "en_cfg (configured env cfg s)" "live_bufs (configured env cfg s) = live_bufs s"
  "actual_phy_data_rate (configured env cfg s) = actual_rate_of (phyDataRate cfg)"
  by (simp_all add: configured_def Let_def)

lemma bus_configured:
  "bus (configured env cfg s) =
     bus s @ controller_ops cfg @ phy_cfg_ops env (actual_rate_of (phyDataRate cfg)) cfg"
  by (simp add: configured_def Let_def)

lemma hs_inv_fault [simp]: "hs_inv (s\<lparr>mem_fault := b\<rparr>) = hs_inv s"
  by (simp add: hs_inv_def)

lemma hs_inv_SetCntlrCfg: "hs_inv s \<Longrightarrow> hs_inv (after (Hi35xxSetCntlrCfg env c) s)"
proof (cases c)
  case (Some x)
  assume "hs_inv s"
  then show ?thesis
    unfolding Some run_simps
    by (auto simp: hs_inv_def bus_configured last_written_append last_written_def)
qed (simp add: run_simps)

lemma hs_inv_ToHs: "hs_inv s \<Longrightarrow> hs_inv (after (Hi35xxToHs c) s)"
  by (cases c) (auto simp: run_simps hs_inv_def last_written_append last_written_def)

lemma hs_inv_ToLp: "hs_inv (after Hi35xxToLp s)"
  by (simp add: Hi35xxToLp_def run_simps hs_inv_def last_written_def)

subsection \<open>The calls of the DSI core\<close>

datatype dsi_call =
    SetCntlrCfg "MipiDsiCntlr option"
  | SetCmd "DsiCmdDesc option"
  | GetCmd "DsiCmdDesc option" u32 bool
  | ToHs "MipiDsiCntlr option"
  | ToLp

fun dispatch :: "MipiDsiCntlrMethod \<Rightarrow> dsi_call \<Rightarrow> (mipi_tx, unit) state" where
  "dispatch m (SetCntlrCfg c) = do { m_setCntlrCfg m c; skip }"
| "dispatch m (SetCmd d) = do { m_setCmd m d; skip }"
| "dispatch m (GetCmd d n out) = do { m_getCmd m d n out; skip }"
| "dispatch m (ToHs c) = m_toHs m c"
| "dispatch m ToLp = m_toLp m"

text \<open>
  The contract of a method table: every method preserves the invariant of the controller.
  The core may then issue any sequence of calls.
\<close>

locale dsi_controller =
  fixes methods :: MipiDsiCntlrMethod
    and inv :: "mipi_tx \<Rightarrow> bool"
  assumes setCntlrCfg_inv: "inv s \<Longrightarrow> inv (after (m_setCntlrCfg methods c) s)"
    and setCmd_inv: "inv s \<Longrightarrow> inv (after (m_setCmd methods d) s)"
    and getCmd_inv: "inv s \<Longrightarrow> inv (after (m_getCmd methods d n out) s)"
    and toHs_inv: "inv s \<Longrightarrow> inv (after (m_toHs methods c) s)"
    and toLp_inv: "inv s \<Longrightarrow> inv (after (m_toLp methods) s)"
begin

lemma dispatch_inv: "inv s \<Longrightarrow> inv (after (dispatch methods call) s)"
  using setCntlrCfg_inv setCmd_inv getCmd_inv toHs_inv toLp_inv
  by (cases call) (simp_all add: case_prod_beta)

lemma calls_inv: "inv s \<Longrightarrow> inv (after (for_each calls (dispatch methods)) s)"
  by (rule after_for_each_inv [where P = inv]) (rule dispatch_inv)

end

lemma map_inv_fault [simp]: "map_inv (s\<lparr>mem_fault := b\<rparr>) = map_inv s"
  by (simp add: map_inv_def)

lemma map_inv_ops:
  assumes "map_inv s" and "regs_va s" and "list_all plain_op ops"
    and "map_vars s' = map_vars s" and "bus s' = bus s @ ops"
  shows "map_inv s' \<and> regs_va s'"
  using assms by (simp add: map_inv_def regs_mapped_append plain_map_state plain_regs_mapped)

lemma map_inv_cmd:
  assumes "appends cmd_op m" and "keeps core_vars m" and "map_inv s" and "regs_va s"
  shows "map_inv (after m s) \<and> regs_va (after m s)"
proof -
  obtain ops where "bus (after m s) = bus s @ ops" "list_all cmd_op ops"
    by (rule appendsE [OF assms(1)])
  then show ?thesis
    using keepsD [OF assms(2), of s] assms(3,4) list.pred_mono_strong [of cmd_op ops plain_op] cmd_is_plain
    by (intro map_inv_ops [of s ops]) auto
qed

lemma mapped_SetCntlrCfg:
  assumes "map_inv s" and "regs_va s"
  shows "map_inv (after (Hi35xxSetCntlrCfg env c) s) \<and> regs_va (after (Hi35xxSetCntlrCfg env c) s)"
proof (cases c)
  case (Some x)
  have "map_inv (configured env cfg t) \<and> regs_va (configured env cfg t)" if "map_inv t" "regs_va t" for cfg t
    using that by (intro map_inv_ops [of t _ "configured env cfg t", OF _ _ _ _ bus_configured]) simp_all
  then show ?thesis using assms unfolding Some run_simps by simp
qed (use assms in \<open>simp add: run_simps\<close>)

lemma mapped_switch:
  assumes "map_inv s" and "regs_va s"
  shows "map_inv (after (Hi35xxToHs c) s) \<and> regs_va (after (Hi35xxToHs c) s)"
    and "map_inv (after Hi35xxToLp s) \<and> regs_va (after Hi35xxToLp s)"
proof -
  show "map_inv (after (Hi35xxToHs c) s) \<and> regs_va (after (Hi35xxToHs c) s)"
  proof (cases c)
    case (Some x)
    show ?thesis unfolding Some run_simps
      using assms by (intro map_inv_ops [of s "enable_ops (dsi_mode x)"]) simp_all
  qed (use assms in \<open>simp add: run_simps\<close>)
  show "map_inv (after Hi35xxToLp s) \<and> regs_va (after Hi35xxToLp s)"
    unfolding Hi35xxToLp_def run_simps using assms
    by (intro map_inv_ops [of s "[Wr OPERATION_MODE 0, Wr CMD_MODE_CFG 0xffffff00, Wr MODE_CFG 1, Wr LPCLK_CTRL 0] @ reset_ops"])
      simp_all
qed

interpretation hi35xx_mode: dsi_controller "g_method env" hs_inv for env
  by unfold_locales
    (simp_all add: g_method_def hs_inv_SetCntlrCfg hs_inv_ToHs hs_inv_ToLp
      hs_inv_cmd [OF Hi35xxSetCmd_frame(2,1)] hs_inv_cmd [OF Hi35xxGetCmd_frame(2,1)])

interpretation hi35xx_mapped: dsi_controller "g_method env" "\<lambda>s. map_inv s \<and> regs_va s" for env
  by unfold_locales
    (simp_all add: g_method_def mapped_SetCntlrCfg mapped_switch
      map_inv_cmd [OF Hi35xxSetCmd_frame(2,1)] map_inv_cmd [OF Hi35xxGetCmd_frame(2,1)])

subsection \<open>The life of the driver\<close>

definition mipi_tx_unloaded :: mipi_tx_sys where
  "mipi_tx_unloaded = \<lparr>tx = mipi_tx_loaded, registered = False, dev_module = False\<rparr>"

inductive tx_step :: "mipi_env \<Rightarrow> mipi_tx_sys \<Rightarrow> mipi_tx_sys \<Rightarrow> bool" for env where
  load: "tx_step env s (after (Hi35xxMipiTxInit env r m) s)"
| unload: "tx_step env s (after (Hi35xxMipiTxRelease dev c) s)"
| call: "registered s \<Longrightarrow> tx_step env s (s\<lparr>tx := after (dispatch (g_method env) d) (tx s)\<rparr>)"

inductive_cases tx_stepE: "tx_step env s s'"

abbreviation tx_reachable :: "mipi_env \<Rightarrow> mipi_tx_sys \<Rightarrow> bool" where
  "tx_reachable env \<equiv> (tx_step env)\<^sup>*\<^sup>* mipi_tx_unloaded"

lemma run_RegInit:
  "run_state (MipiTxDrvRegInit env) s =
     (if regs_va s then (HDF_SUCCESS, s)
      else if io_remap_ok env (bus s)
      then (HDF_SUCCESS, s\<lparr>regs_va := True, reg_map_flag := 1, bus := bus s @ [IoRemapRegs True]\<rparr>)
      else (HDF_FAILURE, s\<lparr>bus := bus s @ [IoRemapRegs False]\<rparr>))"
  by (simp add: MipiTxDrvRegInit_def run_simps)

lemma run_RegExit:
  "run_state MipiTxDrvRegExit s = ((),
     if reg_map_flag s = 1 then
       (if regs_va s then s\<lparr>regs_va := False, reg_map_flag := 0, bus := bus s @ [IoUnmapRegs]\<rparr>
        else s\<lparr>reg_map_flag := 0\<rparr>)
     else s)"
  by (simp add: MipiTxDrvRegExit_def run_simps)

lemma HwInit_run:
  "\<exists>ops. run_state (MipiTxDrvHwInit env smooth) s = ((), s\<lparr>bus := bus s @ ops\<rparr>) \<and>
     list_all plain_op ops \<and> (\<forall>r. writes_of r ops = []) \<and>
     regs_mapped b ops"
  by (auto simp: MipiTxDrvHwInit_def WriteReg32_def run_simps)

lemma DrvInit_cases:
  obtains (mapped) ops where "run_state (MipiTxDrvInit env smooth) s =
      (HDF_SUCCESS, (after (MipiTxDrvRegInit env) s)\<lparr>bus := bus (after (MipiTxDrvRegInit env) s) @ ops\<rparr>)"
      "list_all plain_op ops" "\<forall>r. writes_of r ops = []" "regs_va s \<or> io_remap_ok env (bus s)"
  | (failed) "run_state (MipiTxDrvInit env smooth) s = (HDF_FAILURE, s\<lparr>bus := bus s @ [IoRemapRegs False]\<rparr>)"
      "\<not> regs_va s" "\<not> io_remap_ok env (bus s)"
proof (cases "regs_va s \<or> io_remap_ok env (bus s)")
  case True
  let ?s = "after (MipiTxDrvRegInit env) s"
  obtain t where ok: "run_state (MipiTxDrvRegInit env) s = (HDF_SUCCESS, t)"
    using True unfolding run_RegInit by (cases "regs_va s") auto
  obtain ops where "run_state (MipiTxDrvHwInit env smooth) ?s = ((), ?s\<lparr>bus := bus ?s @ ops\<rparr>)"
    "list_all plain_op ops" "\<forall>r. writes_of r ops = []"
    using HwInit_run [of env smooth ?s True] by blast
  then show ?thesis using ok True
    by (intro mapped [of ops]) (simp_all add: MipiTxDrvInit_def)
next
  case False
  then show ?thesis by (intro failed) (simp_all add: MipiTxDrvInit_def run_RegInit)
qed

lemma hs_inv_DrvInit: "hs_inv s \<Longrightarrow> hs_inv (after (MipiTxDrvInit env smooth) s)"
  by (rule DrvInit_cases [of env smooth s])
    (auto simp: hs_inv_def run_RegInit last_written_append)

lemma hs_inv_DrvExit: "hs_inv s \<Longrightarrow> hs_inv (after MipiTxDrvExit s)"
  by (simp add: MipiTxDrvExit_def run_RegExit hs_inv_def last_written_append)

lemma map_inv_DrvInit:
  "map_inv s \<Longrightarrow> map_inv (after (MipiTxDrvInit env smooth) s)"
  "map_inv s \<Longrightarrow> io_remap_ok env (bus s) \<Longrightarrow> regs_va (after (MipiTxDrvInit env smooth) s)"
  by (rule DrvInit_cases [of env smooth s];
      auto simp: map_inv_def run_RegInit regs_mapped_append plain_map_state plain_regs_mapped)+

lemma map_inv_DrvExit: "map_inv s \<Longrightarrow> map_inv (after MipiTxDrvExit s) \<and> \<not> regs_va (after MipiTxDrvExit s)"
  by (auto simp: MipiTxDrvExit_def run_RegExit map_inv_def regs_mapped_append)

lemma run_Init:
  "after (Hi35xxMipiTxInit env r m) s =
     (if r \<noteq> HDF_SUCCESS then s
      else if result (MipiTxDrvInit env 0) (tx s) \<noteq> HDF_SUCCESS
      then s\<lparr>registered := True, tx := after (MipiTxDrvInit env 0) (tx s)\<rparr>
      else s\<lparr>registered := True, tx := after (MipiTxDrvInit env 0) (tx s),
             dev_module := dev_module s \<or> m = HDF_SUCCESS\<rparr>)"
  by (simp add: Hi35xxMipiTxInit_def)

lemma run_Release:
  "after (Hi35xxMipiTxRelease dev c) s =
     (if dev \<and> c \<noteq> None then s\<lparr>tx := after MipiTxDrvExit (tx s), dev_module := False, registered := False\<rparr> else s)"
  by (auto simp: Hi35xxMipiTxRelease_def split: option.split)

text \<open>The high-speed flag mirrors the hardware in every reachable state.\<close>

lemma hs_inv_step: "tx_step env s s' \<Longrightarrow> hs_inv (tx s) \<Longrightarrow> hs_inv (tx s')"
  by (induction rule: tx_step.induct)
    (auto simp: run_Init run_Release hs_inv_DrvInit hs_inv_DrvExit hi35xx_mode.dispatch_inv)

lemma hs_inv_reachable: "tx_reachable env s \<Longrightarrow> hs_inv (tx s)"
  by (induction rule: rtranclp_induct) (auto simp: mipi_tx_unloaded_def hs_inv_loaded intro: hs_inv_step)

definition sys_mapped :: "mipi_tx_sys \<Rightarrow> bool" where
  "sys_mapped s \<longleftrightarrow> map_inv (tx s) \<and> (registered s \<longrightarrow> regs_va (tx s))"

lemma sys_mapped_step:
  assumes "tx_step env s s'" and "\<And>h. io_remap_ok env h" and "sys_mapped s"
  shows "sys_mapped s'"
  using assms(1,3)
proof (induction rule: tx_step.induct)
  case (call s d)
  then show ?case using hi35xx_mapped.dispatch_inv [of "tx s" env d] by (simp add: sys_mapped_def)
qed (auto simp: sys_mapped_def run_Init run_Release map_inv_DrvInit map_inv_DrvExit assms(2))

lemma sys_mapped_reachable:
  assumes "tx_reachable env s" and "\<And>h. io_remap_ok env h"
  shows "sys_mapped s"
  using assms(1)
proof (induction rule: rtranclp_induct)
  case base
  show ?case by (simp add: mipi_tx_unloaded_def sys_mapped_def map_inv_loaded)
next
  case (step y z)
  show ?case by (rule sys_mapped_step [OF step.hyps(2) assms(2) step.IH])
qed

subsection \<open>Commands, from the method table down\<close>

lemma run_CheckSetCmdInfo [run_simps]:
  "run_state (MipiTxCheckSetCmdInfo ci) s =
     (if en_hs_mode s \<or> \<not> en_cfg s then HDF_FAILURE
      else if cmd_devno ci \<noteq> 0 \<or> cmd ci \<noteq> None \<and> cmdSize ci > MIPI_TX_SET_DATA_SIZE then HDF_ERR_INVALID_PARAM
      else HDF_SUCCESS, s)"
  by (auto simp: MipiTxCheckSetCmdInfo_def)

lemma run_CheckGetCmdInfo [run_simps]:
  "run_state (MipiTxCheckGetCmdInfo gi) s =
     (if en_hs_mode s \<or> \<not> en_cfg s then HDF_FAILURE
      else if get_devno gi \<noteq> 0 \<or> getDataSize gi = 0 \<or> getDataSize gi > MIPI_TX_GET_DATA_SIZE
      then HDF_ERR_INVALID_PARAM
      else if \<not> getData gi then HDF_ERR_INVALID_OBJECT else HDF_SUCCESS, s)"
  by (simp add: MipiTxCheckGetCmdInfo_def)

text \<open>The command that \<open>Hi35xxSetCmd\<close> builds from a descriptor.\<close>

definition cmd_info :: "DsiCmdDesc \<Rightarrow> CmdInfoTag" where
  "cmd_info c = \<lparr>cmd_devno = 0, cmd_dataType = dataType c,
     cmdSize = (if dataLen c > 2 then ucast (dataLen c)
                else if dataLen c = 2 then push_bit 8 (ucast (payload c ! 1)) OR ucast (payload c ! 0)
                else ucast (payload c ! 0)),
     cmd = (if dataLen c > 2 then Some (payload c) else None)\<rparr>"

lemma two_byte_param:
  "(0xff00 :: u16) AND push_bit 8 (ucast (b :: u8) AND 0x00ff) = push_bit 8 (ucast b)"
proof -
  have lo: "(ucast b :: u16) AND 0xff = ucast b"
  proof -
    have "(ucast b :: u16) AND mask 8 = ucast b"
      by (rule bit_eqI) (auto simp: bit_simps dest: bit_imp_le_length)
    then show ?thesis by (simp add: mask_eq_exp_minus_1)
  qed
  have ff: "(0xff00 :: u16) = push_bit 8 (mask 8)" by (simp add: mask_eq_exp_minus_1 push_bit_eq_mult)
  have "push_bit 8 (mask m) AND push_bit 8 w = push_bit 8 (take_bit m w)" for m and w :: u16
    by (rule bit_eqI) (auto simp: bit_simps)
  moreover have "take_bit 8 (ucast b :: u16) = ucast b"
    by (rule bit_eqI) (auto simp: bit_simps dest: bit_imp_le_length)
  ultimately show ?thesis unfolding lo ff by (simp only:)
qed

lemma run_SetCmd:
  assumes "unat (dataLen c) \<le> length (payload c)"
  shows "run_state (Hi35xxSetCmd env (Some c)) s =
    (if dataLen c = 0 then (HDF_ERR_INVALID_PARAM, s)
     else if en_hs_mode s \<or> \<not> en_cfg s then (HDF_FAILURE, s)
     else if dataLen c > 2 \<and> cmdSize (cmd_info c) > MIPI_TX_SET_DATA_SIZE then (HDF_ERR_INVALID_PARAM, s)
     else run_state (MipiTxDrvSetCmdInfo env (Some (cmd_info c))) s)"
proof -
  consider "dataLen c > 2" | "dataLen c = 2" | "dataLen c = 1" | "dataLen c = 0"
  proof -
    have "unat (dataLen c) > 2 \<or> unat (dataLen c) = 2 \<or> unat (dataLen c) = 1 \<or> unat (dataLen c) = 0" by linarith
    then show ?thesis
      using that unfolding word_less_nat_alt word_unat_eq_iff by auto
  qed
  then show ?thesis
  proof cases
    case 1
    then have "dataLen c \<noteq> 0" by auto
    with 1 show ?thesis
      by (simp add: Hi35xxSetCmd_def MipiTxSetCmd_def run_simps cmd_info_def)
  next
    case 2
    then have "2 \<le> length (payload c)" using assms by simp
    then have "byte_at (payload c) 0 = Some (payload c ! 0)" "byte_at (payload c) 1 = Some (payload c ! 1)"
      by (auto simp: byte_at_def)
    with 2 show ?thesis
      unfolding Hi35xxSetCmd_def Let_def two_byte_param
      by (simp add: MipiTxSetCmd_def run_simps cmd_info_def)
  next
    case 3
    then have "byte_at (payload c) 0 = Some (payload c ! 0)" using assms by (auto simp: byte_at_def)
    with 3 show ?thesis
      by (simp add: Hi35xxSetCmd_def MipiTxSetCmd_def run_simps cmd_info_def)
  qed (simp add: Hi35xxSetCmd_def)
qed

text \<open>A short command has no payload: its parameters travel in the header.\<close>

lemma set_short_run:
  assumes "cmd ci = None"
  shows "\<exists>ret ops. run_state (MipiTxDrvSetCmdInfo env (Some ci)) s = (ret, s\<lparr>bus := bus s @ ops\<rparr>) \<and>
    list_all plain_op ops \<and> guarded False ops \<and> length ops \<le> 4007 \<and> wire_bytes ops = [] \<and>
    writes_of GEN_HDR ops = [header_word (dev_read env (bus s) GEN_HDR) ci]"
proof -
  let ?h = "dev_read env (bus s) GEN_HDR"
  let ?s = "s\<lparr>bus := bus s @ [Rd GEN_HDR ?h]\<rparr>"
  obtain ret ops where t: "run_state (send_header env ?h ci) ?s = (ret, ?s\<lparr>bus := bus ?s @ Wr GEN_HDR (header_word ?h ci) # ops\<rparr>)"
    and q: "list_all quiet ops" "length ops \<le> 4005"
    using send_header_run [of env ?h ci ?s] by blast
  have "run_state (MipiTxDrvSetCmdInfo env (Some ci)) s =
      (ret, s\<lparr>bus := bus s @ Rd GEN_HDR ?h # Wr GEN_HDR (header_word ?h ci) # ops\<rparr>)"
    using assms t by (simp add: MipiTxDrvSetCmdInfo_def run_simps)
  moreover have "list_all plain_op ops" by (rule list.pred_mono_strong [OF q(1) quiet_is_plain])
  ultimately show ?thesis
    using q quiet_history(2) [OF q(1)] guarded_quiet [OF q(1)] by (auto simp: wire_bytes_def)
qed

lemma unat_ucast_u16: "unat (ucast (w :: u32) :: u16) = unat w mod 65536" "unat (ucast (w :: u32) :: u16) \<le> unat w"
  by (simp_all add: unsigned_ucast_eq take_bit_eq_mod)

lemma SetCmd_effect:
  assumes "user_copy_ok env" and "unat (dataLen c) \<le> length (payload c)"
  shows "\<exists>ops. after (Hi35xxSetCmd env (Some c)) s = s\<lparr>bus := bus s @ ops\<rparr> \<and>
    list_all plain_op ops \<and> guarded False ops \<and> length ops \<le> 104258"
proof (cases "dataLen c = 0 \<or> en_hs_mode s \<or> \<not> en_cfg s \<or> dataLen c > 2 \<and> cmdSize (cmd_info c) > MIPI_TX_SET_DATA_SIZE")
  case True
  then have "after (Hi35xxSetCmd env (Some c)) s = s" unfolding run_SetCmd [OF assms(2)] by auto
  then show ?thesis by (intro exI [of _ "[]"]) simp
next
  case False
  then have run: "run_state (Hi35xxSetCmd env (Some c)) s = run_state (MipiTxDrvSetCmdInfo env (Some (cmd_info c))) s"
    unfolding run_SetCmd [OF assms(2)] by auto
  show ?thesis
  proof (cases "dataLen c > 2")
    case True
    then have "cmd (cmd_info c) = Some (payload c)" "unat (cmdSize (cmd_info c)) \<le> length (payload c)"
      using assms(2) unat_ucast_u16(2) [of "dataLen c"] by (simp_all add: cmd_info_def)
    then show ?thesis unfolding run using set_cmd_run [OF assms(1)] by blast
  next
    case False
    then have "cmd (cmd_info c) = None" by (simp add: cmd_info_def)
    then show ?thesis unfolding run using set_short_run [of "cmd_info c" env s] by fastforce
  qed
qed

end
