(* ===== verification/Mipi_Tx_Properties.thy ===== *)
theory Mipi_Tx_Properties
  imports Mipi_Tx
begin

section \<open>MIPI TX: the properties\<close>

text \<open>A panel that answers at once, for the witnesses: FIFOs empty, every service works.\<close>

definition ready_panel :: mipi_env where
  "ready_panel = \<lparr>dev_read = \<lambda>h r. if r = CMD_PKT_STATUS then 5 else if r = INT_ST1 then (if length h < 2 then 0 else 0x800)
     else if r = GEN_PLD_DATA then 0x04030201 else 0,
     crg_read = \<lambda>h. 0, io_remap_ok = \<lambda>h. True, calloc_ok = \<lambda>n. True, access_ok = True,
     copy_from_user = \<lambda>n src. if n \<le> length src then Some (take n src) else None,
     copy_to_user_ok = True, memcpy_s_ok = True, stack8 = 0, stack32 = 0\<rparr>"

definition panel_cfg :: MipiDsiCntlr where
  "panel_cfg = \<lparr>devNo = 0, lane = 4, dsi_mode = 1, burstMode = 0, format = 2,
     timing = \<lparr>xPixels = 1080, hsaPixels = 20, hbpPixels = 20, hlinePixels = 1240, vsaLines = 4,
       vbpLines = 10, vfpLines = 20, ylines = 1920, edpiCmdSize_cfg = 1080\<rparr>,
     cfg_phyDataRate = 945, cfg_pixelClk = 148500\<rparr>"

definition lp_state :: mipi_tx where
  "lp_state = mipi_tx_loaded\<lparr>regs_va := True, reg_map_flag := 1, en_cfg := True, bus := [IoRemapRegs True]\<rparr>"

definition dcs_write :: DsiCmdDesc where
  "dcs_write = \<lparr>dataType = 0x29, dataLen = 5, payload = [0xB9, 0xFF, 0x83, 0x99, 0x01]\<rparr>"

lemma dev_cfg_lanes_ok: "lanes_ok (dev_cfg c)"
  unfolding lanes_ok_def list_all_iff by (auto simp: dev_cfg_lanes)

lemma panel_cfg_valid: "valid_cfg (dev_cfg panel_cfg)"
  unfolding valid_cfg_def using dev_cfg_lanes_ok [of panel_cfg] by (simp add: panel_cfg_def dev_cfg_def)

lemma ready_panel_copy: "user_copy_ok ready_panel"
  by (simp add: user_copy_ok_def ready_panel_def)

lemma status_bits:
  "gen_cmd_empty 5 = 1" "gen_pld_w_empty 5 = 1" "gen_pld_w_full 5 = 0" "gen_pld_w_full 8 = 1"
  by (simp_all add: gen_cmd_empty_def gen_pld_w_empty_def gen_pld_w_full_def bf_get_def)

lemma ready_panel_never_full: "gen_pld_w_full (dev_read ready_panel h CMD_PKT_STATUS) \<noteq> 1"
  by (simp add: ready_panel_def status_bits)

lemma if_cfg_writes:
  "writes_of PHY_IF_CFG (controller_ops cfg) = [word_of_nat (used_lanes (laneId cfg)) - 1]"
  "writes_of PHY_IF_CFG (phy_cfg_ops env rate cfg) = []"
proof -
  show "writes_of PHY_IF_CFG (controller_ops cfg) = [word_of_nat (used_lanes (laneId cfg)) - 1]"
    by (simp add: controller_ops_def timing_ops_def Let_def)
  have "writes_of PHY_IF_CFG (hs_lp_ops tp) = []" for tp by (simp add: hs_lp_ops_def)
  moreover have "writes_of PHY_IF_CFG (format_ops cfg) = []" by (simp add: format_ops_def)
  ultimately show "writes_of PHY_IF_CFG (phy_cfg_ops env rate cfg) = []"
    by (simp add: phy_cfg_ops_def Let_def)
qed

text \<open>
  C1. A valid configuration, given while the controller is in low-power mode, is accepted; the
  D-PHY then has received exactly the PLL settings for the requested rate and the 24 timing
  parameters computed from the actual rate, in that order, and the number of lanes less one is
  in \<open>PHY_IF_CFG\<close>.
\<close>

theorem configuration_programs_phy:
  assumes "valid_cfg (dev_cfg c)" and "\<not> en_hs_mode s" and "lane c \<le> LANE_MAX_NUM"
  shows "\<exists>ops. run_state (Hi35xxSetCntlrCfg env (Some c)) s =
      (HDF_SUCCESS, s\<lparr>actual_phy_data_rate := actual_rate_of (cfg_phyDataRate c), en_cfg := True, bus := bus s @ ops\<rparr>) \<and>
    phy_writes ops = pll_script env (cfg_phyDataRate c) @
      timing_script (MipiTxDrvGetPhyTimingParam (actual_rate_of (cfg_phyDataRate c))) \<and>
    last_written PHY_IF_CFG ops = Some (word_of_nat (lane c) - 1)"
proof -
  have rate: "phyDataRate (dev_cfg c) = cfg_phyDataRate c" by (simp add: dev_cfg_def)
  let ?rate = "actual_rate_of (cfg_phyDataRate c)"
  let ?ops = "controller_ops (dev_cfg c) @ phy_cfg_ops env ?rate (dev_cfg c)"
  have "run_state (Hi35xxSetCntlrCfg env (Some c)) s =
      (HDF_SUCCESS, s\<lparr>actual_phy_data_rate := ?rate, en_cfg := True, bus := bus s @ ?ops\<rparr>)"
    using assms by (simp add: run_simps configured_def rate Let_def)
  moreover have "phy_writes ?ops = pll_script env (cfg_phyDataRate c) @ timing_script (MipiTxDrvGetPhyTimingParam ?rate)"
    using phy_writes_cfg [of "dev_cfg c" env ?rate] by (simp only: rate)
  moreover have "last_written PHY_IF_CFG ?ops = Some (word_of_nat (lane c) - 1)"
    using assms(3) by (simp add: last_written_def if_cfg_writes dev_cfg_lanes min_def)
  ultimately show ?thesis by blast
qed

lemma configuration_programs_phy_witness:
  "\<exists>ops. run_state (Hi35xxSetCntlrCfg ready_panel (Some panel_cfg)) lp_state =
      (HDF_SUCCESS, lp_state\<lparr>actual_phy_data_rate := actual_rate_of 945, en_cfg := True, bus := bus lp_state @ ops\<rparr>) \<and>
    phy_writes ops = pll_script ready_panel 945 @ timing_script (MipiTxDrvGetPhyTimingParam (actual_rate_of 945)) \<and>
    last_written PHY_IF_CFG ops = Some (word_of_nat 4 - 1)"
  using configuration_programs_phy [OF panel_cfg_valid, of lp_state ready_panel]
  by (simp add: lp_state_def mipi_tx_loaded_def panel_cfg_def)

lemma edpi_writes:
  "writes_of EDPI_CMD_SIZE (phy_cfg_ops env rate cfg) = [0xF0]"
proof -
  have "writes_of EDPI_CMD_SIZE (hs_lp_ops tp) = []" for tp by (simp add: hs_lp_ops_def)
  moreover have "writes_of EDPI_CMD_SIZE (format_ops cfg) = []" by (simp add: format_ops_def)
  ultimately show ?thesis by (simp add: phy_cfg_ops_def Let_def)
qed

text \<open>
  Whatever \<open>edpiCmdSize\<close> a configuration asks for, what the register \<open>EDPI_CMD_SIZE\<close> holds
  when the configuration is done is the constant \<open>0xF0\<close>: the configured value is overwritten.
\<close>

theorem edpi_size_overwritten:
  assumes "result (Hi35xxSetCntlrCfg env (Some c)) s = HDF_SUCCESS"
  shows "last_written EDPI_CMD_SIZE (bus (after (Hi35xxSetCntlrCfg env (Some c)) s)) = Some 0xF0"
  using assms
  by (auto simp: run_simps bus_configured last_written_append edpi_writes split: if_splits)
    (auto simp: last_written_def edpi_writes)

lemma edpi_size_overwritten_witness:
  "edpiCmdSize_cfg (timing panel_cfg) = 1080 \<and>
   last_written EDPI_CMD_SIZE (bus (after (Hi35xxSetCntlrCfg ready_panel (Some panel_cfg)) lp_state)) = Some 0xF0"
proof
  have "result (Hi35xxSetCntlrCfg ready_panel (Some panel_cfg)) lp_state = HDF_SUCCESS"
    using panel_cfg_valid by (simp add: run_simps lp_state_def mipi_tx_loaded_def)
  then show "last_written EDPI_CMD_SIZE (bus (after (Hi35xxSetCntlrCfg ready_panel (Some panel_cfg)) lp_state)) = Some 0xF0"
    by (rule edpi_size_overwritten)
qed (simp add: panel_cfg_def)

text \<open>
  The actual data rate is the least multiple of the reference clock (27) that is at least
  the requested rate, for every rate for which the 32-bit sum does not wrap.
\<close>

theorem actual_rate_least_multiple:
  assumes "unat r \<le> 4294967268"
  shows "27 dvd unat (actual_rate_of r) \<and> unat r \<le> unat (actual_rate_of r) \<and>
    (\<forall>k. 27 dvd k \<longrightarrow> unat r \<le> k \<longrightarrow> unat (actual_rate_of r) \<le> k)"
proof (intro conjI allI impI)
  note eq = actual_rate_exact [OF assms]
  show "27 dvd unat (actual_rate_of r)" unfolding eq by simp
  show "unat r \<le> unat (actual_rate_of r)" unfolding eq by linarith
  fix k :: nat
  assume "27 dvd k" and "unat r \<le> k"
  then obtain m where "k = 27 * m" by blast
  then have "(unat r + 26) div 27 \<le> (27 * m + 26) div 27"
    using \<open>unat r \<le> k\<close> by (intro div_le_mono) simp
  then show "unat (actual_rate_of r) \<le> k" unfolding eq using \<open>k = 27 * m\<close> by simp
qed

lemma actual_rate_least_multiple_witness:
  "27 dvd unat (actual_rate_of 950) \<and> 950 \<le> unat (actual_rate_of 950) \<and> unat (actual_rate_of 950) \<le> 972"
proof -
  have "unat (950 :: u32) = 950" by simp
  then show ?thesis using actual_rate_least_multiple [of 950] by simp
qed

text \<open>
  C33. For every requested rate up to 13824 the pair stored in PLL_SET1 and PLL_SET5 encodes,
  without truncation, the multiplier \<open>ceil(rate / 27)\<close> times the reference divider of the range
  the rate is in.
\<close>

theorem pll_settings_exact:
  assumes "0 < unat r" and "unat r \<le> 13824"
  shows "pll_multiplier (MipiTxDrvGetPhyPllSet1Set5 r (MipiTxDrvGetPhyPllSet0 r) old) =
    int ((unat r + 26) div 27) *
      (if unat r > 750 then 1 else if unat r > 375 then 2 else if unat r > 188 then 4
       else if unat r > 94 then 8 else 16)"
  using pll_multiplier_exact [OF assms, of old] by (simp only: pllRef_by_rate)

lemma pll_settings_exact_witness:
  "pll_multiplier (MipiTxDrvGetPhyPllSet1Set5 945 (MipiTxDrvGetPhyPllSet0 945) (0, 0)) = 35"
  using pll_settings_exact [of 945 "(0, 0)"] by simp

text \<open>
  C32. For every actual rate up to 8288 no timing parameter is cut by the conversion to
  \<open>unsigned char\<close> or wraps: each is its time in the header, rounded up to the inner period of
  the PHY and compensated, where the two \<open>ZERO\<close> times stop at 0.
\<close>

theorem timing_parameters_exact:
  assumes "0 < unat r" and "unat r \<le> 8288"
  shows "unat (dataTpreDelay (MipiTxDrvGetPhyTimingParam r)) = ceil8 (100 * unat r) - 1 \<and>
    unat (clkTlpx (MipiTxDrvGetPhyTimingParam r)) = ceil8 (60 * unat r) - 1 \<and>
    unat (clkTclkPrepare (MipiTxDrvGetPhyTimingParam r)) =
      prepare_level (ceil8 (70 * unat r)) (104 * unat r < ceil8 (70 * unat r) * 8000) \<and>
    unat (clkTclkZero (MipiTxDrvGetPhyTimingParam r)) = ceil8 (250 * unat r) - 4 \<and>
    unat (clkTclkTrail (MipiTxDrvGetPhyTimingParam r)) = ceil8 (80 * unat r) \<and>
    unat (dataTlpx (MipiTxDrvGetPhyTimingParam r)) = ceil8 (60 * unat r) - 1 \<and>
    unat (dataThsPrepare (MipiTxDrvGetPhyTimingParam r)) =
      prepare_level (ceil8 (90 * unat r)) (105 < unat r \<and> 95 * unat r + 6000 < ceil8 (90 * unat r) * 8000) \<and>
    unat (dataThsZero (MipiTxDrvGetPhyTimingParam r)) = ceil8 (180 * unat r) - 4 \<and>
    unat (dataThsTrail (MipiTxDrvGetPhyTimingParam r)) = ceil8 (110 * unat r) + 1"
proof -
  have "clkTclkPrepare (MipiTxDrvGetPhyTimingParam r) = MipiTxDrvGetPhyClkPrepare r"
    and "dataThsPrepare (MipiTxDrvGetPhyTimingParam r) = MipiTxDrvGetPhyDataPrepare r"
    by (simp_all add: MipiTxDrvGetPhyTimingParam_def)
  then show ?thesis
    using timing_params_exact [OF assms] clk_prepare_exact [OF assms] data_prepare_exact [OF assms]
    by (intro conjI) simp_all
qed

lemma timing_parameters_exact_witness:
  "unat (dataTpreDelay (MipiTxDrvGetPhyTimingParam 945)) = 11 \<and>
   unat (clkTclkZero (MipiTxDrvGetPhyTimingParam 945)) = 26"
  using timing_parameters_exact [of 945] by (simp add: ceil8_def)


text \<open>
  C11. Sending a command, of whatever length up to what the buffer holds and whatever the panel
  answers, never overruns the payload FIFO: every write to \<open>GEN_PLD_DATA\<close> directly follows a
  status read that said "not full". It takes at most 104258 bus operations, so it always ends,
  frees its buffer, and changes no variable of the driver.
\<close>

theorem set_cmd_safe:
  assumes "user_copy_ok env" and "unat (dataLen c) \<le> length (payload c)"
  shows "\<exists>ops. after (Hi35xxSetCmd env (Some c)) s = s\<lparr>bus := bus s @ ops\<rparr> \<and>
    guarded False ops \<and> length ops \<le> 104258"
  using SetCmd_effect [OF assms, of s] by blast

lemma set_cmd_safe_witness:
  "\<exists>ops. after (Hi35xxSetCmd ready_panel (Some dcs_write)) lp_state = lp_state\<lparr>bus := bus lp_state @ ops\<rparr> \<and>
    guarded False ops \<and> length ops \<le> 104258"
  using set_cmd_safe [OF ready_panel_copy, of dcs_write lp_state] by (simp add: dcs_write_def)

text \<open>
  C4. The payload of a long command. Whatever the panel does, the bytes that went over the link,
  up to the length of the command, are an initial part of its payload. If the command succeeds,
  one header was written, with the data type of the command and the length of the payload as its
  word count. If it succeeds and the panel never reports a full FIFO, the payload is complete;
  with a FIFO that was full it need not be, see below.
\<close>

theorem payload_sent:
  assumes "user_copy_ok env" and "dataLen c > 2" and "unat (dataLen c) < 65536" and "unat (dataLen c) \<le> length (payload c)"
  shows "\<exists>ops m. bus (after (Hi35xxSetCmd env (Some c)) s) = bus s @ ops \<and>
    take (unat (dataLen c)) (wire_bytes ops) = take m (take (unat (dataLen c)) (payload c)) \<and>
    (result (Hi35xxSetCmd env (Some c)) s = HDF_SUCCESS \<longrightarrow>
       (\<exists>h. writes_of GEN_HDR ops = [h] \<and> bf_get 8 16 h = ucast (ucast (dataLen c) :: u16) \<and>
          bf_get 0 6 h = take_bit 6 (ucast (dataType c))) \<and>
       ((\<forall>h. gen_pld_w_full (dev_read env h CMD_PKT_STATUS) \<noteq> 1) \<longrightarrow> m = unat (dataLen c)))"
proof (cases "run_state (Hi35xxSetCmd env (Some c)) s = run_state (MipiTxDrvSetCmdInfo env (Some (cmd_info c))) s")
  case False
  then have "after (Hi35xxSetCmd env (Some c)) s = s \<and> result (Hi35xxSetCmd env (Some c)) s \<noteq> HDF_SUCCESS"
    unfolding run_SetCmd [OF assms(4)] by (auto split: if_splits)
  then show ?thesis by (intro exI [of _ "[]"] exI [of _ 0]) simp
next
  case run: True
  let ?n = "unat (dataLen c)"
  have ci: "cmd (cmd_info c) = Some (payload c)" "cmdSize (cmd_info c) = ucast (dataLen c)"
    "cmd_dataType (cmd_info c) = dataType c"
    using assms(2) by (simp_all add: cmd_info_def)
  have n: "unat (cmdSize (cmd_info c)) = ?n" using assms(3) by (simp add: ci unat_ucast_u16(1))
  obtain ops m where o: "after (MipiTxDrvSetCmdInfo env (Some (cmd_info c))) s = s\<lparr>bus := bus s @ ops\<rparr>"
    "take ?n (wire_bytes ops) = take m (take ?n (payload c))"
    and ok: "never_full env \<longrightarrow> result (MipiTxDrvSetCmdInfo env (Some (cmd_info c))) s = HDF_SUCCESS \<longrightarrow> m = ?n"
      "result (MipiTxDrvSetCmdInfo env (Some (cmd_info c))) s = HDF_SUCCESS \<longrightarrow>
       writes_of GEN_HDR ops = [header_word (dev_read env (bus s) GEN_HDR) (cmd_info c)]"
    using set_cmd_run [OF assms(1) ci(1), of s] assms(4) unfolding n by blast
  show ?thesis
    using o ok header_fields [of "dev_read env (bus s) GEN_HDR" "cmd_info c"]
    unfolding run by (intro exI [of _ ops] exI [of _ m]) (simp add: ci)
qed

definition full_until_header :: "mipi_env \<Rightarrow> bool" where
  "full_until_header env \<longleftrightarrow>
     (\<forall>h. dev_read env h CMD_PKT_STATUS = (if writes_of GEN_HDR h = [] then 8 else 5))"

lemma status_after_quiet:
  assumes "full_until_header env" and "v \<in> status_after env h"
  shows "v = (if writes_of GEN_HDR h = [] then 8 else 5)"
proof -
  obtain xs where "v = dev_read env (h @ xs) CMD_PKT_STATUS" and "list_all status_poll_op xs"
    using assms(2) by (auto simp: status_after_def)
  moreover from this have "list_all quiet xs" by (intro list.pred_mono_strong [OF _ status_poll_is_quiet])
  ultimately show ?thesis using assms(1) quiet_history(2) [of xs GEN_HDR] by (simp add: full_until_header_def)
qed

lemma refused_word:
  assumes "full_until_header env" and "writes_of GEN_HDR (bus s) = []"
  shows "\<exists>ops. run_state (MipiTxWaitWriteFifoNotFull env) s = (HDF_ERR_TIMEOUT, s\<lparr>bus := bus s @ ops\<rparr>) \<and>
    list_all quiet ops"
proof -
  have "result (MipiTxWaitWriteFifoNotFull env) s = HDF_ERR_TIMEOUT"
  proof (rule not_full.stuck_timeout)
    fix v
    assume "v \<in> status_after env (bus s)"
    then have "v = 8" using status_after_quiet [OF assms(1), of v "bus s"] assms(2) by simp
    then show "gen_pld_w_full v = 1" by (simp add: status_bits)
  qed
  then show ?thesis by (rule_tac not_full_run [of env s 0]) auto
qed

lemma refused_payload:
  assumes "full_until_header env" and "writes_of GEN_HDR (bus s) = []" and "0 < n"
  shows "\<exists>ops. after (MipiTxDrvSetPayloadData env bs n) s = s\<lparr>bus := bus s @ ops\<rparr> \<and>
    wire_bytes ops = [] \<and> writes_of GEN_HDR ops = []"
proof -
  let ?pld = "dev_read env (bus s) GEN_PLD_DATA"
  let ?s = "s\<lparr>bus := bus s @ [Rd GEN_PLD_DATA ?pld]\<rparr>"
  obtain ops where t: "run_state (MipiTxWaitWriteFifoNotFull env) ?s = (HDF_ERR_TIMEOUT, ?s\<lparr>bus := bus ?s @ ops\<rparr>)"
    and q: "list_all quiet ops"
    using refused_word [OF assms(1), of ?s] assms(2) by auto
  have "after (MipiTxDrvSetPayloadData env bs n) s = ?s\<lparr>bus := bus ?s @ ops\<rparr>"
  proof (cases "n div 4")
    case 0
    then have "n mod 4 \<noteq> 0" using assms(3) by presburger
    then show ?thesis using 0 t by (simp add: MipiTxDrvSetPayloadData_def run_simps Let_def)
  next
    case (Suc k)
    have "[0..<Suc k] = 0 # [1..<Suc k]" by (simp add: upt_conv_Cons del: upt_Suc)
    then show ?thesis using Suc t by (simp add: MipiTxDrvSetPayloadData_def run_simps Let_def del: upt_Suc)
  qed
  then show ?thesis
    using quiet_history(2) [OF q] by (intro exI [of _ "Rd GEN_PLD_DATA ?pld # ops"]) (simp add: wire_bytes_def)
qed

lemma header_accepted:
  assumes "full_until_header env"
  shows "\<exists>ops. run_state (send_header env h ci) s =
      (HDF_SUCCESS, s\<lparr>bus := bus s @ Wr GEN_HDR (header_word h ci) # ops\<rparr>) \<and> list_all quiet ops"
proof -
  let ?s = "s\<lparr>bus := bus s @ [Wr GEN_HDR (header_word h ci), Udelay 350]\<rparr>"
  have five: "gen_cmd_empty v \<noteq> 0 \<and> gen_pld_w_empty v \<noteq> 0"
    if "v \<in> status_after env (bus s @ Wr GEN_HDR (header_word h ci) # ops)" for v ops
  proof -
    have "v = 5" using status_after_quiet [OF assms that] by simp
    then show ?thesis by (simp add: status_bits)
  qed
  obtain ret ops where t: "run_state (send_header env h ci) s = (ret, s\<lparr>bus := bus s @ Wr GEN_HDR (header_word h ci) # ops\<rparr>)"
    and q: "list_all quiet ops"
    using send_header_run by blast
  have 1: "result (MipiTxWaitCmdFifoEmpty env) ?s = HDF_SUCCESS"
    using five [of _ "[Udelay 350]"] by (intro cmd_empty.ready_success) auto
  obtain o1 where o1: "after (MipiTxWaitCmdFifoEmpty env) ?s = ?s\<lparr>bus := bus ?s @ o1\<rparr>"
    using talksE [OF cmd_empty.talks_poll] by metis
  have 2: "result (MipiTxWaitWriteFifoEmpty env) (?s\<lparr>bus := bus ?s @ o1\<rparr>) = HDF_SUCCESS"
    using five [of _ "Udelay 350 # o1"] by (intro write_empty.ready_success) auto
  have "result (send_header env h ci) s = HDF_SUCCESS"
    unfolding send_header_def Let_def header_word_def [symmetric]
    using 1 2 o1 by (simp add: run_simps bus_defs case_prod_beta)
  then show ?thesis using t q by auto
qed

text \<open>
  C36. A payload that the FIFO refused is not reported. \<open>MipiTxDrvSetPayloadData\<close> returns
  nothing, so when the FIFO stays full until the header is written, the command completes with
  \<open>HDF_SUCCESS\<close> although not one payload byte was sent under a header that announces them all.
\<close>

theorem dropped_payload_succeeds:
  assumes dev: "full_until_header env"
    and fresh: "writes_of GEN_HDR (bus s) = []" and ready: "en_cfg s" "\<not> en_hs_mode s"
    and env: "user_copy_ok env" "calloc_ok env (unat (dataLen c))" "access_ok env"
      "copy_from_user env (unat (dataLen c)) (payload c) = Some (take (unat (dataLen c)) (payload c))"
    and len: "dataLen c > 2" "unat (dataLen c) \<le> 200" "unat (dataLen c) \<le> length (payload c)"
  shows "\<exists>ops h. run_state (Hi35xxSetCmd env (Some c)) s = (HDF_SUCCESS, s\<lparr>bus := bus s @ ops\<rparr>) \<and>
    wire_bytes ops = [] \<and> writes_of GEN_HDR ops = [h] \<and> bf_get 8 16 h = ucast (ucast (dataLen c) :: u16)"
proof -
  let ?n = "unat (dataLen c)" and ?ci = "cmd_info c" and ?h = "dev_read env (bus s) GEN_HDR"
  have "unat (ucast (dataLen c) :: u16) = ?n" using len(2) by (simp add: unat_ucast_u16(1))
  then have ci: "cmd ?ci = Some (payload c)" "cmdSize ?ci = ucast (dataLen c)" "unat (cmdSize ?ci) = ?n"
    using len(1) by (simp_all add: cmd_info_def)
  have n: "0 < ?n" using len(1) by (simp add: word_less_nat_alt)
  have size: "\<not> cmdSize ?ci > 200" "cmdSize ?ci \<noteq> 0" "\<not> cmdSize ?ci > MIPI_TX_SET_DATA_SIZE"
    using len(2) n ci(3) unfolding word_less_nat_alt word_unat_eq_iff by simp_all
  have run: "run_state (Hi35xxSetCmd env (Some c)) s = run_state (MipiTxDrvSetCmdInfo env (Some ?ci)) s"
    using ready size(3) len(1) unfolding run_SetCmd [OF len(3)] by auto
  let ?a = "s\<lparr>bus := bus s @ [Rd GEN_HDR ?h], live_bufs := live_bufs s + 1\<rparr>"
  obtain ops where p: "after (MipiTxDrvSetPayloadData env (take ?n (payload c)) ?n) ?a = ?a\<lparr>bus := bus ?a @ ops\<rparr>"
    "wire_bytes ops = []" "writes_of GEN_HDR ops = []"
    using refused_payload [OF dev, of ?a ?n] fresh n by auto
  let ?s = "s\<lparr>bus := bus s @ Rd GEN_HDR ?h # ops\<rparr>"
  obtain ops' where t: "run_state (send_header env ?h ?ci) ?s =
      (HDF_SUCCESS, ?s\<lparr>bus := bus ?s @ Wr GEN_HDR (header_word ?h ?ci) # ops'\<rparr>)" and q: "list_all quiet ops'"
    using header_accepted [OF dev] by blast
  have "run_state (MipiTxDrvSetCmdInfo env (Some ?ci)) s =
      (HDF_SUCCESS, s\<lparr>bus := bus s @ Rd GEN_HDR ?h # ops @ Wr GEN_HDR (header_word ?h ?ci) # ops'\<rparr>)"
    using ci size env p(1) t
    by (simp add: MipiTxDrvSetCmdInfo_def OsalMemCalloc_def OsalMemFree_def LinuxCopyToKernel_def run_simps case_prod_beta)
  then show ?thesis unfolding run
    using p(2,3) wire_bytes_quiet [OF q] quiet_history(2) [OF q] header_fields(1) [of ?h ?ci] ci(2)
    by (intro exI [of _ "Rd GEN_HDR ?h # ops @ Wr GEN_HDR (header_word ?h ?ci) # ops'"]
        exI [of _ "header_word ?h ?ci"]) (simp add: wire_bytes_def)
qed


definition clogged_panel :: mipi_env where
  "clogged_panel = ready_panel\<lparr>dev_read := \<lambda>h r. if r = CMD_PKT_STATUS then (if writes_of GEN_HDR h = [] then 8 else 5) else 0\<rparr>"

lemma payload_sent_witness:
  "\<exists>ops h. bus (after (Hi35xxSetCmd ready_panel (Some dcs_write)) lp_state) = bus lp_state @ ops \<and>
    take 5 (wire_bytes ops) = [0xB9, 0xFF, 0x83, 0x99, 0x01] \<and>
    writes_of GEN_HDR ops = [h] \<and> bf_get 8 16 h = 5 \<and> bf_get 0 6 h = take_bit 6 0x29"
proof -
  let ?r = "run_state (Hi35xxSetCmd ready_panel (Some dcs_write)) lp_state"
  have "\<not> gen_cmd_empty v = 0 \<and> \<not> gen_pld_w_empty v = 0 \<and> gen_pld_w_full v \<noteq> 1"
    if "v \<in> status_after ready_panel h" for v h
    using that by (auto simp: status_after_def ready_panel_def status_bits)
  then have w: "result (MipiTxWaitCmdFifoEmpty ready_panel) t = HDF_SUCCESS"
    "result (MipiTxWaitWriteFifoEmpty ready_panel) t = HDF_SUCCESS" for t
    using cmd_empty.ready_success [of ready_panel t] write_empty.ready_success [of ready_panel t] by auto
  have h: "result (send_header ready_panel h ci) t = HDF_SUCCESS" for h ci t
    unfolding send_header_def by (simp add: w case_prod_beta)
  have "result (Hi35xxSetCmd ready_panel (Some dcs_write)) lp_state = HDF_SUCCESS"
    by (simp add: run_SetCmd dcs_write_def lp_state_def mipi_tx_loaded_def cmd_info_def MipiTxDrvSetCmdInfo_def
        OsalMemCalloc_def LinuxCopyToKernel_def h case_prod_beta)
      (simp add: ready_panel_def)
  then show ?thesis
    using payload_sent [OF ready_panel_copy, of dcs_write lp_state] ready_panel_never_full
    by (simp add: dcs_write_def)
qed

lemma dropped_payload_succeeds_witness:
  "\<exists>ops h. run_state (Hi35xxSetCmd clogged_panel (Some dcs_write)) lp_state = (HDF_SUCCESS, lp_state\<lparr>bus := bus lp_state @ ops\<rparr>) \<and>
    wire_bytes ops = [] \<and> writes_of GEN_HDR ops = [h] \<and> bf_get 8 16 h = 5"
proof -
  have "full_until_header clogged_panel" "user_copy_ok clogged_panel"
    using ready_panel_copy by (simp_all add: full_until_header_def clogged_panel_def user_copy_ok_def)
  then show ?thesis
    using dropped_payload_succeeds [of clogged_panel lp_state dcs_write]
    by (simp add: lp_state_def mipi_tx_loaded_def clogged_panel_def ready_panel_def dcs_write_def)
qed

lemma ucast_u8_u16_u32 [simp]: "ucast (ucast (b :: u8) :: u16) = (ucast b :: u32)"
  by (rule bit_eqI) (auto simp: bit_simps dest: bit_imp_le_length)

text \<open>
  C12. A read command that succeeds delivers exactly the bytes that the panel put into the read
  FIFO after the request went out: the request header carries the data type and parameter, as
  many words as needed are read, and their first \<open>readLen\<close> bytes are the answer. A read always
  ends, within 165372 bus operations, and frees its buffer.
\<close>

theorem get_cmd_answer:
  assumes "payload c \<noteq> []" and "unat readLen < 65536"
  shows "\<exists>ret out ops. run_state (Hi35xxGetCmd env (Some c) readLen True) s = ((ret, out), s\<lparr>bus := bus s @ ops\<rparr>) \<and>
    length ops \<le> 165372 \<and> (ret = HDF_SUCCESS \<longleftrightarrow> out \<noteq> None) \<and>
    (\<forall>d. out = Some d \<longrightarrow> (\<exists>drain h ops'. ops = drain @ Wr GEN_HDR h # ops' \<and>
       bf_get 0 6 h = take_bit 6 (ucast (dataType c)) \<and> bf_get 8 16 h = ucast (payload c ! 0) \<and>
       length (reads_of GEN_PLD_DATA ops') = (unat readLen + 3) div 4 \<and>
       d = take (unat readLen) (concat (map word_bytes (reads_of GEN_PLD_DATA ops')))))"
proof -
  define gi where "gi = \<lparr>get_devno = 0, get_dataType = dataType c, dataParam = ucast (payload c ! 0),
     getDataSize = ucast readLen, getData = True\<rparr>"
  have p0: "byte_at (payload c) 0 = Some (payload c ! 0)" using assms(1) by (simp add: byte_at_def)
  have n: "unat (getDataSize gi) = unat readLen" using assms(2) by (simp add: gi_def unat_ucast_u16(1))
  have run: "run_state (Hi35xxGetCmd env (Some c) readLen True) s =
      (let r = result (MipiTxCheckGetCmdInfo gi) s
       in if r \<noteq> HDF_SUCCESS then ((r, None), s) else run_state (MipiTxDrvGetCmdInfo env gi) s)"
    by (simp add: Hi35xxGetCmd_def p0 MipiTxGetCmd_def gi_def run_simps Let_def)
  show ?thesis
  proof (cases "result (MipiTxCheckGetCmdInfo gi) s = HDF_SUCCESS")
    case False
    then show ?thesis unfolding run Let_def
      by (intro exI [of _ "result (MipiTxCheckGetCmdInfo gi) s"] exI [of _ None] exI [of _ "[]"]) simp
  next
    case True
    then have "getDataSize gi \<le> MIPI_TX_GET_DATA_SIZE" by (auto simp: run_simps split: if_splits)
    then have "unat readLen \<le> 160" using n by (simp add: word_le_nat_alt)
    then have le: "5012 + 4009 * ((unat readLen + 3) div 4) \<le> 165372" by simp
    have fields: "bf_get 0 6 (request_word (stack32 env) gi) = take_bit 6 (ucast (dataType c))"
      "bf_get 8 16 (request_word (stack32 env) gi) = ucast (payload c ! 0)"
      by (simp_all add: request_fields gi_def)
    obtain ret out ops where t: "run_state (MipiTxDrvGetCmdInfo env gi) s = ((ret, out), s\<lparr>bus := bus s @ ops\<rparr>)"
      and l: "length ops \<le> 5012 + 4009 * ((unat readLen + 3) div 4)" and r: "ret = HDF_SUCCESS \<longleftrightarrow> out \<noteq> None"
      and d: "\<forall>d. out = Some d \<longrightarrow> (\<exists>drain ops'. ops = drain @ Wr GEN_HDR (request_word (stack32 env) gi) # ops' \<and>
       length (reads_of GEN_PLD_DATA ops') = (unat readLen + 3) div 4 \<and>
       d = take (unat readLen) (concat (map word_bytes (reads_of GEN_PLD_DATA ops'))))"
      using get_cmd_run [of env gi s] unfolding n by blast
    have "run_state (Hi35xxGetCmd env (Some c) readLen True) s = ((ret, out), s\<lparr>bus := bus s @ ops\<rparr>)"
      unfolding run Let_def using True t by simp
    moreover have "length ops \<le> 165372" using l le by simp
    moreover have "\<exists>drain h ops'. ops = drain @ Wr GEN_HDR h # ops' \<and>
       bf_get 0 6 h = take_bit 6 (ucast (dataType c)) \<and> bf_get 8 16 h = ucast (payload c ! 0) \<and>
       length (reads_of GEN_PLD_DATA ops') = (unat readLen + 3) div 4 \<and>
       x = take (unat readLen) (concat (map word_bytes (reads_of GEN_PLD_DATA ops')))" if x: "out = Some x" for x
    proof -
      from d x obtain drain ops' where "ops = drain @ Wr GEN_HDR (request_word (stack32 env) gi) # ops'"
        "length (reads_of GEN_PLD_DATA ops') = (unat readLen + 3) div 4"
        "x = take (unat readLen) (concat (map word_bytes (reads_of GEN_PLD_DATA ops')))"
        by (elim allE [of _ x]) (elim impE exE conjE, simp, blast)
      then show ?thesis
        by (intro exI [of _ drain] exI [of _ "request_word (stack32 env) gi"] exI [of _ ops'] conjI fields)
    qed
    ultimately show ?thesis using r
      by (rule_tac exI [of _ ret], rule_tac exI [of _ out], rule_tac exI [of _ ops]) (intro conjI allI impI; simp)
  qed
qed


lemma ready_panel_answer:
  "result (Hi35xxGetCmd ready_panel (Some dcs_write) 3 True) lp_state = (HDF_SUCCESS, Some [1, 2, 3])"
  by code_simp

lemma get_cmd_answer_witness:
  "\<exists>drain h ops'. bus (after (Hi35xxGetCmd ready_panel (Some dcs_write) 3 True) lp_state) =
      bus lp_state @ drain @ Wr GEN_HDR h # ops' \<and>
    length (reads_of GEN_PLD_DATA ops') = 1 \<and>
    [1, 2, 3] = take 3 (concat (map word_bytes (reads_of GEN_PLD_DATA ops')))"
proof -
  have e: "unat (3 :: u32) = 3" "((3 :: nat) + 3) div 4 = 1" "payload dcs_write \<noteq> []" "(3 :: nat) < 65536"
    by (simp_all add: dcs_write_def)
  obtain ret out ops where r: "run_state (Hi35xxGetCmd ready_panel (Some dcs_write) 3 True) lp_state =
      ((ret, out), lp_state\<lparr>bus := bus lp_state @ ops\<rparr>)"
    and d: "\<forall>d. out = Some d \<longrightarrow> (\<exists>drain h ops'. ops = drain @ Wr GEN_HDR h # ops' \<and>
       bf_get 0 6 h = take_bit 6 (ucast (dataType dcs_write)) \<and> bf_get 8 16 h = ucast (payload dcs_write ! 0) \<and>
       length (reads_of GEN_PLD_DATA ops') = 1 \<and>
       d = take 3 (concat (map word_bytes (reads_of GEN_PLD_DATA ops'))))"
    using get_cmd_answer [of dcs_write 3 ready_panel lp_state] e unfolding e by blast
  have "out = Some [1, 2, 3]" using ready_panel_answer r by simp
  then obtain drain h ops' where "ops = drain @ Wr GEN_HDR h # ops'"
    "length (reads_of GEN_PLD_DATA ops') = 1"
    "[1, 2, 3] = take 3 (concat (map word_bytes (reads_of GEN_PLD_DATA ops')))"
    using d by blast
  then show ?thesis using r by (intro exI [of _ drain] exI [of _ h] exI [of _ ops']) simp
qed

text \<open>
  C30. While the controller is in high-speed mode, or before it was ever configured, no command
  in either direction touches the hardware or the state of the driver, and none reports
  success.
\<close>

theorem commands_gated:
  assumes "en_hs_mode s \<or> \<not> en_cfg s" and "unat (dataLen c) \<le> length (payload c)" and "payload c \<noteq> []"
  shows "(\<exists>r. run_state (Hi35xxSetCmd env (Some c)) s = (r, s) \<and> r \<noteq> HDF_SUCCESS) \<and>
    run_state (Hi35xxGetCmd env (Some c) readLen True) s = ((HDF_FAILURE, None), s)"
proof
  show "\<exists>r. run_state (Hi35xxSetCmd env (Some c)) s = (r, s) \<and> r \<noteq> HDF_SUCCESS"
    unfolding run_SetCmd [OF assms(2)] using assms(1) by simp
  have "byte_at (payload c) 0 = Some (payload c ! 0)" using assms(3) by (simp add: byte_at_def)
  then show "run_state (Hi35xxGetCmd env (Some c) readLen True) s = ((HDF_FAILURE, None), s)"
    using assms(1) by (auto simp: Hi35xxGetCmd_def MipiTxGetCmd_def run_simps)
qed

lemma commands_gated_witness:
  "(\<exists>r. run_state (Hi35xxSetCmd ready_panel (Some dcs_write)) mipi_tx_loaded = (r, mipi_tx_loaded) \<and> r \<noteq> HDF_SUCCESS) \<and>
   run_state (Hi35xxGetCmd ready_panel (Some dcs_write) 3 True) mipi_tx_loaded = ((HDF_FAILURE, None), mipi_tx_loaded)"
  using commands_gated [of mipi_tx_loaded dcs_write ready_panel 3] by (simp add: mipi_tx_loaded_def dcs_write_def)

lemma loaded_reachable: "tx_reachable env (after (Hi35xxMipiTxInit env r m) mipi_tx_unloaded)"
  by (rule r_into_rtranclp) (rule tx_step.load)

text \<open>
  C29. In every state that loading, unloading and the calls of the DSI core can reach, the
  driver's high-speed flag says what was last written to \<open>OPERATION_MODE\<close>.
\<close>

theorem hs_flag_mirrors_hardware:
  assumes "tx_reachable env s"
  shows "en_hs_mode (tx s) \<longleftrightarrow> last_written OPERATION_MODE (bus (tx s)) = Some 0x80150000"
  using hs_inv_reachable [OF assms] by (simp add: hs_inv_def)

lemma hs_flag_mirrors_hardware_witness:
  "en_hs_mode (tx (after (Hi35xxMipiTxInit ready_panel HDF_SUCCESS HDF_SUCCESS) mipi_tx_unloaded)) \<longleftrightarrow>
   last_written OPERATION_MODE (bus (tx (after (Hi35xxMipiTxInit ready_panel HDF_SUCCESS HDF_SUCCESS) mipi_tx_unloaded))) =
     Some 0x80150000"
  by (rule hs_flag_mirrors_hardware [OF loaded_reachable])

text \<open>
  As long as mapping the registers succeeds, the driver touches the register block only
  while it is mapped, over any sequence of loads, unloads and calls.
\<close>

theorem registers_mapped:
  assumes "tx_reachable env s" and "\<forall>h. io_remap_ok env h"
  shows "regs_mapped False (bus (tx s)) \<and> (registered s \<longrightarrow> regs_va (tx s))"
proof -
  have "sys_mapped s" using assms by (intro sys_mapped_reachable [OF assms(1)]) simp
  then show ?thesis by (simp add: sys_mapped_def map_inv_def)
qed

lemma registers_mapped_witness:
  "regs_mapped False (bus (tx (after (Hi35xxMipiTxInit ready_panel HDF_SUCCESS HDF_SUCCESS) mipi_tx_unloaded)))"
  by (rule registers_mapped [THEN conjunct1, OF loaded_reachable]) (simp add: ready_panel_def)

text \<open>
  When the mapping fails, loading fails but leaves the controller registered with the DSI
  core; a configuration call then goes through and writes to the unmapped register block.
\<close>

theorem failed_load_stays_registered:
  assumes "\<not> io_remap_ok env []" and "valid_cfg (dev_cfg c)"
  shows "\<exists>s s'. run_state (Hi35xxMipiTxInit env HDF_SUCCESS m) mipi_tx_unloaded = (HDF_FAILURE, s) \<and>
    registered s \<and> \<not> regs_va (tx s) \<and>
    s' = s\<lparr>tx := after (dispatch (g_method env) (SetCntlrCfg (Some c))) (tx s)\<rparr> \<and>
    tx_reachable env s' \<and> \<not> regs_mapped False (bus (tx s'))"
proof -
  let ?s = "after (Hi35xxMipiTxInit env HDF_SUCCESS m) mipi_tx_unloaded"
  have tx: "run_state (MipiTxDrvInit env 0) mipi_tx_loaded = (HDF_FAILURE, mipi_tx_loaded\<lparr>bus := [IoRemapRegs False]\<rparr>)"
    using assms(1) by (simp add: MipiTxDrvInit_def run_RegInit mipi_tx_loaded_def)
  have run: "run_state (Hi35xxMipiTxInit env HDF_SUCCESS m) mipi_tx_unloaded =
      (HDF_FAILURE, mipi_tx_unloaded\<lparr>registered := True, tx := mipi_tx_loaded\<lparr>bus := [IoRemapRegs False]\<rparr>\<rparr>)"
    using tx by (simp add: Hi35xxMipiTxInit_def mipi_tx_unloaded_def)
  then have s: "registered ?s" "tx ?s = mipi_tx_loaded\<lparr>bus := [IoRemapRegs False]\<rparr>" by simp_all
  let ?s' = "?s\<lparr>tx := after (dispatch (g_method env) (SetCntlrCfg (Some c))) (tx ?s)\<rparr>"
  have "tx_reachable env ?s" by (rule loaded_reachable)
  then have "tx_reachable env ?s'" by (rule rtranclp.rtrancl_into_rtrancl) (rule tx_step.call [OF s(1)])
  moreover have "bus (tx ?s') = IoRemapRegs False # controller_ops (dev_cfg c) @
      phy_cfg_ops env (actual_rate_of (phyDataRate (dev_cfg c))) (dev_cfg c)"
    using s(2) assms(2) by (simp add: g_method_def case_prod_beta run_simps bus_configured mipi_tx_loaded_def)
  then have "\<not> regs_mapped False (bus (tx ?s'))"
    by (simp add: controller_ops_def Let_def)
  ultimately show ?thesis using run s
    by (intro exI [of _ ?s] exI [of _ ?s']) (simp add: mipi_tx_loaded_def)
qed

definition unmappable_panel :: mipi_env where
  "unmappable_panel = ready_panel\<lparr>io_remap_ok := \<lambda>h. False\<rparr>"

lemma failed_load_stays_registered_witness:
  "\<exists>s s'. run_state (Hi35xxMipiTxInit unmappable_panel HDF_SUCCESS HDF_SUCCESS) mipi_tx_unloaded = (HDF_FAILURE, s) \<and>
    registered s \<and> \<not> regs_va (tx s) \<and>
    s' = s\<lparr>tx := after (dispatch (g_method unmappable_panel) (SetCntlrCfg (Some panel_cfg))) (tx s)\<rparr> \<and>
    tx_reachable unmappable_panel s' \<and> \<not> regs_mapped False (bus (tx s'))"
  using failed_load_stays_registered [OF _ panel_cfg_valid, of unmappable_panel HDF_SUCCESS]
  by (simp add: unmappable_panel_def)

text \<open>
  Unloading does not clear the driver's flags: after a reload, which resets the
  transmitter through the clock register, the driver still takes the controller for configured,
  whatever it was before.
\<close>

theorem reload_keeps_flags:
  "let s' = after (Hi35xxMipiTxInit env HDF_SUCCESS m) (after (Hi35xxMipiTxRelease True (Some c)) s)
   in en_cfg (tx s') = en_cfg (tx s) \<and> en_hs_mode (tx s') = en_hs_mode (tx s)"
proof -
  have "en_cfg (after MipiTxDrvExit t) = en_cfg t \<and> en_hs_mode (after MipiTxDrvExit t) = en_hs_mode t" for t
    by (simp add: MipiTxDrvExit_def run_RegExit)
  moreover have "en_cfg (after (MipiTxDrvInit env 0) t) = en_cfg t \<and>
      en_hs_mode (after (MipiTxDrvInit env 0) t) = en_hs_mode t" for t
    by (rule DrvInit_cases [of env 0 t]) (auto simp: run_RegInit)
  ultimately show ?thesis by (simp add: run_Init run_Release Let_def)
qed

text \<open>
  A configuration with more than four lanes writes behind the lane table of
  \<open>GetDevCfg\<close>, and nothing checks for it; with at most four lanes no memory fault happens.
\<close>

theorem lane_table_overrun:
  "mem_fault (after (Hi35xxSetCntlrCfg env (Some c)) s) \<longleftrightarrow> lane c > LANE_MAX_NUM \<or> mem_fault s"
  by (auto simp: run_simps)

end
