(* ===== verification/Kevent.thy ===== *)
theory Kevent
  imports Prelude
begin

section \<open>Kernel events to user space\<close>

text \<open>
  The kevent driver, \<open>manager/src/hdf_kevent.c\<close>, and the power notifier
  \<open>manager/src/devmgr_pm_reg.c\<close>. Clients open the device and receive power events; a
  synchronous event waits until every client has sent its token back, or a timeout. Pointers to
  clients, client records and waits are addresses (\<open>nat\<close>). The code between taking and releasing
  its mutexes is one atomic operation. What runs outside of them is an operation of its own, so
  that other threads come in between: the test of \<open>clientCount\<close> and \<open>PrepareEvent\<close> before the locked
  part of \<open>SendKevent\<close>, the wait, the time from its end to taking the mutex again, and the
  accesses of \<open>HdfKeventDriverOpen\<close> and \<open>HdfKeventDriverClose\<close> to \<open>priv\<close>.
\<close>

subsection \<open>State\<close>

record HdfKeventWait =
  wait_addr :: nat
  waitCount :: u32
  comp_done :: nat

text \<open>
  \<open>client_list\<close> pairs the address of an \<open>HdfKeventClient\<close> with its \<open>ioClient\<close>; \<open>client_priv\<close> is
  the \<open>priv\<close> pointer of an I/O client. \<open>live_waits\<close> and \<open>live_sbufs\<close> are the allocations, \<open>sent\<close>
  the events handed to clients as pairs of client and token. The booleans say which notifiers
  are registered, whether \<open>g_keventModule\<close> is set, and whether the memory of the module is
  allocated.
\<close>

record HdfKeventModule =
  client_list :: "(nat \<times> nat) list"
  client_count :: int
  client_priv :: "nat \<Rightarrow> nat option"
  wait_list :: "HdfKeventWait list"
  live_waits :: "nat list"
  live_sbufs :: nat
  sent :: "(nat \<times> nat) list"
  pm_registered :: bool
  fb_registered :: bool
  g_keventModule :: bool
  module_live :: bool
  dev_priv :: bool

text \<open>What \<open>SendKevent\<close> asks of the buffer and I/O libraries, and its uninitialised \<open>ret\<close>.\<close>

record kevent_env =
  sbuf_obtain_ok :: bool
  wait_alloc :: "nat option"
  write_buffer_ok :: bool
  write_string_ok :: bool
  send_event :: "nat \<Rightarrow> hdf_status"
  stack_ret :: hdf_status

subsection \<open>Sending an event\<close>

definition HdfKeventWaitAlloc :: "kevent_env \<Rightarrow> (HdfKeventModule, nat option) state" where
  "HdfKeventWaitAlloc env = (case wait_alloc env of None \<Rightarrow> State_Monad.return None
   | Some w \<Rightarrow> do {
       modify (\<lambda>s. s\<lparr>live_waits := w # live_waits s\<rparr>);
       State_Monad.return (Some w) })"

definition HdfKeventWaitFree :: "nat option \<Rightarrow> (HdfKeventModule, unit) state" where
  "HdfKeventWaitFree w = (case w of None \<Rightarrow> skip
   | Some a \<Rightarrow> modify (\<lambda>s. s\<lparr>live_waits := remove1 a (live_waits s)\<rparr>))"

definition HdfSbufRecycle :: "(HdfKeventModule, unit) state" where
  "HdfSbufRecycle = modify (\<lambda>s. s\<lparr>live_sbufs := live_sbufs s - 1\<rparr>)"

text \<open>\<open>None\<close> is the NULL buffer; otherwise the result is what is stored in \<open>*wait\<close>.\<close>

definition PrepareEvent :: "kevent_env \<Rightarrow> bool \<Rightarrow> (HdfKeventModule, nat option option) state" where
  "PrepareEvent env sync =
     (if \<not> sbuf_obtain_ok env then State_Monad.return None
      else do {
        modify (\<lambda>s. s\<lparr>live_sbufs := live_sbufs s + 1\<rparr>);
        eventWait \<leftarrow> (if sync then HdfKeventWaitAlloc env else State_Monad.return None);
        if sync \<and> eventWait = None then do { HdfSbufRecycle; State_Monad.return None }
        else if \<not> write_buffer_ok env then do { HdfSbufRecycle; State_Monad.return None }
        else if \<not> write_string_ok env then do { HdfSbufRecycle; State_Monad.return None }
        else State_Monad.return (Some eventWait) })"

text \<open>The loop over the clients; \<open>ret\<close> is overwritten by every client.\<close>

primrec send_to_clients ::
  "kevent_env \<Rightarrow> nat \<Rightarrow> (nat \<times> nat) list \<Rightarrow> hdf_status \<Rightarrow> (HdfKeventModule, hdf_status) state" where
  "send_to_clients env token [] ret = State_Monad.return ret"
| "send_to_clients env token (c # cs) ret = do {
     modify (\<lambda>s. s\<lparr>sent := sent s @ [(snd c, token)]\<rparr>);
     send_to_clients env token cs (send_event env (snd c)) }"

text \<open>
  \<open>SendKevent\<close> up to the locks, which reads the count without them: \<open>Inl r\<close> when it returns \<open>r\<close>,
  \<open>Inr wait\<close> when it goes on with the prepared event.
\<close>

definition SendKevent_begin ::
  "kevent_env \<Rightarrow> bool \<Rightarrow> (HdfKeventModule, hdf_status + nat option) state" where
  "SendKevent_begin env sync = do {
     n \<leftarrow> gets client_count;
     if n \<le> 0 then State_Monad.return (Inl HDF_SUCCESS)
     else do {
       p \<leftarrow> PrepareEvent env sync;
       State_Monad.return (case p of None \<Rightarrow> Inl HDF_FAILURE | Some wait \<Rightarrow> Inr wait) } }"

text \<open>
  The part under the locks, which finds the clients there are by now: \<open>Inl r\<close> when it returns
  \<open>r\<close>, \<open>Inr (w, ret)\<close> when it now waits for the completion of \<open>w\<close>. \<open>ret\<close> is not initialised when
  there is no client any more. A token of 0 stands for an event without a wait.
\<close>

definition SendKevent_locked ::
  "kevent_env \<Rightarrow> nat option \<Rightarrow> (HdfKeventModule, hdf_status + nat \<times> hdf_status) state" where
  "SendKevent_locked env wait = do {
     (case wait of None \<Rightarrow> skip
      | Some w \<Rightarrow> modify (\<lambda>s. s\<lparr>wait_list := wait_list s @
          [\<lparr>wait_addr = w, waitCount = word_of_int (client_count s), comp_done = 0\<rparr>]\<rparr>));
     cs \<leftarrow> gets client_list;
     ret \<leftarrow> send_to_clients env (case wait of None \<Rightarrow> 0 | Some w \<Rightarrow> w) cs (stack_ret env);
     case wait of
       None \<Rightarrow> do { HdfSbufRecycle; State_Monad.return (Inl ret) }
     | Some w \<Rightarrow> State_Monad.return (Inr (w, ret)) }"

definition completed :: "nat \<Rightarrow> HdfKeventModule \<Rightarrow> bool" where
  "completed w s \<longleftrightarrow> list_ex (\<lambda>x. wait_addr x = w \<and> comp_done x > 0) (wait_list s)"

text \<open>
  The end of the wait, when the completion is signalled or the time is over; a completion after
  it changes nothing. Then the part under the mutex that takes the wait off the list.
\<close>

definition wait_for_completion_timeout :: "nat \<Rightarrow> hdf_status \<Rightarrow> (HdfKeventModule, hdf_status) state" where
  "wait_for_completion_timeout w ret = do {
     ok \<leftarrow> gets (completed w);
     State_Monad.return (if ok then ret else HDF_ERR_TIMEOUT) }"

definition SendKevent_end :: "nat \<Rightarrow> hdf_status \<Rightarrow> (HdfKeventModule, hdf_status) state" where
  "SendKevent_end w ret = do {
     modify (\<lambda>s. s\<lparr>wait_list := filter (\<lambda>x. wait_addr x \<noteq> w) (wait_list s)\<rparr>);
     HdfKeventWaitFree (Some w);
     HdfSbufRecycle;
     State_Monad.return ret }"

text \<open>
  The whole function. \<open>others\<close> is what other threads do before it takes the locks, while it waits,
  and after that before it takes the mutex again.
\<close>

record kevent_others =
  before_lock :: "nat option \<Rightarrow> HdfKeventModule \<Rightarrow> HdfKeventModule"
  while_waiting :: "nat \<Rightarrow> HdfKeventModule \<Rightarrow> HdfKeventModule"
  before_relock :: "nat \<Rightarrow> HdfKeventModule \<Rightarrow> HdfKeventModule"

definition SendKevent :: "kevent_env \<Rightarrow> kevent_others \<Rightarrow> bool \<Rightarrow> (HdfKeventModule, hdf_status) state" where
  "SendKevent env others sync = do {
     p \<leftarrow> SendKevent_begin env sync;
     case p of Inl ret \<Rightarrow> State_Monad.return ret
     | Inr wait \<Rightarrow> do {
         modify (before_lock others wait);
         r \<leftarrow> SendKevent_locked env wait;
         (case r of Inl ret \<Rightarrow> State_Monad.return ret
          | Inr (w, ret) \<Rightarrow> do {
              modify (while_waiting others w);
              ret' \<leftarrow> wait_for_completion_timeout w ret;
              modify (before_relock others w);
              SendKevent_end w ret' }) } }"

definition HdfSysEventSend :: "kevent_env \<Rightarrow> kevent_others \<Rightarrow> bool \<Rightarrow> (HdfKeventModule, hdf_status) state" where
  "HdfSysEventSend env others sync = do {
     g \<leftarrow> gets g_keventModule;
     if \<not> g then State_Monad.return HDF_DEV_ERR_OP else SendKevent env others sync }"

subsection \<open>Completion\<close>

definition ack :: "nat \<Rightarrow> HdfKeventWait \<Rightarrow> HdfKeventWait" where
  "ack token w =
     (if token = wait_addr w then
        (let w' = w\<lparr>waitCount := waitCount w - 1\<rparr>
         in if waitCount w' = 0 then w'\<lparr>comp_done := comp_done w' + 1\<rparr> else w')
      else w)"

text \<open>\<open>None\<close> is a missing buffer or one without a token in it.\<close>

definition CompleteKevent :: "nat option \<Rightarrow> (HdfKeventModule, unit) state" where
  "CompleteKevent tokenBuffer = (case tokenBuffer of None \<Rightarrow> skip
   | Some token \<Rightarrow> modify (\<lambda>s. s\<lparr>wait_list := map (ack token) (wait_list s)\<rparr>))"

abbreviation (input) KEVENT_COMPLETE_EVENT :: int where "KEVENT_COMPLETE_EVENT \<equiv> 1"

definition HdfKeventIoServiceDispatch :: "int \<Rightarrow> nat option \<Rightarrow> (HdfKeventModule, hdf_status) state" where
  "HdfKeventIoServiceDispatch cmd data = do {
     p \<leftarrow> gets dev_priv;
     if \<not> p then State_Monad.return HDF_ERR_INVALID_PARAM
     else do {
       (if cmd = KEVENT_COMPLETE_EVENT then CompleteKevent data else skip);
       State_Monad.return HDF_SUCCESS } }"

subsection \<open>Clients\<close>

text \<open>
  Opening publishes the new record in \<open>priv\<close> of the client before it takes \<open>clientMutex\<close>, closing
  reads \<open>priv\<close> before. The client may be NULL; \<open>kClient\<close> is what the allocator returns.
\<close>

definition HdfKeventDriverOpen_publish ::
  "nat option \<Rightarrow> nat option \<Rightarrow> (HdfKeventModule, hdf_status + nat \<times> nat) state" where
  "HdfKeventDriverOpen_publish kClient client = do {
     p \<leftarrow> gets dev_priv;
     case client of None \<Rightarrow> State_Monad.return (Inl HDF_ERR_INVALID_PARAM)
     | Some c \<Rightarrow>
         if \<not> p then State_Monad.return (Inl HDF_ERR_INVALID_PARAM)
         else (case kClient of None \<Rightarrow> State_Monad.return (Inl HDF_ERR_MALLOC_FAIL)
           | Some k \<Rightarrow> do {
               modify (\<lambda>s. s\<lparr>client_priv := (client_priv s)(c \<mapsto> k)\<rparr>);
               State_Monad.return (Inr (k, c)) }) }"

definition HdfKeventDriverOpen_insert :: "nat \<times> nat \<Rightarrow> (HdfKeventModule, hdf_status) state" where
  "HdfKeventDriverOpen_insert kc = do {
     modify (\<lambda>s. s\<lparr>client_list := client_list s @ [kc], client_count := client_count s + 1\<rparr>);
     State_Monad.return HDF_SUCCESS }"

definition HdfKeventDriverOpen ::
  "nat option \<Rightarrow> nat option \<Rightarrow> (HdfKeventModule, hdf_status) state" where
  "HdfKeventDriverOpen kClient client = do {
     r \<leftarrow> HdfKeventDriverOpen_publish kClient client;
     case r of Inl ret \<Rightarrow> State_Monad.return ret | Inr kc \<Rightarrow> HdfKeventDriverOpen_insert kc }"

definition HdfKeventDriverClose_read :: "nat \<Rightarrow> (HdfKeventModule, (nat \<times> nat) option) state" where
  "HdfKeventDriverClose_read c = do {
     p \<leftarrow> gets dev_priv;
     if \<not> p then State_Monad.return None
     else do {
       priv \<leftarrow> gets (\<lambda>s. client_priv s c);
       State_Monad.return (case priv of None \<Rightarrow> None | Some k \<Rightarrow> Some (k, c)) } }"

definition HdfKeventDriverClose_remove :: "nat \<times> nat \<Rightarrow> (HdfKeventModule, unit) state" where
  "HdfKeventDriverClose_remove kc =
     modify (\<lambda>s. s\<lparr>client_list := filter (\<lambda>x. fst x \<noteq> fst kc) (client_list s),
       client_count := client_count s - 1, client_priv := (client_priv s)(snd kc := None)\<rparr>)"

definition HdfKeventDriverClose :: "nat \<Rightarrow> (HdfKeventModule, unit) state" where
  "HdfKeventDriverClose c = do {
     r \<leftarrow> HdfKeventDriverClose_read c;
     case r of None \<Rightarrow> skip | Some kc \<Rightarrow> HdfKeventDriverClose_remove kc }"

subsection \<open>Power notifications\<close>

datatype power_event =
    KEVENT_POWER_SUSPEND
  | KEVENT_POWER_DISPLAY_OFF
  | KEVENT_POWER_RESUME
  | KEVENT_POWER_DISPLAY_ON
  | KEVENT_POWER_OTHER

datatype power_state =
    POWER_STATE_SUSPEND
  | POWER_STATE_DOZE_SUSPEND
  | POWER_STATE_RESUME
  | POWER_STATE_DOZE_RESUME

text \<open>
  \<open>svc\<close> is the \<open>PowerStateChange\<close> of the device manager, \<open>None\<close> when there is no manager; the
  second result is the list of states the manager was asked for.
\<close>

definition KernalSpacePmNotify ::
  "(power_state \<Rightarrow> hdf_status) option \<Rightarrow> power_event \<Rightarrow> hdf_status \<times> power_state list" where
  "KernalSpacePmNotify svc ev =
     (let change = (\<lambda>st. case svc of None \<Rightarrow> (HDF_FAILURE, []) | Some f \<Rightarrow> (f st, [st]))
      in case ev of
           KEVENT_POWER_SUSPEND \<Rightarrow> change POWER_STATE_SUSPEND
         | KEVENT_POWER_DISPLAY_OFF \<Rightarrow> change POWER_STATE_DOZE_SUSPEND
         | KEVENT_POWER_RESUME \<Rightarrow> change POWER_STATE_RESUME
         | KEVENT_POWER_DISPLAY_ON \<Rightarrow> change POWER_STATE_DOZE_RESUME
         | KEVENT_POWER_OTHER \<Rightarrow> (HDF_ERR_INVALID_PARAM, []))"

datatype pm_action = PM_SUSPEND_PREPARE | PM_POST_SUSPEND | PM_OTHER

definition KeventPmNotifierFn ::
  "kevent_env \<Rightarrow> kevent_others \<Rightarrow> (power_state \<Rightarrow> hdf_status) option \<Rightarrow>
   pm_action \<Rightarrow> (HdfKeventModule, hdf_status \<times> power_state list) state" where
  "KeventPmNotifierFn env others svc action = (case action of
     PM_SUSPEND_PREPARE \<Rightarrow> do {
       ret \<leftarrow> SendKevent env others True;
       State_Monad.return (KernalSpacePmNotify svc KEVENT_POWER_SUSPEND) }
   | PM_POST_SUSPEND \<Rightarrow> do {
       ret \<leftarrow> SendKevent env others False;
       State_Monad.return (KernalSpacePmNotify svc KEVENT_POWER_RESUME) }
   | PM_OTHER \<Rightarrow> State_Monad.return (HDF_SUCCESS, []))"

abbreviation (input) FB_BLANK_UNBLANK :: int where "FB_BLANK_UNBLANK \<equiv> 0"

text \<open>A frame buffer event: whether it is \<open>FB_EVENT_BLANK\<close>, and its blank mode if it has data.\<close>

definition KeventFbNotifierFn ::
  "kevent_env \<Rightarrow> kevent_others \<Rightarrow> (power_state \<Rightarrow> hdf_status) option \<Rightarrow>
   bool \<Rightarrow> int option \<Rightarrow> (HdfKeventModule, hdf_status \<times> power_state list) state" where
  "KeventFbNotifierFn env others svc is_blank blank =
     (if \<not> is_blank then State_Monad.return (HDF_SUCCESS, [])
      else (case blank of None \<Rightarrow> State_Monad.return (HDF_SUCCESS, [])
        | Some b \<Rightarrow>
            (let unblank = (b = FB_BLANK_UNBLANK); ev = (if unblank then KEVENT_POWER_DISPLAY_ON else KEVENT_POWER_DISPLAY_OFF)
             in do {
               ret \<leftarrow> SendKevent env others (\<not> unblank);
               State_Monad.return (KernalSpacePmNotify svc ev) })))"

subsection \<open>Bind, init and release\<close>

definition kevent_unbound :: HdfKeventModule where
  "kevent_unbound = \<lparr>client_list = [], client_count = 0, client_priv = \<lambda>_. None, wait_list = [],
     live_waits = [], live_sbufs = 0, sent = [], pm_registered = False, fb_registered = False,
     g_keventModule = False, module_live = False, dev_priv = False\<rparr>"

definition HdfKeventDriverBind ::
  "bool \<Rightarrow> bool \<Rightarrow> bool \<Rightarrow> bool \<Rightarrow> (HdfKeventModule, hdf_status) state" where
  "HdfKeventDriverBind dev calloc_ok mutex_ok client_mutex_ok =
     (if \<not> dev then State_Monad.return HDF_ERR_INVALID_PARAM
      else if \<not> calloc_ok then State_Monad.return HDF_ERR_MALLOC_FAIL
      else if \<not> mutex_ok then State_Monad.return HDF_FAILURE
      else if \<not> client_mutex_ok then State_Monad.return HDF_FAILURE
      else do {
        modify (\<lambda>s. s\<lparr>module_live := True, client_list := [], client_count := 0, wait_list := [], dev_priv := True\<rparr>);
        State_Monad.return HDF_SUCCESS })"

text \<open>\<open>pm_ret\<close> and \<open>fb_ret\<close> are what the two registrations return, 0 for success.\<close>

definition HdfKeventDriverInit :: "int \<Rightarrow> int \<Rightarrow> (HdfKeventModule, int) state" where
  "HdfKeventDriverInit pm_ret fb_ret = do {
     modify (\<lambda>s. s\<lparr>pm_registered := pm_registered s \<or> pm_ret = 0\<rparr>);
     modify (\<lambda>s. s\<lparr>fb_registered := fb_registered s \<or> fb_ret = 0\<rparr>);
     (if fb_ret \<noteq> 0 then modify (\<lambda>s. s\<lparr>pm_registered := False\<rparr>) else skip);
     modify (\<lambda>s. s\<lparr>g_keventModule := True\<rparr>);
     State_Monad.return fb_ret }"

text \<open>
  Both notifiers are taken off by the address of \<open>keventPmNotifier\<close>: the first call removes the
  power notifier, the second looks for it in the chain of the frame buffer and finds nothing.
\<close>

definition HdfKeventDriverRelease :: "(HdfKeventModule, unit) state" where
  "HdfKeventDriverRelease = do {
     p \<leftarrow> gets dev_priv;
     if \<not> p then skip
     else do {
       modify (\<lambda>s. s\<lparr>pm_registered := False\<rparr>);
       modify (\<lambda>s. s\<lparr>module_live := False\<rparr>);
       modify (\<lambda>s. s\<lparr>dev_priv := False\<rparr>) } }"

subsection \<open>The device manager's own power notifier\<close>

text \<open>\<open>devmgr_pm_reg.c\<close>, with the states it asked the manager for.\<close>

definition DevmgrPmSuspend :: "(power_state \<Rightarrow> hdf_status) option \<Rightarrow> hdf_status \<times> power_state list" where
  "DevmgrPmSuspend svc = (case svc of None \<Rightarrow> (HDF_FAILURE, [])
   | Some f \<Rightarrow>
       if f POWER_STATE_SUSPEND \<noteq> HDF_SUCCESS
       then (HDF_FAILURE, [POWER_STATE_SUSPEND, POWER_STATE_RESUME])
       else (HDF_SUCCESS, [POWER_STATE_SUSPEND]))"

definition DevmgrPmResume :: "(power_state \<Rightarrow> hdf_status) option \<Rightarrow> hdf_status \<times> power_state list" where
  "DevmgrPmResume svc = (case svc of None \<Rightarrow> (HDF_FAILURE, [])
   | Some f \<Rightarrow> (HDF_SUCCESS, [POWER_STATE_RESUME]))"

definition DevmgrPmNotifier ::
  "(power_state \<Rightarrow> hdf_status) option \<Rightarrow> pm_action \<Rightarrow> hdf_status \<times> power_state list" where
  "DevmgrPmNotifier svc mode = (case mode of
     PM_SUSPEND_PREPARE \<Rightarrow> DevmgrPmSuspend svc
   | PM_POST_SUSPEND \<Rightarrow> DevmgrPmResume svc
   | PM_OTHER \<Rightarrow> (HDF_SUCCESS, []))"

subsection \<open>What the operations do\<close>

lemma run_send_to_clients [run_simps]:
  "run_state (send_to_clients env t cs ret) s =
     (if cs = [] then ret else send_event env (snd (last cs)), s\<lparr>sent := sent s @ map (\<lambda>c. (snd c, t)) cs\<rparr>)"
  by (induction cs arbitrary: ret s) auto

lemma run_PrepareEvent [run_simps]:
  "run_state (PrepareEvent env sync) s =
     (if \<not> sbuf_obtain_ok env then (None, s)
      else if sync then
        (case wait_alloc env of None \<Rightarrow> (None, s)
         | Some w \<Rightarrow>
             if write_buffer_ok env \<and> write_string_ok env
             then (Some (Some w), s\<lparr>live_sbufs := live_sbufs s + 1, live_waits := w # live_waits s\<rparr>)
             else (None, s\<lparr>live_waits := w # live_waits s\<rparr>))
      else if write_buffer_ok env \<and> write_string_ok env
      then (Some None, s\<lparr>live_sbufs := live_sbufs s + 1\<rparr>) else (None, s))"
  by (auto simp: PrepareEvent_def HdfKeventWaitAlloc_def HdfSbufRecycle_def split: option.splits)

definition last_ret :: "kevent_env \<Rightarrow> (nat \<times> nat) list \<Rightarrow> hdf_status" where
  "last_ret env cs = (if cs = [] then stack_ret env else send_event env (snd (last cs)))"

lemma run_begin [run_simps]:
  "run_state (SendKevent_begin env sync) s =
     (if client_count s \<le> 0 then (Inl HDF_SUCCESS, s)
      else case run_state (PrepareEvent env sync) s of (p, s') \<Rightarrow>
        (case p of None \<Rightarrow> Inl HDF_FAILURE | Some wait \<Rightarrow> Inr wait, s'))"
  by (simp add: SendKevent_begin_def split: prod.split option.split)

definition new_wait :: "nat \<Rightarrow> HdfKeventModule \<Rightarrow> HdfKeventWait" where
  "new_wait w s = \<lparr>wait_addr = w, waitCount = word_of_int (client_count s), comp_done = 0\<rparr>"

lemma run_locked [run_simps]:
  "run_state (SendKevent_locked env None) s =
     (Inl (last_ret env (client_list s)),
      s\<lparr>sent := sent s @ map (\<lambda>c. (snd c, 0)) (client_list s), live_sbufs := live_sbufs s - 1\<rparr>)"
  "run_state (SendKevent_locked env (Some w)) s =
     (Inr (w, last_ret env (client_list s)),
      s\<lparr>wait_list := wait_list s @ [new_wait w s], sent := sent s @ map (\<lambda>c. (snd c, w)) (client_list s)\<rparr>)"
  by (simp_all add: SendKevent_locked_def run_simps last_ret_def new_wait_def HdfSbufRecycle_def)

lemma run_wait [run_simps]:
  "run_state (wait_for_completion_timeout w ret) s = (if completed w s then ret else HDF_ERR_TIMEOUT, s)"
  by (simp add: wait_for_completion_timeout_def)

lemma run_end [run_simps]:
  "run_state (SendKevent_end w ret) s =
     (ret, s\<lparr>wait_list := filter (\<lambda>x. wait_addr x \<noteq> w) (wait_list s), live_waits := remove1 w (live_waits s),
        live_sbufs := live_sbufs s - 1\<rparr>)"
  by (simp add: SendKevent_end_def HdfKeventWaitFree_def HdfSbufRecycle_def)

lemma run_publish [run_simps]:
  "run_state (HdfKeventDriverOpen_publish (Some k) (Some c)) s =
     (if dev_priv s then (Inr (k, c), s\<lparr>client_priv := (client_priv s)(c \<mapsto> k)\<rparr>)
      else (Inl HDF_ERR_INVALID_PARAM, s))"
  "run_state (HdfKeventDriverOpen_publish ko None) s = (Inl HDF_ERR_INVALID_PARAM, s)"
  "run_state (HdfKeventDriverOpen_publish None (Some c)) s =
     (Inl (if dev_priv s then HDF_ERR_MALLOC_FAIL else HDF_ERR_INVALID_PARAM), s)"
  by (simp_all add: HdfKeventDriverOpen_publish_def)

lemma run_insert [run_simps]:
  "run_state (HdfKeventDriverOpen_insert kc) s =
     (HDF_SUCCESS, s\<lparr>client_list := client_list s @ [kc], client_count := client_count s + 1\<rparr>)"
  by (simp add: HdfKeventDriverOpen_insert_def)

lemma run_close_read [run_simps]:
  "run_state (HdfKeventDriverClose_read c) s =
     (if dev_priv s then map_option (\<lambda>k. (k, c)) (client_priv s c) else None, s)"
  by (simp add: HdfKeventDriverClose_read_def split: option.split)

lemma run_close_remove [run_simps]:
  "run_state (HdfKeventDriverClose_remove kc) s =
     ((), s\<lparr>client_list := filter (\<lambda>x. fst x \<noteq> fst kc) (client_list s),
       client_count := client_count s - 1, client_priv := (client_priv s)(snd kc := None)\<rparr>)"
  by (simp add: HdfKeventDriverClose_remove_def)

lemma run_Open [run_simps]:
  "run_state (HdfKeventDriverOpen (Some k) (Some c)) s =
     (if dev_priv s then (HDF_SUCCESS, s\<lparr>client_priv := (client_priv s)(c \<mapsto> k),
        client_list := client_list s @ [(k, c)], client_count := client_count s + 1\<rparr>)
      else (HDF_ERR_INVALID_PARAM, s))"
  "run_state (HdfKeventDriverOpen ko None) s = (HDF_ERR_INVALID_PARAM, s)"
  "run_state (HdfKeventDriverOpen None (Some c)) s =
     (if dev_priv s then HDF_ERR_MALLOC_FAIL else HDF_ERR_INVALID_PARAM, s)"
  by (simp_all add: HdfKeventDriverOpen_def run_simps)

lemma run_Close [run_simps]:
  "run_state (HdfKeventDriverClose c) s = ((),
     if dev_priv s then
       (case client_priv s c of None \<Rightarrow> s
        | Some k \<Rightarrow> s\<lparr>client_list := filter (\<lambda>x. fst x \<noteq> k) (client_list s),
            client_count := client_count s - 1, client_priv := (client_priv s)(c := None)\<rparr>)
     else s)"
  by (simp add: HdfKeventDriverClose_def run_simps split: option.splits)

lemma run_Complete [run_simps]:
  "run_state (CompleteKevent (Some t)) s = ((), s\<lparr>wait_list := map (ack t) (wait_list s)\<rparr>)"
  "run_state (CompleteKevent None) s = ((), s)"
  by (simp_all add: CompleteKevent_def)

lemma run_Dispatch [run_simps]:
  "run_state (HdfKeventIoServiceDispatch cmd data) s =
     (if dev_priv s then (HDF_SUCCESS, if cmd = KEVENT_COMPLETE_EVENT then after (CompleteKevent data) s else s)
      else (HDF_ERR_INVALID_PARAM, s))"
  by (simp add: HdfKeventIoServiceDispatch_def case_prod_beta)

lemma ack_addr [simp]: "wait_addr (ack t w) = wait_addr w"
  by (simp add: ack_def Let_def)

subsection \<open>Threads\<close>

text \<open>
  The module with the threads inside of its operations: clients that have published their record
  but not inserted it, clients that have read it but not removed it, senders that have prepared
  an event but not the locks, and senders with a wait on the list, each with the value \<open>ret\<close> has
  so far and whether its wait has ended. Any operation may run at any time in between; a client
  is closed when its opening has returned, and not by two threads at once.
\<close>

record kevent_sys =
  kmod :: HdfKeventModule
  in_open :: "(nat \<times> nat) list"
  in_close :: "(nat \<times> nat) list"
  prepared :: "nat option list"
  waiters :: "(nat \<times> hdf_status \<times> bool) list"

inductive kevent_step :: "kevent_sys \<Rightarrow> kevent_sys \<Rightarrow> bool" where
  open_fails: "result (HdfKeventDriverOpen_publish ko c) (kmod s) = Inl r \<Longrightarrow>
    kevent_step s (s\<lparr>kmod := after (HdfKeventDriverOpen_publish ko c) (kmod s)\<rparr>)"
| open_publish: "k \<notin> fst ` set (client_list (kmod s) @ in_open s) \<Longrightarrow>
    result (HdfKeventDriverOpen_publish (Some k) c) (kmod s) = Inr kc \<Longrightarrow>
    kevent_step s (s\<lparr>kmod := after (HdfKeventDriverOpen_publish (Some k) c) (kmod s), in_open := in_open s @ [kc]\<rparr>)"
| open_insert: "kc \<in> set (in_open s) \<Longrightarrow>
    kevent_step s (s\<lparr>kmod := after (HdfKeventDriverOpen_insert kc) (kmod s), in_open := remove1 kc (in_open s)\<rparr>)"
| close_read: "c \<notin> snd ` set (in_open s @ in_close s) \<Longrightarrow>
    result (HdfKeventDriverClose_read c) (kmod s) = Some kc \<Longrightarrow>
    kevent_step s (s\<lparr>in_close := in_close s @ [kc]\<rparr>)"
| close_remove: "kc \<in> set (in_close s) \<Longrightarrow>
    kevent_step s (s\<lparr>kmod := after (HdfKeventDriverClose_remove kc) (kmod s), in_close := remove1 kc (in_close s)\<rparr>)"
| dispatch: "kevent_step s (s\<lparr>kmod := after (HdfKeventIoServiceDispatch cmd t) (kmod s)\<rparr>)"
| send_fails: "wait_alloc env = Some w \<Longrightarrow> w \<notin> set (live_waits (kmod s)) \<Longrightarrow>
    result (SendKevent_begin env sync) (kmod s) = Inl r \<Longrightarrow>
    kevent_step s (s\<lparr>kmod := after (SendKevent_begin env sync) (kmod s)\<rparr>)"
| send_prepares: "wait_alloc env = Some w \<Longrightarrow> w \<notin> set (live_waits (kmod s)) \<Longrightarrow>
    result (SendKevent_begin env sync) (kmod s) = Inr wait \<Longrightarrow>
    kevent_step s (s\<lparr>kmod := after (SendKevent_begin env sync) (kmod s), prepared := prepared s @ [wait]\<rparr>)"
| send_returns: "None \<in> set (prepared s) \<Longrightarrow>
    kevent_step s (s\<lparr>kmod := after (SendKevent_locked env None) (kmod s), prepared := remove1 None (prepared s)\<rparr>)"
| send_waits: "Some w \<in> set (prepared s) \<Longrightarrow>
    result (SendKevent_locked env (Some w)) (kmod s) = Inr (w, r) \<Longrightarrow>
    kevent_step s (s\<lparr>kmod := after (SendKevent_locked env (Some w)) (kmod s),
      prepared := remove1 (Some w) (prepared s), waiters := waiters s @ [(w, r, False)]\<rparr>)"
| send_wakes: "waiters s = xs @ (w, r, False) # ys \<Longrightarrow>
    kevent_step s (s\<lparr>waiters := xs @ (w, result (wait_for_completion_timeout w r) (kmod s), True) # ys\<rparr>)"
| send_ends: "(w, r, True) \<in> set (waiters s) \<Longrightarrow>
    kevent_step s (s\<lparr>kmod := after (SendKevent_end w r) (kmod s), waiters := filter (\<lambda>x. fst x \<noteq> w) (waiters s)\<rparr>)"

inductive_cases kevent_stepE: "kevent_step s s'"

definition kevent_bound :: kevent_sys where
  "kevent_bound = \<lparr>kmod = after (HdfKeventDriverBind True True True True) kevent_unbound,
     in_open = [], in_close = [], prepared = [], waiters = []\<rparr>"

abbreviation kevent_reachable :: "kevent_sys \<Rightarrow> bool" where
  "kevent_reachable \<equiv> kevent_step\<^sup>*\<^sup>* kevent_bound"

definition clients_inv :: "kevent_sys \<Rightarrow> bool" where
  "clients_inv s \<longleftrightarrow> client_count (kmod s) = int (length (client_list (kmod s))) \<and>
     distinct (map fst (client_list (kmod s) @ in_open s)) \<and>
     (\<forall>c k. client_priv (kmod s) c = Some k \<longrightarrow> (k, c) \<in> set (client_list (kmod s) @ in_open s)) \<and>
     set (in_close s) \<subseteq> set (client_list (kmod s)) \<and> distinct (in_close s)"

text \<open>The waits of the senders that do not have the locks yet.\<close>

definition prepared_waits :: "kevent_sys \<Rightarrow> nat list" where
  "prepared_waits s = List.map_filter id (prepared s)"

definition waits_inv :: "kevent_sys \<Rightarrow> bool" where
  "waits_inv s \<longleftrightarrow> map wait_addr (wait_list (kmod s)) = map fst (waiters s) \<and>
     distinct (map fst (waiters s) @ prepared_waits s) \<and>
     set (map fst (waiters s) @ prepared_waits s) \<subseteq> set (live_waits (kmod s)) \<and>
     distinct (live_waits (kmod s)) \<and> live_sbufs (kmod s) = length (waiters s) + length (prepared s)"

lemma length_filter_key:
  assumes "distinct (map fst xs)" and "(k, c) \<in> set xs"
  shows "length (filter (\<lambda>x. fst x \<noteq> k) xs) + 1 = length xs"
  using assms
proof (induction xs)
  case (Cons x xs)
  show ?case
  proof (cases "fst x = k")
    case True
    with Cons.prems have "k \<notin> fst ` set xs" by auto
    then have "filter (\<lambda>y. fst y \<noteq> k) xs = xs" by (intro filter_True) force
    with True show ?thesis by simp
  next
    case False
    with Cons show ?thesis by auto
  qed
qed simp

lemma clients_inv_cong:
  "clients_inv s \<Longrightarrow> client_count (kmod s') = client_count (kmod s) \<Longrightarrow> client_list (kmod s') = client_list (kmod s) \<Longrightarrow>
   client_priv (kmod s') = client_priv (kmod s) \<Longrightarrow> in_open s' = in_open s \<Longrightarrow> in_close s' = in_close s \<Longrightarrow> clients_inv s'"
  by (simp add: clients_inv_def)

lemma set_remove1_key:
  assumes "distinct (map fst xs)" and "x \<in> set xs"
  shows "set (remove1 x xs) = set xs - {x}"
  using assms by (simp add: distinct_map set_remove1_eq)

lemma clients_inv_publish:
  assumes "clients_inv s" and "k \<notin> fst ` set (client_list (kmod s) @ in_open s)"
    and "result (HdfKeventDriverOpen_publish (Some k) c) (kmod s) = Inr kc"
  shows "clients_inv (s\<lparr>kmod := after (HdfKeventDriverOpen_publish (Some k) c) (kmod s), in_open := in_open s @ [kc]\<rparr>)"
proof -
  have "(k, b) \<notin> set (client_list (kmod s))" "(k, b) \<notin> set (in_open s)" for b
    using assms(2) by force+
  then show ?thesis using assms by (cases c) (auto simp: run_simps clients_inv_def split: if_splits)
qed

lemma distinct_map_remove1_key: "distinct (map fst xs) \<Longrightarrow> distinct (map fst (remove1 x xs))"
proof (induction xs)
  case (Cons a xs)
  then show ?case using set_remove1_subset [of x xs] by (auto 0 4)
qed simp

lemma clients_inv_insert:
  assumes "clients_inv s" and "kc \<in> set (in_open s)"
  shows "clients_inv (s\<lparr>kmod := after (HdfKeventDriverOpen_insert kc) (kmod s), in_open := remove1 kc (in_open s)\<rparr>)"
proof -
  let ?l = "client_list (kmod s)"
  have d: "distinct (map fst ?l)" "distinct (map fst (in_open s))"
      and disj: "fst ` set ?l \<inter> fst ` set (in_open s) = {}"
    using assms(1) by (auto simp: clients_inv_def)
  have r: "set (remove1 kc (in_open s)) = set (in_open s) - {kc}" using set_remove1_key [OF d(2) assms(2)] .
  have "fst kc \<notin> fst ` (set (in_open s) - {kc})"
    using d(2) assms(2) by (auto simp: distinct_map inj_on_def)
  then have "distinct (map fst ((?l @ [kc]) @ remove1 kc (in_open s)))"
    using d disj assms(2) distinct_map_remove1_key [OF d(2)] r by auto
  moreover have "set ((?l @ [kc]) @ remove1 kc (in_open s)) = set (?l @ in_open s)"
    using r assms(2) by auto
  ultimately show ?thesis using assms(1) unfolding clients_inv_def by (auto simp: run_simps)
qed

lemma clients_inv_read:
  assumes "clients_inv s" and "c \<notin> snd ` set (in_open s @ in_close s)"
    and "result (HdfKeventDriverClose_read c) (kmod s) = Some kc"
  shows "clients_inv (s\<lparr>in_close := in_close s @ [kc]\<rparr>)"
proof -
  obtain k where k: "client_priv (kmod s) c = Some k" "kc = (k, c)"
    using assms(3) by (auto simp: run_simps split: if_splits)
  then have "(k, c) \<in> set (client_list (kmod s)) - set (in_close s)"
    using assms(1,2) by (force simp: clients_inv_def)
  then show ?thesis using assms(1) k by (auto simp: clients_inv_def)
qed

lemma clients_inv_remove:
  assumes "clients_inv s" and "kc \<in> set (in_close s)"
  shows "clients_inv (s\<lparr>kmod := after (HdfKeventDriverClose_remove kc) (kmod s), in_close := remove1 kc (in_close s)\<rparr>)"
proof -
  let ?l = "client_list (kmod s)" and ?l' = "filter (\<lambda>x. fst x \<noteq> fst kc) (client_list (kmod s))"
  have mem: "kc \<in> set ?l" and d: "distinct (map fst ?l)" and dc: "distinct (in_close s)"
      and sub: "set (in_close s) \<subseteq> set ?l"
    using assms by (auto simp: clients_inv_def)
  have key: "x = kc" if "x \<in> set ?l" "fst x = fst kc" for x
    using that mem d by (auto simp: distinct_map inj_on_def)
  have len: "int (length ?l') = int (length ?l) - 1"
    using length_filter_key [OF d, of "fst kc" "snd kc"] mem by simp
  have "set (remove1 kc (in_close s)) \<subseteq> set ?l'"
    using sub key dc by (auto simp: set_remove1_eq)
  moreover have "distinct (map fst (?l' @ in_open s))"
    using assms(1) by (auto simp: clients_inv_def distinct_map_filter)
  moreover have "(k, c) \<in> set (?l' @ in_open s)"
    if "client_priv (kmod s) c = Some k" "c \<noteq> snd kc" for c k
    using that assms(1) key [of "(k, c)"] by (cases kc) (auto simp: clients_inv_def)
  ultimately show ?thesis
    using assms(1) len dc unfolding clients_inv_def by (auto simp: run_simps)
qed

lemma begin_clients [simp]:
  "client_count (after (SendKevent_begin env sync) m) = client_count m"
  "client_list (after (SendKevent_begin env sync) m) = client_list m"
  "client_priv (after (SendKevent_begin env sync) m) = client_priv m"
  by (simp_all add: run_simps split: option.split)

lemma locked_clients [simp]:
  "client_count (after (SendKevent_locked env wait) m) = client_count m"
  "client_list (after (SendKevent_locked env wait) m) = client_list m"
  "client_priv (after (SendKevent_locked env wait) m) = client_priv m"
  by (cases wait; simp add: run_simps)+

lemma publish_fails: "result (HdfKeventDriverOpen_publish ko c) m = Inl r \<Longrightarrow> after (HdfKeventDriverOpen_publish ko c) m = m"
  by (cases ko; cases c) (auto simp: run_simps split: if_splits)

lemma clients_inv_step: "kevent_step s s' \<Longrightarrow> clients_inv s \<Longrightarrow> clients_inv s'"
proof (induction rule: kevent_step.induct)
  case (open_fails ko c s r)
  then show ?case by (simp add: publish_fails)
next
  case (open_publish k s c kc)
  then show ?case by (intro clients_inv_publish)
next
  case (open_insert kc s)
  then show ?case by (intro clients_inv_insert)
next
  case (close_read c s kc)
  then show ?case by (intro clients_inv_read)
next
  case (close_remove kc s)
  then show ?case by (intro clients_inv_remove)
next
  case (dispatch s cmd t)
  then show ?case by (cases t) (auto simp: run_simps clients_inv_def)
next
  case (send_ends w r s)
  then show ?case by (auto simp: run_simps intro: clients_inv_cong)
qed (auto intro: clients_inv_cong)

lemma map_filter_key: "map fst (filter (\<lambda>x. fst x \<noteq> w) xs) = filter (\<lambda>a. a \<noteq> w) (map fst xs)"
  by (induction xs) auto

lemma map_filter_addr:
  "map wait_addr (filter (\<lambda>x. wait_addr x \<noteq> w) xs) = filter (\<lambda>a. a \<noteq> w) (map wait_addr xs)"
  by (induction xs) auto

lemma prepared_remove_none: "List.map_filter id (remove1 None xs) = List.map_filter id xs"
  by (induction xs) (auto simp: map_filter_simps split: option.splits)

lemma prepared_remove_some: "List.map_filter id (remove1 (Some w) xs) = remove1 w (List.map_filter id xs)"
  by (induction xs) (auto simp: map_filter_simps split: option.splits)

lemma prepared_append: "List.map_filter id (xs @ [x]) = List.map_filter id xs @ (case x of None \<Rightarrow> [] | Some w \<Rightarrow> [w])"
  by (induction xs) (auto simp: map_filter_simps split: option.splits)

lemma prepared_mem: "w \<in> set (List.map_filter id xs) \<longleftrightarrow> Some w \<in> set xs"
  by (induction xs) (auto simp: map_filter_simps split: option.splits)

lemmas prepared_simps = prepared_remove_none prepared_remove_some prepared_append prepared_mem

lemma length_remove1_mem: "x \<in> set xs \<Longrightarrow> int (length (remove1 x xs)) = int (length xs) - 1"
  by (cases xs) (auto simp: length_remove1 of_nat_diff dest: length_pos_if_in_set)

lemma waits_inv_ends:
  assumes "waits_inv s" and "(w, r) \<in> set (waiters s)"
  shows "waits_inv (s\<lparr>kmod := after (SendKevent_end w q) (kmod s), waiters := filter (\<lambda>x. fst x \<noteq> w) (waiters s)\<rparr>)"
proof -
  have d: "distinct (map fst (waiters s))" using assms(1) by (simp add: waits_inv_def)
  have "length (filter (\<lambda>x. fst x \<noteq> w) (waiters s)) = length (waiters s) - 1" "length (waiters s) > 0"
    using length_filter_key [OF d assms(2)] by linarith+
  moreover have "distinct (map fst (filter (\<lambda>x. fst x \<noteq> w) (waiters s)))"
    using d by (simp add: distinct_map_filter)
  moreover have "w \<notin> set (prepared_waits s)"
    using assms by (force simp: waits_inv_def)
  ultimately show ?thesis
    using assms(1) unfolding waits_inv_def prepared_waits_def
    by (auto simp: run_simps map_filter_addr map_filter_key set_remove1_eq Suc_le_eq)
qed

lemma begin_prepares:
  assumes "result (SendKevent_begin env sync) m = Inr wait" and "wait_alloc env = Some w"
  shows "wait = (if sync then Some w else None)"
    and "after (SendKevent_begin env sync) m =
      m\<lparr>live_sbufs := live_sbufs m + 1, live_waits := (if sync then [w] else []) @ live_waits m\<rparr>"
  using assms by (auto simp: run_simps split: if_splits)

lemma begin_fails:
  assumes "result (SendKevent_begin env sync) m = Inl r" and "wait_alloc env = Some w"
  shows "after (SendKevent_begin env sync) m \<in> {m, m\<lparr>live_waits := w # live_waits m\<rparr>}"
  using assms by (auto simp: run_simps split: if_splits)

lemma waits_inv_step: "kevent_step s s' \<Longrightarrow> waits_inv s \<Longrightarrow> waits_inv s'"
proof (induction rule: kevent_step.induct)
  case (open_fails ko c s r)
  then show ?case by (simp add: publish_fails)
next
  case (open_publish k s c kc)
  then show ?case by (cases c) (auto simp: run_simps waits_inv_def prepared_waits_def)
next
  case (open_insert kc s)
  then show ?case by (auto simp: run_simps waits_inv_def prepared_waits_def)
next
  case (close_read c s kc)
  then show ?case by (auto simp: waits_inv_def prepared_waits_def)
next
  case (close_remove kc s)
  then show ?case by (auto simp: run_simps waits_inv_def prepared_waits_def)
next
  case (dispatch s cmd t)
  then show ?case by (cases t) (auto simp: run_simps waits_inv_def comp_def prepared_waits_def)
next
  case (send_fails env w s sync r)
  then show ?case using begin_fails [OF send_fails.hyps(3,1)]
    by (auto simp: waits_inv_def prepared_waits_def)
next
  case (send_prepares env w s sync wait)
  then show ?case using begin_prepares [OF send_prepares.hyps(3,1)]
    by (auto simp: waits_inv_def prepared_waits_def prepared_simps)
next
  case (send_returns s env)
  then have "int (length (remove1 None (prepared s))) = int (length (prepared s)) - 1" and "prepared s \<noteq> []"
    by (auto intro: length_remove1_mem)
  then show ?case using send_returns
    by (auto simp: run_simps waits_inv_def prepared_waits_def prepared_simps)
next
  case (send_waits w s env r)
  then have "int (length (remove1 (Some w) (prepared s))) = int (length (prepared s)) - 1" and "prepared s \<noteq> []"
    by (auto intro: length_remove1_mem)
  then show ?case using send_waits
    by (auto simp: run_simps waits_inv_def prepared_waits_def prepared_simps new_wait_def set_remove1_eq)
next
  case (send_wakes s xs w r ys)
  then show ?case by (auto simp: waits_inv_def prepared_waits_def)
next
  case (send_ends w r s)
  then show ?case by (intro waits_inv_ends)
qed

lemma kevent_inv_bound: "clients_inv kevent_bound" "waits_inv kevent_bound"
  by (simp_all add: kevent_bound_def HdfKeventDriverBind_def kevent_unbound_def clients_inv_def waits_inv_def
      prepared_waits_def map_filter_simps)

lemma kevent_inv_reachable:
  assumes "kevent_reachable s"
  shows "clients_inv s" and "waits_inv s"
  using assms by (induction rule: rtranclp_induct)
    (auto intro: kevent_inv_bound clients_inv_step waits_inv_step)

subsection \<open>Acknowledgements\<close>

lemma ack_times:
  assumes "wait_addr w = t" and "k \<le> unat (waitCount w)"
  shows "(ack t ^^ k) w = w\<lparr>waitCount := waitCount w - of_nat k,
    comp_done := comp_done w + (if k = unat (waitCount w) \<and> 0 < k then 1 else 0)\<rparr>"
  using assms(2)
proof (induction k)
  case (Suc k)
  let ?n = "waitCount w"
  have IH: "(ack t ^^ k) w = w\<lparr>waitCount := ?n - of_nat k\<rparr>"
    using Suc by (simp add: Suc_le_eq)
  have "?n - of_nat (Suc k) = 0 \<longleftrightarrow> Suc k = unat ?n"
  proof
    assume "?n - of_nat (Suc k) = 0"
    then have "?n = of_nat (Suc k)" by simp
    moreover have "Suc k < 2 ^ 32" using Suc.prems unat_lt_32 [of ?n] by simp
    ultimately show "Suc k = unat ?n"
      by (simp only: unsigned_of_nat) (simp add: take_bit_nat_eq_self)
  next
    assume "Suc k = unat ?n"
    then have "of_nat (Suc k) = ?n" by (simp only: of_nat_unat ucast_id)
    then show "?n - of_nat (Suc k) = 0" by (simp del: of_nat_Suc)
  qed
  moreover have "(ack t ^^ Suc k) w = ack t (w\<lparr>waitCount := ?n - of_nat k\<rparr>)" using IH by simp
  ultimately show ?case using assms(1)
    by (simp only:) (simp add: ack_def Let_def diff_diff_eq algebra_simps)
qed simp

lemma comp_done_ack: "comp_done x \<le> comp_done ((ack t ^^ k) x)"
proof (induction k)
  case (Suc k)
  have "comp_done ((ack t ^^ k) x) \<le> comp_done (ack t ((ack t ^^ k) x))" by (simp add: ack_def Let_def)
  with Suc show ?case by simp
qed simp

text \<open>A wait is completed by as many acknowledgements as it counts, and stays so.\<close>

lemma acks_complete:
  assumes "wait_addr x = t" and "comp_done x = 0" and "waitCount x \<noteq> 0"
  shows "comp_done ((ack t ^^ m) x) > 0 \<longleftrightarrow> unat (waitCount x) \<le> m"
proof (cases "m \<le> unat (waitCount x)")
  case True
  then show ?thesis using assms ack_times [OF assms(1) True] by (auto simp: unat_eq_zero)
next
  case False
  let ?n = "unat (waitCount x)"
  have "0 < ?n" using assms(3) by (simp add: unat_gt_0)
  then have "comp_done ((ack t ^^ ?n) x) > 0" using ack_times [OF assms(1), of ?n] by simp
  moreover have "(ack t ^^ m) x = (ack t ^^ (m - ?n)) ((ack t ^^ ?n) x)"
    using False by (simp flip: funpow_add [unfolded comp_def, THEN fun_cong])
  ultimately have "comp_done ((ack t ^^ m) x) > 0"
    using comp_done_ack [of "(ack t ^^ ?n) x" "m - ?n" t] by simp
  with False show ?thesis by simp
qed

text \<open>A wait that counts no client is not completed by acknowledgements.\<close>

lemma acks_never_complete:
  assumes "wait_addr x = t" and "comp_done x = 0" and "waitCount x = 0" and "m < 4294967296"
  shows "comp_done ((ack t ^^ m) x) = 0"
proof (cases m)
  case (Suc k)
  let ?y = "x\<lparr>waitCount := - 1\<rparr>"
  have "ack t x = ?y" using assms(1,3) by (simp add: ack_def Let_def)
  then have "(ack t ^^ m) x = (ack t ^^ k) ?y" using Suc by (simp add: funpow_swap1)
  moreover have "unat (- 1 :: u32) = 4294967295" by (simp add: unsigned_minus_1_eq_mask mask_eq_exp_minus_1)
  ultimately show ?thesis using ack_times [of ?y t k] assms Suc by simp
qed (use assms in simp)

text \<open>
  What clients do in the meantime: acknowledge the token, of which the driver does not learn
  who did it, open the device and close it.
\<close>

datatype client_event = Acknowledges nat | Opens nat nat | Closes nat

fun is_ack :: "client_event \<Rightarrow> bool" where
  "is_ack (Acknowledges c) = True"
| "is_ack _ = False"

fun happens :: "nat \<Rightarrow> client_event \<Rightarrow> HdfKeventModule \<Rightarrow> HdfKeventModule" where
  "happens w (Acknowledges c) = after (HdfKeventIoServiceDispatch KEVENT_COMPLETE_EVENT (Some w))"
| "happens w (Opens k c) = after (HdfKeventDriverOpen (Some k) (Some c))"
| "happens w (Closes c) = after (HdfKeventDriverClose c)"

definition during :: "client_event list \<Rightarrow> nat \<Rightarrow> HdfKeventModule \<Rightarrow> HdfKeventModule" where
  "during es w = fold (happens w) es"

lemma happens_keeps:
  "dev_priv (happens w e s) = dev_priv s" "live_waits (happens w e s) = live_waits s"
  "live_sbufs (happens w e s) = live_sbufs s" "sent (happens w e s) = sent s"
  by (cases e; simp add: run_simps split: option.split)+

lemma happens_wait_list:
  "dev_priv s \<Longrightarrow> wait_list (happens w e s) = (if is_ack e then map (ack w) (wait_list s) else wait_list s)"
  by (cases e) (simp_all add: run_simps split: option.split)

lemma during_keeps:
  "dev_priv (during es w s) = dev_priv s" "live_waits (during es w s) = live_waits s"
  "live_sbufs (during es w s) = live_sbufs s" "sent (during es w s) = sent s"
  unfolding during_def by (induction es arbitrary: s) (simp_all add: happens_keeps)

lemma during_wait_list:
  "dev_priv s \<Longrightarrow> wait_list (during es w s) = map (ack w ^^ length (filter is_ack es)) (wait_list s)"
  unfolding during_def
proof (induction es arbitrary: s)
  case (Cons e es)
  then show ?case
    by (simp add: happens_keeps happens_wait_list comp_def funpow_swap1 del: funpow.simps(2))
      (simp add: funpow_swap1)
qed simp

definition same_clients :: "HdfKeventModule \<Rightarrow> HdfKeventModule \<Rightarrow> bool" where
  "same_clients s t \<longleftrightarrow> client_list s = client_list t \<and> client_count s = client_count t \<and>
     client_priv s = client_priv t \<and> dev_priv s = dev_priv t"

lemma happens_clients: "same_clients s t \<Longrightarrow> same_clients (happens w e s) (happens w e t)"
  by (cases e) (auto simp: run_simps same_clients_def split: option.split)

lemma during_clients: "same_clients s t \<Longrightarrow> same_clients (during es w s) (during es w t)"
  unfolding during_def by (induction es arbitrary: s t) (simp_all add: happens_clients)

lemma acks_elsewhere:
  assumes "w \<notin> set (map wait_addr xs)"
  shows "map (ack w ^^ m) xs = xs"
proof (rule map_idI)
  fix x assume "x \<in> set xs"
  then have "ack w x = x" using assms by (auto simp: ack_def)
  then show "(ack w ^^ m) x = x" by (induction m) simp_all
qed

lemma ack_addr_times [simp]: "wait_addr ((ack w ^^ m) x) = wait_addr x"
  by (induction m) simp_all

definition meanwhile :: "client_event list \<Rightarrow> client_event list \<Rightarrow> client_event list \<Rightarrow> kevent_others" where
  "meanwhile bs es ls = \<lparr>before_lock = \<lambda>w. case w of None \<Rightarrow> during bs 0 | Some w \<Rightarrow> during bs w,
     while_waiting = during es, before_relock = during ls\<rparr>"

text \<open>The whole of a synchronous event: what matters is whether its wait was completed in time.\<close>

lemma run_synchronous:
  assumes run: "client_count s > 0" "dev_priv s"
    and env: "sbuf_obtain_ok env" "write_buffer_ok env" "write_string_ok env" "wait_alloc env = Some w"
    and fresh: "w \<notin> set (map wait_addr (wait_list s))"
    and t: "t = during bs w s" and ss: "ss = after (SendKevent env (meanwhile bs es ls) True) s"
  shows "result (SendKevent env (meanwhile bs es ls) True) s =
      (if comp_done ((ack w ^^ length (filter is_ack es)) (new_wait w t)) > 0 then last_ret env (client_list t)
       else HDF_ERR_TIMEOUT)"
    and "wait_list ss = wait_list s" and "live_waits ss = live_waits s" and "live_sbufs ss = live_sbufs s"
    and "sent ss = sent s @ map (\<lambda>c. (snd c, w)) (client_list t)"
proof -
  let ?x = "new_wait w t" and ?m = "length (filter is_ack es)"
  let ?p = "s\<lparr>live_sbufs := live_sbufs s + 1, live_waits := w # live_waits s\<rparr>"
  let ?q = "during bs w ?p"
  let ?r = "?q\<lparr>wait_list := wait_list s @ [?x], sent := sent s @ map (\<lambda>c. (snd c, w)) (client_list t)\<rparr>"
  let ?u = "during es w ?r"
  let ?v = "during ls w ?u"
  have "same_clients ?q t" unfolding t by (rule during_clients) (simp add: same_clients_def)
  then have q: "client_list ?q = client_list t" "new_wait w ?q = ?x" by (simp_all add: same_clients_def new_wait_def)
  have qw: "wait_list ?q = wait_list s"
    using during_wait_list [of ?p bs w] run(2) acks_elsewhere [OF fresh] by simp
  have u: "wait_list ?u = wait_list s @ [(ack w ^^ ?m) ?x]"
    using during_wait_list [of ?r es w] run(2) acks_elsewhere [OF fresh] by (simp add: during_keeps)
  have v: "filter (\<lambda>x. wait_addr x \<noteq> w) (wait_list ?v) = wait_list s"
  proof -
    have "wait_list ?v = wait_list s @ [(ack w ^^ length (filter is_ack ls)) ((ack w ^^ ?m) ?x)]"
      using during_wait_list [of ?u ls w] run(2) acks_elsewhere [OF fresh] u by (simp add: during_keeps)
    then show ?thesis using fresh by (auto simp: new_wait_def intro!: filter_True)
  qed
  have c: "completed w ?u \<longleftrightarrow> comp_done ((ack w ^^ ?m) ?x) > 0"
    using fresh unfolding completed_def u by (auto simp: new_wait_def list_ex_iff)
  have b: "run_state (SendKevent_begin env True) s = (Inr (Some w), ?p)"
    using run(1) env by (simp add: run_simps)
  have l: "run_state (SendKevent_locked env (Some w)) ?q = (Inr (w, last_ret env (client_list t)), ?r)"
    using q qw by (simp add: run_simps during_keeps)
  have "run_state (SendKevent env (meanwhile bs es ls) True) s =
      (if comp_done ((ack w ^^ ?m) ?x) > 0 then last_ret env (client_list t) else HDF_ERR_TIMEOUT,
       ?v\<lparr>wait_list := wait_list s, live_waits := remove1 w (live_waits ?v), live_sbufs := live_sbufs ?v - 1\<rparr>)"
    using b l c v by (simp add: SendKevent_def meanwhile_def run_wait run_end)
  then show "result (SendKevent env (meanwhile bs es ls) True) s =
      (if comp_done ((ack w ^^ length (filter is_ack es)) (new_wait w t)) > 0 then last_ret env (client_list t)
       else HDF_ERR_TIMEOUT)"
    and "wait_list ss = wait_list s" and "live_waits ss = live_waits s" and "live_sbufs ss = live_sbufs s"
    and "sent ss = sent s @ map (\<lambda>c. (snd c, w)) (client_list t)"
    unfolding ss by (simp_all add: during_keeps)
qed

end
