(* ===== verification/Kevent_Properties.thy ===== *)
theory Kevent_Properties
  imports Kevent
begin

section \<open>Kernel events: the properties\<close>

text \<open>
  C22. Under every interleaving of opens, closes, acknowledgements and event senders, the client
  count is the length of the client list, every wait on the list is allocated and belongs to
  exactly one sender that waits or is about to take its wait off the list, and every live event
  buffer belongs to a sender that has not returned.
\<close>

theorem kevent_interleavings_safe:
  assumes "kevent_reachable s"
  shows "client_count (kmod s) = int (length (client_list (kmod s))) \<and>
    map wait_addr (wait_list (kmod s)) = map fst (waiters s) \<and> distinct (map fst (waiters s)) \<and>
    set (map wait_addr (wait_list (kmod s))) \<subseteq> set (live_waits (kmod s)) \<and>
    live_sbufs (kmod s) = length (waiters s) + length (prepared s)"
  using kevent_inv_reachable [OF assms] by (simp add: clients_inv_def waits_inv_def)

definition with_clients :: "(nat \<times> nat) list \<Rightarrow> HdfKeventModule" where
  "with_clients cs = fold (\<lambda>kc. after (HdfKeventDriverOpen (Some (fst kc)) (Some (snd kc)))) cs (kmod kevent_bound)"

lemma bound_simps:
  "client_count (kmod kevent_bound) = 0" "client_list (kmod kevent_bound) = []" "dev_priv (kmod kevent_bound)"
  "wait_list (kmod kevent_bound) = []" "live_waits (kmod kevent_bound) = []" "sent (kmod kevent_bound) = []"
  "client_priv (kmod kevent_bound) = (\<lambda>_. None)" "live_sbufs (kmod kevent_bound) = 0"
  "in_open kevent_bound = []" "in_close kevent_bound = []" "prepared kevent_bound = []" "waiters kevent_bound = []"
  by (simp_all add: kevent_bound_def HdfKeventDriverBind_def kevent_unbound_def)

text \<open>One client has opened the device and a second one has only published its record.\<close>

definition two_opening :: kevent_sys where
  "two_opening = kevent_bound\<lparr>kmod := after (HdfKeventDriverOpen_publish (Some 8) (Some 4)) (with_clients [(7, 3)]),
     in_open := [(8, 4)]\<rparr>"

lemma two_opening_reachable: "kevent_reachable two_opening"
proof -
  let ?a = "kevent_bound\<lparr>kmod := after (HdfKeventDriverOpen_publish (Some 7) (Some 3)) (kmod kevent_bound),
    in_open := in_open kevent_bound @ [(7, 3)]\<rparr>"
  let ?b = "?a\<lparr>kmod := after (HdfKeventDriverOpen_insert (7, 3)) (kmod ?a), in_open := remove1 (7, 3) (in_open ?a)\<rparr>"
  let ?c = "?b\<lparr>kmod := after (HdfKeventDriverOpen_publish (Some 8) (Some 4)) (kmod ?b), in_open := in_open ?b @ [(8, 4)]\<rparr>"
  have "kevent_step kevent_bound ?a" by (rule kevent_step.open_publish) (simp_all add: bound_simps run_simps)
  moreover have "kevent_step ?a ?b" by (rule kevent_step.open_insert) simp
  moreover have "kevent_step ?b ?c" by (rule kevent_step.open_publish) (simp_all add: bound_simps run_simps)
  ultimately have "kevent_reachable ?c"
    by (intro rtranclp.rtrancl_into_rtrancl [of kevent_step kevent_bound ?b ?c]
        rtranclp.rtrancl_into_rtrancl [of kevent_step kevent_bound ?a ?b] r_into_rtranclp)
  moreover have "?c = two_opening" by (simp add: two_opening_def with_clients_def bound_simps run_simps)
  ultimately show ?thesis by simp
qed

lemma kevent_interleavings_safe_witness:
  "client_count (kmod two_opening) = int (length (client_list (kmod two_opening)))"
  using kevent_interleavings_safe [OF two_opening_reachable] by simp

text \<open>
  C23. A synchronous event that is sent to \<open>n\<close> clients, those that are open when the sender has
  the locks, returns in time exactly if its token is acknowledged at least \<open>n\<close> times before the
  wait ends, and what it returns then is the send result of the last client; otherwise it
  returns \<open>HDF_ERR_TIMEOUT\<close>. It does not matter who acknowledges: one client may do it for all,
  and a client that closes without doing it is still waited for. Acknowledgements before the
  event is sent and after the wait has ended do not count. In every case the event goes to each
  of the clients with the token, and the wait is off the list and freed afterwards.
\<close>

theorem synchronous_event_counts_acknowledgements:
  assumes run: "client_count s > 0" "dev_priv s"
    and env: "sbuf_obtain_ok env" "write_buffer_ok env" "write_string_ok env" "wait_alloc env = Some w"
    and fresh: "w \<notin> set (map wait_addr (wait_list s))"
    and t: "t = during bs w s"
    and clients: "client_count t = int (length (client_list t))" "client_list t \<noteq> []"
      "length (client_list t) < 4294967296"
  shows "result (SendKevent env (meanwhile bs es ls) True) s =
      (if length (client_list t) \<le> length (filter is_ack es) then send_event env (snd (last (client_list t)))
       else HDF_ERR_TIMEOUT) \<and>
    wait_list (after (SendKevent env (meanwhile bs es ls) True) s) = wait_list s \<and>
    live_waits (after (SendKevent env (meanwhile bs es ls) True) s) = live_waits s \<and>
    sent (after (SendKevent env (meanwhile bs es ls) True) s) = sent s @ map (\<lambda>c. (snd c, w)) (client_list t)"
proof -
  have n: "unat (waitCount (new_wait w t)) = length (client_list t)"
    using clients(1,3) by (simp add: new_wait_def unsigned_of_nat take_bit_nat_eq_self)
  then have "waitCount (new_wait w t) \<noteq> 0" using clients(2) by auto
  then have "comp_done ((ack w ^^ m) (new_wait w t)) > 0 \<longleftrightarrow> length (client_list t) \<le> m" for m
    using acks_complete [of "new_wait w t" w m] n by (simp add: new_wait_def)
  then show ?thesis
    using run_synchronous [OF run env fresh t refl, of es ls] clients(2) by (simp add: last_ret_def)
qed

definition good_sends :: kevent_env where
  "good_sends = \<lparr>sbuf_obtain_ok = True, wait_alloc = Some 9, write_buffer_ok = True, write_string_ok = True,
     send_event = \<lambda>c. HDF_SUCCESS, stack_ret = HDF_FAILURE\<rparr>"

lemma with_clients_simps:
  "client_count (with_clients [(7, 3)]) = 1" "client_list (with_clients [(7, 3)]) = [(7, 3)]"
  "dev_priv (with_clients [(7, 3)])" "wait_list (with_clients [(7, 3)]) = []"
  "live_waits (with_clients [(7, 3)]) = []" "sent (with_clients [(7, 3)]) = []"
  "client_priv (with_clients [(7, 3)]) = [3 \<mapsto> 7]"
  "live_sbufs (with_clients [(7, 3)]) = 0"
  by (simp_all add: with_clients_def bound_simps run_simps)

text \<open>The second client opens before the event is sent; the first one acknowledges it twice, or once and closes.\<close>

lemma synchronous_event_counts_acknowledgements_witness:
  "result (SendKevent good_sends (meanwhile [Opens 8 4] [Acknowledges 3, Acknowledges 3] []) True)
     (with_clients [(7, 3)]) = HDF_SUCCESS \<and>
   result (SendKevent good_sends (meanwhile [Opens 8 4] [Acknowledges 3, Closes 4] [Acknowledges 3]) True)
     (with_clients [(7, 3)]) = HDF_ERR_TIMEOUT"
  using synchronous_event_counts_acknowledgements
      [of "with_clients [(7, 3)]" good_sends 9 _ "[Opens 8 4]" "[Acknowledges 3, Acknowledges 3]" "[]"]
    synchronous_event_counts_acknowledgements
      [of "with_clients [(7, 3)]" good_sends 9 _ "[Opens 8 4]" "[Acknowledges 3, Closes 4]" "[Acknowledges 3]"]
  by (simp add: with_clients_simps good_sends_def during_def run_simps)

text \<open>
  \<open>clientCount\<close> is tested before the locks are taken. When all clients close in between, an
  asynchronous event returns whatever its uninitialised \<open>ret\<close> holds, and a synchronous one
  waits for an acknowledgement that cannot complete it: it returns \<open>HDF_ERR_TIMEOUT\<close> after any
  number of them below \<open>2 ^ 32\<close>.
\<close>

theorem emptied_list_not_noticed:
  assumes run: "client_count s > 0" "dev_priv s"
    and env: "sbuf_obtain_ok env" "write_buffer_ok env" "write_string_ok env" "wait_alloc env = Some w"
    and fresh: "w \<notin> set (map wait_addr (wait_list s))"
    and bs: "client_list (during bs 0 s) = []" "client_list (during bs w s) = []" "client_count (during bs w s) = 0"
    and es: "length (filter is_ack es) < 4294967296"
  shows "result (SendKevent env (meanwhile bs es ls) False) s = stack_ret env \<and>
    result (SendKevent env (meanwhile bs es ls) True) s = HDF_ERR_TIMEOUT"
proof
  have "same_clients (during bs 0 (s\<lparr>live_sbufs := live_sbufs s + 1\<rparr>)) (during bs 0 s)"
    by (rule during_clients) (simp add: same_clients_def)
  then show "result (SendKevent env (meanwhile bs es ls) False) s = stack_ret env"
    using run env bs(1) by (simp add: SendKevent_def run_simps meanwhile_def same_clients_def last_ret_def)
  have "comp_done ((ack w ^^ length (filter is_ack es)) (new_wait w (during bs w s))) = 0"
    using bs(3) es by (intro acks_never_complete) (simp_all add: new_wait_def)
  then show "result (SendKevent env (meanwhile bs es ls) True) s = HDF_ERR_TIMEOUT"
    using run_synchronous(1) [OF run env fresh refl refl, of bs es ls] by simp
qed

lemma emptied_list_not_noticed_witness:
  "result (SendKevent good_sends (meanwhile [Closes 3] [] []) False) (with_clients [(7, 3)]) = HDF_FAILURE \<and>
   result (SendKevent good_sends (meanwhile [Closes 3] [Acknowledges 3] []) True) (with_clients [(7, 3)]) = HDF_ERR_TIMEOUT"
  using emptied_list_not_noticed [of "with_clients [(7, 3)]" good_sends 9 "[Closes 3]" "[]" "[]"]
    emptied_list_not_noticed [of "with_clients [(7, 3)]" good_sends 9 "[Closes 3]" "[Acknowledges 3]" "[]"]
  by (simp add: with_clients_simps good_sends_def during_def run_simps)

text \<open>
  When a synchronous event cannot be written into its buffer, sending fails and the wait
  that was allocated for it is never freed: no blocked sender owns it.
\<close>

theorem failed_event_leaks_wait:
  assumes "client_count s > 0" and "sbuf_obtain_ok env" and "wait_alloc env = Some w"
    and "\<not> write_buffer_ok env \<or> \<not> write_string_ok env"
  shows "run_state (SendKevent env others True) s = (HDF_FAILURE, s\<lparr>live_waits := w # live_waits s\<rparr>)"
  using assms by (auto simp: SendKevent_def run_simps)

lemma failed_event_leaks_wait_witness:
  "run_state (SendKevent (good_sends\<lparr>write_string_ok := False\<rparr>) (meanwhile [] [] []) True) (with_clients [(7, 3)]) =
     (HDF_FAILURE, (with_clients [(7, 3)])\<lparr>live_waits := [9]\<rparr>)"
  using failed_event_leaks_wait [of "with_clients [(7, 3)]" "good_sends\<lparr>write_string_ok := False\<rparr>" 9 "meanwhile [] [] []"]
  by (simp add: with_clients_simps good_sends_def)

text \<open>
  After a load with both notifiers registered and a release, the frame buffer notifier is
  still registered and \<open>g_keventModule\<close> is still set, both pointing into freed memory.
\<close>

theorem release_leaves_dangling:
  assumes "dev_priv s" and "fb_ret = 0"
  shows "let s' = after HdfKeventDriverRelease (after (HdfKeventDriverInit pm_ret fb_ret) s)
    in \<not> module_live s' \<and> fb_registered s' \<and> g_keventModule s' \<and> \<not> pm_registered s'"
  using assms by (simp add: HdfKeventDriverInit_def HdfKeventDriverRelease_def Let_def)

lemma release_leaves_dangling_witness:
  "let s' = after HdfKeventDriverRelease (after (HdfKeventDriverInit 0 0) (with_clients [(7, 3)]))
    in \<not> module_live s' \<and> fb_registered s' \<and> g_keventModule s' \<and> \<not> pm_registered s'"
  by (rule release_leaves_dangling) (simp_all add: with_clients_simps)

text \<open>
  A power notification asks the device manager for exactly the state that belongs to it,
  once, and returns what the manager answers, whether or not user space could be told; other
  actions do nothing. The device manager's own notifier resumes the drivers again when
  suspending them fails.
\<close>

theorem power_notifications:
  "result (KeventPmNotifierFn env others (Some f) PM_SUSPEND_PREPARE) s = (f POWER_STATE_SUSPEND, [POWER_STATE_SUSPEND]) \<and>
   result (KeventPmNotifierFn env others (Some f) PM_POST_SUSPEND) s = (f POWER_STATE_RESUME, [POWER_STATE_RESUME]) \<and>
   run_state (KeventPmNotifierFn env others (Some f) PM_OTHER) s = ((HDF_SUCCESS, []), s) \<and>
   result (KeventFbNotifierFn env others (Some f) True (Some b)) s =
     (if b = FB_BLANK_UNBLANK then (f POWER_STATE_DOZE_RESUME, [POWER_STATE_DOZE_RESUME])
      else (f POWER_STATE_DOZE_SUSPEND, [POWER_STATE_DOZE_SUSPEND])) \<and>
   (DevmgrPmNotifier (Some f) PM_SUSPEND_PREPARE =
      (if f POWER_STATE_SUSPEND = HDF_SUCCESS then (HDF_SUCCESS, [POWER_STATE_SUSPEND])
       else (HDF_FAILURE, [POWER_STATE_SUSPEND, POWER_STATE_RESUME])))"
  by (simp add: KeventPmNotifierFn_def KeventFbNotifierFn_def KernalSpacePmNotify_def DevmgrPmNotifier_def
      DevmgrPmSuspend_def Let_def case_prod_beta)

end
