(* ===== verification/Results.thy ===== *)
theory Results
  imports Prelude
begin

section \<open>Results of fallible functions\<close>

text \<open>
  What the theories on the USB code, the queues, the serial port, the buffers and the regulators share: results with
  errors and faults, their composition, and the rules that take such programs apart.
\<close>

datatype errno =
    EINVAL | ENOSYS | ENOMEM | EFAULT | EAGAIN | ESRCH | EBADFD | EIDRM | EL2HLT | EINTR
  | ENODEV | EBUSY | ENOENT | EIOCBQUEUED | EPERM | E_CODE int

text \<open>
  What a C function returns: a value, a negative error number, or \<open>Fault\<close> when it accessed memory
  outside of its object, after which nothing is known. A \<open>Fault\<close> is never a legal outcome; that
  a function does not fault is a theorem about it.
\<close>

datatype 'a res = Ok 'a | Err errno | Fault

fun bindR :: "'a res \<Rightarrow> ('a \<Rightarrow> 'b res) \<Rightarrow> 'b res" where
  "bindR (Ok x) f = f x"
| "bindR (Err e) f = Err e"
| "bindR Fault f = Fault"

text \<open>The same for functions that also change a state: the state stays changed after an error.\<close>

fun bindS :: "'a res \<times> 's \<Rightarrow> ('a \<Rightarrow> 's \<Rightarrow> 'b res \<times> 's) \<Rightarrow> 'b res \<times> 's" where
  "bindS (Ok x, s) f = f x s"
| "bindS (Err e, s) f = (Err e, s)"
| "bindS (Fault, s) f = (Fault, s)"

lemma bindS_case:
  "bindS p f = (case p of (Ok x, s) \<Rightarrow> f x s | (Err e, s) \<Rightarrow> (Err e, s) | (Fault, s) \<Rightarrow> (Fault, s))"
  by (cases p; cases "fst p") auto

lemma bindS_Ok:
  assumes "bindS p f = (Ok y, t)"
  obtains x s where "p = (Ok x, s)" and "f x s = (Ok y, t)"
  using assms by (cases p; cases "fst p") auto

text \<open>
  A run that does not end in a fault; \<open>intro no_fault_intros\<close> takes a program apart.
\<close>

named_theorems no_fault_intros

definition no_fault :: "'a res \<times> 's \<Rightarrow> bool" where
  "no_fault p \<longleftrightarrow> fst p \<noteq> Fault"

lemma no_fault_Ok [simp, no_fault_intros]: "no_fault (Ok x, s)"
  by (simp add: no_fault_def)

lemma no_fault_Err [simp, no_fault_intros]: "no_fault (Err e, s)"
  by (simp add: no_fault_def)

lemma no_fault_Fault [simp]: "\<not> no_fault (Fault, s)"
  by (simp add: no_fault_def)

lemma no_fault_bindS [no_fault_intros]:
  "no_fault p \<Longrightarrow> (\<And>x s. p = (Ok x, s) \<Longrightarrow> no_fault (f x s)) \<Longrightarrow> no_fault (bindS p f)"
  by (cases p; cases "fst p") (auto simp: no_fault_def)

lemma no_fault_if [no_fault_intros]:
  "(b \<Longrightarrow> no_fault p) \<Longrightarrow> (\<not> b \<Longrightarrow> no_fault q) \<Longrightarrow> no_fault (if b then p else q)"
  by simp

text \<open>Reading a byte or a little-endian number of a buffer; past its end is a fault.\<close>

definition get8 :: "u8 list \<Rightarrow> nat \<Rightarrow> (u8 \<Rightarrow> 's \<Rightarrow> 'b res \<times> 's) \<Rightarrow> 's \<Rightarrow> 'b res \<times> 's" where
  "get8 bs i f s = (case byte_at bs i of None \<Rightarrow> (Fault, s) | Some v \<Rightarrow> f v s)"

definition get16 :: "u8 list \<Rightarrow> nat \<Rightarrow> (u16 \<Rightarrow> 's \<Rightarrow> 'b res \<times> 's) \<Rightarrow> 's \<Rightarrow> 'b res \<times> 's" where
  "get16 bs i f s = (case le16_at bs i of None \<Rightarrow> (Fault, s) | Some v \<Rightarrow> f v s)"

definition get32 :: "u8 list \<Rightarrow> nat \<Rightarrow> (u32 \<Rightarrow> 's \<Rightarrow> 'b res \<times> 's) \<Rightarrow> 's \<Rightarrow> 'b res \<times> 's" where
  "get32 bs i f s = (case le32_at bs i of None \<Rightarrow> (Fault, s) | Some v \<Rightarrow> f v s)"

lemma no_fault_get8 [no_fault_intros]:
  "i < length bs \<Longrightarrow> (\<And>v. no_fault (f v s)) \<Longrightarrow> no_fault (get8 bs i f s)"
  by (simp add: get8_def byte_at_def)

lemma no_fault_get16 [no_fault_intros]:
  "i + 2 \<le> length bs \<Longrightarrow> (\<And>v. no_fault (f v s)) \<Longrightarrow> no_fault (get16 bs i f s)"
  by (simp add: get16_def le16_at_def)

lemma no_fault_get32 [no_fault_intros]:
  "i + 4 \<le> length bs \<Longrightarrow> (\<And>v. no_fault (f v s)) \<Longrightarrow> no_fault (get32 bs i f s)"
  by (simp add: get32_def le32_at_def)

lemmas get_defs = get8_def get16_def get32_def

text \<open>
  A pointer and a remaining length are one slice of the buffer. \<open>data += n; len -= n\<close> with \<open>n\<close>
  beyond the length would wrap \<open>len\<close>: a fault.
\<close>

definition advance :: "nat \<Rightarrow> u8 list \<Rightarrow> (u8 list \<Rightarrow> 's \<Rightarrow> 'b res \<times> 's) \<Rightarrow> 's \<Rightarrow> 'b res \<times> 's" where
  "advance n bs f s = (if n \<le> length bs then f (drop n bs) s else (Fault, s))"

lemma no_fault_advance [no_fault_intros]:
  "n \<le> length bs \<Longrightarrow> no_fault (f (drop n bs) s) \<Longrightarrow> no_fault (advance n bs f s)"
  by (simp add: advance_def)

text \<open>
  A run that leaves the state with a property, whatever it returns; \<open>intro leaves_intros\<close> takes a
  program apart.
\<close>

named_theorems leaves_intros

definition leaves :: "('s \<Rightarrow> bool) \<Rightarrow> 'a res \<times> 's \<Rightarrow> bool" where
  "leaves P p \<longleftrightarrow> P (snd p)"

lemma leaves_pair [leaves_intros]: "P s \<Longrightarrow> leaves P (r, s)"
  by (simp add: leaves_def)

lemma leavesD: "leaves P p \<Longrightarrow> p = (r, s) \<Longrightarrow> P s"
  by (simp add: leaves_def)

lemma leaves_bindS [leaves_intros]:
  "leaves P p \<Longrightarrow> (\<And>x s. p = (Ok x, s) \<Longrightarrow> P s \<Longrightarrow> leaves P (f x s)) \<Longrightarrow> leaves P (bindS p f)"
  by (cases p; cases "fst p") (auto simp: leaves_def)

lemma leaves_if [leaves_intros]:
  "(b \<Longrightarrow> leaves P p) \<Longrightarrow> (\<not> b \<Longrightarrow> leaves P q) \<Longrightarrow> leaves P (if b then p else q)"
  by simp

lemma leaves_get [leaves_intros]:
  "P s \<Longrightarrow> (\<And>v. leaves P (f v s)) \<Longrightarrow> leaves P (get8 bs i f s)"
  "P s \<Longrightarrow> (\<And>v. leaves P (g v s)) \<Longrightarrow> leaves P (get16 bs i g s)"
  "P s \<Longrightarrow> (\<And>v. leaves P (k v s)) \<Longrightarrow> leaves P (get32 bs i k s)"
  by (simp_all add: get_defs leaves_def split: option.split)

lemma leaves_advance [leaves_intros]:
  "P s \<Longrightarrow> leaves P (f (drop n bs) s) \<Longrightarrow> leaves P (advance n bs f s)"
  by (simp add: advance_def leaves_def)

text \<open>
  A run that does not fault, with what holds after success and after an error. The rules go
  backwards through a program, like those of a weakest precondition.
\<close>

named_theorems post_intros

definition post :: "'a res \<times> 's \<Rightarrow> ('a \<Rightarrow> 's \<Rightarrow> bool) \<Rightarrow> (errno \<Rightarrow> 's \<Rightarrow> bool) \<Rightarrow> bool" where
  "post p A E \<longleftrightarrow> (case fst p of Ok x \<Rightarrow> A x (snd p) | Err e \<Rightarrow> E e (snd p) | Fault \<Rightarrow> False)"

lemma post_pair [simp]:
  "post (Ok x, s) A E \<longleftrightarrow> A x s" "post (Err e, s) A E \<longleftrightarrow> E e s" "\<not> post (Fault, s) A E"
  by (simp_all add: post_def)

lemma post_bindS [post_intros]:
  "post p A E \<Longrightarrow> (\<And>x s. A x s \<Longrightarrow> post (f x s) B E) \<Longrightarrow> post (bindS p f) B E"
  by (cases p; cases "fst p") (auto simp: post_def)

lemma post_if [post_intros]:
  "(b \<Longrightarrow> post p A E) \<Longrightarrow> (\<not> b \<Longrightarrow> post q A E) \<Longrightarrow> post (if b then p else q) A E"
  by simp

lemma post_mono:
  "post p A E \<Longrightarrow> (\<And>x s. A x s \<Longrightarrow> B x s) \<Longrightarrow> (\<And>e s. E e s \<Longrightarrow> F e s) \<Longrightarrow> post p B F"
  by (cases p; cases "fst p") (auto simp: post_def)

lemma post_no_fault: "no_fault p \<Longrightarrow> leaves P p \<Longrightarrow> post p (\<lambda>_. P) (\<lambda>_. P)"
  by (cases p; cases "fst p") (auto simp: post_def no_fault_def leaves_def)

lemma postD: "post p A E \<Longrightarrow> no_fault p" "post p (\<lambda>_. P) (\<lambda>_. P) \<Longrightarrow> P (snd p)"
  by (auto simp: post_def no_fault_def split: res.splits)

end
