(* ===== verification/Ffs_Types.thy ===== *)
theory Ffs_Types
  imports Results
begin

section \<open>Generic USB function: types\<close>

text \<open>
  The data model of the generic USB function (\<open>model/usb/device/u_generic.h\<close> and
  \<open>f_generic.c\<close>): the states of endpoint zero, the event queue, the parsed descriptors and
  strings. Numbers of the USB and functionfs ABI (descriptor types and sizes, magic numbers,
  flags, event codes) are those of the Linux headers \<open>ch9.h\<close> and \<open>functionfs.h\<close>.
\<close>

subsection \<open>The function's data\<close>

datatype ffs_state =
    FFS_READ_DESCRIPTORS | FFS_READ_STRINGS | FFS_ACTIVE | FFS_DEACTIVATED | FFS_CLOSING

datatype ffs_setup_state = FFS_NO_SETUP | FFS_SETUP_PENDING | FFS_SETUP_CANCELLED

datatype ffs_event =
    FUNCTIONFS_BIND | FUNCTIONFS_UNBIND | FUNCTIONFS_ENABLE | FUNCTIONFS_DISABLE
  | FUNCTIONFS_SETUP | FUNCTIONFS_SUSPEND | FUNCTIONFS_RESUME

text \<open>A control request, and a memory area of the function that user space has mapped.\<close>

record usb_ctrlrequest =
  bRequestType :: u8
  bRequest :: u8
  wValue :: u16
  wIndex :: u16
  wLength :: u16

record ffs_memory =
  mem :: u64
  vm_start :: u64
  mem_size :: u32

text \<open>
  An endpoint file: the name it gets, the endpoint behind it once the function is enabled, and
  what is known of that endpoint.
\<close>

datatype ffs_epfile_name = Ep_hex u8 | Ep_dec nat

record ffs_epfile =
  ef_name :: ffs_epfile_name
  ef_ep :: "nat option"
  ef_in :: bool
  ef_isoc :: bool

text \<open>The device a function belongs to: the part that the function reads and writes.\<close>

record ffs_dev =
  dev_mounted :: bool
  dev_desc_ready :: bool
  dev_has_data :: bool

text \<open>
  A completed transfer (\<open>struct UsbFnReqEvent\<close>), and an asynchronous request on endpoint zero:
  the kernel address and length of its buffer, the address user space knows it by, its status,
  and whether the request object was freed.
\<close>

record usb_fn_req_event =
  re_buf :: u64
  re_actual :: u32
  re_status :: int

record ep0_request =
  rq_buf :: u64
  rq_len :: u32
  rq_user_buf :: u64
  rq_status :: int
  rq_freed :: bool

text \<open>
  A queue of the kernel (\<open>struct kfifo\<close>) of limited capacity. \<open>Fifo_zeroed\<close> is a zeroed one, never
  allocated or freed: its element size is 0, so adding to it stores nothing, but its counter of
  added elements goes up once (the flag), as a mask of 0 stands for one place; reading it then
  divides by the element size. \<open>Fifo_failed\<close> is one whose allocation failed: its data pointer is
  null and its element size is 1, so adding to it writes through the pointer.
\<close>

datatype 'a kfifo = Fifo_zeroed bool | Fifo_failed | is_Fifo: Fifo "'a list"

definition kfifo_is_empty :: "'a kfifo \<Rightarrow> bool" where
  "kfifo_is_empty q = (case q of Fifo_zeroed counted \<Rightarrow> \<not> counted | Fifo_failed \<Rightarrow> True | Fifo xs \<Rightarrow> xs = [])"

text \<open>As many of the elements as there is space for.\<close>

definition kfifo_in :: "nat \<Rightarrow> 'a list \<Rightarrow> 'a kfifo \<Rightarrow> 'a kfifo res" where
  "kfifo_in capacity xs q = (case q of
     Fifo_zeroed _ \<Rightarrow> Ok (Fifo_zeroed True)
   | Fifo_failed \<Rightarrow> Fault
   | Fifo ys \<Rightarrow> Ok (Fifo (ys @ take (capacity - length ys) xs)))"

lemma kfifo_in_Fifo [simp]: "kfifo_in n xs (Fifo ys) = Ok (Fifo (ys @ take (n - length ys) xs))"
  by (simp add: kfifo_in_def)

lemma kfifo_simps [simp]:
  "kfifo_is_empty (Fifo xs) \<longleftrightarrow> xs = []" "kfifo_is_empty (Fifo_zeroed c) \<longleftrightarrow> \<not> c" "kfifo_is_empty Fifo_failed"
  by (simp_all add: kfifo_is_empty_def)

text \<open>
  \<open>ev_types\<close> are the entries of \<open>ev.types\<close> that are in use (the array has four). \<open>req_fifo\<close> is
  \<open>reqEventFifo\<close>. \<open>private_data\<close> is the device behind the pointer
  of that name, \<open>ep0_reqs\<close> the list at \<open>ep0req\<close>, \<open>ep0_queued\<close> what was handed to the hardware on
  endpoint zero: the data when the transfer is to the host, the length and the zero flag.
  \<open>kmem\<close> counts the kernel buffers allocated less those freed, \<open>mutex_held\<close> and \<open>evlock_held\<close> are
  the two locks of endpoint zero.
\<close>

record ffs_data =
  ffs_st :: ffs_state
  setup_state :: ffs_setup_state
  ev_types :: "ffs_event list"
  ev_can_stall :: bool
  ev_setup :: usb_ctrlrequest
  raw_descs_data :: "u8 list option"
  raw_descs :: "u8 list"
  fs_descs_count :: u32
  hs_descs_count :: u32
  ss_descs_count :: u32
  ms_os_descs_count :: u32
  ms_os_descs_ext_prop_count :: u32
  ms_os_descs_ext_prop_name_len :: u32
  ms_os_descs_ext_prop_data_len :: u32
  user_flags :: u32
  ffs_eventfd :: bool
  eps_addrmap :: "u8 list"
  strings_count :: u16
  interfaces_count :: u16
  eps_count :: u16
  stringtabs :: "(u16 \<times> u8 list list) list option"
  memory_list :: "ffs_memory list"
  epfiles :: "ffs_epfile list option"
  req_fifo :: "usb_fn_req_event kfifo"
  ep0_reqs :: "ep0_request list"
  ep0_queued :: "(u8 list option \<times> nat \<times> bool) list"
  private_data :: "ffs_dev option"
  fl_bound :: bool
  fl_call_closed :: bool
  gadget :: bool
  ref :: nat
  kmem :: int
  mutex_held :: bool
  evlock_held :: bool

abbreviation (input) FFS_MAX_EPS_COUNT :: nat where "FFS_MAX_EPS_COUNT \<equiv> 31"

text \<open>A fresh object, zeroed by \<open>kzalloc\<close>.\<close>

definition ffs_new :: ffs_data where
  "ffs_new = \<lparr>ffs_st = FFS_READ_DESCRIPTORS, setup_state = FFS_NO_SETUP, ev_types = [],
     ev_can_stall = False, ev_setup = \<lparr>bRequestType = 0, bRequest = 0, wValue = 0, wIndex = 0, wLength = 0\<rparr>,
     raw_descs_data = None, raw_descs = [], fs_descs_count = 0, hs_descs_count = 0, ss_descs_count = 0,
     ms_os_descs_count = 0, ms_os_descs_ext_prop_count = 0, ms_os_descs_ext_prop_name_len = 0,
     ms_os_descs_ext_prop_data_len = 0, user_flags = 0, ffs_eventfd = False,
     eps_addrmap = replicate FFS_MAX_EPS_COUNT 0, strings_count = 0, interfaces_count = 0, eps_count = 0,
     stringtabs = None, memory_list = [], epfiles = None, req_fifo = Fifo_zeroed False,
     ep0_reqs = [], ep0_queued = [], private_data = None, fl_bound = False, fl_call_closed = False,
     gadget = False, ref = 0, kmem = 0, mutex_held = False, evlock_held = False\<rparr>"

definition kalloc :: "ffs_data \<Rightarrow> ffs_data" where
  "kalloc s = s\<lparr>kmem := kmem s + 1\<rparr>"

definition kfree :: "ffs_data \<Rightarrow> ffs_data" where
  "kfree s = s\<lparr>kmem := kmem s - 1\<rparr>"

end
