(* ===== verification/Ffs_Desc.thy ===== *)
theory Ffs_Desc
  imports Ffs_Types
begin

section \<open>Generic USB function: the descriptor parser\<close>

text \<open>
  The part of \<open>f_generic.c\<close> that takes the descriptors user space writes to endpoint zero: the
  USB descriptors of up to three speeds (\<open>ffs_do_single_desc\<close>, \<open>ffs_do_descs\<close>,
  \<open>__ffs_data_do_entity\<close>), the Microsoft OS descriptors (\<open>ffs_do_os_descs\<close> and what it calls) and
  the whole message (\<open>__ffs_data_got_descs\<close>). The input is untrusted, so every read is checked
  against the slice of the buffer the code believes to have.
\<close>

subsection \<open>One descriptor\<close>

text \<open>The entity types, with the value that the callback gets.\<close>

datatype ffs_entity =
    FFS_DESCRIPTOR nat
  | FFS_INTERFACE u8
  | FFS_STRING u8
  | FFS_ENDPOINT u8

type_synonym 's ffs_entity_callback = "ffs_entity \<Rightarrow> u8 list option \<Rightarrow> 's \<Rightarrow> unit res \<times> 's"

abbreviation (input) USB_DT_DEVICE :: u8 where "USB_DT_DEVICE \<equiv> 0x01"
abbreviation (input) USB_DT_CONFIG :: u8 where "USB_DT_CONFIG \<equiv> 0x02"
abbreviation (input) USB_DT_STRING :: u8 where "USB_DT_STRING \<equiv> 0x03"
abbreviation (input) USB_DT_INTERFACE :: u8 where "USB_DT_INTERFACE \<equiv> 0x04"
abbreviation (input) USB_DT_ENDPOINT :: u8 where "USB_DT_ENDPOINT \<equiv> 0x05"
abbreviation (input) USB_DT_DEVICE_QUALIFIER :: u8 where "USB_DT_DEVICE_QUALIFIER \<equiv> 0x06"
abbreviation (input) USB_DT_OTG :: u8 where "USB_DT_OTG \<equiv> 0x09"
abbreviation (input) USB_DT_INTERFACE_ASSOCIATION :: u8 where "USB_DT_INTERFACE_ASSOCIATION \<equiv> 0x0b"
abbreviation (input) HID_DT_HID :: u8 where "HID_DT_HID \<equiv> 0x21"
abbreviation (input) USB_DT_SS_ENDPOINT_COMP :: u8 where "USB_DT_SS_ENDPOINT_COMP \<equiv> 0x30"

fun entity_check :: "ffs_entity \<Rightarrow> bool" where
  "entity_check (FFS_STRING v) \<longleftrightarrow> v \<noteq> 0"
| "entity_check (FFS_ENDPOINT v) \<longleftrightarrow> v AND 0x0f \<noteq> 0"
| "entity_check _ \<longleftrightarrow> True"

text \<open>The macro \<open>__entity\<close>: check the value, then call back.\<close>

definition do_entity ::
  "'s ffs_entity_callback \<Rightarrow> ffs_entity \<Rightarrow> u8 list \<Rightarrow> 's \<Rightarrow> unit res \<times> 's" where
  "do_entity entity e ds s = (if \<not> entity_check e then (Err EINVAL, s) else entity e (Some ds) s)"

text \<open>Types the code knows but does not check, and types it does not know, are let through.\<close>

definition ffs_do_single_desc ::
  "'s ffs_entity_callback \<Rightarrow> u8 list \<Rightarrow> 's \<Rightarrow> nat res \<times> 's" where
  "ffs_do_single_desc entity data s =
     (if length data < 2 then (Err EINVAL, s)
      else get8 data 0 (\<lambda>len s.
        if length data < unat len then (Err EINVAL, s)
        else get8 data 1 (\<lambda>ty s.
          if ty = USB_DT_DEVICE \<or> ty = USB_DT_CONFIG \<or> ty = USB_DT_STRING \<or> ty = USB_DT_DEVICE_QUALIFIER
          then (Err EINVAL, s)
          else if ty = USB_DT_INTERFACE then
            (if len \<noteq> 9 then (Err EINVAL, s)
             else get8 data 2 (\<lambda>bInterfaceNumber s.
               bindS (do_entity entity (FFS_INTERFACE bInterfaceNumber) data s) (\<lambda>_ s.
               get8 data 8 (\<lambda>iInterface s.
               if iInterface \<noteq> 0 then
                 bindS (do_entity entity (FFS_STRING iInterface) data s) (\<lambda>_ s. (Ok (unat len), s))
               else (Ok (unat len), s)) s)) s)
          else if ty = USB_DT_ENDPOINT then
            (if len \<noteq> 7 \<and> len \<noteq> 9 then (Err EINVAL, s)
             else get8 data 2 (\<lambda>bEndpointAddress s.
               bindS (do_entity entity (FFS_ENDPOINT bEndpointAddress) data s) (\<lambda>_ s. (Ok (unat len), s))) s)
          else if ty = HID_DT_HID then (if len \<noteq> 9 then (Err EINVAL, s) else (Ok (unat len), s))
          else if ty = USB_DT_OTG then (if len \<noteq> 3 then (Err EINVAL, s) else (Ok (unat len), s))
          else if ty = USB_DT_INTERFACE_ASSOCIATION then
            (if len \<noteq> 8 then (Err EINVAL, s)
             else get8 data 7 (\<lambda>iFunction s.
               if iFunction \<noteq> 0 then
                 bindS (do_entity entity (FFS_STRING iFunction) data s) (\<lambda>_ s. (Ok (unat len), s))
               else (Ok (unat len), s)) s)
          else if ty = USB_DT_SS_ENDPOINT_COMP then
            (if len \<noteq> 6 then (Err EINVAL, s) else (Ok (unat len), s))
          else (Ok (unat len), s)) s) s)"

subsection \<open>A number of descriptors\<close>

text \<open>
  The loop of \<open>ffs_do_descs\<close>: \<open>k\<close> descriptors are still to come, \<open>num\<close> were read. The result is
  what is left of the data.
\<close>

fun do_descs_loop ::
  "'s ffs_entity_callback \<Rightarrow> nat \<Rightarrow> nat \<Rightarrow> u8 list \<Rightarrow> 's \<Rightarrow> u8 list res \<times> 's" where
  "do_descs_loop entity 0 num data s =
     bindS (entity (FFS_DESCRIPTOR num) None s) (\<lambda>_ s. (Ok data, s))"
| "do_descs_loop entity (Suc k) num data s =
     bindS (entity (FFS_DESCRIPTOR num) (Some data) s) (\<lambda>_ s.
     bindS (ffs_do_single_desc entity data s) (\<lambda>ret s.
     advance ret data (\<lambda>data s. do_descs_loop entity k (Suc num) data s) s))"

definition ffs_do_descs ::
  "'s ffs_entity_callback \<Rightarrow> u32 \<Rightarrow> u8 list \<Rightarrow> 's \<Rightarrow> nat res \<times> 's" where
  "ffs_do_descs entity count data s =
     bindS (do_descs_loop entity (unat count) 0 data s) (\<lambda>rest s. (Ok (length data - length rest), s))"

subsection \<open>Recording interfaces, strings and endpoints\<close>

record ffs_desc_helper =
  h_ffs :: ffs_data
  h_interfaces_count :: u32
  h_eps_count :: u32

definition data_do_entity :: "ffs_desc_helper ffs_entity_callback" where
  "data_do_entity e desc h = (case e of
     FFS_DESCRIPTOR n \<Rightarrow> (Ok (), h)
   | FFS_INTERFACE v \<Rightarrow>
       (Ok (), if ucast v \<ge> h_interfaces_count h then h\<lparr>h_interfaces_count := ucast v + 1\<rparr> else h)
   | FFS_STRING v \<Rightarrow>
       (Ok (), if ucast v > strings_count (h_ffs h)
               then h\<lparr>h_ffs := (h_ffs h)\<lparr>strings_count := ucast v\<rparr>\<rparr> else h)
   | FFS_ENDPOINT v \<Rightarrow>
       (let h = h\<lparr>h_eps_count := h_eps_count h + 1\<rparr>; n = unat (h_eps_count h); ffs = h_ffs h
        in if n \<ge> FFS_MAX_EPS_COUNT then (Err EINVAL, h)
           else (case desc of None \<Rightarrow> (Fault, h) | Some d \<Rightarrow>
             get8 d 2 (\<lambda>addr h.
               if length (eps_addrmap ffs) \<le> n then (Fault, h)
               else if eps_count ffs = 0 \<and> interfaces_count ffs = 0
               then (Ok (), h\<lparr>h_ffs := ffs\<lparr>eps_addrmap := (eps_addrmap ffs)[n := addr]\<rparr>\<rparr>)
               else if eps_addrmap ffs ! n \<noteq> addr then (Err EINVAL, h)
               else (Ok (), h)) h)))"

subsection \<open>Microsoft OS descriptors\<close>

datatype ffs_os_desc_type = FFS_OS_DESC_EXT_COMPAT | FFS_OS_DESC_EXT_PROP

abbreviation (input) USB_OS_DESC_HEADER_SIZE :: nat where "USB_OS_DESC_HEADER_SIZE \<equiv> 11"
abbreviation (input) USB_EXT_COMPAT_DESC_SIZE :: nat where "USB_EXT_COMPAT_DESC_SIZE \<equiv> 24"
abbreviation (input) USB_EXT_PROP_DESC_SIZE :: nat where "USB_EXT_PROP_DESC_SIZE \<equiv> 10"
abbreviation (input) USB_EXT_PROP_UNICODE :: u32 where "USB_EXT_PROP_UNICODE \<equiv> 1"
abbreviation (input) USB_EXT_PROP_UNICODE_MULTI :: u32 where "USB_EXT_PROP_UNICODE_MULTI \<equiv> 7"

definition ffs_do_os_desc_header :: "u8 list \<Rightarrow> 's \<Rightarrow> (ffs_os_desc_type \<times> nat) res \<times> 's" where
  "ffs_do_os_desc_header desc =
     get16 desc 5 (\<lambda>bcd_version. get16 desc 7 (\<lambda>w_index s.
       if bcd_version \<noteq> 1 then (Err EINVAL, s)
       else if w_index = 0x4 then (Ok (FFS_OS_DESC_EXT_COMPAT, USB_OS_DESC_HEADER_SIZE), s)
       else if w_index = 0x5 then (Ok (FFS_OS_DESC_EXT_PROP, USB_OS_DESC_HEADER_SIZE), s)
       else (Err EINVAL, s)))"

text \<open>
  The callback for one function or property: it may rewrite the buffer, so it returns the
  number of bytes it takes and the data it leaves there.
\<close>

type_synonym 's ffs_os_desc_callback =
  "ffs_os_desc_type \<Rightarrow> u8 list \<Rightarrow> u8 list \<Rightarrow> 's \<Rightarrow> (nat \<times> u8 list) res \<times> 's"

definition data_do_os_desc :: "ffs_data ffs_os_desc_callback" where
  "data_do_os_desc type h data ffs = (case type of
     FFS_OS_DESC_EXT_COMPAT \<Rightarrow>
       if length data < USB_EXT_COMPAT_DESC_SIZE then (Err EINVAL, ffs)
       else get8 data 0 (\<lambda>bFirstInterfaceNumber ffs.
         if ucast bFirstInterfaceNumber \<ge> interfaces_count ffs then (Err EINVAL, ffs)
         else get8 data 1 (\<lambda>reserved1 ffs.
           let data = (if reserved1 \<noteq> 1 then data[1 := 1] else data)
           in if list_ex (\<lambda>b. b \<noteq> 0) (take 6 (drop 18 data)) then (Err EINVAL, ffs)
              else (Ok (USB_EXT_COMPAT_DESC_SIZE, data), ffs)) ffs) ffs
   | FFS_OS_DESC_EXT_PROP \<Rightarrow>
       if length data < USB_EXT_PROP_DESC_SIZE then (Err EINVAL, ffs)
       else get8 h 0 (\<lambda>interface ffs.
         if ucast interface \<ge> interfaces_count ffs then (Err EINVAL, ffs)
         else get32 data 0 (\<lambda>dwSize ffs.
           let len = (ucast dwSize :: u8)
           in if length data < unat len then (Err EINVAL, ffs)
              else get32 data 4 (\<lambda>ptype ffs.
                if ptype < USB_EXT_PROP_UNICODE \<or> ptype > USB_EXT_PROP_UNICODE_MULTI then (Err EINVAL, ffs)
                else get16 data 8 (\<lambda>pnl ffs.
                  if unat len < 14 + unat pnl then (Err EINVAL, ffs)
                  else get32 data (10 + unat pnl) (\<lambda>pdl ffs.
                    if ucast len \<noteq> 14 + ucast pnl + pdl then (Err EINVAL, ffs)
                    else (Ok (unat len, data), ffs\<lparr>
                      ms_os_descs_ext_prop_count := ms_os_descs_ext_prop_count ffs + 1,
                      ms_os_descs_ext_prop_name_len := ms_os_descs_ext_prop_name_len ffs + ucast pnl * 2,
                      ms_os_descs_ext_prop_data_len := ms_os_descs_ext_prop_data_len ffs + pdl\<rparr>)) ffs) ffs) ffs) ffs) ffs)"

text \<open>The loops return the bytes they took, as they are afterwards, and the rest of the data.\<close>

fun ffs_do_single_os_desc ::
  "'s ffs_os_desc_callback \<Rightarrow> ffs_os_desc_type \<Rightarrow> u8 list \<Rightarrow> nat \<Rightarrow> u8 list \<Rightarrow> 's \<Rightarrow> (u8 list \<times> u8 list) res \<times> 's" where
  "ffs_do_single_os_desc entity type h 0 data s = (Ok ([], data), s)"
| "ffs_do_single_os_desc entity type h (Suc feature_count) data s =
     bindS (entity type h data s) (\<lambda>(ret, data) s.
     advance ret data (\<lambda>rest s.
     bindS (ffs_do_single_os_desc entity type h feature_count rest s) (\<lambda>(taken, rest) s.
     (Ok (take ret data @ taken, rest), s))) s)"

fun ffs_do_os_descs ::
  "'s ffs_os_desc_callback \<Rightarrow> nat \<Rightarrow> u8 list \<Rightarrow> 's \<Rightarrow> (u8 list \<times> u8 list) res \<times> 's" where
  "ffs_do_os_descs entity 0 data s = (Ok ([], data), s)"
| "ffs_do_os_descs entity (Suc count) data s =
     (if length data < USB_OS_DESC_HEADER_SIZE then (Err EINVAL, s)
      else get32 data 1 (\<lambda>dwLength s.
        if unat dwLength > length data then (Err EINVAL, s)
        else bindS (ffs_do_os_desc_header data s) (\<lambda>(type, ret) s.
        get16 data 9 (\<lambda>feature_count s. get8 data 10 (\<lambda>reserved s.
        if type = FFS_OS_DESC_EXT_COMPAT \<and> (feature_count > 255 \<or> reserved \<noteq> 0) then (Err EINVAL, s)
        else advance ret data (\<lambda>rest s.
          bindS (ffs_do_single_os_desc entity type data (unat feature_count) rest s) (\<lambda>(taken, rest) s.
          bindS (ffs_do_os_descs entity count rest s) (\<lambda>(taken', rest) s.
          (Ok (take ret data @ taken @ taken', rest), s)))) s) s) s)) s)"

subsection \<open>The whole message\<close>

abbreviation (input) FUNCTIONFS_DESCRIPTORS_MAGIC :: u32 where "FUNCTIONFS_DESCRIPTORS_MAGIC \<equiv> 1"
abbreviation (input) FUNCTIONFS_DESCRIPTORS_MAGIC_V2 :: u32 where "FUNCTIONFS_DESCRIPTORS_MAGIC_V2 \<equiv> 3"
abbreviation (input) FUNCTIONFS_EVENTFD_bit :: nat where "FUNCTIONFS_EVENTFD_bit \<equiv> 5"
abbreviation (input) FUNCTIONFS_ALL_FLAGS :: u32 where "FUNCTIONFS_ALL_FLAGS \<equiv> 0xff"

text \<open>The magic number and flags: the flags and the data after them.\<close>

definition descs_flags :: "u8 list \<Rightarrow> ffs_data \<Rightarrow> (u32 \<times> u8 list) res \<times> ffs_data" where
  "descs_flags data =
     get32 data 4 (\<lambda>size. get32 data 0 (\<lambda>magic ffs.
       if unat size \<noteq> length data then (Err EINVAL, ffs)
       else if magic = FUNCTIONFS_DESCRIPTORS_MAGIC then
         advance 8 data (\<lambda>data ffs. (Ok (0x3, data), ffs)) ffs
       else if magic = FUNCTIONFS_DESCRIPTORS_MAGIC_V2 then
         get32 data 8 (\<lambda>flags ffs.
           let ffs = ffs\<lparr>user_flags := flags\<rparr>
           in if flags AND NOT FUNCTIONFS_ALL_FLAGS \<noteq> 0 then (Err ENOSYS, ffs)
              else advance 12 data (\<lambda>data ffs. (Ok (flags, data), ffs)) ffs) ffs
       else (Err EINVAL, ffs)))"

text \<open>\<open>eventfd_ctx_fdget\<close> answers a file descriptor with an error or an event context.\<close>

definition descs_eventfd ::
  "(u32 \<Rightarrow> errno option) \<Rightarrow> u32 \<Rightarrow> u8 list \<Rightarrow> ffs_data \<Rightarrow> u8 list res \<times> ffs_data" where
  "descs_eventfd fdget flags data ffs =
     (if \<not> bit flags FUNCTIONFS_EVENTFD_bit then (Ok data, ffs)
      else if length data < 4 then (Err EINVAL, ffs)
      else get32 data 0 (\<lambda>fd ffs. (case fdget fd of
          Some e \<Rightarrow> (Err e, ffs\<lparr>ffs_eventfd := False\<rparr>)
        | None \<Rightarrow> advance 4 data (\<lambda>data ffs. (Ok data, ffs)) (ffs\<lparr>ffs_eventfd := True\<rparr>))) ffs)"

text \<open>The counts whose flag is set, in order; the others are 0.\<close>

fun descs_counts :: "nat list \<Rightarrow> u32 \<Rightarrow> u8 list \<Rightarrow> ffs_data \<Rightarrow> (u32 list \<times> u8 list) res \<times> ffs_data" where
  "descs_counts [] flags data ffs = (Ok ([], data), ffs)"
| "descs_counts (i # is) flags data ffs =
     (if \<not> bit flags i then
        bindS (descs_counts is flags data ffs) (\<lambda>(cs, data) ffs. (Ok (0 # cs, data), ffs))
      else if length data < 4 then (Err EINVAL, ffs)
      else get32 data 0 (\<lambda>c. advance 4 data (\<lambda>data ffs.
        bindS (descs_counts is flags data ffs) (\<lambda>(cs, data) ffs. (Ok (c # cs, data), ffs)))) ffs)"

text \<open>The descriptors of one speed after the other.\<close>

fun descs_speeds :: "u32 list \<Rightarrow> u8 list \<Rightarrow> ffs_data \<Rightarrow> (u8 list) res \<times> ffs_data" where
  "descs_speeds [] data ffs = (Ok data, ffs)"
| "descs_speeds (c # cs) data ffs =
     (if c = 0 then descs_speeds cs data ffs
      else let (r, h) = ffs_do_descs data_do_entity c data \<lparr>h_ffs = ffs, h_interfaces_count = 0, h_eps_count = 0\<rparr>
        in bindS (r, h_ffs h) (\<lambda>ret ffs.
          if eps_count ffs = 0 \<and> interfaces_count ffs = 0 then
            advance ret data (descs_speeds cs)
              (ffs\<lparr>eps_count := ucast (h_eps_count h), interfaces_count := ucast (h_interfaces_count h)\<rparr>)
          else if ucast (eps_count ffs) \<noteq> h_eps_count h then (Err EINVAL, ffs)
          else if ucast (interfaces_count ffs) \<noteq> h_interfaces_count h then (Err EINVAL, ffs)
          else advance ret data (descs_speeds cs) ffs))"

definition got_descs_checked ::
  "(u32 \<Rightarrow> errno option) \<Rightarrow> u8 list \<Rightarrow> ffs_data \<Rightarrow> unit res \<times> ffs_data" where
  "got_descs_checked fdget data0 ffs =
     bindS (descs_flags data0 ffs) (\<lambda>(flags, data) ffs.
     bindS (descs_eventfd fdget flags data ffs) (\<lambda>data ffs.
     bindS (descs_counts [0, 1, 2, 3] flags data ffs) (\<lambda>(counts, raw) ffs.
     bindS (descs_speeds (take 3 counts) raw ffs) (\<lambda>data ffs.
     bindS (if counts ! 3 \<noteq> 0 then ffs_do_os_descs data_do_os_desc (unat (counts ! 3)) data ffs
            else (Ok ([], data), ffs)) (\<lambda>(os, data') ffs.
     let raw' = take (length raw - length data) raw @ os
     in if raw' = [] \<or> data' \<noteq> [] then (Err EINVAL, ffs)
        else (Ok (), ffs\<lparr>raw_descs_data := Some (take (length data0 - length raw) data0 @ raw'),
          raw_descs := raw', fs_descs_count := counts ! 0, hs_descs_count := counts ! 1,
          ss_descs_count := counts ! 2, ms_os_descs_count := counts ! 3\<rparr>))))))"

text \<open>The function takes over the buffer, and frees it on every error.\<close>

definition data_got_descs ::
  "(u32 \<Rightarrow> errno option) \<Rightarrow> u8 list \<Rightarrow> ffs_data \<Rightarrow> unit res \<times> ffs_data" where
  "data_got_descs fdget data ffs = (case got_descs_checked fdget data ffs of
     (Ok _, ffs) \<Rightarrow> (Ok (), ffs)
   | (Err e, ffs) \<Rightarrow> (Err e, kfree ffs)
   | (Fault, ffs) \<Rightarrow> (Fault, ffs))"

subsection \<open>What one descriptor declares\<close>

text \<open>
  A reference for \<open>ffs_do_single_desc\<close>: which descriptor may stand at the head of the data, and
  what it declares to the callback. The table gives the lengths of the types that have fixed ones.
\<close>

definition desc_lengths :: "u8 \<Rightarrow> nat list option" where
  "desc_lengths ty =
     (if ty = USB_DT_INTERFACE then Some [9] else if ty = USB_DT_ENDPOINT then Some [7, 9]
      else if ty = HID_DT_HID then Some [9] else if ty = USB_DT_OTG then Some [3]
      else if ty = USB_DT_INTERFACE_ASSOCIATION then Some [8]
      else if ty = USB_DT_SS_ENDPOINT_COMP then Some [6] else None)"

definition desc_wf :: "u8 list \<Rightarrow> bool" where
  "desc_wf data \<longleftrightarrow> 2 \<le> length data \<and> unat (data ! 0) \<le> length data
     \<and> data ! 1 \<notin> {USB_DT_DEVICE, USB_DT_CONFIG, USB_DT_STRING, USB_DT_DEVICE_QUALIFIER}
     \<and> (case desc_lengths (data ! 1) of None \<Rightarrow> True | Some ls \<Rightarrow> unat (data ! 0) \<in> set ls)"

definition string_entity :: "u8 \<Rightarrow> ffs_entity list" where
  "string_entity i = (if i = 0 then [] else [FFS_STRING i])"

definition desc_entities :: "u8 list \<Rightarrow> ffs_entity list" where
  "desc_entities d =
     (if length d < 2 then []
      else if d ! 1 = USB_DT_INTERFACE then FFS_INTERFACE (d ! 2) # string_entity (d ! 8)
      else if d ! 1 = USB_DT_ENDPOINT then [FFS_ENDPOINT (d ! 2)]
      else if d ! 1 = USB_DT_INTERFACE_ASSOCIATION then string_entity (d ! 7)
      else [])"

fun run_entities :: "'s ffs_entity_callback \<Rightarrow> u8 list \<Rightarrow> ffs_entity list \<Rightarrow> 's \<Rightarrow> unit res \<times> 's" where
  "run_entities entity ds [] s = (Ok (), s)"
| "run_entities entity ds (e # es) s =
     bindS (do_entity entity e ds s) (\<lambda>_ s. run_entities entity ds es s)"

lemma bindS_assoc: "bindS (bindS p f) g = bindS p (\<lambda>x s. bindS (f x s) g)"
  by (cases p; cases "fst p") auto

lemma bindS_unit: "bindS p (\<lambda>_ s. (Ok (), s)) = p"
  by (cases p; cases "fst p") auto

lemma get8_in: "i < length bs \<Longrightarrow> get8 bs i f s = f (bs ! i) s"
  by (simp add: get8_def byte_at_def)

lemma unat_u8_eq:
  "unat (x :: u8) = 3 \<longleftrightarrow> x = 3" "unat x = 6 \<longleftrightarrow> x = 6" "unat x = 7 \<longleftrightarrow> x = 7"
  "unat x = 8 \<longleftrightarrow> x = 8" "unat x = 9 \<longleftrightarrow> x = 9"
  by (simp_all add: word_unat_eq_iff)

lemma do_single_desc_eq:
  "ffs_do_single_desc entity data s =
     (if desc_wf data
      then bindS (run_entities entity data (desc_entities (take (unat (data ! 0)) data)) s)
                 (\<lambda>_ s. (Ok (unat (data ! 0)), s))
      else (Err EINVAL, s))"
proof (cases "2 \<le> length data \<and> unat (data ! 0) \<le> length data")
  case False
  then show ?thesis
    by (cases "length data = 0"; cases "length data < 2")
       (simp_all add: ffs_do_single_desc_def desc_wf_def get8_in not_le)
next
  case True
  define l ty where "l = data ! 0" and "ty = data ! Suc 0"
  have len: "0 < length data" "Suc 0 < length data" "\<not> length data < 2" "\<not> length data < unat l" "2 \<le> length data"
    "unat l \<le> length data" using True by (auto simp: l_def)
  note base = ffs_do_single_desc_def desc_wf_def get8_in [OF len(1)] get8_in [OF len(2)] len
    l_def [symmetric] ty_def [symmetric] One_nat_def
  have entities: "desc_entities (take n data) = desc_entities data"
    if "2 \<le> n" "n \<le> length data" "ty = USB_DT_INTERFACE \<Longrightarrow> n = 9" "ty = USB_DT_ENDPOINT \<Longrightarrow> 7 \<le> n"
      "ty = USB_DT_INTERFACE_ASSOCIATION \<Longrightarrow> n = 8" for n
    using that by (auto simp: desc_entities_def ty_def)
  have none: "desc_entities (take n data) = []"
    if "ty \<noteq> USB_DT_INTERFACE" "ty \<noteq> USB_DT_ENDPOINT" "ty \<noteq> USB_DT_INTERFACE_ASSOCIATION" for n
    using that by (simp add: desc_entities_def ty_def)
  consider (iface) "ty = USB_DT_INTERFACE" | (ep) "ty = USB_DT_ENDPOINT" | (assoc) "ty = USB_DT_INTERFACE_ASSOCIATION"
    | (plain) "ty \<noteq> USB_DT_INTERFACE" "ty \<noteq> USB_DT_ENDPOINT" "ty \<noteq> USB_DT_INTERFACE_ASSOCIATION" by blast
  then show ?thesis
  proof cases
    case iface
    show ?thesis
    proof (cases "l = 9")
      case True
      then have "8 < length data" "2 < length data" using len by auto
      then show ?thesis
        using True iface entities [of 9]
        by (simp add: base desc_lengths_def get8_in desc_entities_def string_entity_def bindS_assoc bindS_unit cong: if_cong)
    next
      case False
      then show ?thesis using iface by (simp add: base desc_lengths_def unat_u8_eq)
    qed
  next
    case ep
    show ?thesis
    proof (cases "l = 7 \<or> l = 9")
      case True
      then have le: "7 \<le> unat l" "2 < length data" using len by auto
      then show ?thesis
        using True ep len entities [of "unat l"]
        by (auto simp add: base desc_lengths_def get8_in [OF le(2)] desc_entities_def bindS_assoc bindS_unit unat_u8_eq)
    next
      case False
      then show ?thesis using ep by (simp add: base desc_lengths_def unat_u8_eq)
    qed
  next
    case assoc
    show ?thesis
    proof (cases "l = 8")
      case True
      then have le: "7 < length data" "8 \<le> length data" using len by auto
      have es: "desc_entities (take 8 data) = string_entity (data ! 7)"
        using assoc le len by (simp add: desc_entities_def ty_def)
      show ?thesis
        by (simp add: base desc_lengths_def True assoc es get8_in [OF le(1)])
           (simp add: string_entity_def bindS_assoc)
    next
      case False
      then show ?thesis using assoc by (simp add: base desc_lengths_def unat_u8_eq)
    qed
  next
    case plain
    then show ?thesis by (auto simp: base desc_lengths_def none unat_u8_eq)
  qed
qed

subsection \<open>What a run of descriptors records\<close>

text \<open>
  A reference for \<open>ffs_do_descs\<close> with the callback \<open>__ffs_data_do_entity\<close>: no offsets, no reads,
  and no fault.
\<close>

definition record_entity :: "ffs_entity \<Rightarrow> ffs_desc_helper \<Rightarrow> unit res \<times> ffs_desc_helper" where
  "record_entity e h = (if \<not> entity_check e then (Err EINVAL, h) else case e of
     FFS_DESCRIPTOR n \<Rightarrow> (Ok (), h)
   | FFS_INTERFACE v \<Rightarrow>
       (Ok (), if ucast v \<ge> h_interfaces_count h then h\<lparr>h_interfaces_count := ucast v + 1\<rparr> else h)
   | FFS_STRING v \<Rightarrow>
       (Ok (), if ucast v > strings_count (h_ffs h)
               then h\<lparr>h_ffs := (h_ffs h)\<lparr>strings_count := ucast v\<rparr>\<rparr> else h)
   | FFS_ENDPOINT v \<Rightarrow>
       (let h = h\<lparr>h_eps_count := h_eps_count h + 1\<rparr>; n = unat (h_eps_count h); ffs = h_ffs h
        in if n \<ge> FFS_MAX_EPS_COUNT then (Err EINVAL, h)
           else if eps_count ffs = 0 \<and> interfaces_count ffs = 0
           then (Ok (), h\<lparr>h_ffs := ffs\<lparr>eps_addrmap := (eps_addrmap ffs)[n := v]\<rparr>\<rparr>)
           else if eps_addrmap ffs ! n \<noteq> v then (Err EINVAL, h) else (Ok (), h)))"

fun record_all :: "ffs_entity list \<Rightarrow> ffs_desc_helper \<Rightarrow> unit res \<times> ffs_desc_helper" where
  "record_all [] h = (Ok (), h)"
| "record_all (e # es) h = bindS (record_entity e h) (\<lambda>_ h. record_all es h)"

fun ref_descs :: "nat \<Rightarrow> u8 list \<Rightarrow> ffs_desc_helper \<Rightarrow> u8 list res \<times> ffs_desc_helper" where
  "ref_descs 0 data h = (Ok data, h)"
| "ref_descs (Suc k) data h =
     (if desc_wf data
      then bindS (record_all (desc_entities (take (unat (data ! 0)) data)) h)
                 (\<lambda>_ h. ref_descs k (drop (unat (data ! 0)) data) h)
      else (Err EINVAL, h))"

abbreviation addrmap_full :: "ffs_desc_helper \<Rightarrow> bool" where
  "addrmap_full h \<equiv> length (eps_addrmap (h_ffs h)) = FFS_MAX_EPS_COUNT"

lemma bindS_cong:
  "(\<And>x s. p = (Ok x, s) \<Longrightarrow> f x s = g x s) \<Longrightarrow> bindS p f = bindS p g"
  by (cases p; cases "fst p") auto

lemma record_entity_full: "addrmap_full h \<Longrightarrow> addrmap_full (snd (record_entity e h))"
  by (cases e) (simp_all add: record_entity_def Let_def)

lemma record_all_full: "addrmap_full h \<Longrightarrow> addrmap_full (snd (record_all es h))"
proof (induction es arbitrary: h)
  case (Cons e es)
  then show ?case
    using record_entity_full [OF Cons.prems, of e]
    by (cases "record_entity e h"; cases "fst (record_entity e h)") auto
qed simp

lemma ref_descs_full: "addrmap_full h \<Longrightarrow> addrmap_full (snd (ref_descs k data h))"
proof (induction k arbitrary: data h)
  case (Suc k)
  let ?es = "desc_entities (take (unat (data ! 0)) data)"
  show ?case
    using Suc.IH record_all_full [OF Suc.prems, of ?es] Suc.prems
    by (cases "record_all ?es h"; cases "fst (record_all ?es h)") auto
qed simp

lemma do_entity_record:
  assumes "addrmap_full h" and "\<And>v. e = FFS_ENDPOINT v \<Longrightarrow> 2 < length ds \<and> ds ! 2 = v"
  shows "do_entity data_do_entity e ds h = record_entity e h"
  using assms by (cases e) (auto simp: do_entity_def data_do_entity_def record_entity_def Let_def get8_in)

lemma run_entities_record:
  assumes "addrmap_full h" and "\<And>v. FFS_ENDPOINT v \<in> set es \<Longrightarrow> 2 < length ds \<and> ds ! 2 = v"
  shows "run_entities data_do_entity ds es h = record_all es h"
  using assms
proof (induction es arbitrary: h)
  case (Cons e es)
  have head: "do_entity data_do_entity e ds h = record_entity e h"
    using Cons.prems by (intro do_entity_record) auto
  have "run_entities data_do_entity ds es s = record_all es s" if "record_entity e h = (Ok x, s)" for x s
    using record_entity_full [OF Cons.prems(1), of e] Cons.prems(2) that by (intro Cons.IH) auto
  then show ?case by (auto simp: head intro!: bindS_cong)
qed simp

lemma desc_entities_endpoint:
  assumes "desc_wf data" and "FFS_ENDPOINT v \<in> set (desc_entities (take (unat (data ! 0)) data))"
  shows "2 < length data \<and> data ! 2 = v"
  using assms
  by (auto simp: desc_wf_def desc_entities_def string_entity_def desc_lengths_def unat_u8_eq
      split: if_splits)

lemma do_descs_loop_ref:
  "addrmap_full h \<Longrightarrow> do_descs_loop data_do_entity k num data h = ref_descs k data h"
proof (induction k arbitrary: num data h)
  case 0
  then show ?case by (simp add: data_do_entity_def)
next
  case (Suc k)
  have step: "do_descs_loop data_do_entity (Suc k) num data h =
    bindS (ffs_do_single_desc data_do_entity data h) (\<lambda>ret s.
      advance ret data (\<lambda>data s. do_descs_loop data_do_entity k (Suc num) data s) s)"
    by (simp add: data_do_entity_def)
  show ?case
  proof (cases "desc_wf data")
    case True
    let ?n = "unat (data ! 0)" and ?es = "desc_entities (take (unat (data ! 0)) data)"
    have le: "?n \<le> length data" using True by (simp add: desc_wf_def)
    have run: "run_entities data_do_entity data ?es h = record_all ?es h"
      using True Suc.prems by (intro run_entities_record desc_entities_endpoint) auto
    have "do_descs_loop data_do_entity k (Suc num) (drop ?n data) s = ref_descs k (drop ?n data) s"
      if "record_all ?es h = (Ok x, s)" for x s
      using record_all_full [OF Suc.prems, of ?es] that by (intro Suc.IH) simp
    then show ?thesis
      using True le
      by (auto simp: step do_single_desc_eq bindS_assoc advance_def run intro!: bindS_cong
          simp del: do_descs_loop.simps)
  next
    case False
    then show ?thesis by (simp add: step do_single_desc_eq del: do_descs_loop.simps)
  qed
qed

lemma record_entity_no_fault [no_fault_intros]: "no_fault (record_entity e h)"
  by (cases e) (simp_all add: record_entity_def Let_def)

lemma record_all_no_fault [no_fault_intros]: "no_fault (record_all es h)"
  by (induction es arbitrary: h) (auto intro: no_fault_intros)

lemma ref_descs_no_fault [no_fault_intros]: "no_fault (ref_descs k data h)"
  by (induction k arbitrary: data h) (auto intro: no_fault_intros)

lemma ref_descs_rest:
  "ref_descs k data h = (Ok rest, h') \<Longrightarrow> \<exists>n \<le> length data. rest = drop n data"
proof (induction k arbitrary: data h)
  case 0
  then show ?case by (auto intro: exI [of _ 0])
next
  case (Suc k)
  then have wf: "desc_wf data" by (auto split: if_splits)
  with Suc.prems obtain s where "ref_descs k (drop (unat (data ! 0)) data) s = (Ok rest, h')"
    by (auto elim: bindS_Ok)
  from Suc.IH [OF this] obtain n where "n \<le> length (drop (unat (data ! 0)) data)"
    and "rest = drop n (drop (unat (data ! 0)) data)" by blast
  then show ?case using wf by (intro exI [of _ "n + unat (data ! 0)"]) (auto simp: desc_wf_def)
qed

subsection \<open>What an accepted run of descriptors means\<close>

text \<open>Cutting the data into descriptors, and what a list of descriptors declares.\<close>

fun split_descs :: "nat \<Rightarrow> u8 list \<Rightarrow> (u8 list list \<times> u8 list) option" where
  "split_descs 0 data = Some ([], data)"
| "split_descs (Suc k) data =
     (if desc_wf data
      then map_option (\<lambda>(cs, rest). (take (unat (data ! 0)) data # cs, rest))
             (split_descs k (drop (unat (data ! 0)) data))
      else None)"

definition entities_of :: "u8 list list \<Rightarrow> ffs_entity list" where
  "entities_of ds = concat (map desc_entities ds)"

definition endpoints_of :: "ffs_entity list \<Rightarrow> u8 list" where
  "endpoints_of es = concat (map (\<lambda>e. case e of FFS_ENDPOINT v \<Rightarrow> [v] | _ \<Rightarrow> []) es)"

definition interfaces_of :: "ffs_entity list \<Rightarrow> nat list" where
  "interfaces_of es = concat (map (\<lambda>e. case e of FFS_INTERFACE v \<Rightarrow> [unat v + 1] | _ \<Rightarrow> []) es)"

definition strings_of :: "ffs_entity list \<Rightarrow> nat list" where
  "strings_of es = concat (map (\<lambda>e. case e of FFS_STRING v \<Rightarrow> [unat v] | _ \<Rightarrow> []) es)"

lemmas of_defs = endpoints_of_def interfaces_of_def strings_of_def

lemma of_append [simp]:
  "endpoints_of (xs @ ys) = endpoints_of xs @ endpoints_of ys"
  "interfaces_of (xs @ ys) = interfaces_of xs @ interfaces_of ys"
  "strings_of (xs @ ys) = strings_of xs @ strings_of ys"
  by (simp_all add: of_defs)

lemma ref_descs_split:
  "ref_descs k data h = (Ok rest, h') \<Longrightarrow>
     \<exists>ds. split_descs k data = Some (ds, rest) \<and> record_all (entities_of ds) h = (Ok (), h')"
proof (induction k arbitrary: data h)
  case (Suc k)
  let ?n = "unat (data ! 0)"
  from Suc.prems have wf: "desc_wf data" by (auto split: if_splits)
  with Suc.prems obtain s where head: "record_all (desc_entities (take ?n data)) h = (Ok (), s)"
    and tail: "ref_descs k (drop ?n data) s = (Ok rest, h')"
    by (auto elim: bindS_Ok)
  from Suc.IH [OF tail] obtain ds where ds: "split_descs k (drop ?n data) = Some (ds, rest)"
    "record_all (entities_of ds) s = (Ok (), h')" by blast
  have "record_all (xs @ ys) g = bindS (record_all xs g) (\<lambda>_ g. record_all ys g)" for xs ys g
    by (induction xs arbitrary: g) (auto simp: bindS_assoc intro!: bindS_cong)
  then show ?case using wf head ds by (auto simp: entities_of_def)
qed (simp add: entities_of_def)

text \<open>The change a run of entities makes to the counts and the endpoint map.\<close>

abbreviation first_speed :: "ffs_data \<Rightarrow> bool" where
  "first_speed ffs \<equiv> eps_count ffs = 0 \<and> interfaces_count ffs = 0"

definition recorded :: "ffs_entity list \<Rightarrow> ffs_desc_helper \<Rightarrow> ffs_desc_helper \<Rightarrow> bool" where
  "recorded es h h' \<longleftrightarrow>
     unat (h_eps_count h') = unat (h_eps_count h) + length (endpoints_of es)
   \<and> unat (h_eps_count h') < FFS_MAX_EPS_COUNT
   \<and> unat (h_interfaces_count h') = fold max (interfaces_of es) (unat (h_interfaces_count h))
   \<and> unat (strings_count (h_ffs h')) = fold max (strings_of es) (unat (strings_count (h_ffs h)))
   \<and> h_ffs h' = (h_ffs h)\<lparr>eps_addrmap := eps_addrmap (h_ffs h'), strings_count := strings_count (h_ffs h')\<rparr>
   \<and> take (Suc (unat (h_eps_count h'))) (eps_addrmap (h_ffs h')) =
       take (Suc (unat (h_eps_count h))) (eps_addrmap (h_ffs h)) @ endpoints_of es
   \<and> (\<not> first_speed (h_ffs h) \<longrightarrow> eps_addrmap (h_ffs h') = eps_addrmap (h_ffs h))"

lemma recorded_refl: "unat (h_eps_count h) < FFS_MAX_EPS_COUNT \<Longrightarrow> recorded [] h h"
  by (simp add: recorded_def of_defs)

lemma ffs_update_trans:
  fixes f g k :: ffs_data
  assumes "g = f\<lparr>eps_addrmap := a, strings_count := b\<rparr>" and "k = g\<lparr>eps_addrmap := c, strings_count := d\<rparr>"
  shows "k = f\<lparr>eps_addrmap := c, strings_count := d\<rparr>" and "first_speed g = first_speed f"
  using assms by simp_all

lemma recordedD:
  assumes "recorded es h h'"
  shows "unat (h_eps_count h') = unat (h_eps_count h) + length (endpoints_of es)"
    and "unat (h_eps_count h') < FFS_MAX_EPS_COUNT"
    and "unat (h_interfaces_count h') = fold max (interfaces_of es) (unat (h_interfaces_count h))"
    and "unat (strings_count (h_ffs h')) = fold max (strings_of es) (unat (strings_count (h_ffs h)))"
    and "h_ffs h' = (h_ffs h)\<lparr>eps_addrmap := eps_addrmap (h_ffs h'), strings_count := strings_count (h_ffs h')\<rparr>"
    and "take (Suc (unat (h_eps_count h'))) (eps_addrmap (h_ffs h')) =
       take (Suc (unat (h_eps_count h))) (eps_addrmap (h_ffs h)) @ endpoints_of es"
    and "\<not> first_speed (h_ffs h) \<longrightarrow> eps_addrmap (h_ffs h') = eps_addrmap (h_ffs h)"
  using assms unfolding recorded_def by blast+

lemma recorded_trans:
  assumes "recorded xs h1 h2" and "recorded ys h2 h3"
  shows "recorded (xs @ ys) h1 h3"
proof -
  note a = recordedD [OF assms(1)] and b = recordedD [OF assms(2)]
  note ffs = ffs_update_trans [OF a(5) b(5)]
  show ?thesis
    unfolding recorded_def of_append
  proof (intro conjI ffs(1))
    show "unat (h_eps_count h3) = unat (h_eps_count h1) + length (endpoints_of xs @ endpoints_of ys)"
      using a(1) b(1) by simp
    show "unat (h_interfaces_count h3) =
        fold max (interfaces_of xs @ interfaces_of ys) (unat (h_interfaces_count h1))"
      unfolding b(3) a(3) by simp
    show "unat (strings_count (h_ffs h3)) =
        fold max (strings_of xs @ strings_of ys) (unat (strings_count (h_ffs h1)))"
      unfolding b(4) a(4) by simp
    show "take (Suc (unat (h_eps_count h3))) (eps_addrmap (h_ffs h3)) =
        take (Suc (unat (h_eps_count h1))) (eps_addrmap (h_ffs h1)) @ endpoints_of xs @ endpoints_of ys"
      unfolding b(6) a(6) by simp
    show "\<not> first_speed (h_ffs h1) \<longrightarrow> eps_addrmap (h_ffs h3) = eps_addrmap (h_ffs h1)"
      using a(7) b(7) ffs(2) by simp
  qed (rule b(2))
qed

lemma take_Suc_update:
  "n < length xs \<Longrightarrow> take (Suc n) (xs[n := v]) = take n xs @ [v]"
  by (simp add: take_Suc_conv_app_nth)

lemma unat_eps_Suc: "unat (c :: u32) < 31 \<Longrightarrow> unat (c + 1) = Suc (unat c)"
  by (simp add: unat_word_ariths(1))

lemma unat_ucast_8:
  "unat (ucast (v :: u8) :: u32) = unat v" "unat (ucast v :: u16) = unat v"
  using unat_lt_8 [of v] by (simp_all add: unsigned_ucast_eq take_bit_nat_eq_self)

lemma record_entity_recorded:
  assumes "record_entity e h = (Ok (), h')" and "addrmap_full h" and "unat (h_eps_count h) < FFS_MAX_EPS_COUNT"
  shows "recorded [e] h h'"
proof (cases e)
  case (FFS_DESCRIPTOR n)
  then show ?thesis using assms by (simp add: record_entity_def recorded_def of_defs)
next
  case (FFS_INTERFACE v)
  have "unat (ucast v + 1 :: u32) = unat v + 1" using unat_lt_8 [of v] by (simp add: unat_word_ariths unat_ucast_8)
  then show ?thesis
    using FFS_INTERFACE assms
    by (auto simp add: record_entity_def recorded_def of_defs word_le_nat_alt unat_ucast_8)
next
  case (FFS_STRING v)
  then show ?thesis using assms
    by (auto simp: record_entity_def recorded_def of_defs word_less_nat_alt unat_ucast_8 split: if_splits)
next
  case (FFS_ENDPOINT v)
  let ?n = "unat (h_eps_count h + 1)"
  have n: "?n = Suc (unat (h_eps_count h))" using assms by (simp add: unat_eps_Suc)
  have lt: "?n < 31" and h': "if first_speed (h_ffs h)
       then h' = h\<lparr>h_eps_count := h_eps_count h + 1, h_ffs := (h_ffs h)\<lparr>eps_addrmap := (eps_addrmap (h_ffs h))[?n := v]\<rparr>\<rparr>
       else eps_addrmap (h_ffs h) ! ?n = v \<and> h' = h\<lparr>h_eps_count := h_eps_count h + 1\<rparr>"
    using assms FFS_ENDPOINT by (auto simp: record_entity_def Let_def split: if_splits)
  have "take (Suc ?n) (eps_addrmap (h_ffs h')) = take ?n (eps_addrmap (h_ffs h)) @ [v]"
    using lt h' assms(2) by (auto simp: take_Suc_update take_Suc_conv_app_nth split: if_splits)
  then show ?thesis
    using lt h' n FFS_ENDPOINT by (auto simp: recorded_def of_defs split: if_splits)
qed

lemma record_all_recorded:
  "record_all es h = (Ok (), h') \<Longrightarrow> addrmap_full h \<Longrightarrow> unat (h_eps_count h) < FFS_MAX_EPS_COUNT
     \<Longrightarrow> recorded es h h'"
proof (induction es arbitrary: h)
  case Nil
  then show ?case by (simp add: recorded_refl)
next
  case (Cons e es)
  then obtain s where e: "record_entity e h = (Ok (), s)" and es: "record_all es s = (Ok (), h')"
    by (auto elim: bindS_Ok)
  have head: "recorded [e] h s" using record_entity_recorded [OF e Cons.prems(2,3)] .
  moreover have "recorded es s h'"
    using record_entity_full [OF Cons.prems(2), of e] e head
    by (intro Cons.IH [OF es]) (simp_all add: recorded_def)
  ultimately show ?case using recorded_trans [of "[e]" h s es h'] by simp
qed

subsection \<open>What the speeds of an accepted message have in common\<close>

fun split_speeds :: "u32 list \<Rightarrow> u8 list \<Rightarrow> (u8 list list list \<times> u8 list) option" where
  "split_speeds [] data = Some ([], data)"
| "split_speeds (c # cs) data = (case split_descs (unat c) data of
     None \<Rightarrow> None
   | Some (ds, rest) \<Rightarrow> map_option (\<lambda>(dss, rest). (ds # dss, rest)) (split_speeds cs rest))"

definition declares_nothing :: "u8 list list \<Rightarrow> bool" where
  "declares_nothing ds \<longleftrightarrow> endpoints_of (entities_of ds) = [] \<and> interfaces_of (entities_of ds) = []"

definition declares :: "ffs_data \<Rightarrow> u8 list list \<Rightarrow> bool" where
  "declares ffs ds \<longleftrightarrow>
     endpoints_of (entities_of ds) = take (unat (eps_count ffs)) (tl (eps_addrmap ffs))
   \<and> length (endpoints_of (entities_of ds)) = unat (eps_count ffs)
   \<and> fold max (interfaces_of (entities_of ds)) 0 = unat (interfaces_count ffs)"

lemma interfaces_of_pos: "x \<in> set (interfaces_of es) \<Longrightarrow> 0 < x"
  by (auto simp: interfaces_of_def split: ffs_entity.splits)

lemma interfaces_of_le: "x \<in> set (interfaces_of es) \<Longrightarrow> x \<le> 256"
  using unat_lt_8 by (auto simp: interfaces_of_def Suc_le_eq split: ffs_entity.splits)

lemma fold_max_ge:
  fixes m :: nat
  shows "m \<le> fold max xs m" and "x \<in> set xs \<Longrightarrow> x \<le> fold max xs m"
proof -
  show base: "m \<le> fold max xs m" for xs and m :: nat
    by (induction xs arbitrary: m) (simp, metis fold_simps(2) max.bounded_iff)
  show "x \<in> set xs \<Longrightarrow> x \<le> fold max xs m"
  proof (induction xs arbitrary: m)
    case (Cons y ys)
    then show ?case using base [of "max y m" ys] by auto
  qed simp
qed

lemma fold_max_le: "(\<And>x. x \<in> set xs \<Longrightarrow> x \<le> b) \<Longrightarrow> m \<le> b \<Longrightarrow> fold max xs (m :: nat) \<le> b"
  by (induction xs arbitrary: m) auto

lemma no_interfaces: "fold max (interfaces_of es) 0 = 0 \<longleftrightarrow> interfaces_of es = []"
proof
  assume "fold max (interfaces_of es) 0 = 0"
  then have "x \<le> 0" if "x \<in> set (interfaces_of es)" for x using fold_max_ge(2) [OF that, of 0] by simp
  then show "interfaces_of es = []" using interfaces_of_pos [of _ es] by (cases "interfaces_of es") force+
qed simp

lemma unat_ucast_16: "unat (ucast (c :: u32) :: u16) = unat c" if "unat c < 65536" for c
  using that by (simp add: unsigned_ucast_eq take_bit_nat_eq_self)

lemma unat_ucast_16_up: "c = ucast (e :: u16) \<Longrightarrow> unat e = unat (c :: u32)"
  using unat_lt_16 [of e] by (simp add: unsigned_ucast_eq take_bit_nat_eq_self)

text \<open>One speed: the descriptors, and the helper they leave.\<close>

lemma one_speed:
  assumes run: "ffs_do_descs data_do_entity c data \<lparr>h_ffs = ffs, h_interfaces_count = 0, h_eps_count = 0\<rparr> = (Ok ret, h)"
    and full: "length (eps_addrmap ffs) = FFS_MAX_EPS_COUNT"
  obtains ds where "split_descs (unat c) data = Some (ds, drop ret data)" and "ret \<le> length data"
    and "recorded (entities_of ds) \<lparr>h_ffs = ffs, h_interfaces_count = 0, h_eps_count = 0\<rparr> h"
    and "unat (ucast (h_eps_count h) :: u16) = unat (h_eps_count h)"
    and "unat (ucast (h_interfaces_count h) :: u16) = unat (h_interfaces_count h)"
    and "length (eps_addrmap (h_ffs h)) = FFS_MAX_EPS_COUNT"
proof -
  let ?h = "\<lparr>h_ffs = ffs, h_interfaces_count = 0, h_eps_count = 0\<rparr>"
  from run full obtain rest where ref: "ref_descs (unat c) data ?h = (Ok rest, h)"
    and ret: "ret = length data - length rest"
    by (auto simp: ffs_do_descs_def do_descs_loop_ref elim!: bindS_Ok)
  from ref_descs_split [OF ref] obtain ds where ds: "split_descs (unat c) data = Some (ds, rest)"
    and all: "record_all (entities_of ds) ?h = (Ok (), h)" by blast
  have rec: "recorded (entities_of ds) ?h h" using all full by (intro record_all_recorded) auto
  have "fold max (interfaces_of (entities_of ds)) 0 \<le> 256"
    by (rule fold_max_le) (auto dest: interfaces_of_le)
  then have "unat (h_interfaces_count h) < 65536" "unat (h_eps_count h) < 65536"
    using recordedD(2,3) [OF rec] by auto
  moreover have "rest = drop ret data" "ret \<le> length data" using ref_descs_rest [OF ref] ret by auto
  moreover have "length (eps_addrmap (h_ffs h)) = FFS_MAX_EPS_COUNT"
    using record_all_full [of ?h "entities_of ds"] all full by simp
  ultimately show thesis using that ds rec by (simp add: unat_ucast_16)
qed

lemma recorded_declares:
  assumes "recorded (entities_of ds) \<lparr>h_ffs = ffs, h_interfaces_count = 0, h_eps_count = 0\<rparr> h"
    and "unat (eps_count ffs') = unat (h_eps_count h)"
    and "unat (interfaces_count ffs') = unat (h_interfaces_count h)"
    and "eps_addrmap ffs' = eps_addrmap (h_ffs h)"
    and full: "length (eps_addrmap ffs) = FFS_MAX_EPS_COUNT"
  shows "declares ffs' ds"
proof -
  note r = recordedD [OF assms(1)]
  have "take (Suc (unat (h_eps_count h))) (eps_addrmap (h_ffs h)) = take 1 (eps_addrmap ffs) @ endpoints_of (entities_of ds)"
    using r(6) by simp
  then have "tl (take (Suc (unat (h_eps_count h))) (eps_addrmap (h_ffs h))) = endpoints_of (entities_of ds)"
    by (cases "eps_addrmap ffs") (use full in auto)
  then show ?thesis using r(1,3) assms(2-4) by (simp add: declares_def tl_take)
qed

text \<open>All speeds: those that declare anything declare the same.\<close>

lemma descs_speeds_Ok:
  assumes "descs_speeds cs data ffs = (Ok rest, ffs')"
    and "length (eps_addrmap ffs) = FFS_MAX_EPS_COUNT"
  shows "\<exists>dss. split_speeds cs data = Some (dss, rest)
    \<and> (\<forall>ds \<in> set dss. (first_speed ffs \<and> declares_nothing ds) \<or> ds = [] \<or> declares ffs' ds)
    \<and> (\<not> first_speed ffs \<longrightarrow> eps_count ffs' = eps_count ffs \<and> interfaces_count ffs' = interfaces_count ffs
          \<and> eps_addrmap ffs' = eps_addrmap ffs)
    \<and> unat (strings_count ffs') = fold max (strings_of (entities_of (concat dss))) (unat (strings_count ffs))
    \<and> (unat (eps_count ffs) < FFS_MAX_EPS_COUNT \<longrightarrow> unat (eps_count ffs') < FFS_MAX_EPS_COUNT)"
  using assms
proof (induction cs arbitrary: data ffs)
  case Nil
  then show ?case by (auto simp: entities_of_def of_defs)
next
  case (Cons c cs)
  show ?case
  proof (cases "c = 0")
    case True
    then have "descs_speeds cs data ffs = (Ok rest, ffs')" using Cons.prems by simp
    from Cons.IH [OF this Cons.prems(2)] True show ?thesis by (auto simp: entities_of_def)
  next
    case False
    let ?h = "\<lparr>h_ffs = ffs, h_interfaces_count = 0, h_eps_count = 0\<rparr>"
    obtain r h where run: "ffs_do_descs data_do_entity c data ?h = (r, h)" by fastforce
    from Cons.prems False run obtain ret where r: "r = Ok ret" by (cases r) auto
    from one_speed [OF run [unfolded r] Cons.prems(2)] obtain ds where
      ds: "split_descs (unat c) data = Some (ds, drop ret data)" "ret \<le> length data"
      and rec: "recorded (entities_of ds) ?h h"
      and casts: "unat (ucast (h_eps_count h) :: u16) = unat (h_eps_count h)"
        "unat (ucast (h_interfaces_count h) :: u16) = unat (h_interfaces_count h)"
      and full: "length (eps_addrmap (h_ffs h)) = FFS_MAX_EPS_COUNT" by metis
    note d = recordedD [OF rec]
    have same: "eps_count (h_ffs h) = eps_count ffs" "interfaces_count (h_ffs h) = interfaces_count ffs"
      using arg_cong [OF d(5), of eps_count] arg_cong [OF d(5), of interfaces_count] by simp_all
    define ffs1 where "ffs1 = (if first_speed ffs
       then (h_ffs h)\<lparr>eps_count := ucast (h_eps_count h), interfaces_count := ucast (h_interfaces_count h)\<rparr>
       else h_ffs h)"
    have rest: "descs_speeds cs (drop ret data) ffs1 = (Ok rest, ffs')"
      and counts: "unat (eps_count ffs1) = unat (h_eps_count h)"
        "unat (interfaces_count ffs1) = unat (h_interfaces_count h)"
      using Cons.prems(1) False run r ds(2) same casts
      by (auto simp: ffs1_def advance_def unat_ucast_16_up split: if_splits)
    have full1: "length (eps_addrmap ffs1) = FFS_MAX_EPS_COUNT"
      and map1: "eps_addrmap ffs1 = eps_addrmap (h_ffs h)"
      and strs1: "strings_count ffs1 = strings_count (h_ffs h)"
      using full by (auto simp: ffs1_def)
    have later: "eps_count ffs1 = eps_count ffs \<and> interfaces_count ffs1 = interfaces_count ffs
        \<and> eps_addrmap ffs1 = eps_addrmap ffs" if "\<not> first_speed ffs"
      using that same d(7) by (auto simp: ffs1_def)
    from Cons.IH [OF rest full1] obtain dss where
      dss: "split_speeds cs (drop ret data) = Some (dss, rest)"
      and each: "\<forall>ds \<in> set dss. (first_speed ffs1 \<and> declares_nothing ds) \<or> ds = [] \<or> declares ffs' ds"
      and kept: "\<not> first_speed ffs1 \<longrightarrow> eps_count ffs' = eps_count ffs1
         \<and> interfaces_count ffs' = interfaces_count ffs1 \<and> eps_addrmap ffs' = eps_addrmap ffs1"
      and strs: "unat (strings_count ffs') = fold max (strings_of (entities_of (concat dss))) (unat (strings_count ffs1))"
      and eps: "unat (eps_count ffs1) < FFS_MAX_EPS_COUNT \<longrightarrow> unat (eps_count ffs') < FFS_MAX_EPS_COUNT"
      by blast
    have this_speed: "(first_speed ffs \<and> declares_nothing ds) \<or> declares ffs' ds"
    proof (cases "first_speed ffs1")
      case True
      then have "declares_nothing ds" using counts d(1,3) no_interfaces by (simp add: declares_nothing_def)
      then show ?thesis using True later by auto
    next
      case False
      then show ?thesis using recorded_declares [OF rec _ _ _ Cons.prems(2)] kept counts map1 by auto
    qed
    have "first_speed ffs1 \<Longrightarrow> first_speed ffs" using later by auto
    then have each': "\<forall>ds \<in> set dss. (first_speed ffs \<and> declares_nothing ds) \<or> ds = [] \<or> declares ffs' ds"
      using each by blast
    have strings: "unat (strings_count ffs') =
        fold max (strings_of (entities_of (concat (ds # dss)))) (unat (strings_count ffs))"
      using d(4) strs by (simp add: entities_of_def strs1)
    have less: "unat (eps_count ffs') < FFS_MAX_EPS_COUNT" using eps counts d(2) by simp
    show ?thesis
      using ds(1) dss this_speed each' strings less later kept
      by (intro exI [of _ "ds # dss"]) auto
  qed
qed

subsection \<open>The Microsoft OS descriptors\<close>

text \<open>
  What the loops over OS descriptors need of the callback: it does not fault, takes no more than
  there is, and rewrites the data in place.
\<close>

locale os_desc_callback =
  fixes entity :: "'s ffs_os_desc_callback"
  assumes callback_no_fault: "USB_OS_DESC_HEADER_SIZE \<le> length h \<Longrightarrow> no_fault (entity type h data s)"
    and takes: "entity type h data s = (Ok (ret, data'), s') \<Longrightarrow> ret \<le> length data' \<and> length data' = length data"
begin

lemma single_no_fault:
  "USB_OS_DESC_HEADER_SIZE \<le> length h \<Longrightarrow> no_fault (ffs_do_single_os_desc entity type h n data s)"
proof (induction n arbitrary: data s)
  case (Suc n)
  then show ?case
    by (auto intro!: no_fault_intros callback_no_fault dest: takes split: prod.splits)
qed simp

lemma single_length:
  "ffs_do_single_os_desc entity type h n data s = (Ok (taken, rest), s')
     \<Longrightarrow> length taken + length rest = length data"
proof (induction n arbitrary: data s taken)
  case (Suc n)
  then obtain ret data' t more where e: "entity type h data s = (Ok (ret, data'), t)"
    and tail: "ffs_do_single_os_desc entity type h n (drop ret data') t = (Ok (more, rest), s')"
    and taken: "taken = take ret data' @ more"
    by (auto elim!: bindS_Ok simp: advance_def split: if_splits)
  show ?case using Suc.IH [OF tail] takes [OF e] taken by auto
qed simp

lemma header_size:
  "ffs_do_os_desc_header data s = (Ok (type, ret), s') \<Longrightarrow> ret = USB_OS_DESC_HEADER_SIZE"
  by (auto simp: ffs_do_os_desc_header_def get_defs split: option.splits if_splits)

lemma header_no_fault:
  "USB_OS_DESC_HEADER_SIZE \<le> length data \<Longrightarrow> no_fault (ffs_do_os_desc_header data s)"
  unfolding ffs_do_os_desc_header_def by (intro no_fault_intros) auto

lemma all_no_fault: "no_fault (ffs_do_os_descs entity n data s)"
proof (induction n arbitrary: data s)
  case (Suc n)
  then show ?case
    by (auto intro!: no_fault_intros header_no_fault single_no_fault dest: header_size split: prod.splits)
qed simp

lemma all_length:
  "ffs_do_os_descs entity n data s = (Ok (taken, rest), s') \<Longrightarrow> length taken + length rest = length data"
proof (induction n arbitrary: data s taken)
  case (Suc n)
  from Suc.prems obtain type k t1 t2 mid rest1 more where "11 \<le> length data"
    and one: "ffs_do_single_os_desc entity type data k (drop 11 data) t1 = (Ok (mid, rest1), t2)"
    and more: "ffs_do_os_descs entity n rest1 t2 = (Ok (more, rest), s')"
    and "taken = take 11 data @ mid @ more"
    by (auto elim!: bindS_Ok simp: advance_def get_defs dest!: header_size split: if_splits option.splits)
  then show ?case using single_length [OF one] Suc.IH [OF more] by auto
qed simp

end

lemma data_do_os_desc_no_fault:
  "USB_OS_DESC_HEADER_SIZE \<le> length h \<Longrightarrow> no_fault (data_do_os_desc type h data s)"
  unfolding data_do_os_desc_def
  by (auto intro!: no_fault_intros simp: Let_def not_less split: ffs_os_desc_type.splits)

lemma data_do_os_desc_takes:
  "data_do_os_desc type h data s = (Ok (ret, data'), s') \<Longrightarrow> ret \<le> length data' \<and> length data' = length data"
  by (cases type) (auto simp: data_do_os_desc_def get_defs Let_def split: if_splits option.splits)

interpretation data_os: os_desc_callback data_do_os_desc
  by unfold_locales (rule data_do_os_desc_no_fault, assumption, rule data_do_os_desc_takes)

text \<open>A callback that keeps a property of the state, whatever it returns.\<close>

locale os_desc_callback_keeps = os_desc_callback entity for entity :: "'s ffs_os_desc_callback" +
  fixes P :: "'s \<Rightarrow> bool"
  assumes callback_keeps: "P s \<Longrightarrow> leaves P (entity type h data s)"
begin

lemma single_keeps: "P s \<Longrightarrow> leaves P (ffs_do_single_os_desc entity type h n data s)"
  by (induction n arbitrary: data s) (auto intro!: leaves_intros callback_keeps split: prod.splits)

lemma header_keeps: "P s \<Longrightarrow> leaves P (ffs_do_os_desc_header data s)"
  by (auto simp: ffs_do_os_desc_header_def intro!: leaves_intros)

lemma all_keeps: "P s \<Longrightarrow> leaves P (ffs_do_os_descs entity n data s)"
  by (induction n arbitrary: data s)
     (auto intro!: leaves_intros header_keeps single_keeps split: prod.splits)

end

text \<open>The part of the object that descriptors of the speeds determine.\<close>

definition declared :: "ffs_data \<Rightarrow> u16 \<times> u16 \<times> u16 \<times> u8 list" where
  "declared ffs = (eps_count ffs, interfaces_count ffs, strings_count ffs, eps_addrmap ffs)"

lemma data_do_os_desc_declared: "declared (snd (data_do_os_desc type h data ffs)) = declared ffs"
  by (cases type)
     (auto simp: data_do_os_desc_def get_defs Let_def declared_def split: option.split)

interpretation data_os_declared: os_desc_callback_keeps data_do_os_desc "\<lambda>ffs. declared ffs = d" for d
  by unfold_locales (simp add: leaves_def data_do_os_desc_declared)

subsection \<open>The whole message\<close>

text \<open>The size of the part before the descriptors: magic number, length, flags, event descriptor, counts.\<close>

definition descs_message_flags :: "u8 list \<Rightarrow> u32" where
  "descs_message_flags data = (if le32_at data 0 = Some FUNCTIONFS_DESCRIPTORS_MAGIC then 0x3
     else case le32_at data 8 of Some flags \<Rightarrow> flags | None \<Rightarrow> 0)"

definition descs_header_size :: "u8 list \<Rightarrow> nat" where
  "descs_header_size data =
     (if le32_at data 0 = Some FUNCTIONFS_DESCRIPTORS_MAGIC then 8 else 12)
     + (if bit (descs_message_flags data) FUNCTIONFS_EVENTFD_bit then 4 else 0)
     + 4 * length (filter (bit (descs_message_flags data)) [0, 1, 2, 3])"

lemma descs_flags_no_fault: "12 \<le> length data \<Longrightarrow> no_fault (descs_flags data ffs)"
  by (auto simp: descs_flags_def Let_def intro!: no_fault_intros)

lemma descs_flags_Ok:
  "descs_flags data ffs = (Ok (flags, rest), ffs') \<Longrightarrow>
     flags = descs_message_flags data \<and> declared ffs' = declared ffs
     \<and> rest = drop (if le32_at data 0 = Some FUNCTIONFS_DESCRIPTORS_MAGIC then 8 else 12) data
     \<and> (if le32_at data 0 = Some FUNCTIONFS_DESCRIPTORS_MAGIC then 8 else 12) \<le> length data"
  by (auto simp: descs_flags_def descs_message_flags_def get_defs advance_def declared_def Let_def
      split: option.splits if_splits)

lemma descs_eventfd_no_fault: "no_fault (descs_eventfd fdget flags data ffs)"
  by (auto simp: descs_eventfd_def intro!: no_fault_intros split: option.split)

lemma descs_eventfd_Ok:
  "descs_eventfd fdget flags data ffs = (Ok rest, ffs') \<Longrightarrow>
     declared ffs' = declared ffs \<and> rest = drop (if bit flags FUNCTIONFS_EVENTFD_bit then 4 else 0) data
     \<and> (if bit flags FUNCTIONFS_EVENTFD_bit then 4 else 0) \<le> length data"
  by (auto simp: descs_eventfd_def get_defs advance_def declared_def split: option.splits if_splits)

lemma descs_counts_no_fault: "no_fault (descs_counts is flags data ffs)"
  by (induction "is" flags data ffs rule: descs_counts.induct)
     (auto intro!: no_fault_intros split: prod.splits)

lemma descs_counts_Ok:
  "descs_counts is flags data ffs = (Ok (cs, rest), ffs') \<Longrightarrow>
     ffs' = ffs \<and> length cs = length is \<and> rest = drop (4 * length (filter (bit flags) is)) data
     \<and> 4 * length (filter (bit flags) is) \<le> length data"
proof (induction "is" arbitrary: data cs)
  case (Cons i "is")
  then show ?case
    by (fastforce simp: get_defs advance_def add.commute elim!: bindS_Ok split: if_splits option.splits)
qed simp

lemma descs_speeds_no_fault:
  "length (eps_addrmap ffs) = FFS_MAX_EPS_COUNT \<Longrightarrow> no_fault (descs_speeds cs data ffs)"
proof (induction cs arbitrary: data ffs)
  case (Cons c cs)
  let ?h = "\<lparr>h_ffs = ffs, h_interfaces_count = 0, h_eps_count = 0\<rparr>"
  obtain r h where run: "ffs_do_descs data_do_entity c data ?h = (r, h)" by fastforce
  have "no_fault (ffs_do_descs data_do_entity c data ?h)"
    using Cons.prems by (auto simp: ffs_do_descs_def do_descs_loop_ref intro!: no_fault_intros)
  then have nf: "no_fault (r, h_ffs h)" by (simp add: run no_fault_def)
  have "ret \<le> length data \<and> length (eps_addrmap (h_ffs h)) = FFS_MAX_EPS_COUNT" if "r = Ok ret" for ret
    using one_speed [OF run [unfolded that] Cons.prems] by metis
  with nf show ?case
    using Cons run by (cases r) (auto intro!: no_fault_intros)
qed simp

lemma got_descs_checked_no_fault:
  assumes "16 \<le> length data" and "length (eps_addrmap ffs) = FFS_MAX_EPS_COUNT"
  shows "no_fault (got_descs_checked fdget data ffs)"
  unfolding got_descs_checked_def
  using assms
  by (auto intro!: no_fault_intros descs_flags_no_fault descs_eventfd_no_fault descs_counts_no_fault
      descs_speeds_no_fault data_os.all_no_fault
      dest!: descs_flags_Ok descs_eventfd_Ok descs_counts_Ok simp: declared_def Let_def simp del: descs_counts.simps split: prod.splits)

text \<open>An accepted message: its parts, and what the object then records.\<close>

lemma got_descs_checked_Ok:
  assumes ok: "got_descs_checked fdget data ffs = (Ok u, ffs')"
    and full: "length (eps_addrmap ffs) = FFS_MAX_EPS_COUNT"
  obtains dss os os' where
    "split_speeds [fs_descs_count ffs', hs_descs_count ffs', ss_descs_count ffs']
       (drop (descs_header_size data) data) = Some (dss, os)"
    and "descs_header_size data \<le> length data"
    and "\<forall>ds \<in> set dss. (first_speed ffs \<and> declares_nothing ds) \<or> ds = [] \<or> declares ffs' ds"
    and "unat (strings_count ffs') = fold max (strings_of (entities_of (concat dss))) (unat (strings_count ffs))"
    and "unat (eps_count ffs) < FFS_MAX_EPS_COUNT \<Longrightarrow> unat (eps_count ffs') < FFS_MAX_EPS_COUNT"
    and "raw_descs ffs' = take (length data - descs_header_size data - length os) (drop (descs_header_size data) data) @ os'"
    and "length os' = length os" and "raw_descs ffs' \<noteq> []"
    and "ms_os_descs_count ffs' = 0 \<Longrightarrow> os = []"
    and "raw_descs_data ffs' = Some (take (descs_header_size data) data @ raw_descs ffs')"
proof -
  from ok obtain flags d1 f1 d2 f2 counts raw f3 d4 f4 os' rest f5 where
    flags: "descs_flags data ffs = (Ok (flags, d1), f1)"
    and eventfd: "descs_eventfd fdget flags d1 f1 = (Ok d2, f2)"
    and counts: "descs_counts [0, 1, 2, 3] flags d2 f2 = (Ok (counts, raw), f3)"
    and speeds: "descs_speeds (take 3 counts) raw f3 = (Ok d4, f4)"
    and os: "(if counts ! 3 \<noteq> 0 then ffs_do_os_descs data_do_os_desc (unat (counts ! 3)) d4 f4
            else (Ok ([], d4), f4)) = (Ok (os', rest), f5)"
    and final: "(if take (length raw - length d4) raw @ os' = [] \<or> rest \<noteq> [] then (Err EINVAL, f5)
        else (Ok (), f5\<lparr>raw_descs_data := Some (take (length data - length raw) data @ take (length raw - length d4) raw @ os'),
          raw_descs := take (length raw - length d4) raw @ os', fs_descs_count := counts ! 0, hs_descs_count := counts ! 1,
          ss_descs_count := counts ! 2, ms_os_descs_count := counts ! 3\<rparr>)) = (Ok u, ffs')"
    unfolding got_descs_checked_def
    by (auto elim!: bindS_Ok simp: Let_def simp del: descs_counts.simps)
  have rest: "take (length raw - length d4) raw @ os' \<noteq> []" "rest = []"
    and ffs': "ffs' = f5\<lparr>raw_descs_data := Some (take (length data - length raw) data @ take (length raw - length d4) raw @ os'),
          raw_descs := take (length raw - length d4) raw @ os', fs_descs_count := counts ! 0, hs_descs_count := counts ! 1,
          ss_descs_count := counts ! 2, ms_os_descs_count := counts ! 3\<rparr>"
    using final by (simp_all split: if_splits)
  have hs: "length data - length raw = descs_header_size data" "descs_header_size data \<le> length data"
      "raw = drop (descs_header_size data) data" "length counts = 4" "declared f3 = declared ffs"
  proof -
    define A B C where "A = (if le32_at data 0 = Some FUNCTIONFS_DESCRIPTORS_MAGIC then 8 else 12 :: nat)"
      and "B = (if bit flags FUNCTIONFS_EVENTFD_bit then 4 else 0 :: nat)"
      and "C = 4 * length (filter (bit flags) [0, 1, 2, 3])"
    have 1: "flags = descs_message_flags data" "declared f1 = declared ffs" "d1 = drop A data" "A \<le> length data"
      using descs_flags_Ok [OF flags] by (simp_all add: A_def)
    have 2: "declared f2 = declared f1" "d2 = drop B d1" "B \<le> length d1"
      using descs_eventfd_Ok [OF eventfd] by (simp_all add: B_def)
    have 3: "f3 = f2" "length counts = 4" "raw = drop C d2" "C \<le> length d2"
      using descs_counts_Ok [OF counts] by (simp_all add: C_def)
    have "descs_header_size data = A + B + C"
      using 1(1) by (simp add: descs_header_size_def A_def B_def C_def)
    then show "length data - length raw = descs_header_size data" "descs_header_size data \<le> length data"
      "raw = drop (descs_header_size data) data" "length counts = 4" "declared f3 = declared ffs"
      using 1 2 3 by (auto simp: add_ac)
  qed
  from hs(4) obtain c0 c1 c2 c3 where cs: "counts = [c0, c1, c2, c3]"
    by (auto simp: length_Suc_conv eval_nat_numeral)
  have full3: "length (eps_addrmap f3) = FFS_MAX_EPS_COUNT" using hs(5) full by (simp add: declared_def)
  note raw = hs(3) and size = hs(1,2)
  from descs_speeds_Ok [OF speeds full3] obtain dss where
    dss: "split_speeds [c0, c1, c2] raw = Some (dss, d4)"
    and each: "\<forall>ds \<in> set dss. (first_speed f3 \<and> declares_nothing ds) \<or> ds = [] \<or> declares f4 ds"
    and strs: "unat (strings_count f4) = fold max (strings_of (entities_of (concat dss))) (unat (strings_count f3))"
    and eps: "unat (eps_count f3) < FFS_MAX_EPS_COUNT \<longrightarrow> unat (eps_count f4) < FFS_MAX_EPS_COUNT"
    by (auto simp: cs)
  have "declared f5 = declared f4"
    using os data_os_declared.all_keeps [of f4 "declared f4" "unat c3" d4]
    by (auto simp: cs leaves_def split: if_splits)
  then have declared: "declared ffs' = declared f4" by (simp add: ffs' declared_def)
  have os_length: "length os' = length d4"
    using os rest(2) by (auto simp: cs split: if_splits dest: data_os.all_length)
  show thesis
  proof (rule that [of dss d4 os'])
    show "split_speeds [fs_descs_count ffs', hs_descs_count ffs', ss_descs_count ffs'] (drop (descs_header_size data) data) = Some (dss, d4)"
      using dss raw by (simp add: ffs' cs)
    show "\<forall>ds \<in> set dss. (first_speed ffs \<and> declares_nothing ds) \<or> ds = [] \<or> declares ffs' ds"
      using each declared hs(5) by (auto simp: declares_def declared_def)
    show "unat (strings_count ffs') = fold max (strings_of (entities_of (concat dss))) (unat (strings_count ffs))"
      using strs declared hs(5) by (simp add: declared_def)
    show "unat (eps_count ffs) < FFS_MAX_EPS_COUNT \<Longrightarrow> unat (eps_count ffs') < FFS_MAX_EPS_COUNT"
      using eps declared hs(5) by (simp add: declared_def)
    show "raw_descs ffs' = take (length data - descs_header_size data - length d4) (drop (descs_header_size data) data) @ os'"
      using raw by (simp add: ffs')
    show "ms_os_descs_count ffs' = 0 \<Longrightarrow> d4 = []"
      using os rest by (simp add: ffs' cs)
    show "raw_descs_data ffs' = Some (take (descs_header_size data) data @ raw_descs ffs')"
      using size by (simp add: ffs')
  qed (use size os_length rest ffs' in auto)
qed

subsection \<open>What a message leaves alone\<close>

text \<open>
  An accepted or rejected message changes only what the parser fills in. A property of the object
  that does not depend on it is kept.
\<close>

definition parse_frame :: "(ffs_data \<Rightarrow> bool) \<Rightarrow> bool" where
  "parse_frame P \<longleftrightarrow> (\<forall>s. P s \<longrightarrow>
     (\<forall>m c. length m = length (eps_addrmap s) \<longrightarrow> unat c \<le> max 255 (unat (strings_count s)) \<longrightarrow>
         P (s\<lparr>eps_addrmap := m, strings_count := c\<rparr>))
   \<and> (\<forall>e i. unat e < FFS_MAX_EPS_COUNT \<longrightarrow> P (s\<lparr>eps_count := e, interfaces_count := i\<rparr>))
   \<and> (\<forall>a b c. P (s\<lparr>ms_os_descs_ext_prop_count := a, ms_os_descs_ext_prop_name_len := b,
                   ms_os_descs_ext_prop_data_len := c\<rparr>))
   \<and> (\<forall>f. P (s\<lparr>user_flags := f\<rparr>)) \<and> (\<forall>e. P (s\<lparr>ffs_eventfd := e\<rparr>)) \<and> (\<forall>k. P (s\<lparr>kmem := k\<rparr>))
   \<and> (\<forall>d r a b c e. P (s\<lparr>raw_descs_data := d, raw_descs := r, fs_descs_count := a, hs_descs_count := b,
          ss_descs_count := c, ms_os_descs_count := e\<rparr>)))"

lemma parse_frameD:
  assumes "parse_frame P" and "P s"
  shows "length m = length (eps_addrmap s) \<Longrightarrow> unat c \<le> max 255 (unat (strings_count s)) \<Longrightarrow>
         P (s\<lparr>eps_addrmap := m, strings_count := c\<rparr>)"
    and "unat e < FFS_MAX_EPS_COUNT \<Longrightarrow> P (s\<lparr>eps_count := e, interfaces_count := i\<rparr>)"
    and "P (s\<lparr>ms_os_descs_ext_prop_count := a, ms_os_descs_ext_prop_name_len := b,
                   ms_os_descs_ext_prop_data_len := d\<rparr>)"
    and "P (s\<lparr>user_flags := f\<rparr>)" and "P (s\<lparr>ffs_eventfd := v\<rparr>)" and "P (s\<lparr>kmem := k\<rparr>)"
    and "P (s\<lparr>raw_descs_data := x, raw_descs := r, fs_descs_count := a1, hs_descs_count := b1,
          ss_descs_count := c1, ms_os_descs_count := e1\<rparr>)"
  using assms by (simp_all add: parse_frame_def)

lemma parse_frame_entity:
  assumes "parse_frame P" and "P (h_ffs h)"
  shows "leaves (\<lambda>h. P (h_ffs h)) (record_entity e h)"
proof -
  have str: "P ((h_ffs h)\<lparr>strings_count := ucast (v :: u8)\<rparr>)" for v
    using parse_frameD(1) [OF assms, of "eps_addrmap (h_ffs h)" "ucast v"] unat_lt_8 [of v]
    by (simp add: unat_ucast_8)
  have map: "P ((h_ffs h)\<lparr>eps_addrmap := (eps_addrmap (h_ffs h))[n := v]\<rparr>)" for n v
    using parse_frameD(1) [OF assms, of "(eps_addrmap (h_ffs h))[n := v]" "strings_count (h_ffs h)"] by simp
  show ?thesis
    using assms(2) str map
    by (cases e) (auto simp: record_entity_def leaves_def Let_def)
qed

lemma parse_frame_entities:
  assumes "parse_frame P"
  shows "P (h_ffs h) \<Longrightarrow> leaves (\<lambda>h. P (h_ffs h)) (record_all es h)"
  by (induction es arbitrary: h) (auto intro!: leaves_intros parse_frame_entity [OF assms])

lemma parse_frame_descs:
  assumes "parse_frame P"
  shows "P (h_ffs h) \<Longrightarrow> leaves (\<lambda>h. P (h_ffs h)) (ref_descs k data h)"
  by (induction k arbitrary: data h) (auto intro!: leaves_intros parse_frame_entities [OF assms])

lemma parse_frame_speeds:
  assumes "parse_frame P"
  shows "P ffs \<Longrightarrow> length (eps_addrmap ffs) = FFS_MAX_EPS_COUNT \<Longrightarrow> leaves P (descs_speeds cs data ffs)"
proof (induction cs arbitrary: data ffs)
  case Nil
  then show ?case by (simp add: leaves_def)
next
  case (Cons c cs)
  let ?h = "\<lparr>h_ffs = ffs, h_interfaces_count = 0, h_eps_count = 0\<rparr>"
  obtain r h where run: "ffs_do_descs data_do_entity c data ?h = (r, h)" by fastforce
  have "leaves (\<lambda>h. P (h_ffs h)) (ffs_do_descs data_do_entity c data ?h)"
    using Cons.prems parse_frame_descs [OF assms, of ?h]
    by (auto simp: ffs_do_descs_def do_descs_loop_ref intro!: leaves_intros)
  then have P: "P (h_ffs h)" by (simp add: run leaves_def)
  have rest: "ret \<le> length data \<and> length (eps_addrmap (h_ffs h)) = FFS_MAX_EPS_COUNT
      \<and> P ((h_ffs h)\<lparr>eps_count := ucast (h_eps_count h), interfaces_count := ucast (h_interfaces_count h)\<rparr>)"
    if ok: "r = Ok ret" for ret
  proof -
    from one_speed [OF run [unfolded ok] Cons.prems(2)] obtain ds where "ret \<le> length data"
      and rec: "recorded (entities_of ds) ?h h"
      and cast: "unat (ucast (h_eps_count h) :: u16) = unat (h_eps_count h)"
      and "length (eps_addrmap (h_ffs h)) = FFS_MAX_EPS_COUNT" by metis
    moreover have "unat (ucast (h_eps_count h) :: u16) < FFS_MAX_EPS_COUNT"
      using recordedD(2) [OF rec] cast by simp
    ultimately show ?thesis using parse_frameD(2) [OF assms P] by blast
  qed
  show ?case
    using Cons run P rest
    by (cases r) (auto intro!: leaves_intros split: prod.splits)
qed

lemma parse_frame_os:
  assumes "parse_frame P" and "P ffs"
  shows "leaves P (data_do_os_desc type h data ffs)"
  using assms(2) parse_frameD(3) [OF assms]
  by (cases type) (auto simp: data_do_os_desc_def Let_def intro!: leaves_intros)

lemma parse_frame_conj: "parse_frame P \<Longrightarrow> parse_frame Q \<Longrightarrow> parse_frame (\<lambda>s. P s \<and> Q s)"
  by (simp add: parse_frame_def)

lemma parse_frame_full: "parse_frame (\<lambda>s. length (eps_addrmap s) = n)"
  by (simp add: parse_frame_def)

lemma parse_frame_checked:
  assumes frame: "parse_frame P" and full: "\<And>s. P s \<Longrightarrow> length (eps_addrmap s) = FFS_MAX_EPS_COUNT" and "P ffs"
  shows "leaves P (got_descs_checked fdget data ffs)"
proof -
  have flags: "leaves P (descs_flags data s)" if "P s" for s
    using that parse_frameD(4) [OF frame that] by (auto simp: descs_flags_def Let_def intro!: leaves_intros)
  have eventfd: "leaves P (descs_eventfd fdget flags d s)" if "P s" for flags d s
    using that parse_frameD(5) [OF frame that]
    by (auto simp: descs_eventfd_def intro!: leaves_intros split: option.split)
  have counts: "leaves P (descs_counts is flags d s)" if "P s" for "is" flags d s
    using that by (induction "is" arbitrary: d s) (auto intro!: leaves_intros split: prod.splits)
  have speeds: "leaves P (descs_speeds cs d s)" if "P s" for cs d s
    using parse_frame_speeds [OF frame that full [OF that]] .
  have os_keeps: "os_desc_callback_keeps data_do_os_desc P"
    by unfold_locales (rule parse_frame_os [OF frame])
  have os: "leaves P (ffs_do_os_descs data_do_os_desc n d s)" if "P s" for n d s
    using os_desc_callback_keeps.all_keeps [OF os_keeps, of s n d] that by blast
  have last: "P s \<Longrightarrow> leaves P (if b then (Err EINVAL, s) else (Ok (), s\<lparr>raw_descs_data := x, raw_descs := r,
      fs_descs_count := a1, hs_descs_count := b1, ss_descs_count := c1, ms_os_descs_count := e1\<rparr>))"
    for b s x r a1 b1 c1 e1
    using parse_frameD(7) [OF frame] by (simp add: leaves_def)
  show ?thesis
    unfolding got_descs_checked_def
    using assms(3)
    by (auto intro!: leaves_intros flags eventfd counts speeds os last simp: Let_def
        simp del: descs_counts.simps if_split split: prod.splits)
qed

lemma parse_frame_got_descs:
  assumes frame: "parse_frame P" and "P ffs" and "length (eps_addrmap ffs) = FFS_MAX_EPS_COUNT"
  shows "leaves P (data_got_descs fdget data ffs)"
proof -
  let ?Q = "\<lambda>s. P s \<and> length (eps_addrmap s) = FFS_MAX_EPS_COUNT"
  have "leaves ?Q (got_descs_checked fdget data ffs)"
    using assms by (intro parse_frame_checked parse_frame_conj parse_frame_full) auto
  then show ?thesis
    using parse_frameD(6) [OF frame]
    by (auto simp: data_got_descs_def leaves_def kfree_def split: prod.splits res.splits)
qed

lemma data_got_descs_no_fault:
  "16 \<le> length data \<Longrightarrow> length (eps_addrmap ffs) = FFS_MAX_EPS_COUNT \<Longrightarrow> no_fault (data_got_descs fdget data ffs)"
  using got_descs_checked_no_fault [of data ffs fdget]
  by (auto simp: data_got_descs_def no_fault_def split: prod.splits res.splits)

end
