(* ===== verification/Ffs_Strings.thy ===== *)
theory Ffs_Strings
  imports Ffs_Desc
begin

section \<open>Generic USB function: the strings parser\<close>

text \<open>
  \<open>__ffs_data_got_strings\<close> of \<open>f_generic.c\<close>. The three tables live in one allocation: the
  pointers, one entry per language, the strings. The model keeps the indices of the write
  positions \<open>t\<close> and \<open>s\<close> and the sizes of the tables, which the code computes in 32 bits; a
  write past the end of its table is a fault. \<open>kmalloc_ok n\<close> tells whether the allocator answers
  a request of \<open>n\<close> bytes. Pointers have eight bytes, as in the 64 bit kernels the driver is for:
  an entry \<open>usb_gadget_strings\<close> and an entry \<open>usb_string\<close> then have 16.
\<close>

abbreviation (input) FUNCTIONFS_STRINGS_MAGIC :: u32 where "FUNCTIONFS_STRINGS_MAGIC \<equiv> 2"

text \<open>\<open>strnlen\<close>: the number of bytes before the first zero, at most the length.\<close>

definition strnlen :: "u8 list \<Rightarrow> nat" where
  "strnlen data = length (takeWhile (\<lambda>b. b \<noteq> 0) data)"

text \<open>
  The strings of one language: \<open>k\<close> is the value \<open>str_count\<close> reaches 0 from (with wrap-around, so
  the loop runs \<open>k\<close> times), \<open>needed\<close> the number still to be recorded, \<open>free\<close> the entries of the
  string table not yet used. The answer is the recorded strings, the entries left and the
  remaining data.
\<close>

fun lang_strings :: "nat \<Rightarrow> nat \<Rightarrow> nat \<Rightarrow> u8 list \<Rightarrow> (u8 list list \<times> nat \<times> u8 list) res" where
  "lang_strings 0 needed free data = Ok ([], free, data)"
| "lang_strings (Suc k) needed free data =
     (let n = strnlen data
      in if n = length data then Err EINVAL
         else if needed > 0 then
           (if free = 0 then Fault
            else bindR (lang_strings k (needed - 1) (free - 1) (drop (n + 1) data)) (\<lambda>(ss, free, rest).
              Ok (take n data # ss, free, rest)))
         else lang_strings k 0 free (drop (n + 1) data))"

text \<open>The iterations of \<open>do \<dots> while (--str_count)\<close> for a 32 bit counter.\<close>

definition do_while_count :: "u32 \<Rightarrow> nat" where
  "do_while_count n = (if n = 0 then 2 ^ 32 else unat n)"

text \<open>
  The languages. The counter \<open>str_count\<close> is not set again for the next language: it has come
  down to 0. \<open>tfree\<close> counts the unused entries of the language table.
\<close>

fun all_langs ::
  "nat \<Rightarrow> u32 \<Rightarrow> nat \<Rightarrow> nat \<Rightarrow> nat \<Rightarrow> u8 list \<Rightarrow> ((u16 \<times> u8 list list) list \<times> u8 list) res" where
  "all_langs 0 str_count needed tfree free data = Ok ([], data)"
| "all_langs (Suc langs) str_count needed tfree free data =
     (if length data < 3 then Err EINVAL
      else if tfree = 0 then Fault
      else case le16_at data 0 of None \<Rightarrow> Fault | Some language \<Rightarrow>
        bindR (lang_strings (do_while_count str_count) needed free (drop 2 data)) (\<lambda>(ss, free, rest).
        if free = 0 then Fault
        else bindR (all_langs langs 0 needed (tfree - 1) (free - 1) rest) (\<lambda>(ls, rest).
          Ok ((language, ss) # ls, rest))))"

text \<open>
  The macro \<open>vla_item\<close> of \<open>u_f.h\<close> reserves \<open>n\<close> items at the next aligned offset: it gives the
  offset of the items and of what follows.
\<close>

definition vla_item :: "nat \<Rightarrow> nat \<Rightarrow> nat \<Rightarrow> nat \<Rightarrow> nat \<times> nat" where
  "vla_item align item_size n group_next =
     (let offset = (group_next + (align - 1)) div align * align in (offset, offset + n * item_size))"

definition strings_vla_size :: "u32 \<Rightarrow> u32 \<Rightarrow> nat" where
  "strings_vla_size lang_count needed_count =
     (let (stringtabs, group_next) = vla_item 8 8 (unat (lang_count + 1)) 0;
          (stringtab, group_next) = vla_item 8 16 (unat lang_count) group_next;
          (strings, group_next) = vla_item 8 16 (unat (lang_count * (needed_count + 1))) group_next
      in group_next)"

definition got_strings_checked ::
  "(nat \<Rightarrow> bool) \<Rightarrow> u16 \<Rightarrow> u8 list \<Rightarrow> (u16 \<times> u8 list list) list option res" where
  "got_strings_checked kmalloc_ok strings_needed data =
     (if length data < 16 then Err EINVAL
      else case (le32_at data 0, le32_at data 4, le32_at data 8, le32_at data 12) of
        (Some magic, Some len, Some str_count, Some lang_count) \<Rightarrow>
          (if magic \<noteq> FUNCTIONFS_STRINGS_MAGIC \<or> unat len \<noteq> length data then Err EINVAL
           else if (str_count = 0) \<noteq> (lang_count = 0) then Err EINVAL
           else let needed_count = (ucast strings_needed :: u32)
             in if str_count < needed_count then Err EINVAL
                else if needed_count = 0 then Ok None
                else if \<not> kmalloc_ok (strings_vla_size lang_count needed_count) then Err ENOMEM
                else if unat (lang_count + 1) < unat lang_count + 1 then Fault
                else bindR (all_langs (unat lang_count) str_count (unat needed_count) (unat lang_count)
                              (unat (lang_count * (needed_count + 1))) (drop 16 data)) (\<lambda>(tabs, rest).
                  if rest \<noteq> [] then Err EINVAL else Ok (Some tabs)))
      | _ \<Rightarrow> Fault)"

text \<open>
  The buffer is taken over when the strings are kept, and freed when none are needed and on every
  error; the tables are freed when the strings turn out malformed.
\<close>

definition data_got_strings ::
  "(nat \<Rightarrow> bool) \<Rightarrow> u8 list \<Rightarrow> ffs_data \<Rightarrow> unit res \<times> ffs_data" where
  "data_got_strings kmalloc_ok data ffs = (case got_strings_checked kmalloc_ok (strings_count ffs) data of
     Ok None \<Rightarrow> (Ok (), kfree ffs)
   | Ok (Some tabs) \<Rightarrow> (Ok (), ffs\<lparr>stringtabs := Some tabs, kmem := kmem ffs + 1\<rparr>)
   | Err e \<Rightarrow> (Err e, kfree ffs)
   | Fault \<Rightarrow> (Fault, ffs))"

subsection \<open>The reading of one language\<close>

lemma strings_vla_size_eq:
  "strings_vla_size lang_count needed_count =
     8 * unat (lang_count + 1) + 16 * unat lang_count + 16 * unat (lang_count * (needed_count + 1))"
proof -
  have "(8 * x + 16 * y + (8 - 1)) div 8 * 8 = 8 * x + 16 * y" for x y :: nat by presburger
  then show ?thesis by (simp add: strings_vla_size_def vla_item_def Let_def mult.commute)
qed

lemma strnlen_le: "strnlen data \<le> length data"
  by (simp add: strnlen_def length_takeWhile_le)

lemma lang_strings_SucE:
  assumes "lang_strings (Suc k) needed free data = Ok (ss, free', rest)"
  obtains (recorded) ss' where "0 < needed" and "0 < free" and "strnlen data < length data"
      and "lang_strings k (needed - 1) (free - 1) (drop (strnlen data + 1) data) = Ok (ss', free', rest)"
      and "ss = take (strnlen data) data # ss'"
    | (ignored) "needed = 0" and "strnlen data < length data"
      and "lang_strings k 0 free (drop (strnlen data + 1) data) = Ok (ss, free', rest)"
proof -
  have "strnlen data < length data"
    using assms strnlen_le [of data] by (auto simp: Let_def le_less split: if_splits)
  with assms that show thesis
    by (cases "lang_strings k (needed - 1) (free - 1) (drop (strnlen data + 1) data)")
       (auto simp: Let_def split: if_splits)
qed

lemma bindR_Fault: "bindR p f = Fault \<longleftrightarrow> p = Fault \<or> (\<exists>x. p = Ok x \<and> f x = Fault)"
  by (cases p) auto

lemma bindR_Ok: "bindR p f = Ok y \<longleftrightarrow> (\<exists>x. p = Ok x \<and> f x = Ok y)"
  by (cases p) auto

lemma lang_strings_no_fault: "needed \<le> free \<Longrightarrow> lang_strings k needed free data \<noteq> Fault"
proof (induction k arbitrary: needed free data)
  case (Suc k)
  then have "lang_strings k (needed - 1) (free - 1) d \<noteq> Fault" "lang_strings k 0 free d \<noteq> Fault" for d by auto
  then show ?case using Suc.prems by (auto simp: Let_def bindR_Fault)
qed simp

lemma lang_strings_free:
  "lang_strings k needed free data = Ok (ss, free', rest) \<Longrightarrow>
     free' + length ss = free \<and> length ss = min k needed"
proof (induction k arbitrary: needed free data ss)
  case (Suc k)
  from Suc.prems show ?case
  proof (cases rule: lang_strings_SucE)
    case (recorded ss')
    then show ?thesis using Suc.IH [OF recorded(4)] by auto
  next
    case ignored
    then show ?thesis using Suc.IH [OF ignored(3)] by auto
  qed
qed simp

text \<open>Every string takes at least its zero.\<close>

lemma lang_strings_length:
  "lang_strings k needed free data = Ok (ss, free', rest) \<Longrightarrow> k + length rest \<le> length data"
proof (induction k arbitrary: needed free data ss)
  case (Suc k)
  from Suc.prems show ?case
    by (cases rule: lang_strings_SucE) (use Suc.IH in fastforce)+
qed simp

text \<open>Strings as user space sends them: each one followed by a zero.\<close>

definition encode_strs :: "u8 list list \<Rightarrow> u8 list" where
  "encode_strs ss = concat (map (\<lambda>s. s @ [0]) ss)"

lemma strnlen_zero: "0 \<notin> set s \<Longrightarrow> strnlen (s @ 0 # r) = length s"
  unfolding strnlen_def by (induction s) auto

lemma lang_strings_step:
  assumes "0 \<notin> set s"
  shows "lang_strings (Suc k) needed free (s @ 0 # r) =
     (if needed > 0 then if free = 0 then Fault
        else bindR (lang_strings k (needed - 1) (free - 1) r) (\<lambda>(ss, free, rest). Ok (s # ss, free, rest))
      else lang_strings k 0 free r)"
  by (simp add: strnlen_zero [OF assms] Let_def)

lemma lang_strings_encode:
  "\<forall>s \<in> set ss. 0 \<notin> set s \<Longrightarrow> needed \<le> free \<Longrightarrow>
     lang_strings (length ss) needed free (encode_strs ss @ rest) =
       Ok (take needed ss, free - min needed (length ss), rest)"
proof (induction ss arbitrary: needed free)
  case Nil
  then show ?case by (simp add: encode_strs_def)
next
  case (Cons s ss)
  have eq: "encode_strs (s # ss) @ rest = s @ 0 # (encode_strs ss @ rest)" by (simp add: encode_strs_def)
  have nz: "0 \<notin> set s" using Cons.prems by simp
  have step: "lang_strings (length (s # ss)) needed free (encode_strs (s # ss) @ rest) =
     (if needed > 0 then if free = 0 then Fault
        else bindR (lang_strings (length ss) (needed - 1) (free - 1) (encode_strs ss @ rest))
               (\<lambda>(ss, free, rest). Ok (s # ss, free, rest))
      else lang_strings (length ss) 0 free (encode_strs ss @ rest))"
    unfolding eq length_Cons by (rule lang_strings_step [OF nz])
  show ?case
  proof (cases needed)
    case 0
    then show ?thesis unfolding step using Cons.IH [of 0 free] Cons.prems by simp
  next
    case (Suc m)
    then show ?thesis unfolding step using Cons.IH [of m "free - 1"] Cons.prems by auto
  qed
qed

lemma lang_strings_decode:
  "lang_strings k needed free data = Ok (ss, free', rest) \<Longrightarrow>
     \<exists>all. length all = k \<and> (\<forall>s \<in> set all. 0 \<notin> set s) \<and> data = encode_strs all @ rest \<and> ss = take needed all"
proof (induction k arbitrary: needed free data ss)
  case (Suc k)
  let ?n = "strnlen data"
  have lt: "?n < length data" using Suc.prems by (cases rule: lang_strings_SucE)
  have tw: "takeWhile (\<lambda>b. b \<noteq> 0) data = take ?n data"
    unfolding strnlen_def by (rule takeWhile_eq_take)
  have nz: "0 \<notin> set (take ?n data)" unfolding tw [symmetric] by (auto dest: set_takeWhileD)
  have zero: "data ! ?n = 0" using lt nth_length_takeWhile [of "\<lambda>b. b \<noteq> 0" data] by (simp add: strnlen_def)
  have head: "data = take ?n data @ 0 # drop (?n + 1) data"
    using id_take_nth_drop [OF lt] unfolding zero Suc_eq_plus1 .
  obtain ss' free0 where tail: "lang_strings k (needed - 1) free0 (drop (?n + 1) data) = Ok (ss', free', rest)"
    and ss: "ss = (if needed > 0 then take ?n data # ss' else ss')"
    using Suc.prems by (cases rule: lang_strings_SucE) (use that in auto)
  from Suc.IH [OF tail] obtain all where all: "length all = k" "\<forall>s \<in> set all. 0 \<notin> set s"
    "drop (?n + 1) data = encode_strs all @ rest" "ss' = take (needed - 1) all" by blast
  have "take ?n data @ 0 # (encode_strs all @ rest) = encode_strs (take ?n data # all) @ rest"
    by (simp add: encode_strs_def)
  then have data: "data = encode_strs (take ?n data # all) @ rest" using head unfolding all(3) by metis
  have "\<forall>s \<in> set (take ?n data # all). 0 \<notin> set s" "ss = take needed (take ?n data # all)"
    using nz ss all(2,4) by (auto simp: take_Cons')
  with data show ?case by (metis all(1) length_Cons)
qed (simp add: encode_strs_def)

subsection \<open>The reading of all languages\<close>

lemma all_langs_no_fault:
  "langs \<le> tfree \<Longrightarrow> langs * (needed + 1) \<le> free \<Longrightarrow> all_langs langs str_count needed tfree free data \<noteq> Fault"
proof (induction langs arbitrary: str_count tfree free data)
  case (Suc langs)
  have first: "lang_strings k needed free d \<noteq> Fault" for k d
    using Suc.prems by (intro lang_strings_no_fault) simp
  have later: "free' \<noteq> 0 \<and> all_langs langs 0 needed (tfree - 1) (free' - 1) rest \<noteq> Fault"
    if "lang_strings k needed free d = Ok (ss, free', rest)" for k d ss free' rest
  proof -
    have "free \<le> free' + needed" using lang_strings_free [OF that] by linarith
    moreover have "langs * (needed + 1) + needed + 1 \<le> free" using Suc.prems(2) by simp
    ultimately have "langs * (needed + 1) \<le> free' - 1" "free' \<noteq> 0" by linarith+
    then show ?thesis using Suc.prems(1) Suc.IH by simp
  qed
  show ?case
  proof (cases "length data < 3")
    case False
    then obtain language where "le16_at data 0 = Some language" by (cases "le16_at data 0") (auto simp: le16_at_None_iff)
    then show ?thesis
      using False Suc.prems(1) first later
      by (auto simp: bindR_Fault split: prod.splits) blast+
  qed simp
qed simp

text \<open>
  Once the counter has come down to 0, the next language would have to bring \<open>2 ^ 32\<close> strings.
\<close>

lemma second_language_fails:
  assumes "length data < 2 ^ 32"
  shows "all_langs (Suc langs) 0 needed tfree free data \<noteq> Ok r"
proof
  assume "all_langs (Suc langs) 0 needed tfree free data = Ok r"
  then obtain ss free' rest where "lang_strings (do_while_count 0) needed free (drop 2 data) = Ok (ss, free', rest)"
    by (auto simp: bindR_Ok split: if_splits option.splits)
  from lang_strings_length [OF this] show False using assms by (simp add: do_while_count_def)
qed

lemma all_langs_Ok:
  assumes "all_langs langs str_count needed tfree free data = Ok (tabs, [])" and "length data < 2 ^ 32"
    and "0 < langs" and "str_count \<noteq> 0"
  obtains language strs where "langs = 1" and "data = le16_bytes language @ encode_strs strs"
    and "length strs = unat str_count" and "\<forall>s \<in> set strs. 0 \<notin> set s" and "tabs = [(language, take needed strs)]"
proof -
  from assms(3) obtain l where l: "langs = Suc l" by (cases langs) auto
  from assms(1) obtain language ss free' rest ls where lang: "le16_at data 0 = Some language"
    and len: "3 \<le> length data"
    and one: "lang_strings (do_while_count str_count) needed free (drop 2 data) = Ok (ss, free', rest)"
    and more: "all_langs l 0 needed (tfree - 1) (free' - 1) rest = Ok (ls, [])"
    and tabs: "tabs = (language, ss) # ls"
    unfolding l by (auto simp: bindR_Ok split: if_splits option.splits)
  have "length rest < 2 ^ 32" using lang_strings_length [OF one] assms(2) by simp
  from second_language_fails [OF this] have "l = 0" using more by (metis not0_implies_Suc)
  then have "rest = []" "ls = []" using more by auto
  with lang_strings_decode [OF one] obtain strs where "length strs = do_while_count str_count"
    "\<forall>s \<in> set strs. 0 \<notin> set s" "drop 2 data = encode_strs strs" "ss = take needed strs" by auto
  then show thesis
    using that [of language strs] le16_atD [OF lang] l \<open>l = 0\<close> \<open>ls = []\<close> tabs assms(4)
    by (simp add: do_while_count_def)
qed

subsection \<open>The strings message\<close>

text \<open>A strings message for one language, as user space sends it.\<close>

definition encode_strings :: "u16 \<Rightarrow> u8 list list \<Rightarrow> u8 list" where
  "encode_strings language strs =
     le32_bytes FUNCTIONFS_STRINGS_MAGIC @ le32_bytes (of_nat (18 + length (encode_strs strs)))
     @ le32_bytes (of_nat (length strs)) @ le32_bytes 1 @ le16_bytes language @ encode_strs strs"

lemma length_encode_strs: "length strs \<le> length (encode_strs strs)"
  by (induction strs) (auto simp: encode_strs_def)

lemma strings_header_fields:
  "le32_at (encode_strings language strs) 0 = Some FUNCTIONFS_STRINGS_MAGIC"
  "le32_at (encode_strings language strs) 4 = Some (of_nat (18 + length (encode_strs strs)))"
  "le32_at (encode_strings language strs) 8 = Some (of_nat (length strs))"
  "le32_at (encode_strings language strs) 12 = Some 1"
  "drop 16 (encode_strings language strs) = le16_bytes language @ encode_strs strs"
  by (simp_all add: encode_strings_def le_at_append)

lemma length_encode_strings: "length (encode_strings language strs) = 18 + length (encode_strs strs)"
  by (simp add: encode_strings_def)

lemma unat_of_nat_32: "n < 2 ^ 32 \<Longrightarrow> unat (of_nat n :: u32) = n"
  by (simp add: unsigned_of_nat take_bit_nat_eq_self)

lemma needed_cast: "unat (ucast (n :: u16) :: u32) = unat n" "(ucast n :: u32) = 0 \<longleftrightarrow> n = 0"
proof -
  show "unat (ucast n :: u32) = unat n" using unat_ucast_16_up [of "ucast n" n] by simp
  then show "(ucast n :: u32) = 0 \<longleftrightarrow> n = 0" by (metis unat_eq_zero)
qed

lemma got_strings_encode:
  assumes len: "length (encode_strings language strs) < 2 ^ 32" and "\<forall>s \<in> set strs. 0 \<notin> set s"
    and "0 < needed" and needed: "unat needed \<le> length strs"
    and kmalloc: "kmalloc_ok (strings_vla_size 1 (ucast needed))"
  shows "got_strings_checked kmalloc_ok needed (encode_strings language strs)
    = Ok (Some [(language, take (unat needed) strs)])"
proof -
  let ?data = "encode_strings language strs"
  have pos: "0 < unat needed" using assms(3) by (simp add: word_less_nat_alt)
  then have strs: "strs \<noteq> []" using needed by auto
  have le: "length strs < 2 ^ 32" using len length_encode_strs [of strs] by (simp add: length_encode_strings)
  have count: "unat (of_nat (length strs) :: u32) = length strs" by (rule unat_of_nat_32 [OF le])
  then have nz: "(of_nat (length strs) :: u32) \<noteq> 0" using strs by (metis length_0_conv unat_0)
  have ne: "encode_strs strs \<noteq> []" using strs by (cases strs) (auto simp: encode_strs_def)
  then have body: "3 \<le> length (le16_bytes language @ encode_strs strs)" by (cases "encode_strs strs") auto
  have size: "unat (of_nat (18 + length (encode_strs strs)) :: u32) = length ?data"
    using len unfolding length_encode_strings by (rule unat_of_nat_32)
  have "unat needed \<le> unat (1 * (ucast needed + 1) :: u32)"
    using unat_lt_16 [of needed] by (simp add: unat_word_ariths needed_cast)
  then have run: "lang_strings (length strs) (unat needed) (unat (ucast needed + 1 :: u32)) (encode_strs strs)
      = Ok (take (unat needed) strs, unat (ucast needed + 1 :: u32) - min (unat needed) (length strs), [])"
    using lang_strings_encode [OF assms(2), of "unat needed" "unat (ucast needed + 1 :: u32)" "[]"] by simp
  have free: "unat (ucast needed + 1 :: u32) - min (unat needed) (length strs) \<noteq> 0"
    using unat_lt_16 [of needed] by (simp add: unat_word_ariths needed_cast)
  have langs: "all_langs (Suc 0) (of_nat (length strs)) (unat needed) (Suc 0) (unat (ucast needed + 1 :: u32))
      (le16_bytes language @ encode_strs strs) = Ok ([(language, take (unat needed) strs)], [])"
    using body strs ne free by (simp add: do_while_count_def nz count run)
  have "\<not> (of_nat (length strs) :: u32) < ucast needed"
    using needed by (simp add: word_less_nat_alt count needed_cast)
  then show ?thesis
    using langs kmalloc assms(3) size nz
    by (simp add: got_strings_checked_def strings_header_fields length_encode_strings needed_cast Let_def
        del: all_langs.simps of_nat_add of_nat_numeral)
qed

lemma got_strings_decode:
  assumes ok: "got_strings_checked kmalloc_ok needed data = Ok (Some tabs)"
  obtains language strs where "data = encode_strings language strs" and "\<forall>s \<in> set strs. 0 \<notin> set s"
    and "length data < 2 ^ 32" and "unat needed \<le> length strs" and "tabs = [(language, take (unat needed) strs)]"
proof -
  from ok obtain len str_count lang_count where
    head: "16 \<le> length data" "le32_at data 0 = Some FUNCTIONFS_STRINGS_MAGIC" "le32_at data 4 = Some len"
      "le32_at data 8 = Some str_count" "le32_at data 12 = Some lang_count"
    and len: "unat len = length data" and zeros: "(str_count = 0) = (lang_count = 0)"
    and enough: "ucast needed \<le> str_count" and some: "(ucast needed :: u32) \<noteq> 0"
    and langs: "all_langs (unat lang_count) str_count (unat needed) (unat lang_count)
                  (unat (lang_count * (ucast needed + 1))) (drop 16 data) = Ok (tabs, [])"
    by (auto simp: got_strings_checked_def Let_def bindR_Ok needed_cast not_less split: if_splits option.splits)
  have lt: "length data < 2 ^ 32" using unat_lt_32 [of len] len by simp
  from enough some have nz: "str_count \<noteq> 0" by auto
  then have pos: "0 < unat lang_count" using zeros by (simp add: unat_gt_0)
  have "length (drop 16 data) < 2 ^ 32" using lt by simp
  from all_langs_Ok [OF langs this pos nz] obtain language strs where one: "unat lang_count = 1"
    and rest: "drop 16 data = le16_bytes language @ encode_strs strs" and count: "length strs = unat str_count"
    and strs: "\<forall>s \<in> set strs. 0 \<notin> set s" "tabs = [(language, take (unat needed) strs)]" .
  have split: "data = le32_bytes FUNCTIONFS_STRINGS_MAGIC @ le32_bytes len @ le32_bytes str_count
      @ le32_bytes lang_count @ drop 16 data"
    using head le32_atD [of data] le32_atD [of "drop 4 data"] le32_atD [of "drop 8 data"] le32_atD [of "drop 12 data"]
    by (simp add: le_at_drop)
  have "len = of_nat (18 + length (encode_strs strs))"
  proof (rule word_unat_eq_iff [THEN iffD2])
    have "length data = 18 + length (encode_strs strs)" using arg_cong [OF rest, of length] head(1) by simp
    then show "unat len = unat (of_nat (18 + length (encode_strs strs)) :: u32)"
      using unat_of_nat_32 [of "length data"] len lt by simp
  qed
  moreover have "str_count = of_nat (length strs)" by (simp add: count)
  moreover have "lang_count = 1" using one by (metis unat_1 word_unat_eq_iff)
  ultimately have "data = encode_strings language strs" using split rest by (simp add: encode_strings_def)
  then show thesis
    using that strs lt enough by (simp add: word_le_nat_alt needed_cast count)
qed

lemma got_strings_no_fault:
  assumes kmalloc: "\<And>n. kmalloc_ok n \<Longrightarrow> n < 2 ^ 28" and "unat needed \<le> 255"
  shows "got_strings_checked kmalloc_ok needed data \<noteq> Fault"
proof -
  have fit: "unat (lang_count + 1) = Suc (unat lang_count)"
      "all_langs (unat lang_count) str_count (unat needed) (unat lang_count)
           (unat (lang_count * (ucast needed + 1))) rest \<noteq> Fault"
    if "kmalloc_ok (strings_vla_size lang_count (ucast needed))" for lang_count str_count :: u32 and rest
  proof -
    have "16 * unat lang_count < 2 ^ 28" using kmalloc [OF that] by (simp add: strings_vla_size_eq)
    then have small: "unat lang_count < 2 ^ 24" by simp
    then have "unat lang_count * (unat needed + 1) < 2 ^ 24 * 256"
      using assms(2) by (intro mult_less_le_imp_less) auto
    then have prod: "unat (lang_count * (ucast needed + 1)) = unat lang_count * (unat needed + 1)"
      using assms(2) by (simp add: unat_word_ariths needed_cast)
    show "unat (lang_count + 1) = Suc (unat lang_count)" using small by (simp add: unat_word_ariths)
    show "all_langs (unat lang_count) str_count (unat needed) (unat lang_count)
           (unat (lang_count * (ucast needed + 1))) rest \<noteq> Fault"
      using all_langs_no_fault [of "unat lang_count" "unat lang_count" "unat needed"] prod by simp
  qed
  show ?thesis
    using fit
    by (auto simp: got_strings_checked_def Let_def bindR_Fault needed_cast le32_at_None_iff not_less
        split: option.splits prod.splits if_splits)
qed

end
