(* ===== verification/Ffs_Event.thy ===== *)
theory Ffs_Event
  imports Ffs_Types
begin

section \<open>Generic USB function: the event queue\<close>

text \<open>
  \<open>__ffs_event_add\<close>, \<open>ffs_event_add\<close> and the queue part of \<open>__ffs_ep0_read_events\<close> of
  \<open>f_generic.c\<close>, the cancelling of an unhandled setup request, and the two orders in which the
  queue is served. \<open>ev.types\<close> has space for four events.
\<close>

subsection \<open>Adding an event\<close>

abbreviation (input) EV_TYPES :: nat where "EV_TYPES \<equiv> 4"

text \<open>The two types and the sign that decide what is purged: kept is what compares equal to \<open>neg\<close>.\<close>

fun rem_types :: "ffs_event \<Rightarrow> ffs_event \<times> ffs_event \<times> bool" where
  "rem_types FUNCTIONFS_RESUME = (FUNCTIONFS_RESUME, FUNCTIONFS_SUSPEND, False)"
| "rem_types FUNCTIONFS_SUSPEND = (FUNCTIONFS_SUSPEND, FUNCTIONFS_SUSPEND, False)"
| "rem_types FUNCTIONFS_SETUP = (FUNCTIONFS_SETUP, FUNCTIONFS_SETUP, False)"
| "rem_types _ = (FUNCTIONFS_SUSPEND, FUNCTIONFS_RESUME, True)"

definition purge_events :: "ffs_event \<Rightarrow> ffs_event list \<Rightarrow> ffs_event list" where
  "purge_events type evs = (let (rem1, rem2, neg) = rem_types type
     in filter (\<lambda>ev. (ev = rem1 \<or> ev = rem2) = neg) evs)"

definition ffs_event_add_locked :: "ffs_event \<Rightarrow> ffs_data \<Rightarrow> unit res \<times> ffs_data" where
  "ffs_event_add_locked type s =
     (let s = (if setup_state s = FFS_SETUP_PENDING then s\<lparr>setup_state := FFS_SETUP_CANCELLED\<rparr> else s);
          evs = purge_events type (ev_types s)
      in if length evs \<ge> EV_TYPES then (Fault, s\<lparr>ev_types := evs\<rparr>)
         else (Ok (), s\<lparr>ev_types := evs @ [type]\<rparr>))"

text \<open>The spin lock of the queue: taking it while holding it never returns.\<close>

definition ev_lock :: "ffs_data \<Rightarrow> unit res \<times> ffs_data" where
  "ev_lock s = (if evlock_held s then (Fault, s) else (Ok (), s\<lparr>evlock_held := True\<rparr>))"

definition ev_unlock :: "ffs_data \<Rightarrow> ffs_data" where
  "ev_unlock s = s\<lparr>evlock_held := False\<rparr>"

definition ffs_event_add :: "ffs_event \<Rightarrow> ffs_data \<Rightarrow> unit res \<times> ffs_data" where
  "ffs_event_add type s =
     bindS (ev_lock s) (\<lambda>_ s. bindS (ffs_event_add_locked type s) (\<lambda>_ s. (Ok (), ev_unlock s)))"

text \<open>What the hardware side does to endpoint zero while user space is elsewhere.\<close>

datatype ffs_async =
    Async_event ffs_event
  | Async_setup usb_ctrlrequest
  | Async_complete

fun run_async :: "ffs_async \<Rightarrow> ffs_data \<Rightarrow> unit res \<times> ffs_data" where
  "run_async (Async_event type) s = ffs_event_add type s"
| "run_async (Async_setup creq) s =
     bindS (ev_lock s) (\<lambda>_ s. bindS (ffs_event_add_locked FUNCTIONFS_SETUP (s\<lparr>ev_setup := creq\<rparr>))
       (\<lambda>_ s. (Ok (), ev_unlock s)))"
| "run_async Async_complete s = (Ok (), s\<lparr>setup_state := FFS_NO_SETUP\<rparr>)"

fun run_asyncs :: "ffs_async list \<Rightarrow> ffs_data \<Rightarrow> unit res \<times> ffs_data" where
  "run_asyncs [] s = (Ok (), s)"
| "run_asyncs (a # as) s = bindS (run_async a s) (\<lambda>_ s. run_asyncs as s)"

subsection \<open>Reading events\<close>

text \<open>
  The loop of \<open>__ffs_ep0_read_events\<close> over the first \<open>n\<close> entries: each event with the setup
  request it carries. \<open>do \<dots> while\<close> runs at least once.
\<close>

fun read_events_loop :: "nat \<Rightarrow> nat \<Rightarrow> ffs_data \<Rightarrow> (ffs_event \<times> usb_ctrlrequest option) list res \<times> ffs_data" where
  "read_events_loop 0 i s = (Ok [], s)"
| "read_events_loop (Suc k) i s =
     (if length (ev_types s) \<le> i \<or> EV_TYPES \<le> i then (Fault, s)
      else let type = ev_types s ! i;
               (ev, s) = (if type = FUNCTIONFS_SETUP
                          then ((type, Some (ev_setup s)), s\<lparr>setup_state := FFS_SETUP_PENDING\<rparr>)
                          else ((type, None), s))
           in bindS (read_events_loop k (i + 1) s) (\<lambda>evs s. (Ok (ev # evs), s)))"

definition mutex_unlock :: "ffs_data \<Rightarrow> ffs_data" where
  "mutex_unlock s = s\<lparr>mutex_held := False\<rparr>"

text \<open>\<open>memset_s\<close> answers 0 or an error number, which the code returns with both locks still held.\<close>

definition ffs_ep0_read_events ::
  "int \<Rightarrow> bool \<Rightarrow> nat \<Rightarrow> ffs_data \<Rightarrow> (ffs_event \<times> usb_ctrlrequest option) list res \<times> ffs_data" where
  "ffs_ep0_read_events memset_ret copy_to_ok n s =
     (if memset_ret \<noteq> 0 then (Err (E_CODE memset_ret), s)
      else bindS (read_events_loop (max 1 n) 0 s) (\<lambda>events s.
        let s = s\<lparr>ev_types := drop n (ev_types s)\<rparr>;
            s = mutex_unlock (ev_unlock s)
        in if copy_to_ok then (Ok events, s) else (Err EFAULT, s)))"

subsection \<open>A bounded queue that purges\<close>

text \<open>
  What the users of the queue rely on: a well-formed queue never has more entries than there is
  space, and adding or taking from the front keeps it well-formed.
\<close>

locale purging_queue =
  fixes purge :: "'e \<Rightarrow> 'e list \<Rightarrow> 'e list"
    and wf :: "'e list \<Rightarrow> bool"
    and capacity :: nat
  assumes wf_Nil: "wf []"
    and wf_add: "wf q \<Longrightarrow> wf (purge e q @ [e])"
    and wf_drop: "wf q \<Longrightarrow> wf (drop n q)"
    and wf_length: "wf q \<Longrightarrow> length q \<le> capacity"
begin

lemma room: "wf q \<Longrightarrow> length (purge e q) < capacity"
  using wf_length [OF wf_add, of q e] by simp

lemma wf_adds: "wf q \<Longrightarrow> wf (foldl (\<lambda>q e. purge e q @ [e]) q es)"
  by (induction es arbitrary: q) (simp_all add: wf_add)

lemma newest_last: "es \<noteq> [] \<Longrightarrow> last (foldl (\<lambda>q e. purge e q @ [e]) q es) = last es"
  by (induction es rule: rev_induct) auto

end

text \<open>
  Well-formed event queues: no event twice, at most one of those that start or end the function,
  and no suspend before a resume.
\<close>

definition lifecycle_event :: "ffs_event \<Rightarrow> bool" where
  "lifecycle_event e \<longleftrightarrow> e \<in> {FUNCTIONFS_BIND, FUNCTIONFS_UNBIND, FUNCTIONFS_ENABLE, FUNCTIONFS_DISABLE}"

fun resume_first :: "ffs_event list \<Rightarrow> bool" where
  "resume_first [] \<longleftrightarrow> True"
| "resume_first (e # es) \<longleftrightarrow> (e = FUNCTIONFS_SUSPEND \<longrightarrow> FUNCTIONFS_RESUME \<notin> set es) \<and> resume_first es"

definition ev_wf :: "ffs_event list \<Rightarrow> bool" where
  "ev_wf evs \<longleftrightarrow> distinct evs \<and> length (filter lifecycle_event evs) \<le> 1 \<and> resume_first evs"

lemma other_events: "\<not> lifecycle_event e \<Longrightarrow> e \<in> {FUNCTIONFS_SETUP, FUNCTIONFS_SUSPEND, FUNCTIONFS_RESUME}"
  by (cases e) (auto simp: lifecycle_event_def)

lemma distinct_in_three: "distinct xs \<Longrightarrow> set xs \<subseteq> {a, b, c} \<Longrightarrow> length xs \<le> 3"
proof -
  assume d: "distinct xs" and s: "set xs \<subseteq> {a, b, c}"
  have "length xs = card (set xs)" using d by (simp add: distinct_card)
  also have "\<dots> \<le> card {a, b, c}" using s by (intro card_mono) auto
  also have "\<dots> \<le> 3" by (simp add: card_insert_if)
  finally show ?thesis .
qed

lemma ev_wf_length:
  assumes "ev_wf evs"
  shows "length evs \<le> EV_TYPES"
proof -
  have "set (filter (\<lambda>e. \<not> lifecycle_event e) evs) \<subseteq> {FUNCTIONFS_SETUP, FUNCTIONFS_SUSPEND, FUNCTIONFS_RESUME}"
    using other_events by auto
  then have "length (filter (\<lambda>e. \<not> lifecycle_event e) evs) \<le> 3"
    using assms by (intro distinct_in_three) (auto simp: ev_wf_def)
  moreover have "length evs = length (filter lifecycle_event evs) + length (filter (\<lambda>e. \<not> lifecycle_event e) evs)"
    by (simp add: sum_length_filter_compl)
  ultimately show ?thesis using assms by (simp add: ev_wf_def)
qed

lemma resume_first_filter: "resume_first evs \<Longrightarrow> resume_first (filter P evs)"
  by (induction evs) auto

lemma resume_first_snoc:
  "resume_first (evs @ [e]) \<longleftrightarrow> resume_first evs \<and> (e = FUNCTIONFS_RESUME \<longrightarrow> FUNCTIONFS_SUSPEND \<notin> set evs)"
  by (induction evs) auto

lemma resume_first_drop: "resume_first evs \<Longrightarrow> resume_first (drop n evs)"
  by (induction evs arbitrary: n) (auto simp: drop_Cons' dest: in_set_dropD)

lemma ev_wf_add:
  assumes "ev_wf evs"
  shows "ev_wf (purge_events type evs @ [type])"
proof -
  have filt: "\<exists>P. purge_events type evs = filter P evs" by (auto simp: purge_events_def Let_def split: prod.split)
  have fresh: "type \<notin> set (purge_events type evs)" by (cases type) (auto simp: purge_events_def)
  have one: "length (filter lifecycle_event (purge_events type evs @ [type])) \<le> 1"
  proof (cases "lifecycle_event type")
    case True
    then have "filter lifecycle_event (purge_events type evs) = []"
      by (cases type) (auto simp: purge_events_def lifecycle_event_def filter_empty_conv)
    then show ?thesis by simp
  next
    case False
    from filt obtain P where "purge_events type evs = filter P evs" by blast
    moreover have "length (filter lifecycle_event (filter P evs)) \<le> length (filter lifecycle_event evs)"
      by (induction evs) auto
    ultimately show ?thesis using False assms by (simp add: ev_wf_def)
  qed
  have "type = FUNCTIONFS_RESUME \<Longrightarrow> FUNCTIONFS_SUSPEND \<notin> set (purge_events type evs)"
    by (auto simp: purge_events_def)
  then show ?thesis
    using assms filt fresh one by (auto simp: ev_wf_def resume_first_snoc resume_first_filter)
qed

lemma ev_wf_drop: "ev_wf evs \<Longrightarrow> ev_wf (drop n evs)"
proof -
  assume a: "ev_wf evs"
  have "filter lifecycle_event evs = filter lifecycle_event (take n evs) @ filter lifecycle_event (drop n evs)"
    by (metis append_take_drop_id filter_append)
  then show ?thesis using a by (auto simp: ev_wf_def resume_first_drop)
qed

interpretation event_queue: purging_queue purge_events ev_wf EV_TYPES
  by unfold_locales (simp_all add: ev_wf_add ev_wf_drop ev_wf_length, simp add: ev_wf_def)

subsection \<open>The invariant of endpoint zero\<close>

text \<open>
  A setup request is pending only while its event has left the queue and a gadget is bound, and
  only when the queue is well-formed.
\<close>

definition ep0_inv :: "ffs_data \<Rightarrow> bool" where
  "ep0_inv s \<longleftrightarrow> ev_wf (ev_types s)
     \<and> (setup_state s = FFS_SETUP_PENDING \<longrightarrow> FUNCTIONFS_SETUP \<notin> set (ev_types s) \<and> gadget s)
     \<and> (FUNCTIONFS_SETUP \<in> set (ev_types s) \<longrightarrow> gadget s)"

lemma event_add_locked_eq:
  assumes "ev_wf (ev_types s)"
  shows "ffs_event_add_locked type s = (Ok (), s\<lparr>
     setup_state := (if setup_state s = FFS_SETUP_PENDING then FFS_SETUP_CANCELLED else setup_state s),
     ev_types := purge_events type (ev_types s) @ [type]\<rparr>)"
  using event_queue.room [OF assms, of type]
  by (auto simp: ffs_event_add_locked_def Let_def)

lemma event_add_eq:
  assumes "ev_wf (ev_types s)" and "\<not> evlock_held s"
  shows "ffs_event_add type s = (Ok (), s\<lparr>
     setup_state := (if setup_state s = FFS_SETUP_PENDING then FFS_SETUP_CANCELLED else setup_state s),
     ev_types := purge_events type (ev_types s) @ [type]\<rparr>)"
  using assms by (simp add: ffs_event_add_def ev_lock_def ev_unlock_def event_add_locked_eq)

end
