(* ===== verification/Ffs_Ep0.thy ===== *)
theory Ffs_Ep0
  imports Ffs_Strings Ffs_Event
begin

section \<open>Generic USB function: endpoint zero\<close>

text \<open>
  The file operations of endpoint zero in \<open>f_generic.c\<close>: the handshake that takes the descriptors
  and the strings, the reading of events, the answering of setup requests, and the transfers on
  mapped memory with their \<open>ioctl\<close>s. Each call takes the answers of the kernel during that call
  as an environment.
\<close>

subsection \<open>The environment of a call\<close>

text \<open>
  \<open>mutex_free\<close>: \<open>mutex_trylock\<close> succeeds, or \<open>mutex_lock_interruptible\<close> is not interrupted.
  \<open>window\<close> is what happens while the code has dropped the queue's lock between its two checks of
  the setup state, \<open>sleeping\<close> what happens while a reader waits for an event (it is woken by the
  first event, or interrupted when none came). \<open>queue_error\<close>, \<open>interrupted\<close>, \<open>timed_out\<close>,
  \<open>done_status\<close> and \<open>done_actual\<close> are the fate of a transfer; a status is 0 or a negative error
  number. The functions tell which allocation (by its size, for \<open>kcalloc\<close> the number of entries),
  which number formatting (\<open>sprintf_s\<close>), which registration of a device file succeeds.
\<close>

record ep0_env =
  nonblock :: bool
  mutex_free :: bool
  kmalloc_ok :: "nat \<Rightarrow> bool"
  copy_from_ok :: bool
  copy_to_ok :: bool
  memset_ret :: int
  memcpy_ret :: int
  eventfd_error :: "u32 \<Rightarrow> errno option"
  window :: "ffs_async list"
  sleeping :: "ffs_async list"
  queue_error :: "errno option"
  interrupted :: bool
  timed_out :: bool
  done_status :: int
  done_actual :: nat
  sprintf_ok :: "nat \<Rightarrow> bool"
  cdev_ok :: "nat \<Rightarrow> bool"
  device_ok :: "nat \<Rightarrow> bool"
  ready_callback :: "int option"

definition bindE :: "'a res \<times> 's \<Rightarrow> ('a res \<Rightarrow> 's \<Rightarrow> 'b res \<times> 's) \<Rightarrow> 'b res \<times> 's" where
  "bindE p f = (case p of (Fault, s) \<Rightarrow> (Fault, s) | (r, s) \<Rightarrow> f r s)"

subsection \<open>Locks, buffers and the setup state\<close>

definition ffs_mutex_lock :: "ep0_env \<Rightarrow> ffs_data \<Rightarrow> unit res \<times> ffs_data" where
  "ffs_mutex_lock env s =
     (if nonblock env
      then if mutex_free env \<and> \<not> mutex_held s then (Ok (), s\<lparr>mutex_held := True\<rparr>) else (Err EAGAIN, s)
      else if mutex_free env then if mutex_held s then (Fault, s) else (Ok (), s\<lparr>mutex_held := True\<rparr>)
      else (Err EINTR, s))"

text \<open>The kernel's copy of the user's data; none for no data.\<close>

definition ffs_prepare_buffer :: "ep0_env \<Rightarrow> u8 list \<Rightarrow> ffs_data \<Rightarrow> u8 list option res \<times> ffs_data" where
  "ffs_prepare_buffer env buf s =
     (if buf = [] then (Ok None, s)
      else if \<not> kmalloc_ok env (length buf) then (Err ENOMEM, s)
      else let s = kalloc s
        in if \<not> copy_from_ok env then (Err EFAULT, kfree s) else (Ok (Some buf), s))"

text \<open>\<open>cmpxchg\<close> of \<open>CANCELLED\<close> by \<open>NO_SETUP\<close>: the state before.\<close>

definition ffs_setup_state_clear_cancelled :: "ffs_data \<Rightarrow> ffs_setup_state \<times> ffs_data" where
  "ffs_setup_state_clear_cancelled s =
     (setup_state s, if setup_state s = FFS_SETUP_CANCELLED then s\<lparr>setup_state := FFS_NO_SETUP\<rparr> else s)"

definition ffs_ep0_complete :: "ffs_data \<Rightarrow> ffs_data" where
  "ffs_ep0_complete s = s\<lparr>setup_state := FFS_NO_SETUP\<rparr>"

definition kfree_opt :: "u8 list option \<Rightarrow> ffs_data \<Rightarrow> ffs_data" where
  "kfree_opt p s = (case p of None \<Rightarrow> s | Some _ \<Rightarrow> kfree s)"

text \<open>
  Called with the queue's lock held, which it releases. \<open>data\<close> is what is sent, nothing when the
  transfer is from the host. The request and the gadget exist from \<open>functionfs_bind\<close> to
  \<open>functionfs_unbind\<close>; without them their use is a fault. A wait that is interrupted takes the
  request back, which completes it.
\<close>

definition ffs_ep0_queue_wait ::
  "ep0_env \<Rightarrow> u8 list option \<Rightarrow> nat \<Rightarrow> ffs_data \<Rightarrow> nat res \<times> ffs_data" where
  "ffs_ep0_queue_wait env data len s =
     (let zero = len < unat (wLength (ev_setup s));
          s = ev_unlock s
      in if \<not> gadget s then (Fault, s)
         else case queue_error env of Some e \<Rightarrow> (Err e, s)
         | None \<Rightarrow>
           let s = s\<lparr>ep0_queued := ep0_queued s @ [(data, len, zero)]\<rparr>
           in if interrupted env then (Err EINTR, ffs_ep0_complete s)
              else let s = s\<lparr>setup_state := FFS_NO_SETUP\<rparr>
                in if done_status env \<noteq> 0 then (Err (E_CODE (done_status env)), s)
                   else (Ok (done_actual env), s))"

definition ffs_ep0_stall :: "ffs_data \<Rightarrow> 'a res \<times> ffs_data" where
  "ffs_ep0_stall s =
     (if ev_can_stall s then if \<not> gadget s then (Fault, s) else (Err EL2HLT, s\<lparr>setup_state := FFS_NO_SETUP\<rparr>) else (Err ESRCH, s))"

subsection \<open>Getting ready\<close>

text \<open>
  \<open>ffs_epfiles_create\<close>: one file for each endpoint; \<open>i\<close> counts from 1. What was created before a
  failure is destroyed, but on a failing \<open>sprintf_s\<close>.
\<close>

abbreviation (input) FUNCTIONFS_VIRTUAL_ADDR_bit :: nat where "FUNCTIONFS_VIRTUAL_ADDR_bit \<equiv> 4"

fun epfiles_loop :: "ep0_env \<Rightarrow> nat \<Rightarrow> nat \<Rightarrow> ffs_data \<Rightarrow> ffs_epfile list res \<times> ffs_data" where
  "epfiles_loop env 0 i s = (Ok [], s)"
| "epfiles_loop env (Suc k) i s =
     (if length (eps_addrmap s) \<le> i then (Fault, s)
      else let ef = \<lparr>ef_name = (if bit (user_flags s) FUNCTIONFS_VIRTUAL_ADDR_bit
                                then Ep_hex (eps_addrmap s ! i) else Ep_dec i),
                     ef_ep = None, ef_in = False, ef_isoc = False\<rparr>
        in if \<not> sprintf_ok env i then (Err EFAULT, s)
           else if \<not> cdev_ok env i then (Err EBUSY, kfree s)
           else if \<not> device_ok env i then (Err EBUSY, kfree s)
           else bindS (epfiles_loop env k (i + 1) s) (\<lambda>efs s. (Ok (ef # efs), s)))"

definition ffs_epfiles_create :: "ep0_env \<Rightarrow> ffs_data \<Rightarrow> unit res \<times> ffs_data" where
  "ffs_epfiles_create env s =
     (let count = unat (eps_count s)
      in if \<not> kmalloc_ok env count then (Err ENOMEM, s)
         else bindS (epfiles_loop env count 1 (kalloc s)) (\<lambda>efs s. (Ok (), s\<lparr>epfiles := Some efs\<rparr>)))"

text \<open>\<open>ready_callback\<close>: none, or what it returns.\<close>

definition ffs_ready :: "ep0_env \<Rightarrow> ffs_data \<Rightarrow> unit res \<times> ffs_data" where
  "ffs_ready env s = (case private_data s of
     None \<Rightarrow> (Err EINVAL, s)
   | Some dev \<Rightarrow>
       if dev_desc_ready dev then (Err EBUSY, s)
       else let s = s\<lparr>private_data := Some (dev\<lparr>dev_desc_ready := True, dev_has_data := True\<rparr>)\<rparr>
         in case ready_callback env of
              Some ret \<Rightarrow> if ret \<noteq> 0 then (Err (E_CODE ret), s) else (Ok (), s\<lparr>fl_call_closed := True\<rparr>)
            | None \<Rightarrow> (Ok (), s\<lparr>fl_call_closed := True\<rparr>))"

subsection \<open>Writing\<close>

definition mutex_return :: "'a res \<times> ffs_data \<Rightarrow> 'a res \<times> ffs_data" where
  "mutex_return p = bindE p (\<lambda>r s. (r, mutex_unlock s))"

text \<open>The branch of the states \<open>READ_DESCRIPTORS\<close> and \<open>READ_STRINGS\<close>, with the mutex held.\<close>

definition ep0_write_setup :: "ep0_env \<Rightarrow> u8 list \<Rightarrow> ffs_data \<Rightarrow> nat res \<times> ffs_data" where
  "ep0_write_setup env buf s =
     (if length buf < 16 then mutex_return (Err EINVAL, s)
      else bindE (ffs_prepare_buffer env buf s) (\<lambda>r s. case r of
        Err e \<Rightarrow> mutex_return (Err e, s)
      | Fault \<Rightarrow> (Fault, s)
      | Ok data \<Rightarrow>
          if ffs_st s = FFS_READ_DESCRIPTORS then
            mutex_return (bindS (data_got_descs (eventfd_error env) (the data) s) (\<lambda>_ s.
              (Ok (length buf), s\<lparr>ffs_st := FFS_READ_STRINGS\<rparr>)))
          else
            bindE (data_got_strings (kmalloc_ok env) (the data) s) (\<lambda>r s. case r of
              Err e \<Rightarrow> mutex_return (Err e, s)
            | Fault \<Rightarrow> (Fault, s)
            | Ok _ \<Rightarrow> bindE (ffs_epfiles_create env s) (\<lambda>r s. case r of
                Err e \<Rightarrow> mutex_return (Err e, s\<lparr>ffs_st := FFS_CLOSING\<rparr>)
              | Fault \<Rightarrow> (Fault, s)
              | Ok _ \<Rightarrow> bindE (ffs_ready env (mutex_unlock (s\<lparr>ffs_st := FFS_ACTIVE\<rparr>))) (\<lambda>r s. case r of
                  Err (E_CODE c) \<Rightarrow> if c < 0 then (Err (E_CODE c), s\<lparr>ffs_st := FFS_CLOSING\<rparr>)
                                    else (Ok (length buf), s)
                | Err e \<Rightarrow> (Err e, s\<lparr>ffs_st := FFS_CLOSING\<rparr>)
                | Fault \<Rightarrow> (Fault, s)
                | Ok _ \<Rightarrow> (Ok (length buf), s))))))"

text \<open>The branch of \<open>ACTIVE\<close>: the answer to a setup request whose data go to the host.\<close>

abbreviation (input) USB_DIR_IN_bit :: nat where "USB_DIR_IN_bit \<equiv> 7"

definition ep0_write_active :: "ep0_env \<Rightarrow> u8 list \<Rightarrow> ffs_data \<Rightarrow> nat res \<times> ffs_data" where
  "ep0_write_active env buf s =
     bindS (ev_lock s) (\<lambda>_ s.
     let (st, s) = ffs_setup_state_clear_cancelled s
     in if st = FFS_SETUP_CANCELLED then (Err EIDRM, ev_unlock s)
        else if st = FFS_NO_SETUP then (Err ESRCH, ev_unlock s)
        else if \<not> bit (bRequestType (ev_setup s)) USB_DIR_IN_bit then ffs_ep0_stall (ev_unlock s)
        else let len = min (length buf) (unat (wLength (ev_setup s)))
          in bindS (ffs_prepare_buffer env (take len buf) (ev_unlock s)) (\<lambda>data s.
             bindS (run_asyncs (window env) s) (\<lambda>_ s.
             bindS (ev_lock s) (\<lambda>_ s.
             let (st, s) = ffs_setup_state_clear_cancelled s
             in if st = FFS_SETUP_CANCELLED then (Err EIDRM, kfree_opt data (ev_unlock s))
                else bindE (ffs_ep0_queue_wait env (Some (take len buf)) len s) (\<lambda>r s.
                  (r, kfree_opt data s))))))"

definition ffs_ep0_write :: "ep0_env \<Rightarrow> u8 list \<Rightarrow> ffs_data \<Rightarrow> nat res \<times> ffs_data" where
  "ffs_ep0_write env buf s =
     (let (st, s) = ffs_setup_state_clear_cancelled s
      in if st = FFS_SETUP_CANCELLED then (Err EIDRM, s)
         else bindS (ffs_mutex_lock env s) (\<lambda>_ s.
           if ffs_st s = FFS_READ_DESCRIPTORS \<or> ffs_st s = FFS_READ_STRINGS then ep0_write_setup env buf s
           else if ffs_st s = FFS_ACTIVE then mutex_return (ep0_write_active env buf s)
           else mutex_return (Err EBADFD, s)))"

subsection \<open>Reading\<close>

text \<open>
  What a read gives: events, or the answer of a transfer from the host with the number of bytes
  that are copied to the user.
\<close>

datatype ep0_answer =
    Events "(ffs_event \<times> usb_ctrlrequest option) list"
  | Data nat nat

abbreviation (input) functionfs_event_size :: nat where "functionfs_event_size \<equiv> 12"

definition ep0_read_idle :: "ep0_env \<Rightarrow> nat \<Rightarrow> ffs_data \<Rightarrow> ep0_answer res \<times> ffs_data" where
  "ep0_read_idle env len s =
     (let n = len div functionfs_event_size
      in if n = 0 then mutex_return (Err EINVAL, ev_unlock s)
         else if nonblock env \<and> ev_types s = [] then mutex_return (Err EAGAIN, ev_unlock s)
         else bindS (if ev_types s = [] then bindS (run_asyncs (sleeping env) (ev_unlock s)) (\<lambda>_ s. ev_lock s)
                     else (Ok (), s)) (\<lambda>_ s.
           if ev_types s = [] then mutex_return (Err EINTR, ev_unlock s)
           else bindS (ffs_ep0_read_events (memset_ret env) (copy_to_ok env) (min n (length (ev_types s))) s)
                  (\<lambda>evs s. (Ok (Events evs), s))))"

definition ep0_read_pending :: "ep0_env \<Rightarrow> nat \<Rightarrow> ffs_data \<Rightarrow> ep0_answer res \<times> ffs_data" where
  "ep0_read_pending env len s =
     (if bit (bRequestType (ev_setup s)) USB_DIR_IN_bit then mutex_return (ffs_ep0_stall (ev_unlock s))
      else let len = min len (unat (wLength (ev_setup s))); s = ev_unlock s
        in if len \<noteq> 0 \<and> \<not> kmalloc_ok env len then mutex_return (Err ENOMEM, s)
           else let data = (if len \<noteq> 0 then Some (replicate len 0) else None);
                    s = (if len \<noteq> 0 then kalloc s else s)
             in bindS (run_asyncs (window env) s) (\<lambda>_ s.
                bindS (ev_lock s) (\<lambda>_ s.
                let (st, s) = ffs_setup_state_clear_cancelled s
                in if st = FFS_SETUP_CANCELLED
                   then mutex_return (Err EIDRM, kfree_opt data (ev_unlock s))
                   else mutex_return (bindE (ffs_ep0_queue_wait env None len s) (\<lambda>r s. case r of
                      Ok ret \<Rightarrow> if ret > 0 \<and> \<not> copy_to_ok env then (Err EFAULT, kfree_opt data s)
                                else (Ok (Data ret (if ret > 0 then len else 0)), kfree_opt data s)
                    | Err e \<Rightarrow> (Err e, kfree_opt data s)
                    | Fault \<Rightarrow> (Fault, s))))))"

definition ffs_ep0_read :: "ep0_env \<Rightarrow> nat \<Rightarrow> ffs_data \<Rightarrow> ep0_answer res \<times> ffs_data" where
  "ffs_ep0_read env len s =
     (let (st, s) = ffs_setup_state_clear_cancelled s
      in if st = FFS_SETUP_CANCELLED then (Err EIDRM, s)
         else bindS (ffs_mutex_lock env s) (\<lambda>_ s.
           if ffs_st s \<noteq> FFS_ACTIVE then mutex_return (Err EBADFD, s)
           else bindS (ev_lock s) (\<lambda>_ s.
             let (st, s) = ffs_setup_state_clear_cancelled s
             in case st of
                  FFS_SETUP_CANCELLED \<Rightarrow> mutex_return (Err EIDRM, ev_unlock s)
                | FFS_NO_SETUP \<Rightarrow> ep0_read_idle env len s
                | FFS_SETUP_PENDING \<Rightarrow> ep0_read_pending env len s)))"

definition ffs_ep0_open :: "ffs_data \<Rightarrow> unit res \<times> ffs_data" where
  "ffs_ep0_open s = (if ffs_st s = FFS_CLOSING then (Err EBUSY, s) else (Ok (), s))"

subsection \<open>Transfers on mapped memory\<close>

text \<open>The first area that holds the bytes from \<open>buf\<close>; all the arithmetic is in 64 bits.\<close>

definition generic_find_ep0_memory_area :: "u64 \<Rightarrow> u32 \<Rightarrow> ffs_data \<Rightarrow> ffs_memory option" where
  "generic_find_ep0_memory_area buf len s = find (\<lambda>m.
     buf \<ge> vm_start m \<and> buf < vm_start m + ucast (mem_size m)
     \<and> ucast len \<le> vm_start m + ucast (mem_size m) - buf) (memory_list s)"

text \<open>The kernel address of a user address in an area.\<close>

definition kernel_address :: "ffs_memory \<Rightarrow> u64 \<Rightarrow> u64" where
  "kernel_address m buf = mem m + buf - vm_start m"

text \<open>The fields of \<open>struct IoData\<close> that are used on endpoint zero.\<close>

record io_data =
  io_aio :: bool
  io_len :: u32
  io_timeout :: u32
  io_buf :: u64

text \<open>
  A synchronous transfer ends when its request is complete: after time-out or interruption the
  code takes the request back and waits for that, so \<open>ffs_ep0_complete\<close> has run in any case.
\<close>

definition ep0_iorw_sync :: "ep0_env \<Rightarrow> io_data \<Rightarrow> ffs_memory \<Rightarrow> ffs_data \<Rightarrow> nat res \<times> ffs_data" where
  "ep0_iorw_sync env io m s = (if \<not> gadget s then (Fault, s) else case queue_error env of
     Some e \<Rightarrow> (Err e, s)
   | None \<Rightarrow>
       let s = ffs_ep0_complete (s\<lparr>ep0_queued := ep0_queued s @ [(None, unat (io_len io), False)]\<rparr>)
       in if io_timeout io > 0 \<and> timed_out env \<and> \<not> interrupted env then (Err EBUSY, s)
          else if interrupted env \<and> done_status env < 0 then (Err EINTR, s)
          else (Ok (done_actual env), s))"

text \<open>An asynchronous one is linked in front of the list before it is queued.\<close>

definition ep0_iorw_async :: "ep0_env \<Rightarrow> io_data \<Rightarrow> ffs_memory \<Rightarrow> ffs_data \<Rightarrow> nat res \<times> ffs_data" where
  "ep0_iorw_async env io m s =
     (if \<not> gadget s then (Fault, s)
      else if \<not> kmalloc_ok env 1 then (Err ENOMEM, s)
      else let req = \<lparr>rq_buf = kernel_address m (io_buf io), rq_len = io_len io, rq_user_buf = io_buf io,
                      rq_status = 0, rq_freed = False\<rparr>;
               s = (kalloc s)\<lparr>ep0_reqs := req # ep0_reqs s\<rparr>
        in case queue_error env of
             Some e \<Rightarrow> (Err e, kfree (s\<lparr>ep0_reqs := req\<lparr>rq_freed := True\<rparr> # tl (ep0_reqs s)\<rparr>))
           | None \<Rightarrow> (Err EIOCBQUEUED, s\<lparr>ep0_queued := ep0_queued s @ [(None, unat (io_len io), False)]\<rparr>))"

definition ffs_ep0_iorw :: "ep0_env \<Rightarrow> io_data \<Rightarrow> ffs_data \<Rightarrow> nat res \<times> ffs_data" where
  "ffs_ep0_iorw env io s =
     (if ffs_st s \<noteq> FFS_ACTIVE then (Err ENODEV, s)
      else case generic_find_ep0_memory_area (io_buf io) (io_len io) s of
             None \<Rightarrow> (Err ENODEV, s)
           | Some m \<Rightarrow> if io_aio io then ep0_iorw_async env io m s else ep0_iorw_sync env io m s)"

text \<open>
  The completion of an asynchronous request: the event goes to the queue of completed transfers,
  which takes it when it has space; the request leaves the list.
\<close>

abbreviation (input) MAX_REQUEST :: nat where "MAX_REQUEST \<equiv> 64"

definition ffs_ep0_async_io_complete :: "nat \<Rightarrow> int \<Rightarrow> u32 \<Rightarrow> ffs_data \<Rightarrow> unit res \<times> ffs_data" where
  "ffs_ep0_async_io_complete i status actual s =
     (if length (ep0_reqs s) \<le> i \<or> rq_freed (ep0_reqs s ! i) then (Fault, s)
      else let ev = \<lparr>re_buf = rq_user_buf (ep0_reqs s ! i), re_actual = actual, re_status = status\<rparr>
        in case kfifo_in MAX_REQUEST [ev] (req_fifo s) of
             Ok fifo \<Rightarrow> (Ok (), kfree (kfree (s\<lparr>req_fifo := fifo,
                ep0_reqs := take i (ep0_reqs s) @ drop (Suc i) (ep0_reqs s)\<rparr>)))
           | _ \<Rightarrow> (Fault, s))"

text \<open>The walk of \<open>list_for_each_entry\<close> for the request on a buffer: a freed node is a fault.\<close>

fun find_request :: "u64 \<Rightarrow> ep0_request list \<Rightarrow> ep0_request option res" where
  "find_request buf [] = Ok None"
| "find_request buf (r # rs) =
     (if rq_freed r then Fault else if rq_buf r = buf then Ok (Some r) else find_request buf rs)"

datatype ep0_ioctl =
    ENDPOINT_QUEUE_INIT
  | ENDPOINT_QUEUE_DEL
  | ENDPOINT_RELEASE_BUF u64 u32
  | ENDPOINT_READ io_data
  | ENDPOINT_WRITE io_data
  | ENDPOINT_RW_CANCEL u64 u32
  | ENDPOINT_GET_REQ_STATUS u64 u32
  | ENDPOINT_GET_EP0_EVENT
  | ENDPOINT_OTHER

datatype ioctl_answer = Number int | Completed usb_fn_req_event

text \<open>The branch of \<open>READ\<close> and \<open>WRITE\<close>; a heap copy of the arguments is made for an asynchronous one.\<close>

definition ep0_ioctl_rw :: "ep0_env \<Rightarrow> io_data \<Rightarrow> ffs_data \<Rightarrow> ioctl_answer res \<times> ffs_data" where
  "ep0_ioctl_rw env io s =
     (if \<not> copy_from_ok env then (Err EFAULT, s)
      else if io_aio io \<and> \<not> kmalloc_ok env 1 then (Err ENOMEM, s)
      else if \<not> io_aio io \<and> memset_ret env \<noteq> 0 then (Err (E_CODE (memset_ret env)), s)
      else let s = (if io_aio io then kalloc s else s)
        in if memcpy_ret env \<noteq> 0 then (Err (E_CODE (memcpy_ret env)), s)
           else bindE (ffs_ep0_iorw env io s) (\<lambda>r s. case r of
             Err EIOCBQUEUED \<Rightarrow> (Ok (Number 0), s)
           | Err e \<Rightarrow> (Err e, if io_aio io then kfree s else s)
           | Ok n \<Rightarrow> (Ok (Number (int n)), if io_aio io then kfree s else s)
           | Fault \<Rightarrow> (Fault, s)))"

text \<open>The request that is on the kernel address of a mapped buffer.\<close>

definition ep0_find ::
  "ep0_env \<Rightarrow> u64 \<Rightarrow> u32 \<Rightarrow> (ep0_request \<Rightarrow> ioctl_answer) \<Rightarrow> ffs_data \<Rightarrow> ioctl_answer res \<times> ffs_data" where
  "ep0_find env buf len f s =
     (if \<not> copy_from_ok env then (Err EFAULT, s)
      else case generic_find_ep0_memory_area buf len s of
        None \<Rightarrow> (Err EFAULT, s)
      | Some m \<Rightarrow> if \<not> gadget s then (Fault, s) else (case find_request (kernel_address m buf) (ep0_reqs s) of
          Ok (Some r) \<Rightarrow> (Ok (f r), s)
        | Ok None \<Rightarrow> (Err EFAULT, s)
        | Err e \<Rightarrow> (Err e, s)
        | Fault \<Rightarrow> (Fault, s)))"

fun ffs_ep0_ioctl :: "ep0_env \<Rightarrow> ep0_ioctl \<Rightarrow> ffs_data \<Rightarrow> ioctl_answer res \<times> ffs_data" where
  "ffs_ep0_ioctl env ENDPOINT_QUEUE_INIT s =
     (if \<not> kmalloc_ok env (MAX_REQUEST * 16) then (Err ENOMEM, s\<lparr>req_fifo := Fifo_failed\<rparr>)
      else (Ok (Number 0), (kalloc s)\<lparr>req_fifo := Fifo []\<rparr>))"
| "ffs_ep0_ioctl env ENDPOINT_QUEUE_DEL s =
     (Ok (Number 0), (if is_Fifo (req_fifo s) then kfree s else s)\<lparr>req_fifo := Fifo_zeroed False\<rparr>)"
| "ffs_ep0_ioctl env (ENDPOINT_RELEASE_BUF buf len) s =
     (if \<not> copy_from_ok env then (Err EFAULT, s)
      else case generic_find_ep0_memory_area buf len s of
        None \<Rightarrow> (Err EFAULT, s)
      | Some m \<Rightarrow> (Ok (Number 0), kfree (kfree (s\<lparr>memory_list := remove1 m (memory_list s)\<rparr>))))"
| "ffs_ep0_ioctl env (ENDPOINT_READ io) s = ep0_ioctl_rw env io s"
| "ffs_ep0_ioctl env (ENDPOINT_WRITE io) s = ep0_ioctl_rw env io s"
| "ffs_ep0_ioctl env (ENDPOINT_RW_CANCEL buf len) s = ep0_find env buf len (\<lambda>_. Number 0) s"
| "ffs_ep0_ioctl env (ENDPOINT_GET_REQ_STATUS buf len) s = ep0_find env buf len (\<lambda>r. Number (rq_status r)) s"
| "ffs_ep0_ioctl env ENDPOINT_GET_EP0_EVENT s = (case req_fifo s of
     Fifo_zeroed True \<Rightarrow> (Fault, s)
   | Fifo (ev # evs) \<Rightarrow>
       if copy_to_ok env then (Ok (Completed ev), s\<lparr>req_fifo := Fifo evs, setup_state := FFS_NO_SETUP\<rparr>)
       else (Err EFAULT, s)
   | _ \<Rightarrow> (Err EFAULT, s))"
| "ffs_ep0_ioctl env ENDPOINT_OTHER s = (Ok (Number 0), s)"

subsection \<open>Polling and mapping\<close>

record poll_mask =
  EPOLLWRNORM :: bool
  EPOLLOUT :: bool
  EPOLLIN :: bool

definition ffs_ep0_poll :: "ep0_env \<Rightarrow> ffs_data \<Rightarrow> poll_mask res \<times> ffs_data" where
  "ffs_ep0_poll env s =
     (let mask = \<lparr>EPOLLWRNORM = True, EPOLLOUT = False, EPOLLIN = False\<rparr>
      in bindE (ffs_mutex_lock env s) (\<lambda>r s. case r of
           Err e \<Rightarrow> (Ok mask, s)
         | Fault \<Rightarrow> (Fault, s)
         | Ok _ \<Rightarrow> (Ok (case ffs_st s of
               FFS_READ_DESCRIPTORS \<Rightarrow> mask\<lparr>EPOLLOUT := True\<rparr>
             | FFS_READ_STRINGS \<Rightarrow> mask\<lparr>EPOLLOUT := True\<rparr>
             | FFS_ACTIVE \<Rightarrow> (case setup_state s of
                   FFS_NO_SETUP \<Rightarrow> mask\<lparr>EPOLLIN := ev_types s \<noteq> []\<rparr>
                 | _ \<Rightarrow> mask\<lparr>EPOLLOUT := \<not> kfifo_is_empty (req_fifo s)\<rparr>)
             | _ \<Rightarrow> mask), mutex_unlock s)))"

text \<open>
  \<open>ffs_ep0_mmap\<close>: \<open>virt\<close> is the memory that \<open>kmalloc\<close> gives, \<open>remap_ok\<close> whether \<open>remap_pfn_range\<close>
  succeeds. The size is kept in 32 bits.
\<close>

definition ffs_ep0_mmap :: "ep0_env \<Rightarrow> u64 \<Rightarrow> bool \<Rightarrow> u64 \<Rightarrow> u64 \<Rightarrow> ffs_data \<Rightarrow> unit res \<times> ffs_data" where
  "ffs_ep0_mmap env virt remap_ok start stop s =
     (if \<not> kmalloc_ok env (unat (stop - start)) then (Err ENOMEM, s)
      else let s = kalloc s
        in if \<not> kmalloc_ok env 40 then (Err EPERM, kfree s)
           else let s = kalloc s
             in if \<not> remap_ok then (Err EPERM, kfree (kfree s))
                else (Ok (), s\<lparr>memory_list := memory_list s @
                       [\<lparr>mem = virt, vm_start = start, mem_size = ucast (stop - start)\<rparr>]\<rparr>))"

end
