(* ===== verification/Ffs_Ep0_Inv.thy ===== *)
theory Ffs_Ep0_Inv
  imports Ffs_Ep0
begin

section \<open>Generic USB function: the invariant of endpoint zero\<close>

text \<open>
  The state of endpoint zero between calls, and that every call keeps it without a fault: the
  queue of events is well-formed, a setup request is pending only when a gadget is bound, the
  counts fit their tables, and both locks are free. The proofs go backwards through the code with
  the rules of \<open>post\<close>.
\<close>

subsection \<open>The invariant of endpoint zero, kept by every call\<close>

definition ffs_ok :: "ffs_data \<Rightarrow> bool" where
  "ffs_ok s \<longleftrightarrow> ep0_inv s \<and> length (eps_addrmap s) = FFS_MAX_EPS_COUNT
     \<and> unat (eps_count s) < FFS_MAX_EPS_COUNT \<and> unat (strings_count s) \<le> 255 \<and> \<not> evlock_held s"

text \<open>The same with the mutex taken or not, and a gadget bound or not.\<close>

definition ok_in :: "bool \<Rightarrow> bool \<Rightarrow> ffs_data \<Rightarrow> bool" where
  "ok_in bound held s \<longleftrightarrow> ffs_ok s \<and> gadget s = bound \<and> mutex_held s = held"

abbreviation ffs_idle :: "ffs_data \<Rightarrow> bool" where
  "ffs_idle s \<equiv> ok_in (gadget s) False s"

lemma parse_frame_ok: "parse_frame (ok_in bound held)"
  by (auto simp: parse_frame_def ok_in_def ffs_ok_def ep0_inv_def)

text \<open>What the hardware side may do: a setup request needs a bound gadget.\<close>

fun async_ok :: "bool \<Rightarrow> ffs_async \<Rightarrow> bool" where
  "async_ok bound (Async_event e) \<longleftrightarrow> e \<noteq> FUNCTIONFS_SETUP"
| "async_ok bound (Async_setup creq) \<longleftrightarrow> bound"
| "async_ok bound Async_complete \<longleftrightarrow> True"

text \<open>
  What the code relies on: the allocator gives nothing beyond its limit, \<open>memset_s\<close> and \<open>memcpy_s\<close>
  on sufficient buffers succeed.
\<close>

definition env_ok :: "ep0_env \<Rightarrow> ffs_data \<Rightarrow> bool" where
  "env_ok env s \<longleftrightarrow> (\<forall>n. kmalloc_ok env n \<longrightarrow> n < 2 ^ 28) \<and> memset_ret env = 0 \<and> memcpy_ret env = 0
     \<and> (\<forall>a \<in> set (window env) \<union> set (sleeping env). async_ok (gadget s) a)"

lemma bindE_post [post_intros]:
  "post p A E \<Longrightarrow> (\<And>x s. A x s \<Longrightarrow> post (f (Ok x) s) B F) \<Longrightarrow> (\<And>e s. E e s \<Longrightarrow> post (f (Err e) s) B F)
     \<Longrightarrow> post (bindE p f) B F"
  by (cases p; cases "fst p") (auto simp: post_def bindE_def)

lemma mutex_return_post [post_intros]:
  "post p (\<lambda>x s. A x (mutex_unlock s)) (\<lambda>e s. E e (mutex_unlock s)) \<Longrightarrow> post (mutex_return p) A E"
  by (auto simp: mutex_return_def intro: bindE_post)

text \<open>States up to the fields the invariant reads.\<close>

lemma ffs_ok_simps [simp]:
  "ffs_ok (kalloc s) = ffs_ok s" "ffs_ok (kfree s) = ffs_ok s" "ffs_ok (kfree_opt d s) = ffs_ok s"
  "ffs_ok (mutex_unlock s) = ffs_ok s" "ffs_ok (s\<lparr>mutex_held := b\<rparr>) = ffs_ok s"
  "ffs_ok (s\<lparr>ffs_st := st\<rparr>) = ffs_ok s" "ffs_ok (s\<lparr>ep0_queued := q\<rparr>) = ffs_ok s"
  "ffs_ok (s\<lparr>epfiles := ef\<rparr>) = ffs_ok s" "ffs_ok (s\<lparr>stringtabs := t, kmem := k\<rparr>) = ffs_ok s"
  "ffs_ok (s\<lparr>private_data := pd\<rparr>) = ffs_ok s" "ffs_ok (s\<lparr>fl_call_closed := b\<rparr>) = ffs_ok s"
  "ffs_ok (s\<lparr>req_fifo := f\<rparr>) = ffs_ok s" "ffs_ok (s\<lparr>ep0_reqs := r\<rparr>) = ffs_ok s"
  "ffs_ok (s\<lparr>memory_list := m\<rparr>) = ffs_ok s"
  by (simp_all add: ffs_ok_def ep0_inv_def kalloc_def kfree_def kfree_opt_def mutex_unlock_def split: option.split)

lemma gadget_simps [simp]:
  "gadget (kalloc s) = gadget s" "gadget (kfree s) = gadget s" "gadget (kfree_opt d s) = gadget s"
  "gadget (mutex_unlock s) = gadget s" "gadget (ev_unlock s) = gadget s"
  "mutex_held (kalloc s) = mutex_held s" "mutex_held (kfree s) = mutex_held s"
  "mutex_held (kfree_opt d s) = mutex_held s" "\<not> mutex_held (mutex_unlock s)"
  "mutex_held (ev_unlock s) = mutex_held s" "\<not> evlock_held (ev_unlock s)"
  "setup_state (ev_unlock s) = setup_state s" "ev_types (ev_unlock s) = ev_types s"
  "evlock_held (mutex_unlock s) = evlock_held s"
  by (simp_all add: kalloc_def kfree_def kfree_opt_def mutex_unlock_def ev_unlock_def split: option.split)

lemma ok_in_simps [simp]:
  "ok_in g m (kalloc s) = ok_in g m s" "ok_in g m (kfree s) = ok_in g m s"
  "ok_in g m (kfree_opt d s) = ok_in g m s" "ok_in g m (s\<lparr>ffs_st := st\<rparr>) = ok_in g m s"
  "ok_in g m (s\<lparr>ep0_queued := q\<rparr>) = ok_in g m s" "ok_in g m (s\<lparr>epfiles := ef\<rparr>) = ok_in g m s"
  "ok_in g m (s\<lparr>stringtabs := t, kmem := k\<rparr>) = ok_in g m s"
  "ok_in g m (s\<lparr>private_data := pd\<rparr>) = ok_in g m s" "ok_in g m (s\<lparr>fl_call_closed := b\<rparr>) = ok_in g m s"
  "ok_in g m (s\<lparr>req_fifo := f\<rparr>) = ok_in g m s" "ok_in g m (s\<lparr>ep0_reqs := r\<rparr>) = ok_in g m s"
  "ok_in g m (s\<lparr>memory_list := ml\<rparr>) = ok_in g m s"
  by (simp_all add: ok_in_def)

lemma ok_in_unlock [simp]: "ok_in g True s \<Longrightarrow> ok_in g False (mutex_unlock s)"
  by (simp add: ok_in_def)

lemma mutex_return_ok:
  "post p (\<lambda>_. ok_in g True) (\<lambda>_. ok_in g True) \<Longrightarrow> post (mutex_return p) (\<lambda>_. ok_in g False) (\<lambda>_. ok_in g False)"
  by (rule mutex_return_post, erule post_mono) (simp_all add: ok_in_def)

lemma ok_in_bounds:
  assumes "ok_in g m s"
  shows "length (eps_addrmap s) = FFS_MAX_EPS_COUNT" "unat (eps_count s) < FFS_MAX_EPS_COUNT"
    "unat (strings_count s) \<le> 255" "gadget s = g"
  using assms by (simp_all add: ok_in_def ffs_ok_def)

lemma clear_cancelled_ok: "ffs_ok s \<Longrightarrow> ffs_ok (snd (ffs_setup_state_clear_cancelled s))"
  by (simp add: ffs_setup_state_clear_cancelled_def ffs_ok_def ep0_inv_def)

lemma ffs_ok_no_setup: "ffs_ok s \<Longrightarrow> ffs_ok (s\<lparr>setup_state := FFS_NO_SETUP\<rparr>)"
  by (simp add: ffs_ok_def ep0_inv_def)

lemma run_async_post:
  assumes "ok_in g m s" and "async_ok g a"
  shows "post (run_async a s) (\<lambda>_. ok_in g m) (\<lambda>_ _. False)"
proof -
  have wf: "ev_wf (ev_types s)" and free: "\<not> evlock_held s" using assms by (simp_all add: ok_in_def ffs_ok_def ep0_inv_def)
  have new: "FUNCTIONFS_SETUP \<in> set (purge_events e evs) \<Longrightarrow> FUNCTIONFS_SETUP \<in> set evs" for e evs
    by (auto simp: purge_events_def Let_def split: prod.splits)
  show ?thesis
  proof (cases a)
    case (Async_event e)
    then show ?thesis
      using assms new event_queue.wf_add [OF wf, of e]
      by (auto simp: event_add_eq [OF wf free] ok_in_def ffs_ok_def ep0_inv_def)
  next
    case (Async_setup creq)
    have wf': "ev_wf (ev_types (s\<lparr>evlock_held := True, ev_setup := creq\<rparr>))" using wf by simp
    show ?thesis
      using Async_setup assms free event_queue.wf_add [OF wf, of FUNCTIONFS_SETUP]
      by (auto simp: ev_lock_def ev_unlock_def event_add_locked_eq [OF wf'] ok_in_def ffs_ok_def ep0_inv_def)
  next
    case Async_complete
    then show ?thesis using ffs_ok_no_setup assms by (simp add: ok_in_def)
  qed
qed

lemma run_asyncs_post:
  "ok_in g m s \<Longrightarrow> (\<And>a. a \<in> set as \<Longrightarrow> async_ok g a) \<Longrightarrow>
     post (run_asyncs as s) (\<lambda>_. ok_in g m) (\<lambda>_ _. False)"
  by (induction as arbitrary: s) (auto intro!: post_bindS [OF run_async_post])

lemma run_asyncs_ok:
  "ok_in g m s \<Longrightarrow> (\<And>a. a \<in> set as \<Longrightarrow> async_ok g a) \<Longrightarrow>
     post (run_asyncs as s) (\<lambda>_. ok_in g m) (\<lambda>_. ok_in g m)"
  by (rule post_mono [OF run_asyncs_post]) auto

lemma ffs_mutex_lock_post:
  "ok_in g False s \<Longrightarrow> post (ffs_mutex_lock env s) (\<lambda>_. ok_in g True) (\<lambda>_. ok_in g False)"
  by (simp add: ffs_mutex_lock_def ok_in_def)

lemma ffs_prepare_buffer_post:
  assumes "ok_in g m s"
  shows "post (ffs_prepare_buffer env buf s) (\<lambda>d s. ok_in g m s \<and> d = (if buf = [] then None else Some buf)) (\<lambda>_. ok_in g m)"
  using assms by (auto simp: ffs_prepare_buffer_def Let_def)

lemma data_got_descs_post:
  "ok_in g m s \<Longrightarrow> 16 \<le> length data \<Longrightarrow>
     post (data_got_descs fdget data s) (\<lambda>_. ok_in g m) (\<lambda>_. ok_in g m)"
  by (intro post_no_fault data_got_descs_no_fault parse_frame_got_descs parse_frame_ok)
     (auto simp: ok_in_def ffs_ok_def)

lemma data_got_strings_post:
  assumes "ok_in g m s" and "\<And>n. kmalloc_ok env n \<Longrightarrow> n < 2 ^ 28"
  shows "post (data_got_strings (kmalloc_ok env) data s) (\<lambda>_. ok_in g m) (\<lambda>_. ok_in g m)"
proof -
  have "got_strings_checked (kmalloc_ok env) (strings_count s) data \<noteq> Fault"
    using assms by (intro got_strings_no_fault) (auto simp: ok_in_def ffs_ok_def)
  then show ?thesis
    using assms(1) by (auto simp: data_got_strings_def split: res.splits option.splits)
qed

lemma epfiles_loop_post:
  "ok_in g m s \<Longrightarrow> i + k \<le> FFS_MAX_EPS_COUNT \<Longrightarrow>
     post (epfiles_loop env k i s) (\<lambda>efs s. ok_in g m s \<and> length efs = k) (\<lambda>_. ok_in g m)"
proof (induction k arbitrary: i s)
  case (Suc k)
  then have "i < length (eps_addrmap s)" using ok_in_bounds [OF Suc.prems(1)] by simp
  moreover have "post (epfiles_loop env k (Suc i) s) (\<lambda>efs s. ok_in g m s \<and> length efs = k) (\<lambda>_. ok_in g m)"
    using Suc.IH [of s "Suc i"] Suc.prems by simp
  ultimately show ?case
    using Suc.prems by (auto simp: Let_def intro!: post_bindS)
qed simp

lemma ffs_epfiles_create_post:
  assumes "ok_in g m s"
  shows "post (ffs_epfiles_create env s) (\<lambda>_. ok_in g m) (\<lambda>_. ok_in g m)"
proof -
  have "post (epfiles_loop env (unat (eps_count s)) 1 (kalloc s)) (\<lambda>efs s. ok_in g m s \<and> length efs = unat (eps_count s0)) (\<lambda>_. ok_in g m)"
    if "eps_count s0 = eps_count s" for s0
    using epfiles_loop_post [of g m "kalloc s" 1 "unat (eps_count s)" env] ok_in_bounds(2) [OF assms] assms that by simp
  then show ?thesis
    using assms by (auto simp: ffs_epfiles_create_def Let_def intro!: post_bindS)
qed

lemma ffs_ready_post: "ok_in g m s \<Longrightarrow> post (ffs_ready env s) (\<lambda>_. ok_in g m) (\<lambda>_. ok_in g m)"
  by (auto simp: ffs_ready_def Let_def split: option.split)

lemma ok_in_evlock:
  "ok_in g m s \<Longrightarrow> ev_lock s = (Ok (), s\<lparr>evlock_held := True\<rparr>)"
  "ok_in g m s \<Longrightarrow> ev_unlock (s\<lparr>evlock_held := True\<rparr>) = s"
  by (auto simp: ok_in_def ffs_ok_def ev_lock_def ev_unlock_def)

lemma ok_in_no_setup [simp]: "ok_in g m s \<Longrightarrow> ok_in g m (s\<lparr>setup_state := FFS_NO_SETUP\<rparr>)"
  by (simp add: ok_in_def ffs_ok_no_setup)

lemma pending_bound: "ok_in g m s \<Longrightarrow> setup_state s = FFS_SETUP_PENDING \<Longrightarrow> g"
  by (auto simp: ok_in_def ffs_ok_def ep0_inv_def)

lemma ffs_ep0_stall_post:
  "ok_in g m s \<Longrightarrow> g \<Longrightarrow> post (ffs_ep0_stall s) (\<lambda>_. ok_in g m) (\<lambda>_. ok_in g m)"
  by (auto simp: ffs_ep0_stall_def ok_in_bounds)

lemma ffs_ep0_queue_wait_post:
  assumes "ok_in g m s" and g
  shows "post (ffs_ep0_queue_wait env data len (s\<lparr>evlock_held := True\<rparr>)) (\<lambda>_. ok_in g m) (\<lambda>_. ok_in g m)"
  using assms by (auto simp: ffs_ep0_queue_wait_def ffs_ep0_complete_def Let_def ok_in_evlock ok_in_bounds(4) split: option.split)

lemma ep0_write_setup_post:
  assumes "ok_in g True s" and env: "\<And>n. kmalloc_ok env n \<Longrightarrow> n < 2 ^ 28"
  shows "post (ep0_write_setup env buf s) (\<lambda>_. ok_in g False) (\<lambda>_. ok_in g False)"
proof (cases "length buf < 16")
  case True
  then show ?thesis using assms by (auto simp: ep0_write_setup_def intro!: mutex_return_ok)
next
  case False
  then have "buf \<noteq> []" by auto
  with False show ?thesis
    unfolding ep0_write_setup_def
    using assms
    by (auto intro!: bindE_post [OF ffs_prepare_buffer_post] mutex_return_ok
        post_bindS [OF data_got_descs_post] bindE_post [OF data_got_strings_post [where g = g and m = True]]
        bindE_post [OF ffs_epfiles_create_post [where g = g and m = True]] bindE_post [OF ffs_ready_post [where g = g and m = False]] split: errno.split)
qed

lemma clear_cancelled_locked:
  assumes "ok_in g m s"
  obtains st s' where "ffs_setup_state_clear_cancelled (s\<lparr>evlock_held := True\<rparr>) = (st, s'\<lparr>evlock_held := True\<rparr>)"
    and "ok_in g m s'" and "st = setup_state s" and "st \<noteq> FFS_SETUP_CANCELLED \<Longrightarrow> s' = s"
    and "ev_setup s' = ev_setup s"
  using that [of "setup_state s" "if setup_state s = FFS_SETUP_CANCELLED then s\<lparr>setup_state := FFS_NO_SETUP\<rparr> else s"] assms
  by (auto simp: ffs_setup_state_clear_cancelled_def split: if_splits)

text \<open>The second look at the setup state, after the window.\<close>

definition recheck_and_wait ::
  "ep0_env \<Rightarrow> u8 list option \<Rightarrow> nat \<Rightarrow> u8 list option \<Rightarrow> ffs_data \<Rightarrow> nat res \<times> ffs_data" where
  "recheck_and_wait env d len data s =
     (let (st, s) = ffs_setup_state_clear_cancelled s
      in if st = FFS_SETUP_CANCELLED then (Err EIDRM, kfree_opt data (ev_unlock s))
         else bindE (ffs_ep0_queue_wait env d len s) (\<lambda>r s. (r, kfree_opt data s)))"

lemma recheck_and_wait_post:
  assumes "ok_in g m s" and g
  shows "post (recheck_and_wait env d len data (s\<lparr>evlock_held := True\<rparr>)) (\<lambda>_. ok_in g m) (\<lambda>_. ok_in g m)"
proof -
  from clear_cancelled_locked [OF assms(1)] obtain st s' where
    st: "ffs_setup_state_clear_cancelled (s\<lparr>evlock_held := True\<rparr>) = (st, s'\<lparr>evlock_held := True\<rparr>)"
    and ok: "ok_in g m s'" by blast
  show ?thesis
    using ok assms(2)
    by (auto simp: recheck_and_wait_def st ok_in_evlock intro!: bindE_post [OF ffs_ep0_queue_wait_post])
qed

lemma locked_recheck_post:
  "ok_in g m s \<Longrightarrow> g \<Longrightarrow>
     post (bindS (ev_lock s) (\<lambda>_. recheck_and_wait env d len data)) (\<lambda>_. ok_in g m) (\<lambda>_. ok_in g m)"
  using recheck_and_wait_post by (simp add: ok_in_evlock)

lemma ep0_write_active_post:
  assumes ok: "ok_in g True s" and window: "\<And>a. a \<in> set (window env) \<Longrightarrow> async_ok g a"
  shows "post (ep0_write_active env buf s) (\<lambda>_. ok_in g True) (\<lambda>_. ok_in g True)"
proof -
  from clear_cancelled_locked [OF ok] obtain st s' where
    st: "ffs_setup_state_clear_cancelled (s\<lparr>evlock_held := True\<rparr>) = (st, s'\<lparr>evlock_held := True\<rparr>)"
    and ok': "ok_in g True s'" and pending: "st = FFS_SETUP_PENDING \<Longrightarrow> g"
    using pending_bound [OF ok] by metis
  show ?thesis
    using ok' pending window
    by (cases st)
       (auto simp: ep0_write_active_def ok_in_evlock [OF ok] ok_in_evlock [OF ok'] st Let_def
          recheck_and_wait_def [unfolded Let_def, symmetric] ok_in_evlock
        intro!: ffs_ep0_stall_post post_bindS [OF ffs_prepare_buffer_post] post_bindS [OF run_asyncs_ok]
          locked_recheck_post)
qed

lemma ffs_ep0_write_post:
  assumes ok: "ok_in g False s" and env: "env_ok env s"
  shows "post (ffs_ep0_write env buf s) (\<lambda>_. ok_in g False) (\<lambda>_. ok_in g False)"
proof -
  have window: "async_ok g a" if "a \<in> set (window env)" for a
    using env that ok_in_bounds(4) [OF ok] by (simp add: env_ok_def)
  have kmalloc: "kmalloc_ok env n \<Longrightarrow> n < 2 ^ 28" for n using env by (simp add: env_ok_def)
  have run: "post (bindS (ffs_mutex_lock env t) (\<lambda>_ s.
           if ffs_st s = FFS_READ_DESCRIPTORS \<or> ffs_st s = FFS_READ_STRINGS then ep0_write_setup env buf s
           else if ffs_st s = FFS_ACTIVE then mutex_return (ep0_write_active env buf s)
           else mutex_return (Err EBADFD, s))) (\<lambda>_. ok_in g False) (\<lambda>_. ok_in g False)" if "ok_in g False t" for t
    using that window kmalloc
    by (auto intro!: post_bindS [OF ffs_mutex_lock_post] ep0_write_setup_post mutex_return_ok ep0_write_active_post)
  show ?thesis
    using run [of s] run [of "s\<lparr>setup_state := FFS_NO_SETUP\<rparr>"] ok
    by (auto simp: ffs_ep0_write_def ffs_setup_state_clear_cancelled_def Let_def)
qed

lemma read_events_loop_eq:
  "i + k \<le> length (ev_types s) \<Longrightarrow> length (ev_types s) \<le> EV_TYPES \<Longrightarrow>
     read_events_loop k i s =
       (Ok (map (\<lambda>e. (e, if e = FUNCTIONFS_SETUP then Some (ev_setup s) else None)) (take k (drop i (ev_types s)))),
        if FUNCTIONFS_SETUP \<in> set (take k (drop i (ev_types s))) then s\<lparr>setup_state := FFS_SETUP_PENDING\<rparr> else s)"
proof (induction k arbitrary: i s)
  case (Suc k)
  then have "drop i (ev_types s) = ev_types s ! i # drop (Suc i) (ev_types s)" by (simp add: Cons_nth_drop_Suc)
  moreover have "\<not> length (ev_types s) \<le> i" "\<not> EV_TYPES \<le> i" using Suc.prems by simp_all
  ultimately show ?case using Suc.prems by (auto simp: Let_def Suc.IH)
qed simp

lemma ffs_ep0_read_events_eq:
  assumes "ok_in g True s" and "0 < n" and "n \<le> length (ev_types s)"
  shows "ffs_ep0_read_events 0 copied n (s\<lparr>evlock_held := True\<rparr>) =
    (if copied then Ok (map (\<lambda>e. (e, if e = FUNCTIONFS_SETUP then Some (ev_setup s) else None)) (take n (ev_types s)))
     else Err EFAULT,
     s\<lparr>setup_state := (if FUNCTIONFS_SETUP \<in> set (take n (ev_types s)) then FFS_SETUP_PENDING else setup_state s),
       ev_types := drop n (ev_types s), mutex_held := False\<rparr>)"
proof -
  have "ev_wf (ev_types s)" "\<not> evlock_held s" using assms(1) by (simp_all add: ok_in_def ffs_ok_def ep0_inv_def)
  then have "read_events_loop n 0 (s\<lparr>evlock_held := True\<rparr>) =
     (Ok (map (\<lambda>e. (e, if e = FUNCTIONFS_SETUP then Some (ev_setup s) else None)) (take n (ev_types s))),
        if FUNCTIONFS_SETUP \<in> set (take n (ev_types s)) then s\<lparr>evlock_held := True, setup_state := FFS_SETUP_PENDING\<rparr>
        else s\<lparr>evlock_held := True\<rparr>)"
    using assms(3) by (subst read_events_loop_eq) (auto simp: ev_wf_length)
  moreover have "max 1 n = n" using assms(2) by simp
  ultimately show ?thesis
    using \<open>\<not> evlock_held s\<close> by (simp add: ffs_ep0_read_events_def Let_def ev_unlock_def mutex_unlock_def)
qed

lemma read_events_ok:
  assumes "ok_in g True s"
  shows "ok_in g False (s\<lparr>setup_state := (if FUNCTIONFS_SETUP \<in> set (take n (ev_types s)) then FFS_SETUP_PENDING else setup_state s),
       ev_types := drop n (ev_types s), mutex_held := False\<rparr>)"
proof -
  have wf: "ev_wf (ev_types s)" using assms by (simp add: ok_in_def ffs_ok_def ep0_inv_def)
  have "FUNCTIONFS_SETUP \<in> set (take n (ev_types s)) \<Longrightarrow> FUNCTIONFS_SETUP \<notin> set (drop n (ev_types s))"
    using wf set_take_disj_set_drop_if_distinct [of "ev_types s" n n] by (auto simp: ev_wf_def)
  then show ?thesis
    using assms event_queue.wf_drop [OF wf, of n]
    by (auto simp: ok_in_def ffs_ok_def ep0_inv_def dest: in_set_takeD in_set_dropD)
qed

lemma ep0_read_idle_post:
  assumes ok: "ok_in g True s" and memset: "memset_ret env = 0"
    and sleeping: "\<And>a. a \<in> set (sleeping env) \<Longrightarrow> async_ok g a"
  shows "post (ep0_read_idle env len (s\<lparr>evlock_held := True\<rparr>)) (\<lambda>_. ok_in g False) (\<lambda>_. ok_in g False)"
proof -
  have read: "post (if ev_types t = [] then mutex_return (Err EINTR, ev_unlock (t\<lparr>evlock_held := True\<rparr>))
           else bindS (ffs_ep0_read_events (memset_ret env) (copy_to_ok env) (min n (length (ev_types t))) (t\<lparr>evlock_held := True\<rparr>))
                  (\<lambda>evs s. (Ok (Events evs), s))) (\<lambda>_. ok_in g False) (\<lambda>_. ok_in g False)"
    if "ok_in g True t" "n \<noteq> 0" for t n
  proof (cases "ev_types t = []")
    case False
    then have "0 < min n (length (ev_types t))" using that(2) by auto
    then show ?thesis
      using False read_events_ok [OF that(1), of "min n (length (ev_types t))"]
      by (simp add: ffs_ep0_read_events_eq [OF that(1)] memset)
  qed (use that in \<open>simp add: ok_in_evlock mutex_return_ok\<close>)
  let ?body = "\<lambda>n t. if ev_types t = [] then mutex_return (Err EINTR, ev_unlock t)
      else bindS (ffs_ep0_read_events (memset_ret env) (copy_to_ok env) (min n (length (ev_types t))) t)
             (\<lambda>evs s. (Ok (Events evs), s))"
  have wait: "post (bindS (run_asyncs (sleeping env) s) (\<lambda>_ s. ev_lock s))
      (\<lambda>_ t. \<exists>t'. t = t'\<lparr>evlock_held := True\<rparr> \<and> ok_in g True t') (\<lambda>_ _. False)"
    using ok sleeping by (auto intro!: post_bindS [OF run_asyncs_post] simp: ok_in_evlock)
  have slept: "post (bindS (bindS (run_asyncs (sleeping env) s) (\<lambda>_ s. ev_lock s)) (\<lambda>_. ?body n))
      (\<lambda>_. ok_in g False) (\<lambda>_. ok_in g False)" if "n \<noteq> 0" for n
  proof (rule post_bindS [OF post_mono [OF wait]])
    fix t assume "\<exists>t'. t = t'\<lparr>evlock_held := True\<rparr> \<and> ok_in g True t'"
    then show "post (?body n t) (\<lambda>_. ok_in g False) (\<lambda>_. ok_in g False)" using read [OF _ that] by fastforce
  qed simp_all
  show ?thesis
  proof (cases "len div functionfs_event_size = 0 \<or> nonblock env \<and> ev_types s = []")
    case True
    then show ?thesis using ok by (auto simp: ep0_read_idle_def Let_def ok_in_evlock intro!: mutex_return_ok)
  next
    case False
    have "ep0_read_idle env len (s\<lparr>evlock_held := True\<rparr>) =
        (if ev_types s = []
         then bindS (bindS (run_asyncs (sleeping env) s) (\<lambda>_ s. ev_lock s)) (\<lambda>_. ?body (len div functionfs_event_size))
         else ?body (len div functionfs_event_size) (s\<lparr>evlock_held := True\<rparr>))"
      using False by (simp add: ep0_read_idle_def Let_def ok_in_evlock(2) [OF ok])
    then show ?thesis using slept [of "len div functionfs_event_size"] read [OF ok, of "len div functionfs_event_size"] False
      by (cases "ev_types s = []") simp_all
  qed
qed

lemma ep0_read_pending_post:
  assumes ok: "ok_in g True s" and g and window: "\<And>a. a \<in> set (window env) \<Longrightarrow> async_ok g a"
  shows "post (ep0_read_pending env len (s\<lparr>evlock_held := True\<rparr>)) (\<lambda>_. ok_in g False) (\<lambda>_. ok_in g False)"
proof -
  let ?answer = "\<lambda>len data t. let (st, s) = ffs_setup_state_clear_cancelled t
      in if st = FFS_SETUP_CANCELLED then mutex_return (Err EIDRM, kfree_opt data (ev_unlock s))
         else mutex_return (bindE (ffs_ep0_queue_wait env None len s) (\<lambda>r s. case r of
            Ok ret \<Rightarrow> if ret > 0 \<and> \<not> copy_to_ok env then (Err EFAULT, kfree_opt data s)
                      else (Ok (Data ret (if ret > 0 then len else 0)), kfree_opt data s)
          | Err e \<Rightarrow> (Err e, kfree_opt data s)
          | Fault \<Rightarrow> (Fault, s)))"
  have answer: "post (bindS (ev_lock t) (\<lambda>_. ?answer len data)) (\<lambda>_. ok_in g False) (\<lambda>_. ok_in g False)"
    if "ok_in g True t" for t len data
  proof -
    from clear_cancelled_locked [OF that] obtain st t' where
      st: "ffs_setup_state_clear_cancelled (t\<lparr>evlock_held := True\<rparr>) = (st, t'\<lparr>evlock_held := True\<rparr>)"
      and ok': "ok_in g True t'" by blast
    show ?thesis
      using ok' \<open>g\<close>
      by (auto simp: ok_in_evlock(1) [OF that] st ok_in_evlock(2) [OF ok']
          intro!: mutex_return_ok bindE_post [OF ffs_ep0_queue_wait_post [where g = g and m = True]])
  qed
  have run: "post (bindS (run_asyncs (window env) t) (\<lambda>_ s. bindS (ev_lock s) (\<lambda>_. ?answer len data)))
      (\<lambda>_. ok_in g False) (\<lambda>_. ok_in g False)" if "ok_in g True t" for t len data
    using that window answer by (intro post_bindS [OF post_mono [OF run_asyncs_post]]) auto
  show ?thesis
    using ok run [of s] run [of "kalloc s"] ffs_ep0_stall_post [OF ok \<open>g\<close>]
    by (auto simp: ep0_read_pending_def ok_in_evlock(2) [OF ok] Let_def intro!: mutex_return_ok)
qed

lemma ffs_ep0_read_post:
  assumes ok: "ok_in g False s" and env: "env_ok env s"
  shows "post (ffs_ep0_read env len s) (\<lambda>_. ok_in g False) (\<lambda>_. ok_in g False)"
proof -
  have asyncs: "async_ok g a" if "a \<in> set (window env) \<union> set (sleeping env)" for a
    using env that ok_in_bounds(4) [OF ok] by (simp add: env_ok_def)
  have body: "post (bindS (ev_lock t) (\<lambda>_ s.
             let (st, s) = ffs_setup_state_clear_cancelled s
             in case st of
                  FFS_SETUP_CANCELLED \<Rightarrow> mutex_return (Err EIDRM, ev_unlock s)
                | FFS_NO_SETUP \<Rightarrow> ep0_read_idle env len s
                | FFS_SETUP_PENDING \<Rightarrow> ep0_read_pending env len s)) (\<lambda>_. ok_in g False) (\<lambda>_. ok_in g False)"
    if t: "ok_in g True t" for t
  proof -
    from clear_cancelled_locked [OF t] obtain st t' where
      st: "ffs_setup_state_clear_cancelled (t\<lparr>evlock_held := True\<rparr>) = (st, t'\<lparr>evlock_held := True\<rparr>)"
      and ok': "ok_in g True t'" and "st = FFS_SETUP_PENDING \<Longrightarrow> g" using pending_bound [OF t] by metis
    then show ?thesis
      using env asyncs
      by (cases st) (auto simp: ok_in_evlock(1) [OF t] ok_in_evlock(2) [OF ok'] st env_ok_def
          intro!: mutex_return_ok ep0_read_idle_post ep0_read_pending_post)
  qed
  have run: "post (bindS (ffs_mutex_lock env t) (\<lambda>_ s.
           if ffs_st s \<noteq> FFS_ACTIVE then mutex_return (Err EBADFD, s)
           else bindS (ev_lock s) (\<lambda>_ s.
             let (st, s) = ffs_setup_state_clear_cancelled s
             in case st of
                  FFS_SETUP_CANCELLED \<Rightarrow> mutex_return (Err EIDRM, ev_unlock s)
                | FFS_NO_SETUP \<Rightarrow> ep0_read_idle env len s
                | FFS_SETUP_PENDING \<Rightarrow> ep0_read_pending env len s))) (\<lambda>_. ok_in g False) (\<lambda>_. ok_in g False)"
    if "ok_in g False t" for t
    using that body by (auto intro!: post_bindS [OF ffs_mutex_lock_post [where g = g]] mutex_return_ok)
  show ?thesis
    using run [of s] run [of "s\<lparr>setup_state := FFS_NO_SETUP\<rparr>"] ok
    by (auto simp: ffs_ep0_read_def ffs_setup_state_clear_cancelled_def Let_def)
qed

subsection \<open>The other calls\<close>

definition no_freed :: "ffs_data \<Rightarrow> bool" where
  "no_freed s \<longleftrightarrow> (\<forall>r \<in> set (ep0_reqs s). \<not> rq_freed r)"

lemma find_request_no_freed:
  "(\<forall>r \<in> set rs. \<not> rq_freed r) \<Longrightarrow> find_request buf rs = Ok (find (\<lambda>r. rq_buf r = buf) rs)"
  by (induction rs) auto

lemma no_freed_simps [simp]:
  "no_freed (kalloc t) = no_freed t" "no_freed (kfree t) = no_freed t"
  "no_freed (t\<lparr>req_fifo := f\<rparr>) = no_freed t" "no_freed (t\<lparr>memory_list := ml\<rparr>) = no_freed t"
  "no_freed (t\<lparr>setup_state := st\<rparr>) = no_freed t" "no_freed (t\<lparr>ep0_queued := q\<rparr>) = no_freed t"
  "no_freed (ffs_ep0_complete t) = no_freed t"
  by (simp_all add: no_freed_def kalloc_def kfree_def ffs_ep0_complete_def)

lemma ok_in_complete: "ok_in g m s \<Longrightarrow> ok_in g m (ffs_ep0_complete s)"
  by (simp add: ffs_ep0_complete_def)

lemma ffs_ep0_iorw_post:
  assumes ok: "ok_in True m s" and nf: "no_freed s"
  shows "post (ffs_ep0_iorw env io s) (\<lambda>_ s. ok_in True m s \<and> (no_freed s \<or> queue_error env \<noteq> None))
     (\<lambda>_ s. ok_in True m s \<and> (no_freed s \<or> queue_error env \<noteq> None))"
proof -
  have sync: "post (ep0_iorw_sync env io a s) (\<lambda>_ s. ok_in True m s \<and> no_freed s) (\<lambda>_ s. ok_in True m s \<and> no_freed s)" for a
    using ok nf by (auto simp: ep0_iorw_sync_def Let_def ok_in_bounds(4) ok_in_complete split: option.split)
  have "no_freed (s\<lparr>ep0_reqs := req # ep0_reqs s\<rparr>)" if "\<not> rq_freed req" for req
    using nf that by (simp add: no_freed_def)
  then have async: "post (ep0_iorw_async env io a s)
      (\<lambda>_ s. ok_in True m s \<and> (no_freed s \<or> queue_error env \<noteq> None)) (\<lambda>_ s. ok_in True m s \<and> (no_freed s \<or> queue_error env \<noteq> None))" for a
    using ok nf by (auto simp: ep0_iorw_async_def Let_def ok_in_bounds(4) kalloc_def ok_in_simps(1) [unfolded kalloc_def]
        no_freed_def split: option.split)
  show ?thesis
    using ok nf async post_mono [OF sync] by (auto simp: ffs_ep0_iorw_def split: option.split)
qed

lemma ffs_ep0_ioctl_post:
  assumes ok: "ok_in True False s" and nf: "no_freed s" and queue: "queue_error env = None"
    and fifo: "req_fifo s \<noteq> Fifo_zeroed True"
  shows "post (ffs_ep0_ioctl env c s) (\<lambda>_ s. ok_in True False s \<and> no_freed s) (\<lambda>_ s. ok_in True False s \<and> no_freed s)"
proof -
  have rw: "post (ep0_ioctl_rw env io s) (\<lambda>_ s. ok_in True False s \<and> no_freed s) (\<lambda>_ s. ok_in True False s \<and> no_freed s)" for io
    using ok nf queue
    by (auto simp: ep0_ioctl_rw_def Let_def intro!: bindE_post [OF ffs_ep0_iorw_post [where m = False]] split: errno.split)
  have find: "post (ep0_find env buf len f s) (\<lambda>_ s. ok_in True False s \<and> no_freed s) (\<lambda>_ s. ok_in True False s \<and> no_freed s)"
    for buf len f
    using ok nf by (auto simp: ep0_find_def find_request_no_freed no_freed_def ok_in_bounds(4) split: option.split)
  show ?thesis
    using ok nf rw find fifo by (cases c) (auto split: option.split list.split kfifo.split bool.split)
qed

lemma ffs_ep0_poll_post:
  "ok_in g False s \<Longrightarrow> post (ffs_ep0_poll env s) (\<lambda>_. ok_in g False) (\<lambda>_. ok_in g False)"
  by (auto simp: ffs_ep0_poll_def Let_def intro!: bindE_post [OF ffs_mutex_lock_post [where g = g]])

lemma ffs_ep0_mmap_post:
  "ok_in g m s \<Longrightarrow> post (ffs_ep0_mmap env virt remap_ok start stop s) (\<lambda>_. ok_in g m) (\<lambda>_. ok_in g m)"
  by (auto simp: ffs_ep0_mmap_def Let_def)

subsection \<open>Interleavings\<close>

text \<open>
  The steps of endpoint zero: user space's calls with whatever answers the kernel gives, and the
  hardware's events. The gadget is bound or not throughout.
\<close>

inductive ep0_step :: "ffs_data \<Rightarrow> ffs_data \<Rightarrow> bool" where
  by_write: "env_ok env s \<Longrightarrow> ep0_step s (snd (ffs_ep0_write env buf s))"
| by_read: "env_ok env s \<Longrightarrow> ep0_step s (snd (ffs_ep0_read env len s))"
| by_poll: "ep0_step s (snd (ffs_ep0_poll env s))"
| by_mmap: "ep0_step s (snd (ffs_ep0_mmap env virt remap_ok start stop s))"
| by_hardware: "async_ok (gadget s) a \<Longrightarrow> ep0_step s (snd (run_async a s))"

inductive ep0_reachable :: "ffs_data \<Rightarrow> ffs_data \<Rightarrow> bool" for s0 where
  start: "ep0_reachable s0 s0"
| step: "ep0_reachable s0 s \<Longrightarrow> ep0_step s s' \<Longrightarrow> ep0_reachable s0 s'"

lemma ep0_step_ok: "ep0_step s s' \<Longrightarrow> ok_in g False s \<Longrightarrow> ok_in g False s'"
proof (induction rule: ep0_step.induct)
  case (by_write env s buf)
  then show ?case using postD(2) [OF ffs_ep0_write_post] by blast
next
  case (by_read env s len)
  then show ?case using postD(2) [OF ffs_ep0_read_post] by blast
next
  case (by_poll s env)
  then show ?case using postD(2) [OF ffs_ep0_poll_post] by blast
next
  case (by_mmap s env virt remap_ok start stop)
  then show ?case using postD(2) [OF ffs_ep0_mmap_post] by blast
next
  case (by_hardware s a)
  then have "post (run_async a s) (\<lambda>_. ok_in g False) (\<lambda>_. ok_in g False)"
    by (intro post_mono [OF run_async_post]) (auto dest: ok_in_bounds)
  then show ?case by (rule postD(2))
qed

lemma ep0_reachable_ok: "ep0_reachable s0 s \<Longrightarrow> ok_in g False s0 \<Longrightarrow> ok_in g False s"
  by (induction rule: ep0_reachable.induct) (auto intro: ep0_step_ok)

end
