(* ===== verification/Ffs_Properties.thy ===== *)
theory Ffs_Properties
  imports Ffs_Ep0_Inv
begin

section \<open>Generic USB function: properties\<close>

text \<open>
  What the parsers, the event queue and endpoint zero of the generic USB function guarantee, and
  where the code falls short of its intent. Each property has a witness, a run of the model on
  concrete input.
\<close>

subsection \<open>The descriptors\<close>

text \<open>
  C20. Whatever the bytes of a descriptors message of at least 16 bytes (the minimum the write
  operation lets through), and whatever was parsed before, \<open>__ffs_data_got_descs\<close> never reads or
  writes outside of the message and of the endpoint map, which keeps its 31 entries, and the
  number of endpoints stays below 31.
\<close>
theorem descriptors_parsed_safely:
  assumes "16 \<le> length data" and "length (eps_addrmap ffs) = 31" and "unat (eps_count ffs) < 31"
  shows "no_fault (data_got_descs fdget data ffs)
    \<and> length (eps_addrmap (snd (data_got_descs fdget data ffs))) = 31
    \<and> unat (eps_count (snd (data_got_descs fdget data ffs))) < 31"
proof -
  have "parse_frame (\<lambda>s. length (eps_addrmap s) = 31 \<and> unat (eps_count s) < 31)"
    by (auto simp: parse_frame_def)
  then show ?thesis
    using data_got_descs_no_fault [OF assms(1,2)] parse_frame_got_descs [OF _ _ assms(2)] assms(2,3)
    by (fastforce simp: leaves_def)
qed

text \<open>A message for full and high speed: an interface with one endpoint each.\<close>

definition sample_speed :: "u8 \<Rightarrow> u8 list" where
  "sample_speed addr = [9, 4, 0, 0, 1, 0xff, 0, 0, 1,  7, 5, addr, 2, 0, 2, 0]"

definition sample_descs :: "u8 \<Rightarrow> u8 list" where
  "sample_descs addr = le32_bytes 1 @ le32_bytes 48 @ le32_bytes 2 @ le32_bytes 2
     @ sample_speed addr @ sample_speed addr"

lemma descriptors_parsed_safely_witness:
  "no_fault (data_got_descs (\<lambda>_. None) (sample_descs 0x81) ffs_new)"
proof -
  have "16 \<le> length (sample_descs 0x81)" and "length (eps_addrmap ffs_new) = 31"
    and "unat (eps_count ffs_new) < 31"
    by code_simp+
  from descriptors_parsed_safely [OF this] show ?thesis by blast
qed

text \<open>
  C9. What an accepted descriptors message means, on a function without descriptors: after the
  header, the message consists of the announced number of well-formed descriptors for each speed
  (and then Microsoft OS descriptors, whose first and only change is in place); every speed that
  declares an interface or an endpoint declares exactly the endpoint addresses, in order, that the
  endpoint map records, and the recorded number of interfaces; and the recorded number of strings
  is the highest string number used.
\<close>
theorem accepted_descriptors:
  assumes "data_got_descs fdget data ffs = (Ok u, ffs')"
    and "length (eps_addrmap ffs) = 31" and "eps_count ffs = 0" and "strings_count ffs = 0"
  shows "\<exists>dss os os'.
      split_speeds [fs_descs_count ffs', hs_descs_count ffs', ss_descs_count ffs']
        (drop (descs_header_size data) data) = Some (dss, os)
    \<and> (\<forall>ds \<in> set dss. declares_nothing ds \<or> ds = [] \<or> declares ffs' ds)
    \<and> unat (strings_count ffs') = fold max (strings_of (entities_of (concat dss))) 0
    \<and> unat (eps_count ffs') < 31
    \<and> raw_descs ffs' = take (length data - descs_header_size data - length os) (drop (descs_header_size data) data) @ os'
    \<and> length os' = length os \<and> (ms_os_descs_count ffs' = 0 \<longrightarrow> os = [])"
proof -
  from assms(1) have ok: "got_descs_checked fdget data ffs = (Ok u, ffs')"
    by (auto simp: data_got_descs_def split: prod.splits res.splits)
  show ?thesis
    by (rule got_descs_checked_Ok [OF ok assms(2)]) (use assms(3,4) in fastforce)
qed

lemma accepted_descriptors_witness:
  "\<exists>ffs' dss os. data_got_descs (\<lambda>_. None) (sample_descs 0x81) ffs_new = (Ok (), ffs')
    \<and> split_speeds [fs_descs_count ffs', hs_descs_count ffs', ss_descs_count ffs']
        (drop (descs_header_size (sample_descs 0x81)) (sample_descs 0x81)) = Some (dss, os)"
proof -
  let ?r = "data_got_descs (\<lambda>_. None) (sample_descs 0x81) ffs_new"
  have "fst ?r = Ok ()" by code_simp
  then have run: "?r = (Ok (), snd ?r)" by (metis prod.collapse)
  have "length (eps_addrmap ffs_new) = 31" "eps_count ffs_new = 0" "strings_count ffs_new = 0" by code_simp+
  from accepted_descriptors [OF run this] run show ?thesis by blast
qed

text \<open>
  C21. \<open>ffs_do_descs\<close> with the callback \<open>__ffs_data_do_entity\<close> computes what a reference without
  pointers computes: cut off one well-formed descriptor after the other and record the entities of
  each. The two agree on every input, on the result, the error and the recorded state, also when
  an error stops them in the middle.
\<close>
theorem descriptor_loop_reference:
  assumes "length (eps_addrmap (h_ffs h)) = 31"
  shows "ffs_do_descs data_do_entity count data h =
    bindS (ref_descs (unat count) data h) (\<lambda>rest h. (Ok (length data - length rest), h))"
  using assms by (simp add: ffs_do_descs_def do_descs_loop_ref)

lemma descriptor_loop_reference_witness:
  "ffs_do_descs data_do_entity 2 (sample_speed 0x81) \<lparr>h_ffs = ffs_new, h_interfaces_count = 0, h_eps_count = 0\<rparr> =
   bindS (ref_descs (unat (2 :: u32)) (sample_speed 0x81) \<lparr>h_ffs = ffs_new, h_interfaces_count = 0, h_eps_count = 0\<rparr>)
     (\<lambda>rest h. (Ok (length (sample_speed 0x81) - length rest), h))"
  by (rule descriptor_loop_reference) code_simp

text \<open>
  A rejected descriptors message is not forgotten: the counts of endpoints and interfaces of
  the speeds read before the error stay recorded, so a correct message, which a fresh function
  accepts, is rejected afterwards because it declares another endpoint.
\<close>
theorem rejected_descriptors_remembered:
  "fst (data_got_descs (\<lambda>_. None) (sample_descs 0x82) ffs_new) = Ok ()
   \<and> (let bad = take 4 (sample_descs 0x81) @ le32_bytes 47 @ take 39 (drop 8 (sample_descs 0x81));
          r = data_got_descs (\<lambda>_. None) bad ffs_new
      in fst r = Err EINVAL \<and> eps_count (snd r) = 1
         \<and> fst (data_got_descs (\<lambda>_. None) (sample_descs 0x82) (snd r)) = Err EINVAL)"
  by code_simp

text \<open>
  A descriptor of an unknown type may say it is 0 bytes long. It is then read again and
  again: two bytes of input satisfy any number of descriptors, up to \<open>2 ^ 32 - 1\<close>, without
  progress.
\<close>
theorem zero_length_descriptor_repeats:
  "ffs_do_descs data_do_entity count [0, 0xff] h = (Ok 0, h)"
proof -
  have single: "ffs_do_single_desc data_do_entity [0, 0xff] h = (Ok 0, h)" for h
    by (simp add: do_single_desc_eq desc_wf_def desc_lengths_def desc_entities_def)
  have "do_descs_loop data_do_entity k num [0, 0xff] h = (Ok [0, 0xff], h)" for k num
    by (induction k arbitrary: num) (simp_all add: single advance_def, simp_all add: data_do_entity_def)
  then show ?thesis by (simp add: ffs_do_descs_def)
qed

subsection \<open>The strings\<close>

text \<open>
  C10. Which strings messages are accepted when the descriptors need strings and memory is there:
  exactly those that encode, for one language, a list of zero-terminated strings that is at least
  as long as needed, in less than \<open>2 ^ 32\<close> bytes. The function then keeps the needed strings. In
  particular no message with two languages is ever accepted: the counter of the strings is not set
  again for the next language.
\<close>
theorem strings_accepted_iff:
  assumes "strings_count ffs \<noteq> 0" and "alloc_ok (strings_vla_size 1 (ucast (strings_count ffs)))"
  shows "data_got_strings alloc_ok data ffs = (Ok (), ffs') \<longleftrightarrow>
    (\<exists>language strs. data = encode_strings language strs \<and> length data < 2 ^ 32
       \<and> (\<forall>s \<in> set strs. 0 \<notin> set s) \<and> unat (strings_count ffs) \<le> length strs
       \<and> ffs' = ffs\<lparr>stringtabs := Some [(language, take (unat (strings_count ffs)) strs)], kmem := kmem ffs + 1\<rparr>)"
proof -
  have none: "got_strings_checked alloc_ok (strings_count ffs) data \<noteq> Ok None"
    using assms(1) by (auto simp: got_strings_checked_def Let_def needed_cast bindR_Ok split: option.split)
  have pos: "0 < strings_count ffs" using assms(1) by (simp add: word_neq_0_conv)
  have "data_got_strings alloc_ok data ffs = (Ok (), ffs') \<longleftrightarrow>
      (\<exists>tabs. got_strings_checked alloc_ok (strings_count ffs) data = Ok (Some tabs)
         \<and> ffs' = ffs\<lparr>stringtabs := Some tabs, kmem := kmem ffs + 1\<rparr>)"
    using none by (auto simp: data_got_strings_def split: res.splits option.splits)
  also have "\<dots> \<longleftrightarrow> (\<exists>language strs. data = encode_strings language strs \<and> length data < 2 ^ 32
       \<and> (\<forall>s \<in> set strs. 0 \<notin> set s) \<and> unat (strings_count ffs) \<le> length strs
       \<and> ffs' = ffs\<lparr>stringtabs := Some [(language, take (unat (strings_count ffs)) strs)], kmem := kmem ffs + 1\<rparr>)"
    using got_strings_encode [OF _ _ pos, where kmalloc_ok = alloc_ok] assms(2)
    by (auto elim!: got_strings_decode) blast
  finally show ?thesis .
qed

lemma strings_accepted_iff_witness:
  "data_got_strings (\<lambda>_. True) (encode_strings 0x409 [[0x41, 0x42]]) (ffs_new\<lparr>strings_count := 1\<rparr>)
     = (Ok (), ffs_new\<lparr>strings_count := 1, stringtabs := Some [(0x409, [[0x41, 0x42]])], kmem := 1\<rparr>)"
proof (subst strings_accepted_iff)
  show "strings_count (ffs_new\<lparr>strings_count := 1\<rparr>) \<noteq> 0" by simp
  show "\<exists>language strs. encode_strings 0x409 [[0x41, 0x42]] = encode_strings language strs
     \<and> length (encode_strings 0x409 [[0x41, 0x42]]) < 2 ^ 32 \<and> (\<forall>s \<in> set strs. 0 \<notin> set s)
     \<and> unat (strings_count (ffs_new\<lparr>strings_count := 1\<rparr>)) \<le> length strs
     \<and> ffs_new\<lparr>strings_count := 1, stringtabs := Some [(0x409, [[0x41, 0x42]])], kmem := 1\<rparr> =
       ffs_new\<lparr>strings_count := 1, stringtabs := Some [(language, take (unat (strings_count (ffs_new\<lparr>strings_count := 1\<rparr>))) strs)],
         kmem := kmem (ffs_new\<lparr>strings_count := 1\<rparr>) + 1\<rparr>"
    by (intro exI [of _ "0x409"] exI [of _ "[[0x41, 0x42]]"] conjI)
       (simp_all add: ffs_new_def length_encode_strings encode_strs_def)
qed simp

text \<open>
  C24. \<open>__ffs_data_got_strings\<close> never writes past the tables it allocates and never reads past the
  message, although the sizes of the tables are computed in 32 bits: this holds because the
  allocator refuses requests of 256 MiB and more, and string numbers have 8 bits.
\<close>
theorem strings_parsed_safely:
  assumes "\<And>n. alloc_ok n \<Longrightarrow> n < 2 ^ 28" and "unat (strings_count ffs) \<le> 255"
  shows "no_fault (data_got_strings alloc_ok data ffs)"
  using got_strings_no_fault [OF assms, where data = data]
  by (auto simp: data_got_strings_def split: res.split option.split)

lemma strings_parsed_safely_witness:
  "no_fault (data_got_strings (\<lambda>n. n < 4194304) (encode_strings 0x409 [[0x41]]) (ffs_new\<lparr>strings_count := 1\<rparr>))"
proof -
  have "unat (strings_count (ffs_new\<lparr>strings_count := 1\<rparr>)) \<le> 255" by code_simp
  then show ?thesis by (intro strings_parsed_safely) auto
qed

subsection \<open>Endpoint zero\<close>

text \<open>An environment in which nothing fails and nothing happens, and a bound, active function.\<close>

definition quiet_env :: ep0_env where
  "quiet_env = \<lparr>nonblock = True, mutex_free = True, kmalloc_ok = (\<lambda>n. n < 100), copy_from_ok = True,
     copy_to_ok = True, memset_ret = 0, memcpy_ret = 0, eventfd_error = (\<lambda>_. None), window = [],
     sleeping = [], queue_error = None, interrupted = False, timed_out = False, done_status = 0,
     done_actual = 2, sprintf_ok = (\<lambda>_. True), cdev_ok = (\<lambda>_. True), device_ok = (\<lambda>_. True),
     ready_callback = None\<rparr>"

definition active_ffs :: ffs_data where
  "active_ffs = ffs_new\<lparr>ffs_st := FFS_ACTIVE, gadget := True, ev_can_stall := True,
     ev_setup := \<lparr>bRequestType = 0x80, bRequest = 6, wValue = 0, wIndex = 0, wLength = 3\<rparr>\<rparr>"

lemma quiet_env_ok: "env_ok quiet_env s"
  by (simp add: env_ok_def quiet_env_def)

text \<open>
  C6. In every state that any sequence of writes, reads, polls, mappings and hardware events can
  reach from an idle one, whatever the kernel answers during them: reading and writing endpoint
  zero never fault (no access out of bounds, no use of a missing gadget, no lock taken twice), both
  locks are free between calls, the event queue holds at most the four events it has space for,
  and a setup request waits for an answer only while a gadget is bound and its event is not in the
  queue.
\<close>
theorem endpoint_zero_safe:
  assumes "ep0_reachable s0 s" and "ffs_idle s0" and "env_ok env s"
  shows "no_fault (ffs_ep0_write env buf s) \<and> no_fault (ffs_ep0_read env len s)
    \<and> \<not> mutex_held s \<and> \<not> evlock_held s \<and> length (ev_types s) \<le> 4
    \<and> (setup_state s = FFS_SETUP_PENDING \<longrightarrow> gadget s \<and> FUNCTIONFS_SETUP \<notin> set (ev_types s))"
proof -
  have ok: "ok_in (gadget s0) False s" using ep0_reachable_ok [OF assms(1,2)] .
  then show ?thesis
    using postD(1) [OF ffs_ep0_write_post [OF ok assms(3)]] postD(1) [OF ffs_ep0_read_post [OF ok assms(3)]]
    by (auto simp: ok_in_def ffs_ok_def ep0_inv_def ev_wf_length)
qed

lemma endpoint_zero_safe_witness:
  "no_fault (ffs_ep0_read quiet_env 12 (snd (run_async (Async_event FUNCTIONFS_ENABLE) active_ffs)))"
proof -
  have idle: "ffs_idle active_ffs" by code_simp
  have "ep0_reachable active_ffs (snd (run_async (Async_event FUNCTIONFS_ENABLE) active_ffs))"
    by (intro ep0_reachable.step [OF ep0_reachable.start] ep0_step.by_hardware) simp
  from endpoint_zero_safe [OF this idle quiet_env_ok] show ?thesis by blast
qed

text \<open>
  C25. The answer to a setup request: when one is pending that asks for data and nothing overtakes
  it, a write hands exactly the first \<open>wLength\<close> bytes of the user's data to the hardware, asks for
  a zero-length packet exactly if they are fewer than the host wants, leaves no setup request
  pending, keeps no buffer, and returns what the hardware reports as sent.
\<close>
theorem setup_answered:
  assumes "ffs_st s = FFS_ACTIVE" and "setup_state s = FFS_SETUP_PENDING" and "gadget s"
    and "\<not> mutex_held s" and "\<not> evlock_held s" and "bit (bRequestType (ev_setup s)) 7"
    and "mutex_free env" and "copy_from_ok env" and "kmalloc_ok env len \<or> len = 0" and "window env = []"
    and "queue_error env = None" and "\<not> interrupted env" and "done_status env = 0"
    and len: "len = min (length buf) (unat (wLength (ev_setup s)))"
  shows "ffs_ep0_write env buf s = (Ok (done_actual env), s\<lparr>setup_state := FFS_NO_SETUP,
    ep0_queued := ep0_queued s @ [(Some (take len buf), len, len < unat (wLength (ev_setup s)))]\<rparr>)"
proof -
  have empty: "take len buf = [] \<longleftrightarrow> len = 0" using len by auto
  have "length (take len buf) = len" using len by simp
  then show ?thesis
    using assms(1-13) empty unfolding ffs_ep0_write_def ep0_write_active_def len [symmetric]
    by (cases "len = 0")
       (simp_all add: ffs_setup_state_clear_cancelled_def ffs_mutex_lock_def ev_lock_def ev_unlock_def Let_def
         len [symmetric] ffs_prepare_buffer_def kalloc_def ffs_ep0_queue_wait_def bindE_def kfree_opt_def kfree_def
         mutex_return_def mutex_unlock_def)
qed

lemma setup_answered_witness:
  "fst (ffs_ep0_write quiet_env [1, 2] (active_ffs\<lparr>setup_state := FFS_SETUP_PENDING\<rparr>)) = Ok 2
   \<and> ep0_queued (snd (ffs_ep0_write quiet_env [1, 2] (active_ffs\<lparr>setup_state := FFS_SETUP_PENDING\<rparr>)))
       = [(Some [1, 2], 2, True)]"
proof -
  let ?s = "active_ffs\<lparr>setup_state := FFS_SETUP_PENDING\<rparr>"
  have "ffs_ep0_write quiet_env [1, 2] ?s = (Ok (done_actual quiet_env), ?s\<lparr>setup_state := FFS_NO_SETUP,
      ep0_queued := ep0_queued ?s @ [(Some (take 2 [1, 2]), 2, 2 < unat (wLength (ev_setup ?s)))]\<rparr>)"
    by (rule setup_answered) (code_simp+)
  then show ?thesis by (simp add: quiet_env_def active_ffs_def ffs_new_def)
qed

text \<open>
  A setup request that another event cancelled is reported once: the next write or read of
  endpoint zero, in any state of the function, returns \<open>-EIDRM\<close> and does nothing but forget the
  request.
\<close>
theorem cancelled_setup_reported:
  assumes "setup_state s = FFS_SETUP_CANCELLED"
  shows "ffs_ep0_write env buf s = (Err EIDRM, s\<lparr>setup_state := FFS_NO_SETUP\<rparr>)
    \<and> ffs_ep0_read env len s = (Err EIDRM, s\<lparr>setup_state := FFS_NO_SETUP\<rparr>)"
  using assms by (simp add: ffs_ep0_write_def ffs_ep0_read_def ffs_setup_state_clear_cancelled_def)

lemma cancelled_setup_reported_witness:
  "fst (ffs_ep0_write quiet_env [1] (active_ffs\<lparr>setup_state := FFS_SETUP_CANCELLED\<rparr>)) = Err EIDRM"
  using cancelled_setup_reported [of "active_ffs\<lparr>setup_state := FFS_SETUP_CANCELLED\<rparr>" quiet_env "[1]" 0] by simp

text \<open>
  C28. An answer that is overtaken is not sent: when an event arrives while a write copies the
  user's data, the write notices it, returns \<open>-EIDRM\<close>, hands nothing to the hardware, frees its
  buffer and leaves no setup request pending.
\<close>
theorem overtaken_answer_not_sent:
  assumes "ffs_st s = FFS_ACTIVE" and "setup_state s = FFS_SETUP_PENDING" and "ev_wf (ev_types s)"
    and "\<not> mutex_held s" and "\<not> evlock_held s" and "bit (bRequestType (ev_setup s)) 7"
    and "mutex_free env" and "copy_from_ok env" and "kmalloc_ok env len \<or> len = 0"
    and "window env = [Async_event e]"
    and len: "len = min (length buf) (unat (wLength (ev_setup s)))"
  shows "ffs_ep0_write env buf s = (Err EIDRM, s\<lparr>setup_state := FFS_NO_SETUP,
    ev_types := purge_events e (ev_types s) @ [e]\<rparr>)"
proof -
  have empty: "take len buf = [] \<longleftrightarrow> len = 0" using len by auto
  have sz: "length (take len buf) = len" using len by simp
  have add: "ev_types t = ev_types s \<Longrightarrow> \<not> evlock_held t \<Longrightarrow> ffs_event_add e t = (Ok (), t\<lparr>
     setup_state := (if setup_state t = FFS_SETUP_PENDING then FFS_SETUP_CANCELLED else setup_state t),
     ev_types := purge_events e (ev_types s) @ [e]\<rparr>)" for t
    using event_add_eq [of t e] assms(3) by simp
  show ?thesis
    using assms(1-10) empty sz unfolding ffs_ep0_write_def ep0_write_active_def len [symmetric]
    by (cases "len = 0")
       (simp_all add: ffs_setup_state_clear_cancelled_def ffs_mutex_lock_def ev_lock_def ev_unlock_def Let_def
         len [symmetric] ffs_prepare_buffer_def kalloc_def bindE_def kfree_opt_def kfree_def add
         mutex_return_def mutex_unlock_def)
qed

lemma overtaken_answer_not_sent_witness:
  "fst (ffs_ep0_write (quiet_env\<lparr>window := [Async_event FUNCTIONFS_DISABLE]\<rparr>) [1, 2]
      (active_ffs\<lparr>setup_state := FFS_SETUP_PENDING\<rparr>)) = Err EIDRM"
proof -
  let ?env = "quiet_env\<lparr>window := [Async_event FUNCTIONFS_DISABLE]\<rparr>"
  let ?s = "active_ffs\<lparr>setup_state := FFS_SETUP_PENDING\<rparr>"
  have "ffs_ep0_write ?env [1, 2] ?s = (Err EIDRM, ?s\<lparr>setup_state := FFS_NO_SETUP,
      ev_types := purge_events FUNCTIONFS_DISABLE (ev_types ?s) @ [FUNCTIONFS_DISABLE]\<rparr>)"
    by (rule overtaken_answer_not_sent [where len = 2]) (code_simp+)
  then show ?thesis by simp
qed

text \<open>
  C26. Reading events: when no setup request is pending and events are queued, a read with space
  for at least one takes as many as fit from the front of the queue, oldest first, gives the setup
  event its request, and makes the request pending exactly if it was among them.
\<close>
theorem events_read_in_order:
  assumes "ffs_idle s" and "ffs_st s = FFS_ACTIVE" and "setup_state s = FFS_NO_SETUP" and "ev_types s \<noteq> []"
    and "mutex_free env" and "memset_ret env = 0" and "copy_to_ok env" and "12 \<le> len"
  shows "ffs_ep0_read env len s =
    (Ok (Events (map (\<lambda>e. (e, if e = FUNCTIONFS_SETUP then Some (ev_setup s) else None))
        (take (len div 12) (ev_types s)))),
     s\<lparr>setup_state := (if FUNCTIONFS_SETUP \<in> set (take (len div 12) (ev_types s)) then FFS_SETUP_PENDING else FFS_NO_SETUP),
       ev_types := drop (len div 12) (ev_types s)\<rparr>)"
proof -
  have held: "\<not> mutex_held s" "\<not> evlock_held s" using assms(1) by (simp_all add: ok_in_def ffs_ok_def)
  have ok: "ok_in (gadget s) True (s\<lparr>mutex_held := True\<rparr>)" using assms(1) by (simp add: ok_in_def)
  let ?n = "min (len div 12) (length (ev_types s))"
  have n: "0 < ?n" "len div 12 \<noteq> 0" using assms(4,8) by (simp_all add: div_greater_zero_iff)
  have same: "take ?n (ev_types s) = take (len div 12) (ev_types s)" "drop ?n (ev_types s) = drop (len div 12) (ev_types s)"
    by (simp_all add: min_def)
  let ?s' = "s\<lparr>setup_state := (if FUNCTIONFS_SETUP \<in> set (take (len div 12) (ev_types s)) then FFS_SETUP_PENDING else FFS_NO_SETUP),
       ev_types := drop (len div 12) (ev_types s)\<rparr>"
  have unlocked: "t\<lparr>mutex_held := False\<rparr> = t" if "\<not> mutex_held t" for t :: ffs_data
    using that by (cases t) simp
  have "ffs_ep0_read_events 0 True ?n (s\<lparr>mutex_held := True, evlock_held := True\<rparr>) =
    (Ok (map (\<lambda>e. (e, if e = FUNCTIONFS_SETUP then Some (ev_setup s) else None)) (take (len div 12) (ev_types s))),
     ?s'\<lparr>mutex_held := False\<rparr>)"
    using ffs_ep0_read_events_eq [OF ok, of ?n True] n(1) same assms(3) by simp
  then have read: "ffs_ep0_read_events 0 True ?n (s\<lparr>mutex_held := True, evlock_held := True\<rparr>) =
    (Ok (map (\<lambda>e. (e, if e = FUNCTIONFS_SETUP then Some (ev_setup s) else None)) (take (len div 12) (ev_types s))), ?s')"
    using unlocked [of ?s'] held(1) by simp
  show ?thesis
    using assms(2-7) held n read
    by (cases "nonblock env")
       (simp_all add: ffs_ep0_read_def ffs_setup_state_clear_cancelled_def ffs_mutex_lock_def ev_lock_def
        ep0_read_idle_def Let_def split del: if_split)
qed

lemma events_read_in_order_witness:
  "fst (ffs_ep0_read quiet_env 12 (active_ffs\<lparr>ev_types := [FUNCTIONFS_SETUP, FUNCTIONFS_SUSPEND]\<rparr>))
     = Ok (Events [(FUNCTIONFS_SETUP, Some (ev_setup active_ffs))])"
proof -
  let ?s = "active_ffs\<lparr>ev_types := [FUNCTIONFS_SETUP, FUNCTIONFS_SUSPEND]\<rparr>"
  have "ffs_idle ?s" by code_simp
  then show ?thesis
    by (subst events_read_in_order) (simp_all add: active_ffs_def quiet_env_def ffs_new_def)
qed

text \<open>The events that what the hardware does adds to the queue, and the last setup request of it.\<close>

fun events_of :: "ffs_async list \<Rightarrow> ffs_event list" where
  "events_of [] = []"
| "events_of (Async_event e # as) = e # events_of as"
| "events_of (Async_setup c # as) = FUNCTIONFS_SETUP # events_of as"
| "events_of (Async_complete # as) = events_of as"

fun last_setup :: "usb_ctrlrequest \<Rightarrow> ffs_async list \<Rightarrow> usb_ctrlrequest" where
  "last_setup c [] = c"
| "last_setup c (Async_setup c' # as) = last_setup c' as"
| "last_setup c (_ # as) = last_setup c as"

lemma run_async_step:
  assumes "ev_wf (ev_types s)" and "\<not> evlock_held s"
  shows "\<exists>s1. run_async a s = (Ok (), s1) \<and> \<not> evlock_held s1
    \<and> ev_types s1 = foldl (\<lambda>q e. purge_events e q @ [e]) (ev_types s) (events_of [a])
    \<and> ev_setup s1 = last_setup (ev_setup s) [a]
    \<and> (setup_state s \<noteq> FFS_SETUP_PENDING \<or> events_of [a] \<noteq> [] \<longrightarrow> setup_state s1 \<noteq> FFS_SETUP_PENDING)"
proof (cases a)
  case (Async_event e)
  then show ?thesis using assms by (simp add: event_add_eq)
next
  case (Async_setup c)
  have "ev_wf (ev_types (s\<lparr>evlock_held := True, ev_setup := c\<rparr>))" using assms(1) by simp
  from event_add_locked_eq [OF this, of FUNCTIONFS_SETUP] show ?thesis
    using Async_setup assms(2) by (simp add: ev_lock_def ev_unlock_def)
next
  case Async_complete
  then show ?thesis using assms(2) by simp
qed

text \<open>
  C27. The event queue under any sequence of events of the function, setup requests and completions:
  adding never fails for lack of space, at most four events are queued, at most one of them starts or
  ends the function, no event is queued twice (so there is one setup event at most, and the request kept
  for it is the last one), the newest event is last, and a setup request that was pending before an event
  came is not pending any more.
\<close>
theorem event_queue_bounded:
  assumes "ev_wf (ev_types s)" and "\<not> evlock_held s"
  shows "\<exists>s'. run_asyncs as s = (Ok (), s') \<and> \<not> evlock_held s'
    \<and> ev_types s' = foldl (\<lambda>q e. purge_events e q @ [e]) (ev_types s) (events_of as)
    \<and> length (ev_types s') \<le> 4 \<and> distinct (ev_types s') \<and> length (filter lifecycle_event (ev_types s')) \<le> 1
    \<and> (events_of as \<noteq> [] \<longrightarrow> last (ev_types s') = last (events_of as) \<and> setup_state s' \<noteq> FFS_SETUP_PENDING)
    \<and> ev_setup s' = last_setup (ev_setup s) as"
proof -
  let ?add = "\<lambda>q e. purge_events e q @ [e]"
  have "\<exists>s'. run_asyncs as s = (Ok (), s') \<and> \<not> evlock_held s' \<and> ev_types s' = foldl ?add (ev_types s) (events_of as)
      \<and> ev_setup s' = last_setup (ev_setup s) as
      \<and> (setup_state s \<noteq> FFS_SETUP_PENDING \<or> events_of as \<noteq> [] \<longrightarrow> setup_state s' \<noteq> FFS_SETUP_PENDING)"
    using assms
  proof (induction as arbitrary: s)
    case (Cons a as)
    from run_async_step [OF Cons.prems, of a] obtain s1 where s1: "run_async a s = (Ok (), s1)" "\<not> evlock_held s1"
      "ev_types s1 = foldl ?add (ev_types s) (events_of [a])" "ev_setup s1 = last_setup (ev_setup s) [a]"
      "setup_state s \<noteq> FFS_SETUP_PENDING \<or> events_of [a] \<noteq> [] \<longrightarrow> setup_state s1 \<noteq> FFS_SETUP_PENDING" by blast
    have "ev_wf (ev_types s1)" unfolding s1(3) by (rule event_queue.wf_adds [OF Cons.prems(1)])
    from Cons.IH [OF this s1(2)] s1 show ?case by (cases a) auto
  qed simp
  then obtain s' where s': "run_asyncs as s = (Ok (), s')" "\<not> evlock_held s'"
    "ev_types s' = foldl ?add (ev_types s) (events_of as)" "ev_setup s' = last_setup (ev_setup s) as"
    "events_of as \<noteq> [] \<longrightarrow> setup_state s' \<noteq> FFS_SETUP_PENDING" by blast
  have wf: "ev_wf (ev_types s')" unfolding s'(3) by (rule event_queue.wf_adds [OF assms(1)])
  then have "length (ev_types s') \<le> 4" "distinct (ev_types s')" "length (filter lifecycle_event (ev_types s')) \<le> 1"
    using ev_wf_length [OF wf] by (simp_all add: ev_wf_def)
  moreover have "events_of as \<noteq> [] \<Longrightarrow> last (ev_types s') = last (events_of as)"
    unfolding s'(3) by (rule event_queue.newest_last)
  ultimately show ?thesis using s' by blast
qed

definition sample_request :: "u8 \<Rightarrow> usb_ctrlrequest" where
  "sample_request r = \<lparr>bRequestType = 0x81, bRequest = r, wValue = 0, wIndex = 0, wLength = 2\<rparr>"

lemma event_queue_bounded_witness:
  "\<exists>s'. run_asyncs [Async_event FUNCTIONFS_BIND, Async_setup (sample_request 1), Async_event FUNCTIONFS_ENABLE,
        Async_event FUNCTIONFS_SUSPEND, Async_setup (sample_request 2), Async_event FUNCTIONFS_RESUME] ffs_new = (Ok (), s')
     \<and> ev_types s' = [FUNCTIONFS_ENABLE, FUNCTIONFS_SETUP, FUNCTIONFS_RESUME] \<and> ev_setup s' = sample_request 2"
proof -
  let ?as = "[Async_event FUNCTIONFS_BIND, Async_setup (sample_request 1), Async_event FUNCTIONFS_ENABLE,
    Async_event FUNCTIONFS_SUSPEND, Async_setup (sample_request 2), Async_event FUNCTIONFS_RESUME]"
  have new: "ev_wf (ev_types ffs_new)" "\<not> evlock_held ffs_new" "ev_types ffs_new = []" by code_simp+
  from event_queue_bounded [OF new(1,2), of ?as] obtain s' where s': "run_asyncs ?as ffs_new = (Ok (), s')"
    "ev_types s' = foldl (\<lambda>q e. purge_events e q @ [e]) (ev_types ffs_new) (events_of ?as)"
    "ev_setup s' = last_setup (ev_setup ffs_new) ?as" by blast
  have "ev_types s' = [FUNCTIONFS_ENABLE, FUNCTIONFS_SETUP, FUNCTIONFS_RESUME]" "ev_setup s' = sample_request 2"
    unfolding s'(2,3) new(3) by (simp_all add: purge_events_def)
  with s'(1) show ?thesis by blast
qed

text \<open>
  The protocol that writes follow, as a relation of the state, the answer and the next state:
  descriptors, strings, active; closed when the function cannot be made ready.
\<close>

inductive handshake :: "nat \<Rightarrow> ffs_state \<Rightarrow> nat res \<Rightarrow> ffs_state \<Rightarrow> bool" for len where
  descriptors: "handshake len FFS_READ_DESCRIPTORS (Ok len) FFS_READ_STRINGS"
| strings: "handshake len FFS_READ_STRINGS (Ok len) FFS_ACTIVE"
| unready: "handshake len FFS_READ_STRINGS (Err e) FFS_CLOSING"
| refused: "handshake len st (Err e) st"
| answered: "handshake len FFS_ACTIVE (Ok n) FFS_ACTIVE"

declare handshake.intros [simp, intro]

abbreviation follows :: "nat \<Rightarrow> ffs_state \<Rightarrow> nat res \<times> ffs_data \<Rightarrow> bool" where
  "follows len st p \<equiv> post p (\<lambda>n s. handshake len st (Ok n) (ffs_st s)) (\<lambda>e s. handshake len st (Err e) (ffs_st s))"

lemma post_leaves: "post p A E \<Longrightarrow> leaves P p \<Longrightarrow> post p (\<lambda>x s. A x s \<and> P s) (\<lambda>e s. E e s \<and> P s)"
  by (cases p; cases "fst p") (auto simp: post_def leaves_def)

lemma got_descs_state:
  "ok_in g m s \<Longrightarrow> leaves (\<lambda>t. ffs_st t = ffs_st s) (data_got_descs f d s)"
  using parse_frame_got_descs [of "\<lambda>t. ffs_st t = ffs_st s" s f d] ok_in_bounds(1) by (simp add: parse_frame_def)

lemma got_strings_state: "leaves (\<lambda>t. ffs_st t = ffs_st s) (data_got_strings k d s)"
  by (simp add: data_got_strings_def leaves_def kfree_def split: res.split option.split)

lemma epfiles_state: "leaves (\<lambda>t. ffs_st t = ffs_st s) (ffs_epfiles_create env s)"
proof -
  have loop: "ffs_st t = ffs_st s \<Longrightarrow> leaves (\<lambda>t. ffs_st t = ffs_st s) (epfiles_loop env k i t)" for k i t
    by (induction k arbitrary: i) (auto simp: Let_def kfree_def intro!: leaves_intros)
  show ?thesis
    unfolding ffs_epfiles_create_def Let_def by (auto intro!: leaves_intros loop simp: kalloc_def)
qed

lemma ready_state: "leaves (\<lambda>t. ffs_st t = ffs_st s) (ffs_ready env s)"
  by (simp add: ffs_ready_def leaves_def Let_def split: option.split)

lemma prepare_state: "leaves (\<lambda>t. ffs_st t = ffs_st s) (ffs_prepare_buffer env b s)"
  by (simp add: ffs_prepare_buffer_def leaves_def kalloc_def kfree_def Let_def)

lemma st_simps [simp]:
  "ffs_st (mutex_unlock s) = ffs_st s" "ffs_st (ev_unlock s) = ffs_st s" "ffs_st (kfree_opt d s) = ffs_st s"
  "ffs_st (kfree s) = ffs_st s" "ffs_st (kalloc s) = ffs_st s"
  by (simp_all add: mutex_unlock_def ev_unlock_def kfree_opt_def kfree_def kalloc_def split: option.split)

lemma write_setup_follows:
  assumes ok: "ok_in g True s" and env: "\<And>n. kmalloc_ok env n \<Longrightarrow> n < 2 ^ 28"
    and st: "ffs_st s = FFS_READ_DESCRIPTORS \<or> ffs_st s = FFS_READ_STRINGS"
  shows "follows (length buf) (ffs_st s) (ep0_write_setup env buf s)"
proof (cases "length buf < 16")
  case False
  then have "buf \<noteq> []" by auto
  note prep = post_leaves [OF ffs_prepare_buffer_post prepare_state]
    and strs = post_leaves [OF data_got_strings_post [where g = g and m = True] got_strings_state]
    and eps = post_leaves [OF ffs_epfiles_create_post [where g = g and m = True] epfiles_state]
    and rdy = post_leaves [OF ffs_ready_post [where g = g and m = False] ready_state]
  have descs: "post (data_got_descs f d t) (\<lambda>_ s. ffs_st s = FFS_READ_DESCRIPTORS)
      (\<lambda>e s. handshake len FFS_READ_DESCRIPTORS (Err e) (ffs_st s))"
    if "ok_in g True t" "16 \<le> length d" "ffs_st t = FFS_READ_DESCRIPTORS" for f d t len
    using that by (intro post_mono [OF post_leaves [OF data_got_descs_post got_descs_state]]) auto
  show ?thesis
    unfolding ep0_write_setup_def
    using assms False \<open>buf \<noteq> []\<close>
    by (auto intro!: bindE_post [OF prep] mutex_return_post
        post_bindS [OF descs] bindE_post [OF strs] bindE_post [OF eps] bindE_post [OF rdy] split: errno.split)
qed (simp add: ep0_write_setup_def mutex_return_def bindE_def)

lemma lock_state: "ffs_st t = st \<Longrightarrow> leaves (\<lambda>t. ffs_st t = st) (ev_lock t)"
  by (simp add: ev_lock_def leaves_def)

lemma async_state: "ffs_st t = st \<Longrightarrow> leaves (\<lambda>t. ffs_st t = st) (run_async a t)"
  by (cases a) (auto simp: ffs_event_add_def ffs_event_add_locked_def Let_def intro!: leaves_intros lock_state)

lemma asyncs_state: "ffs_st t = st \<Longrightarrow> leaves (\<lambda>t. ffs_st t = st) (run_asyncs as t)"
  by (induction as arbitrary: t) (auto intro!: leaves_intros async_state)

lemma queue_wait_state:
  "ffs_st s = st \<Longrightarrow> leaves (\<lambda>t. ffs_st t = st) (bindE (ffs_ep0_queue_wait env d len s) (\<lambda>r s. (r, kfree_opt data s)))"
  by (simp add: ffs_ep0_queue_wait_def ffs_ep0_complete_def leaves_def Let_def bindE_def split: option.split)

lemma prepare_st: "ffs_st s = st \<Longrightarrow> leaves (\<lambda>t. ffs_st t = st) (ffs_prepare_buffer env b s)"
  using prepare_state by auto

lemma write_active_state: "ffs_st s = st \<Longrightarrow> leaves (\<lambda>t. ffs_st t = st) (ep0_write_active env buf s)"
  using prepare_st
  by (auto simp: ep0_write_active_def ffs_setup_state_clear_cancelled_def ffs_ep0_stall_def Let_def
      intro!: leaves_intros lock_state asyncs_state queue_wait_state prepare_st)

text \<open>
  C13. Writes to endpoint zero implement the protocol of the function: the descriptors are taken
  first and then the strings, each completely or not at all, after which the function is active;
  an error leaves the state as it was, but that the function is closed when it could not be made
  ready after its strings; nothing else moves the state.
\<close>
theorem writes_follow_handshake:
  assumes "ffs_idle s" and "env_ok env s"
  shows "handshake (length buf) (ffs_st s) (fst (ffs_ep0_write env buf s)) (ffs_st (snd (ffs_ep0_write env buf s)))"
proof -
  define g where "g = gadget s"
  have ok: "ok_in g False s" using assms(1) by (simp add: g_def)
  have kmalloc: "kmalloc_ok env n \<Longrightarrow> n < 2 ^ 28" for n using assms(2) by (simp add: env_ok_def)
  have window: "async_ok g a" if "a \<in> set (window env)" for a using assms(2) that by (simp add: env_ok_def g_def)
  have active: "follows (length buf) (ffs_st t) (mutex_return (ep0_write_active env buf t))"
    if "ok_in g True t" "ffs_st t = FFS_ACTIVE" for t
    using that window post_leaves [OF ep0_write_active_post [of g t env buf] write_active_state [OF refl]]
    by (auto intro!: mutex_return_post elim!: post_mono)
  have run: "follows (length buf) (ffs_st t) (bindS (ffs_mutex_lock env t) (\<lambda>_ s.
           if ffs_st s = FFS_READ_DESCRIPTORS \<or> ffs_st s = FFS_READ_STRINGS then ep0_write_setup env buf s
           else if ffs_st s = FFS_ACTIVE then mutex_return (ep0_write_active env buf s)
           else mutex_return (Err EBADFD, s)))" if t: "ok_in g False t" for t
  proof (rule post_bindS)
    show "post (ffs_mutex_lock env t) (\<lambda>_ s. ok_in g True s \<and> ffs_st s = ffs_st t)
       (\<lambda>e s. handshake (length buf) (ffs_st t) (Err e) (ffs_st s))"
      using t by (simp add: ffs_mutex_lock_def ok_in_def)
  next
    fix s :: ffs_data
    assume s: "ok_in g True s \<and> ffs_st s = ffs_st t"
    then show "follows (length buf) (ffs_st t) (if ffs_st s = FFS_READ_DESCRIPTORS \<or> ffs_st s = FFS_READ_STRINGS
           then ep0_write_setup env buf s
           else if ffs_st s = FFS_ACTIVE then mutex_return (ep0_write_active env buf s)
           else mutex_return (Err EBADFD, s))"
      using write_setup_follows [of g s env buf] active [of s] kmalloc
      by (auto intro!: mutex_return_post)
  qed
  have "follows (length buf) (ffs_st s) (ffs_ep0_write env buf s)"
    using run [of s] run [of "s\<lparr>setup_state := FFS_NO_SETUP\<rparr>"] ok
    by (auto simp: ffs_ep0_write_def ffs_setup_state_clear_cancelled_def Let_def)
  then show ?thesis by (cases "fst (ffs_ep0_write env buf s)") (simp_all add: post_def)
qed

lemma writes_follow_handshake_witness:
  "handshake 48 FFS_READ_DESCRIPTORS (Ok 48) FFS_READ_STRINGS"
proof -
  have idle: "ffs_idle ffs_new" by code_simp
  have env: "env_ok quiet_env ffs_new" by (rule quiet_env_ok)
  have run: "fst (ffs_ep0_write quiet_env (sample_descs 0x81) ffs_new) = Ok 48" "length (sample_descs 0x81) = 48"
    "ffs_st (snd (ffs_ep0_write quiet_env (sample_descs 0x81) ffs_new)) = FFS_READ_STRINGS" "ffs_st ffs_new = FFS_READ_DESCRIPTORS"
    by code_simp+
  from writes_follow_handshake [OF idle env, of "sample_descs 0x81"] show ?thesis unfolding run .
qed

lemma area_fits:
  fixes start buf :: u64 and size len :: u32
  assumes "unat start + unat size < 2 ^ 64"
  shows "buf \<ge> start \<and> buf < start + ucast size \<and> ucast len \<le> start + ucast size - buf
    \<longleftrightarrow> unat start \<le> unat buf \<and> unat buf < unat start + unat size \<and> unat buf + unat len \<le> unat start + unat size"
proof -
  have size: "unat (ucast size :: u64) = unat size" and len: "unat (ucast len :: u64) = unat len"
    by (simp_all add: unsigned_ucast_eq take_bit_nat_eq_self unat_lt_32 less_trans [OF unat_lt_32])
  have top: "unat (start + ucast size) = unat start + unat size"
    using assms by (simp add: unat_word_ariths size)
  show ?thesis
    using top len by (auto simp: word_le_nat_alt word_less_nat_alt unat_sub_if_size)
qed

text \<open>
  C31. The address a transfer on endpoint zero gives to the controller: for a buffer of the user
  the code finds an area exactly when one of the mapped areas holds all of its bytes, and the
  kernel address it computes, with all of the length, is inside of that area's memory.
\<close>
theorem memory_area_covers:
  assumes "\<forall>m \<in> set (memory_list s). unat (vm_start m) + unat (mem_size m) < 2 ^ 64 \<and> unat (mem m) + unat (mem_size m) < 2 ^ 64"
  shows "case generic_find_ep0_memory_area buf len s of
      None \<Rightarrow> \<not> (\<exists>m \<in> set (memory_list s). unat (vm_start m) \<le> unat buf \<and> unat buf < unat (vm_start m) + unat (mem_size m)
           \<and> unat buf + unat len \<le> unat (vm_start m) + unat (mem_size m))
    | Some m \<Rightarrow> m \<in> set (memory_list s) \<and> unat (vm_start m) \<le> unat buf
        \<and> unat buf + unat len \<le> unat (vm_start m) + unat (mem_size m)
        \<and> unat (kernel_address m buf) = unat (mem m) + (unat buf - unat (vm_start m))
        \<and> unat (kernel_address m buf) + unat len \<le> unat (mem m) + unat (mem_size m)"
proof -
  show ?thesis
  proof (cases "generic_find_ep0_memory_area buf len s")
    case None
    then have "\<forall>m \<in> set (memory_list s). \<not> (buf \<ge> vm_start m \<and> buf < vm_start m + ucast (mem_size m)
        \<and> ucast len \<le> vm_start m + ucast (mem_size m) - buf)"
      by (simp add: generic_find_ep0_memory_area_def find_None_iff)
    then show ?thesis using None assms area_fits by fastforce
  next
    case (Some m)
    then have m: "m \<in> set (memory_list s)" and "buf \<ge> vm_start m \<and> buf < vm_start m + ucast (mem_size m)
        \<and> ucast len \<le> vm_start m + ucast (mem_size m) - buf"
      by (auto simp: generic_find_ep0_memory_area_def find_Some_iff)
    then have fits: "unat (vm_start m) \<le> unat buf" "unat buf + unat len \<le> unat (vm_start m) + unat (mem_size m)"
      using assms area_fits by blast+
    moreover have "unat (kernel_address m buf) = unat (mem m) + (unat buf - unat (vm_start m))"
    proof -
      have "kernel_address m buf = mem m + (buf - vm_start m)" by (simp add: kernel_address_def)
      moreover have "unat (buf - vm_start m) = unat buf - unat (vm_start m)"
        using fits(1) by (simp add: unat_sub word_le_nat_alt)
      moreover have "unat (mem m) + (unat buf - unat (vm_start m)) < 2 ^ 64" using assms m fits by fastforce
      ultimately show ?thesis by (simp add: unat_word_ariths)
    qed
    ultimately show ?thesis using Some m by simp
  qed
qed

definition mapped_ffs :: ffs_data where
  "mapped_ffs = active_ffs\<lparr>memory_list := [\<lparr>mem = 0x9000, vm_start = 0x4000, mem_size = 64\<rparr>]\<rparr>"

lemma memory_area_covers_witness:
  "generic_find_ep0_memory_area 0x4010 8 mapped_ffs = Some \<lparr>mem = 0x9000, vm_start = 0x4000, mem_size = 64\<rparr>
   \<and> unat (kernel_address \<lparr>mem = 0x9000, vm_start = 0x4000, mem_size = 64\<rparr> 0x4010) + unat (8::u32) \<le> 0x9000 + 64"
proof -
  have mapped: "\<forall>m \<in> set (memory_list mapped_ffs). unat (vm_start m) + unat (mem_size m) < 2 ^ 64 \<and> unat (mem m) + unat (mem_size m) < 2 ^ 64"
    by (simp add: mapped_ffs_def)
  have found: "generic_find_ep0_memory_area 0x4010 8 mapped_ffs = Some \<lparr>mem = 0x9000, vm_start = 0x4000, mem_size = 64\<rparr>"
    by (simp add: generic_find_ep0_memory_area_def mapped_ffs_def word_le_nat_alt word_less_nat_alt)
  from memory_area_covers [OF mapped, of "0x4010" 8] show ?thesis unfolding found by simp
qed

text \<open>
  The control calls of endpoint zero while a gadget is bound: as long as the controller takes
  every request it is given and no request completed without a queue, no call faults, whatever its code and arguments, the invariant of
  endpoint zero is kept, and no request that was freed is left in the list of requests.
\<close>
theorem endpoint_zero_ioctl_safe:
  assumes "ffs_idle s" and "gadget s" and "no_freed s" and "queue_error env = None" and "req_fifo s \<noteq> Fifo_zeroed True"
  shows "no_fault (ffs_ep0_ioctl env c s) \<and> ffs_idle (snd (ffs_ep0_ioctl env c s))
    \<and> gadget (snd (ffs_ep0_ioctl env c s)) \<and> no_freed (snd (ffs_ep0_ioctl env c s))"
proof -
  have ok: "ok_in True False s" using assms(1,2) by simp
  note post = ffs_ep0_ioctl_post [OF ok assms(3,4,5), of c]
  from postD(2) [OF post] have "ok_in True False (snd (ffs_ep0_ioctl env c s)) \<and> no_freed (snd (ffs_ep0_ioctl env c s))" .
  then show ?thesis using postD(1) [OF post] ok_in_bounds(4) [of True False "snd (ffs_ep0_ioctl env c s)"] by simp
qed

lemma endpoint_zero_ioctl_safe_witness:
  "let s = snd (ffs_ep0_ioctl quiet_env (ENDPOINT_WRITE \<lparr>io_aio = True, io_len = 8, io_timeout = 0, io_buf = 0x4010\<rparr>) mapped_ffs)
   in no_freed s \<and> length (ep0_reqs s) = 1"
proof -
  let ?c = "ENDPOINT_WRITE \<lparr>io_aio = True, io_len = 8, io_timeout = 0, io_buf = 0x4010\<rparr>"
  have h: "ffs_idle mapped_ffs" "gadget mapped_ffs" "no_freed mapped_ffs" "queue_error quiet_env = None"
    "req_fifo mapped_ffs \<noteq> Fifo_zeroed True" by code_simp+
  have "length (ep0_reqs (snd (ffs_ep0_ioctl quiet_env ?c mapped_ffs))) = 1"
    by (simp add: ep0_ioctl_rw_def ffs_ep0_iorw_def generic_find_ep0_memory_area_def ep0_iorw_async_def
        mapped_ffs_def active_ffs_def ffs_new_def quiet_env_def kalloc_def bindE_def word_le_nat_alt word_less_nat_alt Let_def)
  then show ?thesis using endpoint_zero_ioctl_safe [OF h, of ?c] unfolding Let_def by blast
qed

text \<open>
  A request the controller refuses is freed but stays linked: the asynchronous call returns
  the controller's error, and the next question for the state of a request, or a cancellation,
  on any mapped buffer walks over freed memory.
\<close>
theorem refused_request_stays_linked:
  assumes "ffs_st s = FFS_ACTIVE" and "gadget s" and "io_aio io" and "queue_error env = Some e" and "e \<noteq> EIOCBQUEUED"
    and "copy_from_ok env" and "kmalloc_ok env 1" and "memcpy_ret env = 0"
    and "generic_find_ep0_memory_area (io_buf io) (io_len io) s = Some m"
    and "copy_from_ok env'" and "generic_find_ep0_memory_area buf len s \<noteq> None"
  shows "fst (ffs_ep0_ioctl env (ENDPOINT_READ io) s) = Err e
    \<and> fst (ffs_ep0_ioctl env' (ENDPOINT_GET_REQ_STATUS buf len) (snd (ffs_ep0_ioctl env (ENDPOINT_READ io) s))) = Fault
    \<and> fst (ffs_ep0_ioctl env' (ENDPOINT_RW_CANCEL buf len) (snd (ffs_ep0_ioctl env (ENDPOINT_READ io) s))) = Fault"
  using assms
  by (cases e) (auto simp: ep0_ioctl_rw_def ffs_ep0_iorw_def ep0_iorw_async_def kalloc_def kfree_def bindE_def Let_def
      ep0_find_def generic_find_ep0_memory_area_def)

lemma refused_request_stays_linked_witness:
  "let io = \<lparr>io_aio = True, io_len = 8, io_timeout = 0, io_buf = 0x4010\<rparr>; env = quiet_env\<lparr>queue_error := Some ENODEV\<rparr>;
     s = snd (ffs_ep0_ioctl env (ENDPOINT_READ io) mapped_ffs)
   in fst (ffs_ep0_ioctl quiet_env (ENDPOINT_GET_REQ_STATUS 0x4000 64) s) = Fault"
proof -
  let ?io = "\<lparr>io_aio = True, io_len = 8, io_timeout = 0, io_buf = 0x4010\<rparr>"
  let ?env = "quiet_env\<lparr>queue_error := Some ENODEV\<rparr>"
  have found: "generic_find_ep0_memory_area (io_buf ?io) (io_len ?io) mapped_ffs = Some \<lparr>mem = 0x9000, vm_start = 0x4000, mem_size = 64\<rparr>"
    "generic_find_ep0_memory_area 0x4000 64 mapped_ffs \<noteq> None"
    by (simp_all add: generic_find_ep0_memory_area_def mapped_ffs_def word_le_nat_alt word_less_nat_alt)
  have h: "ffs_st mapped_ffs = FFS_ACTIVE" "gadget mapped_ffs" "io_aio ?io" "queue_error ?env = Some ENODEV" "ENODEV \<noteq> EIOCBQUEUED"
    "copy_from_ok ?env" "kmalloc_ok ?env 1" "memcpy_ret ?env = 0" "copy_from_ok quiet_env"
    by (simp_all add: mapped_ffs_def active_ffs_def quiet_env_def)
  show ?thesis unfolding Let_def using refused_request_stays_linked [OF h(1-8) found(1) h(9) found(2)] by simp
qed

text \<open>
  Between the strings and the binding to a gadget the function is active, but has no gadget
  and no request: a transfer on a mapped buffer, or a question for the state of one, uses a null
  pointer.
\<close>
theorem transfer_before_bind_faults:
  assumes "ffs_st s = FFS_ACTIVE" and "\<not> gadget s" and "copy_from_ok env" and "kmalloc_ok env 1"
    and "memset_ret env = 0" and "memcpy_ret env = 0" and "generic_find_ep0_memory_area (io_buf io) (io_len io) s \<noteq> None"
  shows "fst (ffs_ep0_ioctl env (ENDPOINT_READ io) s) = Fault \<and> fst (ffs_ep0_ioctl env (ENDPOINT_WRITE io) s) = Fault
    \<and> fst (ffs_ep0_ioctl env (ENDPOINT_RW_CANCEL (io_buf io) (io_len io)) s) = Fault
    \<and> fst (ffs_ep0_ioctl env (ENDPOINT_GET_REQ_STATUS (io_buf io) (io_len io)) s) = Fault"
  using assms
  by (auto simp: ep0_ioctl_rw_def ffs_ep0_iorw_def ep0_iorw_async_def ep0_iorw_sync_def kalloc_def bindE_def Let_def
      ep0_find_def generic_find_ep0_memory_area_def)

lemma transfer_before_bind_faults_witness:
  "fst (ffs_ep0_ioctl quiet_env (ENDPOINT_READ \<lparr>io_aio = False, io_len = 8, io_timeout = 0, io_buf = 0x4010\<rparr>)
     (mapped_ffs\<lparr>gadget := False\<rparr>)) = Fault"
proof -
  let ?io = "\<lparr>io_aio = False, io_len = 8, io_timeout = 0, io_buf = 0x4010\<rparr>"
  let ?s = "mapped_ffs\<lparr>gadget := False\<rparr>"
  have "ffs_st ?s = FFS_ACTIVE" "\<not> gadget ?s" "copy_from_ok quiet_env" "kmalloc_ok quiet_env 1" "memset_ret quiet_env = 0"
    "memcpy_ret quiet_env = 0" "generic_find_ep0_memory_area (io_buf ?io) (io_len ?io) ?s \<noteq> None"
    by (simp_all add: generic_find_ep0_memory_area_def mapped_ffs_def active_ffs_def quiet_env_def word_le_nat_alt word_less_nat_alt)
  from transfer_before_bind_faults [OF this] show ?thesis by simp
qed

end
