(* ===== verification/Ffs_Life.thy ===== *)
theory Ffs_Life
  imports Ffs_Event
begin

section \<open>Generic USB function: the life of its data\<close>

text \<open>
  \<open>ffs_data_new\<close>, \<open>ffs_data_clear\<close>, \<open>ffs_data_reset\<close>, the reference counter and what they call.
  What a run gives back to the kernel is recorded as a list, so that giving something back twice
  can be stated.
\<close>

datatype release =
    Rel_epfiles nat
  | Rel_eventfd
  | Rel_descs
  | Rel_strings
  | Rel_stringtabs

text \<open>\<open>wq_ok\<close>: whether the work queue can be allocated.\<close>

definition ffs_data_new :: "bool \<Rightarrow> bool \<Rightarrow> ffs_data option" where
  "ffs_data_new alloc_ok wq_ok =
     (if \<not> alloc_ok then None else if \<not> wq_ok then None else Some (ffs_new\<lparr>ref := 1, ev_can_stall := True\<rparr>))"

definition ffs_data_get :: "ffs_data \<Rightarrow> ffs_data" where
  "ffs_data_get s = s\<lparr>ref := ref s + 1\<rparr>"

text \<open>
  \<open>in_configfs\<close>: the function has options, was made through configfs and its item is alive. Then
  a bound function is taken out of its gadget: \<open>unregister\<close> is what \<open>unregister_gadget_item\<close> does
  to the function.
\<close>

definition ffs_closed :: "bool \<Rightarrow> (ffs_data \<Rightarrow> ffs_data) \<Rightarrow> ffs_data \<Rightarrow> ffs_data" where
  "ffs_closed in_configfs unregister s = (case private_data s of
     None \<Rightarrow> s
   | Some dev \<Rightarrow>
       let s = s\<lparr>private_data := Some (dev\<lparr>dev_desc_ready := False, dev_has_data := False\<rparr>), fl_call_closed := False\<rparr>
       in if in_configfs \<and> fl_bound s then unregister s else s)"

text \<open>Its loop destroys \<open>count\<close> files; the array has to have as many.\<close>

definition ffs_epfiles_destroy :: "nat \<Rightarrow> ffs_epfile list \<Rightarrow> ffs_data \<Rightarrow> release list res \<times> ffs_data" where
  "ffs_epfiles_destroy count efs s =
     (if length efs < count then (Fault, s) else (Ok [Rel_epfiles count], kfree s))"

text \<open>The pointers that are given back are not cleared here. \<open>BUG_ON\<close> of a bound gadget is a fault.\<close>

definition ffs_data_clear :: "bool \<Rightarrow> (ffs_data \<Rightarrow> ffs_data) \<Rightarrow> ffs_data \<Rightarrow> release list res \<times> ffs_data" where
  "ffs_data_clear in_configfs unregister s =
     (let s = ffs_closed in_configfs unregister s
      in if gadget s then (Fault, s)
         else bindS (case epfiles s of None \<Rightarrow> (Ok [], s) | Some efs \<Rightarrow> ffs_epfiles_destroy (unat (eps_count s)) efs s) (\<lambda>rel s.
           let rel = rel @ (if ffs_eventfd s then [Rel_eventfd] else []);
               (rel, s) = (if raw_descs_data s \<noteq> None then (rel @ [Rel_descs], kfree s) else (rel, s));
               (rel, s) = (if stringtabs s \<noteq> None then (rel @ [Rel_strings, Rel_stringtabs], kfree (kfree s)) else (rel, s))
           in (Ok rel, s)))"

definition ffs_data_reset :: "bool \<Rightarrow> (ffs_data \<Rightarrow> ffs_data) \<Rightarrow> ffs_data \<Rightarrow> release list res \<times> ffs_data" where
  "ffs_data_reset in_configfs unregister s =
     bindS (ffs_data_clear in_configfs unregister s) (\<lambda>rel s.
       (Ok rel, s\<lparr>epfiles := None, raw_descs_data := None, raw_descs := [], stringtabs := None,
          fs_descs_count := 0, hs_descs_count := 0, ss_descs_count := 0,
          strings_count := 0, interfaces_count := 0, eps_count := 0, ev_types := [],
          ffs_st := FFS_READ_DESCRIPTORS, setup_state := FFS_NO_SETUP, fl_call_closed := False, fl_bound := False\<rparr>))"

text \<open>The last reference frees the object: the result says whether it did.\<close>

definition ffs_data_put :: "bool \<Rightarrow> (ffs_data \<Rightarrow> ffs_data) \<Rightarrow> ffs_data \<Rightarrow> bool res \<times> ffs_data" where
  "ffs_data_put in_configfs unregister s =
     (let s = s\<lparr>ref := ref s - 1\<rparr>
      in if ref s = 0 then bindS (ffs_data_clear in_configfs unregister s) (\<lambda>_ s. (Ok True, s)) else (Ok False, s))"

end
