(* ===== verification/Ffs_Bind.thy ===== *)
theory Ffs_Bind
  imports Ffs_Ep0_Inv Ffs_Life
begin

section \<open>Generic USB function: binding to a gadget\<close>

text \<open>
  What \<open>f_generic.c\<close> does when its function is bound to a configuration of a gadget
  (\<open>functionfs_bind\<close>, \<open>_ffs_func_bind\<close>, \<open>ffs_func_bind\<close>): it copies the descriptors that user space
  wrote, claims a hardware endpoint for each endpoint descriptor, and rewrites the numbers of
  interfaces, strings and endpoints in the copy to the ones the gadget assigns. The descriptors
  are walked with pointers into the copy, which the callbacks write through, so the walk is
  modelled on positions in the buffer. The buffer is the last part of the allocation: an access
  behind it is a fault. The gadget's use of OS strings is off.
\<close>

subsection \<open>The function\<close>

text \<open>
  An endpoint: the hardware endpoint, and the positions of its descriptors for the three speeds
  (\<open>struct ffs_ep\<close>). Of \<open>struct ffs_function\<close>: the copy of the descriptors, the endpoints, the
  reverse map, the interface numbers (\<open>-1\<close> when not yet assigned), the three arrays of descriptor
  pointers, each \<open>None\<close> before it is set; the string identifiers of each language. \<open>fn_claimed\<close> and
  \<open>fn_ids\<close> count the calls of \<open>usb_ep_autoconfig\<close> and \<open>usb_interface_id\<close>.
\<close>

record ffs_ep =
  ep_hw :: "nat option"
  ep_descs :: "nat option list"

record ffs_function =
  fn_raw :: "u8 list"
  fn_eps :: "ffs_ep list"
  fn_revmap :: "u8 list"
  fn_nums :: "int list"
  fn_fs :: "nat option list option"
  fn_hs :: "nat option list option"
  fn_ss :: "nat option list option"
  fn_string_ids :: "u8 list list"
  fn_claimed :: nat
  fn_ids :: nat

text \<open>
  What the gadget and the kernel answer: \<open>autoconfig n addr attr maxp\<close> is the hardware endpoint that
  the \<open>n\<close>-th call of \<open>usb_ep_autoconfig\<close> claims, with the address and packet size it writes into
  the descriptor; \<open>interface_id n\<close> what the \<open>n\<close>-th call of \<open>usb_interface_id\<close> returns.
\<close>

record bind_env =
  autoconfig :: "nat \<Rightarrow> u8 \<Rightarrow> u8 \<Rightarrow> u16 \<Rightarrow> (nat \<times> u8 \<times> u16) option"
  interface_id :: "nat \<Rightarrow> int"
  string_ids_n :: int
  ep_req_ok :: "nat \<Rightarrow> bool"
  ep0_req_ok :: bool
  vla_ok :: bool
  raw_copy_ret :: int
  nums_set_ret :: int

subsection \<open>Access to the copy of the descriptors\<close>

definition rd8 :: "nat \<Rightarrow> (u8 \<Rightarrow> ffs_function \<Rightarrow> 'b res \<times> ffs_function) \<Rightarrow> ffs_function \<Rightarrow> 'b res \<times> ffs_function" where
  "rd8 p f s = (if p < length (fn_raw s) then f (fn_raw s ! p) s else (Fault, s))"

definition wr8 :: "nat \<Rightarrow> u8 \<Rightarrow> ffs_function \<Rightarrow> unit res \<times> ffs_function" where
  "wr8 p v s = (if p < length (fn_raw s) then (Ok (), s\<lparr>fn_raw := (fn_raw s)[p := v]\<rparr>) else (Fault, s))"

definition rd16 :: "nat \<Rightarrow> (u16 \<Rightarrow> ffs_function \<Rightarrow> 'b res \<times> ffs_function) \<Rightarrow> ffs_function \<Rightarrow> 'b res \<times> ffs_function" where
  "rd16 p f = rd8 p (\<lambda>lo. rd8 (p + 1) (\<lambda>hi. f (ucast lo OR push_bit 8 (ucast hi))))"

definition wr16 :: "nat \<Rightarrow> u16 \<Rightarrow> ffs_function \<Rightarrow> unit res \<times> ffs_function" where
  "wr16 p v s = bindS (wr8 p (ucast v) s) (\<lambda>_. wr8 (p + 1) (ucast (drop_bit 8 v)))"

subsection \<open>The walk over the descriptors\<close>

text \<open>
  \<open>ffs_do_single_desc\<close> and \<open>ffs_do_descs\<close> again, now with a callback that gets the address of the
  entity's value and the position of its descriptor, and may write through both.
\<close>

type_synonym at_callback = "ffs_entity \<Rightarrow> nat \<Rightarrow> nat option \<Rightarrow> ffs_function \<Rightarrow> unit res \<times> ffs_function"

definition do_entity_at :: "at_callback \<Rightarrow> (u8 \<Rightarrow> ffs_entity) \<Rightarrow> nat \<Rightarrow> nat \<Rightarrow> ffs_function \<Rightarrow> unit res \<times> ffs_function" where
  "do_entity_at entity type p ds s = rd8 p (\<lambda>val s.
     if \<not> entity_check (type val) then (Err EINVAL, s) else entity (type val) p (Some ds) s) s"

definition single_desc_at :: "at_callback \<Rightarrow> nat \<Rightarrow> nat \<Rightarrow> ffs_function \<Rightarrow> nat res \<times> ffs_function" where
  "single_desc_at entity ds len s =
     (if len < 2 then (Err EINVAL, s)
      else rd8 ds (\<lambda>l s.
        if len < unat l then (Err EINVAL, s)
        else rd8 (ds + 1) (\<lambda>ty s.
          if ty = USB_DT_DEVICE \<or> ty = USB_DT_CONFIG \<or> ty = USB_DT_STRING \<or> ty = USB_DT_DEVICE_QUALIFIER
          then (Err EINVAL, s)
          else if ty = USB_DT_INTERFACE then
            (if l \<noteq> 9 then (Err EINVAL, s)
             else bindS (do_entity_at entity FFS_INTERFACE (ds + 2) ds s) (\<lambda>_.
               rd8 (ds + 8) (\<lambda>iInterface s.
                 if iInterface \<noteq> 0
                 then bindS (do_entity_at entity FFS_STRING (ds + 8) ds s) (\<lambda>_ s. (Ok (unat l), s))
                 else (Ok (unat l), s))))
          else if ty = USB_DT_ENDPOINT then
            (if l \<noteq> 7 \<and> l \<noteq> 9 then (Err EINVAL, s)
             else bindS (do_entity_at entity FFS_ENDPOINT (ds + 2) ds s) (\<lambda>_ s. (Ok (unat l), s)))
          else if ty = HID_DT_HID then (if l \<noteq> 9 then (Err EINVAL, s) else (Ok (unat l), s))
          else if ty = USB_DT_OTG then (if l \<noteq> 3 then (Err EINVAL, s) else (Ok (unat l), s))
          else if ty = USB_DT_INTERFACE_ASSOCIATION then
            (if l \<noteq> 8 then (Err EINVAL, s)
             else rd8 (ds + 7) (\<lambda>iFunction s.
               if iFunction \<noteq> 0
               then bindS (do_entity_at entity FFS_STRING (ds + 7) ds s) (\<lambda>_ s. (Ok (unat l), s))
               else (Ok (unat l), s)) s)
          else if ty = USB_DT_SS_ENDPOINT_COMP then
            (if l \<noteq> 6 then (Err EINVAL, s) else (Ok (unat l), s))
          else (Ok (unat l), s)) s) s)"

text \<open>The result of the loop is the position behind the descriptors.\<close>

fun descs_at_loop :: "at_callback \<Rightarrow> nat \<Rightarrow> nat \<Rightarrow> nat \<Rightarrow> nat \<Rightarrow> ffs_function \<Rightarrow> nat res \<times> ffs_function" where
  "descs_at_loop entity 0 num ds len s =
     bindS (entity (FFS_DESCRIPTOR num) 0 None s) (\<lambda>_ s. (Ok ds, s))"
| "descs_at_loop entity (Suc k) num ds len s =
     bindS (entity (FFS_DESCRIPTOR num) 0 (Some ds) s) (\<lambda>_ s.
     bindS (single_desc_at entity ds len s) (\<lambda>ret s.
     if len < ret then (Fault, s) else descs_at_loop entity k (Suc num) (ds + ret) (len - ret) s))"

definition descs_at :: "at_callback \<Rightarrow> nat \<Rightarrow> nat \<Rightarrow> nat \<Rightarrow> ffs_function \<Rightarrow> nat res \<times> ffs_function" where
  "descs_at entity count ds len s =
     bindS (descs_at_loop entity count 0 ds len s) (\<lambda>p s. (Ok (p - ds), s))"

subsection \<open>First pass: the endpoints\<close>

definition ffs_ep_addr2idx :: "ffs_data \<Rightarrow> u8 \<Rightarrow> nat option" where
  "ffs_ep_addr2idx ffs addr = find (\<lambda>i. eps_addrmap ffs ! i = addr) [1..<length (eps_addrmap ffs)]"

text \<open>The array the pass is at (\<open>ep_desc_id\<close>), and an entry of it.\<close>

definition desc_id :: "ffs_function \<Rightarrow> nat" where
  "desc_id s = (if fn_ss s \<noteq> None then 2 else if fn_hs s \<noteq> None then 1 else 0)"

definition store_desc :: "nat \<Rightarrow> nat option \<Rightarrow> ffs_function \<Rightarrow> unit res \<times> ffs_function" where
  "store_desc n desc s =
     (case (if desc_id s = 2 then fn_ss s else if desc_id s = 1 then fn_hs s else fn_fs s) of
        None \<Rightarrow> (Fault, s)
      | Some a \<Rightarrow>
          if length a \<le> n then (Fault, s)
          else let a = Some (a[n := desc])
            in (Ok (), if desc_id s = 2 then s\<lparr>fn_ss := a\<rparr> else if desc_id s = 1 then s\<lparr>fn_hs := a\<rparr> else s\<lparr>fn_fs := a\<rparr>))"

text \<open>An endpoint that was claimed for an earlier speed: its address is copied from full speed.\<close>

definition reuse_ep :: "nat \<Rightarrow> nat \<Rightarrow> ffs_function \<Rightarrow> unit res \<times> ffs_function" where
  "reuse_ep idx ds s = (case ep_descs (fn_eps s ! idx) ! 0 of
     None \<Rightarrow> (Fault, s)
   | Some d0 \<Rightarrow>
       rd8 (d0 + 2) (\<lambda>addr s. bindS (wr8 (ds + 2) addr s) (\<lambda>_.
       rd16 (ds + 4) (\<lambda>maxp s.
         if maxp = 0 then rd16 (d0 + 4) (\<lambda>maxp0. wr16 (ds + 4) maxp0) s else (Ok (), s)))) s)"

definition ENOTSUPP :: errno where "ENOTSUPP = E_CODE (- 524)"

text \<open>An endpoint that is seen for the first time: the gadget chooses a hardware endpoint.\<close>

definition claim_ep :: "bind_env \<Rightarrow> ffs_data \<Rightarrow> nat \<Rightarrow> nat \<Rightarrow> ffs_function \<Rightarrow> unit res \<times> ffs_function" where
  "claim_ep env ffs idx ds s =
     rd8 (ds + 2) (\<lambda>bEndpointAddress. rd8 (ds + 3) (\<lambda>attr. rd16 (ds + 4) (\<lambda>maxp s.
       let n = fn_claimed s; s = s\<lparr>fn_claimed := n + 1\<rparr>
       in case autoconfig env n bEndpointAddress attr maxp of
            None \<Rightarrow> (Err ENOTSUPP, s)
          | Some (ep, addr, maxp') \<Rightarrow>
              bindS (wr8 (ds + 2) addr s) (\<lambda>_ s. bindS (wr16 (ds + 4) maxp' s) (\<lambda>_ s.
              if \<not> ep_req_ok env n then (Err ENOMEM, s)
              else let s = s\<lparr>fn_eps := (fn_eps s)[idx := (fn_eps s ! idx)\<lparr>ep_hw := Some ep\<rparr>],
                             fn_revmap := (fn_revmap s)[unat (addr AND 0x0f) := of_nat (idx + 1)]\<rparr>
                in if bit (user_flags ffs) FUNCTIONFS_VIRTUAL_ADDR_bit then wr8 (ds + 2) bEndpointAddress s
                   else (Ok (), s)))))) s"

text \<open>\<open>-ENOENT\<close>, less the one that the code subtracts before it looks, is \<open>-ESRCH\<close>.\<close>

definition bind_do_descs :: "bind_env \<Rightarrow> ffs_data \<Rightarrow> at_callback" where
  "bind_do_descs env ffs type valuep desc s = (case type of
     FFS_DESCRIPTOR n \<Rightarrow>
       bindS (store_desc n desc s) (\<lambda>_ s. case desc of None \<Rightarrow> (Ok (), s) | Some ds \<Rightarrow>
         rd8 (ds + 1) (\<lambda>ty s. if ty \<noteq> USB_DT_ENDPOINT then (Ok (), s) else
           rd8 (ds + 2) (\<lambda>addr s. case ffs_ep_addr2idx ffs addr of
             None \<Rightarrow> (Err ESRCH, s)
           | Some i \<Rightarrow> let idx = i - 1 in
               if length (fn_eps s) \<le> idx then (Fault, s)
               else if ep_descs (fn_eps s ! idx) ! desc_id s \<noteq> None then (Err EINVAL, s)
               else let ep = fn_eps s ! idx;
                        s = s\<lparr>fn_eps := (fn_eps s)[idx := ep\<lparr>ep_descs := (ep_descs ep)[desc_id s := Some ds]\<rparr>]\<rparr>
                 in if ep_hw ep \<noteq> None then reuse_ep idx ds s else claim_ep env ffs idx ds s) s) s)
   | _ \<Rightarrow> (Ok (), s))"

subsection \<open>Second pass: the numbers\<close>

text \<open>Interface numbers are kept as \<open>short\<close>.\<close>

definition to_short :: "int \<Rightarrow> int" where
  "to_short n = sint (word_of_int n :: 16 word)"

text \<open>
  The value of a string is replaced by the identifier in the table of the first language. The
  branch for an endpoint outside of an endpoint descriptor never runs, because
  \<open>ffs_do_single_desc\<close> calls back for an endpoint in no other descriptor.
\<close>

definition bind_do_nums :: "bind_env \<Rightarrow> at_callback" where
  "bind_do_nums env type valuep desc s = (case type of
     FFS_DESCRIPTOR n \<Rightarrow> (Ok (), s)
   | FFS_INTERFACE v \<Rightarrow>
       let idx = unat v in
       if length (fn_nums s) \<le> idx then (Fault, s)
       else if fn_nums s ! idx < 0 then
         (let id = interface_id env (fn_ids s); s = s\<lparr>fn_ids := fn_ids s + 1\<rparr>
          in if id < 0 then (Err (E_CODE id), s)
             else wr8 valuep (word_of_int (to_short id)) (s\<lparr>fn_nums := (fn_nums s)[idx := to_short id]\<rparr>))
       else wr8 valuep (word_of_int (fn_nums s ! idx)) s
   | FFS_STRING v \<Rightarrow> (case fn_string_ids s of
       [] \<Rightarrow> (Fault, s)
     | ids # _ \<Rightarrow> if v = 0 \<or> length ids < unat v then (Fault, s) else wr8 valuep (ids ! (unat v - 1)) s)
   | FFS_ENDPOINT v \<Rightarrow> (Ok (), s))"

subsection \<open>Class-specific numbers\<close>

text \<open>
  After the passes the code looks for the first two interfaces that have endpoints, among the full
  speed descriptors, and enters their numbers into the association and communication class
  descriptors of all speeds. The pointers it dereferences may be null.
\<close>

abbreviation (input) USB_DT_CS_INTERFACE :: u8 where "USB_DT_CS_INTERFACE \<equiv> 0x24"
abbreviation (input) USB_CDC_CALL_MANAGEMENT_TYPE :: u8 where "USB_CDC_CALL_MANAGEMENT_TYPE \<equiv> 0x01"
abbreviation (input) USB_CDC_UNION_TYPE :: u8 where "USB_CDC_UNION_TYPE \<equiv> 0x06"
abbreviation (input) USB_CDC_ETHERNET_TYPE :: u8 where "USB_CDC_ETHERNET_TYPE \<equiv> 0x0f"

definition deref :: "nat option \<Rightarrow> (nat \<Rightarrow> ffs_function \<Rightarrow> 'b res \<times> ffs_function) \<Rightarrow> ffs_function \<Rightarrow> 'b res \<times> ffs_function" where
  "deref p f s = (case p of None \<Rightarrow> (Fault, s) | Some p \<Rightarrow> f p s)"

definition desc_of ::
  "nat option list option \<Rightarrow> nat \<Rightarrow> (nat \<Rightarrow> ffs_function \<Rightarrow> 'b res \<times> ffs_function) \<Rightarrow> ffs_function \<Rightarrow> 'b res \<times> ffs_function" where
  "desc_of a i f s = (case a of None \<Rightarrow> (Fault, s) | Some a \<Rightarrow> if length a \<le> i then (Fault, s) else deref (a ! i) f s)"

text \<open>\<open>k\<close> descriptors from the \<open>i\<close>-th are left; the result is \<open>intf_ctl\<close> and \<open>intf_data\<close>.\<close>

fun find_intfs :: "nat \<Rightarrow> nat \<Rightarrow> nat option \<Rightarrow> ffs_function \<Rightarrow> (nat option \<times> nat option) res \<times> ffs_function" where
  "find_intfs 0 i ctl s = (Ok (ctl, None), s)"
| "find_intfs (Suc k) i ctl s =
     desc_of (fn_fs s) i (\<lambda>p. rd8 (p + 1) (\<lambda>ty s.
       if ty \<noteq> USB_DT_INTERFACE then find_intfs k (i + 1) ctl s
       else rd8 (p + 4) (\<lambda>bNumEndpoints s.
         if bNumEndpoints = 0 then find_intfs k (i + 1) ctl s
         else case ctl of None \<Rightarrow> find_intfs k (i + 1) (Some p) s | Some _ \<Rightarrow> (Ok (ctl, Some p), s)) s)) s"

definition cdc_fixup :: "nat option \<Rightarrow> nat option \<Rightarrow> nat \<Rightarrow> ffs_function \<Rightarrow> unit res \<times> ffs_function" where
  "cdc_fixup intf_ctl intf_data p s = rd8 (p + 1) (\<lambda>ty s.
     if ty = USB_DT_INTERFACE_ASSOCIATION then deref intf_ctl (\<lambda>c. rd8 (c + 2) (\<lambda>n. wr8 (p + 2) n)) s
     else if ty = USB_DT_CS_INTERFACE then rd8 (p + 2) (\<lambda>sub s.
       if sub = USB_CDC_CALL_MANAGEMENT_TYPE then deref intf_data (\<lambda>d. rd8 (d + 2) (\<lambda>n. wr8 (p + 4) n)) s
       else if sub = USB_CDC_UNION_TYPE then
         bindS (deref intf_ctl (\<lambda>c. rd8 (c + 2) (\<lambda>n. wr8 (p + 3) n)) s) (\<lambda>_.
         deref intf_data (\<lambda>d. rd8 (d + 2) (\<lambda>n. wr8 (p + 4) n)))
       else if sub = USB_CDC_ETHERNET_TYPE then deref intf_ctl (\<lambda>c. rd8 (c + 8) (\<lambda>n. wr8 (p + 3) (n + 1))) s
       else (Ok (), s)) s
     else (Ok (), s)) s"

fun cdc_fixups ::
  "(ffs_function \<Rightarrow> nat option list option) \<Rightarrow> nat \<Rightarrow> nat \<Rightarrow> nat option \<Rightarrow> nat option \<Rightarrow> ffs_function \<Rightarrow> unit res \<times> ffs_function" where
  "cdc_fixups arr 0 i ctl dat s = (Ok (), s)"
| "cdc_fixups arr (Suc k) i ctl dat s =
     bindS (desc_of (arr s) i (cdc_fixup ctl dat) s) (\<lambda>_. cdc_fixups arr k (i + 1) ctl dat)"

subsection \<open>The whole binding\<close>

text \<open>One speed of the first pass, when the function has it: the length of its descriptors.\<close>

definition bind_speed ::
  "bind_env \<Rightarrow> ffs_data \<Rightarrow> (nat option list option \<Rightarrow> ffs_function \<Rightarrow> ffs_function) \<Rightarrow> u32 \<Rightarrow> nat \<Rightarrow> ffs_function \<Rightarrow> nat res \<times> ffs_function" where
  "bind_speed env ffs put count ds s =
     (if count = 0 then (Ok 0, s)
      else descs_at (bind_do_descs env ffs) (unat count) ds (length (raw_descs ffs) - ds)
             (put (Some (replicate (unat count + 1) None)) s))"

definition func_bind :: "bind_env \<Rightarrow> ffs_data \<Rightarrow> ffs_function \<Rightarrow> unit res \<times> ffs_function" where
  "func_bind env ffs s =
     (if fs_descs_count ffs = 0 \<and> hs_descs_count ffs = 0 \<and> ss_descs_count ffs = 0 then (Err ENOTSUPP, s)
      else if \<not> vla_ok env then (Err ENOMEM, s)
      else if raw_copy_ret env \<noteq> 0 then (Err (E_CODE (raw_copy_ret env)), s)
      else if nums_set_ret env \<noteq> 0 then (Err (E_CODE (nums_set_ret env)), s)
      else
        let s = s\<lparr>fn_raw := raw_descs ffs,
                  fn_eps := replicate (unat (eps_count ffs)) \<lparr>ep_hw = None, ep_descs = [None, None, None]\<rparr>,
                  fn_nums := replicate (unat (interfaces_count ffs)) (- 1)\<rparr>
        in bindS (bind_speed env ffs (\<lambda>a s. s\<lparr>fn_fs := a\<rparr>) (fs_descs_count ffs) 0 s) (\<lambda>fs_len s.
           bindS (bind_speed env ffs (\<lambda>a s. s\<lparr>fn_hs := a\<rparr>) (hs_descs_count ffs) fs_len s) (\<lambda>hs_len s.
           bindS (bind_speed env ffs (\<lambda>a s. s\<lparr>fn_ss := a\<rparr>) (ss_descs_count ffs) (fs_len + hs_len) s) (\<lambda>ss_len s.
           bindS (descs_at (bind_do_nums env) (unat (fs_descs_count ffs + hs_descs_count ffs + ss_descs_count ffs)) 0
                    (length (raw_descs ffs)) s) (\<lambda>_ s.
           bindS (find_intfs (unat (fs_descs_count ffs)) 0 None s) (\<lambda>(ctl, dat) s.
           bindS (cdc_fixups fn_fs (unat (fs_descs_count ffs)) 0 ctl dat s) (\<lambda>_ s.
           bindS (cdc_fixups fn_hs (unat (hs_descs_count ffs)) 0 ctl dat s) (\<lambda>_ s.
           cdc_fixups fn_ss (unat (ss_descs_count ffs)) 0 ctl dat s))))))))"

text \<open>
  The function with its options: whether it is the active one of its data (\<open>ffs->func\<close>), the number
  of configurations it is bound in, and whether the work that resets the data is scheduled.
\<close>

record usb_func =
  uf_ffs :: ffs_data
  uf_fn :: ffs_function
  uf_active :: bool
  uf_refcnt :: u32
  uf_reset_work :: bool

text \<open>
  \<open>functionfs_bind\<close>: every language gets the same identifiers, from the first of the ones that
  \<open>usb_string_ids_n\<close> gives; an identifier has 8 bits.
\<close>

definition functionfs_bind :: "bind_env \<Rightarrow> usb_func \<Rightarrow> unit res \<times> usb_func" where
  "functionfs_bind env u =
     (let ffs = uf_ffs u
      in if ffs_st ffs \<noteq> FFS_ACTIVE \<or> fl_bound ffs then (Err EBADFD, u)
         else let ffs = ffs\<lparr>fl_bound := True\<rparr>
           in if string_ids_n env < 0 then (Err (E_CODE (string_ids_n env)), u\<lparr>uf_ffs := ffs\<rparr>)
              else if \<not> ep0_req_ok env then (Err ENOMEM, u\<lparr>uf_ffs := ffs\<rparr>)
              else let ids = (case stringtabs ffs of None \<Rightarrow> []
                     | Some tabs \<Rightarrow> map (\<lambda>(lang, strs). map (\<lambda>i. word_of_int (string_ids_n env + int i)) [0..<length strs]) tabs)
                in (Ok (), u\<lparr>uf_ffs := ffs_data_get (ffs\<lparr>ep0_reqs := [], gadget := True\<rparr>),
                     uf_fn := (uf_fn u)\<lparr>fn_string_ids := ids\<rparr>\<rparr>))"

text \<open>The result says whether the last reference was given up, and with it the data freed.\<close>

definition functionfs_unbind :: "bool \<Rightarrow> (ffs_data \<Rightarrow> ffs_data) \<Rightarrow> usb_func \<Rightarrow> bool res \<times> usb_func" where
  "functionfs_unbind in_configfs unregister u =
     (if \<not> gadget (uf_ffs u) then (Ok False, u)
      else let (r, ffs) = ffs_data_put in_configfs unregister ((uf_ffs u)\<lparr>ep0_reqs := [], gadget := False, fl_bound := False\<rparr>)
        in (r, u\<lparr>uf_ffs := ffs\<rparr>))"

definition ffs_do_functionfs_bind :: "bind_env \<Rightarrow> usb_func \<Rightarrow> unit res \<times> usb_func" where
  "ffs_do_functionfs_bind env u =
     (if (case private_data (uf_ffs u) of None \<Rightarrow> True | Some dev \<Rightarrow> \<not> dev_desc_ready dev) then (Err ENODEV, u)
      else bindS (if uf_refcnt u = 0 then functionfs_bind env u else (Ok (), u)) (\<lambda>_ u.
        (Ok (), u\<lparr>uf_refcnt := uf_refcnt u + 1\<rparr>)))"

definition ffs_func_bind :: "bind_env \<Rightarrow> bool \<Rightarrow> (ffs_data \<Rightarrow> ffs_data) \<Rightarrow> usb_func \<Rightarrow> unit res \<times> usb_func" where
  "ffs_func_bind env in_configfs unregister u =
     bindS (ffs_do_functionfs_bind env u) (\<lambda>_ u.
       let (r, fn) = func_bind env (uf_ffs u) (uf_fn u); u = u\<lparr>uf_fn := fn\<rparr>
       in case r of
            Ok _ \<Rightarrow> (let (r, ffs) = ffs_event_add FUNCTIONFS_BIND (uf_ffs u) in (r, u\<lparr>uf_ffs := ffs\<rparr>))
          | Err e \<Rightarrow>
              let u = u\<lparr>uf_refcnt := uf_refcnt u - 1\<rparr>
              in if uf_refcnt u = 0 then bindS (functionfs_unbind in_configfs unregister u) (\<lambda>_ u. (Err e, u)) else (Err e, u)
          | Fault \<Rightarrow> (Fault, u))"

end
