(* ===== verification/Ffs_Func.thy ===== *)
theory Ffs_Func
  imports Ffs_Bind
begin

section \<open>Generic USB function: the hooks of the gadget\<close>

text \<open>
  What the composite gadget calls on a bound function: enabling and disabling its endpoints
  (\<open>ffs_func_set_alt\<close>, \<open>ffs_func_disable\<close>), control requests (\<open>ffs_func_setup\<close>,
  \<open>ffs_func_req_match\<close>), suspend and resume, and unbinding.
\<close>

subsection \<open>Reverse maps\<close>

definition EDOM :: errno where "EDOM = E_CODE (- 33)"

definition EOPNOTSUPP :: errno where "EOPNOTSUPP = E_CODE (- 95)"

definition ffs_func_revmap_ep :: "u8 \<Rightarrow> ffs_function \<Rightarrow> nat res" where
  "ffs_func_revmap_ep num fn =
     (if length (fn_revmap fn) \<le> unat (num AND 0x0f) then Fault
      else let num = fn_revmap fn ! unat (num AND 0x0f) in if num \<noteq> 0 then Ok (unat num) else Err EDOM)"

text \<open>The loop over the numbers; \<open>i\<close> is the index of the first one left.\<close>

fun revmap_loop :: "nat \<Rightarrow> nat \<Rightarrow> u8 \<Rightarrow> int list \<Rightarrow> nat res" where
  "revmap_loop 0 i intf nums = Err EDOM"
| "revmap_loop (Suc count) i intf nums =
     (if length nums \<le> i then Fault
      else if nums ! i \<ge> 0 \<and> nums ! i = uint intf then Ok i else revmap_loop count (i + 1) intf nums)"

definition ffs_func_revmap_intf :: "u8 \<Rightarrow> usb_func \<Rightarrow> nat res" where
  "ffs_func_revmap_intf intf u = revmap_loop (unat (interfaces_count (uf_ffs u))) 0 intf (fn_nums (uf_fn u))"

subsection \<open>Endpoints\<close>

text \<open>
  The loop of \<open>ffs_func_eps_disable\<close> over \<open>count\<close> endpoints and, when they exist, their files. The
  result also lists the hardware endpoints that were disabled.
\<close>

fun eps_disable_loop :: "nat \<Rightarrow> nat \<Rightarrow> ffs_ep list \<Rightarrow> ffs_epfile list option \<Rightarrow> (nat list \<times> ffs_epfile list option) res" where
  "eps_disable_loop 0 i eps efs = Ok ([], efs)"
| "eps_disable_loop (Suc count) i eps efs =
     (if length eps \<le> i then Fault
      else let off = (case ep_hw (eps ! i) of None \<Rightarrow> [] | Some ep \<Rightarrow> [ep])
        in case efs of
             None \<Rightarrow> bindR (eps_disable_loop count (i + 1) eps None) (\<lambda>(hw, efs). Ok (off @ hw, efs))
           | Some fs \<Rightarrow>
               if length fs \<le> i then Fault
               else bindR (eps_disable_loop count (i + 1) eps (Some (fs[i := (fs ! i)\<lparr>ef_ep := None\<rparr>])))
                      (\<lambda>(hw, efs). Ok (off @ hw, efs)))"

definition ffs_func_eps_disable :: "usb_func \<Rightarrow> nat list res \<times> usb_func" where
  "ffs_func_eps_disable u =
     (case eps_disable_loop (unat (eps_count (uf_ffs u))) 0 (fn_eps (uf_fn u)) (epfiles (uf_ffs u)) of
        Ok (hw, efs) \<Rightarrow> (Ok hw, u\<lparr>uf_ffs := (uf_ffs u)\<lparr>epfiles := efs\<rparr>\<rparr>)
      | Err e \<Rightarrow> (Err e, u)
      | Fault \<Rightarrow> (Fault, u))"

text \<open>
  \<open>ep_on i ep\<close> is the answer of \<open>config_ep_by_speed\<close> and \<open>usb_ep_enable\<close> for the \<open>i\<close>-th endpoint: an error,
  or the direction and type in the descriptor that the endpoint got. Files of endpoints behind a
  failing one keep what they had.
\<close>

fun eps_enable_loop ::
  "(nat \<Rightarrow> nat \<Rightarrow> int + bool \<times> bool) \<Rightarrow> nat \<Rightarrow> nat \<Rightarrow> ffs_ep list \<Rightarrow> ffs_epfile list option \<Rightarrow> int res \<times> ffs_epfile list option" where
  "eps_enable_loop ep_on 0 i eps efs = (Ok 0, efs)"
| "eps_enable_loop ep_on (Suc count) i eps efs =
     (if length eps \<le> i then (Fault, efs)
      else case ep_hw (eps ! i) of None \<Rightarrow> (Fault, efs)
      | Some ep \<Rightarrow> (case ep_on i ep of
          Inl ret \<Rightarrow> (Ok ret, efs)
        | Inr (dir_in, isoc) \<Rightarrow> (case efs of None \<Rightarrow> (Fault, efs)
            | Some fs \<Rightarrow>
                if length fs \<le> i then (Fault, efs)
                else eps_enable_loop ep_on count (i + 1) eps
                       (Some (fs[i := (fs ! i)\<lparr>ef_ep := Some i, ef_in := dir_in, ef_isoc := isoc\<rparr>])))))"

definition ffs_func_eps_enable :: "(nat \<Rightarrow> nat \<Rightarrow> int + bool \<times> bool) \<Rightarrow> usb_func \<Rightarrow> int res \<times> usb_func" where
  "ffs_func_eps_enable ep_on u =
     (let (r, efs) = eps_enable_loop ep_on (unat (eps_count (uf_ffs u))) 0 (fn_eps (uf_fn u)) (epfiles (uf_ffs u))
      in (r, u\<lparr>uf_ffs := (uf_ffs u)\<lparr>epfiles := efs\<rparr>\<rparr>))"

subsection \<open>Hooks\<close>

definition on_ffs :: "(ffs_data \<Rightarrow> 'a res \<times> ffs_data) \<Rightarrow> usb_func \<Rightarrow> 'a res \<times> usb_func" where
  "on_ffs f u = (let (r, ffs) = f (uf_ffs u) in (r, u\<lparr>uf_ffs := ffs\<rparr>))"

text \<open>\<open>alt\<close> is \<open>None\<close> for the value \<open>(unsigned) -1\<close> that stands for disabling.\<close>

definition ffs_func_set_alt ::
  "(nat \<Rightarrow> nat \<Rightarrow> int + bool \<times> bool) \<Rightarrow> u8 \<Rightarrow> nat option \<Rightarrow> usb_func \<Rightarrow> int res \<times> usb_func" where
  "ffs_func_set_alt ep_on intf alt u =
     (case (if alt \<noteq> None then ffs_func_revmap_intf intf u else Ok 0) of
        Err e \<Rightarrow> (Err e, u)
      | Fault \<Rightarrow> (Fault, u)
      | Ok _ \<Rightarrow>
          bindS (if uf_active u then ffs_func_eps_disable u else (Ok [], u)) (\<lambda>_ u.
          if ffs_st (uf_ffs u) = FFS_DEACTIVATED
          then (Err ENODEV, u\<lparr>uf_ffs := (uf_ffs u)\<lparr>ffs_st := FFS_CLOSING\<rparr>, uf_reset_work := True\<rparr>)
          else if ffs_st (uf_ffs u) \<noteq> FFS_ACTIVE then (Err ENODEV, u)
          else case alt of
            None \<Rightarrow> bindS (on_ffs (ffs_event_add FUNCTIONFS_DISABLE) (u\<lparr>uf_active := False\<rparr>)) (\<lambda>_ u. (Ok 0, u))
          | Some _ \<Rightarrow> bindS (ffs_func_eps_enable ep_on (u\<lparr>uf_active := True\<rparr>)) (\<lambda>ret u.
              if ret \<ge> 0 then bindS (on_ffs (ffs_event_add FUNCTIONFS_ENABLE) u) (\<lambda>_ u. (Ok ret, u))
              else (Err (E_CODE ret), u))))"

definition ffs_func_disable :: "usb_func \<Rightarrow> int res \<times> usb_func" where
  "ffs_func_disable u = ffs_func_set_alt (\<lambda>_ _. Inl 0) 0 None u"

abbreviation (input) FUNCTIONFS_ALL_CTRL_RECIP_bit :: nat where "FUNCTIONFS_ALL_CTRL_RECIP_bit \<equiv> 6"
abbreviation (input) FUNCTIONFS_CONFIG0_SETUP_bit :: nat where "FUNCTIONFS_CONFIG0_SETUP_bit \<equiv> 7"
abbreviation (input) USB_RECIP_INTERFACE :: u8 where "USB_RECIP_INTERFACE \<equiv> 1"
abbreviation (input) USB_RECIP_ENDPOINT :: u8 where "USB_RECIP_ENDPOINT \<equiv> 2"

text \<open>
  Where a control request goes: the number that \<open>wIndex\<close> gets, in the function's own numbering.
  \<open>wIndex\<close> is cut to 8 bits by the parameter types of the maps.
\<close>

definition setup_index :: "usb_ctrlrequest \<Rightarrow> usb_func \<Rightarrow> nat res" where
  "setup_index creq u =
     (let recip = bRequestType creq AND 0x1f; ffs = uf_ffs u
      in if recip = USB_RECIP_INTERFACE then ffs_func_revmap_intf (ucast (wIndex creq)) u
         else if recip = USB_RECIP_ENDPOINT then
           bindR (ffs_func_revmap_ep (ucast (wIndex creq)) (uf_fn u)) (\<lambda>ret.
             if bit (user_flags ffs) FUNCTIONFS_VIRTUAL_ADDR_bit
             then if length (eps_addrmap ffs) \<le> ret then Fault else Ok (unat (eps_addrmap ffs ! ret))
             else Ok ret)
         else if bit (user_flags ffs) FUNCTIONFS_ALL_CTRL_RECIP_bit then Ok (unat (wIndex creq))
         else Err EOPNOTSUPP)"

text \<open>The result says whether the status stage is delayed.\<close>

definition ffs_func_setup :: "usb_ctrlrequest \<Rightarrow> usb_func \<Rightarrow> bool res \<times> usb_func" where
  "ffs_func_setup creq u =
     (if ffs_st (uf_ffs u) \<noteq> FFS_ACTIVE then (Err ENODEV, u)
      else case setup_index creq u of
        Err e \<Rightarrow> (Err e, u)
      | Fault \<Rightarrow> (Fault, u)
      | Ok ret \<Rightarrow> bindS (on_ffs (run_async (Async_setup (creq\<lparr>wIndex := of_nat ret\<rparr>))) u) (\<lambda>_ u.
          (Ok (wLength creq = 0), u)))"

text \<open>Whether a map gives a number; a fault stays one.\<close>

definition found :: "nat res \<Rightarrow> bool res" where
  "found r = (case r of Ok _ \<Rightarrow> Ok True | Err _ \<Rightarrow> Ok False | Fault \<Rightarrow> Fault)"

definition ffs_func_req_match :: "usb_ctrlrequest \<Rightarrow> bool \<Rightarrow> usb_func \<Rightarrow> bool res" where
  "ffs_func_req_match creq config0 u =
     (if config0 \<and> \<not> bit (user_flags (uf_ffs u)) FUNCTIONFS_CONFIG0_SETUP_bit then Ok False
      else let recip = bRequestType creq AND 0x1f
        in if recip = USB_RECIP_INTERFACE then found (ffs_func_revmap_intf (ucast (wIndex creq)) u)
           else if recip = USB_RECIP_ENDPOINT then found (ffs_func_revmap_ep (ucast (wIndex creq)) (uf_fn u))
           else Ok (bit (user_flags (uf_ffs u)) FUNCTIONFS_ALL_CTRL_RECIP_bit))"

definition ffs_func_suspend :: "usb_func \<Rightarrow> unit res \<times> usb_func" where
  "ffs_func_suspend = on_ffs (ffs_event_add FUNCTIONFS_SUSPEND)"

definition ffs_func_resume :: "usb_func \<Rightarrow> unit res \<times> usb_func" where
  "ffs_func_resume = on_ffs (ffs_event_add FUNCTIONFS_RESUME)"

definition ffs_func_get_alt :: "nat \<Rightarrow> int" where
  "ffs_func_get_alt intf = (if intf = 0 then 0 else 1)"

text \<open>
  The requests of \<open>count\<close> endpoints are freed; then the whole allocation with the endpoints. The data
  is used after the reference was given back, so freeing it there is a fault.
\<close>

definition ffs_func_unbind :: "bool \<Rightarrow> (ffs_data \<Rightarrow> ffs_data) \<Rightarrow> usb_func \<Rightarrow> unit res \<times> usb_func" where
  "ffs_func_unbind in_configfs unregister u =
     (let count = unat (eps_count (uf_ffs u)) in
      bindS (if uf_active u then bindS (ffs_func_eps_disable u) (\<lambda>_ u. (Ok (), u\<lparr>uf_active := False\<rparr>)) else (Ok (), u)) (\<lambda>_ u.
      let u = u\<lparr>uf_refcnt := uf_refcnt u - 1\<rparr> in
      bindS (if uf_refcnt u = 0 then functionfs_unbind in_configfs unregister u else (Ok False, u)) (\<lambda>freed u.
      if freed \<or> length (fn_eps (uf_fn u)) < count then (Fault, u)
      else on_ffs (ffs_event_add FUNCTIONFS_UNBIND)
             (u\<lparr>uf_fn := (uf_fn u)\<lparr>fn_eps := [], fn_fs := None, fn_hs := None, fn_ss := None, fn_nums := []\<rparr>\<rparr>))))"

end
