(* ===== verification/Ffs_Epfile.thy ===== *)
theory Ffs_Epfile
  imports Ffs_Func
begin

section \<open>Generic USB function: the files of the endpoints\<close>

text \<open>
  The calls on the file of an endpoint (\<open>ffs_epfile_*\<close> of \<open>f_generic.c\<close>): transfers between mapped
  buffers and the controller, their completion, the queue of completed transfers. The function's spin
  lock for its endpoints (\<open>eps_lock\<close>) and the mutex of the file are part of the state: taking the
  spin lock while it is held is a fault.
\<close>

subsection \<open>State\<close>

text \<open>
  \<open>pf_st\<close>, \<open>pf_gadget\<close>, \<open>pf_super\<close> (super speed) and \<open>pf_fn\<close> are what the file sees of its function, \<open>pf_index\<close> is its position in
  the array of files. \<open>pf_fifo\<close> is the byte queue \<open>reqEventFifo\<close>;
  \<open>pf_reqs\<close> are the asynchronous requests linked at the endpoint. \<open>pf_queued\<close> lists what was handed to
  the controller: hardware endpoint, kernel address and length; \<open>pf_halted\<close> the endpoints that were
  halted. \<open>pf_mem\<close> counts the kernel buffers allocated less those freed.
\<close>

record epfile_io =
  pf_st :: ffs_state
  pf_gadget :: bool
  pf_super :: bool
  pf_fn :: ffs_function
  pf_index :: nat
  pf_file :: ffs_epfile
  pf_areas :: "ffs_memory list"
  pf_fifo :: "u8 kfifo"
  pf_reqs :: "ep0_request list"
  pf_queued :: "(nat \<times> u64 \<times> int) list"
  pf_halted :: "nat list"
  pf_mutex :: bool
  eps_lock :: bool
  pf_mem :: int

text \<open>
  What the kernel and the controller answer. \<open>connected\<close>: the endpoint the file is connected to when a
  caller that waits for one is woken up, with its direction and type, \<open>None\<close> for a signal; \<open>locking\<close> and \<open>unlocked\<close>: what happens to
  the connection while the caller waits for the mutex, and in the moment between its two locked parts.
  \<open>align\<close> is \<open>usb_ep_align_maybe\<close>. Return codes of the kernel are 0 or negative.
\<close>

record ep_env =
  ep_nonblock :: bool
  ep_mutex_free :: bool
  connected :: "(nat \<times> bool \<times> bool) option"
  locking :: "nat option \<Rightarrow> nat option"
  unlocked :: "nat option \<Rightarrow> nat option"
  align :: "nat \<Rightarrow> int \<Rightarrow> int"
  halt_ret :: int
  queue_ret :: int
  req_ok :: bool
  ep_interrupted :: bool
  ep_timed_out :: bool
  ep_done_status :: int
  ep_done_actual :: nat
  ep_copy_ok :: bool
  ep_alloc_ok :: bool
  ep_memset_ret :: int
  ep_memcpy_ret :: int
  fifo_status :: int
  clear_ret :: int

text \<open>\<open>struct IoData\<close>, now with its direction.\<close>

record ep_io_data = io_data +
  io_read :: bool

definition EBADMSG :: errno where "EBADMSG = E_CODE (- 74)"

definition ESHUTDOWN :: errno where "ESHUTDOWN = E_CODE (- 108)"

definition ENOTTY :: errno where "ENOTTY = E_CODE (- 25)"

subsection \<open>Locks and mapped areas\<close>

definition eps_lock_take :: "epfile_io \<Rightarrow> unit res \<times> epfile_io" where
  "eps_lock_take s = (if eps_lock s then (Fault, s) else (Ok (), s\<lparr>eps_lock := True\<rparr>))"

definition eps_unlock :: "epfile_io \<Rightarrow> epfile_io" where
  "eps_unlock s = s\<lparr>eps_lock := False\<rparr>"

text \<open>A mutex that an earlier call left locked is never free again.\<close>

definition epfile_mutex_lock :: "ep_env \<Rightarrow> epfile_io \<Rightarrow> unit res \<times> epfile_io" where
  "epfile_mutex_lock env s =
     (if ep_mutex_free env \<and> \<not> pf_mutex s then (Ok (), s\<lparr>pf_mutex := True\<rparr>)
      else (Err (if ep_nonblock env then EAGAIN else EINTR), s))"

definition epfile_mutex_unlock :: "epfile_io \<Rightarrow> epfile_io" where
  "epfile_mutex_unlock s = s\<lparr>pf_mutex := False\<rparr>"

definition reconnect :: "(nat option \<Rightarrow> nat option) \<Rightarrow> epfile_io \<Rightarrow> epfile_io" where
  "reconnect f s = s\<lparr>pf_file := (pf_file s)\<lparr>ef_ep := f (ef_ep (pf_file s))\<rparr>\<rparr>"

definition generic_find_memory_area :: "u64 \<Rightarrow> u32 \<Rightarrow> epfile_io \<Rightarrow> ffs_memory option" where
  "generic_find_memory_area buf len s = find (\<lambda>m.
     buf \<ge> vm_start m \<and> buf < vm_start m + ucast (mem_size m)
     \<and> ucast len \<le> vm_start m + ucast (mem_size m) - buf) (pf_areas s)"

definition ffs_epfile_mmap :: "bool \<Rightarrow> bool \<Rightarrow> bool \<Rightarrow> u64 \<Rightarrow> u64 \<Rightarrow> u64 \<Rightarrow> epfile_io \<Rightarrow> unit res \<times> epfile_io" where
  "ffs_epfile_mmap mem_ok node_ok remap_ok virt start stop s =
     (if \<not> mem_ok then (Err ENOMEM, s)
      else if \<not> node_ok then (Err EPERM, s)
      else if \<not> remap_ok then (Err EPERM, s)
      else bindS (eps_lock_take s) (\<lambda>_ s.
        (Ok (), eps_unlock (s\<lparr>pf_areas := pf_areas s @ [\<lparr>mem = virt, vm_start = start, mem_size = ucast (stop - start)\<rparr>],
                               pf_mem := pf_mem s + 2\<rparr>))))"

subsection \<open>Transfers\<close>

text \<open>
  The transfer once the buffer is known, with both locks held. \<open>ep\<close> is the index of the endpoint, \<open>hw\<close>
  its hardware endpoint. Asking the controller counts as done when it returns; a synchronous transfer
  that is interrupted or times out is taken back and waited for.
\<close>

definition epfile_sync :: "ep_env \<Rightarrow> ep_io_data \<Rightarrow> nat \<Rightarrow> u64 \<Rightarrow> int \<Rightarrow> epfile_io \<Rightarrow> nat res \<times> epfile_io" where
  "epfile_sync env io hw addr data_len s =
     (if queue_ret env < 0 then (Err (E_CODE (queue_ret env)), epfile_mutex_unlock (eps_unlock s))
      else let s = epfile_mutex_unlock (eps_unlock (s\<lparr>pf_queued := pf_queued s @ [(hw, addr, data_len)]\<rparr>))
        in if ep_interrupted env then
             (if ep_done_status env < 0 then (Err EINTR, s) else (Ok (ep_done_actual env), s))
           else if io_timeout io > 0 \<and> ep_timed_out env then (Err EBUSY, s)
           else (Ok (ep_done_actual env), s))"

definition epfile_async :: "ep_env \<Rightarrow> ep_io_data \<Rightarrow> nat \<Rightarrow> u64 \<Rightarrow> int \<Rightarrow> epfile_io \<Rightarrow> nat res \<times> epfile_io" where
  "epfile_async env io hw addr data_len s =
     (if \<not> req_ok env then (Err ENOMEM, epfile_mutex_unlock (eps_unlock s))
      else let req = \<lparr>rq_buf = addr, rq_len = word_of_int data_len, rq_user_buf = io_buf io, rq_status = 0, rq_freed = False\<rparr>;
               s = s\<lparr>pf_reqs := req # pf_reqs s, pf_mem := pf_mem s + 1\<rparr>
        in if queue_ret env \<noteq> 0
           then (Err (E_CODE (queue_ret env)), epfile_mutex_unlock (eps_unlock
                  (s\<lparr>pf_reqs := req\<lparr>rq_freed := True\<rparr> # tl (pf_reqs s), pf_mem := pf_mem s - 1\<rparr>)))
           else (Err EIOCBQUEUED, epfile_mutex_unlock (eps_unlock (s\<lparr>pf_queued := pf_queued s @ [(hw, addr, data_len)]\<rparr>))))"

definition epfile_halt :: "ep_env \<Rightarrow> nat \<Rightarrow> epfile_io \<Rightarrow> nat res \<times> epfile_io" where
  "epfile_halt env hw s =
     (let s = epfile_mutex_unlock (eps_unlock (s\<lparr>pf_halted := pf_halted s @ [hw]\<rparr>))
      in if halt_ret env = 0 then (Err EBADMSG, s) else (Err (E_CODE (halt_ret env)), s))"

text \<open>The second locked part: from the mapped area on. Without one it returns with both locks held.\<close>

definition epfile_queue :: "ep_env \<Rightarrow> ep_io_data \<Rightarrow> nat \<Rightarrow> bool \<Rightarrow> int \<Rightarrow> epfile_io \<Rightarrow> nat res \<times> epfile_io" where
  "epfile_queue env io ep halt data_len s =
     bindS (eps_lock_take s) (\<lambda>_ s.
       case generic_find_memory_area (io_buf io) (io_len io) s of
         None \<Rightarrow> (Err EFAULT, s)
       | Some m \<Rightarrow>
           if ef_ep (pf_file s) \<noteq> Some ep then (Err ESHUTDOWN, epfile_mutex_unlock (eps_unlock s))
           else if length (fn_eps (pf_fn s)) \<le> ep then (Fault, s)
           else case ep_hw (fn_eps (pf_fn s) ! ep) of
             None \<Rightarrow> (Fault, s)
           | Some hw \<Rightarrow>
               if halt then epfile_halt env hw s
               else if \<not> io_aio io then epfile_sync env io hw (kernel_address m (io_buf io)) data_len s
               else epfile_async env io hw (kernel_address m (io_buf io)) data_len s)"

text \<open>The first one: the length, aligned for the controller when data come from the host.\<close>

definition epfile_length :: "ep_env \<Rightarrow> ep_io_data \<Rightarrow> nat \<Rightarrow> epfile_io \<Rightarrow> int res \<times> epfile_io" where
  "epfile_length env io ep s =
     bindS (eps_lock_take s) (\<lambda>_ s.
       if ef_ep (pf_file s) \<noteq> Some ep then (Err ESHUTDOWN, epfile_mutex_unlock (eps_unlock s))
       else if \<not> io_read io then (Ok (uint (io_len io)), eps_unlock s)
       else if \<not> pf_gadget s then (Fault, s)
       else (Ok (align env ep (uint (io_len io))), eps_unlock s))"

definition epfile_transfer :: "ep_env \<Rightarrow> ep_io_data \<Rightarrow> nat \<Rightarrow> epfile_io \<Rightarrow> nat res \<times> epfile_io" where
  "epfile_transfer env io ep s =
     (let halt = (io_read io = ef_in (pf_file s))
      in if halt \<and> ef_isoc (pf_file s) then (Err EINVAL, s)
         else bindS (epfile_mutex_lock env (reconnect (locking env) s)) (\<lambda>_ s.
           bindS (if halt then (Ok (- 22), s) else epfile_length env io ep s) (\<lambda>data_len s.
           epfile_queue env io ep halt data_len (reconnect (unlocked env) s))))"

text \<open>The whole transfer; a file without endpoint waits until it is connected.\<close>

definition ffs_epfile_iorw :: "ep_env \<Rightarrow> ep_io_data \<Rightarrow> epfile_io \<Rightarrow> nat res \<times> epfile_io" where
  "ffs_epfile_iorw env io s =
     (if pf_st s \<noteq> FFS_ACTIVE then (Err ENODEV, s)
      else case ef_ep (pf_file s) of
        Some ep \<Rightarrow> epfile_transfer env io ep s
      | None \<Rightarrow>
          if ep_nonblock env then (Err EAGAIN, s)
          else case connected env of
            None \<Rightarrow> (Err EINTR, s)
          | Some (ep, dir_in, isoc) \<Rightarrow>
              epfile_transfer env io ep (s\<lparr>pf_file := (pf_file s)\<lparr>ef_ep := Some ep, ef_in := dir_in, ef_isoc := isoc\<rparr>\<rparr>))"

subsection \<open>Completion\<close>

text \<open>
  A completed asynchronous request: \<open>struct UsbFnReqEvent\<close> goes to the byte queue, which has space for
  64 of them and takes as many of its bytes as fit; the request leaves the list and is freed with its
  arguments.
\<close>

definition event_bytes :: "usb_fn_req_event \<Rightarrow> u8 list" where
  "event_bytes ev = le32_bytes (ucast (re_buf ev)) @ le32_bytes (ucast (drop_bit 32 (re_buf ev)))
     @ le32_bytes (re_actual ev) @ le32_bytes (word_of_int (re_status ev))"

abbreviation (input) FIFO_SIZE :: nat where "FIFO_SIZE \<equiv> 1024"

definition epfile_task_proc :: "nat \<Rightarrow> int \<Rightarrow> u32 \<Rightarrow> epfile_io \<Rightarrow> unit res \<times> epfile_io" where
  "epfile_task_proc i status actual s =
     bindS (eps_lock_take s) (\<lambda>_ s.
       if length (pf_reqs s) \<le> i \<or> rq_freed (pf_reqs s ! i) then (Fault, s)
       else let ev = \<lparr>re_buf = rq_user_buf (pf_reqs s ! i), re_actual = actual, re_status = status\<rparr>
         in case kfifo_in FIFO_SIZE (event_bytes ev) (pf_fifo s) of
              Ok fifo \<Rightarrow> (Ok (), eps_unlock (s\<lparr>pf_fifo := fifo,
                 pf_reqs := take i (pf_reqs s) @ drop (Suc i) (pf_reqs s), pf_mem := pf_mem s - 2\<rparr>))
            | _ \<Rightarrow> (Fault, s))"

subsection \<open>Open, read, write, poll\<close>

definition ffs_epfile_open :: "epfile_io \<Rightarrow> unit res \<times> epfile_io" where
  "ffs_epfile_open s = (if pf_st s \<noteq> FFS_ACTIVE then (Err ENODEV, s) else (Ok (), s))"

text \<open>Bytes of completed transfers, as many as the caller has space for. The queue is looked at without the lock.\<close>

definition ffs_epfile_read :: "ep_env \<Rightarrow> nat \<Rightarrow> epfile_io \<Rightarrow> u8 list res \<times> epfile_io" where
  "ffs_epfile_read env count s =
     (if kfifo_is_empty (pf_fifo s) then (Ok [], s)
      else bindS (eps_lock_take s) (\<lambda>_ s. case pf_fifo s of
        Fifo fifo \<Rightarrow>
          if ep_copy_ok env then (Ok (take count fifo), eps_unlock (s\<lparr>pf_fifo := Fifo (drop count fifo)\<rparr>))
          else (Err EPERM, eps_unlock s)
      | _ \<Rightarrow> (Fault, s)))"

definition ffs_epfile_write :: "nat \<Rightarrow> epfile_io \<Rightarrow> nat res \<times> epfile_io" where
  "ffs_epfile_write count s = (Ok count, s)"

definition ffs_epfile_poll :: "epfile_io \<Rightarrow> bool" where
  "ffs_epfile_poll s \<longleftrightarrow> \<not> kfifo_is_empty (pf_fifo s)"

subsection \<open>Control calls\<close>

datatype ep_ioctl =
    EP_QUEUE_INIT
  | EP_QUEUE_DEL
  | EP_RELEASE_BUF u64 u32
  | EP_READ ep_io_data
  | EP_WRITE ep_io_data
  | EP_RW_CANCEL u64 u32
  | EP_GET_REQ_STATUS u64 u32
  | FIFO_STATUS
  | FIFO_FLUSH
  | CLEAR_HALT
  | EP_REVMAP
  | EP_DESC
  | EP_OTHER

datatype ep_answer = Ep_number int | Ep_desc "u8 list"

definition answer_number :: "int \<Rightarrow> ep_answer res" where
  "answer_number n = (if n < 0 then Err (E_CODE n) else Ok (Ep_number n))"

text \<open>The arguments of an asynchronous transfer stay allocated until it completes.\<close>

definition rw_answer :: "ep_io_data \<Rightarrow> nat res \<Rightarrow> epfile_io \<Rightarrow> ep_answer res \<times> epfile_io" where
  "rw_answer io r s = (case r of
     Ok n \<Rightarrow> (Ok (Ep_number (int n)), if io_aio io then s\<lparr>pf_mem := pf_mem s - 1\<rparr> else s)
   | Err e \<Rightarrow>
       if e = EIOCBQUEUED then (Ok (Ep_number 0), s)
       else (Err e, if io_aio io then s\<lparr>pf_mem := pf_mem s - 1\<rparr> else s)
   | Fault \<Rightarrow> (Fault, s))"

definition ep_ioctl_rw :: "ep_env \<Rightarrow> ep_io_data \<Rightarrow> epfile_io \<Rightarrow> ep_answer res \<times> epfile_io" where
  "ep_ioctl_rw env io s =
     bindS (eps_lock_take s) (\<lambda>_ s.
       if \<not> ep_copy_ok env then (Err EFAULT, eps_unlock s)
       else if io_aio io \<and> \<not> ep_alloc_ok env then (Err ENOMEM, eps_unlock s)
       else if \<not> io_aio io \<and> ep_memset_ret env \<noteq> 0 then (Err (E_CODE (ep_memset_ret env)), eps_unlock s)
       else let s = (if io_aio io then s\<lparr>pf_mem := pf_mem s + 1\<rparr> else s)
         in if ep_memcpy_ret env \<noteq> 0 then (Err (E_CODE (ep_memcpy_ret env)), eps_unlock s)
            else bindE (ffs_epfile_iorw env io (eps_unlock s)) (rw_answer io))"

text \<open>
  The pointer to the endpoint is read before the lock is taken, and again under it. An address in no
  mapped area returns with the lock held.
\<close>

definition ep_find :: "ep_env \<Rightarrow> u64 \<Rightarrow> u32 \<Rightarrow> (ep0_request \<Rightarrow> ep_answer res) \<Rightarrow> epfile_io \<Rightarrow> ep_answer res \<times> epfile_io" where
  "ep_find env buf len f s =
     (let ep = ef_ep (pf_file s)
      in bindS (eps_lock_take (reconnect (locking env) s)) (\<lambda>_ s.
        if ep = None then (Err EFAULT, eps_unlock s)
        else if \<not> ep_copy_ok env then (Err EFAULT, eps_unlock s)
        else case generic_find_memory_area buf len s of
          None \<Rightarrow> (Err EFAULT, s)
        | Some m \<Rightarrow>
            if ef_ep (pf_file s) = None then (Fault, s)
            else case find_request (kernel_address m buf) (pf_reqs s) of
              Ok (Some r) \<Rightarrow> (f r, eps_unlock s)
            | Ok None \<Rightarrow> (Err EFAULT, eps_unlock s)
            | Err e \<Rightarrow> (Err e, eps_unlock s)
            | Fault \<Rightarrow> (Fault, s)))"

text \<open>Calls that use the endpoint without asking whether there is one.\<close>

definition with_ep :: "(nat \<Rightarrow> ep_answer res) \<Rightarrow> epfile_io \<Rightarrow> ep_answer res \<times> epfile_io" where
  "with_ep f s = (case ef_ep (pf_file s) of None \<Rightarrow> (Fault, s) | Some ep \<Rightarrow> (f ep, eps_unlock s))"

text \<open>The descriptor of the endpoint for the speed of the gadget; full speed takes the one of high speed.\<close>

definition ep_desc :: "epfile_io \<Rightarrow> u8 list res" where
  "ep_desc s =
     (if length (fn_eps (pf_fn s)) \<le> pf_index s then Fault
      else case ep_descs (fn_eps (pf_fn s) ! pf_index s) ! (if pf_super s then 2 else 1) of
        None \<Rightarrow> Fault
      | Some p \<Rightarrow>
          if length (fn_raw (pf_fn s)) \<le> p \<or> length (fn_raw (pf_fn s)) < p + unat (fn_raw (pf_fn s) ! p) then Fault
          else Ok (take (unat (fn_raw (pf_fn s) ! p)) (drop p (fn_raw (pf_fn s)))))"

text \<open>The number of an endpoint is set to \<open>-1\<close>, as an unsigned byte, when the function is bound.\<close>

definition ffs_epfile_ioctl :: "ep_env \<Rightarrow> ep_ioctl \<Rightarrow> epfile_io \<Rightarrow> ep_answer res \<times> epfile_io" where
  "ffs_epfile_ioctl env cmd s =
     (if pf_st s \<noteq> FFS_ACTIVE then (Err ENODEV, s)
      else case cmd of
        EP_READ io \<Rightarrow> ep_ioctl_rw env io s
      | EP_WRITE io \<Rightarrow> ep_ioctl_rw env io s
      | EP_RW_CANCEL buf len \<Rightarrow> ep_find env buf len (\<lambda>_. Ok (Ep_number 0)) s
      | EP_GET_REQ_STATUS buf len \<Rightarrow> ep_find env buf len (\<lambda>r. answer_number (rq_status r)) s
      | _ \<Rightarrow> bindS (eps_lock_take s) (\<lambda>_ s. case cmd of
          EP_QUEUE_INIT \<Rightarrow>
            if ep_alloc_ok env then (Ok (Ep_number 0), eps_unlock (s\<lparr>pf_fifo := Fifo [], pf_mem := pf_mem s + 1\<rparr>))
            else (Err ENOMEM, eps_unlock (s\<lparr>pf_fifo := Fifo_failed\<rparr>))
        | EP_QUEUE_DEL \<Rightarrow>
            (Ok (Ep_number 0), eps_unlock (s\<lparr>pf_fifo := Fifo_zeroed False,
               pf_mem := (if is_Fifo (pf_fifo s) then pf_mem s - 1 else pf_mem s)\<rparr>))
        | EP_RELEASE_BUF buf len \<Rightarrow>
            if \<not> ep_copy_ok env then (Err EFAULT, s)
            else (case generic_find_memory_area buf len s of
                None \<Rightarrow> (Err EFAULT, s)
              | Some m \<Rightarrow> (Ok (Ep_number 0), eps_unlock (s\<lparr>pf_areas := remove1 m (pf_areas s), pf_mem := pf_mem s - 2\<rparr>)))
        | FIFO_STATUS \<Rightarrow> with_ep (\<lambda>_. answer_number (fifo_status env)) s
        | FIFO_FLUSH \<Rightarrow> with_ep (\<lambda>_. Ok (Ep_number 0)) s
        | CLEAR_HALT \<Rightarrow> with_ep (\<lambda>_. answer_number (clear_ret env)) s
        | EP_REVMAP \<Rightarrow> with_ep (\<lambda>_. Ok (Ep_number 255)) s
        | EP_DESC \<Rightarrow> (case ep_desc s of
              Ok bs \<Rightarrow> (if ep_copy_ok env then Ok (Ep_desc bs) else Err EFAULT, eps_unlock s)
            | Err e \<Rightarrow> (Err e, eps_unlock s)
            | Fault \<Rightarrow> (Fault, eps_unlock s))
        | _ \<Rightarrow> (Err ENOTTY, eps_unlock s)))"

end
