(* ===== verification/Ffs_Epfile_Inv.thy ===== *)
theory Ffs_Epfile_Inv
  imports Ffs_Epfile Ffs_Ep0_Inv
begin

section \<open>Generic USB function: what a call on an endpoint file keeps\<close>

text \<open>
  The invariant of an endpoint file (\<open>ep_ok\<close>): free locks, accounted memory, a hardware endpoint behind
  a connected file. Every call keeps it when its caller sees to what the code does not check
  (\<open>ep_call_ok\<close>), and so do completions and hooks, as steps of a relation.
\<close>

subsection \<open>An endpoint file in order\<close>

text \<open>
  Between calls: both locks free, no freed request in the list, the byte queue not longer than its
  space, and, when the file is connected, a gadget and a hardware endpoint behind it. The memory is
  what the areas, the queue and the requests hold, and \<open>d\<close> more inside of a call.
\<close>

definition connects :: "epfile_io \<Rightarrow> nat option \<Rightarrow> bool" where
  "connects s e \<longleftrightarrow> (\<forall>ep. e = Some ep \<longrightarrow> pf_gadget s \<and> ep < length (fn_eps (pf_fn s)) \<and> ep_hw (fn_eps (pf_fn s) ! ep) \<noteq> None)"

definition ep_ok_less :: "int \<Rightarrow> epfile_io \<Rightarrow> bool" where
  "ep_ok_less d s \<longleftrightarrow> \<not> pf_mutex s \<and> \<not> eps_lock s \<and> list_all (\<lambda>r. \<not> rq_freed r) (pf_reqs s)
     \<and> pf_fifo s \<noteq> Fifo_zeroed True \<and> (\<forall>fifo. pf_fifo s = Fifo fifo \<longrightarrow> length fifo \<le> FIFO_SIZE)
     \<and> connects s (ef_ep (pf_file s))
     \<and> pf_mem s = 2 * int (length (pf_areas s)) + 2 * int (length (pf_reqs s)) + (if is_Fifo (pf_fifo s) then 1 else 0) + d"

abbreviation ep_ok :: "epfile_io \<Rightarrow> bool" where
  "ep_ok \<equiv> ep_ok_less 0"

text \<open>
  An environment for a call: whatever the file gets connected to meanwhile is an endpoint of the
  function, and copies between kernel buffers work.
\<close>

definition ep_env_ok :: "ep_env \<Rightarrow> epfile_io \<Rightarrow> bool" where
  "ep_env_ok env s \<longleftrightarrow> ep_memset_ret env = 0 \<and> ep_memcpy_ret env = 0
     \<and> (\<forall>ep t. connected env = Some (ep, t) \<longrightarrow> connects s (Some ep))
     \<and> (\<forall>e. connects s e \<longrightarrow> connects s (locking env e) \<and> connects s (unlocked env e))"

text \<open>What a transfer does not touch.\<close>

definition same_file :: "epfile_io \<Rightarrow> epfile_io \<Rightarrow> bool" where
  "same_file s s' \<longleftrightarrow> pf_st s' = pf_st s \<and> pf_gadget s' = pf_gadget s \<and> pf_super s' = pf_super s \<and> pf_fn s' = pf_fn s
     \<and> pf_index s' = pf_index s \<and> pf_areas s' = pf_areas s \<and> pf_fifo s' = pf_fifo s"

lemma same_file_simps [simp]:
  "same_file s s" "same_file s (epfile_mutex_unlock t) = same_file s t" "same_file s (eps_unlock t) = same_file s t"
  "same_file s (reconnect f t) = same_file s t" "same_file s (t\<lparr>pf_queued := q\<rparr>) = same_file s t"
  "same_file s (t\<lparr>pf_halted := h\<rparr>) = same_file s t" "same_file s (t\<lparr>pf_reqs := r\<rparr>) = same_file s t"
  "same_file s (t\<lparr>pf_mem := n\<rparr>) = same_file s t" "same_file s (t\<lparr>eps_lock := b\<rparr>) = same_file s t"
  "same_file s (t\<lparr>pf_mutex := b\<rparr>) = same_file s t" "same_file s (t\<lparr>pf_file := f'\<rparr>) = same_file s t"
  by (auto simp: same_file_def epfile_mutex_unlock_def eps_unlock_def reconnect_def)

lemma same_file_trans: "same_file s t \<Longrightarrow> same_file t u \<Longrightarrow> same_file s u"
  by (simp add: same_file_def)

lemma same_file_area: "same_file s t \<Longrightarrow> generic_find_memory_area buf len t = generic_find_memory_area buf len s"
  by (simp add: same_file_def generic_find_memory_area_def)

lemma same_file_connects: "same_file s t \<Longrightarrow> connects t e = connects s e"
  by (simp add: same_file_def connects_def)

text \<open>A transfer that holds both locks: what it gives back them with.\<close>

definition both_locked :: "int \<Rightarrow> epfile_io \<Rightarrow> bool" where
  "both_locked d s \<longleftrightarrow> pf_mutex s \<and> eps_lock s \<and> ep_ok_less d (epfile_mutex_unlock (eps_unlock s))"

abbreviation transfer_post :: "int \<Rightarrow> ep_io_data \<Rightarrow> epfile_io \<Rightarrow> nat res \<times> epfile_io \<Rightarrow> bool" where
  "transfer_post d io s p \<equiv> post p (\<lambda>_ s'. ep_ok_less d s' \<and> same_file s s')
     (\<lambda>e s'. ep_ok_less (if e = EIOCBQUEUED then d - 1 else d) s' \<and> same_file s s' \<and> (e = EIOCBQUEUED \<longrightarrow> io_aio io))"

lemma ep_ok_simps [simp]:
  "ep_ok_less d (epfile_mutex_unlock (eps_unlock (s\<lparr>pf_queued := q\<rparr>))) = ep_ok_less d (epfile_mutex_unlock (eps_unlock s))"
  "ep_ok_less d (epfile_mutex_unlock (eps_unlock (s\<lparr>pf_halted := h\<rparr>))) = ep_ok_less d (epfile_mutex_unlock (eps_unlock s))"
  by (simp_all add: ep_ok_less_def connects_def epfile_mutex_unlock_def eps_unlock_def)

lemma sync_post: "both_locked d s \<Longrightarrow> transfer_post d io s (epfile_sync env io hw addr len s)"
  by (simp add: epfile_sync_def both_locked_def Let_def)

lemma halt_post: "both_locked d s \<Longrightarrow> transfer_post d io s (epfile_halt env hw s)"
  by (simp add: epfile_halt_def both_locked_def EBADMSG_def Let_def)

lemma async_post:
  assumes "both_locked d s" and "io_aio io" and "queue_ret env = 0"
  shows "transfer_post d io s (epfile_async env io hw addr len s)"
  using assms
  by (auto simp: epfile_async_def both_locked_def Let_def ep_ok_less_def connects_def epfile_mutex_unlock_def eps_unlock_def same_file_def)

lemma queue_post:
  assumes s: "pf_mutex s" "\<not> eps_lock s" "ep_ok_less d (epfile_mutex_unlock s)" and area: "generic_find_memory_area (io_buf io) (io_len io) s \<noteq> None"
    and q: "io_aio io \<Longrightarrow> queue_ret env = 0"
  shows "transfer_post d io s (epfile_queue env io ep halt len s)"
proof -
  let ?t = "s\<lparr>eps_lock := True\<rparr>"
  have "eps_unlock ?t = s" using s(2) by (simp add: eps_unlock_def)
  then have t: "both_locked d ?t" using s by (simp add: both_locked_def)
  obtain m where m: "generic_find_memory_area (io_buf io) (io_len io) ?t = Some m"
    using area by (auto simp: generic_find_memory_area_def)
  have con: "connects s (ef_ep (pf_file s))" using s(3) by (simp add: ep_ok_less_def connects_def epfile_mutex_unlock_def)
  show ?thesis
  proof (cases "ef_ep (pf_file s) = Some ep")
    case False
    then show ?thesis using s m t by (simp add: epfile_queue_def eps_lock_take_def both_locked_def ESHUTDOWN_def)
  next
    case True
    then obtain hw where hw: "ep < length (fn_eps (pf_fn s))" "ep_hw (fn_eps (pf_fn s) ! ep) = Some hw" using con by (auto simp: connects_def)
    have same: "transfer_post d io ?t p \<Longrightarrow> transfer_post d io s p" for p by (simp add: same_file_def)
    have run: "epfile_queue env io ep halt len s = (if halt then epfile_halt env hw ?t
        else if \<not> io_aio io then epfile_sync env io hw (kernel_address m (io_buf io)) len ?t
        else epfile_async env io hw (kernel_address m (io_buf io)) len ?t)"
      using True hw s(2) m by (simp add: epfile_queue_def eps_lock_take_def)
    show ?thesis
      unfolding run
      by (intro post_if same halt_post [OF t] sync_post [OF t] async_post [OF t] q) simp_all
  qed
qed

lemma length_post:
  assumes s: "pf_mutex s" "\<not> eps_lock s" "ep_ok_less d (epfile_mutex_unlock s)"
  shows "post (epfile_length env io ep s)
     (\<lambda>len s'. s' = s \<and> len = (if io_read io then align env ep (uint (io_len io)) else uint (io_len io)))
     (\<lambda>e s'. e = ESHUTDOWN \<and> s' = epfile_mutex_unlock s)"
  using s by (auto simp: epfile_length_def eps_lock_take_def eps_unlock_def epfile_mutex_unlock_def ep_ok_less_def connects_def)


lemma unlocked_less: "ep_ok_less d s \<Longrightarrow> epfile_mutex_unlock (s\<lparr>pf_mutex := True\<rparr>) = s"
  by (simp add: ep_ok_less_def epfile_mutex_unlock_def)

lemma ep_ok_reconnect: "ep_ok_less d s \<Longrightarrow> connects s (f (ef_ep (pf_file s))) \<Longrightarrow> ep_ok_less d (reconnect f s)"
  by (simp add: ep_ok_less_def connects_def reconnect_def)

lemma ep_ok_connects: "ep_ok_less d s \<Longrightarrow> connects s (ef_ep (pf_file s))"
  by (simp add: ep_ok_less_def)

lemma transfer_ok:
  assumes s: "ep_ok_less d s" and env: "ep_env_ok env s" and area: "generic_find_memory_area (io_buf io) (io_len io) s \<noteq> None"
    and q: "io_aio io \<Longrightarrow> queue_ret env = 0" and g: "pf_gadget s"
  shows "transfer_post d io s (epfile_transfer env io ep s)"
proof (cases "io_read io = ef_in (pf_file s) \<and> ef_isoc (pf_file s)")
  case True
  then show ?thesis using s by (simp add: epfile_transfer_def Let_def)
next
  case False
  define halt where "halt = (io_read io = ef_in (pf_file s))"
  let ?r = "reconnect (locking env) s"
  have r: "ep_ok_less d ?r" using ep_ok_reconnect [OF s] env ep_ok_connects [OF s] by (simp add: ep_env_ok_def)
  have same: "same_file s ?r" by simp
  have queue: "transfer_post d io s (epfile_queue env io ep halt len (reconnect (unlocked env) (?r\<lparr>pf_mutex := True\<rparr>)))" for len
  proof -
    let ?q = "reconnect (unlocked env) (?r\<lparr>pf_mutex := True\<rparr>)"
    have "epfile_mutex_unlock ?q = reconnect (unlocked env) ?r" using r by (simp add: ep_ok_less_def epfile_mutex_unlock_def reconnect_def)
    moreover have "connects ?r (unlocked env (ef_ep (pf_file ?r)))"
      using env ep_ok_connects [OF r] same_file_connects [OF same] by (simp add: ep_env_ok_def)
    then have "ep_ok_less d (reconnect (unlocked env) ?r)" by (rule ep_ok_reconnect [OF r])
    moreover have "generic_find_memory_area (io_buf io) (io_len io) ?q \<noteq> None"
      using area same_file_area [of s ?q] by simp
    moreover have "pf_mutex ?q" "\<not> eps_lock ?q" using r by (simp_all add: reconnect_def ep_ok_less_def)
    ultimately have "transfer_post d io ?q (epfile_queue env io ep halt len ?q)" using q by (intro queue_post) simp_all
    then show ?thesis by (rule post_mono) (simp_all add: same_file_def reconnect_def)
  qed
  have m: "pf_mutex (?r\<lparr>pf_mutex := True\<rparr>)" "\<not> eps_lock (?r\<lparr>pf_mutex := True\<rparr>)" "ep_ok_less d (epfile_mutex_unlock (?r\<lparr>pf_mutex := True\<rparr>))"
    using r by (simp_all add: unlocked_less) (simp add: ep_ok_less_def)
  have len: "post (if halt then (Ok (- 22), ?r\<lparr>pf_mutex := True\<rparr>) else epfile_length env io ep (?r\<lparr>pf_mutex := True\<rparr>))
      (\<lambda>_ t. t = ?r\<lparr>pf_mutex := True\<rparr>)
      (\<lambda>e s'. ep_ok_less (if e = EIOCBQUEUED then d - 1 else d) s' \<and> same_file s s' \<and> (e = EIOCBQUEUED \<longrightarrow> io_aio io))"
    using post_mono [OF length_post [OF m, of env io ep]] r m
    by (auto simp: unlocked_less [OF r] ESHUTDOWN_def intro!: post_mono [OF length_post [OF m, of env io ep]])
  have "transfer_post d io s (bindS (if halt then (Ok (- 22), ?r\<lparr>pf_mutex := True\<rparr>) else epfile_length env io ep (?r\<lparr>pf_mutex := True\<rparr>))
      (\<lambda>data_len s. epfile_queue env io ep halt data_len (reconnect (unlocked env) s)))"
    by (rule post_bindS [OF len]) (simp add: queue)
  then show ?thesis
    using False r by (auto simp: epfile_transfer_def halt_def epfile_mutex_lock_def Let_def ep_ok_less_def)
qed

lemma ep_env_ok_same:
  assumes "pf_gadget t = pf_gadget s" and "pf_fn t = pf_fn s"
  shows "ep_env_ok env t = ep_env_ok env s"
proof -
  have "connects t = connects s" by (rule ext) (simp add: connects_def assms)
  then show ?thesis by (simp only: ep_env_ok_def)
qed

lemma iorw_ok:
  assumes s: "ep_ok_less d s" and env: "ep_env_ok env s" and area: "generic_find_memory_area (io_buf io) (io_len io) s \<noteq> None"
    and q: "io_aio io \<Longrightarrow> queue_ret env = 0"
  shows "transfer_post d io s (ffs_epfile_iorw env io s)"
proof (cases "ef_ep (pf_file s)")
  case (Some ep)
  then have "pf_gadget s" using ep_ok_connects [OF s] by (simp add: connects_def)
  then show ?thesis using transfer_ok [OF s env area q] s Some by (simp add: ffs_epfile_iorw_def)
next
  case None
  show ?thesis
  proof (cases "ep_nonblock env \<or> connected env = None")
    case True
    then show ?thesis using s None by (auto simp: ffs_epfile_iorw_def)
  next
    case False
    then obtain ep dir isoc where con: "connected env = Some (ep, dir, isoc)" by (cases "connected env") auto
    let ?t = "s\<lparr>pf_file := (pf_file s)\<lparr>ef_ep := Some ep, ef_in := dir, ef_isoc := isoc\<rparr>\<rparr>"
    have ep: "connects s (Some ep)" using env con by (auto simp: ep_env_ok_def)
    have "ep_ok_less d ?t" using s ep by (simp add: ep_ok_less_def connects_def)
    moreover have "ep_env_ok env ?t" using env ep_env_ok_same [of ?t s] by simp
    moreover have "generic_find_memory_area (io_buf io) (io_len io) ?t \<noteq> None" using area by (simp add: generic_find_memory_area_def)
    moreover have "pf_gadget ?t" using ep by (simp add: connects_def)
    ultimately have "transfer_post d io ?t (epfile_transfer env io ep ?t)" using q by (intro transfer_ok) simp_all
    then have "transfer_post d io s (epfile_transfer env io ep ?t)" by (rule post_mono) (simp_all add: same_file_def)
    then show ?thesis using None False con s by (simp add: ffs_epfile_iorw_def)
  qed
qed

subsection \<open>Control calls on mapped buffers of a connected file\<close>

text \<open>
  What the caller has to see to, as the code does not: buffers are mapped, calls that use the endpoint
  find the file connected, the endpoint has a descriptor for the speed of the gadget that lies inside of
  the function's copy, the queue is not made twice, and the controller takes the asynchronous requests
  it is given.
\<close>

definition shows_desc :: "epfile_io \<Rightarrow> bool" where
  "shows_desc s \<longleftrightarrow> pf_index s < length (fn_eps (pf_fn s)) \<and>
     (\<exists>p. ep_descs (fn_eps (pf_fn s) ! pf_index s) ! (if pf_super s then 2 else 1) = Some p \<and>
        p < length (fn_raw (pf_fn s)) \<and> p + unat (fn_raw (pf_fn s) ! p) \<le> length (fn_raw (pf_fn s)))"

lemma shows_desc_ok: "shows_desc s \<Longrightarrow> \<exists>bs. ep_desc s = Ok bs"
  by (auto simp: shows_desc_def ep_desc_def)

definition is_mapped :: "u64 \<Rightarrow> u32 \<Rightarrow> epfile_io \<Rightarrow> bool" where
  "is_mapped buf len s \<longleftrightarrow> generic_find_memory_area buf len s \<noteq> None"

fun ep_call_ok :: "ep_env \<Rightarrow> ep_ioctl \<Rightarrow> epfile_io \<Rightarrow> bool" where
  "ep_call_ok env EP_QUEUE_INIT s \<longleftrightarrow> \<not> is_Fifo (pf_fifo s)"
| "ep_call_ok env (EP_RELEASE_BUF buf len) s \<longleftrightarrow> ep_copy_ok env \<and> is_mapped buf len s"
| "ep_call_ok env (EP_READ io) s \<longleftrightarrow> is_mapped (io_buf io) (io_len io) s \<and> (io_aio io \<longrightarrow> queue_ret env = 0)"
| "ep_call_ok env (EP_WRITE io) s \<longleftrightarrow> is_mapped (io_buf io) (io_len io) s \<and> (io_aio io \<longrightarrow> queue_ret env = 0)"
| "ep_call_ok env (EP_RW_CANCEL buf len) s \<longleftrightarrow> is_mapped buf len s \<and> (ef_ep (pf_file s) \<noteq> None \<longrightarrow> locking env (ef_ep (pf_file s)) \<noteq> None)"
| "ep_call_ok env (EP_GET_REQ_STATUS buf len) s \<longleftrightarrow> is_mapped buf len s \<and> (ef_ep (pf_file s) \<noteq> None \<longrightarrow> locking env (ef_ep (pf_file s)) \<noteq> None)"
| "ep_call_ok env FIFO_STATUS s \<longleftrightarrow> ef_ep (pf_file s) \<noteq> None"
| "ep_call_ok env FIFO_FLUSH s \<longleftrightarrow> ef_ep (pf_file s) \<noteq> None"
| "ep_call_ok env CLEAR_HALT s \<longleftrightarrow> ef_ep (pf_file s) \<noteq> None"
| "ep_call_ok env EP_REVMAP s \<longleftrightarrow> ef_ep (pf_file s) \<noteq> None"
| "ep_call_ok env EP_DESC s \<longleftrightarrow> shows_desc s"
| "ep_call_ok env _ s \<longleftrightarrow> True"

text \<open>What a call keeps: everything but the areas, the queue and the connection.\<close>

definition same_func :: "epfile_io \<Rightarrow> epfile_io \<Rightarrow> bool" where
  "same_func s s' \<longleftrightarrow> pf_st s' = pf_st s \<and> pf_gadget s' = pf_gadget s \<and> pf_super s' = pf_super s \<and> pf_fn s' = pf_fn s \<and> pf_index s' = pf_index s"

lemma same_func_refl [simp]: "same_func s s"
  by (simp add: same_func_def)

lemma same_file_func: "same_file s s' \<Longrightarrow> same_func s s'"
  by (simp add: same_file_def same_func_def)

abbreviation call_post :: "epfile_io \<Rightarrow> 'a res \<times> epfile_io \<Rightarrow> bool" where
  "call_post s p \<equiv> post p (\<lambda>_ s'. ep_ok s' \<and> same_func s s') (\<lambda>_ s'. ep_ok s' \<and> same_func s s')"

lemma ep_ok_mem [simp]: "ep_ok_less d (s\<lparr>pf_mem := pf_mem s + n\<rparr>) = ep_ok_less (d - n) s"
  "ep_ok_less d (s\<lparr>pf_mem := pf_mem s - n\<rparr>) = ep_ok_less (d + n) s"
  by (auto simp: ep_ok_less_def connects_def)

lemma lock_unlock: "\<not> eps_lock s \<Longrightarrow> eps_unlock (s\<lparr>eps_lock := True\<rparr>) = s"
  by (simp add: eps_unlock_def)

lemma ep_ok_lock: "ep_ok_less d s \<Longrightarrow> eps_lock_take s = (Ok (), s\<lparr>eps_lock := True\<rparr>) \<and> eps_unlock (s\<lparr>eps_lock := True\<rparr>) = s"
  by (simp add: ep_ok_less_def eps_lock_take_def eps_unlock_def)

lemma rw_ok:
  assumes s: "ep_ok s" and env: "ep_env_ok env s" and m: "is_mapped (io_buf io) (io_len io) s" and q: "io_aio io \<longrightarrow> queue_ret env = 0"
  shows "call_post s (ep_ioctl_rw env io s)"
proof -
  let ?d = "if io_aio io then 1 else 0 :: int"
  let ?t = "if io_aio io then s\<lparr>pf_mem := pf_mem s + 1\<rparr> else s"
  have t: "ep_ok_less ?d ?t" "ep_env_ok env ?t" "generic_find_memory_area (io_buf io) (io_len io) ?t \<noteq> None"
    using s env m ep_env_ok_same [of ?t s] by (simp_all add: is_mapped_def generic_find_memory_area_def)
  have same: "same_file ?t s' \<Longrightarrow> same_func s s'" for s' by (simp add: same_file_def same_func_def split: if_splits)
  have io: "transfer_post ?d io ?t (ffs_epfile_iorw env io ?t)" using iorw_ok [OF t] q by blast
  have "call_post s (bindE (ffs_epfile_iorw env io ?t) (rw_answer io))"
    by (rule bindE_post [OF io]) (auto simp: rw_answer_def same_func_def dest: same)
  moreover have "eps_unlock (if io_aio io then s\<lparr>eps_lock := True, pf_mem := pf_mem s + 1\<rparr> else s\<lparr>eps_lock := True\<rparr>) = ?t"
    using s by (simp add: ep_ok_less_def eps_unlock_def)
  ultimately show ?thesis
    using s env ep_ok_lock [OF s] by (cases "io_aio io") (simp_all add: ep_ioctl_rw_def ep_env_ok_def Let_def)
qed


lemma find_request_found: "list_all (\<lambda>r. \<not> rq_freed r) rs \<Longrightarrow> \<exists>r. find_request buf rs = Ok r"
  by (induction buf rs rule: find_request.induct) auto

lemma find_ok:
  assumes s: "ep_ok s" and env: "ep_env_ok env s" and m: "is_mapped buf len s"
    and con: "ef_ep (pf_file s) \<noteq> None \<longrightarrow> locking env (ef_ep (pf_file s)) \<noteq> None" and f: "\<And>r. f r \<noteq> Fault"
  shows "call_post s (ep_find env buf len f s)"
proof -
  let ?r = "reconnect (locking env) s"
  have r: "ep_ok ?r" using ep_ok_reconnect [OF s] env ep_ok_connects [OF s] by (simp add: ep_env_ok_def)
  have same: "same_func s ?r" by (simp add: same_func_def reconnect_def)
  obtain a where a: "generic_find_memory_area buf len (?r\<lparr>eps_lock := True\<rparr>) = Some a"
    using m by (auto simp: is_mapped_def generic_find_memory_area_def reconnect_def)
  have "list_all (\<lambda>r. \<not> rq_freed r) (pf_reqs ?r)" using r by (simp add: ep_ok_less_def)
  then obtain q where q: "find_request (kernel_address a buf) (pf_reqs ?r) = Ok q" using find_request_found by blast
  have ep: "ef_ep (pf_file s) = Some e \<Longrightarrow> \<exists>e'. ef_ep (pf_file ?r) = Some e'" for e using con by (auto simp: reconnect_def)
  have ans: "call_post s (f x, ?r)" for x using r same f [of x] by (cases "f x") simp_all
  show ?thesis
    using ep_ok_lock [OF r] r same a q ep ans by (cases q; cases "ef_ep (pf_file s)") (auto simp: ep_find_def Let_def)
qed

lemma with_ep_ok:
  assumes s: "ep_ok s" and ep: "ef_ep (pf_file s) \<noteq> None" and f: "\<And>ep. f ep \<noteq> Fault"
  shows "call_post s (with_ep f (s\<lparr>eps_lock := True\<rparr>))"
proof -
  obtain e where e: "ef_ep (pf_file s) = Some e" using ep by blast
  show ?thesis using ep_ok_lock [OF s] s e f [of e] by (cases "f e") (simp_all add: with_ep_def)
qed

lemma answer_no_fault [simp]: "answer_number n \<noteq> Fault"
  by (simp add: answer_number_def)

lemma find_area_in: "generic_find_memory_area buf len s = Some m \<Longrightarrow> m \<in> set (pf_areas s)"
  by (auto simp: generic_find_memory_area_def find_Some_iff)

lemma ep_desc_lock: "ep_desc (s\<lparr>eps_lock := True\<rparr>) = ep_desc s"
  by (simp add: ep_desc_def split: option.split)

theorem ioctl_ok:
  assumes s: "ep_ok s" and env: "ep_env_ok env s" and c: "ep_call_ok env cmd s"
  shows "call_post s (ffs_epfile_ioctl env cmd s)"
proof (cases "pf_st s = FFS_ACTIVE")
  case False
  then show ?thesis using s by (simp add: ffs_epfile_ioctl_def)
next
  case True
  note lock = ep_ok_lock [OF s]
  show ?thesis
  proof (cases cmd)
    case EP_QUEUE_INIT
    then show ?thesis using True s c lock by (auto simp: ffs_epfile_ioctl_def eps_unlock_def ep_ok_less_def connects_def same_func_def)
  next
    case EP_QUEUE_DEL
    then show ?thesis using True s lock by (auto simp: ffs_epfile_ioctl_def eps_unlock_def ep_ok_less_def connects_def same_func_def)
  next
    case (EP_RELEASE_BUF buf len)
    then obtain m where m: "generic_find_memory_area buf len (s\<lparr>eps_lock := True\<rparr>) = Some m"
      using c by (auto simp: is_mapped_def generic_find_memory_area_def)
    have area: "m \<in> set (pf_areas s)" using find_area_in [OF m] by simp
    then have "1 \<le> length (pf_areas s)" using length_pos_if_in_set [OF area] by linarith
    then have "ep_ok (s\<lparr>pf_areas := remove1 m (pf_areas s), pf_mem := pf_mem s - 2, eps_lock := False\<rparr>)"
      using s area by (simp add: ep_ok_less_def connects_def length_remove1 of_nat_diff)
    then show ?thesis
      using EP_RELEASE_BUF True c m lock by (simp add: ffs_epfile_ioctl_def same_func_def) (simp add: eps_unlock_def)
  next
    case EP_DESC
    then obtain bs where "ep_desc s = Ok bs" using c shows_desc_ok by auto
    then show ?thesis using EP_DESC True s lock ep_desc_lock [of s] by (auto simp: ffs_epfile_ioctl_def)
  qed (use True s c env lock with_ep_ok [OF s] in \<open>auto simp: ffs_epfile_ioctl_def intro!: rw_ok find_ok\<close>)
qed

subsection \<open>Every call keeps the file in order\<close>

lemma mmap_ok: "ep_ok s \<Longrightarrow> call_post s (ffs_epfile_mmap mem_ok node_ok remap_ok virt lo hi s)"
  by (simp add: ffs_epfile_mmap_def eps_lock_take_def ep_ok_less_def connects_def eps_unlock_def same_func_def)

lemma read_ok: "ep_ok s \<Longrightarrow> call_post s (ffs_epfile_read env count s)"
  by (auto simp: ffs_epfile_read_def eps_lock_take_def ep_ok_less_def connects_def eps_unlock_def same_func_def kfifo_is_empty_def split: kfifo.split)

text \<open>A completion needs the byte queue.\<close>

lemma task_ok:
  assumes s: "ep_ok s" and i: "i < length (pf_reqs s)" and fifo: "is_Fifo (pf_fifo s)"
  shows "call_post s (epfile_task_proc i status actual s)"
proof -
  obtain bs where bs: "pf_fifo s = Fifo bs" using fifo by (cases "pf_fifo s") auto
  have live: "\<not> rq_freed (pf_reqs s ! i)" using s i by (simp add: ep_ok_less_def list_all_length)
  have "list_all (\<lambda>r. \<not> rq_freed r) (take i (pf_reqs s) @ drop (Suc i) (pf_reqs s))"
    using s by (auto simp: ep_ok_less_def list_all_iff dest: in_set_takeD in_set_dropD)
  then show ?thesis
    using s i bs live
    by (simp add: epfile_task_proc_def eps_lock_take_def ep_ok_less_def connects_def eps_unlock_def same_func_def Let_def min_def of_nat_diff) arith
qed

lemma reconnect_ok: "ep_ok s \<Longrightarrow> connects s (f (ef_ep (pf_file s))) \<Longrightarrow> ep_ok (reconnect f s)"
  by (rule ep_ok_reconnect)

text \<open>
  Runs of a file: control calls that satisfy \<open>ep_call_ok\<close>, mappings and reads of user space, completions of
  requests in any order while there is a queue, and the hooks of the gadget, which connect and
  disconnect the file.
\<close>

inductive ep_step :: "epfile_io \<Rightarrow> epfile_io \<Rightarrow> bool" where
  by_ioctl: "ep_env_ok env s \<Longrightarrow> ep_call_ok env cmd s \<Longrightarrow> ep_step s (snd (ffs_epfile_ioctl env cmd s))"
| by_mmap: "ep_step s (snd (ffs_epfile_mmap mem_ok node_ok remap_ok virt lo hi s))"
| by_read: "ep_step s (snd (ffs_epfile_read env count s))"
| by_completion: "i < length (pf_reqs s) \<Longrightarrow> is_Fifo (pf_fifo s) \<Longrightarrow> ep_step s (snd (epfile_task_proc i status actual s))"
| by_hook: "connects s (f (ef_ep (pf_file s))) \<Longrightarrow> ep_step s (reconnect f s)"

inductive ep_reachable :: "epfile_io \<Rightarrow> epfile_io \<Rightarrow> bool" for s0 where
  start: "ep_reachable s0 s0"
| step: "ep_reachable s0 s \<Longrightarrow> ep_step s s' \<Longrightarrow> ep_reachable s0 s'"

lemma ep_step_ok: "ep_step s s' \<Longrightarrow> ep_ok s \<Longrightarrow> ep_ok s' \<and> same_func s s'"
proof (induction rule: ep_step.induct)
  case (by_ioctl env s cmd)
  then show ?case using postD(2) [OF ioctl_ok [of s env cmd]] by simp
next
  case (by_mmap s mem_ok node_ok remap_ok virt lo hi)
  then show ?case using postD(2) [OF mmap_ok [of s]] by blast
next
  case (by_read s env count)
  then show ?case using postD(2) [OF read_ok [of s]] by blast
next
  case (by_completion i s status actual)
  then show ?case using postD(2) [OF task_ok [of s i]] by blast
next
  case (by_hook s f)
  then show ?case by (simp add: reconnect_ok) (simp add: same_func_def reconnect_def)
qed

lemma same_func_trans: "same_func s t \<Longrightarrow> same_func t u \<Longrightarrow> same_func s u"
  by (simp add: same_func_def)

lemma ep_reachable_ok: "ep_reachable s0 s \<Longrightarrow> ep_ok s0 \<Longrightarrow> ep_ok s \<and> same_func s0 s"
  by (induction rule: ep_reachable.induct) (auto dest: ep_step_ok same_func_trans)

end
