(* ===== verification/Ffs_Bind_Walk.thy ===== *)
theory Ffs_Bind_Walk
  imports Ffs_Bind
begin

section \<open>Generic USB function: the walk over the descriptors that are rewritten\<close>

text \<open>
  What a pass of \<open>ffs_do_descs\<close> over positions does, once for both callbacks of the binding: the
  locale \<open>desc_pass\<close> states what a callback has to promise for one descriptor, and proves what the
  whole pass leaves. Then the second pass, \<open>__ffs_func_bind_do_nums\<close>, as its first interpretation.
\<close>

subsection \<open>The walk on positions\<close>

lemma rd8_in: "fn_raw s = pre @ data \<Longrightarrow> i < length data \<Longrightarrow> rd8 (length pre + i) f s = f (data ! i) s"
  by (simp add: rd8_def nth_append)

text \<open>The values a descriptor has entities at.\<close>

definition desc_fields :: "u8 list \<Rightarrow> ((u8 \<Rightarrow> ffs_entity) \<times> nat) list" where
  "desc_fields d =
     (if length d < 2 then []
      else if d ! 1 = USB_DT_INTERFACE then (FFS_INTERFACE, 2) # (if d ! 8 = 0 then [] else [(FFS_STRING, 8)])
      else if d ! 1 = USB_DT_ENDPOINT then [(FFS_ENDPOINT, 2)]
      else if d ! 1 = USB_DT_INTERFACE_ASSOCIATION then (if d ! 7 = 0 then [] else [(FFS_STRING, 7)])
      else [])"

fun run_fields :: "at_callback \<Rightarrow> nat \<Rightarrow> ((u8 \<Rightarrow> ffs_entity) \<times> nat) list \<Rightarrow> ffs_function \<Rightarrow> unit res \<times> ffs_function" where
  "run_fields cb ds [] s = (Ok (), s)"
| "run_fields cb ds ((t, p) # fs) s = bindS (do_entity_at cb t (ds + p) ds s) (\<lambda>_. run_fields cb ds fs)"

text \<open>A callback that writes only the value it is given.\<close>

locale field_callback =
  fixes cb :: at_callback
  assumes same_size: "length (fn_raw (snd (cb e p d s))) = length (fn_raw s)"
    and only_value: "(\<And>n. e \<noteq> FFS_DESCRIPTOR n) \<Longrightarrow> i \<noteq> p \<Longrightarrow> fn_raw (snd (cb e p d s)) ! i = fn_raw s ! i"
begin

lemma entity_frame:
  assumes "do_entity_at cb t p ds s = (Ok x, s')" and "\<And>v n. t v \<noteq> FFS_DESCRIPTOR n"
  shows "length (fn_raw s') = length (fn_raw s)" and "i \<noteq> p \<Longrightarrow> fn_raw s' ! i = fn_raw s ! i"
proof -
  let ?v = "fn_raw s ! p"
  have s': "s' = snd (cb (t ?v) p (Some ds) s)"
    using assms(1) by (auto simp: do_entity_at_def rd8_def split: if_splits)
  show "length (fn_raw s') = length (fn_raw s)" unfolding s' by (rule same_size)
  show "i \<noteq> p \<Longrightarrow> fn_raw s' ! i = fn_raw s ! i" unfolding s' using assms(2) by (intro only_value)
qed

lemma single_desc_at_eq:
  assumes raw: "fn_raw s = pre @ data"
  shows "single_desc_at cb (length pre) (length data) s =
     (if desc_wf data
      then bindS (run_fields cb (length pre) (desc_fields (take (unat (data ! 0)) data)) s)
                 (\<lambda>_ s. (Ok (unat (data ! 0)), s))
      else (Err EINVAL, s))"
proof (cases "2 \<le> length data \<and> unat (data ! 0) \<le> length data")
  case False
  have "rd8 (length pre) f s = f (data ! 0) s" if "\<not> length data < 2" for f :: "u8 \<Rightarrow> ffs_function \<Rightarrow> nat res \<times> ffs_function"
    using rd8_in [OF raw, of 0 f] that by (cases data) auto
  then show ?thesis
    using False by (cases "length data < 2") (simp_all add: single_desc_at_def desc_wf_def not_le)
next
  case True
  define l ty where "l = data ! 0" and "ty = data ! Suc 0"
  have len: "\<not> length data < 2" "\<not> length data < unat l" "2 \<le> length data" "unat l \<le> length data"
    using True by (auto simp: l_def)
  have rd0: "rd8 (length pre) f s = f l s" for f :: "u8 \<Rightarrow> ffs_function \<Rightarrow> nat res \<times> ffs_function"
    using rd8_in [OF raw, of 0 f] True by (cases data) (auto simp: l_def)
  have rd1: "rd8 (length pre + 1) f s = f ty s" for f :: "u8 \<Rightarrow> ffs_function \<Rightarrow> nat res \<times> ffs_function"
    using rd8_in [OF raw, of 1 f] True by (simp add: ty_def)
  note base = single_desc_at_def desc_wf_def rd0 rd1 rd1 [simplified] len l_def [symmetric] ty_def [symmetric]
  have fields: "desc_fields (take n data) = desc_fields data"
    if "2 \<le> n" "n \<le> length data" "ty = USB_DT_INTERFACE \<Longrightarrow> n = 9" "ty = USB_DT_ENDPOINT \<Longrightarrow> 7 \<le> n"
      "ty = USB_DT_INTERFACE_ASSOCIATION \<Longrightarrow> n = 8" for n
    using that by (auto simp: desc_fields_def ty_def)
  have none: "desc_fields (take n data) = []"
    if "ty \<noteq> USB_DT_INTERFACE" "ty \<noteq> USB_DT_ENDPOINT" "ty \<noteq> USB_DT_INTERFACE_ASSOCIATION" for n
    using that by (simp add: desc_fields_def ty_def)
  consider (iface) "ty = USB_DT_INTERFACE" | (ep) "ty = USB_DT_ENDPOINT" | (assoc) "ty = USB_DT_INTERFACE_ASSOCIATION"
    | (plain) "ty \<noteq> USB_DT_INTERFACE" "ty \<noteq> USB_DT_ENDPOINT" "ty \<noteq> USB_DT_INTERFACE_ASSOCIATION" by blast
  then show ?thesis
  proof cases
    case iface
    show ?thesis
    proof (cases "l = 9")
      case True
      then have le: "9 \<le> length data" "8 < length data" using len by auto
      have second: "rd8 (length pre + 8) f s' = f (data ! 8) s'"
        if "do_entity_at cb FFS_INTERFACE (length pre + 2) (length pre) s = (Ok x, s')"
        for x s' and f :: "u8 \<Rightarrow> ffs_function \<Rightarrow> nat res \<times> ffs_function"
        using entity_frame [OF that] le raw by (simp add: rd8_def nth_append)
      have es: "desc_fields (take 9 data) = desc_fields data" using True iface le by (intro fields) auto
      show ?thesis
        using iface le
        by (auto simp add: base True desc_lengths_def es desc_fields_def bindS_assoc ty_def [symmetric] second intro!: bindS_cong
            simp del: length_0_conv)
    next
      case False
      then show ?thesis using iface by (simp add: base desc_lengths_def unat_u8_eq)
    qed
  next
    case ep
    show ?thesis
    proof (cases "l = 7 \<or> l = 9")
      case True
      then have le: "7 \<le> unat l" "2 < length data" using len by auto
      then show ?thesis
        using True ep len fields [of "unat l"]
        by (auto simp add: base desc_lengths_def desc_fields_def bindS_assoc bindS_unit unat_u8_eq)
    next
      case False
      then show ?thesis using ep by (simp add: base desc_lengths_def unat_u8_eq)
    qed
  next
    case assoc
    show ?thesis
    proof (cases "l = 8")
      case True
      then have le: "7 < length data" "8 \<le> length data" using len by auto
      have es: "desc_fields (take 8 data) = (if data ! 7 = 0 then [] else [(FFS_STRING, 7)])"
        using assoc le len by (simp add: desc_fields_def ty_def)
      show ?thesis
        by (simp add: base desc_lengths_def True assoc es rd8_in [OF raw le(1)])
           (simp add: bindS_assoc)
    next
      case False
      then show ?thesis using assoc by (simp add: base desc_lengths_def unat_u8_eq)
    qed
  next
    case plain
    then show ?thesis by (auto simp: base desc_lengths_def none unat_u8_eq)
  qed
qed

end

lemma split_descs_length: "split_descs k data = Some (ds, rest) \<Longrightarrow> data = concat ds @ rest"
proof (induction k arbitrary: data ds)
  case (Suc k)
  then obtain cs where ds: "ds = take (unat (data ! 0)) data # cs"
    and cs: "split_descs k (drop (unat (data ! 0)) data) = Some (cs, rest)" by (auto split: if_splits)
  show ?case using Suc.IH [OF cs] unfolding ds by (metis append.assoc append_take_drop_id concat.simps(2))
qed simp

text \<open>
  A pass over the descriptors \<open>ds\<close> that begin at the position \<open>base\<close>: \<open>Q\<close> holds before each
  descriptor, \<open>Q1\<close> between the callback for the descriptor and those for its entities, \<open>fin\<close> in the
  end; \<open>R1\<close> and \<open>R\<close> relate a descriptor to what becomes of it, and stay true in later states, which
  are above the earlier ones. An error may end the pass anywhere.
\<close>

definition pos_of :: "nat \<Rightarrow> u8 list list \<Rightarrow> nat \<Rightarrow> nat" where
  "pos_of base ds i = base + length (concat (take i ds))"

definition head_kept :: "u8 list \<Rightarrow> u8 list \<Rightarrow> bool" where
  "head_kept d d' \<longleftrightarrow> length d' = length d \<and> take 2 d' = take 2 d"

lemma pos_of_Suc: "i < length ds \<Longrightarrow> pos_of base ds (Suc i) = pos_of base ds i + length (ds ! i)"
  by (simp add: pos_of_def take_Suc_conv_app_nth)

locale desc_pass = field_callback cb for cb :: at_callback +
  fixes ds :: "u8 list list" and base :: nat and Q Q1 :: "nat \<Rightarrow> ffs_function \<Rightarrow> bool"
    and fin :: "ffs_function \<Rightarrow> bool" and le :: "ffs_function \<Rightarrow> ffs_function \<Rightarrow> bool"
    and R1 R :: "ffs_function \<Rightarrow> u8 list \<Rightarrow> u8 list \<Rightarrow> bool"
  assumes keeps_head: "R1 s d d1 \<Longrightarrow> head_kept d d1"
    and keeps_size: "R s d d' \<Longrightarrow> length d' = length d"
    and le_trans: "le s1 s2 \<Longrightarrow> le s2 s3 \<Longrightarrow> le s1 s3"
    and R_mono: "R s d d' \<Longrightarrow> le s s' \<Longrightarrow> R s' d d'"
    and first: "num < length ds \<Longrightarrow> length pre = pos_of base ds num \<Longrightarrow> fn_raw s = pre @ ds ! num @ rest
      \<Longrightarrow> desc_wf (ds ! num @ rest) \<Longrightarrow> length (ds ! num) = unat ((ds ! num @ rest) ! 0) \<Longrightarrow> Q num s
      \<Longrightarrow> post (cb (FFS_DESCRIPTOR num) 0 (Some (length pre)) s)
        (\<lambda>_ s'. le s s' \<and> Q1 num s' \<and> (\<exists>d1. fn_raw s' = pre @ d1 @ rest \<and> R1 s' (ds ! num) d1)) (\<lambda>_ _. True)"
    and second: "num < length ds \<Longrightarrow> fn_raw s = pre @ d1 @ rest
      \<Longrightarrow> desc_wf (d1 @ rest) \<Longrightarrow> length d1 = unat ((d1 @ rest) ! 0) \<Longrightarrow> R1 s (ds ! num) d1 \<Longrightarrow> Q1 num s
      \<Longrightarrow> post (run_fields cb (length pre) (desc_fields d1) s)
        (\<lambda>_ s'. le s s' \<and> Q (Suc num) s' \<and> (\<exists>d'. fn_raw s' = pre @ d' @ rest \<and> R s' (ds ! num) d')) (\<lambda>_ _. True)"
    and last: "Q (length ds) s \<Longrightarrow> post (cb (FFS_DESCRIPTOR (length ds)) 0 None s)
        (\<lambda>_ s'. fn_raw s' = fn_raw s \<and> le s s' \<and> fin s') (\<lambda>_ _. True)"
begin

text \<open>What the rest of the pass, from the descriptor \<open>num\<close> on, leaves.\<close>

definition walked :: "u8 list \<Rightarrow> nat \<Rightarrow> u8 list \<Rightarrow> ffs_function \<Rightarrow> nat \<Rightarrow> ffs_function \<Rightarrow> bool" where
  "walked pre num rest s p s' \<longleftrightarrow> p = pos_of base ds (length ds) \<and> fin s' \<and> le s s'
     \<and> (\<exists>ds'. fn_raw s' = pre @ concat ds' @ rest \<and> list_all2 (R s') (drop num ds) ds')"

lemma walked_step:
  assumes "walked (pre @ d') (Suc num) rest s2 p s3" and "num < length ds" and "le s s2" and "R s2 (ds ! num) d'"
  shows "walked pre num rest s p s3"
proof -
  from assms(1) obtain ds' where ds': "fn_raw s3 = (pre @ d') @ concat ds' @ rest" "list_all2 (R s3) (drop (Suc num) ds) ds'"
    and p: "p = pos_of base ds (length ds)" "fin s3" "le s2 s3" by (auto simp: walked_def)
  have "list_all2 (R s3) (drop num ds) (d' # ds')"
    using ds' p(3) assms(2,4) R_mono by (auto simp: Cons_nth_drop_Suc [symmetric])
  moreover have "fn_raw s3 = pre @ concat (d' # ds') @ rest" using ds' by simp
  ultimately show ?thesis unfolding walked_def using p assms(3) le_trans by blast
qed

lemma walk:
  "split_descs k data = Some (drop num ds, rest) \<Longrightarrow> num + k = length ds \<Longrightarrow> length pre = pos_of base ds num
     \<Longrightarrow> fn_raw s = pre @ data \<Longrightarrow> Q num s
     \<Longrightarrow> post (descs_at_loop cb k num (length pre) (length data) s) (walked pre num rest s) (\<lambda>_ _. True)"
proof (induction k arbitrary: num pre data s)
  case 0
  then have data: "data = rest" and num: "num = length ds" by auto
  have "Q (length ds) s" using 0 by simp
  from last [OF this] show ?case
    unfolding descs_at_loop.simps num data
    by (rule post_bindS) (use 0 in \<open>auto simp: walked_def\<close>)
next
  case (Suc k)
  define n d more where "n = unat (data ! 0)" and "d = ds ! num" and "more = drop n data"
  have num: "num < length ds" using Suc.prems(2) by simp
  then have drop: "drop num ds = d # drop (Suc num) ds" by (simp add: Cons_nth_drop_Suc d_def)
  from Suc.prems(1) have wf: "desc_wf data" and d: "d = take n data"
    and cs: "split_descs k more = Some (drop (Suc num) ds, rest)"
    unfolding drop by (auto simp: more_def n_def split: if_splits)
  have len: "length d = n" "n \<le> length data" using wf by (auto simp: d desc_wf_def n_def)
  have data: "data = d @ more" by (simp add: d more_def)
  have step: "post (bindS (single_desc_at cb (length pre) (length data) s1)
        (\<lambda>ret s. if length data < ret then (Fault, s) else descs_at_loop cb k (Suc num) (length pre + ret) (length data - ret) s))
       (walked pre num rest s) (\<lambda>_ _. True)"
    if s1: "fn_raw s1 = pre @ d1 @ more" "R1 s1 d d1" "Q1 num s1" and le: "le s s1" for s1 d1
  proof -
    have kept: "length d1 = n" "take 2 d1 = take 2 d" using keeps_head [OF s1(2)] len by (simp_all add: head_kept_def)
    have two: "take 2 (d1 @ more) = take 2 data" using kept len data by simp
    then have nth: "(d1 @ more) ! 0 = data ! 0" "(d1 @ more) ! 1 = data ! 1"
      using two nth_take [of 0 2 data] nth_take [of 0 2 "d1 @ more"] nth_take [of 1 2 data] nth_take [of 1 2 "d1 @ more"]
      by (simp_all del: take_append nth_take)
    have same: "length (d1 @ more) = length data" using kept len by (simp add: data)
    have wf1: "desc_wf (d1 @ more)" using wf unfolding desc_wf_def nth same .
    have n1: "length d1 = unat ((d1 @ more) ! 0)" using kept nth by (simp add: n_def)
    have single: "single_desc_at cb (length pre) (length data) s1 =
        bindS (run_fields cb (length pre) (desc_fields d1) s1) (\<lambda>_ s. (Ok n, s))"
      using single_desc_at_eq [OF s1(1)] wf1 n1 same kept by simp
    have "post (run_fields cb (length pre) (desc_fields d1) s1)
        (\<lambda>_ s'. le s1 s' \<and> Q (Suc num) s' \<and> (\<exists>d'. fn_raw s' = pre @ d' @ more \<and> R s' (ds ! num) d')) (\<lambda>_ _. True)"
      using s1 wf1 n1 num by (intro second) (auto simp: d_def)
    moreover have "post (descs_at_loop cb k (Suc num) (length pre + n) (length data - n) s2) (walked pre num rest s) (\<lambda>_ _. True)"
      if s2: "fn_raw s2 = pre @ d2 @ more" "R s2 (ds ! num) d2" "Q (Suc num) s2" and le2: "le s1 s2" for s2 d2
    proof -
      have d2: "length d2 = n" using keeps_size [OF s2(2)] len by (simp add: d_def)
      have pos: "length (pre @ d2) = pos_of base ds (Suc num)" using Suc.prems(3) num d2 len by (simp add: pos_of_Suc d_def)
      have "post (descs_at_loop cb k (Suc num) (length (pre @ d2)) (length more) s2) (walked (pre @ d2) (Suc num) rest s2) (\<lambda>_ _. True)"
        using s2 Suc.prems(2) by (intro Suc.IH [OF cs _ pos]) auto
      then have "post (descs_at_loop cb k (Suc num) (length (pre @ d2)) (length more) s2) (walked pre num rest s) (\<lambda>_ _. True)"
        using walked_step num s2(2) le_trans [OF le le2] by (elim post_mono) blast+
      moreover have "length more = length data - n" using len by (simp add: more_def)
      ultimately show ?thesis using d2 by simp
    qed
    ultimately show ?thesis
      unfolding single bindS_assoc using len(2) by (elim post_bindS) auto
  qed
  have "post (cb (FFS_DESCRIPTOR num) 0 (Some (length pre)) s)
        (\<lambda>_ s'. le s s' \<and> Q1 num s' \<and> (\<exists>d1. fn_raw s' = pre @ d1 @ more \<and> R1 s' (ds ! num) d1)) (\<lambda>_ _. True)"
    using Suc.prems wf num len by (intro first) (auto simp: data d_def [symmetric] n_def)
  then show ?case unfolding descs_at_loop.simps using step by (elim post_bindS) (auto simp: d_def)
qed

end

subsection \<open>The second pass\<close>

lemma wr8_frame:
  "length (fn_raw (snd (wr8 p v s))) = length (fn_raw s)"
  "i \<noteq> p \<Longrightarrow> fn_raw (snd (wr8 p v s)) ! i = fn_raw s ! i"
  by (simp_all add: wr8_def)

interpretation nums_fields: field_callback "bind_do_nums env" for env
  by unfold_locales (auto simp: bind_do_nums_def Let_def wr8_frame split: ffs_entity.split list.split)

text \<open>What the fields of a descriptor must be for the second pass not to leave its tables.\<close>

definition field_ok :: "nat \<Rightarrow> nat \<Rightarrow> ffs_entity \<Rightarrow> bool" where
  "field_ok ifs strs e = (case e of FFS_INTERFACE v \<Rightarrow> unat v < ifs | FFS_STRING v \<Rightarrow> unat v \<le> strs | _ \<Rightarrow> True)"

definition fields_ok :: "nat \<Rightarrow> nat \<Rightarrow> u8 list \<Rightarrow> bool" where
  "fields_ok ifs strs d \<longleftrightarrow> (\<forall>(t, p) \<in> set (desc_fields d). field_ok ifs strs (t (d ! p)))"

text \<open>What the second pass makes of a descriptor, given the interface numbers and string identifiers.\<close>

definition new_value :: "int list \<Rightarrow> u8 list \<Rightarrow> ffs_entity \<Rightarrow> u8" where
  "new_value nums ids e = (case e of
     FFS_INTERFACE v \<Rightarrow> word_of_int (nums ! unat v)
   | FFS_STRING v \<Rightarrow> ids ! (unat v - 1)
   | FFS_ENDPOINT v \<Rightarrow> v
   | FFS_DESCRIPTOR n \<Rightarrow> 0)"

definition renumber :: "int list \<Rightarrow> u8 list \<Rightarrow> u8 list \<Rightarrow> u8 list" where
  "renumber nums ids d = fold (\<lambda>(t, p) d'. d'[p := new_value nums ids (t (d ! p))]) (desc_fields d) d"

definition first_ids :: "ffs_function \<Rightarrow> u8 list" where
  "first_ids s = (case fn_string_ids s of [] \<Rightarrow> [] | ids # _ \<Rightarrow> ids)"

text \<open>Numbers once given stay; nothing else changes but the copy of the descriptors.\<close>

definition nums_grow :: "ffs_function \<Rightarrow> ffs_function \<Rightarrow> bool" where
  "nums_grow s s' \<longleftrightarrow> length (fn_nums s') = length (fn_nums s)
     \<and> (\<forall>i < length (fn_nums s). fn_nums s ! i \<ge> 0 \<longrightarrow> fn_nums s' ! i = fn_nums s ! i)
     \<and> fn_string_ids s' = fn_string_ids s \<and> fn_eps s' = fn_eps s \<and> fn_revmap s' = fn_revmap s
     \<and> fn_fs s' = fn_fs s \<and> fn_hs s' = fn_hs s \<and> fn_ss s' = fn_ss s"

definition given :: "ffs_function \<Rightarrow> ffs_entity \<Rightarrow> bool" where
  "given s e \<longleftrightarrow> (case e of FFS_INTERFACE v \<Rightarrow> unat v < length (fn_nums s) \<and> fn_nums s ! unat v \<ge> 0 | _ \<Rightarrow> True)"

definition numbered :: "ffs_function \<Rightarrow> u8 list \<Rightarrow> u8 list \<Rightarrow> bool" where
  "numbered s d d' \<longleftrightarrow> d' = renumber (fn_nums s) (first_ids s) d \<and> (\<forall>(t, p) \<in> set (desc_fields d). given s (t (d ! p)))"

definition nums_inv :: "bind_env \<Rightarrow> u8 list list \<Rightarrow> nat \<Rightarrow> ffs_function \<Rightarrow> bool" where
  "nums_inv env ds num s \<longleftrightarrow> (\<forall>n. interface_id env n < 256)
     \<and> (\<forall>d \<in> set ds. fields_ok (length (fn_nums s)) (length (first_ids s)) d)"

lemma nums_grow_trans: "nums_grow s1 s2 \<Longrightarrow> nums_grow s2 s3 \<Longrightarrow> nums_grow s1 s3"
  by (simp add: nums_grow_def)

lemma nums_grow_ids: "nums_grow s s' \<Longrightarrow> first_ids s' = first_ids s"
  by (simp add: nums_grow_def first_ids_def)

lemma given_mono: "given s e \<Longrightarrow> nums_grow s s' \<Longrightarrow> given s' e"
  by (cases e) (auto simp: given_def nums_grow_def)

lemma new_value_mono: "given s e \<Longrightarrow> nums_grow s s' \<Longrightarrow> new_value (fn_nums s') ids e = new_value (fn_nums s) ids e"
  by (cases e) (auto simp: given_def nums_grow_def new_value_def)

lemma nums_inv_mono: "nums_inv env ds n s \<Longrightarrow> nums_grow s s' \<Longrightarrow> nums_inv env ds n' s'"
  by (simp add: nums_inv_def nums_grow_ids) (simp add: nums_grow_def)

lemma fold_cong_pairs:
  "(\<And>t p. (t, p) \<in> set fs \<Longrightarrow> f (t, p) = g (t, p)) \<Longrightarrow> fold f fs d = fold g fs d"
  by (induction fs arbitrary: d) auto

lemma numbered_mono:
  assumes "numbered s d d'" and le: "nums_grow s s'"
  shows "numbered s' d d'"
proof -
  have given: "(t, p) \<in> set (desc_fields d) \<Longrightarrow> given s (t (d ! p))" for t p
    using assms(1) by (auto simp: numbered_def)
  have "renumber (fn_nums s') (first_ids s') d = renumber (fn_nums s) (first_ids s) d"
    unfolding renumber_def nums_grow_ids [OF le]
    by (rule fold_cong_pairs) (simp add: new_value_mono [OF given le])
  then show ?thesis using assms(1) given given_mono [OF _ le] by (auto simp: numbered_def)
qed

lemma length_renumber: "length (renumber nums ids d) = length d"
proof -
  have "length (fold (\<lambda>(t, p) d'. d'[p := f t p]) fs x) = length x" for f :: "(u8 \<Rightarrow> ffs_entity) \<Rightarrow> nat \<Rightarrow> u8" and fs x
    by (induction fs arbitrary: x) (auto split: prod.splits)
  then show ?thesis by (simp add: renumber_def)
qed

lemma to_short_small: "0 \<le> n \<Longrightarrow> n < 256 \<Longrightarrow> to_short n = n"
  by (simp add: to_short_def signed_of_int signed_take_bit_int_eq_self)

text \<open>One field.\<close>

lemma nums_field:
  assumes raw: "fn_raw s = pre @ d' @ rest" and p: "p < length d'" and ok: "field_ok (length (fn_nums s)) (length (first_ids s)) (t (d' ! p))"
    and ids: "\<And>n. interface_id env n < 256" and t: "t = FFS_INTERFACE \<or> t = FFS_STRING \<or> t = FFS_ENDPOINT"
  shows "post (do_entity_at (bind_do_nums env) t (length pre + p) (length pre) s)
     (\<lambda>_ s'. nums_grow s s' \<and> given s' (t (d' ! p)) \<and> fn_raw s' = pre @ d'[p := new_value (fn_nums s') (first_ids s') (t (d' ! p))] @ rest)
     (\<lambda>_ _. True)"
proof -
  have here: "fn_raw s ! (length pre + p) = d' ! p" "length pre + p < length (fn_raw s)"
    using raw p by (simp_all add: nth_append)
  have upd: "(pre @ d' @ rest)[length pre + p := v] = pre @ d'[p := v] @ rest" for v
    using p by (simp add: list_update_append)
  consider (i) v where "t (d' ! p) = FFS_INTERFACE v" "t = FFS_INTERFACE" | (st) v where "t (d' ! p) = FFS_STRING v" "t = FFS_STRING"
    | (ep) v where "t (d' ! p) = FFS_ENDPOINT v" "t = FFS_ENDPOINT" using t by blast
  then show ?thesis
  proof cases
    case i
    have lt: "unat v < length (fn_nums s)" using ok i by (simp add: field_ok_def)
    have small: "interface_id env (fn_ids s) \<ge> 0 \<Longrightarrow> to_short (interface_id env (fn_ids s)) = interface_id env (fn_ids s)"
      using to_short_small ids by blast
    show ?thesis
      using i lt here raw small
      by (auto simp: do_entity_at_def rd8_def bind_do_nums_def wr8_def Let_def upd nums_grow_def given_def new_value_def
          nth_list_update)
  next
    case st
    have "unat v \<le> length (first_ids s)" using ok st by (simp add: field_ok_def)
    moreover have "v \<noteq> 0 \<Longrightarrow> unat v \<noteq> 0" by (simp add: unat_eq_0)
    ultimately show ?thesis
      using st here raw
      by (auto simp: do_entity_at_def rd8_def bind_do_nums_def wr8_def upd nums_grow_def given_def new_value_def
          first_ids_def split: list.splits)
  next
    case ep
    then show ?thesis
      using here raw
      by (auto simp: do_entity_at_def rd8_def bind_do_nums_def nums_grow_def given_def new_value_def)
  qed
qed

definition put_field :: "int list \<Rightarrow> u8 list \<Rightarrow> u8 list \<Rightarrow> (u8 \<Rightarrow> ffs_entity) \<times> nat \<Rightarrow> u8 list \<Rightarrow> u8 list" where
  "put_field nums ids d = (\<lambda>(t, p) d'. d'[p := new_value nums ids (t (d ! p))])"

lemma nums_fields_run:
  assumes ids: "\<And>n. interface_id env n < 256"
  shows "fn_raw s = pre @ d' @ rest \<Longrightarrow> distinct (map snd fs)
    \<Longrightarrow> (\<And>t p. (t, p) \<in> set fs \<Longrightarrow> p < length d' \<and> d' ! p = d ! p \<and> (t = FFS_INTERFACE \<or> t = FFS_STRING \<or> t = FFS_ENDPOINT)
        \<and> field_ok (length (fn_nums s)) (length (first_ids s)) (t (d ! p)))
    \<Longrightarrow> post (run_fields (bind_do_nums env) (length pre) fs s)
     (\<lambda>_ s'. nums_grow s s' \<and> (\<forall>(t, p) \<in> set fs. given s' (t (d ! p)))
        \<and> fn_raw s' = pre @ fold (put_field (fn_nums s') (first_ids s') d) fs d' @ rest)
     (\<lambda>_ _. True)"
proof (induction fs arbitrary: s d')
  case Nil
  then show ?case by (simp add: nums_grow_def)
next
  case (Cons f fs)
  obtain t p where f: "f = (t, p)" by (cases f)
  have head: "p < length d'" "d' ! p = d ! p" "t = FFS_INTERFACE \<or> t = FFS_STRING \<or> t = FFS_ENDPOINT"
    "field_ok (length (fn_nums s)) (length (first_ids s)) (t (d' ! p))"
    using Cons.prems(3) [of t p] by (auto simp: f)
  have rest: "post (run_fields (bind_do_nums env) (length pre) fs s1)
     (\<lambda>_ s'. nums_grow s s' \<and> (\<forall>(t, p) \<in> set (f # fs). given s' (t (d ! p)))
        \<and> fn_raw s' = pre @ fold (put_field (fn_nums s') (first_ids s') d) (f # fs) d' @ rest)
     (\<lambda>_ _. True)"
    if grow: "nums_grow s s1" and g: "given s1 (t (d ! p))"
      and raw: "fn_raw s1 = pre @ d'[p := new_value (fn_nums s1) (first_ids s1) (t (d ! p))] @ rest" for s1
  proof -
    have len: "length (fn_nums s1) = length (fn_nums s)" "first_ids s1 = first_ids s"
      using grow nums_grow_ids [OF grow] by (simp_all add: nums_grow_def)
    have "post (run_fields (bind_do_nums env) (length pre) fs s1)
     (\<lambda>_ s'. nums_grow s1 s' \<and> (\<forall>(t, p) \<in> set fs. given s' (t (d ! p)))
        \<and> fn_raw s' = pre @ fold (put_field (fn_nums s') (first_ids s') d) fs
             (d'[p := new_value (fn_nums s1) (first_ids s1) (t (d ! p))]) @ rest) (\<lambda>_ _. True)"
    proof (rule Cons.IH [OF raw])
      show "distinct (map snd fs)" using Cons.prems(2) by simp
    next
      fix t' p'
      assume in_fs: "(t', p') \<in> set fs"
      then have "p' \<noteq> p" using Cons.prems(2) by (force simp: f)
      moreover have "(t', p') \<in> set (f # fs)" using in_fs by simp
      note Cons.prems(3) [OF this]
      ultimately show "p' < length (d'[p := new_value (fn_nums s1) (first_ids s1) (t (d ! p))])
        \<and> d'[p := new_value (fn_nums s1) (first_ids s1) (t (d ! p))] ! p' = d ! p'
        \<and> (t' = FFS_INTERFACE \<or> t' = FFS_STRING \<or> t' = FFS_ENDPOINT)
        \<and> field_ok (length (fn_nums s1)) (length (first_ids s1)) (t' (d ! p'))"
        by (simp add: len)
    qed
    then show ?thesis
    proof (rule post_mono)
      fix x s'
      assume s': "nums_grow s1 s' \<and> (\<forall>(t, p) \<in> set fs. given s' (t (d ! p)))
        \<and> fn_raw s' = pre @ fold (put_field (fn_nums s') (first_ids s') d) fs
             (d'[p := new_value (fn_nums s1) (first_ids s1) (t (d ! p))]) @ rest"
      then have grow': "nums_grow s1 s'" by blast
      show "nums_grow s s' \<and> (\<forall>(t, p) \<in> set (f # fs). given s' (t (d ! p)))
        \<and> fn_raw s' = pre @ fold (put_field (fn_nums s') (first_ids s') d) (f # fs) d' @ rest"
        using s' nums_grow_trans [OF grow grow'] given_mono [OF g grow'] new_value_mono [OF g grow', of "first_ids s1"]
        by (simp add: f put_field_def nums_grow_ids [OF grow'])
    qed simp
  qed
  have "post (do_entity_at (bind_do_nums env) t (length pre + p) (length pre) s)
     (\<lambda>_ s'. nums_grow s s' \<and> given s' (t (d ! p)) \<and> fn_raw s' = pre @ d'[p := new_value (fn_nums s') (first_ids s') (t (d ! p))] @ rest)
     (\<lambda>_ _. True)"
    using nums_field [OF Cons.prems(1) head(1) head(4) ids head(3)] unfolding head(2) .
  then show ?case unfolding f run_fields.simps using rest by (elim post_bindS) (simp add: f)
qed

lemma desc_fields_ok:
  assumes "desc_wf (d @ rest)" and "length d = unat ((d @ rest) ! 0)"
  shows "distinct (map snd (desc_fields d))"
    and "(t, p) \<in> set (desc_fields d) \<Longrightarrow> p < length d \<and> (t = FFS_INTERFACE \<or> t = FFS_STRING \<or> t = FFS_ENDPOINT)"
proof -
  show "distinct (map snd (desc_fields d))" by (simp add: desc_fields_def)
  show "p < length d \<and> (t = FFS_INTERFACE \<or> t = FFS_STRING \<or> t = FFS_ENDPOINT)" if tp: "(t, p) \<in> set (desc_fields d)"
  proof -
    have two: "2 \<le> length d" using tp by (auto simp: desc_fields_def split: if_splits)
    then have nth: "(d @ rest) ! 0 = d ! 0" "(d @ rest) ! 1 = d ! 1" by (cases d; auto simp: nth_append)+
    show ?thesis
      using assms(1) assms(2) tp unfolding desc_wf_def nth
      by (auto simp: desc_fields_def desc_lengths_def split: if_splits)
  qed
qed

lemma numbered_size: "numbered s d d' \<Longrightarrow> length d' = length d"
  by (simp add: numbered_def length_renumber)

lemma nums_grow_refl: "nums_grow s s"
  by (simp add: nums_grow_def)

interpretation nums_pass: desc_pass "bind_do_nums env" ds base "nums_inv env ds" "nums_inv env ds" "nums_inv env ds 0" nums_grow
  "\<lambda>s d d'. d' = d" numbered for env ds base
proof unfold_locales
  fix num pre s d1 rest
  assume num: "num < length ds" and raw: "fn_raw s = pre @ d1 @ rest" and wf: "desc_wf (d1 @ rest)" "length d1 = unat ((d1 @ rest) ! 0)"
    and d1: "d1 = ds ! num" and inv: "nums_inv env ds num s"
  have ok: "fields_ok (length (fn_nums s)) (length (first_ids s)) d1" and ids: "\<And>n. interface_id env n < 256"
    using inv num d1 by (simp_all add: nums_inv_def)
  have "post (run_fields (bind_do_nums env) (length pre) (desc_fields d1) s)
     (\<lambda>_ s'. nums_grow s s' \<and> (\<forall>(t, p) \<in> set (desc_fields d1). given s' (t (d1 ! p)))
        \<and> fn_raw s' = pre @ fold (put_field (fn_nums s') (first_ids s') d1) (desc_fields d1) d1 @ rest) (\<lambda>_ _. True)"
    using ids raw desc_fields_ok [OF wf] ok
    by (intro nums_fields_run) (auto simp: fields_ok_def)
  then show "post (run_fields (bind_do_nums env) (length pre) (desc_fields d1) s)
        (\<lambda>_ s'. nums_grow s s' \<and> nums_inv env ds (Suc num) s' \<and> (\<exists>d'. fn_raw s' = pre @ d' @ rest \<and> numbered s' (ds ! num) d')) (\<lambda>_ _. True)"
    by (rule post_mono) (use nums_inv_mono [OF inv] in \<open>auto simp: numbered_def renumber_def put_field_def d1\<close>)
qed (auto simp: head_kept_def bind_do_nums_def nums_grow_refl nums_inv_def
       intro: nums_grow_trans nums_inv_mono numbered_size numbered_mono)

end
