(* ===== verification/Ffs_Bind_Eps.thy ===== *)
theory Ffs_Bind_Eps
  imports Ffs_Bind_Walk
begin

section \<open>Generic USB function: the pass that claims the endpoints\<close>

text \<open>
  \<open>__ffs_func_bind_do_descs\<close> as the second interpretation of \<open>desc_pass\<close>: endpoints and descriptor
  pointers, once there, stay; only the address and the packet size of endpoint descriptors change.
\<close>

subsection \<open>The first pass\<close>

interpretation descs_fields: field_callback "bind_do_descs env ffs" for env ffs
proof unfold_locales
  have wr: "length (fn_raw (snd (bindS (wr8 p v s) f))) = n"
    if "\<And>s'. length (fn_raw s') = length (fn_raw s) \<Longrightarrow> length (fn_raw (snd (f () s'))) = n" "n = length (fn_raw s)"
    for p v s n and f :: "unit \<Rightarrow> ffs_function \<Rightarrow> unit res \<times> ffs_function"
    using that by (auto simp: wr8_def)
  have wr16: "length (fn_raw (snd (wr16 p v s))) = length (fn_raw s)" for p v s
    by (auto simp: wr16_def wr8_def)
  have reuse: "length (fn_raw (snd (reuse_ep idx ds s))) = length (fn_raw s)" for idx ds s
    by (auto simp: reuse_ep_def rd8_def rd16_def wr16 wr8_def split: option.split)
  have claim: "length (fn_raw (snd (claim_ep env ffs idx ds s))) = length (fn_raw s)" for env ffs idx ds s
    by (auto simp: claim_ep_def rd8_def rd16_def wr16_def wr8_def Let_def split: option.split)
  have store: "fn_raw (snd (store_desc n d s)) = fn_raw s" for n d s
    by (auto simp: store_desc_def Let_def split: option.split)
  show "length (fn_raw (snd (bind_do_descs env ffs e p d s))) = length (fn_raw s)" for env ffs e p d s
  proof (cases e)
    case (FFS_DESCRIPTOR n)
    obtain r s1 where s1: "store_desc n d s = (r, s1)" by fastforce
    with store [of n d s] have "fn_raw s1 = fn_raw s" by simp
    then show ?thesis
      using reuse claim
      by (cases r) (auto simp: FFS_DESCRIPTOR bind_do_descs_def s1 rd8_def Let_def split: option.split)
  qed (simp_all add: bind_do_descs_def)
  show "fn_raw (snd (bind_do_descs env ffs e p d s)) ! i = fn_raw s ! i"
    if "\<And>n. e \<noteq> FFS_DESCRIPTOR n" "i \<noteq> p" for env ffs e p d s i
  proof (cases e)
    case (FFS_DESCRIPTOR n)
    then show ?thesis using that(1) by blast
  qed (simp_all add: bind_do_descs_def)
qed

lemma rd16_in:
  "p + 1 < length (fn_raw s) \<Longrightarrow> rd16 p f s = f (ucast (fn_raw s ! p) OR push_bit 8 (ucast (fn_raw s ! (p + 1)))) s"
  by (simp add: rd16_def rd8_def)

lemma wr8_in:
  "fn_raw s = pre @ d @ rest \<Longrightarrow> i < length d \<Longrightarrow>
     wr8 (length pre + i) v s = (Ok (), s\<lparr>fn_raw := pre @ d[i := v] @ rest\<rparr>)"
  by (simp add: wr8_def list_update_append)

lemma wr16_in:
  assumes "fn_raw s = pre @ d @ rest" and "Suc i < length d"
  shows "wr16 (length pre + i) v s = (Ok (), s\<lparr>fn_raw := pre @ d[i := ucast v, Suc i := ucast (drop_bit 8 v)] @ rest\<rparr>)"
proof -
  let ?s = "s\<lparr>fn_raw := pre @ d[i := ucast v] @ rest\<rparr>"
  have "wr8 (length pre + Suc i) (ucast (drop_bit 8 v)) ?s = (Ok (), s\<lparr>fn_raw := pre @ d[i := ucast v, Suc i := ucast (drop_bit 8 v)] @ rest\<rparr>)"
    using wr8_in [of ?s pre "d[i := ucast v]" rest "Suc i"] assms(2) by simp
  then show ?thesis using wr8_in [OF assms(1), of i] assms(2) by (simp add: wr16_def)
qed

definition endpoint :: "u8 list \<Rightarrow> bool" where
  "endpoint d \<longleftrightarrow> 2 \<le> length d \<and> d ! 1 = USB_DT_ENDPOINT"

text \<open>Only the address and the packet size of an endpoint descriptor change.\<close>

definition ep_rewritten :: "u8 list \<Rightarrow> u8 list \<Rightarrow> bool" where
  "ep_rewritten d d' \<longleftrightarrow> length d' = length d \<and> (\<forall>i < length d. d' ! i \<noteq> d ! i \<longrightarrow> endpoint d \<and> i \<in> {2, 4, 5})"

definition three_bytes :: "u8 list \<Rightarrow> u8 list \<Rightarrow> bool" where
  "three_bytes d d' \<longleftrightarrow> length d' = length d \<and> (\<forall>i. i \<notin> {2, 4, 5} \<longrightarrow> d' ! i = d ! i)"

lemma three_bytes_upd [simp]:
  "three_bytes d d" "three_bytes d d' \<Longrightarrow> three_bytes d (d'[2 := v])"
  "three_bytes d d' \<Longrightarrow> three_bytes d (d'[4 := v])" "three_bytes d d' \<Longrightarrow> three_bytes d (d'[5 := v])"
  by (auto simp: three_bytes_def nth_list_update)

lemma three_bytes_rewritten: "endpoint d \<Longrightarrow> three_bytes d d' \<Longrightarrow> ep_rewritten d d'"
  by (auto simp: three_bytes_def ep_rewritten_def)

lemma reuse_ep_post:
  assumes raw: "fn_raw s = pre @ d @ rest" and len: "7 \<le> length d"
    and d0: "ep_descs (fn_eps s ! idx) ! 0 = Some d0" "d0 + 7 \<le> length (fn_raw s)"
  shows "post (reuse_ep idx (length pre) s)
     (\<lambda>_ s'. \<exists>d1. s' = s\<lparr>fn_raw := pre @ d1 @ rest\<rparr> \<and> three_bytes d d1) (\<lambda>_ _. True)"
proof -
  define a where "a = fn_raw s ! (d0 + 2)"
  have first: "rd8 (d0 + 2) f s = f a s" for f :: "u8 \<Rightarrow> ffs_function \<Rightarrow> unit res \<times> ffs_function"
    using d0(2) by (simp add: rd8_def a_def)
  define s1 where "s1 = s\<lparr>fn_raw := pre @ d[2 := a] @ rest\<rparr>"
  have w: "wr8 (length pre + 2) a s = (Ok (), s1)" using wr8_in [OF raw, of 2] len by (simp add: s1_def)
  have raw1: "fn_raw s1 = pre @ (d[2 := a]) @ rest" by (simp add: s1_def)
  have rd: "\<exists>v. \<forall>f :: u16 \<Rightarrow> ffs_function \<Rightarrow> unit res \<times> ffs_function. rd16 p f s1 = f v s1"
    if "p + 1 < length pre + length d + length rest" for p
    using rd16_in [of p s1] that by (auto simp: raw1)
  obtain v where own: "rd16 (length pre + 4) f s1 = f v s1" for f :: "u16 \<Rightarrow> ffs_function \<Rightarrow> unit res \<times> ffs_function"
    using rd [of "length pre + 4"] len by auto
  obtain v0 where other: "rd16 (d0 + 4) f s1 = f v0 s1" for f :: "u16 \<Rightarrow> ffs_function \<Rightarrow> unit res \<times> ffs_function"
    using rd [of "d0 + 4"] d0(2) raw by auto
  have w16: "wr16 (length pre + 4) v s1 = (Ok (), s\<lparr>fn_raw := pre @ d[2 := a, 4 := ucast v, 5 := ucast (drop_bit 8 v)] @ rest\<rparr>)" for v
    using wr16_in [OF raw1, of 4] len by (simp add: s1_def)
  show ?thesis
    unfolding reuse_ep_def d0(1) option.case first w bindS.simps own
    using other w16 by (auto simp: s1_def)
qed

lemma claim_ep_post:
  assumes raw: "fn_raw s = pre @ d @ rest" and len: "7 \<le> length d"
  shows "post (claim_ep env ffs idx (length pre) s)
     (\<lambda>_ s'. \<exists>d1 ep k. s' = s\<lparr>fn_raw := pre @ d1 @ rest, fn_claimed := fn_claimed s + 1,
         fn_eps := (fn_eps s)[idx := (fn_eps s ! idx)\<lparr>ep_hw := Some ep\<rparr>],
         fn_revmap := (fn_revmap s)[k := of_nat (idx + 1)]\<rparr> \<and> three_bytes d d1) (\<lambda>_ _. True)"
proof -
  have rd: "rd8 (length pre + i) f s = f (d ! i) s" if "i < 7" for i and f :: "u8 \<Rightarrow> ffs_function \<Rightarrow> unit res \<times> ffs_function"
    using rd8_in [of s pre "d @ rest" i f] raw len that by (simp add: nth_append)
  obtain maxp where maxp: "rd16 (length pre + 4) f s = f maxp s" for f :: "u16 \<Rightarrow> ffs_function \<Rightarrow> unit res \<times> ffs_function"
    using rd16_in [of "length pre + 4" s] raw len by auto
  define s0 where "s0 = s\<lparr>fn_claimed := fn_claimed s + 1\<rparr>"
  have raw0: "fn_raw s0 = pre @ d @ rest" using raw by (simp add: s0_def)
  define e where "e = fn_eps s ! idx"
  have w: "bindS (wr8 (length pre + 2) addr s0) (\<lambda>_ s. bindS (wr16 (length pre + 4) m s) f) =
      f () (s0\<lparr>fn_raw := pre @ d[2 := addr, 4 := ucast m, 5 := ucast (drop_bit 8 m)] @ rest\<rparr>)"
    for addr m and f :: "unit \<Rightarrow> ffs_function \<Rightarrow> unit res \<times> ffs_function"
    using wr8_in [OF raw0, of 2 addr] wr16_in [of "s0\<lparr>fn_raw := pre @ d[2 := addr] @ rest\<rparr>" pre "d[2 := addr]" rest 4 m] len
    by simp
  have undo: "wr8 (length pre + 2) b (s0\<lparr>fn_raw := pre @ d[2 := addr, 4 := x, 5 := y] @ rest, fn_eps := es, fn_revmap := rm\<rparr>) =
      (Ok (), s0\<lparr>fn_raw := pre @ d[2 := addr, 4 := x, 5 := y, 2 := b] @ rest, fn_eps := es, fn_revmap := rm\<rparr>)" for b addr x y es rm
    using wr8_in [of "s0\<lparr>fn_raw := pre @ d[2 := addr, 4 := x, 5 := y] @ rest, fn_eps := es, fn_revmap := rm\<rparr>" pre _ rest 2] len
    by simp
  have result: "\<exists>d1' ep' k. s0\<lparr>fn_raw := pre @ d1 @ rest, fn_eps := (fn_eps s)[idx := (fn_eps s ! idx)\<lparr>ep_hw := Some ep\<rparr>],
        fn_revmap := (fn_revmap s)[j := of_nat (idx + 1)]\<rparr> =
      s\<lparr>fn_raw := pre @ d1' @ rest, fn_claimed := fn_claimed s + 1,
         fn_eps := (fn_eps s)[idx := (fn_eps s ! idx)\<lparr>ep_hw := Some ep'\<rparr>],
         fn_revmap := (fn_revmap s)[k := of_nat (idx + 1)]\<rparr> \<and> three_bytes d d1'" if "three_bytes d d1" for d1 ep j
    using that by (intro exI [of _ d1] exI [of _ ep] exI [of _ j]) (simp add: s0_def)
  have fields: "fn_eps (s0\<lparr>fn_raw := x\<rparr>) = fn_eps s" "fn_revmap (s0\<lparr>fn_raw := x\<rparr>) = fn_revmap s" for x by (simp_all add: s0_def)
  have rd2: "rd8 (length pre + 2) f s = f (d ! 2) s" and rd3: "rd8 (length pre + 3) f s = f (d ! 3) s"
    for f :: "u8 \<Rightarrow> ffs_function \<Rightarrow> unit res \<times> ffs_function"
    by (rule rd, simp)+
  show ?thesis
    unfolding claim_ep_def rd2 rd3 maxp Let_def s0_def [symmetric]
    by (cases "autoconfig env (fn_claimed s) (d ! 2) (d ! 3) maxp")
       (auto simp only: option.case prod.case w undo fields ffs_function.simps post_pair post_if split_paired_all split: if_split
          intro!: result three_bytes_upd)
qed

text \<open>A hardware endpoint and a descriptor pointer, once there, stay.\<close>

definition ep_le :: "ffs_ep \<Rightarrow> ffs_ep \<Rightarrow> bool" where
  "ep_le e e' \<longleftrightarrow> (ep_hw e \<noteq> None \<longrightarrow> ep_hw e' = ep_hw e) \<and> length (ep_descs e') = length (ep_descs e)
     \<and> (\<forall>j < length (ep_descs e). ep_descs e ! j \<noteq> None \<longrightarrow> ep_descs e' ! j = ep_descs e ! j)"

definition speed_descs :: "nat \<Rightarrow> ffs_function \<Rightarrow> nat option list option" where
  "speed_descs j s = (if j = 2 then fn_ss s else if j = 1 then fn_hs s else fn_fs s)"

definition eps_grow :: "nat \<Rightarrow> ffs_function \<Rightarrow> ffs_function \<Rightarrow> bool" where
  "eps_grow j s s' \<longleftrightarrow> list_all2 ep_le (fn_eps s) (fn_eps s') \<and> fn_nums s' = fn_nums s \<and> fn_string_ids s' = fn_string_ids s
     \<and> desc_id s' = desc_id s \<and> (\<forall>i \<le> 2. i \<noteq> j \<longrightarrow> speed_descs i s' = speed_descs i s)"

definition eps_tables :: "ffs_data \<Rightarrow> ffs_function \<Rightarrow> bool" where
  "eps_tables ffs s \<longleftrightarrow> length (fn_eps s) = unat (eps_count ffs) \<and> unat (eps_count ffs) < FFS_MAX_EPS_COUNT
     \<and> length (fn_revmap s) = 16 \<and> (\<forall>b \<in> set (fn_revmap s). unat b \<le> unat (eps_count ffs))
     \<and> (\<forall>e \<in> set (fn_eps s). length (ep_descs e) = 3 \<and> (\<forall>p. Some p \<in> set (ep_descs e) \<longrightarrow> p + 7 \<le> length (fn_raw s)))"

text \<open>An endpoint that is used again has a full speed descriptor to copy from.\<close>

definition reusable :: "nat \<Rightarrow> ffs_function \<Rightarrow> bool" where
  "reusable j s \<longleftrightarrow> (\<forall>e \<in> set (fn_eps s). ep_hw e \<noteq> None \<longrightarrow> ep_descs e ! j \<noteq> None \<or> ep_descs e ! 0 \<noteq> None)"

definition claimed :: "ffs_data \<Rightarrow> nat \<Rightarrow> ffs_function \<Rightarrow> u8 list \<Rightarrow> bool" where
  "claimed ffs j s d \<longleftrightarrow> (endpoint d \<longrightarrow> (\<exists>i. ffs_ep_addr2idx ffs (d ! 2) = Some i \<and> i - 1 < length (fn_eps s)
     \<and> ep_hw (fn_eps s ! (i - 1)) \<noteq> None \<and> j < length (ep_descs (fn_eps s ! (i - 1))) \<and> ep_descs (fn_eps s ! (i - 1)) ! j \<noteq> None))"

definition pointed :: "nat \<Rightarrow> nat \<Rightarrow> u8 list list \<Rightarrow> nat \<Rightarrow> ffs_function \<Rightarrow> bool" where
  "pointed j base ds num s \<longleftrightarrow> (\<exists>a. speed_descs j s = Some a \<and> length a = length ds + 1 \<and> (\<forall>i < num. a ! i = Some (pos_of base ds i)))"

definition known_endpoints :: "ffs_data \<Rightarrow> u8 list list \<Rightarrow> bool" where
  "known_endpoints ffs ds \<longleftrightarrow> (\<forall>d \<in> set ds. endpoint d \<longrightarrow>
     (\<exists>i. ffs_ep_addr2idx ffs (d ! 2) = Some i \<and> 1 \<le> i \<and> i \<le> unat (eps_count ffs)))"

definition eps_inv :: "ffs_data \<Rightarrow> u8 list list \<Rightarrow> nat \<Rightarrow> nat \<Rightarrow> nat \<Rightarrow> ffs_function \<Rightarrow> bool" where
  "eps_inv ffs ds base j num s \<longleftrightarrow> eps_tables ffs s \<and> desc_id s = j \<and> reusable j s \<and> pointed j base ds num s \<and> known_endpoints ffs ds"

lemma ep_le_refl [simp]: "ep_le e e"
  by (simp add: ep_le_def)

lemma ep_le_trans: "ep_le a b \<Longrightarrow> ep_le b c \<Longrightarrow> ep_le a c"
  by (auto simp: ep_le_def)

lemma eps_grow_refl [simp]: "eps_grow j s s"
  by (simp add: eps_grow_def list_all2_refl)

lemma eps_grow_trans: "eps_grow j s1 s2 \<Longrightarrow> eps_grow j s2 s3 \<Longrightarrow> eps_grow j s1 s3"
  using list_all2_trans [of ep_le ep_le ep_le, OF ep_le_trans] by (auto simp: eps_grow_def)

lemma claimed_mono: "claimed ffs j s d \<Longrightarrow> eps_grow j' s s' \<Longrightarrow> claimed ffs j s' d"
  by (auto simp: claimed_def eps_grow_def ep_le_def list_all2_conv_all_nth)

lemma desc_id_cases: "desc_id s = 0 \<or> desc_id s = 1 \<or> desc_id s = 2"
  by (simp add: desc_id_def)

lemma store_desc_ok:
  assumes "desc_id s = j" and "speed_descs j s = Some a" and "n < length a"
  obtains s1 where "store_desc n x s = (Ok (), s1)" and "speed_descs j s1 = Some (a[n := x])"
    and "\<And>i. i \<le> 2 \<Longrightarrow> i \<noteq> j \<Longrightarrow> speed_descs i s1 = speed_descs i s" and "desc_id s1 = j"
    and "fn_raw s1 = fn_raw s" and "fn_eps s1 = fn_eps s" and "fn_nums s1 = fn_nums s" and "fn_revmap s1 = fn_revmap s"
    and "fn_string_ids s1 = fn_string_ids s"
proof -
  let ?s1 = "if j = 2 then s\<lparr>fn_ss := Some (a[n := x])\<rparr> else if j = 1 then s\<lparr>fn_hs := Some (a[n := x])\<rparr> else s\<lparr>fn_fs := Some (a[n := x])\<rparr>"
  have "store_desc n x s = (Ok (), ?s1)"
    using assms by (auto simp: store_desc_def speed_descs_def)
  then show thesis
    using that [of ?s1] assms by (auto simp: speed_descs_def desc_id_def split: if_splits)
qed

lemma set_update_all: "(\<forall>x \<in> set xs. P x) \<Longrightarrow> P y \<Longrightarrow> \<forall>x \<in> set (xs[i := y]). P x"
  using set_update_subset_insert [of xs i y] by blast

lemma list_all2_update1: "(\<And>x. P x x) \<Longrightarrow> i < length xs \<Longrightarrow> P (xs ! i) y \<Longrightarrow> list_all2 P xs (xs[i := y])"
  by (auto simp: list_all2_conv_all_nth nth_list_update)

text \<open>The state after an endpoint descriptor, whichever way its endpoint was found.\<close>

lemma endpoint_done:
  assumes inv: "eps_inv ffs ds base j num s" and num: "num < length ds" and pos: "length pre = pos_of base ds num"
    and raw: "fn_raw s = pre @ d @ rest" and raw': "fn_raw s' = pre @ d1 @ rest" "three_bytes d d1" and len: "7 \<le> length d"
    and ep: "endpoint d" "ffs_ep_addr2idx ffs (d ! 2) = Some i" "1 \<le> i" "i \<le> unat (eps_count ffs)"
    and eps: "fn_eps s' = (fn_eps s)[i - 1 := e']" and e': "ep_hw e' \<noteq> None" "ep_descs e' = (ep_descs (fn_eps s ! (i - 1)))[j := Some (length pre)]"
      "ep_hw (fn_eps s ! (i - 1)) \<noteq> None \<longrightarrow> ep_hw e' = ep_hw (fn_eps s ! (i - 1))"
      "ep_descs (fn_eps s ! (i - 1)) ! j = None"
    and arr: "speed_descs j s = Some a" "length a = length ds + 1" "\<forall>i < num. a ! i = Some (pos_of base ds i)"
      "speed_descs j s' = Some (a[num := Some (length pre)])" "\<And>i. i \<le> 2 \<Longrightarrow> i \<noteq> j \<Longrightarrow> speed_descs i s' = speed_descs i s"
    and same: "desc_id s' = j" "fn_nums s' = fn_nums s" "fn_string_ids s' = fn_string_ids s"
    and rev: "length (fn_revmap s') = 16" "\<forall>b \<in> set (fn_revmap s'). unat b \<le> unat (eps_count ffs)"
  shows "eps_grow j s s' \<and> eps_inv ffs ds base j (Suc num) s'
    \<and> (\<exists>d1. fn_raw s' = pre @ d1 @ rest \<and> ep_rewritten d d1 \<and> claimed ffs j s' d)"
proof -
  let ?e = "fn_eps s ! (i - 1)"
  have tables: "eps_tables ffs s" and reuse: "reusable j s" and known: "known_endpoints ffs ds" and id: "desc_id s = j"
    using inv by (simp_all add: eps_inv_def)
  have idx: "i - 1 < length (fn_eps s)" using ep tables by (simp add: eps_tables_def)
  have j: "j \<le> 2" using id desc_id_cases [of s] by auto
  have e: "length (ep_descs ?e) = 3" "\<And>p. Some p \<in> set (ep_descs ?e) \<Longrightarrow> p + 7 \<le> length (fn_raw s)"
    using tables idx by (auto simp: eps_tables_def)
  have size: "length (fn_raw s') = length (fn_raw s)" using raw raw' by (simp add: three_bytes_def)
  have le: "ep_le ?e e'" using e' e(1) j by (auto simp: ep_le_def nth_list_update)
  have ptrs: "length (ep_descs e') = 3 \<and> (\<forall>p. Some p \<in> set (ep_descs e') \<longrightarrow> p + 7 \<le> length (fn_raw s'))"
    using e e'(2) len raw size set_update_subset_insert [of "ep_descs ?e" j "Some (length pre)"] by auto
  have grow: "eps_grow j s s'"
    using list_all2_update1 [OF ep_le_refl idx le] same id arr(5) by (simp add: eps_grow_def eps)
  have "\<forall>e \<in> set (fn_eps s'). length (ep_descs e) = 3 \<and> (\<forall>p. Some p \<in> set (ep_descs e) \<longrightarrow> p + 7 \<le> length (fn_raw s'))"
    unfolding eps using tables size by (intro set_update_all ptrs) (simp add: eps_tables_def)
  then have "eps_tables ffs s'" using tables rev by (simp add: eps_tables_def eps)
  moreover have "reusable j s'"
    using reuse e'(2) e(1) j unfolding reusable_def eps by (intro set_update_all) simp_all
  moreover have "pointed j base ds (Suc num) s'"
    using arr num pos unfolding pointed_def by (auto simp: nth_list_update less_Suc_eq)
  moreover have "claimed ffs j s' d"
    using ep(2) e'(1,2) e(1) idx j unfolding claimed_def eps by (intro impI exI [of _ i]) simp
  ultimately show ?thesis
    using grow raw' known same(1) three_bytes_rewritten [OF ep(1) raw'(2)] by (auto simp: eps_inv_def)
qed

lemma bind_descs_first:
  assumes num: "num < length ds" and pos: "length pre = pos_of base ds num" and raw: "fn_raw s = pre @ ds ! num @ rest"
    and wf: "desc_wf (ds ! num @ rest)" and size: "length (ds ! num) = unat ((ds ! num @ rest) ! 0)" and inv: "eps_inv ffs ds base j num s"
  shows "post (bind_do_descs env ffs (FFS_DESCRIPTOR num) 0 (Some (length pre)) s)
    (\<lambda>_ s'. eps_grow j s s' \<and> eps_inv ffs ds base j (Suc num) s'
       \<and> (\<exists>d1. fn_raw s' = pre @ d1 @ rest \<and> ep_rewritten (ds ! num) d1 \<and> claimed ffs j s' (ds ! num))) (\<lambda>_ _. True)"
proof -
  define d where "d = ds ! num"
  have tables: "eps_tables ffs s" and reuse: "reusable j s" and known: "known_endpoints ffs ds" and id: "desc_id s = j"
    using inv by (simp_all add: eps_inv_def)
  obtain a where a: "speed_descs j s = Some a" "length a = length ds + 1" "\<forall>i < num. a ! i = Some (pos_of base ds i)"
    using inv by (auto simp: eps_inv_def pointed_def)
  have "num < length a" using num a(2) by simp
  from store_desc_ok [OF id a(1) this, of "Some (length pre)"] obtain s1 where s1:
    "store_desc num (Some (length pre)) s = (Ok (), s1)" "speed_descs j s1 = Some (a[num := Some (length pre)])"
    "\<And>i. i \<le> 2 \<Longrightarrow> i \<noteq> j \<Longrightarrow> speed_descs i s1 = speed_descs i s" "desc_id s1 = j" "fn_raw s1 = fn_raw s"
    "fn_eps s1 = fn_eps s" "fn_nums s1 = fn_nums s" "fn_revmap s1 = fn_revmap s" "fn_string_ids s1 = fn_string_ids s" by metis
  have two: "2 \<le> length (d @ rest)" using wf by (simp add: desc_wf_def d_def)
  have raw1: "fn_raw s1 = pre @ d @ rest" using raw s1(5) by (simp add: d_def)
  have type: "rd8 (length pre + 1) f s1 = f ((d @ rest) ! 1) s1" for f :: "u8 \<Rightarrow> ffs_function \<Rightarrow> unit res \<times> ffs_function"
    using rd8_in [OF raw1, of 1] two by simp
  show ?thesis
  proof (cases "(d @ rest) ! 1 = USB_DT_ENDPOINT")
    case False
    then have no: "\<not> endpoint d" by (auto simp: endpoint_def nth_append)
    have "eps_inv ffs ds base j (Suc num) s1"
      using inv s1 a num pos
      by (auto simp: eps_inv_def eps_tables_def reusable_def pointed_def nth_list_update less_Suc_eq)
    moreover have "eps_grow j s s1" using s1 id by (simp add: eps_grow_def list_all2_refl)
    moreover have "ep_rewritten d d" "claimed ffs j s1 d" using no by (simp_all add: ep_rewritten_def claimed_def)
    ultimately show ?thesis
      using False raw1 by (auto simp: bind_do_descs_def s1(1) type [simplified] d_def [symmetric])
  next
    case True
    have len: "7 \<le> length d" using wf True size by (auto simp: desc_wf_def desc_lengths_def d_def)
    have ep: "endpoint d" using True len by (auto simp: endpoint_def nth_append)
    have d2: "rd8 (length pre + 2) f s1 = f (d ! 2) s1" for f :: "u8 \<Rightarrow> ffs_function \<Rightarrow> unit res \<times> ffs_function"
      using rd8_in [OF raw1, of 2 f] len by (simp add: nth_append)
    from known ep num obtain i where i: "ffs_ep_addr2idx ffs (d ! 2) = Some i" "1 \<le> i" "i \<le> unat (eps_count ffs)"
      by (auto simp: known_endpoints_def d_def)
    define k where "k = i - 1"
    define e where "e = fn_eps s ! k"
    have ik: "i - Suc 0 = k" by (simp add: k_def)
    have idx: "k < length (fn_eps s)" using i tables by (simp add: eps_tables_def k_def)
    have j: "j \<le> 2" using id desc_id_cases [of s] by auto
    have e3: "length (ep_descs e) = 3" "\<And>p. Some p \<in> set (ep_descs e) \<Longrightarrow> p + 7 \<le> length (fn_raw s)"
      using tables idx by (auto simp: eps_tables_def e_def)
    show ?thesis
    proof (cases "ep_descs e ! j = None")
      case False
      then show ?thesis
        using True idx by (simp add: bind_do_descs_def s1(1,4,6) type [simplified] d2 [simplified] i(1) ik e_def Let_def not_le)
    next
      case fresh: True
      define s2 where "s2 = s1\<lparr>fn_eps := (fn_eps s)[k := e\<lparr>ep_descs := (ep_descs e)[j := Some (length pre)]\<rparr>]\<rparr>"
      have run: "bind_do_descs env ffs (FFS_DESCRIPTOR num) 0 (Some (length pre)) s =
          (if ep_hw e \<noteq> None then reuse_ep k (length pre) s2 else claim_ep env ffs k (length pre) s2)"
        using True idx fresh by (simp add: bind_do_descs_def s1(1,4,6) type [simplified] d2 [simplified] i(1) ik e_def [symmetric] Let_def not_le s2_def)
      have raw2: "fn_raw s2 = pre @ d @ rest" using raw1 by (simp add: s2_def)
      have e2: "fn_eps s2 ! k = e\<lparr>ep_descs := (ep_descs e)[j := Some (length pre)]\<rparr>" using idx by (simp add: s2_def)
      have rev: "length (fn_revmap s) = 16" "\<forall>b \<in> set (fn_revmap s). unat b \<le> unat (eps_count ffs)"
        and small: "unat (eps_count ffs) < 31"
        using tables by (simp_all add: eps_tables_def)
      have finish: "eps_grow j s s' \<and> eps_inv ffs ds base j (Suc num) s'
          \<and> (\<exists>d1. fn_raw s' = pre @ d1 @ rest \<and> ep_rewritten d d1 \<and> claimed ffs j s' d)"
        if "s' = s2\<lparr>fn_raw := pre @ d1 @ rest, fn_claimed := c, fn_eps := (fn_eps s)[k := e'], fn_revmap := rm\<rparr>" "three_bytes d d1"
          "ep_hw e' \<noteq> None" "ep_descs e' = (ep_descs e)[j := Some (length pre)]" "ep_hw e \<noteq> None \<longrightarrow> ep_hw e' = ep_hw e"
          "length rm = 16" "\<forall>b \<in> set rm. unat b \<le> unat (eps_count ffs)" for s' d1 c e' rm
      proof -
        have arrs: "speed_descs i s' = speed_descs i s1" "desc_id s' = desc_id s1" for i
          using that(1) by (simp_all add: s2_def speed_descs_def desc_id_def)
        have fields: "fn_raw s' = pre @ d1 @ rest" "fn_eps s' = (fn_eps s)[i - 1 := e']" "fn_revmap s' = rm"
          "fn_nums s' = fn_nums s" "fn_string_ids s' = fn_string_ids s"
          using that(1) s1 by (simp_all add: s2_def k_def)
        show ?thesis
          using that(2-) fresh s1(2-4)
          by (intro endpoint_done [OF inv num pos raw [folded d_def] fields(1) _ len ep i fields(2) _ _ _ _ a])
             (simp_all add: arrs fields e_def k_def)
      qed
      show ?thesis
      proof (cases "ep_hw e")
        case (Some hw)
        have "e \<in> set (fn_eps s)" using idx by (simp add: e_def)
        then have "ep_descs e ! 0 \<noteq> None" using reuse Some fresh by (auto simp: reusable_def)
        then obtain d0 where d0: "ep_descs e ! 0 = Some d0" by blast
        have d0': "ep_descs (fn_eps s2 ! k) ! 0 = Some d0" using d0 fresh by (cases "j = 0") (auto simp: e2)
        have "Some d0 \<in> set (ep_descs e)" using d0 e3(1) by (metis nth_mem zero_less_numeral)
        then have "d0 + 7 \<le> length (fn_raw s2)" using e3(2) raw raw2 by (simp add: d_def)
        from reuse_ep_post [OF raw2 len d0' this]
        have "post (reuse_ep k (length pre) s2) (\<lambda>_ s'. eps_grow j s s' \<and> eps_inv ffs ds base j (Suc num) s'
           \<and> (\<exists>d1. fn_raw s' = pre @ d1 @ rest \<and> ep_rewritten d d1 \<and> claimed ffs j s' d)) (\<lambda>_ _. True)"
        proof (rule post_mono)
          fix s' :: ffs_function
          assume "\<exists>d1. s' = s2\<lparr>fn_raw := pre @ d1 @ rest\<rparr> \<and> three_bytes d d1"
          then obtain d1 where d1: "s' = s2\<lparr>fn_raw := pre @ d1 @ rest\<rparr>" "three_bytes d d1" by blast
          show "eps_grow j s s' \<and> eps_inv ffs ds base j (Suc num) s'
             \<and> (\<exists>d1. fn_raw s' = pre @ d1 @ rest \<and> ep_rewritten d d1 \<and> claimed ffs j s' d)"
            using d1 Some rev
            by (intro finish [where c = "fn_claimed s2" and e' = "e\<lparr>ep_descs := (ep_descs e)[j := Some (length pre)]\<rparr>" and rm = "fn_revmap s"])
               (simp_all add: s2_def s1(8))
        qed simp
        then show ?thesis unfolding run d_def [symmetric] by (simp add: Some)
      next
        case None
        have rm: "length ((fn_revmap s)[k := of_nat i]) = 16" "\<forall>b \<in> set ((fn_revmap s)[k := of_nat i]). unat b \<le> unat (eps_count ffs)" for k
          using rev small i(3) by (simp, intro set_update_all) (simp_all add: unat_of_nat)
        from claim_ep_post [OF raw2 len, of env ffs k]
        have "post (claim_ep env ffs k (length pre) s2) (\<lambda>_ s'. eps_grow j s s' \<and> eps_inv ffs ds base j (Suc num) s'
           \<and> (\<exists>d1. fn_raw s' = pre @ d1 @ rest \<and> ep_rewritten d d1 \<and> claimed ffs j s' d)) (\<lambda>_ _. True)"
        proof (rule post_mono)
          fix s' :: ffs_function
          assume "\<exists>d1 ep n. s' = s2\<lparr>fn_raw := pre @ d1 @ rest, fn_claimed := fn_claimed s2 + 1,
             fn_eps := (fn_eps s2)[k := (fn_eps s2 ! k)\<lparr>ep_hw := Some ep\<rparr>],
             fn_revmap := (fn_revmap s2)[n := of_nat (k + 1)]\<rparr> \<and> three_bytes d d1"
          then obtain d1 ep n where d1: "s' = s2\<lparr>fn_raw := pre @ d1 @ rest, fn_claimed := fn_claimed s2 + 1,
             fn_eps := (fn_eps s2)[k := (fn_eps s2 ! k)\<lparr>ep_hw := Some ep\<rparr>],
             fn_revmap := (fn_revmap s2)[n := of_nat (k + 1)]\<rparr>" "three_bytes d d1" by blast
          have eps: "(fn_eps s2)[k := x] = (fn_eps s)[k := x]" "fn_revmap s2 = fn_revmap s" "k + 1 = i" for x
            using i(2) s1(8) by (simp_all add: s2_def k_def)
          have s': "s' = s2\<lparr>fn_raw := pre @ d1 @ rest, fn_claimed := fn_claimed s2 + 1,
             fn_eps := (fn_eps s)[k := e\<lparr>ep_descs := (ep_descs e)[j := Some (length pre)], ep_hw := Some ep\<rparr>],
             fn_revmap := (fn_revmap s)[n := of_nat i]\<rparr>"
            unfolding d1(1) eps e2 by simp
          show "eps_grow j s s' \<and> eps_inv ffs ds base j (Suc num) s'
             \<and> (\<exists>d1. fn_raw s' = pre @ d1 @ rest \<and> ep_rewritten d d1 \<and> claimed ffs j s' d)"
            by (rule finish [OF s' d1(2) _ _ _ rm]) (simp_all add: None)
        qed simp
        then show ?thesis unfolding run d_def [symmetric] by (simp add: None)
      qed
    qed
  qed
qed

lemma ep_rewritten_head: "ep_rewritten d d' \<Longrightarrow> head_kept d d'"
  by (auto simp: ep_rewritten_def head_kept_def intro!: nth_equalityI)

lemma run_fields_idle:
  assumes "fn_raw s = pre @ d @ rest"
  shows "(\<And>t p. (t, p) \<in> set fs \<Longrightarrow> p < length d \<and> (t = FFS_INTERFACE \<or> t = FFS_STRING \<or> t = FFS_ENDPOINT))
    \<Longrightarrow> post (run_fields (bind_do_descs env ffs) (length pre) fs s) (\<lambda>_ s'. s' = s) (\<lambda>_ _. True)"
proof (induction fs)
  case (Cons f fs)
  obtain t p where f: "f = (t, p)" by (cases f)
  have tp: "p < length d" "t = FFS_INTERFACE \<or> t = FFS_STRING \<or> t = FFS_ENDPOINT"
    using Cons.prems [of t p] by (auto simp: f)
  have "post (do_entity_at (bind_do_descs env ffs) t (length pre + p) (length pre) s) (\<lambda>_ s'. s' = s) (\<lambda>_ _. True)"
    using tp assms by (auto simp: do_entity_at_def rd8_def bind_do_descs_def)
  moreover have "post (run_fields (bind_do_descs env ffs) (length pre) fs s) (\<lambda>_ s'. s' = s) (\<lambda>_ _. True)"
    using Cons by auto
  ultimately show ?case by (auto simp: f intro: post_bindS)
qed simp

interpretation descs_pass: desc_pass "bind_do_descs env ffs" ds base "eps_inv ffs ds base j" "\<lambda>num. eps_inv ffs ds base j (Suc num)"
  "eps_inv ffs ds base j (length ds)" "eps_grow j"
  "\<lambda>s d d'. ep_rewritten d d' \<and> claimed ffs j s d" "\<lambda>s d d'. ep_rewritten d d' \<and> claimed ffs j s d" for env ffs ds base j
proof unfold_locales
  fix num pre s rest
  assume "num < length ds" "length pre = pos_of base ds num" "fn_raw s = pre @ ds ! num @ rest" "desc_wf (ds ! num @ rest)"
    "length (ds ! num) = unat ((ds ! num @ rest) ! 0)" "eps_inv ffs ds base j num s"
  from bind_descs_first [OF this, of env]
  show "post (bind_do_descs env ffs (FFS_DESCRIPTOR num) 0 (Some (length pre)) s)
    (\<lambda>_ s'. eps_grow j s s' \<and> eps_inv ffs ds base j (Suc num) s'
       \<and> (\<exists>d1. fn_raw s' = pre @ d1 @ rest \<and> ep_rewritten (ds ! num) d1 \<and> claimed ffs j s' (ds ! num))) (\<lambda>_ _. True)" .
next
  fix num pre s d1 rest
  assume raw: "fn_raw s = pre @ d1 @ rest" and wf: "desc_wf (d1 @ rest)" "length d1 = unat ((d1 @ rest) ! 0)"
    and d1: "ep_rewritten (ds ! num) d1 \<and> claimed ffs j s (ds ! num)" and inv: "eps_inv ffs ds base j (Suc num) s"
  have "post (run_fields (bind_do_descs env ffs) (length pre) (desc_fields d1) s) (\<lambda>_ s'. s' = s) (\<lambda>_ _. True)"
    using desc_fields_ok [OF wf] by (intro run_fields_idle [OF raw]) blast
  then show "post (run_fields (bind_do_descs env ffs) (length pre) (desc_fields d1) s)
        (\<lambda>_ s'. eps_grow j s s' \<and> eps_inv ffs ds base j (Suc num) s'
          \<and> (\<exists>d'. fn_raw s' = pre @ d' @ rest \<and> ep_rewritten (ds ! num) d' \<and> claimed ffs j s' (ds ! num))) (\<lambda>_ _. True)"
    by (rule post_mono) (use raw d1 inv in auto)
next
  fix s
  assume inv: "eps_inv ffs ds base j (length ds) s"
  then obtain a where a: "speed_descs j s = Some a" "length a = length ds + 1" "\<forall>i < length ds. a ! i = Some (pos_of base ds i)"
    and id: "desc_id s = j" by (auto simp: eps_inv_def pointed_def)
  from store_desc_ok [OF id a(1), of "length ds" None] a(2) obtain s1 where s1:
    "store_desc (length ds) None s = (Ok (), s1)" "speed_descs j s1 = Some (a[length ds := None])"
    "\<And>i. i \<le> 2 \<Longrightarrow> i \<noteq> j \<Longrightarrow> speed_descs i s1 = speed_descs i s" "desc_id s1 = j" "fn_raw s1 = fn_raw s"
    "fn_eps s1 = fn_eps s" "fn_nums s1 = fn_nums s" "fn_revmap s1 = fn_revmap s" "fn_string_ids s1 = fn_string_ids s"
    by (metis less_add_one)
  have "eps_inv ffs ds base j (length ds) s1"
    using inv s1 a by (auto simp: eps_inv_def eps_tables_def reusable_def pointed_def)
  then show "post (bind_do_descs env ffs (FFS_DESCRIPTOR (length ds)) 0 None s)
        (\<lambda>_ s'. fn_raw s' = fn_raw s \<and> eps_grow j s s' \<and> eps_inv ffs ds base j (length ds) s') (\<lambda>_ _. True)"
    using s1 id by (simp add: bind_do_descs_def eps_grow_def list_all2_refl)
qed (auto simp: ep_rewritten_def intro: ep_rewritten_head eps_grow_trans claimed_mono)

end
