(* ===== verification/Ffs_Bind_Cdc.thy ===== *)
theory Ffs_Bind_Cdc
  imports Ffs_Bind_Eps
begin

section \<open>Generic USB function: the class-specific descriptors\<close>

text \<open>
  The end of \<open>_ffs_func_bind\<close>: which interfaces it finds, and what the association and communication
  class descriptors become. These steps are deterministic, so the lemmas are equations.
\<close>

subsection \<open>Class-specific numbers\<close>

lemma pos_of_add: "pos_of base ds i = base + pos_of 0 ds i"
  by (simp add: pos_of_def)

lemma nth_concat_pos:
  "i < length ds \<Longrightarrow> k < length (ds ! i) \<Longrightarrow> (concat ds @ os) ! (pos_of 0 ds i + k) = ds ! i ! k"
  "i < length ds \<Longrightarrow> k < length (ds ! i) \<Longrightarrow> pos_of 0 ds i + k < length (concat ds)"
  "i < length ds \<Longrightarrow> k < length (ds ! i) \<Longrightarrow> list_update (concat ds @ os) (pos_of 0 ds i + k) v = concat (ds[i := (ds ! i)[k := v]]) @ os"
proof -
  assume "i < length ds" "k < length (ds ! i)"
  then have ds: "ds = take i ds @ ds ! i # drop (Suc i) ds" by (simp add: id_take_nth_drop)
  have con: "concat ds = concat (take i ds) @ ds ! i @ concat (drop (Suc i) ds)"
    by (subst ds) simp
  then show "(concat ds @ os) ! (pos_of 0 ds i + k) = ds ! i ! k" "pos_of 0 ds i + k < length (concat ds)"
    using \<open>k < length (ds ! i)\<close> by (simp_all add: pos_of_def nth_append)
  have "concat (ds[i := x]) = concat (take i ds) @ x @ concat (drop (Suc i) ds)" for x
    using \<open>i < length ds\<close> by (simp add: upd_conv_take_nth_drop)
  then show "list_update (concat ds @ os) (pos_of 0 ds i + k) v = concat (ds[i := (ds ! i)[k := v]]) @ os"
    using \<open>k < length (ds ! i)\<close> by (simp add: con pos_of_def list_update_append)
qed

lemma pos_of_same:
  assumes "list_all2 (\<lambda>d d'. length d' = length d) ds ds'"
  shows "pos_of base ds' i = pos_of base ds i"
proof -
  have "length (concat ds') = length (concat ds)" if "list_all2 (\<lambda>d d'. length d' = length d) ds ds'" for ds ds' :: "u8 list list"
    using that by induction auto
  moreover have "list_all2 (\<lambda>d d'. length d' = length d) (take i ds) (take i ds')" using assms by (rule list_all2_takeI)
  ultimately show ?thesis by (simp add: pos_of_def)
qed

lemma pos_of_update: "length x = length (ds ! i) \<Longrightarrow> i < length ds \<Longrightarrow> pos_of base (ds[i := x]) = pos_of base ds"
  by (rule ext, rule pos_of_same) (auto simp: list_all2_conv_all_nth nth_list_update)

lemma rd8_at:
  "fn_raw s = concat ds @ os \<Longrightarrow> i < length ds \<Longrightarrow> k < length (ds ! i) \<Longrightarrow> rd8 (pos_of 0 ds i + k) f s = f (ds ! i ! k) s"
  using nth_concat_pos(1,2) [of i ds k] by (simp add: rd8_def trans_less_add1)

lemma wr8_at:
  "fn_raw s = concat ds @ os \<Longrightarrow> i < length ds \<Longrightarrow> k < length (ds ! i) \<Longrightarrow>
     wr8 (pos_of 0 ds i + k) v s = (Ok (), s\<lparr>fn_raw := concat (ds[i := (ds ! i)[k := v]]) @ os\<rparr>)"
  using nth_concat_pos(2,3) [of i ds k] by (simp add: wr8_def trans_less_add1)

text \<open>
  What a class-specific descriptor needs, when \<open>ci\<close> and \<open>di\<close> are the interfaces that were found, and
  what it becomes, when \<open>c\<close> and \<open>d\<close> are their descriptors.
\<close>

definition cdc_ok :: "nat option \<Rightarrow> nat option \<Rightarrow> u8 list \<Rightarrow> bool" where
  "cdc_ok ci di x \<longleftrightarrow> 2 \<le> length x
     \<and> (x ! 1 = USB_DT_INTERFACE_ASSOCIATION \<longrightarrow> 3 \<le> length x \<and> ci \<noteq> None)
     \<and> (x ! 1 = USB_DT_CS_INTERFACE \<longrightarrow> 3 \<le> length x
         \<and> (x ! 2 = USB_CDC_CALL_MANAGEMENT_TYPE \<longrightarrow> 5 \<le> length x \<and> di \<noteq> None)
         \<and> (x ! 2 = USB_CDC_UNION_TYPE \<longrightarrow> 5 \<le> length x \<and> ci \<noteq> None \<and> di \<noteq> None)
         \<and> (x ! 2 = USB_CDC_ETHERNET_TYPE \<longrightarrow> 4 \<le> length x \<and> ci \<noteq> None))"

definition cdc_value :: "u8 list \<Rightarrow> u8 list \<Rightarrow> u8 list \<Rightarrow> u8 list" where
  "cdc_value c d x =
     (if x ! 1 = USB_DT_INTERFACE_ASSOCIATION then x[2 := c ! 2]
      else if x ! 1 = USB_DT_CS_INTERFACE then
        (if x ! 2 = USB_CDC_CALL_MANAGEMENT_TYPE then x[4 := d ! 2]
         else if x ! 2 = USB_CDC_UNION_TYPE then x[3 := c ! 2, 4 := d ! 2]
         else if x ! 2 = USB_CDC_ETHERNET_TYPE then x[3 := c ! 8 + 1]
         else x)
      else x)"

lemma length_cdc_value [simp]: "length (cdc_value c d x) = length x"
  by (simp add: cdc_value_def)

definition found_at :: "u8 list list \<Rightarrow> nat option \<Rightarrow> u8 list \<Rightarrow> bool" where
  "found_at ds ci c \<longleftrightarrow> (\<forall>i. ci = Some i \<longrightarrow> i < length ds \<and> ds ! i = c \<and> length c = 9 \<and> c ! 1 = USB_DT_INTERFACE)"

lemma fn_raw_twice: "s\<lparr>fn_raw := a, fn_raw := b\<rparr> = s\<lparr>fn_raw := b\<rparr>"
  by simp

text \<open>One byte of the descriptor \<open>c\<close> goes, possibly changed, into the \<open>i\<close>-th descriptor.\<close>

lemma copy_at:
  assumes raw: "fn_raw s = concat ds @ os" and i: "i < length ds" "k < length (ds ! i)"
    and ci: "ci = Some n" "found_at ds ci c" and j: "j < 9"
  shows "deref (map_option (pos_of 0 ds) ci) (\<lambda>p. rd8 (p + j) (\<lambda>v. wr8 (pos_of 0 ds i + k) (g v))) s
    = (Ok (), s\<lparr>fn_raw := concat (ds[i := (ds ! i)[k := g (c ! j)]]) @ os\<rparr>)"
proof -
  have n: "n < length ds" "ds ! n = c" "length c = 9" using ci by (auto simp: found_at_def)
  then have "rd8 (pos_of 0 ds n + j) f s = f (c ! j) s" for f :: "u8 \<Rightarrow> ffs_function \<Rightarrow> unit res \<times> ffs_function"
    using rd8_at [OF raw, of n j] j by simp
  then show ?thesis using wr8_at [OF raw i] by (simp add: deref_def ci(1))
qed

lemma cdc_fixup_eq:
  assumes raw: "fn_raw s = concat ds @ os" and i: "i < length ds" and ok: "cdc_ok ci di (ds ! i)"
    and ci: "found_at ds ci c" and di: "found_at ds di d"
  shows "cdc_fixup (map_option (pos_of 0 ds) ci) (map_option (pos_of 0 ds) di) (pos_of 0 ds i) s
    = (Ok (), s\<lparr>fn_raw := concat (ds[i := cdc_value c d (ds ! i)]) @ os\<rparr>)"
proof -
  let ?x = "ds ! i" and ?p = "pos_of 0 ds i"
  have lt2: "(2::nat) < 9" and lt8: "(8::nat) < 9" by simp_all
  have "1 < length ?x" using ok by (simp add: cdc_ok_def)
  note type = rd8_at [OF raw i this]
  have same: "s = s\<lparr>fn_raw := concat (ds[i := ?x]) @ os\<rparr>" using raw by simp
  show ?thesis
  proof (cases "?x ! 1 = USB_DT_INTERFACE_ASSOCIATION")
    case True
    then obtain n where n: "ci = Some n" "2 < length ?x" using ok by (auto simp: cdc_ok_def)
    show ?thesis unfolding cdc_fixup_def type if_P [OF True] copy_at [OF raw i n(2,1) ci lt2, of "\<lambda>v. v"]
      using True by (simp add: cdc_value_def)
  next
    case not_iad: False
    show ?thesis
    proof (cases "?x ! 1 = USB_DT_CS_INTERFACE")
      case False
      show ?thesis unfolding cdc_fixup_def type if_not_P [OF not_iad] if_not_P [OF False]
        using same not_iad False by (simp add: cdc_value_def)
    next
      case cs: True
      have "2 < length ?x" using ok cs by (simp add: cdc_ok_def)
      note sub = rd8_at [OF raw i this]
      note fix_up = cdc_fixup_def type if_not_P [OF not_iad] if_P [OF cs] sub
      consider (call) "?x ! 2 = USB_CDC_CALL_MANAGEMENT_TYPE" | (union) "?x ! 2 = USB_CDC_UNION_TYPE" | (ether) "?x ! 2 = USB_CDC_ETHERNET_TYPE"
        | (other) "?x ! 2 \<noteq> USB_CDC_CALL_MANAGEMENT_TYPE" "?x ! 2 \<noteq> USB_CDC_UNION_TYPE" "?x ! 2 \<noteq> USB_CDC_ETHERNET_TYPE" by blast
      then show ?thesis
      proof cases
        case call
        then obtain n where n: "di = Some n" "4 < length ?x" using ok cs by (auto simp: cdc_ok_def)
        show ?thesis unfolding fix_up if_P [OF call] copy_at [OF raw i n(2,1) di lt2, of "\<lambda>v. v"]
          using cs call by (simp add: cdc_value_def)
      next
        case union
        then obtain n m where n: "ci = Some n" "di = Some m" "3 < length ?x" "4 < length ?x" using ok cs by (auto simp: cdc_ok_def)
        let ?ds = "ds[i := ?x[3 := c ! 2]]"
        have pos: "pos_of 0 ?ds = pos_of 0 ds" by (rule pos_of_update) (use i in simp_all)
        have m: "m < length ds" "ds ! m = d" "d ! 1 = USB_DT_INTERFACE" "m \<noteq> i" "length d = 9" using di n cs by (auto simp: found_at_def)
        then have found: "found_at ?ds di d" by (auto simp: found_at_def n)
        have second: "deref (map_option (pos_of 0 ds) di) (\<lambda>p. rd8 (p + 2) (\<lambda>v. wr8 (?p + 4) v)) (s\<lparr>fn_raw := concat ?ds @ os\<rparr>)
          = (Ok (), s\<lparr>fn_raw := concat (ds[i := ?x[3 := c ! 2, 4 := d ! 2]]) @ os\<rparr>)"
          using copy_at [of "s\<lparr>fn_raw := concat ?ds @ os\<rparr>" ?ds os i 4 di m d 2 "\<lambda>v. v", unfolded pos] i n found by (simp only:) simp
        show ?thesis unfolding fix_up copy_at [OF raw i n(3,1) ci lt2, of "\<lambda>v. v"]
          using cs union second by (simp add: cdc_value_def)
      next
        case ether
        then obtain n where n: "ci = Some n" "3 < length ?x" using ok cs by (auto simp: cdc_ok_def)
        show ?thesis unfolding fix_up copy_at [OF raw i n(2,1) ci lt8, of "\<lambda>v. v + 1"]
          using cs ether by (simp add: cdc_value_def)
      next
        case other
        then show ?thesis unfolding fix_up using same cs by (simp add: cdc_value_def)
      qed
    qed
  qed
qed

text \<open>A pass of the fix-ups over one of the arrays: \<open>ys\<close> are the descriptors it points at.\<close>

lemma cdc_value_interface: "x ! 1 = USB_DT_INTERFACE \<Longrightarrow> cdc_value c d x = x"
  by (simp add: cdc_value_def)

lemma found_at_value: "found_at ds ci c \<Longrightarrow> i < length ds \<Longrightarrow> found_at (ds[i := cdc_value c' d' (ds ! i)]) ci c"
  by (auto simp: found_at_def nth_list_update cdc_value_interface)

definition points :: "nat option list \<Rightarrow> u8 list list \<Rightarrow> nat \<Rightarrow> nat \<Rightarrow> nat \<Rightarrow> bool" where
  "points a ds b n k \<longleftrightarrow> (\<forall>i < k. n + i < length a \<and> a ! (n + i) = Some (pos_of 0 ds (b + n + i)))"

lemma points_Suc: "points a ds b n (Suc k) \<longleftrightarrow> n < length a \<and> a ! n = Some (pos_of 0 ds (b + n)) \<and> points a ds b (Suc n) k"
  unfolding points_def by (simp add: All_less_Suc2)

lemma cdc_fixups_run:
  assumes "\<And>s r. arr (s\<lparr>fn_raw := r\<rparr>) = arr s" and "arr s = Some a"
    and "fn_raw s = concat (xs @ ys @ zs) @ os" and "points a (xs @ ys @ zs) b n (length ys)" and "length xs = b + n"
    and "\<forall>y \<in> set ys. cdc_ok ci di y" and "found_at (xs @ ys @ zs) ci c" and "found_at (xs @ ys @ zs) di d"
  shows "cdc_fixups arr (length ys) n (map_option (pos_of 0 (xs @ ys @ zs)) ci) (map_option (pos_of 0 (xs @ ys @ zs)) di) s
    = (Ok (), s\<lparr>fn_raw := concat (xs @ map (cdc_value c d) ys @ zs) @ os\<rparr>)"
  using assms(2-)
proof (induction ys arbitrary: n xs s)
  case Nil
  then have "s = s\<lparr>fn_raw := concat (xs @ zs) @ os\<rparr>" by simp
  then show ?case by simp
next
  case (Cons y ys)
  let ?ds = "xs @ (y # ys) @ zs" and ?y = "cdc_value c d y"
  let ?ds1 = "(xs @ [?y]) @ ys @ zs" and ?s1 = "s\<lparr>fn_raw := concat ((xs @ [?y]) @ ys @ zs) @ os\<rparr>"
  have i: "length xs < length ?ds" and y: "?ds ! length xs = y" and upd: "?ds[length xs := x] = (xs @ [x]) @ ys @ zs" for x by simp_all
  have ds1: "?ds1 = ?ds[length xs := cdc_value c d (?ds ! length xs)]" by simp
  have pos: "pos_of 0 ?ds1 = pos_of 0 ?ds" unfolding ds1 by (rule pos_of_update) simp_all
  have found: "found_at ?ds1 ci c" "found_at ?ds1 di d"
    unfolding ds1 using Cons.prems(6,7) i by (simp_all only: found_at_value)
  have pt: "n < length a" "a ! n = Some (pos_of 0 ?ds (length xs))" "points a ?ds b (Suc n) (length ys)"
    using Cons.prems(3,4) by (simp_all add: points_Suc)
  have ok: "cdc_ok ci di (?ds ! length xs)" using Cons.prems(5) by simp
  have step: "desc_of (arr s) n (cdc_fixup (map_option (pos_of 0 ?ds) ci) (map_option (pos_of 0 ?ds) di)) s = (Ok (), ?s1)"
    using cdc_fixup_eq [OF Cons.prems(2) i ok Cons.prems(6,7)] pt(1,2) Cons.prems(1)
    by (simp only: desc_of_def deref_def option.case y upd) simp
  have "cdc_fixups arr (length ys) (Suc n) (map_option (pos_of 0 ?ds1) ci) (map_option (pos_of 0 ?ds1) di) ?s1
    = (Ok (), ?s1\<lparr>fn_raw := concat ((xs @ [?y]) @ map (cdc_value c d) ys @ zs) @ os\<rparr>)"
  proof (rule Cons.IH)
    show "arr ?s1 = Some a" using Cons.prems(1) assms(1) by simp
    show "points a ?ds1 b (Suc n) (length ys)" using pt(3) by (simp only: points_def pos)
  qed (use Cons.prems(4,5) found in simp_all)
  then show ?case by (simp only: pos cdc_fixups.simps length_Cons step bindS.simps) simp
qed

text \<open>The interfaces with endpoints among the first \<open>n\<close> descriptors, from the \<open>i\<close>-th on.\<close>

definition has_endpoints :: "u8 list \<Rightarrow> bool" where
  "has_endpoints x \<longleftrightarrow> x ! 1 = USB_DT_INTERFACE \<and> x ! 4 \<noteq> 0"

fun first_with :: "u8 list list \<Rightarrow> nat \<Rightarrow> nat \<Rightarrow> nat option" where
  "first_with ds 0 i = None"
| "first_with ds (Suc k) i = (if has_endpoints (ds ! i) then Some i else first_with ds k (Suc i))"

fun next_with :: "u8 list list \<Rightarrow> nat \<Rightarrow> nat \<Rightarrow> nat option" where
  "next_with ds 0 i = None"
| "next_with ds (Suc k) i = (if has_endpoints (ds ! i) then first_with ds k (Suc i) else next_with ds k (Suc i))"

lemma first_with_Some:
  "first_with ds k i = Some n \<Longrightarrow> i \<le> n \<and> n < i + k \<and> has_endpoints (ds ! n)"
  by (induction ds k i rule: first_with.induct) (auto split: if_splits)

lemma next_with_Some:
  "next_with ds k i = Some n \<Longrightarrow> i \<le> n \<and> n < i + k \<and> has_endpoints (ds ! n)"
  by (induction ds k i rule: next_with.induct) (auto split: if_splits dest: first_with_Some)

lemma find_intfs_step:
  assumes "fn_fs s = Some a" and "fn_raw s = concat ds @ os" and "n + k \<le> length ds" and "points a ds 0 n k"
    and "\<And>i. i < length ds \<Longrightarrow> 2 \<le> length (ds ! i) \<and> (ds ! i ! 1 = USB_DT_INTERFACE \<longrightarrow> length (ds ! i) = 9)"
  shows "find_intfs k n (Some p) s = (Ok (Some p, map_option (pos_of 0 ds) (first_with ds k n)), s)"
    and "find_intfs k n None s = (Ok (map_option (pos_of 0 ds) (first_with ds k n), map_option (pos_of 0 ds) (next_with ds k n)), s)"
proof -
  have step: "find_intfs (Suc k) n ctl s =
      (if has_endpoints (ds ! n)
       then case ctl of None \<Rightarrow> find_intfs k (n + 1) (Some (pos_of 0 ds n)) s | Some _ \<Rightarrow> (Ok (ctl, Some (pos_of 0 ds n)), s)
       else find_intfs k (n + 1) ctl s)"
    if "n + Suc k \<le> length ds" "points a ds 0 n (Suc k)" for k n ctl
  proof -
    have n: "n < length ds" "n < length a" "a ! n = Some (pos_of 0 ds n)" using that by (simp_all add: points_Suc)
    have len: "1 < length (ds ! n)" "ds ! n ! 1 = USB_DT_INTERFACE \<longrightarrow> 4 < length (ds ! n)" using assms(5) [OF n(1)] by auto
    note rd = rd8_at [OF assms(2) n(1) len(1)]
    show ?thesis
    proof (cases "ds ! n ! 1 = USB_DT_INTERFACE")
      case True
      then have "4 < length (ds ! n)" using len by blast
      note rd4 = rd8_at [OF assms(2) n(1) this]
      show ?thesis using True n by (auto simp: desc_of_def deref_def assms(1) rd [simplified] rd4 has_endpoints_def split: option.split)
    next
      case False
      then show ?thesis using n by (simp add: desc_of_def deref_def assms(1) rd [simplified] has_endpoints_def)
    qed
  qed
  have first': "find_intfs k n (Some p) s = (Ok (Some p, map_option (pos_of 0 ds) (first_with ds k n)), s)"
    if "n + k \<le> length ds" "points a ds 0 n k" for p k n
    using that
  proof (induction k arbitrary: n)
    case (Suc k)
    then show ?case using step [OF Suc.prems] by (simp add: points_Suc)
  qed simp
  show "find_intfs k n (Some p) s = (Ok (Some p, map_option (pos_of 0 ds) (first_with ds k n)), s)" by (rule first' [OF assms(3,4)])
  show "find_intfs k n None s = (Ok (map_option (pos_of 0 ds) (first_with ds k n), map_option (pos_of 0 ds) (next_with ds k n)), s)"
    using assms(3,4)
  proof (induction k arbitrary: n)
    case (Suc k)
    then show ?case using step [OF Suc.prems] first' [of "Suc n" k] by (simp add: points_Suc)
  qed simp
qed

end
