(* ===== verification/Ffs_Bind_Whole.thy ===== *)
theory Ffs_Bind_Whole
  imports Ffs_Bind_Cdc
begin

section \<open>Generic USB function: the whole binding\<close>

text \<open>
  The composition of the passes in \<open>_ffs_func_bind\<close>: what the data must be (\<open>bindable\<close>, \<open>names_ok\<close>,
  \<open>cdc_bindable\<close>), and what the copy of the descriptors, the arrays and the endpoints are afterwards
  (\<open>bound_copy\<close>, \<open>ready\<close>).
\<close>

subsection \<open>The two passes over all speeds\<close>

text \<open>A descriptor with its own header, which is as long as it says.\<close>

definition whole :: "u8 list \<Rightarrow> bool" where
  "whole d \<longleftrightarrow> desc_wf d \<and> length d = unat (d ! 0)"

lemma whole_append: "whole d \<Longrightarrow> desc_wf (d @ rest) \<and> (d @ rest) ! 0 = d ! 0"
  by (auto simp: whole_def desc_wf_def nth_append split: option.splits)

lemma whole_split: "(\<forall>d \<in> set ds. whole d) \<Longrightarrow> split_descs (length ds) (concat ds @ os) = Some (ds, os)"
proof (induction ds)
  case (Cons d ds)
  then show ?case using whole_append [of d "concat ds @ os"] by (simp add: whole_def)
qed simp

lemma split_whole:
  "split_descs k data = Some (ds, rest) \<Longrightarrow> \<forall>d \<in> set ds. 2 \<le> length d \<Longrightarrow> length ds = k \<and> (\<forall>d \<in> set ds. whole d)"
proof (induction k arbitrary: data ds)
  case (Suc k)
  let ?n = "unat (data ! 0)"
  from Suc.prems(1) obtain ds' where wf: "desc_wf data" and tail: "split_descs k (drop ?n data) = Some (ds', rest)"
    and ds: "ds = take ?n data # ds'" by (auto split: if_splits)
  have "2 \<le> length (take ?n data)" using Suc.prems(2) ds by simp
  then have "whole (take ?n data)" using wf by (auto simp: whole_def desc_wf_def split: option.splits)
  then show ?case using Suc.IH [OF tail] Suc.prems(2) ds by simp
qed simp

lemma whole_kept:
  assumes "whole d" and "head_kept d d'"
  shows "whole d'"
proof -
  have len: "2 \<le> length d" "length d' = length d" "take 2 d' = take 2 d" using assms by (auto simp: whole_def desc_wf_def head_kept_def)
  have "d' ! i = d ! i" if "i < 2" for i
    using nth_take [OF that, of d] nth_take [OF that, of d'] len(3) by simp
  then show ?thesis using assms(1) len by (auto simp: whole_def desc_wf_def split: option.splits)
qed

lemma whole_size: "whole d \<Longrightarrow> 2 \<le> length d" "whole d \<Longrightarrow> d ! 1 = USB_DT_INTERFACE \<Longrightarrow> length d = 9"
  by (auto simp: whole_def desc_wf_def desc_lengths_def)

text \<open>
  The copy in the middle of the first pass: the descriptors \<open>vis\<close> are behind it, \<open>todo\<close> are still
  as they were.
\<close>

definition half :: "u8 list list \<Rightarrow> u8 list list \<Rightarrow> u8 list \<Rightarrow> ffs_function \<Rightarrow> bool" where
  "half vis todo os s \<longleftrightarrow> (\<exists>as. fn_raw s = concat (as @ todo) @ os \<and> list_all2 ep_rewritten vis as)"

definition ready_speed :: "ffs_data \<Rightarrow> nat \<Rightarrow> nat \<Rightarrow> u8 list list \<Rightarrow> ffs_function \<Rightarrow> bool" where
  "ready_speed ffs j base ds s \<longleftrightarrow> (ds \<noteq> [] \<longrightarrow> pointed j base ds (length ds) s \<and> (\<forall>d \<in> set ds. claimed ffs j s d))"

definition other_speeds :: "nat \<Rightarrow> ffs_function \<Rightarrow> ffs_function \<Rightarrow> bool" where
  "other_speeds j s s' \<longleftrightarrow> list_all2 ep_le (fn_eps s) (fn_eps s') \<and> fn_nums s' = fn_nums s \<and> fn_string_ids s' = fn_string_ids s
     \<and> (\<forall>i \<le> 2. i \<noteq> j \<longrightarrow> speed_descs i s' = speed_descs i s)"

lemma list_all2_ep_rewritten_length:
  "list_all2 ep_rewritten vis as \<Longrightarrow> length (concat as) = length (concat vis)"
  by (induction rule: list_all2_induct) (auto simp: ep_rewritten_def)

definition new_array :: "u32 \<Rightarrow> nat option list option" where
  "new_array count = Some (replicate (unat count + 1) None)"

lemma bind_speed_post:
  assumes "half vis (ds @ todo) os s" and whole: "\<forall>d \<in> set ds. whole d" and count: "length ds = unat count" and j: "j \<le> 2"
    and base: "base = length (concat vis)" and size: "length (raw_descs ffs) = length (fn_raw s)"
    and tabs: "eps_tables ffs s" and reuse: "ds \<noteq> [] \<Longrightarrow> reusable j s" and known: "known_endpoints ffs ds"
    and put: "fn_eps (put x s) = fn_eps s" "fn_raw (put x s) = fn_raw s" "fn_nums (put x s) = fn_nums s" "fn_string_ids (put x s) = fn_string_ids s"
      "fn_revmap (put x s) = fn_revmap s" "speed_descs j (put x s) = x" "\<forall>i \<le> 2. i \<noteq> j \<longrightarrow> speed_descs i (put x s) = speed_descs i s"
      "desc_id (put x s) = j" and x: "x = new_array count"
  shows "post (bind_speed env ffs put count base s)
    (\<lambda>n s'. n = length (concat ds) \<and> half (vis @ ds) todo os s' \<and> eps_tables ffs s' \<and> (ds = [] \<longrightarrow> s' = s) \<and> (ds \<noteq> [] \<longrightarrow> reusable j s')
       \<and> ready_speed ffs j base ds s' \<and> other_speeds j s s' \<and> length (fn_raw s') = length (fn_raw s)) (\<lambda>_ _. True)"
proof (cases "count = 0")
  case True
  then have "ds = []" using count by simp
  then show ?thesis using True assms(1) tabs
    by (simp add: bind_speed_def ready_speed_def other_speeds_def list_all2_refl)
next
  case False
  then have ds: "ds \<noteq> []" using count by (metis length_0_conv unat_eq_0)
  define s1 where "s1 = put x s"
  from assms(1) obtain as where raw: "fn_raw s = concat (as @ ds @ todo) @ os" and as: "list_all2 ep_rewritten vis as" by (auto simp: half_def)
  have pre: "length (concat as) = base" using list_all2_ep_rewritten_length [OF as] base by simp
  let ?rest = "concat todo @ os"
  have raw1: "fn_raw s1 = concat as @ concat ds @ ?rest" using raw put(2) by (simp add: s1_def)
  have inv: "eps_inv ffs ds base j 0 s1"
    using tabs reuse [OF ds] known put(1,2,5,6,8) count
    by (simp add: eps_inv_def eps_tables_def reusable_def pointed_def s1_def x new_array_def)
  have walk: "post (descs_at_loop (bind_do_descs env ffs) (unat count) 0 (length (concat as)) (length (concat ds @ ?rest)) s1)
     (descs_pass.walked ds base ffs j (concat as) 0 ?rest s1) (\<lambda>_ _. True)"
    using whole_split [OF whole, of ?rest] count inv raw1 pre
    by (intro descs_pass.walk) (simp_all add: pos_of_def)
  have len: "length (raw_descs ffs) - base = length (concat ds @ ?rest)" using size raw pre by simp
  have "post (descs_at (bind_do_descs env ffs) (unat count) base (length (raw_descs ffs) - base) s1)
     (\<lambda>n s'. \<exists>p. n = p - base \<and> descs_pass.walked ds base ffs j (concat as) 0 ?rest s1 p s') (\<lambda>_ _. True)"
    unfolding descs_at_def len by (rule post_bindS [OF walk [unfolded pre]]) auto
  then have "post (bind_speed env ffs put count base s)
     (\<lambda>n s'. \<exists>p. n = p - base \<and> descs_pass.walked ds base ffs j (concat as) 0 ?rest s1 p s') (\<lambda>_ _. True)"
    using False by (simp add: bind_speed_def s1_def x new_array_def)
  then show ?thesis
  proof (rule post_mono, goal_cases)
    case (1 n s')
    then obtain p where n: "n = p - base" and w: "descs_pass.walked ds base ffs j (concat as) 0 ?rest s1 p s'" by blast
    from w obtain ds' where p: "p = pos_of base ds (length ds)" and fin: "eps_inv ffs ds base j (length ds) s'" and le: "eps_grow j s1 s'"
      and raw': "fn_raw s' = concat as @ concat ds' @ ?rest"
      and R: "list_all2 (\<lambda>d d'. ep_rewritten d d' \<and> claimed ffs j s' d) ds ds'"
      by (auto simp: descs_pass.walked_def)
    have rew: "list_all2 ep_rewritten ds ds'" using R by (rule list_all2_mono) simp
    have "\<forall>d \<in> set ds. claimed ffs j s' d" using R by (auto simp: list_all2_conv_all_nth in_set_conv_nth)
    then have "ready_speed ffs j base ds s'" using fin by (simp add: ready_speed_def eps_inv_def)
    moreover have "half (vis @ ds) todo os s'"
      unfolding half_def using raw' list_all2_appendI [OF as rew] by (intro exI [of _ "as @ ds'"]) simp
    moreover have "other_speeds j s s'" using le put by (auto simp: other_speeds_def eps_grow_def s1_def)
    moreover have "length (fn_raw s') = length (fn_raw s)" using raw raw' list_all2_ep_rewritten_length [OF rew] by simp
    ultimately show ?case using n p fin ds by (simp add: pos_of_def eps_inv_def)
  qed simp
qed

lemma claimed_later: "claimed ffs j s d \<Longrightarrow> list_all2 ep_le (fn_eps s) (fn_eps s') \<Longrightarrow> claimed ffs j s' d"
  unfolding claimed_def list_all2_conv_all_nth ep_le_def by (metis option.discI)

lemma ready_speed_later:
  assumes "ready_speed ffs j base ds s" and "list_all2 ep_le (fn_eps s) (fn_eps s')" and "speed_descs j s' = speed_descs j s"
  shows "ready_speed ffs j base ds s'"
  using assms claimed_later unfolding ready_speed_def pointed_def by metis

text \<open>
  The full speed descriptors declare every endpoint, so that the descriptors of the later speeds find
  an address to copy.
\<close>

definition full_speed :: "ffs_data \<Rightarrow> u8 list list \<Rightarrow> bool" where
  "full_speed ffs fs \<longleftrightarrow> (\<forall>i < unat (eps_count ffs). \<exists>d \<in> set fs. endpoint d \<and> ffs_ep_addr2idx ffs (d ! 2) = Some (Suc i))"

lemma full_speed_reusable:
  assumes "full_speed ffs fs" and "fs \<noteq> []" and "ready_speed ffs 0 base fs s" and "length (fn_eps s) = unat (eps_count ffs)"
  shows "reusable j s"
  unfolding reusable_def
proof
  fix e assume "e \<in> set (fn_eps s)"
  then obtain i where i: "i < unat (eps_count ffs)" "e = fn_eps s ! i" using assms(4) by (auto simp: in_set_conv_nth)
  with assms(1) obtain d where d: "d \<in> set fs" "endpoint d" "ffs_ep_addr2idx ffs (d ! 2) = Some (Suc i)" by (auto simp: full_speed_def)
  then have "claimed ffs 0 s d" using assms(2,3) by (simp add: ready_speed_def)
  then show "ep_hw e \<noteq> None \<longrightarrow> ep_descs e ! j \<noteq> None \<or> ep_descs e ! 0 \<noteq> None" using d i by (simp add: claimed_def)
qed

lemma new_array_Some [simp]: "(\<exists>y. new_array count = Some y)" "new_array count \<noteq> None"
  by (simp_all add: new_array_def)

text \<open>What the speeds that user space declared must be for the binding.\<close>

definition bindable :: "ffs_data \<Rightarrow> u8 list list \<Rightarrow> u8 list list \<Rightarrow> u8 list list \<Rightarrow> u8 list \<Rightarrow> bool" where
  "bindable ffs fs hs ss os \<longleftrightarrow> raw_descs ffs = concat (fs @ hs @ ss) @ os
     \<and> length fs = unat (fs_descs_count ffs) \<and> length hs = unat (hs_descs_count ffs) \<and> length ss = unat (ss_descs_count ffs)
     \<and> length (fs @ hs @ ss) < 2 ^ 32
     \<and> (\<forall>d \<in> set (fs @ hs @ ss). whole d) \<and> unat (eps_count ffs) < FFS_MAX_EPS_COUNT
     \<and> known_endpoints ffs (fs @ hs @ ss) \<and> (hs = [] \<or> ss = [] \<or> full_speed ffs fs \<and> fs \<noteq> [])"

definition unbound :: "ffs_data \<Rightarrow> ffs_function \<Rightarrow> bool" where
  "unbound ffs s \<longleftrightarrow> fn_fs s = None \<and> fn_hs s = None \<and> fn_ss s = None \<and> length (fn_revmap s) = 16
     \<and> (\<forall>b \<in> set (fn_revmap s). unat b \<le> unat (eps_count ffs))"

definition ready :: "ffs_data \<Rightarrow> u8 list list \<Rightarrow> u8 list list \<Rightarrow> u8 list list \<Rightarrow> ffs_function \<Rightarrow> bool" where
  "ready ffs fs hs ss s \<longleftrightarrow> ready_speed ffs 0 0 fs s \<and> ready_speed ffs 1 (length (concat fs)) hs s
     \<and> ready_speed ffs 2 (length (concat fs) + length (concat hs)) ss s"

definition start :: "ffs_data \<Rightarrow> ffs_function \<Rightarrow> ffs_function" where
  "start ffs s = s\<lparr>fn_raw := raw_descs ffs,
     fn_eps := replicate (unat (eps_count ffs)) \<lparr>ep_hw = None, ep_descs = [None, None, None]\<rparr>,
     fn_nums := replicate (unat (interfaces_count ffs)) (- 1)\<rparr>"

lemma speed_descs_simps [simp]:
  "speed_descs 0 s = fn_fs s" "speed_descs 1 s = fn_hs s" "speed_descs (Suc 0) s = fn_hs s" "speed_descs 2 s = fn_ss s"
  by (simp_all add: speed_descs_def)

lemma all_le_2: "(\<forall>i \<le> (2::nat). P i) \<longleftrightarrow> P 0 \<and> P 1 \<and> P 2"
  by (auto simp: le_Suc_eq numeral_2_eq_2)

abbreviation (input) put_fs where "put_fs \<equiv> \<lambda>a s. s\<lparr>fn_fs := a\<rparr>"
abbreviation (input) put_hs where "put_hs \<equiv> \<lambda>a s. s\<lparr>fn_hs := a\<rparr>"
abbreviation (input) put_ss where "put_ss \<equiv> \<lambda>a s. s\<lparr>fn_ss := a\<rparr>"

definition descs_passed :: "ffs_data \<Rightarrow> u8 list list \<Rightarrow> u8 list list \<Rightarrow> u8 list list \<Rightarrow> u8 list \<Rightarrow> ffs_function \<Rightarrow> ffs_function \<Rightarrow> bool" where
  "descs_passed ffs fs hs ss os s s' \<longleftrightarrow> half (fs @ hs @ ss) [] os s' \<and> eps_tables ffs s' \<and> ready ffs fs hs ss s'
     \<and> fn_nums s' = fn_nums s \<and> fn_string_ids s' = fn_string_ids s"

lemma first_pass_post:
  assumes b: "bindable ffs fs hs ss os" and u: "unbound ffs s0" and s: "s = start ffs s0"
  shows "post (bindS (bind_speed env ffs put_fs (fs_descs_count ffs) 0 s) (\<lambda>fs_len s.
      bindS (bind_speed env ffs put_hs (hs_descs_count ffs) fs_len s) (\<lambda>hs_len s.
      bind_speed env ffs put_ss (ss_descs_count ffs) (fs_len + hs_len) s)))
    (\<lambda>_. descs_passed ffs fs hs ss os s) (\<lambda>_ _. True)"
proof -
  have len: "length fs = unat (fs_descs_count ffs)" "length hs = unat (hs_descs_count ffs)" "length ss = unat (ss_descs_count ffs)"
    and w: "\<forall>d \<in> set fs. whole d" "\<forall>d \<in> set hs. whole d" "\<forall>d \<in> set ss. whole d"
    and known: "known_endpoints ffs fs" "known_endpoints ffs hs" "known_endpoints ffs ss"
    and again: "hs = [] \<or> ss = [] \<or> full_speed ffs fs \<and> fs \<noteq> []"
    using b by (auto simp: bindable_def known_endpoints_def)
  have raw: "length (raw_descs ffs) = length (fn_raw s)" by (simp add: s start_def)
  have half0: "half [] (fs @ (hs @ ss)) os s" using b by (simp add: half_def s start_def bindable_def)
  have tabs: "eps_tables ffs s" using b u by (auto simp: eps_tables_def s start_def bindable_def unbound_def)
  have reuse: "reusable j s" for j by (simp add: reusable_def s start_def)
  have none: "fn_fs s = None" "fn_hs s = None" "fn_ss s = None" using u by (simp_all add: s start_def unbound_def)
  show ?thesis
  proof (rule post_bindS)
    show "post (bind_speed env ffs put_fs (fs_descs_count ffs) 0 s)
      (\<lambda>n s1. n = length (concat fs) \<and> half fs (hs @ ss) os s1 \<and> eps_tables ffs s1 \<and> (fs = [] \<longrightarrow> s1 = s) \<and> (fs \<noteq> [] \<longrightarrow> reusable 0 s1)
         \<and> ready_speed ffs 0 0 fs s1 \<and> other_speeds 0 s s1 \<and> length (fn_raw s1) = length (fn_raw s)) (\<lambda>_ _. True)"
      using bind_speed_post [OF half0 w(1) len(1), of 0 0 ffs put_fs "new_array (fs_descs_count ffs)" env] raw tabs reuse known none
      by (simp add: all_le_2 desc_id_def)
  next
    fix n s1
    assume 1: "n = length (concat fs) \<and> half fs (hs @ ss) os s1 \<and> eps_tables ffs s1 \<and> (fs = [] \<longrightarrow> s1 = s) \<and> (fs \<noteq> [] \<longrightarrow> reusable 0 s1)
         \<and> ready_speed ffs 0 0 fs s1 \<and> other_speeds 0 s s1 \<and> length (fn_raw s1) = length (fn_raw s)"
    note first = 1
    have reuse1: "reusable j s1" for j
      using 1 reuse by (cases "fs = []") (auto simp: reusable_def)
    have none1: "fn_hs s1 = None" "fn_ss s1 = None" using 1 none by (auto simp: other_speeds_def all_le_2)
    show "post (bindS (bind_speed env ffs put_hs (hs_descs_count ffs) n s1) (\<lambda>hs_len s.
        bind_speed env ffs put_ss (ss_descs_count ffs) (n + hs_len) s)) (\<lambda>_. descs_passed ffs fs hs ss os s) (\<lambda>_ _. True)"
    proof (rule post_bindS)
      show "post (bind_speed env ffs put_hs (hs_descs_count ffs) n s1)
        (\<lambda>m s2. m = length (concat hs) \<and> half (fs @ hs) ss os s2 \<and> eps_tables ffs s2 \<and> (hs = [] \<longrightarrow> s2 = s1) \<and> (hs \<noteq> [] \<longrightarrow> reusable 1 s2)
           \<and> ready_speed ffs 1 n hs s2 \<and> other_speeds 1 s1 s2 \<and> length (fn_raw s2) = length (fn_raw s1)) (\<lambda>_ _. True)"
        using bind_speed_post [of fs hs ss os s1 "hs_descs_count ffs" 1 n ffs put_hs "new_array (hs_descs_count ffs)" env]
          1 w len raw reuse1 known none1 by (simp add: all_le_2 desc_id_def)
    next
      fix m s2
      assume 2: "m = length (concat hs) \<and> half (fs @ hs) ss os s2 \<and> eps_tables ffs s2 \<and> (hs = [] \<longrightarrow> s2 = s1) \<and> (hs \<noteq> [] \<longrightarrow> reusable 1 s2)
           \<and> ready_speed ffs 1 n hs s2 \<and> other_speeds 1 s1 s2 \<and> length (fn_raw s2) = length (fn_raw s1)"
      have r0: "ready_speed ffs 0 0 fs s2" by (rule ready_speed_later [of ffs 0 0 fs s1 s2]) (use 1 2 in \<open>simp_all add: other_speeds_def all_le_2\<close>)
      have reuse2: "ss \<noteq> [] \<Longrightarrow> reusable 2 s2"
        using again reuse1 2 full_speed_reusable [OF _ _ r0] by (auto simp: eps_tables_def)
      have none2: "fn_ss s2 = None" using 2 none1 by (simp add: other_speeds_def all_le_2)
      have "post (bind_speed env ffs put_ss (ss_descs_count ffs) (n + m) s2)
        (\<lambda>k s3. k = length (concat ss) \<and> half ((fs @ hs) @ ss) [] os s3 \<and> eps_tables ffs s3 \<and> (ss = [] \<longrightarrow> s3 = s2) \<and> (ss \<noteq> [] \<longrightarrow> reusable 2 s3)
           \<and> ready_speed ffs 2 (n + m) ss s3 \<and> other_speeds 2 s2 s3 \<and> length (fn_raw s3) = length (fn_raw s2)) (\<lambda>_ _. True)"
        using bind_speed_post [of "fs @ hs" ss "[]" os s2 "ss_descs_count ffs" 2 "n + m" ffs put_ss "new_array (ss_descs_count ffs)" env]
          1 2 w len raw reuse2 known none2 by (simp add: all_le_2 desc_id_def)
      then show "post (bind_speed env ffs put_ss (ss_descs_count ffs) (n + m) s2) (\<lambda>_. descs_passed ffs fs hs ss os s) (\<lambda>_ _. True)"
      proof (rule post_mono, goal_cases)
        case (1 k s3)
        have "ready_speed ffs 0 0 fs s3" by (rule ready_speed_later [OF r0]) (use 1 in \<open>simp_all add: other_speeds_def all_le_2\<close>)
        moreover have "ready_speed ffs 1 n hs s3"
          by (rule ready_speed_later [of ffs 1 n hs s2]) (use 1 2 in \<open>simp_all add: other_speeds_def all_le_2\<close>)
        ultimately show ?case using 1 2 first by (simp add: descs_passed_def ready_def other_speeds_def)
      qed simp
    qed
  qed
qed

subsection \<open>The whole binding\<close>

text \<open>The fields of a descriptor and what the class-specific pass looks at survive the first two passes.\<close>

lemma ep_rewritten_fields:
  assumes "ep_rewritten d a" and "whole d"
  shows "desc_fields a = desc_fields d" and "(t, p) \<in> set (desc_fields d) \<Longrightarrow> (t, a ! p) = (t, d ! p) \<or> t = FFS_ENDPOINT"
proof -
  have len: "length a = length d" "2 \<le> length d" using assms by (auto simp: ep_rewritten_def whole_size)
  have keep: "a ! i = d ! i" if "i < length d" "\<not> endpoint d \<or> i \<notin> {2, 4, 5}" for i using assms(1) that by (auto simp: ep_rewritten_def)
  have type: "a ! 1 = d ! 1" using keep [of 1] len by simp
  have inner: "a ! p = d ! p" if "d ! 1 = ty" "desc_lengths ty = Some [n]" "p < n" "ty \<noteq> USB_DT_ENDPOINT" for ty n p
  proof (rule keep)
    show "p < length d" using assms(2) that by (simp add: whole_def desc_wf_def)
  qed (use that in \<open>simp add: endpoint_def\<close>)
  have "a ! 8 = d ! 8" "a ! 2 = d ! 2" if "d ! 1 = USB_DT_INTERFACE"
    using inner [OF that, of 9] by (simp_all add: desc_lengths_def)
  moreover have "a ! 7 = d ! 7" if "d ! 1 = USB_DT_INTERFACE_ASSOCIATION"
    using inner [OF that, of 8] by (simp_all add: desc_lengths_def)
  ultimately show "desc_fields a = desc_fields d" "(t, p) \<in> set (desc_fields d) \<Longrightarrow> (t, a ! p) = (t, d ! p) \<or> t = FFS_ENDPOINT"
    using type len by (auto simp: desc_fields_def split: if_splits)
qed

lemma fields_ok_rewritten: "ep_rewritten d a \<Longrightarrow> whole d \<Longrightarrow> fields_ok ifs strs d \<Longrightarrow> fields_ok ifs strs a"
  using ep_rewritten_fields(2) [of d a]
  by (fastforce simp: fields_ok_def ep_rewritten_fields(1) field_ok_def)

lemma renumber_nth:
  assumes "p \<notin> snd ` set (desc_fields d)"
  shows "renumber nums ids d ! p = d ! p"
proof -
  have "fold (\<lambda>(t, p) d'. d'[p := new_value nums ids (t (d ! p))]) fs x ! p = x ! p" if "p \<notin> snd ` set fs" for fs x
    using that by (induction fs arbitrary: x) auto
  then show ?thesis using assms by (simp add: renumber_def)
qed

definition same_class :: "u8 list \<Rightarrow> u8 list \<Rightarrow> bool" where
  "same_class d x \<longleftrightarrow> length x = length d \<and> x ! 0 = d ! 0 \<and> x ! 1 = d ! 1
     \<and> (d ! 1 = USB_DT_INTERFACE \<longrightarrow> x ! 4 = d ! 4) \<and> (d ! 1 = USB_DT_CS_INTERFACE \<and> 3 \<le> length d \<longrightarrow> x ! 2 = d ! 2)"

lemma renumbered_same_class:
  assumes "ep_rewritten d a" and "whole d"
  shows "same_class d (renumber nums ids a)"
proof -
  have len: "length a = length d" "2 \<le> length d" using assms by (auto simp: ep_rewritten_def whole_size)
  have keep: "a ! i = d ! i" if "i < length d" "\<not> endpoint d \<or> i \<notin> {2, 4, 5}" for i using assms(1) that by (auto simp: ep_rewritten_def)
  have at: "renumber nums ids a ! i = a ! i" if "i \<in> {0, 1, 4} \<or> d ! 1 = USB_DT_CS_INTERFACE" for i
    by (rule renumber_nth) (use that ep_rewritten_fields(1) [OF assms] in \<open>auto simp: desc_fields_def split: if_splits\<close>)
  have "d \<noteq> []" using len by auto
  moreover have "4 < length d" if "d ! 1 = USB_DT_INTERFACE" using whole_size(2) [OF assms(2) that] by simp
  ultimately show ?thesis
    using len keep [of 0] keep [of 1] keep [of 2] keep [of 4] at [of 0] at [of 1] at [of 2] at [of 4]
    by (auto simp: same_class_def length_renumber endpoint_def)
qed

lemma same_class_ok: "same_class d x \<Longrightarrow> cdc_ok ci di d \<Longrightarrow> cdc_ok ci di x"
  by (auto simp: same_class_def cdc_ok_def)

lemma first_with_cong:
  "(\<And>i. n \<le> i \<Longrightarrow> i < n + k \<Longrightarrow> has_endpoints (ds ! i) = has_endpoints (ds' ! i)) \<Longrightarrow> first_with ds k n = first_with ds' k n"
  by (induction ds k n rule: first_with.induct) auto

lemma next_with_cong:
  "(\<And>i. n \<le> i \<Longrightarrow> i < n + k \<Longrightarrow> has_endpoints (ds ! i) = has_endpoints (ds' ! i)) \<Longrightarrow> next_with ds k n = next_with ds' k n"
  by (induction ds k n rule: next_with.induct) (auto intro!: first_with_cong)

lemma pos_of_append: "pos_of 0 (xs @ ys) (length xs + i) = pos_of (length (concat xs)) ys i"
  by (simp add: pos_of_def)

lemma pos_of_left: "i < length xs \<Longrightarrow> pos_of 0 (xs @ ys) i = pos_of 0 xs i"
  by (simp add: pos_of_def)

text \<open>The arrays of the three speeds point at the descriptors, wherever those are in the copy.\<close>

lemma ready_points:
  assumes "ready ffs fs hs ss s" and "list_all2 (\<lambda>d d'. length d' = length d) (fs @ hs @ ss) mid"
  shows "fs \<noteq> [] \<Longrightarrow> \<exists>a. fn_fs s = Some a \<and> points a mid 0 0 (length fs)"
    and "hs \<noteq> [] \<Longrightarrow> \<exists>a. fn_hs s = Some a \<and> points a mid (length fs) 0 (length hs)"
    and "ss \<noteq> [] \<Longrightarrow> \<exists>a. fn_ss s = Some a \<and> points a mid (length fs + length hs) 0 (length ss)"
proof -
  note pos = pos_of_same [OF assms(2), of 0]
  have p1: "pos_of 0 (fs @ hs @ ss) i = pos_of 0 fs i" if "i < length fs" for i using that by (rule pos_of_left)
  have p2: "pos_of 0 (fs @ hs @ ss) (length fs + i) = pos_of (length (concat fs)) hs i" if "i < length hs" for i
    using that by (simp add: pos_of_def)
  have p3: "pos_of 0 (fs @ hs @ ss) (length fs + length hs + i) = pos_of (length (concat fs) + length (concat hs)) ss i" for i
    by (simp add: pos_of_def add.assoc)
  show "fs \<noteq> [] \<Longrightarrow> \<exists>a. fn_fs s = Some a \<and> points a mid 0 0 (length fs)"
    using assms(1) by (auto simp: ready_def ready_speed_def pointed_def points_def pos p1)
  show "hs \<noteq> [] \<Longrightarrow> \<exists>a. fn_hs s = Some a \<and> points a mid (length fs) 0 (length hs)"
    using assms(1) by (auto simp: ready_def ready_speed_def pointed_def points_def pos p2)
  show "ss \<noteq> [] \<Longrightarrow> \<exists>a. fn_ss s = Some a \<and> points a mid (length fs + length hs) 0 (length ss)"
    using assms(1) by (auto simp: ready_def ready_speed_def pointed_def points_def pos p3)
qed

lemma length_sum_u32:
  assumes "unat a + unat b + unat c < 2 ^ 32"
  shows "unat (a + b + c :: u32) = unat a + unat b + unat c"
  using assms by (simp add: unat_word_ariths)

text \<open>
  The interfaces the class-specific descriptors are given, and what those need: with the indices of
  the first two full speed interfaces that have endpoints.
\<close>

definition cdc_bindable :: "u8 list list \<Rightarrow> u8 list list \<Rightarrow> u8 list list \<Rightarrow> bool" where
  "cdc_bindable fs hs ss \<longleftrightarrow>
     (\<forall>d \<in> set (fs @ hs @ ss). cdc_ok (first_with (fs @ hs @ ss) (length fs) 0) (next_with (fs @ hs @ ss) (length fs) 0) d)"

text \<open>The copy of the descriptors after the binding, and the arrays and endpoints.\<close>

definition bound_copy :: "u8 list list \<Rightarrow> nat \<Rightarrow> u8 list \<Rightarrow> ffs_function \<Rightarrow> bool" where
  "bound_copy all n os s \<longleftrightarrow> (\<exists>as mid. list_all2 ep_rewritten all as
     \<and> mid = map (renumber (fn_nums s) (first_ids s)) as
     \<and> fn_raw s = concat (map (cdc_value (mid ! the (first_with all n 0)) (mid ! the (next_with all n 0))) mid) @ os
     \<and> (\<forall>a \<in> set as. \<forall>(t, p) \<in> set (desc_fields a). given s (t (a ! p))))"

definition nums_passed :: "u8 list list \<Rightarrow> u8 list list \<Rightarrow> u8 list \<Rightarrow> ffs_function \<Rightarrow> ffs_function \<Rightarrow> bool" where
  "nums_passed all as os s s' \<longleftrightarrow> fn_raw s' = concat (map (renumber (fn_nums s') (first_ids s')) as) @ os \<and> nums_grow s s'
     \<and> (\<forall>a \<in> set as. \<forall>(t, p) \<in> set (desc_fields a). given s' (t (a ! p)))"

lemma second_pass_post:
  assumes raw: "fn_raw s = concat as @ os" and as: "list_all2 ep_rewritten all as" and w: "\<forall>d \<in> set all. whole d"
    and ok: "\<forall>d \<in> set all. fields_ok (length (fn_nums s)) (length (first_ids s)) d" and ids: "\<And>n. interface_id env n < 256"
    and len: "n = length all" "l = length (fn_raw s)"
  shows "post (descs_at (bind_do_nums env) n 0 l s) (\<lambda>_. nums_passed all as os s) (\<lambda>_ _. True)"
proof -
  have each: "whole a \<and> fields_ok (length (fn_nums s)) (length (first_ids s)) a" if "a \<in> set as" for a
  proof -
    from that obtain i where i: "i < length as" "a = as ! i" by (auto simp: in_set_conv_nth)
    then have "all ! i \<in> set all" "ep_rewritten (all ! i) a" using as by (auto simp: list_all2_conv_all_nth)
    then show ?thesis using w ok by (blast intro: whole_kept ep_rewritten_head fields_ok_rewritten)
  qed
  have n: "length as = n" using as len by (simp add: list_all2_lengthD)
  have "post (descs_at_loop (bind_do_nums env) n 0 (length ([] :: u8 list)) (length (concat as @ os)) s)
     (nums_pass.walked as 0 env [] 0 os s) (\<lambda>_ _. True)"
    by (rule nums_pass.walk) (use each n raw ids whole_split [of as os] in \<open>auto simp: pos_of_def nums_inv_def\<close>)
  then have "post (descs_at_loop (bind_do_nums env) n 0 0 l s) (nums_pass.walked as 0 env [] 0 os s) (\<lambda>_ _. True)"
    using raw len by simp
  then show ?thesis unfolding descs_at_def
  proof (rule post_bindS, goal_cases)
    case (1 p s')
    then obtain ds' where raw': "fn_raw s' = concat ds' @ os" and g: "nums_grow s s'" and R: "list_all2 (numbered s') as ds'"
      by (auto simp: nums_pass.walked_def)
    have "ds' = map (renumber (fn_nums s') (first_ids s')) as"
      using R by (auto simp: list_all2_conv_all_nth numbered_def intro: nth_equalityI)
    moreover have "\<forall>a \<in> set as. \<forall>(t, p) \<in> set (desc_fields a). given s' (t (a ! p))"
    proof
      fix a assume "a \<in> set as"
      then obtain x where "numbered s' a x" using R by (metis in_set_conv_nth list_all2_conv_all_nth)
      then show "\<forall>(t, p) \<in> set (desc_fields a). given s' (t (a ! p))" by (simp add: numbered_def)
    qed
    ultimately show ?case using raw' g by (simp add: nums_passed_def)
  qed
qed

lemma rel3:
  "list_all2 (\<lambda>x y. x = y \<or> x = v y) (F @ H @ S) (F @ H @ S)"
  "list_all2 (\<lambda>x y. x = y \<or> x = v y) (map v F @ H @ S) (F @ H @ S)"
  "list_all2 (\<lambda>x y. x = y \<or> x = v y) (map v F @ map v H @ S) (F @ H @ S)"
  by (auto intro!: list_all2_appendI simp: list.rel_map list.rel_refl)

text \<open>The last part: the class-specific descriptors of all three speeds.\<close>

lemma cdc_part:
  assumes raw: "fn_raw s = concat mid @ os" and same: "list_all2 same_class (fs @ hs @ ss) mid" and w: "\<forall>d \<in> set (fs @ hs @ ss). whole d"
    and ready: "ready ffs fs hs ss s" and ok: "cdc_bindable fs hs ss"
    and c: "ci = first_with (fs @ hs @ ss) (length fs) 0" "di = next_with (fs @ hs @ ss) (length fs) 0"
  shows "bindS (find_intfs (length fs) 0 None s) (\<lambda>(ctl, dat) s.
      bindS (cdc_fixups fn_fs (length fs) 0 ctl dat s) (\<lambda>_ s.
      bindS (cdc_fixups fn_hs (length hs) 0 ctl dat s) (\<lambda>_ s.
      cdc_fixups fn_ss (length ss) 0 ctl dat s)))
    = (Ok (), s\<lparr>fn_raw := concat (map (cdc_value (mid ! the ci) (mid ! the di)) mid) @ os\<rparr>)"
proof -
  let ?all = "fs @ hs @ ss" and ?c = "mid ! the ci" and ?d = "mid ! the di"
  have len: "length mid = length ?all" using list_all2_lengthD [OF same] by simp
  have each: "same_class (?all ! i) (mid ! i)" if "i < length ?all" for i using same that by (rule list_all2_nthD)
  have sizes: "list_all2 (\<lambda>d d'. length d' = length d) ?all mid" using same by (rule list_all2_mono) (simp add: same_class_def)
  note pts = ready_points [OF ready sizes]
  have wi: "whole (?all ! i)" if "i < length ?all" for i using w that nth_mem by blast
  have iface: "2 \<le> length (mid ! i) \<and> (mid ! i ! 1 = USB_DT_INTERFACE \<longrightarrow> length (mid ! i) = 9)" if "i < length mid" for i
    using each [of i] wi [of i] that len whole_size [of "?all ! i"] by (simp add: same_class_def)
  have he: "has_endpoints (mid ! i) = has_endpoints (?all ! i)" if "i < length ?all" for i
    using each [OF that] by (auto simp: has_endpoints_def same_class_def)
  have ci: "ci = first_with mid (length fs) 0" "di = next_with mid (length fs) 0"
    unfolding c using he by (auto intro!: first_with_cong next_with_cong)
  have at: "found_at mid ci ?c" "found_at mid di ?d"
    using first_with_Some [of mid "length fs" 0] next_with_Some [of mid "length fs" 0] iface len
    by (auto simp: found_at_def ci has_endpoints_def)
  have okm: "cdc_ok ci di x" if "x \<in> set mid" for x
  proof -
    from that obtain i where i: "i < length mid" "x = mid ! i" by (auto simp: in_set_conv_nth)
    then have "cdc_ok ci di (?all ! i)" using ok len nth_mem [of i ?all] unfolding cdc_bindable_def c by simp
    then show ?thesis using each [of i] i len by (simp add: same_class_ok)
  qed
  define F where "F = take (length fs) mid"
  define H where "H = take (length hs) (drop (length fs) mid)"
  define S where "S = drop (length fs + length hs) mid"
  have mid: "mid = F @ H @ S" "length F = length fs" "length H = length hs" "length S = length ss"
    using len by (simp_all add: F_def H_def S_def) (metis append_take_drop_id add.commute drop_drop)
  let ?v = "cdc_value ?c ?d"
  let ?ctl = "map_option (pos_of 0 mid) ci" and ?dat = "map_option (pos_of 0 mid) di"
  have find: "find_intfs (length fs) 0 None s = (Ok (?ctl, ?dat), s)"
  proof (cases "fs = []")
    case True
    then show ?thesis by (simp add: c)
  next
    case False
    from pts(1) [OF this] obtain a where a: "fn_fs s = Some a" "points a mid 0 0 (length fs)" by blast
    show ?thesis using find_intfs_step(2) [OF a(1) raw _ a(2)] len iface by (simp add: ci)
  qed
  have step: "cdc_fixups arr (length ys) 0 ?ctl ?dat t = (Ok (), t\<lparr>fn_raw := concat (xs @ map ?v ys @ zs) @ os\<rparr>)"
    if arr: "\<And>s r. arr (s\<lparr>fn_raw := r\<rparr>) = arr s" and t: "fn_raw t = concat (xs @ ys @ zs) @ os"
      and a: "ys \<noteq> [] \<Longrightarrow> \<exists>a. arr t = Some a \<and> points a mid (length xs) 0 (length ys)"
      and ys: "\<forall>y \<in> set ys. y \<in> set mid" and m: "list_all2 (\<lambda>x y. x = y \<or> x = ?v y) (xs @ ys @ zs) mid" for arr xs ys zs t
  proof (cases "ys = []")
    case True
    then have "t = t\<lparr>fn_raw := concat (xs @ zs) @ os\<rparr>" using t by simp
    then show ?thesis using True by simp
  next
    case False
    from a [OF this] obtain a where a: "arr t = Some a" "points a mid (length xs) 0 (length ys)" by blast
    have pos: "pos_of 0 (xs @ ys @ zs) = pos_of 0 mid"
      by (rule ext, rule pos_of_same [symmetric]) (use m in \<open>auto elim!: list_all2_mono\<close>)
    have fnd: "found_at (xs @ ys @ zs) k x" if "found_at mid k x" for k x
      using that m by (auto simp: found_at_def list_all2_conv_all_nth cdc_value_interface)
    show ?thesis
      using cdc_fixups_run [of arr t a xs ys zs os "length xs" 0 ci di ?c ?d] arr t a(1) fnd [OF at(1)] fnd [OF at(2)] ys okm
      by (simp add: pos points_def a(2) [unfolded points_def, simplified])
  qed
  have sub: "\<forall>y \<in> set F. y \<in> set mid" "\<forall>y \<in> set H. y \<in> set mid" "\<forall>y \<in> set S. y \<in> set mid" by (simp_all add: mid(1))
  have m: "list_all2 (\<lambda>x y. x = y \<or> x = ?v y) ([] @ F @ H @ S) mid"
    "list_all2 (\<lambda>x y. x = y \<or> x = ?v y) (map ?v F @ H @ S) mid"
    "list_all2 (\<lambda>x y. x = y \<or> x = ?v y) ((map ?v F @ map ?v H) @ S @ []) mid"
    using rel3 [of ?v F H S] by (simp_all add: mid(1) [symmetric])
  have r1: "fn_raw s = concat ([] @ F @ H @ S) @ os" using raw mid(1) by simp
  have a1: "F \<noteq> [] \<Longrightarrow> \<exists>a. fn_fs s = Some a \<and> points a mid (length ([] :: u8 list list)) 0 (length F)" using pts(1) mid(2) by (cases "fs = []") auto
  have one: "cdc_fixups fn_fs (length fs) 0 ?ctl ?dat s = (Ok (), s\<lparr>fn_raw := concat (map ?v F @ H @ S) @ os\<rparr>)"
    using step [of fn_fs s "[]" F "H @ S", OF _ r1 a1 sub(1) m(1)] by (simp add: mid(2))
  let ?s1 = "s\<lparr>fn_raw := concat (map ?v F @ H @ S) @ os\<rparr>"
  have r2: "fn_raw ?s1 = concat (map ?v F @ H @ S) @ os" by simp
  have a2: "H \<noteq> [] \<Longrightarrow> \<exists>a. fn_hs ?s1 = Some a \<and> points a mid (length (map ?v F)) 0 (length H)" using pts(2) mid(2,3) by (cases "hs = []") auto
  have two: "cdc_fixups fn_hs (length hs) 0 ?ctl ?dat ?s1 = (Ok (), s\<lparr>fn_raw := concat (map ?v F @ map ?v H @ S) @ os\<rparr>)"
    using step [of fn_hs ?s1 "map ?v F" H S, OF _ r2 a2 sub(2) m(2)] by (simp add: mid(3))
  let ?s2 = "s\<lparr>fn_raw := concat (map ?v F @ map ?v H @ S) @ os\<rparr>"
  have r3: "fn_raw ?s2 = concat ((map ?v F @ map ?v H) @ S @ []) @ os" by simp
  have a3: "S \<noteq> [] \<Longrightarrow> \<exists>a. fn_ss ?s2 = Some a \<and> points a mid (length (map ?v F @ map ?v H)) 0 (length S)" using pts(3) mid(2-4) by (cases "ss = []") auto
  have three: "cdc_fixups fn_ss (length ss) 0 ?ctl ?dat ?s2 = (Ok (), s\<lparr>fn_raw := concat (map ?v F @ map ?v H @ map ?v S) @ os\<rparr>)"
    using step [of fn_ss ?s2 "map ?v F @ map ?v H" S "[]", OF _ r3 a3 sub(3) m(3)] by (simp add: mid(4))
  have "map ?v mid = map ?v F @ map ?v H @ map ?v S" using arg_cong [OF mid(1), of "map ?v"] by (simp only: map_append)
  then show ?thesis by (simp only: find one two three bindS.simps case_prod_conv)
qed

definition names_ok :: "bind_env \<Rightarrow> ffs_data \<Rightarrow> u8 list list \<Rightarrow> ffs_function \<Rightarrow> bool" where
  "names_ok env ffs all s \<longleftrightarrow> (\<forall>n. interface_id env n < 256)
     \<and> (\<forall>d \<in> set all. fields_ok (unat (interfaces_count ffs)) (length (first_ids s)) d)"

lemma func_bind_steps:
  "func_bind env ffs s =
     (if fs_descs_count ffs = 0 \<and> hs_descs_count ffs = 0 \<and> ss_descs_count ffs = 0 then (Err ENOTSUPP, s)
      else if \<not> vla_ok env then (Err ENOMEM, s)
      else if raw_copy_ret env \<noteq> 0 then (Err (E_CODE (raw_copy_ret env)), s)
      else if nums_set_ret env \<noteq> 0 then (Err (E_CODE (nums_set_ret env)), s)
      else bindS (bindS (bind_speed env ffs put_fs (fs_descs_count ffs) 0 (start ffs s)) (\<lambda>fs_len s.
             bindS (bind_speed env ffs put_hs (hs_descs_count ffs) fs_len s) (\<lambda>hs_len s.
             bind_speed env ffs put_ss (ss_descs_count ffs) (fs_len + hs_len) s))) (\<lambda>_ s.
           bindS (descs_at (bind_do_nums env) (unat (fs_descs_count ffs + hs_descs_count ffs + ss_descs_count ffs)) 0
                    (length (raw_descs ffs)) s) (\<lambda>_ s.
           bindS (find_intfs (unat (fs_descs_count ffs)) 0 None s) (\<lambda>(ctl, dat) s.
           bindS (cdc_fixups fn_fs (unat (fs_descs_count ffs)) 0 ctl dat s) (\<lambda>_ s.
           bindS (cdc_fixups fn_hs (unat (hs_descs_count ffs)) 0 ctl dat s) (\<lambda>_ s.
           cdc_fixups fn_ss (unat (ss_descs_count ffs)) 0 ctl dat s))))))"
  by (simp add: func_bind_def start_def bindS_assoc)

lemma ready_kept:
  assumes "ready ffs fs hs ss s" and "fn_eps s' = fn_eps s" and "fn_fs s' = fn_fs s" and "fn_hs s' = fn_hs s" and "fn_ss s' = fn_ss s"
  shows "ready ffs fs hs ss s'"
  using assms by (auto simp: ready_def list_all2_refl intro!: ready_speed_later [of ffs _ _ _ s s'])

lemma renumbered_all:
  "list_all2 ep_rewritten all as \<Longrightarrow> \<forall>d \<in> set all. whole d \<Longrightarrow> list_all2 same_class all (map (renumber nums ids) as)"
  by (induction rule: list_all2_induct) (auto intro: renumbered_same_class)

lemma raw_only [simp]:
  "first_ids (s\<lparr>fn_raw := r\<rparr>) = first_ids s" "given (s\<lparr>fn_raw := r\<rparr>) e = given s e"
  by (cases e; simp add: first_ids_def given_def)+

theorem func_bind_post:
  assumes b: "bindable ffs fs hs ss os" and u: "unbound ffs s0" and n: "names_ok env ffs (fs @ hs @ ss) s0" and c: "cdc_bindable fs hs ss"
  shows "post (func_bind env ffs s0)
     (\<lambda>_ s. bound_copy (fs @ hs @ ss) (length fs) os s \<and> ready ffs fs hs ss s \<and> eps_tables ffs s \<and> fn_string_ids s = fn_string_ids s0
        \<and> length (fn_nums s) = unat (interfaces_count ffs))
     (\<lambda>_ _. True)"
proof -
  let ?all = "fs @ hs @ ss" and ?s = "start ffs s0"
  let ?P = "\<lambda>_ s. bound_copy ?all (length fs) os s \<and> ready ffs fs hs ss s \<and> eps_tables ffs s \<and> fn_string_ids s = fn_string_ids s0
      \<and> length (fn_nums s) = unat (interfaces_count ffs)"
  have len: "unat (fs_descs_count ffs) = length fs" "unat (hs_descs_count ffs) = length hs" "unat (ss_descs_count ffs) = length ss"
    and w: "\<forall>d \<in> set ?all. whole d" and raw: "raw_descs ffs = concat ?all @ os" and small: "length ?all < 2 ^ 32"
    using b by (simp_all add: bindable_def)
  have total: "unat (fs_descs_count ffs + hs_descs_count ffs + ss_descs_count ffs) = length ?all"
    using length_sum_u32 [of "fs_descs_count ffs" "hs_descs_count ffs" "ss_descs_count ffs"] len small by simp
  have rest: "post (bindS (descs_at (bind_do_nums env) (unat (fs_descs_count ffs + hs_descs_count ffs + ss_descs_count ffs)) 0
        (length (raw_descs ffs)) s1) (\<lambda>_ s.
      bindS (find_intfs (unat (fs_descs_count ffs)) 0 None s) (\<lambda>(ctl, dat) s.
      bindS (cdc_fixups fn_fs (unat (fs_descs_count ffs)) 0 ctl dat s) (\<lambda>_ s.
      bindS (cdc_fixups fn_hs (unat (hs_descs_count ffs)) 0 ctl dat s) (\<lambda>_ s.
      cdc_fixups fn_ss (unat (ss_descs_count ffs)) 0 ctl dat s))))) ?P (\<lambda>_ _. True)"
    if s1: "descs_passed ffs fs hs ss os ?s s1" for s1
  proof -
    from s1 obtain as where raw1: "fn_raw s1 = concat as @ os" and as: "list_all2 ep_rewritten ?all as" by (auto simp: descs_passed_def half_def)
    have size: "length (raw_descs ffs) = length (fn_raw s1)" using raw raw1 list_all2_ep_rewritten_length [OF as] by simp
    have nums: "\<forall>d \<in> set ?all. fields_ok (length (fn_nums s1)) (length (first_ids s1)) d" "\<And>n. interface_id env n < 256"
      using n s1 by (simp_all add: names_ok_def descs_passed_def start_def first_ids_def)
    show ?thesis unfolding total len
    proof (rule post_bindS [OF second_pass_post [OF raw1 as w nums refl size]])
      fix x s2 assume s2: "nums_passed ?all as os s1 s2"
      let ?mid = "map (renumber (fn_nums s2) (first_ids s2)) as"
      have same: "list_all2 same_class ?all ?mid"
        by (rule renumbered_all [OF as w])
      have ready2: "ready ffs fs hs ss s2" using s1 s2 by (auto simp: descs_passed_def nums_passed_def nums_grow_def intro: ready_kept)
      have raw2: "fn_raw s2 = concat ?mid @ os" using s2 by (simp add: nums_passed_def)
      let ?v = "cdc_value (?mid ! the (first_with ?all (length fs) 0)) (?mid ! the (next_with ?all (length fs) 0))"
      let ?s3 = "s2\<lparr>fn_raw := concat (map ?v ?mid) @ os\<rparr>"
      have size3: "length (fn_raw ?s3) = length (fn_raw s1)" by (simp add: raw1 length_concat comp_def length_renumber)
      have "bound_copy ?all (length fs) os ?s3"
        unfolding bound_copy_def
        by (rule exI [of _ as], rule exI [of _ ?mid]) (use as s2 in \<open>simp add: nums_passed_def\<close>)
      moreover have "ready ffs fs hs ss ?s3" using ready2 by (rule ready_kept) simp_all
      moreover have "eps_tables ffs ?s3" using s1 s2 size3 by (simp add: eps_tables_def descs_passed_def nums_passed_def nums_grow_def)
      moreover have "length (fn_nums ?s3) = unat (interfaces_count ffs)" using s1 s2
        by (simp add: descs_passed_def nums_passed_def nums_grow_def start_def)
      moreover have "fn_string_ids ?s3 = fn_string_ids s0" using s1 s2 by (simp add: descs_passed_def nums_passed_def nums_grow_def start_def)
      ultimately show "post (bindS (find_intfs (length fs) 0 None s2) (\<lambda>(ctl, dat) s.
        bindS (cdc_fixups fn_fs (length fs) 0 ctl dat s) (\<lambda>_ s.
        bindS (cdc_fixups fn_hs (length hs) 0 ctl dat s) (\<lambda>_ s.
        cdc_fixups fn_ss (length ss) 0 ctl dat s)))) ?P (\<lambda>_ _. True)"
        unfolding cdc_part [OF raw2 same w ready2 c refl refl] by simp
    qed
  qed
  have "post (bindS (bindS (bind_speed env ffs put_fs (fs_descs_count ffs) 0 ?s) (\<lambda>fs_len s.
      bindS (bind_speed env ffs put_hs (hs_descs_count ffs) fs_len s) (\<lambda>hs_len s.
      bind_speed env ffs put_ss (ss_descs_count ffs) (fs_len + hs_len) s))) (\<lambda>_ s.
      bindS (descs_at (bind_do_nums env) (unat (fs_descs_count ffs + hs_descs_count ffs + ss_descs_count ffs)) 0
        (length (raw_descs ffs)) s) (\<lambda>_ s.
      bindS (find_intfs (unat (fs_descs_count ffs)) 0 None s) (\<lambda>(ctl, dat) s.
      bindS (cdc_fixups fn_fs (unat (fs_descs_count ffs)) 0 ctl dat s) (\<lambda>_ s.
      bindS (cdc_fixups fn_hs (unat (hs_descs_count ffs)) 0 ctl dat s) (\<lambda>_ s.
      cdc_fixups fn_ss (unat (ss_descs_count ffs)) 0 ctl dat s)))))) ?P (\<lambda>_ _. True)"
    by (rule post_bindS [OF first_pass_post [OF b u refl]]) (rule rest)
  then show ?thesis unfolding func_bind_steps by simp
qed

end
