(* ===== verification/Ffs_Bind_Accept.thy ===== *)
theory Ffs_Bind_Accept
  imports Ffs_Bind_Whole
begin

section \<open>Generic USB function: from the parser to the binding\<close>

text \<open>
  What \<open>__ffs_data_got_descs\<close> accepted is what the binding needs, and the first binding through the
  gadget's entry point \<open>ffs_func_bind\<close>.
\<close>

subsection \<open>Binding what the parser accepted\<close>

lemma split_speeds_concat:
  "split_speeds cs data = Some (dss, os) \<Longrightarrow> \<forall>d \<in> set (concat dss). 2 \<le> length d \<Longrightarrow>
     data = concat (concat dss) @ os \<and> list_all2 (\<lambda>c ds. length ds = unat c) cs dss \<and> (\<forall>d \<in> set (concat dss). whole d)"
proof (induction cs arbitrary: data dss)
  case (Cons c cs)
  from Cons.prems(1) obtain ds rest dss' where ds: "split_descs (unat c) data = Some (ds, rest)"
    and dss': "split_speeds cs rest = Some (dss', os)" "dss = ds # dss'" by (auto split: option.splits)
  have "\<forall>d \<in> set ds. 2 \<le> length d" "\<forall>d \<in> set (concat dss'). 2 \<le> length d" using Cons.prems(2) dss' by auto
  with Cons.IH [OF dss'(1)] split_whole [OF ds] split_descs_length [OF ds] dss'(2) show ?case by auto
qed simp

lemma field_entity: "whole d \<Longrightarrow> (t, p) \<in> set (desc_fields d) \<Longrightarrow> t (d ! p) \<in> set (desc_entities d)"
  by (auto simp: desc_fields_def desc_entities_def string_entity_def split: if_splits)

lemma entity_sets:
  "x \<in> set (endpoints_of es) \<longleftrightarrow> FFS_ENDPOINT x \<in> set es"
  "n \<in> set (interfaces_of es) \<longleftrightarrow> (\<exists>v. n = unat v + 1 \<and> FFS_INTERFACE v \<in> set es)"
  "n \<in> set (strings_of es) \<longleftrightarrow> (\<exists>v. n = unat v \<and> FFS_STRING v \<in> set es)"
  by (induction es) (auto simp: of_defs split: ffs_entity.splits)

lemma entities_of_in: "e \<in> set (entities_of ds) \<longleftrightarrow> (\<exists>d \<in> set ds. e \<in> set (desc_entities d))"
  by (auto simp: entities_of_def)

lemma endpoint_entity: "endpoint d \<Longrightarrow> FFS_ENDPOINT (d ! 2) \<in> set (desc_entities d)"
  by (simp add: endpoint_def desc_entities_def)

lemma entity_endpoint: "FFS_ENDPOINT a \<in> set (desc_entities d) \<Longrightarrow> endpoint d \<and> d ! 2 = a"
  by (auto simp: endpoint_def desc_entities_def string_entity_def split: if_splits)

text \<open>The parser's map finds every address it has recorded.\<close>

lemma addr2idx_recorded:
  assumes "length (eps_addrmap ffs) = 31" and "n < 31" and "k < n" and "tl (eps_addrmap ffs) ! k = addr"
  shows "\<exists>i. ffs_ep_addr2idx ffs addr = Some i \<and> 1 \<le> i \<and> i \<le> Suc k"
proof -
  have k: "Suc k < length (eps_addrmap ffs)" "eps_addrmap ffs ! Suc k = addr"
    using assms by (simp_all add: nth_tl)
  have "ffs_ep_addr2idx ffs addr \<noteq> None"
    using k by (auto simp: ffs_ep_addr2idx_def find_None_iff intro: bexI [of _ "Suc k"])
  then obtain i where i: "ffs_ep_addr2idx ffs addr = Some i" by blast
  then obtain m where m: "m < length (eps_addrmap ffs) - 1" "i = Suc m" "\<forall>j < m. eps_addrmap ffs ! Suc j \<noteq> addr"
    by (auto simp: ffs_ep_addr2idx_def find_Some_iff)
  have "m \<le> k" using m(3) k(2) not_less by blast
  then show ?thesis using i m(2) by simp
qed

lemma addr2idx_distinct:
  assumes "length (eps_addrmap ffs) = 31" and "n < 31" and "k < n" and "tl (eps_addrmap ffs) ! k = addr"
    and "distinct (take n (tl (eps_addrmap ffs)))"
  shows "ffs_ep_addr2idx ffs addr = Some (Suc k)"
proof -
  obtain i where i: "ffs_ep_addr2idx ffs addr = Some i" "1 \<le> i" "i \<le> Suc k" using addr2idx_recorded [OF assms(1-4)] by blast
  then obtain m where m: "i = Suc m" "m \<le> k" by (cases i) auto
  have "eps_addrmap ffs ! i = addr" using i(1) by (auto simp: ffs_ep_addr2idx_def find_Some_iff)
  then have "tl (eps_addrmap ffs) ! m = tl (eps_addrmap ffs) ! k" using m assms by (simp add: nth_tl)
  then have "m = k" using assms(1,2,3,5) m nth_eq_iff_index_eq [of "take n (tl (eps_addrmap ffs))" m k] by simp
  then show ?thesis using i m by simp
qed

lemma declared_endpoint:
  assumes "declares ffs ds" and "d \<in> set ds" and "endpoint d" and "length (eps_addrmap ffs) = 31" and "unat (eps_count ffs) < 31"
  shows "\<exists>i. ffs_ep_addr2idx ffs (d ! 2) = Some i \<and> 1 \<le> i \<and> i \<le> unat (eps_count ffs)"
proof -
  have "FFS_ENDPOINT (d ! 2) \<in> set (entities_of ds)" using assms(2,3) endpoint_entity by (auto simp: entities_of_in)
  then have "d ! 2 \<in> set (endpoints_of (entities_of ds))" by (simp add: entity_sets(1))
  then have "d ! 2 \<in> set (take (unat (eps_count ffs)) (tl (eps_addrmap ffs)))" using assms(1) by (simp add: declares_def)
  then obtain k where "k < unat (eps_count ffs)" "tl (eps_addrmap ffs) ! k = d ! 2" by (auto simp: in_set_conv_nth)
  then show ?thesis using addr2idx_recorded [OF assms(4,5)] by fastforce
qed

lemma declared_full_speed:
  assumes "declares ffs fs" and "distinct (endpoints_of (entities_of fs))" and "length (eps_addrmap ffs) = 31" and "unat (eps_count ffs) < 31"
  shows "full_speed ffs fs"
  unfolding full_speed_def
proof (intro allI impI)
  fix i assume i: "i < unat (eps_count ffs)"
  let ?a = "tl (eps_addrmap ffs) ! i"
  have map: "endpoints_of (entities_of fs) = take (unat (eps_count ffs)) (tl (eps_addrmap ffs))" using assms(1) by (simp add: declares_def)
  have "?a \<in> set (endpoints_of (entities_of fs))" unfolding map using i assms(3,4) by (auto simp: in_set_conv_nth)
  then obtain d where d: "d \<in> set fs" "FFS_ENDPOINT ?a \<in> set (desc_entities d)" by (auto simp: entity_sets(1) entities_of_in)
  have idx: "ffs_ep_addr2idx ffs ?a = Some (Suc i)"
    by (rule addr2idx_distinct [OF assms(3,4) i refl assms(2) [unfolded map]])
  show "\<exists>d \<in> set fs. endpoint d \<and> ffs_ep_addr2idx ffs (d ! 2) = Some (Suc i)"
    by (rule bexI [OF _ d(1)]) (use entity_endpoint [OF d(2)] idx in simp)
qed

lemma nothing_endpoint: "declares_nothing ds \<Longrightarrow> d \<in> set ds \<Longrightarrow> \<not> endpoint d"
  using endpoint_entity [of d] entity_sets(1) [of "d ! 2" "entities_of ds"] by (auto simp: declares_nothing_def entities_of_in)

lemma declared_fields:
  assumes each: "declares_nothing ds \<or> ds = [] \<or> declares ffs ds" and d: "d \<in> set ds" "whole d"
    and strs: "\<forall>x \<in> set (strings_of (entities_of ds)). x \<le> n"
  shows "fields_ok (unat (interfaces_count ffs)) n d"
  unfolding fields_ok_def
proof (intro ballI, clarify)
  fix t p assume tp: "(t, p) \<in> set (desc_fields d)"
  then have e: "t (d ! p) \<in> set (entities_of ds)" using field_entity [OF d(2) tp] d(1) by (auto simp: entities_of_in)
  show "field_ok (unat (interfaces_count ffs)) n (t (d ! p))"
  proof (cases "t (d ! p)")
    case (FFS_INTERFACE v)
    then have v: "unat v + 1 \<in> set (interfaces_of (entities_of ds))" using e by (auto simp: entity_sets(2))
    with each d(1) have "declares ffs ds" by (auto simp: declares_nothing_def)
    then have "unat v + 1 \<le> unat (interfaces_count ffs)" using fold_max_ge(2) [OF v] by (metis declares_def)
    then show ?thesis using FFS_INTERFACE by (simp add: field_ok_def)
  next
    case (FFS_STRING v)
    then have "unat v \<in> set (strings_of (entities_of ds))" using e by (auto simp: entity_sets(3))
    then show ?thesis using strs FFS_STRING by (simp add: field_ok_def)
  qed (simp_all add: field_ok_def)
qed

text \<open>
  What the binding needs of a message, on top of its being accepted: every descriptor has its two
  header bytes, the class-specific ones are complete and find their interfaces, and when both of the
  later speeds are there, the full speed declares the endpoints, with different addresses.
\<close>

definition complete_speeds :: "u8 list list \<Rightarrow> u8 list list \<Rightarrow> u8 list list \<Rightarrow> bool" where
  "complete_speeds fs hs ss \<longleftrightarrow> (\<forall>d \<in> set (fs @ hs @ ss). 2 \<le> length d) \<and> cdc_bindable fs hs ss
     \<and> (hs = [] \<or> ss = [] \<or> \<not> declares_nothing fs \<and> distinct (endpoints_of (entities_of fs)))"

text \<open>The part of the data that the parser fills in and the binding reads.\<close>

definition message_of :: "ffs_data \<Rightarrow> u8 list \<times> u32 \<times> u32 \<times> u32 \<times> u8 list \<times> u16 \<times> u16 \<times> u16" where
  "message_of ffs = (raw_descs ffs, fs_descs_count ffs, hs_descs_count ffs, ss_descs_count ffs, eps_addrmap ffs,
     eps_count ffs, interfaces_count ffs, strings_count ffs)"

lemma message_kept:
  assumes "message_of ffs = message_of ffs'"
  shows "bindable ffs fs hs ss os = bindable ffs' fs hs ss os" "names_ok env ffs all s = names_ok env ffs' all s" "unbound ffs s = unbound ffs' s"
  using assms
  by (simp_all add: message_of_def bindable_def names_ok_def unbound_def known_endpoints_def full_speed_def ffs_ep_addr2idx_def)

lemma accepted_bindable:
  assumes acc: "data_got_descs fdget data ffs0 = (Ok x, ffs)" and fresh: "length (eps_addrmap ffs0) = 31" "eps_count ffs0 = 0" "strings_count ffs0 = 0"
    and speeds: "split_speeds [fs_descs_count ffs, hs_descs_count ffs, ss_descs_count ffs] (drop (descs_header_size data) data) = Some ([fs, hs, ss], os)"
    and c: "complete_speeds fs hs ss"
    and ids: "\<forall>n. interface_id env n < 256" "unat (strings_count ffs) \<le> length (first_ids s)"
  shows "\<exists>os'. length os' = length os \<and> bindable ffs fs hs ss os' \<and> names_ok env ffs (fs @ hs @ ss) s"
proof -
  from acc have ok: "got_descs_checked fdget data ffs0 = (Ok x, ffs)"
    by (auto simp: data_got_descs_def split: prod.splits res.splits)
  from ok obtain r s1 where "descs_flags data ffs0 = (Ok r, s1)"
    unfolding got_descs_checked_def by (elim bindS_Ok) simp
  then obtain size where "unat (size :: u32) = length data"
    by (auto simp: descs_flags_def get32_def split: if_splits option.splits)
  then have small: "length data < 2 ^ 32" using unat_lt_32 [of size] by simp
  have addr: "length (eps_addrmap ffs) = 31"
    using parse_frame_got_descs [OF parse_frame_full fresh(1) fresh(1), of fdget data] acc by (simp add: leaves_def)
  from ok fresh(1) obtain dss os0 os' where
    dss: "split_speeds [fs_descs_count ffs, hs_descs_count ffs, ss_descs_count ffs] (drop (descs_header_size data) data) = Some (dss, os0)"
    and hdr: "descs_header_size data \<le> length data"
    and each: "\<forall>ds \<in> set dss. (first_speed ffs0 \<and> declares_nothing ds) \<or> ds = [] \<or> declares ffs ds"
    and strs: "unat (strings_count ffs) = fold max (strings_of (entities_of (concat dss))) (unat (strings_count ffs0))"
    and eps: "unat (eps_count ffs0) < FFS_MAX_EPS_COUNT \<Longrightarrow> unat (eps_count ffs) < FFS_MAX_EPS_COUNT"
    and raw: "raw_descs ffs = take (length data - descs_header_size data - length os0) (drop (descs_header_size data) data) @ os'"
    and os': "length os' = length os0"
    by (elim got_descs_checked_Ok) auto
  have same: "dss = [fs, hs, ss]" "os0 = os" using dss speeds by simp_all
  have two: "\<forall>d \<in> set (concat [fs, hs, ss]). 2 \<le> length d" using c by (simp add: complete_speeds_def)
  from split_speeds_concat [OF speeds two] have split: "drop (descs_header_size data) data = concat (fs @ hs @ ss) @ os"
    and len: "length fs = unat (fs_descs_count ffs)" "length hs = unat (hs_descs_count ffs)" "length ss = unat (ss_descs_count ffs)"
    and w: "\<forall>d \<in> set (fs @ hs @ ss). whole d" by simp_all
  have n: "unat (eps_count ffs) < 31" using eps fresh(2) by simp
  have decl: "declares_nothing ds \<or> ds = [] \<or> declares ffs ds" if "ds \<in> {fs, hs, ss}" for ds using each that same by auto
  have known: "known_endpoints ffs ds" if "ds \<in> {fs, hs, ss}" for ds
    using decl [OF that] declared_endpoint [OF _ _ _ addr n] nothing_endpoint by (fastforce simp: known_endpoints_def)
  have "length data - descs_header_size data - length os = length (concat (fs @ hs @ ss))"
    using arg_cong [OF split, of length] by simp
  then have raw': "raw_descs ffs = concat (fs @ hs @ ss) @ os'" using raw split same by simp
  have "length ds \<le> length (concat ds)" if "\<forall>d \<in> set ds. 2 \<le> length d" for ds :: "u8 list list" using that by (induction ds) auto
  from this [of "fs @ hs @ ss"] have few: "length (fs @ hs @ ss) < 2 ^ 32"
    using two small arg_cong [OF split, of length] by simp
  have full: "hs = [] \<or> ss = [] \<or> full_speed ffs fs \<and> fs \<noteq> []"
    using c decl [of fs] declared_full_speed [OF _ _ addr n] by (auto simp: complete_speeds_def declares_nothing_def entities_of_def of_defs)
  have "fields_ok (unat (interfaces_count ffs)) (length (first_ids s)) d" if "d \<in> set ds" "ds \<in> {fs, hs, ss}" for d ds
  proof (rule declared_fields [OF decl [OF that(2)] that(1)])
    show "whole d" using w that by auto
    show "\<forall>x \<in> set (strings_of (entities_of ds)). x \<le> length (first_ids s)"
    proof
      fix x assume "x \<in> set (strings_of (entities_of ds))"
      then have "x \<in> set (strings_of (entities_of (concat dss)))" using that(2) by (auto simp: same entities_of_def)
      then show "x \<le> length (first_ids s)" using strs fold_max_ge(2) ids(2) by (metis le_trans)
    qed
  qed
  then have "names_ok env ffs (fs @ hs @ ss) s" using ids(1) by (auto simp: names_ok_def)
  moreover have "known_endpoints ffs (fs @ hs @ ss)"
    using known [of fs] known [of hs] known [of ss] by (auto simp: known_endpoints_def)
  then have "bindable ffs fs hs ss os'" using raw' len few w n full by (simp add: bindable_def)
  ultimately show ?thesis using os' same by blast
qed

text \<open>The first binding of the function, through the gadget's entry point.\<close>

lemma functionfs_bind_steps:
  assumes "private_data (uf_ffs u) = Some dev" and "dev_desc_ready dev" and "uf_refcnt u = 0"
  shows "ffs_do_functionfs_bind env u = bindS (functionfs_bind env u) (\<lambda>_ u. (Ok (), u\<lparr>uf_refcnt := uf_refcnt u + 1\<rparr>))"
  using assms by (simp add: ffs_do_functionfs_bind_def)

definition bind_start :: "bind_env \<Rightarrow> usb_func \<Rightarrow> usb_func" where
  "bind_start env u = u\<lparr>uf_ffs := ffs_data_get ((uf_ffs u)\<lparr>fl_bound := True, ep0_reqs := [], gadget := True\<rparr>),
     uf_fn := (uf_fn u)\<lparr>fn_string_ids := (case stringtabs (uf_ffs u) of None \<Rightarrow> []
        | Some tabs \<Rightarrow> map (\<lambda>(lang, strs). map (\<lambda>i. word_of_int (string_ids_n env + int i)) [0..<length strs]) tabs)\<rparr>\<rparr>"

lemma functionfs_bind_cases:
  assumes "ffs_st (uf_ffs u) = FFS_ACTIVE" and "\<not> fl_bound (uf_ffs u)"
  shows "\<exists>e u'. functionfs_bind env u = (Err e, u') \<or> functionfs_bind env u = (Ok (), bind_start env u)"
  using assms by (auto simp: functionfs_bind_def bind_start_def Let_def)

lemma functionfs_unbind_ok:
  assumes "1 < ref (uf_ffs u)"
  shows "\<exists>b u'. functionfs_unbind c unregister u = (Ok b, u')"
  using assms by (auto simp: functionfs_unbind_def ffs_data_put_def Let_def split: prod.splits)

theorem ffs_func_bind_post:
  assumes dev: "private_data (uf_ffs u) = Some dev" "dev_desc_ready dev" and first: "uf_refcnt u = 0"
    and st: "ffs_st (uf_ffs u) = FFS_ACTIVE" "\<not> fl_bound (uf_ffs u)" "0 < ref (uf_ffs u)"
    and ev: "ev_wf (ev_types (uf_ffs u))" "\<not> evlock_held (uf_ffs u)"
    and b: "bindable (uf_ffs u) fs hs ss os" "unbound (uf_ffs u) (uf_fn u)" "names_ok env (uf_ffs u) (fs @ hs @ ss) (uf_fn (bind_start env u))"
      "cdc_bindable fs hs ss"
  shows "post (ffs_func_bind env c unregister u)
     (\<lambda>_ u'. bound_copy (fs @ hs @ ss) (length fs) os (uf_fn u') \<and> ready (uf_ffs u) fs hs ss (uf_fn u')
        \<and> eps_tables (uf_ffs u) (uf_fn u') \<and> length (fn_nums (uf_fn u')) = unat (interfaces_count (uf_ffs u))
        \<and> message_of (uf_ffs u') = message_of (uf_ffs u) \<and> uf_refcnt u' = 1 \<and> gadget (uf_ffs u') \<and> fl_bound (uf_ffs u') \<and> ref (uf_ffs u') = ref (uf_ffs u) + 1
        \<and> ev_types (uf_ffs u') = purge_events FUNCTIONFS_BIND (ev_types (uf_ffs u)) @ [FUNCTIONFS_BIND]
        \<and> uf_ffs u' = snd (ffs_event_add FUNCTIONFS_BIND (uf_ffs (bind_start env u))))
     (\<lambda>_ _. True)"
proof -
  let ?u = "(bind_start env u)\<lparr>uf_refcnt := 1\<rparr>"
  have msg: "message_of (uf_ffs ?u) = message_of (uf_ffs u)" by (simp add: bind_start_def message_of_def ffs_data_get_def)
  have fn: "post (func_bind env (uf_ffs ?u) (uf_fn ?u))
     (\<lambda>_ s. bound_copy (fs @ hs @ ss) (length fs) os s \<and> ready (uf_ffs ?u) fs hs ss s \<and> eps_tables (uf_ffs ?u) s \<and> fn_string_ids s = fn_string_ids (uf_fn ?u)
        \<and> length (fn_nums s) = unat (interfaces_count (uf_ffs ?u)))
     (\<lambda>_ _. True)"
  proof (rule func_bind_post)
    show "unbound (uf_ffs ?u) (uf_fn ?u)" using b(2) by (simp add: unbound_def bind_start_def ffs_data_get_def)
    show "bindable (uf_ffs ?u) fs hs ss os" using b(1) message_kept(1) [OF msg] by simp
    show "names_ok env (uf_ffs ?u) (fs @ hs @ ss) (uf_fn ?u)" using b(3) message_kept(2) [OF msg] by simp
  qed (rule b(4))
  have tables: "eps_tables (uf_ffs ?u) s = eps_tables (uf_ffs u) s" for s
    by (simp add: eps_tables_def bind_start_def ffs_data_get_def)
  have ready: "ready (uf_ffs ?u) fs hs ss s = ready (uf_ffs u) fs hs ss s" for s
    by (simp add: ready_def ready_speed_def claimed_def ffs_ep_addr2idx_def bind_start_def ffs_data_get_def)
  consider (failed) e u' where "functionfs_bind env u = (Err e, u')" | (bound) "functionfs_bind env u = (Ok (), bind_start env u)"
    using functionfs_bind_cases [OF st(1,2)] by blast
  then show ?thesis
  proof cases
    case failed
    then show ?thesis by (simp add: ffs_func_bind_def functionfs_bind_steps [OF dev first])
  next
    case bound
    have zero: "uf_refcnt (bind_start env u) = 0" using first by (simp add: bind_start_def)
    obtain r s where run: "func_bind env (uf_ffs ?u) (uf_fn ?u) = (r, s)" by fastforce
    have start: "ffs_do_functionfs_bind env u = (Ok (), ?u)"
      by (simp add: functionfs_bind_steps [OF dev first] bound zero)
    show ?thesis
    proof (cases r)
      case (Ok y)
      have add: "ffs_event_add FUNCTIONFS_BIND (uf_ffs ?u) = (Ok (), (uf_ffs ?u)\<lparr>
          setup_state := (if setup_state (uf_ffs ?u) = FFS_SETUP_PENDING then FFS_SETUP_CANCELLED else setup_state (uf_ffs ?u)),
          ev_types := purge_events FUNCTIONFS_BIND (ev_types (uf_ffs ?u)) @ [FUNCTIONFS_BIND]\<rparr>)"
        by (rule event_add_eq) (use ev in \<open>simp_all add: bind_start_def ffs_data_get_def\<close>)
      show ?thesis using fn run Ok add ready tables
        by (simp add: ffs_func_bind_def start run Ok, simp add: bind_start_def ffs_data_get_def message_of_def)
    next
      case (Err e)
      let ?v = "?u\<lparr>uf_fn := s, uf_refcnt := 0\<rparr>"
      have "1 < ref (uf_ffs ?v)" using st(3) by (simp add: bind_start_def ffs_data_get_def)
      then obtain b u' where "functionfs_unbind c unregister ?v = (Ok b, u')" using functionfs_unbind_ok by blast
      then show ?thesis by (simp add: ffs_func_bind_def start run [simplified] Err)
    next
      case Fault
      then show ?thesis using fn run by simp
    qed
  qed
qed

end
