(* ===== verification/Ffs_Hooks.thy ===== *)
theory Ffs_Hooks
  imports Ffs_Bind_Accept Ffs_Func
begin

section \<open>Generic USB function: the bound function under its gadget and user space\<close>

text \<open>
  The hooks of the gadget and the calls on endpoint zero work on the same data. Here is what a
  bound and an unbound function are (\<open>attached\<close>, \<open>detached\<close>), that every hook keeps a bound function
  well-formed, and that endpoint zero touches nothing that this depends on.
\<close>

subsection \<open>What endpoint zero leaves alone\<close>

definition still :: "ffs_data \<Rightarrow> (ffs_state \<times> u32 \<times> ffs_epfile list option \<times> (u16 \<times> u8 list list) list option
    \<times> ffs_dev option \<times> bool \<times> bool \<times> nat) \<times> (u8 list \<times> u32 \<times> u32 \<times> u32 \<times> u8 list \<times> u16 \<times> u16 \<times> u16)" where
  "still s = ((ffs_st s, user_flags s, epfiles s, stringtabs s, private_data s, fl_bound s, gadget s, ref s), message_of s)"

lemma still_simps [simp]:
  "still (s\<lparr>setup_state := x1\<rparr>) = still s" "still (s\<lparr>ev_types := x2\<rparr>) = still s" "still (s\<lparr>ev_setup := x3\<rparr>) = still s"
  "still (s\<lparr>ep0_queued := x4\<rparr>) = still s" "still (s\<lparr>memory_list := x5\<rparr>) = still s" "still (s\<lparr>evlock_held := x6\<rparr>) = still s"
  "still (s\<lparr>mutex_held := x7\<rparr>) = still s" "still (mutex_unlock s) = still s" "still (ev_unlock s) = still s"
  "still (kfree s) = still s" "still (kalloc s) = still s" "still (kfree_opt d s) = still s"
  by (simp_all add: still_def message_of_def mutex_unlock_def ev_unlock_def kfree_def kalloc_def kfree_opt_def split: option.split)

abbreviation still_as :: "ffs_data \<Rightarrow> 'a res \<times> ffs_data \<Rightarrow> bool" where
  "still_as s0 \<equiv> leaves (\<lambda>s. still s = still s0)"

lemma still_state: "still s = still s0 \<Longrightarrow> ffs_st s = ffs_st s0"
  by (simp add: still_def)

lemma still_bindE [leaves_intros]:
  "leaves P p \<Longrightarrow> (\<And>r s. P s \<Longrightarrow> leaves P (f r s)) \<Longrightarrow> leaves P (bindE p f)"
  by (cases p; cases "fst p") (auto simp: leaves_def bindE_def)

lemma still_return: "still_as s0 p \<Longrightarrow> still_as s0 (mutex_return p)"
  unfolding mutex_return_def by (auto intro!: leaves_intros)

lemma still_lock: "still s = still s0 \<Longrightarrow> still_as s0 (ev_lock s)"
  by (simp add: ev_lock_def leaves_def)

lemma still_mutex: "still s = still s0 \<Longrightarrow> still_as s0 (ffs_mutex_lock env s)"
  by (simp add: ffs_mutex_lock_def leaves_def)

lemma still_async: "still s = still s0 \<Longrightarrow> still_as s0 (run_async a s)"
  by (cases a) (auto simp: ffs_event_add_def ffs_event_add_locked_def Let_def intro!: leaves_intros still_lock)

lemma still_asyncs: "still s = still s0 \<Longrightarrow> still_as s0 (run_asyncs as s)"
  by (induction as arbitrary: s) (auto intro!: leaves_intros still_async)

lemma still_queue_wait: "still s = still s0 \<Longrightarrow> still_as s0 (ffs_ep0_queue_wait env d len s)"
  by (simp add: ffs_ep0_queue_wait_def ffs_ep0_complete_def leaves_def Let_def split: option.split)

lemma still_prepare: "still s = still s0 \<Longrightarrow> still_as s0 (ffs_prepare_buffer env b s)"
  by (simp add: ffs_prepare_buffer_def leaves_def Let_def)

lemma still_stall: "still s = still s0 \<Longrightarrow> still_as s0 (ffs_ep0_stall s)"
  by (simp add: ffs_ep0_stall_def leaves_def)

lemma still_clear: "still (snd (ffs_setup_state_clear_cancelled s)) = still s"
  by (simp add: ffs_setup_state_clear_cancelled_def)

lemma still_let_clear:
  assumes "still s = still s0" and "\<And>st t. still t = still s0 \<Longrightarrow> still_as s0 (f st t)"
  shows "still_as s0 (case ffs_setup_state_clear_cancelled s of (st, t) \<Rightarrow> f st t)"
  using assms still_clear [of s] by (simp add: case_prod_beta)

lemma still_read_loop: "still s = still s0 \<Longrightarrow> still_as s0 (read_events_loop k i s)"
  by (induction k i s rule: read_events_loop.induct) (auto simp: Let_def intro!: leaves_intros)

lemma still_read_events: "still s = still s0 \<Longrightarrow> still_as s0 (ffs_ep0_read_events m c n s)"
  unfolding ffs_ep0_read_events_def by (auto simp: Let_def intro!: leaves_intros still_read_loop)

lemmas still_intros = still_return still_lock still_mutex still_async still_asyncs still_queue_wait still_prepare still_stall
  still_let_clear still_read_events

lemma still_write_active: "still s = still s0 \<Longrightarrow> still_as s0 (ep0_write_active env buf s)"
  unfolding ep0_write_active_def by (auto intro!: leaves_intros still_intros simp: Let_def)

lemma still_read_idle: "still s = still s0 \<Longrightarrow> still_as s0 (ep0_read_idle env len s)"
  unfolding ep0_read_idle_def by (auto intro!: leaves_intros still_intros simp: Let_def)

lemma still_read_pending: "still s = still s0 \<Longrightarrow> still_as s0 (ep0_read_pending env len s)"
  unfolding ep0_read_pending_def by (auto intro!: leaves_intros still_intros simp: Let_def split: res.split)

definition open_state :: "ffs_data \<Rightarrow> bool" where
  "open_state s \<longleftrightarrow> ffs_st s \<noteq> FFS_READ_DESCRIPTORS \<and> ffs_st s \<noteq> FFS_READ_STRINGS"

lemma still_write: "open_state s0 \<Longrightarrow> still s = still s0 \<Longrightarrow> still_as s0 (ffs_ep0_write env buf s)"
  unfolding ffs_ep0_write_def Let_def
  by (auto intro!: leaves_intros still_intros still_write_active dest: still_state simp: open_state_def)

lemma still_read: "still s = still s0 \<Longrightarrow> still_as s0 (ffs_ep0_read env len s)"
  unfolding ffs_ep0_read_def Let_def
  by (auto intro!: leaves_intros still_intros still_read_idle still_read_pending split: ffs_setup_state.split)

lemma still_poll: "still s = still s0 \<Longrightarrow> still_as s0 (ffs_ep0_poll env s)"
  unfolding ffs_ep0_poll_def Let_def by (auto intro!: leaves_intros still_intros split: res.split)

lemma still_mmap: "still s = still s0 \<Longrightarrow> still_as s0 (ffs_ep0_mmap env virt ok a b s)"
  by (simp add: ffs_ep0_mmap_def leaves_def Let_def)

lemma leaves_snd: "leaves P p \<Longrightarrow> P (snd p)"
  by (simp add: leaves_def)

lemma ep0_step_still: "ep0_step s s' \<Longrightarrow> open_state s \<Longrightarrow> still s' = still s"
proof (induction rule: ep0_step.induct)
  case (by_write env s buf)
  then show ?case using leaves_snd [OF still_write [OF _ refl]] by blast
qed (rule leaves_snd, intro still_read still_poll still_mmap still_async refl)+

subsection \<open>Bound and unbound functions\<close>

text \<open>
  A bound function: its tables have the sizes and ranges that the hooks index them with, every
  endpoint has a hardware endpoint, and endpoint zero is in order with a gadget. An unbound one can
  be bound.
\<close>

definition attached :: "usb_func \<Rightarrow> bool" where
  "attached u \<longleftrightarrow> ok_in True False (uf_ffs u) \<and> open_state (uf_ffs u)
     \<and> eps_tables (uf_ffs u) (uf_fn u) \<and> (\<forall>e \<in> set (fn_eps (uf_fn u)). ep_hw e \<noteq> None)
     \<and> length (fn_nums (uf_fn u)) = unat (interfaces_count (uf_ffs u))
     \<and> (\<exists>efs. epfiles (uf_ffs u) = Some efs \<and> length efs = unat (eps_count (uf_ffs u)))
     \<and> fl_bound (uf_ffs u) \<and> uf_refcnt u = 1 \<and> 1 < ref (uf_ffs u)
     \<and> (\<exists>dev. private_data (uf_ffs u) = Some dev \<and> dev_desc_ready dev)"

definition detached :: "usb_func \<Rightarrow> bool" where
  "detached u \<longleftrightarrow> ok_in False False (uf_ffs u) \<and> open_state (uf_ffs u) \<and> unbound (uf_ffs u) (uf_fn u)
     \<and> (\<exists>efs. epfiles (uf_ffs u) = Some efs \<and> length efs = unat (eps_count (uf_ffs u)))
     \<and> \<not> fl_bound (uf_ffs u) \<and> uf_refcnt u = 0 \<and> 0 < ref (uf_ffs u)
     \<and> (\<exists>dev. private_data (uf_ffs u) = Some dev \<and> dev_desc_ready dev)"

lemma attached_ffs:
  assumes "attached u" and "ok_in True False ffs" and "still ffs = still (uf_ffs u)"
  shows "attached (u\<lparr>uf_ffs := ffs\<rparr>)"
  using assms by (simp add: attached_def still_def message_of_def open_state_def eps_tables_def)

lemma on_ffs_attached:
  assumes u: "attached u" and p: "post (f (uf_ffs u)) (\<lambda>_. ok_in True False) (\<lambda>_ _. False)" and s: "still_as (uf_ffs u) (f (uf_ffs u))"
  shows "post (on_ffs f u) (\<lambda>_ u'. attached u' \<and> uf_fn u' = uf_fn u \<and> uf_active u' = uf_active u) (\<lambda>_ _. False)"
  using p s attached_ffs [OF u] by (cases "f (uf_ffs u)"; cases "fst (f (uf_ffs u))") (auto simp: on_ffs_def leaves_def post_def)

lemma event_attached:
  assumes "attached u" and "e \<noteq> FUNCTIONFS_SETUP"
  shows "post (on_ffs (ffs_event_add e) u) (\<lambda>_ u'. attached u' \<and> uf_fn u' = uf_fn u \<and> uf_active u' = uf_active u) (\<lambda>_ _. False)"
proof (rule on_ffs_attached [OF assms(1)])
  show "post (ffs_event_add e (uf_ffs u)) (\<lambda>_. ok_in True False) (\<lambda>_ _. False)"
    using run_async_post [of True False "uf_ffs u" "Async_event e"] assms by (simp add: attached_def)
  show "still_as (uf_ffs u) (ffs_event_add e (uf_ffs u))"
    using still_async [of "uf_ffs u" "uf_ffs u" "Async_event e"] by simp
qed

text \<open>Disabling and enabling go over as many endpoints and files as there are.\<close>

lemma eps_disable_loop_ok:
  "i + count \<le> length eps \<Longrightarrow> i + count \<le> length efs \<Longrightarrow>
     \<exists>hw efs'. eps_disable_loop count i eps (Some efs) = Ok (hw, Some efs') \<and> length efs' = length efs
       \<and> (\<forall>k < length efs. efs' ! k = (if i \<le> k \<and> k < i + count then (efs ! k)\<lparr>ef_ep := None\<rparr> else efs ! k))"
proof (induction count arbitrary: i efs)
  case 0
  then show ?case by auto
next
  case (Suc count)
  let ?efs = "efs[i := (efs ! i)\<lparr>ef_ep := None\<rparr>]"
  obtain hw efs' where rec: "eps_disable_loop count (i + 1) eps (Some ?efs) = Ok (hw, Some efs')" "length efs' = length ?efs"
    and at: "\<forall>k < length ?efs. efs' ! k = (if i + 1 \<le> k \<and> k < i + 1 + count then (?efs ! k)\<lparr>ef_ep := None\<rparr> else ?efs ! k)"
    using Suc.IH [of "i + 1" ?efs] Suc.prems by auto
  have "\<forall>k < length efs. efs' ! k = (if i \<le> k \<and> k < i + Suc count then (efs ! k)\<lparr>ef_ep := None\<rparr> else efs ! k)"
  proof (intro allI impI)
    fix k assume "k < length efs"
    then show "efs' ! k = (if i \<le> k \<and> k < i + Suc count then (efs ! k)\<lparr>ef_ep := None\<rparr> else efs ! k)"
      using at by (cases "k = i") auto
  qed
  then show ?case using rec Suc.prems by simp
qed

lemma eps_enable_loop_ok:
  assumes "\<forall>e \<in> set eps. ep_hw e \<noteq> None"
  shows "i + count \<le> length eps \<Longrightarrow> i + count \<le> length efs \<Longrightarrow>
     \<exists>ret efs'. eps_enable_loop ep_on count i eps (Some efs) = (Ok ret, Some efs') \<and> length efs' = length efs
       \<and> ((\<forall>i ep. ep_on i ep \<noteq> Inl 0) \<and> ret = 0 \<longrightarrow> (\<forall>k < length efs. ef_ep (efs' ! k) = (if i \<le> k \<and> k < i + count then Some k else ef_ep (efs ! k))))"
proof (induction count arbitrary: i efs)
  case 0
  then show ?case by auto
next
  case (Suc count)
  have "ep_hw (eps ! i) \<noteq> None" using assms Suc.prems by simp
  then obtain ep where ep: "ep_hw (eps ! i) = Some ep" by blast
  show ?case
  proof (cases "ep_on i ep")
    case (Inl ret)
    then have "ret = 0 \<longrightarrow> (\<exists>i ep. ep_on i ep = Inl 0)" by auto
    then show ?thesis using Inl Suc.prems ep by auto
  next
    case (Inr t)
    obtain dir isoc where t: "t = (dir, isoc)" by (cases t)
    let ?efs = "efs[i := (efs ! i)\<lparr>ef_ep := Some i, ef_in := dir, ef_isoc := isoc\<rparr>]"
    obtain ret efs' where rec: "eps_enable_loop ep_on count (i + 1) eps (Some ?efs) = (Ok ret, Some efs')" "length efs' = length ?efs"
      and at: "(\<forall>i ep. ep_on i ep \<noteq> Inl 0) \<and> ret = 0 \<longrightarrow>
        (\<forall>k < length ?efs. ef_ep (efs' ! k) = (if i + 1 \<le> k \<and> k < i + 1 + count then Some k else ef_ep (?efs ! k)))"
      using Suc.IH [of "i + 1" ?efs] Suc.prems by auto
    have "ef_ep (efs' ! k) = (if i \<le> k \<and> k < i + Suc count then Some k else ef_ep (efs ! k))"
      if "\<forall>i ep. ep_on i ep \<noteq> Inl 0" "ret = 0" "k < length efs" for k
      using at that by (cases "k = i") auto
    then show ?thesis using rec Inr t ep Suc.prems by simp
  qed
qed

subsection \<open>Every hook keeps a bound function well-formed\<close>

lemma revmap_loop_ok: "i + count \<le> length nums \<Longrightarrow> revmap_loop count i intf nums \<noteq> Fault"
  by (induction count i intf nums rule: revmap_loop.induct) auto

lemma revmap_intf_ok: "attached u \<Longrightarrow> ffs_func_revmap_intf intf u \<noteq> Fault"
  by (simp add: ffs_func_revmap_intf_def attached_def revmap_loop_ok)

lemma low_nibble: "unat (num AND 0x0f :: u8) < 16"
proof -
  have "num AND 0x0f \<le> (0x0f :: u8)" by (rule word_and_le1)
  then show ?thesis by (simp add: word_le_nat_alt)
qed

lemma revmap_ep_ok:
  assumes "attached u"
  shows "ffs_func_revmap_ep num (uf_fn u) \<noteq> Fault" and "ffs_func_revmap_ep num (uf_fn u) = Ok ret \<Longrightarrow> ret < length (eps_addrmap (uf_ffs u))"
proof -
  have len: "length (fn_revmap (uf_fn u)) = 16" using assms by (simp add: attached_def eps_tables_def)
  then have in16: "unat (num AND 0x0f) < length (fn_revmap (uf_fn u))" using low_nibble [of num] by simp
  then show "ffs_func_revmap_ep num (uf_fn u) \<noteq> Fault" by (simp add: ffs_func_revmap_ep_def Let_def)
  have "unat (fn_revmap (uf_fn u) ! unat (num AND 0x0f)) \<le> unat (eps_count (uf_ffs u))"
    using assms nth_mem [OF in16] by (auto simp: attached_def eps_tables_def)
  moreover have "unat (eps_count (uf_ffs u)) < length (eps_addrmap (uf_ffs u))"
    using assms by (simp add: attached_def ok_in_def ffs_ok_def)
  ultimately show "ffs_func_revmap_ep num (uf_fn u) = Ok ret \<Longrightarrow> ret < length (eps_addrmap (uf_ffs u))"
    by (auto simp: ffs_func_revmap_ep_def Let_def split: if_splits)
qed

lemma setup_index_ok: "attached u \<Longrightarrow> setup_index creq u \<noteq> Fault"
  using revmap_intf_ok [of u] revmap_ep_ok(1) [of u "ucast (wIndex creq)"] revmap_ep_ok(2) [of u "ucast (wIndex creq)"]
  by (cases "ffs_func_revmap_ep (ucast (wIndex creq)) (uf_fn u)") (auto simp: setup_index_def Let_def not_le)

lemma setup_attached:
  assumes u: "attached u"
  shows "post (ffs_func_setup creq u) (\<lambda>_ u'. attached u' \<and> uf_fn u' = uf_fn u) (\<lambda>_ u'. u' = u)"
proof (cases "setup_index creq u")
  case (Ok ret)
  have "post (on_ffs (run_async (Async_setup (creq\<lparr>wIndex := of_nat ret\<rparr>))) u)
      (\<lambda>_ u'. attached u' \<and> uf_fn u' = uf_fn u \<and> uf_active u' = uf_active u) (\<lambda>_ _. False)"
    using u by (intro on_ffs_attached run_async_post still_async) (auto simp: attached_def)
  then have "post (bindS (on_ffs (run_async (Async_setup (creq\<lparr>wIndex := of_nat ret\<rparr>))) u) (\<lambda>_ u. (Ok (wLength creq = 0), u)))
      (\<lambda>_ u'. attached u' \<and> uf_fn u' = uf_fn u) (\<lambda>_ _. False)"
    by (rule post_bindS) simp
  then show ?thesis using Ok by (auto simp: ffs_func_setup_def elim: post_mono)
qed (use setup_index_ok [OF u] in \<open>auto simp: ffs_func_setup_def\<close>)

lemma attached_files:
  assumes "attached u" and "length efs = unat (eps_count (uf_ffs u))"
  shows "attached (u\<lparr>uf_ffs := (uf_ffs u)\<lparr>epfiles := Some efs\<rparr>\<rparr>)"
  using assms by (auto simp: attached_def ok_in_def ffs_ok_def ep0_inv_def open_state_def eps_tables_def)

lemma eps_disable_attached:
  assumes u: "attached u"
  shows "\<exists>hw efs. ffs_func_eps_disable u = (Ok hw, u\<lparr>uf_ffs := (uf_ffs u)\<lparr>epfiles := Some efs\<rparr>\<rparr>)
    \<and> length efs = unat (eps_count (uf_ffs u)) \<and> (\<forall>ef \<in> set efs. ef_ep ef = None)"
proof -
  from u obtain efs where efs: "epfiles (uf_ffs u) = Some efs" "length efs = unat (eps_count (uf_ffs u))"
    and len: "length (fn_eps (uf_fn u)) = unat (eps_count (uf_ffs u))" by (auto simp: attached_def eps_tables_def)
  obtain hw efs' where "eps_disable_loop (unat (eps_count (uf_ffs u))) 0 (fn_eps (uf_fn u)) (Some efs) = Ok (hw, Some efs')"
    "length efs' = length efs" "\<forall>k < length efs. efs' ! k = (if k < unat (eps_count (uf_ffs u)) then (efs ! k)\<lparr>ef_ep := None\<rparr> else efs ! k)"
    using eps_disable_loop_ok [of 0 "unat (eps_count (uf_ffs u))" "fn_eps (uf_fn u)" efs] efs len by auto
  moreover from this efs have "\<forall>ef \<in> set efs'. ef_ep ef = None" by (auto simp: in_set_conv_nth)
  ultimately show ?thesis using efs by (simp add: ffs_func_eps_disable_def) blast
qed

lemma eps_enable_attached:
  assumes u: "attached u"
  shows "\<exists>ret efs. ffs_func_eps_enable ep_on u = (Ok ret, u\<lparr>uf_ffs := (uf_ffs u)\<lparr>epfiles := Some efs\<rparr>\<rparr>)
    \<and> length efs = unat (eps_count (uf_ffs u))
    \<and> ((\<forall>i ep. ep_on i ep \<noteq> Inl 0) \<and> ret = 0 \<longrightarrow> (\<forall>k < length efs. ef_ep (efs ! k) = Some k))"
proof -
  from u obtain efs where efs: "epfiles (uf_ffs u) = Some efs" "length efs = unat (eps_count (uf_ffs u))"
    and len: "length (fn_eps (uf_fn u)) = unat (eps_count (uf_ffs u))" and hw: "\<forall>e \<in> set (fn_eps (uf_fn u)). ep_hw e \<noteq> None"
    by (auto simp: attached_def eps_tables_def)
  obtain ret efs' where loop: "eps_enable_loop ep_on (unat (eps_count (uf_ffs u))) 0 (fn_eps (uf_fn u)) (Some efs) = (Ok ret, Some efs')"
    and len': "length efs' = length efs"
    and on: "(\<forall>i ep. ep_on i ep \<noteq> Inl 0) \<and> ret = 0 \<longrightarrow>
      (\<forall>k < length efs. ef_ep (efs' ! k) = (if 0 \<le> k \<and> k < 0 + unat (eps_count (uf_ffs u)) then Some k else ef_ep (efs ! k)))"
    using eps_enable_loop_ok [OF hw, of 0 "unat (eps_count (uf_ffs u))" efs ep_on] efs len by auto
  show ?thesis
    by (rule exI [of _ ret], rule exI [of _ efs'])
       (use loop len' on efs in \<open>simp add: ffs_func_eps_enable_def\<close>)
qed

text \<open>A hook that ends with a bound function, whether it succeeds or not; the copy and the tables stay.\<close>

definition stays :: "usb_func \<Rightarrow> 'a res \<times> usb_func \<Rightarrow> bool" where
  "stays u p \<longleftrightarrow> post p (\<lambda>_ u'. attached u' \<and> uf_fn u' = uf_fn u) (\<lambda>_ u'. attached u' \<and> uf_fn u' = uf_fn u)"

lemma stays_pair [simp]:
  "stays u (Ok x, v) \<longleftrightarrow> attached v \<and> uf_fn v = uf_fn u" "stays u (Err e, v) \<longleftrightarrow> attached v \<and> uf_fn v = uf_fn u"
  "\<not> stays u (Fault, v)"
  by (simp_all add: stays_def)

lemma stays_bindS:
  "stays u p \<Longrightarrow> (\<And>x v. attached v \<Longrightarrow> uf_fn v = uf_fn u \<Longrightarrow> stays u (f x v)) \<Longrightarrow> stays u (bindS p f)"
  unfolding stays_def by (erule post_bindS) blast

lemma stays_event:
  assumes "attached v" and "uf_fn v = uf_fn u" and "e \<noteq> FUNCTIONFS_SETUP"
  shows "stays u (on_ffs (ffs_event_add e) v)"
  unfolding stays_def by (rule post_mono [OF event_attached [OF assms(1,3)]]) (simp_all add: assms(2))

lemma attached_flags [simp]: "attached (v\<lparr>uf_active := b\<rparr>) = attached v" "attached (v\<lparr>uf_reset_work := b\<rparr>) = attached v"
  by (simp_all add: attached_def)

lemma attached_closing: "attached v \<Longrightarrow> attached (v\<lparr>uf_ffs := (uf_ffs v)\<lparr>ffs_st := FFS_CLOSING\<rparr>, uf_reset_work := True\<rparr>)"
  by (simp add: attached_def ok_in_def ffs_ok_def ep0_inv_def open_state_def eps_tables_def)

lemma stays_disable: "attached u \<Longrightarrow> stays u (ffs_func_eps_disable u)"
  using eps_disable_attached [of u] attached_files [of u] by fastforce

lemma stays_enable:
  assumes "attached v" and "uf_fn v = uf_fn u"
  shows "stays u (ffs_func_eps_enable ep_on v)"
  using eps_enable_attached [OF assms(1), of ep_on] attached_files [OF assms(1)] assms(2) by fastforce

lemma set_alt_stays:
  assumes u: "attached u"
  shows "stays u (ffs_func_set_alt ep_on intf alt u)"
proof -
  have off: "stays u (if uf_active u then ffs_func_eps_disable u else (Ok [], u))"
    using stays_disable [OF u] u by simp
  show ?thesis
  proof (cases "if alt \<noteq> None then ffs_func_revmap_intf intf u else Ok 0")
    case (Ok k)
    show ?thesis
      unfolding ffs_func_set_alt_def Ok res.case
    proof (rule stays_bindS [OF off])
      fix x v assume v: "attached v" "uf_fn v = uf_fn u"
      have on: "stays u (bindS (on_ffs (ffs_event_add FUNCTIONFS_DISABLE) (v\<lparr>uf_active := False\<rparr>)) (\<lambda>_ u. (Ok (0::int), u)))"
        by (intro stays_bindS stays_event) (simp_all add: v)
      have "stays u (ffs_func_eps_enable ep_on (v\<lparr>uf_active := True\<rparr>))" by (rule stays_enable) (simp_all add: v)
      then have "stays u (bindS (ffs_func_eps_enable ep_on (v\<lparr>uf_active := True\<rparr>)) (\<lambda>ret u.
              if ret \<ge> 0 then bindS (on_ffs (ffs_event_add FUNCTIONFS_ENABLE) u) (\<lambda>_ u. (Ok ret, u))
              else (Err (E_CODE ret), u)))"
        by (rule stays_bindS) (auto intro!: stays_bindS stays_event)
      then show "stays u (if ffs_st (uf_ffs v) = FFS_DEACTIVATED
          then (Err ENODEV, v\<lparr>uf_ffs := (uf_ffs v)\<lparr>ffs_st := FFS_CLOSING\<rparr>, uf_reset_work := True\<rparr>)
          else if ffs_st (uf_ffs v) \<noteq> FFS_ACTIVE then (Err ENODEV, v)
          else case alt of
            None \<Rightarrow> bindS (on_ffs (ffs_event_add FUNCTIONFS_DISABLE) (v\<lparr>uf_active := False\<rparr>)) (\<lambda>_ u. (Ok 0, u))
          | Some _ \<Rightarrow> bindS (ffs_func_eps_enable ep_on (v\<lparr>uf_active := True\<rparr>)) (\<lambda>ret u.
              if ret \<ge> 0 then bindS (on_ffs (ffs_event_add FUNCTIONFS_ENABLE) u) (\<lambda>_ u. (Ok ret, u))
              else (Err (E_CODE ret), u)))"
        using v on attached_closing [OF v(1)] by (simp split: option.split)
    qed
  next
    case (Err e)
    then show ?thesis using u by (simp add: ffs_func_set_alt_def)
  next
    case Fault
    then show ?thesis using revmap_intf_ok [OF u] by (simp split: if_splits)
  qed
qed

subsection \<open>Binding and unbinding\<close>

text \<open>The function has strings for all string numbers that its descriptors name.\<close>

definition string_table :: "ffs_data \<Rightarrow> bool" where
  "string_table ffs \<longleftrightarrow> strings_count ffs = 0
     \<or> (\<exists>lang strs rest. stringtabs ffs = Some ((lang, strs) # rest) \<and> unat (strings_count ffs) \<le> length strs)"

lemma first_ids_start: "string_table (uf_ffs u) \<Longrightarrow> unat (strings_count (uf_ffs u)) \<le> length (first_ids (uf_fn (bind_start env u)))"
  by (auto simp: string_table_def first_ids_def bind_start_def)

text \<open>
  What binding needs of the data that user space wrote, for a message with the descriptors \<open>fs\<close>,
  \<open>hs\<close>, \<open>ss\<close> of the three speeds. It depends on nothing that the hooks or endpoint zero change.
\<close>

definition may_bind :: "u8 list list \<Rightarrow> u8 list list \<Rightarrow> u8 list list \<Rightarrow> u8 list \<Rightarrow> ffs_data \<Rightarrow> bool" where
  "may_bind fs hs ss os ffs \<longleftrightarrow> bindable ffs fs hs ss os \<and> cdc_bindable fs hs ss \<and> full_speed ffs (fs @ hs @ ss) \<and> string_table ffs
     \<and> (\<forall>d \<in> set (fs @ hs @ ss). fields_ok (unat (interfaces_count ffs)) (unat (strings_count ffs)) d)"

lemma may_bind_still: "still ffs = still ffs' \<Longrightarrow> may_bind fs hs ss os ffs = may_bind fs hs ss os ffs'"
  by (simp add: may_bind_def still_def message_of_def bindable_def known_endpoints_def full_speed_def ffs_ep_addr2idx_def string_table_def)

lemma fields_ok_more: "fields_ok n m d \<Longrightarrow> m \<le> k \<Longrightarrow> fields_ok n k d"
  by (fastforce simp: fields_ok_def field_ok_def split: ffs_entity.splits)

lemma may_bind_names:
  assumes "may_bind fs hs ss os (uf_ffs u)" and "\<forall>n. interface_id env n < 256"
  shows "names_ok env (uf_ffs u) (fs @ hs @ ss) (uf_fn (bind_start env u))"
proof -
  have more: "unat (strings_count (uf_ffs u)) \<le> length (first_ids (uf_fn (bind_start env u)))"
    using assms(1) by (intro first_ids_start) (simp add: may_bind_def)
  show ?thesis using assms fields_ok_more [OF _ more] by (auto simp: may_bind_def names_ok_def)
qed

text \<open>After a binding every endpoint has its hardware endpoint.\<close>

lemma claimed_hw:
  assumes "ready ffs fs hs ss s" and "full_speed ffs (fs @ hs @ ss)" and "length (fn_eps s) = unat (eps_count ffs)"
  shows "\<forall>e \<in> set (fn_eps s). ep_hw e \<noteq> None"
proof
  fix e assume "e \<in> set (fn_eps s)"
  then obtain i where i: "i < unat (eps_count ffs)" "e = fn_eps s ! i" using assms(3) by (auto simp: in_set_conv_nth)
  then obtain d where d: "d \<in> set (fs @ hs @ ss)" "endpoint d" "ffs_ep_addr2idx ffs (d ! 2) = Some (Suc i)"
    using assms(2) by (auto simp: full_speed_def)
  then obtain j where "claimed ffs j s d" using assms(1) by (fastforce simp: ready_def ready_speed_def)
  then show "ep_hw e \<noteq> None" using d(2,3) i(2) by (simp add: claimed_def)
qed

lemma event_ok_in:
  assumes "ok_in False False s" and "e \<noteq> FUNCTIONFS_SETUP"
  shows "ok_in False False (snd (ffs_event_add e s)) \<and> fst (ffs_event_add e s) = Ok ()"
  using run_async_post [of False False s "Async_event e"] assms by (auto simp: post_def split: res.splits)

text \<open>Gadget or not, once an event has purged the queue: the events of binding and unbinding leave no setup request.\<close>

lemma purged:
  "FUNCTIONFS_SETUP \<notin> set (purge_events FUNCTIONFS_BIND evs)" "FUNCTIONFS_SETUP \<notin> set (purge_events FUNCTIONFS_UNBIND evs)"
  by (auto simp: purge_events_def Let_def)

lemma event_over:
  assumes "ok_in g False s" and "e \<in> {FUNCTIONFS_BIND, FUNCTIONFS_UNBIND}"
  shows "fst (ffs_event_add e (s\<lparr>gadget := b\<rparr>)) = Ok () \<and> ok_in b False (snd (ffs_event_add e (s\<lparr>gadget := b\<rparr>)))"
proof -
  have wf: "ev_wf (ev_types (s\<lparr>gadget := b\<rparr>))" and free: "\<not> evlock_held (s\<lparr>gadget := b\<rparr>)"
    using assms by (simp_all add: ok_in_def ffs_ok_def ep0_inv_def)
  show ?thesis
    using assms event_queue.wf_add [OF wf, of e] purged [of "ev_types s"]
    by (auto simp: event_add_eq [OF wf free] ok_in_def ffs_ok_def ep0_inv_def)
qed

lemma still_event: "still (snd (ffs_event_add e s)) = still s"
  using still_async [of s s "Async_event e"] by (simp add: leaves_def)

lemma bind_attaches:
  assumes u: "detached u" and st: "ffs_st (uf_ffs u) = FFS_ACTIVE" and m: "may_bind fs hs ss os (uf_ffs u)"
    and ids: "\<forall>n. interface_id env n < 256"
  shows "post (ffs_func_bind env c unregister u)
     (\<lambda>_ u'. attached u' \<and> may_bind fs hs ss os (uf_ffs u') \<and> bound_copy (fs @ hs @ ss) (length fs) os (uf_fn u')
        \<and> ready (uf_ffs u) fs hs ss (uf_fn u') \<and> ffs_st (uf_ffs u') = FFS_ACTIVE
        \<and> message_of (uf_ffs u') = message_of (uf_ffs u) \<and> stringtabs (uf_ffs u') = stringtabs (uf_ffs u)
        \<and> ref (uf_ffs u') = ref (uf_ffs u) + 1
        \<and> ev_types (uf_ffs u') = purge_events FUNCTIONFS_BIND (ev_types (uf_ffs u)) @ [FUNCTIONFS_BIND]) (\<lambda>_ _. True)"
proof -
  obtain dev where dev: "private_data (uf_ffs u) = Some dev" "dev_desc_ready dev" using u by (auto simp: detached_def)
  have facts: "uf_refcnt u = 0" "\<not> fl_bound (uf_ffs u)" "0 < ref (uf_ffs u)" "ev_wf (ev_types (uf_ffs u))" "\<not> evlock_held (uf_ffs u)"
    "unbound (uf_ffs u) (uf_fn u)" "ok_in False False (uf_ffs u)"
    using u by (auto simp: detached_def ok_in_def ffs_ok_def ep0_inv_def)
  have b: "bindable (uf_ffs u) fs hs ss os" "cdc_bindable fs hs ss" "full_speed (uf_ffs u) (fs @ hs @ ss)"
    using m by (simp_all add: may_bind_def)
  let ?start = "uf_ffs (bind_start env u)" and ?s = "(uf_ffs u)\<lparr>fl_bound := True, ep0_reqs := [], ref := ref (uf_ffs u) + 1\<rparr>"
  have start: "?start = ?s\<lparr>gadget := True\<rparr>" by (simp add: bind_start_def ffs_data_get_def)
  have "ok_in False False ?s" using facts(7) by (auto simp: ok_in_def ffs_ok_def ep0_inv_def)
  then have ok: "ok_in True False (snd (ffs_event_add FUNCTIONFS_BIND ?start))"
    unfolding start using event_over [of False ?s FUNCTIONFS_BIND True] by simp
  have still: "still (snd (ffs_event_add FUNCTIONFS_BIND ?start)) = still ?start" by (rule still_event)
  show ?thesis
  proof (rule post_mono [OF ffs_func_bind_post [OF dev facts(1) st facts(2-5) b(1) facts(6) may_bind_names [OF m ids] b(2)]], elim conjE)
    fix x :: unit and u' :: usb_func
    assume copy: "bound_copy (fs @ hs @ ss) (length fs) os (uf_fn u')" "ready (uf_ffs u) fs hs ss (uf_fn u')"
      and tables: "eps_tables (uf_ffs u) (uf_fn u')" "length (fn_nums (uf_fn u')) = unat (interfaces_count (uf_ffs u))"
      and msg: "message_of (uf_ffs u') = message_of (uf_ffs u)" and ref': "ref (uf_ffs u') = ref (uf_ffs u) + 1"
      and evs: "ev_types (uf_ffs u') = purge_events FUNCTIONFS_BIND (ev_types (uf_ffs u)) @ [FUNCTIONFS_BIND]"
      and ref: "uf_refcnt u' = 1" and ffs: "uf_ffs u' = snd (ffs_event_add FUNCTIONFS_BIND ?start)"
    have hw: "\<forall>e \<in> set (fn_eps (uf_fn u')). ep_hw e \<noteq> None"
      using claimed_hw [OF copy(2) b(3)] tables(1) by (simp add: eps_tables_def)
    have st': "still (uf_ffs u') = still ?start" using still by (simp add: ffs)
    have files: "epfiles (uf_ffs u') = epfiles (uf_ffs u)" "eps_count (uf_ffs u') = eps_count (uf_ffs u)"
      "interfaces_count (uf_ffs u') = interfaces_count (uf_ffs u)" "ffs_st (uf_ffs u') = FFS_ACTIVE"
      "fl_bound (uf_ffs u')" "ref (uf_ffs u') = ref (uf_ffs u) + 1" "private_data (uf_ffs u') = private_data (uf_ffs u)"
      using st' st by (simp_all add: still_def message_of_def start)
    have strs: "stringtabs (uf_ffs u') = stringtabs (uf_ffs u)" using st' by (simp add: still_def start)
    have "attached u'"
      using u ok hw tables ref files facts(3) dev by (simp add: attached_def detached_def ffs open_state_def eps_tables_def)
    moreover have "may_bind fs hs ss os (uf_ffs u') = may_bind fs hs ss os ?start" by (rule may_bind_still [OF st'])
    moreover have "may_bind fs hs ss os ?start = may_bind fs hs ss os (uf_ffs u)"
      by (simp add: start may_bind_def bindable_def known_endpoints_def full_speed_def ffs_ep_addr2idx_def string_table_def)
    ultimately show "attached u' \<and> may_bind fs hs ss os (uf_ffs u') \<and> bound_copy (fs @ hs @ ss) (length fs) os (uf_fn u')
        \<and> ready (uf_ffs u) fs hs ss (uf_fn u') \<and> ffs_st (uf_ffs u') = FFS_ACTIVE
        \<and> message_of (uf_ffs u') = message_of (uf_ffs u) \<and> stringtabs (uf_ffs u') = stringtabs (uf_ffs u)
        \<and> ref (uf_ffs u') = ref (uf_ffs u) + 1
        \<and> ev_types (uf_ffs u') = purge_events FUNCTIONFS_BIND (ev_types (uf_ffs u)) @ [FUNCTIONFS_BIND]"
      using m copy files(4) msg evs ref' strs by simp
  qed simp
qed

lemma unbind_detaches:
  assumes u: "attached u"
  shows "\<exists>u'. ffs_func_unbind c unregister u = (Ok (), u') \<and> detached u' \<and> message_of (uf_ffs u') = message_of (uf_ffs u)
    \<and> stringtabs (uf_ffs u') = stringtabs (uf_ffs u) \<and> ffs_st (uf_ffs u') = ffs_st (uf_ffs u) \<and> fn_revmap (uf_fn u') = fn_revmap (uf_fn u)
    \<and> ref (uf_ffs u') = ref (uf_ffs u) - 1 \<and> ev_types (uf_ffs u') = purge_events FUNCTIONFS_UNBIND (ev_types (uf_ffs u)) @ [FUNCTIONFS_UNBIND]"
proof -
  define off where "off = (if uf_active u then bindS (ffs_func_eps_disable u) (\<lambda>_ u. (Ok (), u\<lparr>uf_active := False\<rparr>)) else (Ok (), u))"
  obtain efs where off: "off = (Ok (), u\<lparr>uf_ffs := (uf_ffs u)\<lparr>epfiles := Some efs\<rparr>, uf_active := False\<rparr>)"
    and efs: "length efs = unat (eps_count (uf_ffs u))"
  proof (cases "uf_active u")
    case True
    then show ?thesis using eps_disable_attached [OF u] that by (auto simp: off_def)
  next
    case False
    obtain efs where "epfiles (uf_ffs u) = Some efs" "length efs = unat (eps_count (uf_ffs u))" using u by (auto simp: attached_def)
    then show ?thesis using that [of efs] False by (simp add: off_def)
  qed
  let ?s = "(uf_ffs u)\<lparr>epfiles := Some efs, ep0_reqs := [], fl_bound := False, ref := ref (uf_ffs u) - 1\<rparr>"
  let ?r = "(uf_ffs u)\<lparr>epfiles := Some efs, ep0_reqs := [], gadget := False, fl_bound := False, ref := ref (uf_ffs u) - 1\<rparr>"
  have refs: "uf_refcnt u = 1" "gadget (uf_ffs u)" "1 < ref (uf_ffs u)" "length (fn_eps (uf_fn u)) = unat (eps_count (uf_ffs u))"
    "ev_wf (ev_types (uf_ffs u))" "\<not> evlock_held (uf_ffs u)" "ok_in True False (uf_ffs u)"
    using u by (simp_all add: attached_def eps_tables_def ok_in_def ffs_ok_def ep0_inv_def)
  have ok: "ok_in True False ?s" using refs(7) by (simp add: ok_in_def ffs_ok_def ep0_inv_def)
  have same: "?r = ?s\<lparr>gadget := False\<rparr>" by simp
  obtain t where t: "t = snd (ffs_event_add FUNCTIONFS_UNBIND ?r)" by blast
  have "fst (ffs_event_add FUNCTIONFS_UNBIND ?r) = Ok () \<and> ok_in False False t"
    unfolding t same by (rule event_over [OF ok]) simp
  then have event: "ffs_event_add FUNCTIONFS_UNBIND ?r = (Ok (), t)" "ok_in False False t"
    by (auto simp: t prod_eq_iff)
  have still: "still t = still ?r" unfolding t by (rule still_event)
  let ?u = "u\<lparr>uf_ffs := t, uf_active := False, uf_refcnt := 0,
     uf_fn := (uf_fn u)\<lparr>fn_eps := [], fn_fs := None, fn_hs := None, fn_ss := None, fn_nums := []\<rparr>\<rparr>"
  have "ev_types t = purge_events FUNCTIONFS_UNBIND (ev_types (uf_ffs u)) @ [FUNCTIONFS_UNBIND]"
    unfolding t using refs(5,6) by (subst event_add_eq) simp_all
  moreover have "ffs_func_unbind c unregister u = (Ok (), ?u)"
    using refs(1-4) event(1) unfolding ffs_func_unbind_def off_def [symmetric] off
    by (simp add: functionfs_unbind_def ffs_data_put_def on_ffs_def Let_def)
  moreover have "detached ?u"
    using u event(2) still efs refs(3)
    by (simp add: detached_def attached_def still_def message_of_def open_state_def unbound_def eps_tables_def)
  ultimately show ?thesis using still by (simp add: still_def message_of_def)
qed

subsection \<open>All sequences of hooks and calls\<close>

text \<open>
  The gadget binds a function that is not bound, and calls the other hooks only on a bound one; user
  space and the hardware work on endpoint zero at any time. A binding that fails is not a step: what
  it leaves behind is looked at on its own.
\<close>

inductive usb_step :: "usb_func \<Rightarrow> usb_func \<Rightarrow> bool" where
  by_bind: "uf_refcnt u = 0 \<Longrightarrow> \<forall>n. interface_id env n < 256 \<Longrightarrow> ffs_func_bind env c unregister u = (Ok (), u') \<Longrightarrow> usb_step u u'"
| by_unbind: "uf_refcnt u \<noteq> 0 \<Longrightarrow> usb_step u (snd (ffs_func_unbind c unregister u))"
| by_set_alt: "uf_refcnt u \<noteq> 0 \<Longrightarrow> usb_step u (snd (ffs_func_set_alt ep_on intf alt u))"
| by_setup: "uf_refcnt u \<noteq> 0 \<Longrightarrow> usb_step u (snd (ffs_func_setup creq u))"
| by_suspend: "uf_refcnt u \<noteq> 0 \<Longrightarrow> usb_step u (snd (ffs_func_suspend u))"
| by_resume: "uf_refcnt u \<noteq> 0 \<Longrightarrow> usb_step u (snd (ffs_func_resume u))"
| by_ep0: "ep0_step (uf_ffs u) ffs \<Longrightarrow> usb_step u (u\<lparr>uf_ffs := ffs\<rparr>)"

inductive usb_reachable :: "usb_func \<Rightarrow> usb_func \<Rightarrow> bool" for u0 where
  start: "usb_reachable u0 u0"
| step: "usb_reachable u0 u \<Longrightarrow> usb_step u u' \<Longrightarrow> usb_reachable u0 u'"

definition well_formed :: "u8 list list \<Rightarrow> u8 list list \<Rightarrow> u8 list list \<Rightarrow> u8 list \<Rightarrow> usb_func \<Rightarrow> bool" where
  "well_formed fs hs ss os u \<longleftrightarrow> (attached u \<or> detached u) \<and> may_bind fs hs ss os (uf_ffs u)"

text \<open>The fields that no hook but binding and unbinding touches.\<close>

definition same_message :: "usb_func \<Rightarrow> usb_func \<Rightarrow> bool" where
  "same_message u u' \<longleftrightarrow> message_of (uf_ffs u') = message_of (uf_ffs u) \<and> stringtabs (uf_ffs u') = stringtabs (uf_ffs u)"

lemma same_message_trans: "same_message u v \<Longrightarrow> same_message v w \<Longrightarrow> same_message u w"
  by (simp add: same_message_def)

lemma may_bind_same: "same_message u u' \<Longrightarrow> may_bind fs hs ss os (uf_ffs u') = may_bind fs hs ss os (uf_ffs u)"
  by (simp add: may_bind_def same_message_def message_of_def bindable_def known_endpoints_def full_speed_def ffs_ep_addr2idx_def string_table_def)

definition keeps_refs :: "usb_func \<Rightarrow> usb_func \<Rightarrow> bool" where
  "keeps_refs u u' \<longleftrightarrow> same_message u u' \<and> ref (uf_ffs u') = ref (uf_ffs u) \<and> uf_refcnt u' = uf_refcnt u"

lemma keeps_refs_simps [simp]:
  "keeps_refs u u" "keeps_refs u (v\<lparr>uf_active := b\<rparr>) = keeps_refs u v" "keeps_refs u (v\<lparr>uf_reset_work := b\<rparr>) = keeps_refs u v"
  "keeps_refs u (v\<lparr>uf_ffs := (uf_ffs v)\<lparr>epfiles := efs\<rparr>\<rparr>) = keeps_refs u v"
  "keeps_refs u (v\<lparr>uf_ffs := (uf_ffs v)\<lparr>ffs_st := st\<rparr>\<rparr>) = keeps_refs u v"
  by (simp_all add: keeps_refs_def same_message_def message_of_def)

lemma keeps_refs_on_ffs:
  assumes "still_as (uf_ffs v) (f (uf_ffs v))" and "keeps_refs u v"
  shows "keeps_refs u (snd (on_ffs f v))"
  using assms by (auto simp: on_ffs_def leaves_def keeps_refs_def same_message_def still_def split: prod.splits)

lemma keeps_refs_event: "keeps_refs u v \<Longrightarrow> keeps_refs u (snd (on_ffs (ffs_event_add e) v))"
  by (rule keeps_refs_on_ffs) (simp_all add: leaves_def still_event)

lemma keeps_refs_bindS:
  "keeps_refs u (snd p) \<Longrightarrow> (\<And>x v. keeps_refs u v \<Longrightarrow> keeps_refs u (snd (f x v))) \<Longrightarrow> keeps_refs u (snd (bindS p f))"
  by (cases p; cases "fst p") auto

lemma keeps_refs_disable: "keeps_refs u v \<Longrightarrow> keeps_refs u (snd (ffs_func_eps_disable v))"
  by (simp add: ffs_func_eps_disable_def split: res.split)

lemma keeps_refs_enable: "keeps_refs u v \<Longrightarrow> keeps_refs u (snd (ffs_func_eps_enable ep_on v))"
  by (simp add: ffs_func_eps_enable_def split: prod.split)

lemma set_alt_refs: "keeps_refs u (snd (ffs_func_set_alt ep_on intf alt u))"
  unfolding ffs_func_set_alt_def
  by (auto split: res.split option.split intro!: keeps_refs_bindS keeps_refs_event keeps_refs_disable keeps_refs_enable)

lemma setup_refs: "keeps_refs u (snd (ffs_func_setup creq u))"
  unfolding ffs_func_setup_def
  by (auto split: res.split intro!: keeps_refs_bindS keeps_refs_on_ffs still_async)

lemma ep0_refs: "ep0_step (uf_ffs u) ffs \<Longrightarrow> open_state (uf_ffs u) \<Longrightarrow> keeps_refs u (u\<lparr>uf_ffs := ffs\<rparr>)"
  using ep0_step_still by (fastforce simp: keeps_refs_def same_message_def still_def)

lemma stays_snd: "stays u p \<Longrightarrow> attached (snd p)"
  by (cases p; cases "fst p") auto

lemma setup_stays: "attached u \<Longrightarrow> stays u (ffs_func_setup creq u)"
  unfolding stays_def by (rule post_mono [OF setup_attached]) auto

lemma suspend_stays: "attached u \<Longrightarrow> stays u (ffs_func_suspend u)"
  unfolding ffs_func_suspend_def by (rule stays_event) simp_all

lemma resume_stays: "attached u \<Longrightarrow> stays u (ffs_func_resume u)"
  unfolding ffs_func_resume_def by (rule stays_event) simp_all

lemma stays_no_fault: "stays u p \<Longrightarrow> no_fault p"
  by (auto simp: stays_def dest: postD(1))

text \<open>One reference for the owner of the data, and one while a gadget is bound.\<close>

definition balanced :: "usb_func \<Rightarrow> usb_func \<Rightarrow> bool" where
  "balanced u u' \<longleftrightarrow> same_message u u' \<and> ref (uf_ffs u') + unat (uf_refcnt u) = ref (uf_ffs u) + unat (uf_refcnt u')"

lemma keeps_refs_balanced: "keeps_refs u u' \<Longrightarrow> balanced u u'"
  by (simp add: keeps_refs_def balanced_def)

lemma balanced_trans: "balanced u v \<Longrightarrow> balanced v w \<Longrightarrow> balanced u w"
  by (auto simp: balanced_def intro: same_message_trans)

lemma attached_refcnt: "attached u \<Longrightarrow> uf_refcnt u = 1" "detached u \<Longrightarrow> uf_refcnt u = 0"
  by (simp_all add: attached_def detached_def)

lemma bind_ok_active:
  assumes "detached u" and "ffs_func_bind env c unregister u = (Ok (), u')"
  shows "ffs_st (uf_ffs u) = FFS_ACTIVE"
proof (rule ccontr)
  assume "ffs_st (uf_ffs u) \<noteq> FFS_ACTIVE"
  then have "functionfs_bind env u = (Err EBADFD, u)" by (simp add: functionfs_bind_def)
  then show False using assms by (auto simp: ffs_func_bind_def ffs_do_functionfs_bind_def detached_def)
qed

lemma detached_ffs:
  assumes "detached u" and "ok_in False False ffs" and "still ffs = still (uf_ffs u)"
  shows "detached (u\<lparr>uf_ffs := ffs\<rparr>)"
  using assms by (simp add: detached_def still_def message_of_def open_state_def unbound_def)

lemma ep0_well_formed:
  assumes "attached u \<or> detached u" and step: "ep0_step (uf_ffs u) ffs"
  shows "attached (u\<lparr>uf_ffs := ffs\<rparr>) \<or> detached (u\<lparr>uf_ffs := ffs\<rparr>)"
  using assms(1)
proof
  assume u: "attached u"
  then have "still ffs = still (uf_ffs u)" "ok_in True False ffs"
    using ep0_step_still [OF step] ep0_step_ok [OF step] by (simp_all add: attached_def)
  then show ?thesis using attached_ffs [OF u] by blast
next
  assume u: "detached u"
  then have "still ffs = still (uf_ffs u)" "ok_in False False ffs"
    using ep0_step_still [OF step] ep0_step_ok [OF step] by (simp_all add: detached_def)
  then show ?thesis using detached_ffs [OF u] by blast
qed

lemma bind_balanced:
  assumes u: "detached u" and m: "may_bind fs hs ss os (uf_ffs u)" and ids: "\<forall>n. interface_id env n < 256"
    and run: "ffs_func_bind env c unregister u = (Ok (), u')"
  shows "attached u' \<and> may_bind fs hs ss os (uf_ffs u') \<and> bound_copy (fs @ hs @ ss) (length fs) os (uf_fn u')
     \<and> ready (uf_ffs u) fs hs ss (uf_fn u') \<and> balanced u u' \<and> ffs_st (uf_ffs u') = FFS_ACTIVE
     \<and> ev_types (uf_ffs u') = purge_events FUNCTIONFS_BIND (ev_types (uf_ffs u)) @ [FUNCTIONFS_BIND]"
  using bind_attaches [OF u bind_ok_active [OF u run] m ids, of c unregister] attached_refcnt(1) [of u'] attached_refcnt(2) [OF u]
  by (simp add: run balanced_def same_message_def)

lemma unbind_balanced:
  assumes u: "attached u"
  shows "\<exists>u'. ffs_func_unbind c unregister u = (Ok (), u') \<and> detached u' \<and> balanced u u' \<and> ffs_st (uf_ffs u') = ffs_st (uf_ffs u)"
proof -
  from unbind_detaches [OF u, of c unregister] obtain u' where
    u': "ffs_func_unbind c unregister u = (Ok (), u')" "detached u'" "message_of (uf_ffs u') = message_of (uf_ffs u)"
      "stringtabs (uf_ffs u') = stringtabs (uf_ffs u)" "ffs_st (uf_ffs u') = ffs_st (uf_ffs u)" "ref (uf_ffs u') = ref (uf_ffs u) - 1" by blast
  then have "balanced u u'"
    using u attached_refcnt(1) [OF u] attached_refcnt(2) [of u'] by (simp add: balanced_def same_message_def attached_def)
  then show ?thesis using u' by blast
qed

lemma usb_step_ok:
  assumes "usb_step u u'" and wf: "well_formed fs hs ss os u"
  shows "well_formed fs hs ss os u' \<and> balanced u u'"
proof -
  have m: "may_bind fs hs ss os (uf_ffs u)" and or: "attached u \<or> detached u" using wf by (simp_all add: well_formed_def)
  have att: "uf_refcnt u \<noteq> 0 \<Longrightarrow> attached u" and det: "uf_refcnt u = 0 \<Longrightarrow> detached u" using or attached_refcnt by auto
  have hook: "well_formed fs hs ss os (snd p) \<and> balanced u (snd p)" if "stays u p" "keeps_refs u (snd p)" for p :: "'b res \<times> usb_func"
    using that stays_snd [OF that(1)] m may_bind_same [of u "snd p"]
    by (simp add: well_formed_def keeps_refs_balanced) (simp add: keeps_refs_def)
  show ?thesis using assms(1)
  proof cases
    case (by_bind env c unregister)
    then show ?thesis using bind_balanced [OF det m by_bind(2,3)] by (simp add: well_formed_def)
  next
    case (by_unbind c unregister)
    then show ?thesis using unbind_balanced [OF att, of c unregister] m may_bind_same
      by (fastforce simp: well_formed_def balanced_def)
  next
    case (by_set_alt ep_on intf alt)
    then show ?thesis using hook [OF set_alt_stays [OF att] set_alt_refs] by simp
  next
    case (by_setup creq)
    then show ?thesis using hook [OF setup_stays [OF att] setup_refs] by simp
  next
    case by_suspend
    then show ?thesis using hook [OF suspend_stays [OF att]] by (simp add: ffs_func_suspend_def keeps_refs_event)
  next
    case by_resume
    then show ?thesis using hook [OF resume_stays [OF att]] by (simp add: ffs_func_resume_def keeps_refs_event)
  next
    case (by_ep0 ffs)
    have "open_state (uf_ffs u)" using or by (auto simp: attached_def detached_def)
    then have "keeps_refs u u'" using ep0_refs by_ep0 by blast
    then show ?thesis
      using ep0_well_formed [OF or] by_ep0 m may_bind_same [of u u'] by (simp add: well_formed_def keeps_refs_balanced) (simp add: keeps_refs_def)
  qed
qed

lemma usb_reachable_ok:
  "usb_reachable u0 u \<Longrightarrow> well_formed fs hs ss os u0 \<Longrightarrow> well_formed fs hs ss os u \<and> balanced u0 u"
proof (induction rule: usb_reachable.induct)
  case start
  then show ?case by (simp add: balanced_def same_message_def)
next
  case (step u u')
  then show ?case using usb_step_ok balanced_trans by blast
qed

end
