(* ===== verification/Ffs_Bind_Properties.thy ===== *)
theory Ffs_Bind_Properties
  imports Ffs_Hooks Ffs_Properties
begin

section \<open>Generic USB function: properties of the binding\<close>

text \<open>
  The properties of the binding, of the hooks on a bound function and of its data, with a sample message,
  a sample gadget and the function bound by them as witnesses.
\<close>

subsection \<open>Accepted messages bind\<close>

lemma post_result: "\<exists>x. Q x \<and> post p (A x) E \<Longrightarrow> fst p = Ok y \<Longrightarrow> \<exists>x. A x y (snd p)"
  by (auto simp: post_def split: prod.splits)

text \<open>
  C2. From the descriptors message to the bound function. The parser accepts messages that the binding
  cannot cope with; this is about those that are complete (\<open>complete_speeds\<close>): every descriptor has its
  two header bytes, the class-specific descriptors are complete and have the interfaces they refer to,
  and a message for both high and super speed declares the endpoints for full speed, too. Take such a
  message that the parser accepts on a fresh function, and a gadget whose interface numbers fit into a
  byte. Then the first binding of the activated function does no access outside of the copy, of the arrays or of the tables and follows no null pointer,
  whatever the gadget answers (\<open>post\<close> excludes faults). If it returns 0, the copy holds the declared
  descriptors with new endpoint addresses, with the interface and string numbers of the gadget, and
  with the class-specific numbers entered (\<open>bound_copy\<close>); every descriptor is in the array of its
  speed, and every declared endpoint has a hardware endpoint and its descriptor (\<open>ready\<close>); the
  function holds one more reference and the bind event is queued last.
\<close>
theorem accepted_function_binds:
  assumes "data_got_descs fdget data ffs0 = (Ok x, ffs1)"
    and "length (eps_addrmap ffs0) = 31" and "eps_count ffs0 = 0" and "strings_count ffs0 = 0"
    and "split_speeds [fs_descs_count ffs1, hs_descs_count ffs1, ss_descs_count ffs1]
           (drop (descs_header_size data) data) = Some ([fs, hs, ss], os)"
    and "complete_speeds fs hs ss"
    and msg: "message_of (uf_ffs u) = message_of ffs1" and "string_table (uf_ffs u)" and "\<forall>n. interface_id env n < 256"
    and "private_data (uf_ffs u) = Some dev" and "dev_desc_ready dev" and "uf_refcnt u = 0"
    and "ffs_st (uf_ffs u) = FFS_ACTIVE" and "\<not> fl_bound (uf_ffs u)" and "0 < ref (uf_ffs u)"
    and "ev_wf (ev_types (uf_ffs u))" and "\<not> evlock_held (uf_ffs u)" and "unbound (uf_ffs u) (uf_fn u)"
  shows "\<exists>os'. length os' = length os \<and> post (ffs_func_bind env in_configfs unregister u)
     (\<lambda>_ u'. bound_copy (fs @ hs @ ss) (length fs) os' (uf_fn u') \<and> ready (uf_ffs u) fs hs ss (uf_fn u')
        \<and> eps_tables (uf_ffs u) (uf_fn u') \<and> length (fn_nums (uf_fn u')) = unat (interfaces_count (uf_ffs u))
        \<and> message_of (uf_ffs u') = message_of (uf_ffs u) \<and> uf_refcnt u' = 1 \<and> gadget (uf_ffs u') \<and> fl_bound (uf_ffs u')
        \<and> ref (uf_ffs u') = ref (uf_ffs u) + 1
        \<and> ev_types (uf_ffs u') = purge_events FUNCTIONFS_BIND (ev_types (uf_ffs u)) @ [FUNCTIONFS_BIND])
     (\<lambda>_ _. True)"
proof -
  let ?s = "uf_fn (bind_start env u)"
  have "strings_count ffs1 = strings_count (uf_ffs u)" using msg by (simp add: message_of_def)
  then have "unat (strings_count ffs1) \<le> length (first_ids ?s)" using first_ids_start [OF assms(8), of env] by simp
  from accepted_bindable [OF assms(1-6,9) this] obtain os' where
    os': "length os' = length os" "bindable ffs1 fs hs ss os'" "names_ok env ffs1 (fs @ hs @ ss) ?s" by blast
  have "cdc_bindable fs hs ss" using assms(6) by (simp add: complete_speeds_def)
  note bound = ffs_func_bind_post [OF assms(10-17) _ assms(18) _ \<open>cdc_bindable fs hs ss\<close>]
  have same: "bindable (uf_ffs u) fs hs ss os'" "names_ok env (uf_ffs u) (fs @ hs @ ss) ?s"
    using os' message_kept(1,2) [OF msg] by simp_all
  show ?thesis
    by (rule exI [of _ os'], rule conjI [OF os'(1)], rule post_mono [OF bound [OF same]]) (elim conjE, intro conjI, assumption+)
qed

text \<open>A gadget, a ready device and a function that is not bound.\<close>

definition sample_gadget :: bind_env where
  "sample_gadget = \<lparr>autoconfig = (\<lambda>n addr attr maxp. Some (n, (addr AND 0x80) OR of_nat (n + 3), if maxp = 0 then 64 else maxp)),
     interface_id = (\<lambda>n. 7), string_ids_n = 9, ep_req_ok = (\<lambda>_. True), ep0_req_ok = True, vla_ok = True,
     raw_copy_ret = 0, nums_set_ret = 0\<rparr>"

definition blank_function :: ffs_function where
  "blank_function = \<lparr>fn_raw = [], fn_eps = [], fn_revmap = replicate 16 0, fn_nums = [], fn_fs = None, fn_hs = None, fn_ss = None,
     fn_string_ids = [], fn_claimed = 0, fn_ids = 0\<rparr>"

text \<open>The function after user space wrote its descriptors, and one string in English.\<close>

definition written :: "u8 list \<Rightarrow> ffs_data" where
  "written data = snd (ffs_ep0_write quiet_env (le32_bytes 2 @ le32_bytes 20 @ le32_bytes 1 @ le32_bytes 1 @ [9, 4, 0x41, 0])
     (snd (ffs_ep0_write quiet_env data (ffs_new\<lparr>ref := 1, ev_can_stall := True,
        private_data := Some \<lparr>dev_mounted = True, dev_desc_ready = False, dev_has_data = False\<rparr>\<rparr>))))"

definition sample_func :: "u8 list \<Rightarrow> usb_func" where
  "sample_func data = \<lparr>uf_ffs = written data, uf_fn = blank_function, uf_active = False, uf_refcnt = 0, uf_reset_work = False\<rparr>"

lemma accepted_function_binds_witness:
  "fst (ffs_func_bind sample_gadget False id (sample_func (sample_descs 0x81))) = Ok ()
   \<and> fn_raw (uf_fn (snd (ffs_func_bind sample_gadget False id (sample_func (sample_descs 0x81)))))
       = [9, 4, 7, 0, 1, 0xff, 0, 0, 9,  7, 5, 0x83, 2, 0, 2, 0, 9, 4, 7, 0, 1, 0xff, 0, 0, 9,  7, 5, 0x83, 2, 0, 2, 0]
   \<and> (\<exists>os'. bound_copy ([take 9 (sample_speed 0x81), drop 9 (sample_speed 0x81)] @ [take 9 (sample_speed 0x81), drop 9 (sample_speed 0x81)] @ []) 2 os'
         (uf_fn (snd (ffs_func_bind sample_gadget False id (sample_func (sample_descs 0x81))))))"
proof (intro conjI)
  let ?ffs1 = "snd (data_got_descs (\<lambda>_. None) (sample_descs 0x81) ffs_new)"
  let ?ds = "[take 9 (sample_speed 0x81), drop 9 (sample_speed 0x81)]" and ?u = "sample_func (sample_descs 0x81)"
  show ok: "fst (ffs_func_bind sample_gadget False id ?u) = Ok ()" by code_simp
  show "fn_raw (uf_fn (snd (ffs_func_bind sample_gadget False id ?u)))
       = [9, 4, 7, 0, 1, 0xff, 0, 0, 9,  7, 5, 0x83, 2, 0, 2, 0, 9, 4, 7, 0, 1, 0xff, 0, 0, 9,  7, 5, 0x83, 2, 0, 2, 0]" by code_simp
  have "fst (data_got_descs (\<lambda>_. None) (sample_descs 0x81) ffs_new) = Ok ()" by code_simp
  then have run: "data_got_descs (\<lambda>_. None) (sample_descs 0x81) ffs_new = (Ok (), ?ffs1)" by (metis prod.collapse)
  have fresh: "length (eps_addrmap ffs_new) = 31" "eps_count ffs_new = 0" "strings_count ffs_new = 0" by code_simp+
  have split: "split_speeds [fs_descs_count ?ffs1, hs_descs_count ?ffs1, ss_descs_count ?ffs1]
           (drop (descs_header_size (sample_descs 0x81)) (sample_descs 0x81)) = Some ([?ds, ?ds, []], [])" by code_simp
  have complete: "complete_speeds ?ds ?ds []" by code_simp
  have u: "message_of (uf_ffs ?u) = message_of ?ffs1" by code_simp
  have tab: "string_table (uf_ffs ?u)"
  proof -
    have "strings_count (uf_ffs ?u) = 1" "stringtabs (uf_ffs ?u) = Some [(0x409, [[0x41]])]" by code_simp+
    then show ?thesis by (simp add: string_table_def)
  qed
  have ids: "\<forall>n. interface_id sample_gadget n < 256" by (simp add: sample_gadget_def)
  have st: "private_data (uf_ffs ?u) = Some \<lparr>dev_mounted = True, dev_desc_ready = True, dev_has_data = True\<rparr>" "uf_refcnt ?u = 0"
    "ffs_st (uf_ffs ?u) = FFS_ACTIVE" "0 < ref (uf_ffs ?u)" by code_simp+
  have more: "dev_desc_ready \<lparr>dev_mounted = True, dev_desc_ready = True, dev_has_data = True\<rparr>"
    "\<not> fl_bound (uf_ffs ?u)" "ev_wf (ev_types (uf_ffs ?u))" "\<not> evlock_held (uf_ffs ?u)" "unbound (uf_ffs ?u) (uf_fn ?u)" by code_simp+
  have len: "length ?ds = 2" by simp
  note bound = accepted_function_binds [OF run fresh split complete u tab ids st(1) more(1) st(2,3) more(2) st(4) more(3-5), of False id]
  show "\<exists>os'. bound_copy (?ds @ ?ds @ []) 2 os' (uf_fn (snd (ffs_func_bind sample_gadget False id ?u)))"
    using post_result [OF bound ok] unfolding len by blast
qed

subsection \<open>The hooks on a bound function\<close>

lemma revmap_loop_found:
  "revmap_loop count i intf nums = Ok k \<Longrightarrow> i \<le> k \<and> k < i + count \<and> nums ! k = uint intf"
  by (induction count i intf nums rule: revmap_loop.induct) (auto split: if_splits)

lemma revmap_loop_first:
  "i \<le> k \<Longrightarrow> k < i + count \<Longrightarrow> i + count \<le> length nums \<Longrightarrow> nums ! k = uint intf \<Longrightarrow> \<forall>j. i \<le> j \<and> j < k \<longrightarrow> nums ! j \<noteq> uint intf \<Longrightarrow>
     revmap_loop count i intf nums = Ok k"
proof (induction count i intf nums rule: revmap_loop.induct)
  case (2 count i intf nums)
  then show ?case by (cases "i = k") auto
qed simp

lemma revmap_loop_none:
  "i + count \<le> length nums \<Longrightarrow> \<forall>j. i \<le> j \<and> j < i + count \<longrightarrow> nums ! j \<noteq> uint intf \<Longrightarrow> revmap_loop count i intf nums = Err EDOM"
  by (induction count i intf nums rule: revmap_loop.induct) auto

lemma revmap_intf_first:
  assumes "attached u" and "k < length (fn_nums (uf_fn u))" and "fn_nums (uf_fn u) ! k = uint intf"
    and "\<forall>j < k. fn_nums (uf_fn u) ! j \<noteq> uint intf"
  shows "ffs_func_revmap_intf intf u = Ok k"
  unfolding ffs_func_revmap_intf_def by (rule revmap_loop_first) (use assms in \<open>simp_all add: attached_def\<close>)

lemma revmap_intf_none:
  assumes "attached u" and "uint intf \<notin> set (fn_nums (uf_fn u))"
  shows "ffs_func_revmap_intf intf u = Err EDOM"
  unfolding ffs_func_revmap_intf_def by (rule revmap_loop_none) (use assms in \<open>auto simp: attached_def in_set_conv_nth\<close>)

lemma req_match_ok: "attached u \<Longrightarrow> ffs_func_req_match creq config0 u \<noteq> Fault"
  using revmap_intf_ok [of u "ucast (wIndex creq)"] revmap_ep_ok(1) [of u "ucast (wIndex creq)"]
  by (auto simp: ffs_func_req_match_def found_def Let_def split: res.split)

lemma bind_no_fault:
  assumes u: "detached u" and m: "may_bind fs hs ss os (uf_ffs u)" and ids: "\<forall>n. interface_id env n < 256"
  shows "no_fault (ffs_func_bind env c unregister u)"
proof (cases "ffs_st (uf_ffs u) = FFS_ACTIVE")
  case True
  then show ?thesis using postD(1) [OF bind_attaches [OF u _ m ids]] by blast
next
  case False
  then have "functionfs_bind env u = (Err EBADFD, u)" by (simp add: functionfs_bind_def)
  then show ?thesis using u by (auto simp: ffs_func_bind_def ffs_do_functionfs_bind_def detached_def no_fault_def)
qed

text \<open>
  C3. Runs of a function whose message is safe to bind (\<open>may_bind\<close>; complete messages are). Take any
  sequence of successful bindings, to gadgets whose interface numbers fit into a byte, unbindings,
  changes of the alternate setting, control requests, suspends and resumes from the gadget, interleaved
  with any reads, writes, polls and mappings of endpoint zero, but neither failed bindings nor its
  control calls, that starts with an unbound function. Then none of these hooks, reads and writes ever
  faults, nor does a further binding: no access out of bounds of the descriptors, tables and files, no null
  pointer, no lock taken twice. The data has exactly one more reference while it is bound, it has a
  gadget and the bound flag exactly then, and unbinding always succeeds.
\<close>
theorem hooks_safe:
  assumes "usb_reachable u0 u" and "detached u0" and "may_bind fs hs ss os (uf_ffs u0)"
    and "\<forall>n. interface_id env n < 256" and "env_ok e (uf_ffs u)"
  shows "(uf_refcnt u \<noteq> 0 \<longrightarrow> no_fault (ffs_func_set_alt ep_on intf alt u) \<and> no_fault (ffs_func_disable u)
      \<and> no_fault (ffs_func_setup creq u) \<and> no_fault (ffs_func_suspend u) \<and> no_fault (ffs_func_resume u)
      \<and> ffs_func_req_match creq config0 u \<noteq> Fault \<and> fst (ffs_func_unbind c unregister u) = Ok ())
    \<and> (uf_refcnt u = 0 \<longrightarrow> no_fault (ffs_func_bind env c unregister u))
    \<and> no_fault (ffs_ep0_write e buf (uf_ffs u)) \<and> no_fault (ffs_ep0_read e len (uf_ffs u))
    \<and> ref (uf_ffs u) = ref (uf_ffs u0) + unat (uf_refcnt u)
    \<and> gadget (uf_ffs u) = (uf_refcnt u \<noteq> 0) \<and> fl_bound (uf_ffs u) = (uf_refcnt u \<noteq> 0)"
proof -
  have wf0: "well_formed fs hs ss os u0" using assms(2,3) by (simp add: well_formed_def)
  have or: "attached u \<or> detached u" and m: "may_bind fs hs ss os (uf_ffs u)" and bal: "balanced u0 u"
    using usb_reachable_ok [OF assms(1) wf0] by (simp_all add: well_formed_def)
  have att: "uf_refcnt u \<noteq> 0 \<Longrightarrow> attached u" and det: "uf_refcnt u = 0 \<Longrightarrow> detached u" using or attached_refcnt by auto
  have idle: "ok_in (gadget (uf_ffs u)) False (uf_ffs u)" using or by (auto simp: attached_def detached_def ok_in_def)
  have hooks: "no_fault (ffs_func_set_alt ep_on intf alt u) \<and> no_fault (ffs_func_disable u)
      \<and> no_fault (ffs_func_setup creq u) \<and> no_fault (ffs_func_suspend u) \<and> no_fault (ffs_func_resume u)
      \<and> ffs_func_req_match creq config0 u \<noteq> Fault \<and> fst (ffs_func_unbind c unregister u) = Ok ()" if "attached u"
    using that unbind_balanced [OF that, of c unregister] req_match_ok [OF that, of creq config0]
    by (auto simp: ffs_func_disable_def
        intro!: stays_no_fault [of u] set_alt_stays setup_stays suspend_stays resume_stays)
  have "gadget (uf_ffs u) = (uf_refcnt u \<noteq> 0)" "fl_bound (uf_ffs u) = (uf_refcnt u \<noteq> 0)"
    using or by (auto simp: attached_def detached_def ok_in_def)
  moreover have "ref (uf_ffs u) = ref (uf_ffs u0) + unat (uf_refcnt u)"
    using bal attached_refcnt(2) [OF assms(2)] by (simp add: balanced_def)
  ultimately show ?thesis
    using hooks att det bind_no_fault [OF _ m assms(4)]
      postD(1) [OF ffs_ep0_write_post [OF idle assms(5)]] postD(1) [OF ffs_ep0_read_post [OF idle assms(5)]] by blast
qed


text \<open>A function of the sample message, before its first binding.\<close>

lemma sample_unbound:
  "detached (sample_func (sample_descs 0x81))"
  "may_bind [take 9 (sample_speed 0x81), drop 9 (sample_speed 0x81)] [take 9 (sample_speed 0x81), drop 9 (sample_speed 0x81)] [] []
     (uf_ffs (sample_func (sample_descs 0x81)))"
proof -
  let ?u = "sample_func (sample_descs 0x81)" and ?ds = "[take 9 (sample_speed 0x81), drop 9 (sample_speed 0x81)]"
  have "private_data (uf_ffs ?u) = Some \<lparr>dev_mounted = True, dev_desc_ready = True, dev_has_data = True\<rparr>" by code_simp
  moreover have "map ef_ep (the (epfiles (uf_ffs ?u))) = [None]" "epfiles (uf_ffs ?u) \<noteq> None" "unat (eps_count (uf_ffs ?u)) = 1" by code_simp+
  then have "\<exists>efs. epfiles (uf_ffs ?u) = Some efs \<and> length efs = unat (eps_count (uf_ffs ?u))"
    by (metis length_map option.collapse length_Cons list.size(3) One_nat_def)
  moreover have "ok_in False False (uf_ffs ?u)" "open_state (uf_ffs ?u)" "unbound (uf_ffs ?u) (uf_fn ?u)" "\<not> fl_bound (uf_ffs ?u)"
    "uf_refcnt ?u = 0" "0 < ref (uf_ffs ?u)" by code_simp+
  ultimately show "detached ?u" by (simp add: detached_def)
  have "string_table (uf_ffs ?u)"
  proof -
    have "strings_count (uf_ffs ?u) = 1" "stringtabs (uf_ffs ?u) = Some [(0x409, [[0x41]])]" by code_simp+
    then show ?thesis by (simp add: string_table_def)
  qed
  moreover have "ffs_ep_addr2idx (uf_ffs ?u) 0x81 = Some 1" "unat (eps_count (uf_ffs ?u)) = 1" by code_simp+
  then have "known_endpoints (uf_ffs ?u) (?ds @ ?ds @ [])"
    by (simp add: known_endpoints_def sample_speed_def endpoint_def)
  moreover have "full_speed (uf_ffs ?u) (?ds @ ?ds @ [])" "cdc_bindable ?ds ?ds []"
    "raw_descs (uf_ffs ?u) = concat (?ds @ ?ds @ []) @ []" "length ?ds = unat (fs_descs_count (uf_ffs ?u))"
    "length ?ds = unat (hs_descs_count (uf_ffs ?u))" "length ([] :: u8 list list) = unat (ss_descs_count (uf_ffs ?u))"
    "\<forall>d \<in> set (?ds @ ?ds @ []). whole d" "unat (eps_count (uf_ffs ?u)) < 31"
    "\<forall>d \<in> set (?ds @ ?ds @ []). fields_ok (unat (interfaces_count (uf_ffs ?u))) (unat (strings_count (uf_ffs ?u))) d" by code_simp+
  ultimately show "may_bind ?ds ?ds [] [] (uf_ffs ?u)"
    by (simp add: may_bind_def bindable_def)
qed

lemma sample_gadget_ids: "\<forall>n. interface_id sample_gadget n < 256"
  by (simp add: sample_gadget_def)

lemma hooks_safe_witness:
  "let u = snd (ffs_func_bind sample_gadget False id (sample_func (sample_descs 0x81)))
   in uf_refcnt u = 1 \<and> no_fault (ffs_func_setup \<lparr>bRequestType = 0x21, bRequest = 1, wValue = 0, wIndex = 7, wLength = 0\<rparr> u)
      \<and> fst (ffs_func_unbind False id u) = Ok ()"
proof -
  let ?u = "snd (ffs_func_bind sample_gadget False id (sample_func (sample_descs 0x81)))"
  have run: "fst (ffs_func_bind sample_gadget False id (sample_func (sample_descs 0x81))) = Ok ()" by code_simp
  have ref: "uf_refcnt (sample_func (sample_descs 0x81)) = 0" "uf_refcnt ?u = 1" by code_simp+
  have "usb_step (sample_func (sample_descs 0x81)) ?u"
    by (rule usb_step.by_bind [OF ref(1) sample_gadget_ids]) (use run in \<open>simp add: prod_eq_iff\<close>)
  then have "usb_reachable (sample_func (sample_descs 0x81)) ?u" by (rule usb_reachable.step [OF usb_reachable.start])
  from hooks_safe [OF this sample_unbound sample_gadget_ids quiet_env_ok] ref(2) show ?thesis by (simp add: Let_def)
qed

text \<open>
  C14. While a gadget is bound, whatever happened since the first binding, the function's data is of the
  form that its hooks rely on: as many endpoints as the message declares, at most 30, each with a
  hardware endpoint and three descriptor pointers that leave seven bytes of the copy behind them; a
  reverse map of 16 entries that are endpoint numbers or 0; a number for each interface; a file for
  each endpoint; and the message itself still is what user space wrote.
\<close>
theorem bound_function_typed:
  assumes "usb_reachable u0 u" and "detached u0" and "may_bind fs hs ss os (uf_ffs u0)" and "uf_refcnt u \<noteq> 0"
  shows "length (fn_eps (uf_fn u)) = unat (eps_count (uf_ffs u)) \<and> unat (eps_count (uf_ffs u)) \<le> 30
    \<and> (\<forall>e \<in> set (fn_eps (uf_fn u)). ep_hw e \<noteq> None \<and> length (ep_descs e) = 3
          \<and> (\<forall>p. Some p \<in> set (ep_descs e) \<longrightarrow> p + 7 \<le> length (fn_raw (uf_fn u))))
    \<and> length (fn_revmap (uf_fn u)) = 16 \<and> (\<forall>b \<in> set (fn_revmap (uf_fn u)). unat b \<le> unat (eps_count (uf_ffs u)))
    \<and> length (fn_nums (uf_fn u)) = unat (interfaces_count (uf_ffs u))
    \<and> (\<exists>efs. epfiles (uf_ffs u) = Some efs \<and> length efs = unat (eps_count (uf_ffs u)))
    \<and> message_of (uf_ffs u) = message_of (uf_ffs u0) \<and> may_bind fs hs ss os (uf_ffs u)"
proof -
  have "well_formed fs hs ss os u0" using assms(2,3) by (simp add: well_formed_def)
  then have wf: "well_formed fs hs ss os u" "balanced u0 u" using usb_reachable_ok [OF assms(1)] by blast+
  then have "attached u" using assms(4) attached_refcnt(2) by (auto simp: well_formed_def)
  then show ?thesis using wf by (auto simp: attached_def eps_tables_def well_formed_def balanced_def same_message_def)
qed

text \<open>The sample function, bound to the sample gadget.\<close>

definition bound_sample :: usb_func where
  "bound_sample = snd (ffs_func_bind sample_gadget False id (sample_func (sample_descs 0x81)))"

lemma bound_sample_run: "ffs_func_bind sample_gadget False id (sample_func (sample_descs 0x81)) = (Ok (), bound_sample)"
proof -
  have "fst (ffs_func_bind sample_gadget False id (sample_func (sample_descs 0x81))) = Ok ()" by code_simp
  then show ?thesis by (simp add: bound_sample_def prod_eq_iff)
qed

lemma bound_sample_reachable: "usb_reachable (sample_func (sample_descs 0x81)) bound_sample"
proof -
  have "uf_refcnt (sample_func (sample_descs 0x81)) = 0" by code_simp
  from usb_step.by_bind [OF this sample_gadget_ids bound_sample_run] show ?thesis
    by (rule usb_reachable.step [OF usb_reachable.start])
qed

lemma bound_sample_attached: "attached bound_sample" "ffs_st (uf_ffs bound_sample) = FFS_ACTIVE" "fn_nums (uf_fn bound_sample) = [7]"
proof -
  show "attached bound_sample" using bind_balanced [OF sample_unbound sample_gadget_ids bound_sample_run] by blast
  show "ffs_st (uf_ffs bound_sample) = FFS_ACTIVE" "fn_nums (uf_fn bound_sample) = [7]" by code_simp+
qed

lemma bound_function_typed_witness:
  "length (fn_eps (uf_fn bound_sample)) = 1 \<and> ep_hw (hd (fn_eps (uf_fn bound_sample))) \<noteq> None
   \<and> ep_descs (hd (fn_eps (uf_fn bound_sample))) = [Some 9, Some 25, None]"
proof -
  have "uf_refcnt bound_sample \<noteq> 0" by code_simp
  from bound_function_typed [OF bound_sample_reachable sample_unbound this]
  have "length (fn_eps (uf_fn bound_sample)) = unat (eps_count (uf_ffs bound_sample))"
    "\<forall>e \<in> set (fn_eps (uf_fn bound_sample)). ep_hw e \<noteq> None" by blast+
  moreover have "unat (eps_count (uf_ffs bound_sample)) = 1" by code_simp
  moreover have "ep_descs (hd (fn_eps (uf_fn bound_sample))) = [Some 9, Some 25, None]" by code_simp
  ultimately show ?thesis by (cases "fn_eps (uf_fn bound_sample)") auto
qed

lemma purge_bind_unbind:
  "purge_events FUNCTIONFS_UNBIND (purge_events FUNCTIONFS_BIND evs @ [FUNCTIONFS_BIND])
     = filter (\<lambda>e. e = FUNCTIONFS_SUSPEND \<or> e = FUNCTIONFS_RESUME) evs"
  by (simp add: purge_events_def Let_def)

text \<open>
  C15. Unbinding undoes a binding: after a successful binding, whatever the gadget answered, unbinding
  succeeds and leaves the function as it was before, with the same message and strings, the same number
  of references, still active, and ready to be bound again, by any gadget, without a fault. Of the
  events only the ones of power management stay, followed by the unbind event: a bind event that user
  space did not read is lost.
\<close>
theorem unbind_undoes_bind:
  assumes "detached u" and "may_bind fs hs ss os (uf_ffs u)" and "\<forall>n. interface_id env n < 256"
    and "ffs_func_bind env c unregister u = (Ok (), u1)" and "\<forall>n. interface_id env' n < 256"
  shows "\<exists>u2. ffs_func_unbind c unregister u1 = (Ok (), u2) \<and> detached u2
    \<and> message_of (uf_ffs u2) = message_of (uf_ffs u) \<and> stringtabs (uf_ffs u2) = stringtabs (uf_ffs u)
    \<and> ref (uf_ffs u2) = ref (uf_ffs u) \<and> ffs_st (uf_ffs u2) = FFS_ACTIVE
    \<and> ev_types (uf_ffs u2) = filter (\<lambda>e. e = FUNCTIONFS_SUSPEND \<or> e = FUNCTIONFS_RESUME) (ev_types (uf_ffs u)) @ [FUNCTIONFS_UNBIND]
    \<and> no_fault (ffs_func_bind env' c unregister u2)"
proof -
  have b: "attached u1" "may_bind fs hs ss os (uf_ffs u1)" "balanced u u1" "ffs_st (uf_ffs u1) = FFS_ACTIVE"
    "ev_types (uf_ffs u1) = purge_events FUNCTIONFS_BIND (ev_types (uf_ffs u)) @ [FUNCTIONFS_BIND]"
    using bind_balanced [OF assms(1-4)] by blast+
  from unbind_detaches [OF b(1), of c unregister] obtain u2 where
    u2: "ffs_func_unbind c unregister u1 = (Ok (), u2)" "detached u2" "message_of (uf_ffs u2) = message_of (uf_ffs u1)"
      "stringtabs (uf_ffs u2) = stringtabs (uf_ffs u1)" "ffs_st (uf_ffs u2) = ffs_st (uf_ffs u1)" "ref (uf_ffs u2) = ref (uf_ffs u1) - 1"
      "ev_types (uf_ffs u2) = purge_events FUNCTIONFS_UNBIND (ev_types (uf_ffs u1)) @ [FUNCTIONFS_UNBIND]" by blast
  have "same_message u1 u2" using u2(3,4) by (simp add: same_message_def)
  then have "may_bind fs hs ss os (uf_ffs u2)" using may_bind_same b(2) by blast
  then have "no_fault (ffs_func_bind env' c unregister u2)" using bind_no_fault [OF u2(2) _ assms(5)] by blast
  moreover have "ref (uf_ffs u2) = ref (uf_ffs u)"
    using b(3) attached_refcnt(1) [OF b(1)] attached_refcnt(2) [OF assms(1)] u2(6) by (simp add: balanced_def)
  ultimately show ?thesis using u2 b(3-5) by (simp add: purge_bind_unbind balanced_def same_message_def)
qed

lemma unbind_undoes_bind_witness:
  "\<exists>u2. ffs_func_unbind False id bound_sample = (Ok (), u2) \<and> ref (uf_ffs u2) = 1 \<and> ev_types (uf_ffs u2) = [FUNCTIONFS_UNBIND]"
proof -
  have "ref (uf_ffs (sample_func (sample_descs 0x81))) = 1" "ev_types (uf_ffs (sample_func (sample_descs 0x81))) = []" by code_simp+
  then show ?thesis
    using unbind_undoes_bind [OF sample_unbound sample_gadget_ids bound_sample_run sample_gadget_ids] by auto
qed

lemma queue_event:
  assumes "attached v"
  shows "on_ffs (ffs_event_add e) v = (Ok (), v\<lparr>uf_ffs := (uf_ffs v)\<lparr>
     setup_state := (if setup_state (uf_ffs v) = FFS_SETUP_PENDING then FFS_SETUP_CANCELLED else setup_state (uf_ffs v)),
     ev_types := purge_events e (ev_types (uf_ffs v)) @ [e]\<rparr>\<rparr>)"
proof -
  have "ev_wf (ev_types (uf_ffs v))" "\<not> evlock_held (uf_ffs v)" using assms by (simp_all add: attached_def ok_in_def ffs_ok_def ep0_inv_def)
  from event_add_eq [OF this, of e] show ?thesis by (simp add: on_ffs_def)
qed

lemma eps_enable_all:
  "\<forall>i ep. \<exists>dir isoc. ep_on i ep = Inr (dir, isoc) \<Longrightarrow> eps_enable_loop ep_on count i eps efs = (Ok ret, efs') \<Longrightarrow> ret = 0"
proof (induction count arbitrary: i efs)
  case (Suc count)
  obtain dir isoc where on: "ep_on i (the (ep_hw (eps ! i))) = Inr (dir, isoc)" using Suc.prems(1) by blast
  show ?case
  proof (cases "ep_hw (eps ! i)")
    case (Some ep)
    then show ?thesis using Suc on by (auto split: if_splits option.splits)
  qed (use Suc.prems in \<open>simp split: if_splits\<close>)
qed simp

text \<open>Connecting and disconnecting, in one step each.\<close>

lemma enabling_step:
  assumes u: "attached u" and st: "ffs_st (uf_ffs u) = FFS_ACTIVE" and k: "ffs_func_revmap_intf intf u = Ok k"
    and on: "\<forall>i ep. \<exists>dir isoc. ep_on i ep = Inr (dir, isoc)"
  shows "\<exists>u1 efs. ffs_func_set_alt ep_on intf (Some alt) u = (Ok 0, u1) \<and> uf_active u1
        \<and> epfiles (uf_ffs u1) = Some efs \<and> length efs = unat (eps_count (uf_ffs u)) \<and> (\<forall>k < length efs. ef_ep (efs ! k) = Some k)
        \<and> ev_types (uf_ffs u1) = purge_events FUNCTIONFS_ENABLE (ev_types (uf_ffs u)) @ [FUNCTIONFS_ENABLE]
        \<and> attached u1 \<and> ffs_st (uf_ffs u1) = FFS_ACTIVE"
proof -
  obtain x efs0 where off: "(if uf_active u then ffs_func_eps_disable u else (Ok [], u)) = (Ok x, u\<lparr>uf_ffs := (uf_ffs u)\<lparr>epfiles := Some efs0\<rparr>\<rparr>)"
    and efs0: "length efs0 = unat (eps_count (uf_ffs u))"
  proof (cases "uf_active u")
    case True
    then show ?thesis using eps_disable_attached [OF u] that by auto
  next
    case False
    obtain efs where "epfiles (uf_ffs u) = Some efs" "length efs = unat (eps_count (uf_ffs u))" using u by (auto simp: attached_def)
    then show ?thesis using that [of "[]" efs] False by simp
  qed
  let ?v = "u\<lparr>uf_ffs := (uf_ffs u)\<lparr>epfiles := Some efs0\<rparr>, uf_active := True\<rparr>"
  have v: "attached ?v" using attached_files [OF u efs0] by simp
  have no: "\<forall>i ep. ep_on i ep \<noteq> Inl 0" using on by (metis Inl_Inr_False)
  from eps_enable_attached [OF v, of ep_on] obtain ret efs where
    en: "ffs_func_eps_enable ep_on ?v = (Ok ret, ?v\<lparr>uf_ffs := (uf_ffs ?v)\<lparr>epfiles := Some efs\<rparr>\<rparr>)"
    and efs: "length efs = unat (eps_count (uf_ffs ?v))" "ret = 0 \<longrightarrow> (\<forall>k < length efs. ef_ep (efs ! k) = Some k)" using no by blast
  have ret: "ret = 0" using en eps_enable_all [OF on] by (auto simp: ffs_func_eps_enable_def split: prod.splits)
  let ?w = "?v\<lparr>uf_ffs := (uf_ffs ?v)\<lparr>epfiles := Some efs\<rparr>\<rparr>"
  have w: "attached ?w" by (rule attached_files [OF v efs(1)])
  from queue_event [OF w, of FUNCTIONFS_ENABLE] obtain u1 where q: "on_ffs (ffs_event_add FUNCTIONFS_ENABLE) ?w = (Ok (), u1)"
    and u1: "uf_active u1" "epfiles (uf_ffs u1) = Some efs" "ffs_st (uf_ffs u1) = FFS_ACTIVE"
      "ev_types (uf_ffs u1) = purge_events FUNCTIONFS_ENABLE (ev_types (uf_ffs u)) @ [FUNCTIONFS_ENABLE]"
    using st by simp
  have "ffs_func_set_alt ep_on intf (Some alt) u = (Ok 0, u1)"
    using st en ret q by (simp add: ffs_func_set_alt_def k off)
  moreover have "attached u1" using stays_snd [OF stays_event [OF w refl, of FUNCTIONFS_ENABLE]] q by simp
  ultimately show ?thesis using efs ret u1 by simp
qed

lemma disabling_step:
  assumes u: "attached u" and st: "ffs_st (uf_ffs u) = FFS_ACTIVE" and act: "uf_active u"
  shows "\<exists>u2 efs. ffs_func_disable u = (Ok 0, u2) \<and> \<not> uf_active u2 \<and> epfiles (uf_ffs u2) = Some efs \<and> (\<forall>ef \<in> set efs. ef_ep ef = None)
     \<and> ev_types (uf_ffs u2) = purge_events FUNCTIONFS_DISABLE (ev_types (uf_ffs u)) @ [FUNCTIONFS_DISABLE]"
proof -
  from eps_disable_attached [OF u] obtain hw efs where
    off: "ffs_func_eps_disable u = (Ok hw, u\<lparr>uf_ffs := (uf_ffs u)\<lparr>epfiles := Some efs\<rparr>\<rparr>)"
    and efs: "length efs = unat (eps_count (uf_ffs u))" "\<forall>ef \<in> set efs. ef_ep ef = None" by blast
  have v: "attached (u\<lparr>uf_ffs := (uf_ffs u)\<lparr>epfiles := Some efs\<rparr>, uf_active := False\<rparr>)"
    using attached_files [OF u efs(1)] by simp
  show ?thesis
    using st act efs(2) queue_event [OF v, of FUNCTIONFS_DISABLE] by (simp add: ffs_func_disable_def ffs_func_set_alt_def off)
qed

lemma revmap_intf_known:
  assumes "attached u" and "uint intf \<in> set (fn_nums (uf_fn u))"
  obtains k where "ffs_func_revmap_intf intf u = Ok k" "k < length (fn_nums (uf_fn u))" "fn_nums (uf_fn u) ! k = uint intf"
    "\<forall>j < k. fn_nums (uf_fn u) ! j \<noteq> uint intf"
proof -
  let ?P = "\<lambda>k. k < length (fn_nums (uf_fn u)) \<and> fn_nums (uf_fn u) ! k = uint intf"
  have "\<exists>k. ?P k" using assms(2) by (auto simp: in_set_conv_nth)
  then have least: "?P (LEAST k. ?P k)" by (rule LeastI_ex)
  then have "fn_nums (uf_fn u) ! j \<noteq> uint intf" if "j < (LEAST k. ?P k)" for j using not_less_Least [OF that] that by auto
  then show thesis using that revmap_intf_first [OF assms(1)] least by blast
qed

text \<open>
  C17. Choosing an alternate setting of an interface of an active function, when the controller enables
  all endpoints: the call succeeds, the file of every endpoint is connected to exactly that endpoint,
  the function is the active one, and the enable event is queued last. Disabling the function then
  disconnects all files and queues the disable event last. For an interface that is not one of the
  function's, the call fails and changes nothing.
\<close>
theorem alternate_setting_connects:
  assumes u: "attached u" and st: "ffs_st (uf_ffs u) = FFS_ACTIVE"
    and on: "\<forall>i ep. \<exists>dir isoc. ep_on i ep = Inr (dir, isoc)"
  shows "(uint intf \<in> set (fn_nums (uf_fn u)) \<longrightarrow>
      (\<exists>u1 efs. ffs_func_set_alt ep_on intf (Some alt) u = (Ok 0, u1) \<and> uf_active u1
        \<and> epfiles (uf_ffs u1) = Some efs \<and> length efs = unat (eps_count (uf_ffs u)) \<and> (\<forall>k < length efs. ef_ep (efs ! k) = Some k)
        \<and> ev_types (uf_ffs u1) = purge_events FUNCTIONFS_ENABLE (ev_types (uf_ffs u)) @ [FUNCTIONFS_ENABLE]
        \<and> (\<exists>u2 efs2. ffs_func_disable u1 = (Ok 0, u2) \<and> \<not> uf_active u2
             \<and> epfiles (uf_ffs u2) = Some efs2 \<and> (\<forall>ef \<in> set efs2. ef_ep ef = None)
             \<and> ev_types (uf_ffs u2) = purge_events FUNCTIONFS_DISABLE (ev_types (uf_ffs u1)) @ [FUNCTIONFS_DISABLE])))
    \<and> (uint intf \<notin> set (fn_nums (uf_fn u)) \<longrightarrow> ffs_func_set_alt ep_on intf (Some alt) u = (Err EDOM, u))"
proof (intro conjI impI)
  assume "uint intf \<in> set (fn_nums (uf_fn u))"
  then obtain k where "ffs_func_revmap_intf intf u = Ok k" using revmap_intf_known [OF u] by blast
  from enabling_step [OF u st this on, of alt] disabling_step
  show "\<exists>u1 efs. ffs_func_set_alt ep_on intf (Some alt) u = (Ok 0, u1) \<and> uf_active u1
        \<and> epfiles (uf_ffs u1) = Some efs \<and> length efs = unat (eps_count (uf_ffs u)) \<and> (\<forall>k < length efs. ef_ep (efs ! k) = Some k)
        \<and> ev_types (uf_ffs u1) = purge_events FUNCTIONFS_ENABLE (ev_types (uf_ffs u)) @ [FUNCTIONFS_ENABLE]
        \<and> (\<exists>u2 efs2. ffs_func_disable u1 = (Ok 0, u2) \<and> \<not> uf_active u2
             \<and> epfiles (uf_ffs u2) = Some efs2 \<and> (\<forall>ef \<in> set efs2. ef_ep ef = None)
             \<and> ev_types (uf_ffs u2) = purge_events FUNCTIONFS_DISABLE (ev_types (uf_ffs u1)) @ [FUNCTIONFS_DISABLE])"
    by blast
next
  assume "uint intf \<notin> set (fn_nums (uf_fn u))"
  then show "ffs_func_set_alt ep_on intf (Some alt) u = (Err EDOM, u)"
    using revmap_intf_none [OF u] by (simp add: ffs_func_set_alt_def)
qed

lemma alternate_setting_connects_witness:
  "\<exists>u1 efs. ffs_func_set_alt (\<lambda>_ _. Inr (True, False)) 7 (Some 0) bound_sample = (Ok 0, u1) \<and> epfiles (uf_ffs u1) = Some efs
     \<and> length efs = 1 \<and> ef_ep (efs ! 0) = Some 0"
proof -
  have on: "\<forall>i ep. \<exists>dir isoc. (\<lambda>_ _. Inr (True, False)) (i :: nat) (ep :: nat) = (Inr (dir, isoc) :: int + bool \<times> bool)" by blast
  have "uint (7 :: u8) \<in> set (fn_nums (uf_fn bound_sample))" by (simp add: bound_sample_attached(3))
  moreover have "unat (eps_count (uf_ffs bound_sample)) = 1" by code_simp
  ultimately show ?thesis
    using alternate_setting_connects [OF bound_sample_attached(1,2) on, of 7 0] by fastforce
qed

text \<open>
  C16. Where control requests go. For an active function and a request to an interface of the gadget: if
  the interface is one of the function's, the request matches, its setup event is queued last, and
  \<open>wIndex\<close> in it is the function's own number of the interface, the least one that stands for it;
  the status stage is delayed exactly when the request has no data. If it is not, the request does not
  match, the call fails with \<open>-EDOM\<close>, and nothing changes.
\<close>
theorem setup_routed:
  assumes u: "attached u" and st: "ffs_st (uf_ffs u) = FFS_ACTIVE" and recip: "bRequestType creq AND 0x1f = 1"
  shows "(uint (ucast (wIndex creq) :: u8) \<in> set (fn_nums (uf_fn u)) \<longrightarrow>
      (\<exists>k u'. k < unat (interfaces_count (uf_ffs u)) \<and> fn_nums (uf_fn u) ! k = uint (ucast (wIndex creq) :: u8)
        \<and> (\<forall>j < k. fn_nums (uf_fn u) ! j \<noteq> uint (ucast (wIndex creq) :: u8))
        \<and> ffs_func_req_match creq False u = Ok True
        \<and> ffs_func_setup creq u = (Ok (wLength creq = 0), u')
        \<and> ev_setup (uf_ffs u') = creq\<lparr>wIndex := of_nat k\<rparr>
        \<and> ev_types (uf_ffs u') = purge_events FUNCTIONFS_SETUP (ev_types (uf_ffs u)) @ [FUNCTIONFS_SETUP]))
    \<and> (uint (ucast (wIndex creq) :: u8) \<notin> set (fn_nums (uf_fn u)) \<longrightarrow>
         ffs_func_req_match creq False u = Ok False \<and> ffs_func_setup creq u = (Err EDOM, u))"
proof (intro conjI impI)
  assume "uint (ucast (wIndex creq) :: u8) \<in> set (fn_nums (uf_fn u))"
  then obtain k where k: "ffs_func_revmap_intf (ucast (wIndex creq)) u = Ok k" "k < length (fn_nums (uf_fn u))"
    "fn_nums (uf_fn u) ! k = uint (ucast (wIndex creq) :: u8)" "\<forall>j < k. fn_nums (uf_fn u) ! j \<noteq> uint (ucast (wIndex creq) :: u8)"
    using revmap_intf_known [OF u] by blast
  let ?s = "(uf_ffs u)\<lparr>evlock_held := True, ev_setup := creq\<lparr>wIndex := of_nat k\<rparr>\<rparr>"
  have wf: "ev_wf (ev_types ?s)" and free: "\<not> evlock_held (uf_ffs u)" using u by (simp_all add: attached_def ok_in_def ffs_ok_def ep0_inv_def)
  obtain t where run: "run_async (Async_setup (creq\<lparr>wIndex := of_nat k\<rparr>)) (uf_ffs u) = (Ok (), t)"
    and t: "ev_setup t = creq\<lparr>wIndex := of_nat k\<rparr>" "ev_types t = purge_events FUNCTIONFS_SETUP (ev_types (uf_ffs u)) @ [FUNCTIONFS_SETUP]"
    using event_add_locked_eq [OF wf, of FUNCTIONFS_SETUP] free by (simp add: ev_lock_def ev_unlock_def)
  have on: "on_ffs (run_async (Async_setup (creq\<lparr>wIndex := of_nat k\<rparr>))) u = (Ok (), u\<lparr>uf_ffs := t\<rparr>)"
    unfolding on_ffs_def run by simp
  have "setup_index creq u = Ok k" by (simp add: setup_index_def recip k(1))
  then have "ffs_func_setup creq u = (Ok (wLength creq = 0), u\<lparr>uf_ffs := t\<rparr>)"
    using st on by (simp del: run_async.simps add: ffs_func_setup_def)
  moreover have "ffs_func_req_match creq False u = Ok True" by (simp add: ffs_func_req_match_def recip k(1) found_def)
  ultimately show "\<exists>k u'. k < unat (interfaces_count (uf_ffs u)) \<and> fn_nums (uf_fn u) ! k = uint (ucast (wIndex creq) :: u8)
        \<and> (\<forall>j < k. fn_nums (uf_fn u) ! j \<noteq> uint (ucast (wIndex creq) :: u8))
        \<and> ffs_func_req_match creq False u = Ok True
        \<and> ffs_func_setup creq u = (Ok (wLength creq = 0), u')
        \<and> ev_setup (uf_ffs u') = creq\<lparr>wIndex := of_nat k\<rparr>
        \<and> ev_types (uf_ffs u') = purge_events FUNCTIONFS_SETUP (ev_types (uf_ffs u)) @ [FUNCTIONFS_SETUP]"
    using k(2-4) t u by (intro exI [of _ k], intro exI [of _ "u\<lparr>uf_ffs := t\<rparr>"]) (simp add: attached_def)
next
  assume no: "uint (ucast (wIndex creq) :: u8) \<notin> set (fn_nums (uf_fn u))"
  show "ffs_func_req_match creq False u = Ok False" "ffs_func_setup creq u = (Err EDOM, u)"
    by (simp_all add: ffs_func_req_match_def ffs_func_setup_def setup_index_def recip revmap_intf_none [OF u no] found_def st)
qed

lemma setup_routed_witness:
  "\<exists>u'. ffs_func_setup \<lparr>bRequestType = 0x21, bRequest = 9, wValue = 0, wIndex = 7, wLength = 0\<rparr> bound_sample = (Ok True, u')
     \<and> wIndex (ev_setup (uf_ffs u')) = 0"
proof -
  let ?creq = "\<lparr>bRequestType = 0x21, bRequest = 9, wValue = 0, wIndex = 7, wLength = 0\<rparr> :: usb_ctrlrequest"
  have recip: "bRequestType ?creq AND 0x1f = 1" by code_simp
  have n: "unat (interfaces_count (uf_ffs bound_sample)) = 1" by code_simp
  have "uint (ucast (wIndex ?creq) :: u8) \<in> set (fn_nums (uf_fn bound_sample))" by (simp add: bound_sample_attached(3))
  then obtain k u' where "k < 1" "ffs_func_setup ?creq bound_sample = (Ok (wLength ?creq = 0), u')" "ev_setup (uf_ffs u') = ?creq\<lparr>wIndex := of_nat k\<rparr>"
    using setup_routed [OF bound_sample_attached(1,2) recip] n by auto
  then show ?thesis by auto
qed

subsection \<open>What a failed binding leaves behind\<close>

text \<open>
  A binding that fails in \<open>functionfs_bind\<close>, for want of string identifiers or of the request of
  endpoint zero, reports the failure but leaves the function marked as bound, although it has no gadget
  and no reference: every later binding, with whatever gadget, fails with \<open>-EBADFD\<close>.
\<close>
theorem failed_bind_stays_bound:
  assumes "private_data (uf_ffs u) = Some dev" and "dev_desc_ready dev" and "uf_refcnt u = 0"
    and "ffs_st (uf_ffs u) = FFS_ACTIVE" and "\<not> fl_bound (uf_ffs u)" and "string_ids_n env < 0 \<or> \<not> ep0_req_ok env"
  shows "\<exists>e u'. ffs_func_bind env c unregister u = (Err e, u') \<and> fl_bound (uf_ffs u') \<and> gadget (uf_ffs u') = gadget (uf_ffs u)
    \<and> ref (uf_ffs u') = ref (uf_ffs u) \<and> uf_refcnt u' = 0 \<and> (\<forall>env'. ffs_func_bind env' c unregister u' = (Err EBADFD, u'))"
proof -
  let ?u = "u\<lparr>uf_ffs := (uf_ffs u)\<lparr>fl_bound := True\<rparr>\<rparr>"
  have "\<exists>e. functionfs_bind env u = (Err e, ?u)" using assms(4-6) by (auto simp: functionfs_bind_def Let_def)
  then have "\<exists>e. ffs_func_bind env c unregister u = (Err e, ?u)"
    using assms(1-3) by (auto simp: ffs_func_bind_def ffs_do_functionfs_bind_def)
  moreover have "functionfs_bind env' ?u = (Err EBADFD, ?u)" for env' by (simp add: functionfs_bind_def)
  then have "ffs_func_bind env' c unregister ?u = (Err EBADFD, ?u)" for env'
    using assms(1-3) by (simp add: ffs_func_bind_def ffs_do_functionfs_bind_def)
  ultimately show ?thesis using assms(3) by fastforce
qed

lemma failed_bind_stays_bound_witness:
  "\<exists>u'. fst (ffs_func_bind (sample_gadget\<lparr>ep0_req_ok := False\<rparr>) False id (sample_func (sample_descs 0x81))) \<noteq> Ok ()
     \<and> snd (ffs_func_bind (sample_gadget\<lparr>ep0_req_ok := False\<rparr>) False id (sample_func (sample_descs 0x81))) = u'
     \<and> ffs_func_bind sample_gadget False id u' = (Err EBADFD, u')"
proof -
  let ?u = "sample_func (sample_descs 0x81)" and ?dev = "\<lparr>dev_mounted = True, dev_desc_ready = True, dev_has_data = True\<rparr>"
  have "private_data (uf_ffs ?u) = Some ?dev" "dev_desc_ready ?dev" "uf_refcnt ?u = 0" "ffs_st (uf_ffs ?u) = FFS_ACTIVE" "\<not> fl_bound (uf_ffs ?u)"
    by code_simp+
  from failed_bind_stays_bound [OF this, of "sample_gadget\<lparr>ep0_req_ok := False\<rparr>" False id] show ?thesis by auto
qed

text \<open>A message in the newer form: flags, the number of descriptors for each flag, descriptors.\<close>

definition message :: "u32 \<Rightarrow> u32 list \<Rightarrow> u8 list \<Rightarrow> u8 list" where
  "message flags counts ds = le32_bytes 3 @ le32_bytes (of_nat (12 + 4 * length counts + length ds)) @ le32_bytes flags
     @ concat (map le32_bytes counts) @ ds"

text \<open>
  Messages that endpoint zero accepts, so that the function becomes active, and that the binding
  then cannot stand: the same endpoint for high and super speed but not for full speed (the second
  pass copies from the full speed descriptor, a null pointer); an interface association without an
  interface with endpoints (its number is taken through a null pointer); a class-specific union
  descriptor of three bytes at the end (its fourth and fifth bytes are written behind the
  allocation). And a binding that fails while it assigns interface numbers, after it has set the
  descriptor arrays: a second try with a gadget that has everything fails with \<open>-EINVAL\<close>, while a
  binding that failed for want of memory can be repeated.
\<close>
theorem accepted_messages_break_binding:
  "let both = message 6 [2, 2] (sample_speed 0x81 @ sample_speed 0x81);
       association = message 1 [1] [8, 11, 0, 1, 0, 0, 0, 0];
       union = message 1 [2] ([9, 4, 0, 0, 0, 0xff, 0, 0, 1] @ [3, 0x24, 6]);
       good = sample_func (sample_descs 0x81);
       bind = (\<lambda>env u. ffs_func_bind env False id u)
   in list_all (\<lambda>m. ffs_st (written m) = FFS_ACTIVE \<and> fst (bind sample_gadget (sample_func m)) = Fault) [both, association, union]
     \<and> fst (bind sample_gadget good) = Ok ()
     \<and> fst (bind (sample_gadget\<lparr>interface_id := (\<lambda>_. - 19)\<rparr>) good) = Err (E_CODE (- 19))
     \<and> fst (bind sample_gadget (snd (bind (sample_gadget\<lparr>interface_id := (\<lambda>_. - 19)\<rparr>) good))) = Err EINVAL
     \<and> fst (bind sample_gadget (snd (bind (sample_gadget\<lparr>vla_ok := False\<rparr>) good))) = Ok ()"
proof -
  have "ffs_st (written (message 6 [2, 2] (sample_speed 0x81 @ sample_speed 0x81))) = FFS_ACTIVE"
    "ffs_st (written (message 1 [1] [8, 11, 0, 1, 0, 0, 0, 0])) = FFS_ACTIVE"
    "ffs_st (written (message 1 [2] ([9, 4, 0, 0, 0, 0xff, 0, 0, 1] @ [3, 0x24, 6]))) = FFS_ACTIVE" by code_simp+
  moreover have "fst (ffs_func_bind sample_gadget False id (sample_func (message 6 [2, 2] (sample_speed 0x81 @ sample_speed 0x81)))) = Fault"
    "fst (ffs_func_bind sample_gadget False id (sample_func (message 1 [1] [8, 11, 0, 1, 0, 0, 0, 0]))) = Fault"
    "fst (ffs_func_bind sample_gadget False id (sample_func (message 1 [2] ([9, 4, 0, 0, 0, 0xff, 0, 0, 1] @ [3, 0x24, 6])))) = Fault" by code_simp+
  moreover have "fst (ffs_func_bind sample_gadget False id (sample_func (sample_descs 0x81))) = Ok ()"
    "fst (ffs_func_bind (sample_gadget\<lparr>interface_id := (\<lambda>_. - 19)\<rparr>) False id (sample_func (sample_descs 0x81))) = Err (E_CODE (- 19))"
    "fst (ffs_func_bind sample_gadget False id (snd (ffs_func_bind (sample_gadget\<lparr>interface_id := (\<lambda>_. - 19)\<rparr>) False id
       (sample_func (sample_descs 0x81))))) = Err EINVAL"
    "fst (ffs_func_bind sample_gadget False id (snd (ffs_func_bind (sample_gadget\<lparr>vla_ok := False\<rparr>) False id
       (sample_func (sample_descs 0x81))))) = Ok ()" by code_simp+
  ultimately show ?thesis unfolding Let_def by (simp only: list.pred_inject simp_thms)
qed

subsection \<open>Resetting the data\<close>

text \<open>
  A reset gives back what the data holds, each thing once, and makes it empty again; but it
  keeps the pointer to the event counter that it has given back. When the data is cleared later, the
  counter, and nothing else, is given back a second time.
\<close>
theorem reset_keeps_eventfd:
  assumes "\<not> gadget s" and "epfiles s = Some efs" and "length efs = unat (eps_count s)"
    and "raw_descs_data s = Some d" and "stringtabs s = Some tabs" and "ffs_eventfd s"
  shows "\<exists>rel s1. ffs_data_reset False unregister s = (Ok rel, s1)
    \<and> rel = [Rel_epfiles (unat (eps_count s)), Rel_eventfd, Rel_descs, Rel_strings, Rel_stringtabs]
    \<and> ffs_st s1 = FFS_READ_DESCRIPTORS \<and> ev_types s1 = [] \<and> message_of s1 = ([], 0, 0, 0, eps_addrmap s, 0, 0, 0)
    \<and> fst (ffs_data_clear False unregister s1) = Ok [Rel_eventfd]"
proof -
  have "ffs_closed False unregister s = s\<lparr>private_data := map_option (\<lambda>dev. dev\<lparr>dev_desc_ready := False, dev_has_data := False\<rparr>) (private_data s),
      fl_call_closed := (private_data s = None \<and> fl_call_closed s)\<rparr>" for s
    by (cases "private_data s") (simp_all add: ffs_closed_def)
  then show ?thesis
    using assms by (simp add: ffs_data_reset_def ffs_data_clear_def ffs_epfiles_destroy_def message_of_def kfree_def Let_def)
qed

lemma reset_keeps_eventfd_witness:
  "fst (ffs_data_clear False id (snd (ffs_data_reset False id ((uf_ffs (sample_func (sample_descs 0x81)))\<lparr>ffs_eventfd := True\<rparr>)))) = Ok [Rel_eventfd]"
proof -
  let ?s = "(uf_ffs (sample_func (sample_descs 0x81)))\<lparr>ffs_eventfd := True\<rparr>"
  obtain efs where "epfiles ?s = Some efs" "length efs = unat (eps_count ?s)"
    using sample_unbound(1) by (auto simp: detached_def)
  moreover have "\<not> gadget ?s" "raw_descs_data ?s = Some (sample_descs 0x81)" "stringtabs ?s = Some [(0x409, [[0x41]])]" "ffs_eventfd ?s"
    by code_simp+
  ultimately obtain rel s1 where "ffs_data_reset False id ?s = (Ok rel, s1)" "fst (ffs_data_clear False id s1) = Ok [Rel_eventfd]"
    using reset_keeps_eventfd [of ?s efs "sample_descs 0x81" "[(0x409, [[0x41]])]" id] by blast
  then show ?thesis by simp
qed

end
