(* ===== verification/Ffs_Epfile_Properties.thy ===== *)
theory Ffs_Epfile_Properties
  imports Ffs_Epfile_Inv Ffs_Bind_Properties
begin

section \<open>Generic USB function: properties of the endpoint files\<close>

text \<open>
  The endpoint files alone, and as files of a bound function: from the choice of an alternate setting
  to the request the controller gets, and from its completion back to user space.
\<close>

subsection \<open>A file of a function\<close>

definition file_of :: "nat \<Rightarrow> usb_func \<Rightarrow> epfile_io \<Rightarrow> bool" where
  "file_of k u s \<longleftrightarrow> pf_st s = ffs_st (uf_ffs u) \<and> pf_gadget s = gadget (uf_ffs u) \<and> pf_fn s = uf_fn u \<and> pf_index s = k
     \<and> (\<exists>efs. epfiles (uf_ffs u) = Some efs \<and> k < length efs \<and> pf_file s = efs ! k)"

text \<open>A file as it is made, and an environment in which nothing happens meanwhile and nothing fails.\<close>

definition fresh_file :: "bool \<Rightarrow> nat \<Rightarrow> usb_func \<Rightarrow> epfile_io" where
  "fresh_file super k u = \<lparr>pf_st = ffs_st (uf_ffs u), pf_gadget = gadget (uf_ffs u), pf_super = super, pf_fn = uf_fn u, pf_index = k,
     pf_file = the (epfiles (uf_ffs u)) ! k, pf_areas = [], pf_fifo = Fifo_zeroed False, pf_reqs = [], pf_queued = [], pf_halted = [],
     pf_mutex = False, eps_lock = False, pf_mem = 0\<rparr>"

definition calm :: "ep_env \<Rightarrow> bool" where
  "calm env \<longleftrightarrow> ep_mutex_free env \<and> locking env = id \<and> unlocked env = id \<and> queue_ret env = 0 \<and> req_ok env
     \<and> \<not> ep_interrupted env \<and> \<not> ep_timed_out env \<and> ep_copy_ok env \<and> ep_alloc_ok env \<and> ep_memset_ret env = 0 \<and> ep_memcpy_ret env = 0"

definition sample_env :: ep_env where
  "sample_env = \<lparr>ep_nonblock = True, ep_mutex_free = True, connected = None, locking = id, unlocked = id, align = (\<lambda>ep n. n),
     halt_ret = 0, queue_ret = 0, req_ok = True, ep_interrupted = False, ep_timed_out = False, ep_done_status = 0, ep_done_actual = 8,
     ep_copy_ok = True, ep_alloc_ok = True, ep_memset_ret = 0, ep_memcpy_ret = 0, fifo_status = 0, clear_ret = 0\<rparr>"

lemma sample_env_calm: "calm sample_env"
  by (simp add: calm_def sample_env_def)

lemma reconnect_id [simp]: "reconnect id s = s"
  by (simp add: reconnect_def)

text \<open>The kernel address of a buffer in an area that does not reach over the end of memory.\<close>

definition area_wf :: "ffs_memory \<Rightarrow> bool" where
  "area_wf m \<longleftrightarrow> unat (vm_start m) + unat (mem_size m) < 2 ^ 64 \<and> unat (mem m) + unat (mem_size m) < 2 ^ 64"

lemma area_kernel:
  assumes "generic_find_memory_area buf len s = Some m" and "area_wf m"
  shows "unat (mem m) \<le> unat (kernel_address m buf)" "unat (kernel_address m buf) + unat len \<le> unat (mem m) + unat (mem_size m)"
proof -
  have "buf \<ge> vm_start m \<and> buf < vm_start m + ucast (mem_size m) \<and> ucast len \<le> vm_start m + ucast (mem_size m) - buf"
    using assms(1) by (auto simp: generic_find_memory_area_def find_Some_iff)
  then have fits: "unat (vm_start m) \<le> unat buf" "unat buf + unat len \<le> unat (vm_start m) + unat (mem_size m)"
    using area_fits assms(2) by (auto simp: area_wf_def)
  have "kernel_address m buf = mem m + (buf - vm_start m)" by (simp add: kernel_address_def)
  moreover have "unat (buf - vm_start m) = unat buf - unat (vm_start m)" using fits(1) by (simp add: unat_sub word_le_nat_alt)
  moreover have "unat (mem m) + (unat buf - unat (vm_start m)) < 2 ^ 64" using assms(2) fits unfolding area_wf_def by linarith
  ultimately have "unat (kernel_address m buf) = unat (mem m) + (unat buf - unat (vm_start m))" by (simp add: unat_word_ariths)
  then show "unat (mem m) \<le> unat (kernel_address m buf)" "unat (kernel_address m buf) + unat len \<le> unat (mem m) + unat (mem_size m)"
    using fits by simp_all
qed

subsection \<open>Runs\<close>

text \<open>A transfer on a connected file while nothing else happens.\<close>

definition transfer_len :: "ep_env \<Rightarrow> ep_io_data \<Rightarrow> nat \<Rightarrow> int" where
  "transfer_len env io ep = (if io_read io then align env ep (uint (io_len io)) else uint (io_len io))"

lemma calm_transfer:
  assumes "calm env" and "pf_st s = FFS_ACTIVE" and "\<not> pf_mutex s" "\<not> eps_lock s" "pf_gadget s"
    and "ef_ep (pf_file s) = Some ep" and "io_read io \<noteq> ef_in (pf_file s)"
  shows "ffs_epfile_iorw env io s = epfile_queue env io ep False (transfer_len env io ep) (s\<lparr>pf_mutex := True\<rparr>)"
proof -
  have eq: "s\<lparr>pf_mutex := True, eps_lock := False\<rparr> = s\<lparr>pf_mutex := True\<rparr>" using assms(4) by simp
  show ?thesis
    using assms
    by (simp add: ffs_epfile_iorw_def epfile_transfer_def calm_def epfile_mutex_lock_def epfile_length_def eps_lock_take_def
        eps_unlock_def transfer_len_def Let_def) (simp only: eq simp_thms)
qed

definition with_args :: "ep_io_data \<Rightarrow> epfile_io \<Rightarrow> epfile_io" where
  "with_args io s = (if io_aio io then s\<lparr>pf_mem := pf_mem s + 1\<rparr> else s)"

lemma calm_rw:
  assumes "calm env" and "pf_st s = FFS_ACTIVE" and "\<not> eps_lock s" and "cmd = EP_READ io \<or> cmd = EP_WRITE io"
  shows "ffs_epfile_ioctl env cmd s = bindE (ffs_epfile_iorw env io (with_args io s)) (rw_answer io)"
proof -
  have eq: "eps_unlock (s\<lparr>eps_lock := True, pf_mem := pf_mem s + 1\<rparr>) = s\<lparr>pf_mem := pf_mem s + 1\<rparr>" "eps_unlock (s\<lparr>eps_lock := True\<rparr>) = s"
    using assms(3) by (simp_all add: eps_unlock_def)
  have "ep_ioctl_rw env io s = bindE (ffs_epfile_iorw env io (with_args io s)) (rw_answer io)"
    using assms(1,3) by (cases "io_aio io") (simp_all add: ep_ioctl_rw_def eps_lock_take_def calm_def with_args_def eq Let_def)
  then show ?thesis using assms(2,4) by (auto simp: ffs_epfile_ioctl_def)
qed

text \<open>What an asynchronous one leaves behind.\<close>

definition request_of :: "ep_env \<Rightarrow> ep_io_data \<Rightarrow> nat \<Rightarrow> ffs_memory \<Rightarrow> ep0_request" where
  "request_of env io ep m = \<lparr>rq_buf = kernel_address m (io_buf io), rq_len = word_of_int (transfer_len env io ep),
     rq_user_buf = io_buf io, rq_status = 0, rq_freed = False\<rparr>"

lemma calm_iorw:
  assumes "calm env" and "pf_st s = FFS_ACTIVE" and "\<not> pf_mutex s" "\<not> eps_lock s" "pf_gadget s"
    and "ef_ep (pf_file s) = Some ep" and "io_read io \<noteq> ef_in (pf_file s)"
    and "ep < length (fn_eps (pf_fn s))" "ep_hw (fn_eps (pf_fn s) ! ep) = Some hw"
    and "generic_find_memory_area (io_buf io) (io_len io) s = Some m"
  shows "ffs_epfile_iorw env io s =
     (if io_aio io then (Err EIOCBQUEUED, s\<lparr>pf_queued := pf_queued s @ [(hw, kernel_address m (io_buf io), transfer_len env io ep)],
          pf_reqs := request_of env io ep m # pf_reqs s, pf_mem := pf_mem s + 1\<rparr>)
      else (Ok (ep_done_actual env), s\<lparr>pf_queued := pf_queued s @ [(hw, kernel_address m (io_buf io), transfer_len env io ep)]\<rparr>))"
proof -
  have "generic_find_memory_area (io_buf io) (io_len io) (s\<lparr>pf_mutex := True, eps_lock := True\<rparr>) = Some m"
    using assms(10) by (simp add: generic_find_memory_area_def)
  then show ?thesis
    using assms(1-9)
    by (simp add: calm_transfer [OF assms(1-7)])
       (simp add: epfile_queue_def eps_lock_take_def epfile_sync_def epfile_async_def calm_def
        eps_unlock_def epfile_mutex_unlock_def request_of_def Let_def)
qed

subsection \<open>Every call on a file is safe\<close>

text \<open>
  C5. A user of an endpoint file who does what the code does not check can rely on it: as long as control
  calls are on mapped buffers, use the endpoint only of a connected file, ask for a descriptor only when
  there is one for the speed, make no second queue while there is one, have their asynchronous requests
  accepted by the controller (all this is \<open>ep_call_ok\<close>), and requests complete only while there is a
  queue, the file stays in order, whatever the hooks of the gadget do: both locks are free, the memory is
  what the mapped areas, the queue and the requests in flight hold, and no such call, no mapping, no
  reading and no such completion faults.
\<close>
theorem endpoint_file_safe:
  assumes run: "ep_reachable s0 s" and s0: "ep_ok s0" and env: "ep_env_ok env s" and c: "ep_call_ok env cmd s"
  shows "no_fault (ffs_epfile_ioctl env cmd s) \<and> no_fault (ffs_epfile_mmap mem_ok node_ok remap_ok virt lo hi s)
    \<and> no_fault (ffs_epfile_read env count s)
    \<and> (i < length (pf_reqs s) \<and> is_Fifo (pf_fifo s) \<longrightarrow> no_fault (epfile_task_proc i status actual s))
    \<and> \<not> pf_mutex s \<and> \<not> eps_lock s
    \<and> pf_mem s = 2 * int (length (pf_areas s)) + 2 * int (length (pf_reqs s)) + (if is_Fifo (pf_fifo s) then 1 else 0)"
proof -
  have s: "ep_ok s" using ep_reachable_ok [OF run s0] by simp
  have "\<not> pf_mutex s \<and> \<not> eps_lock s
    \<and> pf_mem s = 2 * int (length (pf_areas s)) + 2 * int (length (pf_reqs s)) + (if is_Fifo (pf_fifo s) then 1 else 0)"
    using s by (simp add: ep_ok_less_def)
  then show ?thesis
    using postD(1) [OF ioctl_ok [OF s env c]] postD(1) [OF mmap_ok [OF s]] postD(1) [OF read_ok [OF s]] postD(1) [OF task_ok [OF s]]
    by blast
qed

text \<open>The file of the only endpoint of the sample function, connected, with an area of 64 bytes.\<close>

definition sample_file :: epfile_io where
  "sample_file = snd (ffs_epfile_mmap True True True 0x9000 0x4000 0x4040
     (fresh_file False 0 (snd (ffs_func_set_alt (\<lambda>_ _. Inr (True, False)) 7 (Some 0) bound_sample))))"

definition sample_io :: "bool \<Rightarrow> ep_io_data" where
  "sample_io aio = \<lparr>io_aio = aio, io_len = 8, io_timeout = 0, io_buf = 0x4010, io_read = False\<rparr>"

lemma sample_file_state:
  "pf_st sample_file = FFS_ACTIVE" "\<not> pf_mutex sample_file" "\<not> eps_lock sample_file" "pf_gadget sample_file"
  "ef_ep (pf_file sample_file) = Some 0" "ef_in (pf_file sample_file)" "length (fn_eps (pf_fn sample_file)) = 1"
  "ep_hw (fn_eps (pf_fn sample_file) ! 0) = Some 0" "pf_reqs sample_file = []" "pf_fifo sample_file = Fifo_zeroed False" "pf_mem sample_file = 2"
  "pf_areas sample_file = [\<lparr>mem = 0x9000, vm_start = 0x4000, mem_size = 64\<rparr>]" "pf_queued sample_file = []"
  by code_simp+

lemma sample_area: "generic_find_memory_area 0x4010 8 sample_file = Some \<lparr>mem = 0x9000, vm_start = 0x4000, mem_size = 64\<rparr>"
  by (simp add: generic_find_memory_area_def sample_file_state word_le_nat_alt word_less_nat_alt)

lemma sample_file_ok: "ep_ok sample_file"
  by (simp add: ep_ok_less_def connects_def sample_file_state)

lemma sample_env_ok: "ep_env_ok sample_env s"
  by (simp add: ep_env_ok_def sample_env_def)

lemma endpoint_file_safe_witness:
  "no_fault (ffs_epfile_ioctl sample_env (EP_WRITE (sample_io False)) sample_file)"
proof -
  have "ep_call_ok sample_env (EP_WRITE (sample_io False)) sample_file" by (simp add: sample_io_def is_mapped_def sample_area)
  from endpoint_file_safe [OF ep_reachable.start sample_file_ok sample_env_ok this] show ?thesis by blast
qed

subsection \<open>Buffers that are not mapped\<close>

lemma locked_ioctl: "eps_lock s \<Longrightarrow> pf_st s = FFS_ACTIVE \<Longrightarrow> fst (ffs_epfile_ioctl env cmd s) = Fault"
  by (cases cmd) (simp_all add: ffs_epfile_ioctl_def ep_ioctl_rw_def ep_find_def eps_lock_take_def reconnect_def Let_def)

text \<open>
  C34. A transfer on a buffer that no mapped area holds returns \<open>-EFAULT\<close> and keeps both the spin lock of
  the endpoints and the mutex of the file: every later control call on any file of the function, every
  mapping and every completion waits for the lock forever. Releasing an unmapped buffer does the same with
  the spin lock.
\<close>
theorem unmapped_buffer_keeps_locks:
  assumes "calm env" and "pf_st s = FFS_ACTIVE" and "\<not> pf_mutex s" "\<not> eps_lock s" "pf_gadget s"
    and "ef_ep (pf_file s) = Some ep" and "io_read io \<noteq> ef_in (pf_file s)"
    and none: "generic_find_memory_area (io_buf io) (io_len io) s = None"
  shows "fst (ffs_epfile_ioctl env (EP_WRITE io) s) = Err EFAULT
    \<and> fst (ffs_epfile_ioctl env (EP_RELEASE_BUF (io_buf io) (io_len io)) s) = Err EFAULT
    \<and> (let s1 = snd (ffs_epfile_ioctl env (EP_WRITE io) s); s2 = snd (ffs_epfile_ioctl env (EP_RELEASE_BUF (io_buf io) (io_len io)) s)
       in pf_mutex s1 \<and> fst (ffs_epfile_ioctl env' cmd s1) = Fault \<and> fst (ffs_epfile_ioctl env' cmd s2) = Fault
          \<and> fst (ffs_epfile_mmap True True True virt lo hi s1) = Fault \<and> fst (epfile_task_proc i status actual s1) = Fault)"
proof -
  let ?t = "with_args io s"
  let ?q = "?t\<lparr>pf_mutex := True, eps_lock := True\<rparr>"
  have "generic_find_memory_area (io_buf io) (io_len io) ?q = None" using none by (simp add: generic_find_memory_area_def with_args_def)
  moreover have "ffs_epfile_iorw env io ?t = epfile_queue env io ep False (transfer_len env io ep) (?t\<lparr>pf_mutex := True\<rparr>)"
    using assms by (intro calm_transfer) (simp_all add: with_args_def)
  ultimately have "ffs_epfile_iorw env io ?t = (Err EFAULT, ?q)" using assms by (simp add: epfile_queue_def eps_lock_take_def with_args_def)
  then have writing: "ffs_epfile_ioctl env (EP_WRITE io) s = (Err EFAULT, s\<lparr>pf_mutex := True, eps_lock := True\<rparr>)"
    using assms by (simp add: calm_rw bindE_def rw_answer_def with_args_def)
  have none': "generic_find_memory_area (io_buf io) (io_len io) (s\<lparr>eps_lock := True\<rparr>) = None" using none by (simp add: generic_find_memory_area_def)
  then have releasing: "ffs_epfile_ioctl env (EP_RELEASE_BUF (io_buf io) (io_len io)) s = (Err EFAULT, s\<lparr>eps_lock := True\<rparr>)"
    using assms by (simp add: ffs_epfile_ioctl_def eps_lock_take_def calm_def)
  show ?thesis
    unfolding writing releasing using assms(2)
    by (simp add: Let_def locked_ioctl) (simp add: ffs_epfile_mmap_def epfile_task_proc_def eps_lock_take_def)
qed

lemma unmapped_buffer_keeps_locks_witness:
  "fst (ffs_epfile_ioctl sample_env (EP_WRITE (sample_io False\<lparr>io_buf := 0x5000\<rparr>)) sample_file) = Err EFAULT"
proof -
  have "generic_find_memory_area 0x5000 8 sample_file = None"
    by (simp add: generic_find_memory_area_def sample_file_state word_le_nat_alt word_less_nat_alt)
  then show ?thesis
    using unmapped_buffer_keeps_locks [OF sample_env_calm sample_file_state(1-5), of "sample_io False\<lparr>io_buf := 0x5000\<rparr>"] sample_file_state(6)
    by (simp add: sample_io_def)
qed

subsection \<open>From a hook to the controller\<close>

lemma disabling_active:
  assumes u: "attached u" and st: "ffs_st (uf_ffs u) = FFS_ACTIVE" and act: "uf_active u"
  shows "ffs_st (uf_ffs (snd (ffs_func_disable u))) = FFS_ACTIVE"
proof -
  from eps_disable_attached [OF u] obtain hw efs where
    off: "ffs_func_eps_disable u = (Ok hw, u\<lparr>uf_ffs := (uf_ffs u)\<lparr>epfiles := Some efs\<rparr>\<rparr>)"
    and efs: "length efs = unat (eps_count (uf_ffs u))" by blast
  have v: "attached (u\<lparr>uf_ffs := (uf_ffs u)\<lparr>epfiles := Some efs\<rparr>, uf_active := False\<rparr>)"
    using attached_files [OF u efs] by simp
  show ?thesis
    using st act queue_event [OF v, of FUNCTIONFS_DISABLE] by (simp add: ffs_func_disable_def ffs_func_set_alt_def off)
qed

lemma attached_gadget: "attached u \<Longrightarrow> gadget (uf_ffs u)"
  by (simp add: attached_def ok_in_def)

lemma file_of_connected:
  assumes "attached u" and "file_of k u s" and "ef_ep (pf_file s) = Some k"
  shows "pf_gadget s \<and> k < length (fn_eps (pf_fn s)) \<and> (\<exists>hw. ep_hw (fn_eps (pf_fn s) ! k) = Some hw)"
proof -
  have k: "k < length (fn_eps (uf_fn u))" using assms(1,2) by (auto simp: attached_def eps_tables_def file_of_def)
  then have "ep_hw (fn_eps (uf_fn u) ! k) \<noteq> None" using assms(1) by (auto simp: attached_def)
  then show ?thesis using k assms attached_gadget by (auto simp: file_of_def)
qed

text \<open>
  C7. From the choice of an alternate setting to the controller. When the setting was chosen for one of the
  function's interfaces and the controller enabled all endpoints, a transfer on the file of endpoint \<open>k\<close>
  with a mapped buffer, in the direction of the endpoint, hands the controller one request for exactly
  the hardware endpoint that the binding claimed for \<open>k\<close>, with the kernel address of the buffer, and
  all of the buffer is inside of the mapped area; the length is that of the caller, aligned for data
  from the host. After the function is disabled a transfer that does not wait returns \<open>-EAGAIN\<close> and does nothing.
\<close>
theorem transfers_reach_endpoint:
  assumes u: "attached u" "ffs_st (uf_ffs u) = FFS_ACTIVE" "uint intf \<in> set (fn_nums (uf_fn u))"
    and on: "\<forall>i ep. \<exists>dir isoc. ep_on i ep = Inr (dir, isoc)"
    and f: "file_of k (snd (ffs_func_set_alt ep_on intf (Some alt) u)) s" "\<not> pf_mutex s" "\<not> eps_lock s"
    and env: "calm env" and dir: "io_read io \<noteq> ef_in (pf_file s)"
    and area: "generic_find_memory_area (io_buf io) (io_len io) s = Some m" "area_wf m"
    and after: "file_of k (snd (ffs_func_disable (snd (ffs_func_set_alt ep_on intf (Some alt) u)))) s2" "ep_nonblock env2"
  shows "\<exists>hw. ep_hw (fn_eps (pf_fn s) ! k) = Some hw
    \<and> fst (ffs_epfile_iorw env io s) = (if io_aio io then Err EIOCBQUEUED else Ok (ep_done_actual env))
    \<and> pf_queued (snd (ffs_epfile_iorw env io s)) = pf_queued s @
        [(hw, kernel_address m (io_buf io), if io_read io then align env k (uint (io_len io)) else uint (io_len io))]
    \<and> unat (mem m) \<le> unat (kernel_address m (io_buf io))
    \<and> unat (kernel_address m (io_buf io)) + unat (io_len io) \<le> unat (mem m) + unat (mem_size m)
    \<and> ffs_epfile_iorw env2 io s2 = (Err EAGAIN, s2)"
proof -
  obtain j where "ffs_func_revmap_intf intf u = Ok j" using revmap_intf_known [OF u(1,3)] by blast
  from enabling_step [OF u(1,2) this on, of alt] obtain u1 efs where set: "ffs_func_set_alt ep_on intf (Some alt) u = (Ok 0, u1)"
    and act: "uf_active u1" and efs: "epfiles (uf_ffs u1) = Some efs" "\<forall>k < length efs. ef_ep (efs ! k) = Some k"
    and u1: "attached u1" "ffs_st (uf_ffs u1) = FFS_ACTIVE" by blast
  have f1: "file_of k u1 s" using f(1) set by simp
  have ep: "ef_ep (pf_file s) = Some k" using efs f1 by (auto simp: file_of_def)
  from file_of_connected [OF u1(1) f1 ep] obtain hw where hw: "pf_gadget s" "k < length (fn_eps (pf_fn s))" "ep_hw (fn_eps (pf_fn s) ! k) = Some hw" by blast
  have st: "pf_st s = FFS_ACTIVE" using f1 u1(2) by (simp add: file_of_def)
  note run = calm_iorw [OF env st f(2,3) hw(1) ep dir hw(2,3) area(1)]
  obtain u2 efs2 where off: "ffs_func_disable u1 = (Ok 0, u2)" and efs2: "epfiles (uf_ffs u2) = Some efs2" "\<forall>ef \<in> set efs2. ef_ep ef = None"
    using disabling_step [OF u1 act] by blast
  have "file_of k u2 s2" using after(1) set off by simp
  moreover have "ffs_st (uf_ffs u2) = FFS_ACTIVE" using disabling_active [OF u1 act] off by simp
  ultimately have "pf_st s2 = FFS_ACTIVE" "ef_ep (pf_file s2) = None" using efs2 by (auto simp: file_of_def)
  then have "ffs_epfile_iorw env2 io s2 = (Err EAGAIN, s2)" using after(2) by (simp add: ffs_epfile_iorw_def)
  then show ?thesis using hw(3) run area_kernel [OF area] by (simp add: transfer_len_def)
qed

definition sample_disabled_file :: epfile_io where
  "sample_disabled_file = fresh_file False 0 (snd (ffs_func_disable (snd (ffs_func_set_alt (\<lambda>_ _. Inr (True, False)) 7 (Some 0) bound_sample))))"

lemma file_of_fresh:
  "epfiles (uf_ffs u) \<noteq> None \<Longrightarrow> k < length (the (epfiles (uf_ffs u))) \<Longrightarrow> file_of k u (fresh_file super k u)"
  by (auto simp: file_of_def fresh_file_def)

lemma file_of_mmap: "file_of k u s \<Longrightarrow> file_of k u (snd (ffs_epfile_mmap a b c virt lo hi s))"
  by (simp add: file_of_def ffs_epfile_mmap_def eps_lock_take_def eps_unlock_def)

lemma transfers_reach_endpoint_witness:
  "pf_queued (snd (ffs_epfile_iorw sample_env (sample_io False) sample_file)) = [(0, 0x9010, 8)]
   \<and> fst (ffs_epfile_iorw sample_env (sample_io False) sample_disabled_file) = Err EAGAIN"
proof -
  let ?on = "\<lambda>_ _. Inr (True, False) :: int + bool \<times> bool"
  let ?m = "\<lparr>mem = 0x9000, vm_start = 0x4000, mem_size = 64\<rparr>"
  have on: "\<forall>i ep. \<exists>dir isoc. ?on (i :: nat) (ep :: nat) = Inr (dir, isoc)" by blast
  have intf: "uint (7 :: u8) \<in> set (fn_nums (uf_fn bound_sample))" by (simp add: bound_sample_attached(3))
  let ?u1 = "snd (ffs_func_set_alt ?on 7 (Some 0) bound_sample)"
  have "epfiles (uf_ffs ?u1) \<noteq> None" "0 < length (the (epfiles (uf_ffs ?u1)))" by code_simp+
  then have on_file: "file_of 0 ?u1 sample_file" unfolding sample_file_def by (intro file_of_mmap file_of_fresh)
  have "epfiles (uf_ffs (snd (ffs_func_disable ?u1))) \<noteq> None" "0 < length (the (epfiles (uf_ffs (snd (ffs_func_disable ?u1)))))" by code_simp+
  then have off: "file_of 0 (snd (ffs_func_disable ?u1)) sample_disabled_file" unfolding sample_disabled_file_def by (rule file_of_fresh)
  have m: "area_wf ?m" "kernel_address ?m 0x4010 = 0x9010" by (simp_all add: area_wf_def kernel_address_def)
  have area: "generic_find_memory_area (io_buf (sample_io False)) (io_len (sample_io False)) sample_file = Some ?m"
    using sample_area by (simp add: sample_io_def)
  have dir: "io_read (sample_io False) \<noteq> ef_in (pf_file sample_file)" "ep_nonblock sample_env"
    by (simp_all add: sample_io_def sample_file_state sample_env_def)
  from transfers_reach_endpoint [OF bound_sample_attached(1,2) intf on on_file sample_file_state(2,3) sample_env_calm dir(1) area m(1) off dir(2)]
  show ?thesis using m(2) by (auto simp: sample_file_state sample_io_def)
qed

subsection \<open>From a completion to user space\<close>

text \<open>How user space reads a completion: the address of its buffer, the bytes transferred, the status.\<close>

definition parse_event :: "u8 list \<Rightarrow> usb_fn_req_event option" where
  "parse_event bs = (case (le32_at bs 0, le32_at bs 4, le32_at bs 8, le32_at bs 12) of
     (Some lo, Some hi, Some n, Some st) \<Rightarrow>
       Some \<lparr>re_buf = ucast lo OR push_bit 32 (ucast hi), re_actual = n, re_status = sint st\<rparr>
   | _ \<Rightarrow> None)"

lemma length_event [simp]: "length (event_bytes ev) = 16"
  by (simp add: event_bytes_def)

lemma word64_join: "(ucast (ucast w :: u32) OR push_bit 32 (ucast (ucast (drop_bit 32 w) :: u32)) :: u64) = w"
proof (rule bit_word_eqI)
  fix n assume "n < LENGTH(64)"
  then show "bit (ucast (ucast w :: u32) OR push_bit 32 (ucast (ucast (drop_bit 32 w) :: u32)) :: u64) n = bit w n"
    by (cases "n < 32") (auto simp: bit_simps)
qed

lemma parse_event_bytes:
  assumes "- (2 ^ 31) \<le> re_status ev" and "re_status ev < 2 ^ 31"
  shows "parse_event (event_bytes ev @ rest) = Some ev"
proof -
  have "sint (word_of_int (re_status ev) :: u32) = re_status ev"
    using assms by (simp add: signed_of_int signed_take_bit_int_eq_self)
  then show ?thesis
    by (cases ev) (simp add: parse_event_def event_bytes_def le_at_append word64_join)
qed

lemma calm_async:
  assumes "calm env" and "pf_st s = FFS_ACTIVE" and s: "ep_ok s" and ep: "ef_ep (pf_file s) = Some ep" and "io_read io \<noteq> ef_in (pf_file s)"
    and area: "generic_find_memory_area (io_buf io) (io_len io) s = Some m" and aio: "io_aio io" and cmd: "cmd = EP_READ io \<or> cmd = EP_WRITE io"
  obtains hw where "ffs_epfile_ioctl env cmd s = (Ok (Ep_number 0),
     s\<lparr>pf_queued := pf_queued s @ [(hw, kernel_address m (io_buf io), transfer_len env io ep)],
       pf_reqs := request_of env io ep m # pf_reqs s, pf_mem := pf_mem s + 2\<rparr>)"
proof -
  obtain hw where hw: "pf_gadget s" "ep < length (fn_eps (pf_fn s))" "ep_hw (fn_eps (pf_fn s) ! ep) = Some hw"
    using ep_ok_connects [OF s] ep by (auto simp: connects_def)
  let ?t = "with_args io s"
  have "ffs_epfile_iorw env io ?t = (Err EIOCBQUEUED,
      ?t\<lparr>pf_queued := pf_queued ?t @ [(hw, kernel_address m (io_buf io), transfer_len env io ep)],
         pf_reqs := request_of env io ep m # pf_reqs ?t, pf_mem := pf_mem ?t + 1\<rparr>)"
    using calm_iorw [OF assms(1), of ?t ep io hw m] assms hw
    by (simp add: with_args_def ep_ok_less_def generic_find_memory_area_def)
  then show thesis
    using that [of hw] assms by (simp add: calm_rw [OF _ _ _ cmd] ep_ok_less_def bindE_def rw_answer_def with_args_def)
qed

text \<open>
  C18. The round trip of an asynchronous transfer: it is accepted at once, and a completion with a status
  and a number of bytes puts 16 bytes behind those of the earlier completions, from which user space
  reads back its own buffer address, the number and the status. The request and its memory are gone then,
  the file polls as readable, and reading everything empties the queue. All this while there is
  space for the completion, that is, while at most 63 are unread.
\<close>
theorem completions_read_back:
  assumes "calm env" and "pf_st s = FFS_ACTIVE" and "ep_ok s" and "ef_ep (pf_file s) = Some ep" and "io_read io \<noteq> ef_in (pf_file s)"
    and "generic_find_memory_area (io_buf io) (io_len io) s = Some m" and "io_aio io" and "cmd = EP_READ io \<or> cmd = EP_WRITE io"
    and fifo: "pf_fifo s = Fifo fifo" "length fifo \<le> 63 * 16" and status: "- (2 ^ 31) \<le> status" "status < 2 ^ 31"
  shows "fst (ffs_epfile_ioctl env cmd s) = Ok (Ep_number 0)
    \<and> (let s1 = snd (ffs_epfile_ioctl env cmd s); s2 = snd (epfile_task_proc 0 status actual s1); r = ffs_epfile_read env (length fifo + 16) s2
       in fst (epfile_task_proc 0 status actual s1) = Ok () \<and> length (pf_reqs s1) = length (pf_reqs s) + 1
          \<and> pf_reqs s2 = pf_reqs s \<and> pf_mem s2 = pf_mem s \<and> ffs_epfile_poll s2
          \<and> (\<exists>bs. fst r = Ok (fifo @ bs) \<and> length bs = 16
                \<and> parse_event bs = Some \<lparr>re_buf = io_buf io, re_actual = actual, re_status = status\<rparr>)
          \<and> pf_fifo (snd r) = Fifo [])"
proof -
  obtain hw where run: "ffs_epfile_ioctl env cmd s = (Ok (Ep_number 0),
     s\<lparr>pf_queued := pf_queued s @ [(hw, kernel_address m (io_buf io), transfer_len env io ep)],
       pf_reqs := request_of env io ep m # pf_reqs s, pf_mem := pf_mem s + 2\<rparr>)" (is "_ = (_, ?s1)")
    by (rule calm_async [OF assms(1-8)])
  let ?ev = "\<lparr>re_buf = io_buf io, re_actual = actual, re_status = status\<rparr>"
  have free: "\<not> eps_lock s" "ep_copy_ok env" using assms(1,3) by (simp_all add: ep_ok_less_def calm_def)
  have task: "epfile_task_proc 0 status actual ?s1 = (Ok (), eps_unlock (?s1\<lparr>eps_lock := True, pf_fifo := Fifo (fifo @ event_bytes ?ev),
      pf_reqs := pf_reqs s, pf_mem := pf_mem s\<rparr>))"
    using free fifo by (simp add: epfile_task_proc_def eps_lock_take_def request_of_def Let_def)
  have "parse_event (event_bytes ?ev) = Some ?ev" using parse_event_bytes [of ?ev "[]"] status by simp
  moreover have "event_bytes ?ev \<noteq> []" by (simp add: event_bytes_def le32_bytes_def)
  ultimately show ?thesis
    unfolding run using free
    by (simp add: task Let_def ffs_epfile_poll_def ffs_epfile_read_def eps_lock_take_def eps_unlock_def)
qed

definition sample_queue_file :: epfile_io where
  "sample_queue_file = sample_file\<lparr>pf_fifo := Fifo [], pf_mem := 3\<rparr>"

lemma completions_read_back_witness:
  "let s1 = snd (ffs_epfile_ioctl sample_env (EP_WRITE (sample_io True)) sample_queue_file)
   in \<exists>bs. fst (ffs_epfile_read sample_env 16 (snd (epfile_task_proc 0 0 8 s1))) = Ok bs
        \<and> parse_event bs = Some \<lparr>re_buf = 0x4010, re_actual = 8, re_status = 0\<rparr>"
proof -
  let ?s = sample_queue_file and ?io = "sample_io True"
  have s: "pf_st ?s = FFS_ACTIVE" "ep_ok ?s" "ef_ep (pf_file ?s) = Some 0" "io_read ?io \<noteq> ef_in (pf_file ?s)" "io_aio ?io" "pf_fifo ?s = Fifo []"
    by (simp_all add: sample_queue_file_def sample_file_state sample_io_def ep_ok_less_def connects_def)
  have area: "generic_find_memory_area (io_buf ?io) (io_len ?io) ?s = Some \<lparr>mem = 0x9000, vm_start = 0x4000, mem_size = 64\<rparr>"
    using sample_area by (simp add: sample_queue_file_def sample_io_def generic_find_memory_area_def)
  from completions_read_back [OF sample_env_calm s(1-4) area s(5) disjI2 [OF refl] s(6), of 0 8] show ?thesis
    by (auto simp: Let_def sample_io_def)
qed

subsection \<open>What the code does not look at\<close>

text \<open>
  Two things a host or a caller can do that the code does not look at. A synchronous transfer on a mapped
  buffer whose completion has an error as its status returns the number of bytes transferred, as if it had
  succeeded. And clearing a halt, asking for the status of the endpoint, flushing it or asking for its number,
  on a file that is not connected, uses a null pointer.
\<close>
theorem unchecked_endpoint_calls:
  assumes "calm env" and "pf_st s = FFS_ACTIVE" and s: "ep_ok s"
  shows "(ef_ep (pf_file s) = Some ep \<and> io_read io \<noteq> ef_in (pf_file s) \<and> \<not> io_aio io
        \<and> generic_find_memory_area (io_buf io) (io_len io) s \<noteq> None \<longrightarrow>
      fst (ffs_epfile_ioctl (env\<lparr>ep_done_status := status, ep_done_actual := n\<rparr>) (EP_WRITE io) s) = Ok (Ep_number (int n)))
    \<and> (ef_ep (pf_file s) = None \<and> cmd \<in> {CLEAR_HALT, FIFO_STATUS, FIFO_FLUSH, EP_REVMAP} \<longrightarrow> fst (ffs_epfile_ioctl env cmd s) = Fault)"
proof (intro conjI impI)
  assume c: "ef_ep (pf_file s) = Some ep \<and> io_read io \<noteq> ef_in (pf_file s) \<and> \<not> io_aio io
        \<and> generic_find_memory_area (io_buf io) (io_len io) s \<noteq> None"
  then obtain m where m: "generic_find_memory_area (io_buf io) (io_len io) s = Some m" by blast
  obtain hw where hw: "pf_gadget s" "ep < length (fn_eps (pf_fn s))" "ep_hw (fn_eps (pf_fn s) ! ep) = Some hw"
    using ep_ok_connects [OF s] c by (auto simp: connects_def)
  let ?env = "env\<lparr>ep_done_status := status, ep_done_actual := n\<rparr>"
  have env: "calm ?env" using assms(1) by (simp add: calm_def)
  have free: "\<not> pf_mutex s" "\<not> eps_lock s" using s by (simp_all add: ep_ok_less_def)
  show "fst (ffs_epfile_ioctl ?env (EP_WRITE io) s) = Ok (Ep_number (int n))"
    using calm_iorw [OF env assms(2) free hw(1) _ _ hw(2,3) m] c free assms(2)
    by (simp add: calm_rw [OF env] with_args_def bindE_def rw_answer_def)
next
  assume "ef_ep (pf_file s) = None \<and> cmd \<in> {CLEAR_HALT, FIFO_STATUS, FIFO_FLUSH, EP_REVMAP}"
  then show "fst (ffs_epfile_ioctl env cmd s) = Fault"
    using assms(2) by (auto simp: ffs_epfile_ioctl_def eps_lock_take_def with_ep_def)
qed

lemma unchecked_endpoint_calls_witness:
  "fst (ffs_epfile_ioctl (sample_env\<lparr>ep_done_status := - 108, ep_done_actual := 0\<rparr>) (EP_WRITE (sample_io False)) sample_file) = Ok (Ep_number 0)
   \<and> fst (ffs_epfile_ioctl sample_env CLEAR_HALT (reconnect (\<lambda>_. None) sample_file)) = Fault"
proof -
  have off: "pf_st (reconnect (\<lambda>_. None) sample_file) = FFS_ACTIVE" "ep_ok (reconnect (\<lambda>_. None) sample_file)"
    "ef_ep (pf_file (reconnect (\<lambda>_. None) sample_file)) = None"
    using ep_ok_reconnect [OF sample_file_ok, of "\<lambda>_. None"] by (simp_all add: sample_file_state reconnect_def connects_def)
  have "generic_find_memory_area (io_buf (sample_io False)) (io_len (sample_io False)) sample_file \<noteq> None"
    using sample_area by (simp add: sample_io_def)
  then show ?thesis
    using unchecked_endpoint_calls [OF sample_env_calm sample_file_state(1) sample_file_ok, where ep = 0 and io = "sample_io False" and status = "- 108" and n = 0]
      unchecked_endpoint_calls [OF sample_env_calm off(1,2), where cmd = CLEAR_HALT] off(3)
    by (simp add: sample_file_state sample_io_def)
qed

end
