(* ===== verification/Ffs_Registry.thy ===== *)
theory Ffs_Registry
  imports Ffs_Life
begin

section \<open>Generic USB function: the registry of instances\<close>

text \<open>
  The list of devices (\<open>ffs_devices\<close>), one for every instance that configfs made, and the functions that user
  space creates on them through \<open>/dev/usbfn\<close>. Devices and functions point at each other; here a pointer
  is a number that is never used twice, so that following one to a freed object is a fault.
\<close>

subsection \<open>State\<close>

text \<open>
  \<open>rd_data\<close> is \<open>ffs_data\<close> of the device, \<open>rf_dev\<close> is \<open>private_data\<close> of the function. \<open>rf_bound\<close>: it has a gadget.
  \<open>reg_region\<close> is the one variable \<open>g_dev\<close>, \<open>reg_regions\<close> are the character device regions registered with
  the kernel. Names are without their terminating zero.
\<close>

record reg_dev =
  rd_id :: nat
  rd_name :: "u8 list"
  rd_single :: bool
  rd_mounted :: bool
  rd_ready :: bool
  rd_data :: "nat option"

record reg_fn =
  rf_id :: nat
  rf_name :: "u8 list"
  rf_dev :: "nat option"
  rf_region :: "nat option"
  rf_cdev :: bool
  rf_node :: bool
  rf_bound :: bool

record registry =
  reg_devs :: "reg_dev list"
  reg_fns :: "reg_fn list"
  reg_region :: "nat option"
  reg_regions :: "nat list"
  misc_on :: bool
  class_on :: bool
  reg_next :: nat

text \<open>What the kernel answers; \<open>region\<close> is a new region or a failure, \<open>in_configfs\<close> as in \<open>ffs_closed\<close>.\<close>

record reg_env =
  func_copy_ok :: bool
  inst_alloc_ok :: bool
  dev_alloc_ok :: bool
  fn_alloc_ok :: bool
  fn_wq_ok :: bool
  name_copy_ret :: int
  region :: "nat option"
  cdev_ret :: int
  node_ok :: bool
  misc_ret :: int
  class_err :: "int option"
  in_configfs :: bool

text \<open>\<open>struct FuncNew\<close>; the name has 64 bytes.\<close>

record func_new =
  nf_len :: u32
  nf_name :: "u8 list"

abbreviation (input) MAX_NAMELEN :: nat where "MAX_NAMELEN \<equiv> 64"

definition c_string :: "u8 list \<Rightarrow> u8 list" where
  "c_string bs = takeWhile (\<lambda>b. b \<noteq> 0) bs"

definition upd_dev :: "nat \<Rightarrow> (reg_dev \<Rightarrow> reg_dev) \<Rightarrow> registry \<Rightarrow> registry" where
  "upd_dev i f s = s\<lparr>reg_devs := map (\<lambda>d. if rd_id d = i then f d else d) (reg_devs s)\<rparr>"

definition upd_fn :: "nat \<Rightarrow> (reg_fn \<Rightarrow> reg_fn) \<Rightarrow> registry \<Rightarrow> registry" where
  "upd_fn i f s = s\<lparr>reg_fns := map (\<lambda>x. if rf_id x = i then f x else x) (reg_fns s)\<rparr>"

definition dev_at :: "nat \<Rightarrow> registry \<Rightarrow> reg_dev option" where
  "dev_at i s = find (\<lambda>d. rd_id d = i) (reg_devs s)"

definition fn_at :: "nat \<Rightarrow> registry \<Rightarrow> reg_fn option" where
  "fn_at i s = find (\<lambda>x. rf_id x = i) (reg_fns s)"

subsection \<open>The module's device and class\<close>

definition functionfs_init :: "reg_env \<Rightarrow> registry \<Rightarrow> unit res \<times> registry" where
  "functionfs_init env s =
     (let s = (if misc_ret env = 0 then s\<lparr>misc_on := True\<rparr> else s)
      in case class_err env of
           Some e \<Rightarrow> (Err (E_CODE e), s)
         | None \<Rightarrow> (if misc_ret env = 0 then Ok () else Err (E_CODE (misc_ret env)), s\<lparr>class_on := True\<rparr>))"

definition functionfs_cleanup :: "registry \<Rightarrow> registry" where
  "functionfs_cleanup s = s\<lparr>class_on := False, misc_on := False\<rparr>"

subsection \<open>Devices\<close>

definition ffs_do_find_dev :: "u8 list \<Rightarrow> registry \<Rightarrow> reg_dev option" where
  "ffs_do_find_dev name s = find (\<lambda>d. rd_name d = name) (reg_devs s)"

definition ffs_get_single_dev :: "registry \<Rightarrow> reg_dev option" where
  "ffs_get_single_dev s = (case reg_devs s of [d] \<Rightarrow> if rd_single d then Some d else None | _ \<Rightarrow> None)"

definition ffs_find_dev :: "u8 list \<Rightarrow> registry \<Rightarrow> reg_dev option" where
  "ffs_find_dev name s = (case ffs_get_single_dev s of Some d \<Rightarrow> Some d | None \<Rightarrow> ffs_do_find_dev name s)"

definition new_dev :: "nat \<Rightarrow> reg_dev" where
  "new_dev i = \<lparr>rd_id = i, rd_name = [], rd_single = False, rd_mounted = False, rd_ready = False, rd_data = None\<rparr>"

definition ffs_alloc_dev :: "reg_env \<Rightarrow> registry \<Rightarrow> nat res \<times> registry" where
  "ffs_alloc_dev env s =
     (if ffs_get_single_dev s \<noteq> None then (Err EBUSY, s)
      else if \<not> dev_alloc_ok env then (Err ENOMEM, s)
      else bindS (if reg_devs s = [] then functionfs_init env s else (Ok (), s)) (\<lambda>_ s.
        (Ok (reg_next s), s\<lparr>reg_devs := new_dev (reg_next s) # reg_devs s, reg_next := reg_next s + 1\<rparr>)))"

definition ffs_alloc_inst :: "reg_env \<Rightarrow> registry \<Rightarrow> nat res \<times> registry" where
  "ffs_alloc_inst env s = (if \<not> inst_alloc_ok env then (Err ENOMEM, s) else ffs_alloc_dev env s)"

definition ffs_name_dev_adapter :: "nat \<Rightarrow> u8 list \<Rightarrow> registry \<Rightarrow> unit res \<times> registry" where
  "ffs_name_dev_adapter i name s = (case ffs_do_find_dev name s of
     None \<Rightarrow> (Ok (), upd_dev i (\<lambda>d. d\<lparr>rd_name := take (MAX_NAMELEN - 1) name\<rparr>) s)
   | Some d \<Rightarrow> (if rd_id d \<noteq> i then Err EBUSY else Ok (), s))"

text \<open>The prefix is \<open>f_generic.\<close>, 10 bytes; a name that does not fit makes \<open>snprintf_s\<close> fail.\<close>

definition FUNCTION_GENERIC :: "u8 list" where
  "FUNCTION_GENERIC = [102, 95, 103, 101, 110, 101, 114, 105, 99]"

definition ffs_set_inst_name :: "nat \<Rightarrow> u8 list \<Rightarrow> registry \<Rightarrow> unit res \<times> registry" where
  "ffs_set_inst_name i name s =
     (let full = FUNCTION_GENERIC @ [46] @ name
      in if length full > MAX_NAMELEN - 1 then (Err EFAULT, s) else ffs_name_dev_adapter i full s)"

definition ffs_single_dev_adapter :: "nat \<Rightarrow> registry \<Rightarrow> unit res \<times> registry" where
  "ffs_single_dev_adapter i s =
     (if length (reg_devs s) \<noteq> 1 then (Err EBUSY, s) else (Ok (), upd_dev i (\<lambda>d. d\<lparr>rd_single := True\<rparr>) s))"

definition ffs_free_dev :: "nat \<Rightarrow> registry \<Rightarrow> unit res \<times> registry" where
  "ffs_free_dev i s = (case dev_at i s of
     None \<Rightarrow> (Fault, s)
   | Some d \<Rightarrow>
       bindS (case rd_data d of
                None \<Rightarrow> (Ok (), s)
              | Some f \<Rightarrow> if fn_at f s = None then (Fault, s) else (Ok (), upd_fn f (\<lambda>x. x\<lparr>rf_dev := None\<rparr>) s)) (\<lambda>_ s.
         let s = s\<lparr>reg_devs := filter (\<lambda>d. rd_id d \<noteq> i) (reg_devs s)\<rparr>
         in (Ok (), if reg_devs s = [] then functionfs_cleanup s else s)))"

text \<open>\<open>ffs_free_inst\<close>: the options, which hold the pointer to the device, go with it.\<close>

definition ffs_free_inst :: "nat \<Rightarrow> registry \<Rightarrow> unit res \<times> registry" where
  "ffs_free_inst i s = ffs_free_dev i s"

subsection \<open>Devices and functions\<close>

text \<open>
  A device is taken by a function and given back. The callbacks of \<open>struct ffs_dev\<close> are never set in this
  repository and are left out.
\<close>

definition ffs_acquire_dev :: "u8 list \<Rightarrow> registry \<Rightarrow> nat res \<times> registry" where
  "ffs_acquire_dev name s = (case ffs_find_dev name s of
     None \<Rightarrow> (Err ENOENT, s)
   | Some d \<Rightarrow> if rd_mounted d then (Err EBUSY, s) else (Ok (rd_id d), upd_dev (rd_id d) (\<lambda>d. d\<lparr>rd_mounted := True\<rparr>) s))"

text \<open>Following \<open>private_data\<close> of a function.\<close>

definition with_dev :: "nat \<Rightarrow> 'a res \<Rightarrow> (reg_fn \<Rightarrow> reg_dev \<Rightarrow> registry \<Rightarrow> 'a res \<times> registry) \<Rightarrow> registry \<Rightarrow> 'a res \<times> registry" where
  "with_dev f without g s = (case fn_at f s of
     None \<Rightarrow> (Fault, s)
   | Some x \<Rightarrow> (case rf_dev x of
       None \<Rightarrow> (without, s)
     | Some i \<Rightarrow> (case dev_at i s of None \<Rightarrow> (Fault, s) | Some d \<Rightarrow> g x d s)))"

definition ffs_release_dev :: "nat \<Rightarrow> registry \<Rightarrow> unit res \<times> registry" where
  "ffs_release_dev f s = with_dev f (Ok ()) (\<lambda>x d s. (Ok (), upd_dev (rd_id d) (\<lambda>d. d\<lparr>rd_mounted := False\<rparr>) s)) s"

text \<open>\<open>ffs_ready\<close> and \<open>ffs_closed\<close>, as far as they change the device.\<close>

definition reg_ready :: "nat \<Rightarrow> registry \<Rightarrow> unit res \<times> registry" where
  "reg_ready f s = with_dev f (Err EINVAL) (\<lambda>x d s.
     if rd_ready d then (Err EBUSY, s)
     else (Ok (), upd_dev (rd_id d) (\<lambda>d. d\<lparr>rd_ready := True, rd_data := Some f\<rparr>) s)) s"

definition reg_closed :: "reg_env \<Rightarrow> nat \<Rightarrow> registry \<Rightarrow> unit res \<times> registry" where
  "reg_closed env f s = with_dev f (Ok ()) (\<lambda>x d s.
     let s = upd_dev (rd_id d) (\<lambda>d. d\<lparr>rd_ready := False, rd_data := None\<rparr>) s
     in (Ok (), if in_configfs env \<and> rf_bound x then upd_fn f (\<lambda>x. x\<lparr>rf_bound := False\<rparr>) s else s)) s"

text \<open>\<open>ffs_data_clear\<close> and freeing: a gadget that is still bound is a \<open>BUG_ON\<close>.\<close>

definition reg_free :: "reg_env \<Rightarrow> nat \<Rightarrow> registry \<Rightarrow> unit res \<times> registry" where
  "reg_free env f s = bindS (reg_closed env f s) (\<lambda>_ s. case fn_at f s of
     None \<Rightarrow> (Fault, s)
   | Some x \<Rightarrow> if rf_bound x then (Fault, s) else (Ok (), s\<lparr>reg_fns := filter (\<lambda>x. rf_id x \<noteq> f) (reg_fns s)\<rparr>))"

subsection \<open>Creating and deleting functions\<close>

text \<open>
  The error paths put the one reference of the new function; \<open>undo\<close> is the part of a path before that.
  A name without a zero is read beyond its end when the work queue is named after it.
\<close>

definition fail_new :: "reg_env \<Rightarrow> nat \<Rightarrow> int res \<Rightarrow> registry \<Rightarrow> int res \<times> registry" where
  "fail_new env f r s = bindS (reg_free env f s) (\<lambda>_ s. (r, s))"

definition release_new :: "reg_env \<Rightarrow> nat \<Rightarrow> registry \<Rightarrow> int res \<times> registry" where
  "release_new env f s = bindS (ffs_release_dev f s) (\<lambda>_ s. fail_new env f (Err EBUSY) s)"

definition newfn_chrdev :: "reg_env \<Rightarrow> nat \<Rightarrow> registry \<Rightarrow> int res \<times> registry" where
  "newfn_chrdev env f s = (case region env of
     None \<Rightarrow> release_new env f s
   | Some r \<Rightarrow>
       let s = upd_fn f (\<lambda>x. x\<lparr>rf_region := Some r\<rparr>) (s\<lparr>reg_region := Some r, reg_regions := reg_regions s @ [r]\<rparr>)
       in if cdev_ret env \<noteq> 0 then release_new env f s
          else let s = upd_fn f (\<lambda>x. x\<lparr>rf_cdev := True\<rparr>) s
            in if \<not> node_ok env then release_new env f (upd_fn f (\<lambda>x. x\<lparr>rf_cdev := False\<rparr>) s)
               else (Ok 0, upd_fn f (\<lambda>x. x\<lparr>rf_node := True\<rparr>) s))"

definition usbfn_newfn :: "reg_env \<Rightarrow> func_new \<Rightarrow> registry \<Rightarrow> int res \<times> registry" where
  "usbfn_newfn env nf s =
     (if \<not> func_copy_ok env then (Err EFAULT, s)
      else if \<not> fn_alloc_ok env then (Err ENOMEM, s)
      else if 0 \<notin> set (nf_name nf) then (Fault, s)
      else if \<not> fn_wq_ok env then (Err ENOMEM, s)
      else let f = reg_next s;
               name = c_string (take (unat (nf_len nf)) (nf_name nf));
               s = s\<lparr>reg_fns := reg_fns s @ [\<lparr>rf_id = f, rf_name = name, rf_dev = None, rf_region = None,
                       rf_cdev = False, rf_node = False, rf_bound = False\<rparr>], reg_next := f + 1\<rparr>
        in if name_copy_ret env \<noteq> 0 then fail_new env f (Ok (name_copy_ret env)) s
           else if length name + 4 \<ge> MAX_NAMELEN then fail_new env f (Err EFAULT) s
           else case ffs_acquire_dev (c_string (nf_name nf)) s of
                  (Ok i, s) \<Rightarrow> newfn_chrdev env f (upd_fn f (\<lambda>x. x\<lparr>rf_dev := Some i\<rparr>) s)
                | (Err e, s) \<Rightarrow> fail_new env f (Err ENODEV) s
                | (Fault, s) \<Rightarrow> (Fault, s))"

text \<open>
  The device that is found is used without asking whether one was found and whether it has a function.
  The region that is given back is the one in \<open>g_dev\<close>.
\<close>

definition usbfn_delfn :: "reg_env \<Rightarrow> func_new \<Rightarrow> registry \<Rightarrow> int res \<times> registry" where
  "usbfn_delfn env nf s =
     (if \<not> func_copy_ok env then (Err EFAULT, s)
      else case ffs_find_dev (c_string (nf_name nf)) s of
        None \<Rightarrow> (Fault, s)
      | Some d \<Rightarrow> (case rd_data d of
          None \<Rightarrow> (Fault, s)
        | Some f \<Rightarrow>
            if fn_at f s = None then (Fault, s)
            else let s = upd_fn f (\<lambda>x. x\<lparr>rf_node := False, rf_cdev := False\<rparr>) s;
                     s = s\<lparr>reg_regions := (case reg_region s of None \<Rightarrow> reg_regions s | Some r \<Rightarrow> remove1 r (reg_regions s))\<rparr>
              in bindS (ffs_release_dev f s) (\<lambda>_ s. bindS (reg_free env f s) (\<lambda>_ s. (Ok 0, s)))))"

datatype usbfn_cmd = FUNCTIONFS_NEWFN func_new | FUNCTIONFS_DELFN func_new | USBFN_OTHER

definition usbfn_ioctl :: "reg_env \<Rightarrow> usbfn_cmd \<Rightarrow> registry \<Rightarrow> int res \<times> registry" where
  "usbfn_ioctl env cmd s = (case cmd of
     FUNCTIONFS_NEWFN nf \<Rightarrow> usbfn_newfn env nf s
   | FUNCTIONFS_DELFN nf \<Rightarrow> usbfn_delfn env nf s
   | USBFN_OTHER \<Rightarrow> (Err (E_CODE (- 25)), s))"

end
