(* ===== verification/Ffs_Registry_Inv.thy ===== *)
theory Ffs_Registry_Inv
  imports Ffs_Registry
begin

section \<open>Generic USB function: what the registry keeps\<close>

text \<open>
  Devices and functions as maps, and the invariant of the links between them (\<open>links\<close>): a pointer leads
  to a live object and back. Each kind of change has a lemma on the maps; the operations are compositions
  of these. Then the steps of any run.
\<close>

subsection \<open>Devices and functions as maps\<close>

lemma find_map_id:
  "(\<And>d. key (f d) = key d) \<Longrightarrow>
   find (\<lambda>d. key d = j) (map (\<lambda>d. if key d = i then f d else d) ds) =
     (if j = i then map_option f (find (\<lambda>d. key d = j) ds) else find (\<lambda>d. key d = j) ds)"
  by (induction ds) auto

lemma find_filter_id: "find (\<lambda>d. key d = j) (filter (\<lambda>d. key d \<noteq> i) ds) = (if j = i then None else find (\<lambda>d. key d = j) ds)"
  by (induction ds) auto

lemma map_upd_id: "(\<And>d. key (f d) = key d) \<Longrightarrow> map key (map (\<lambda>d. if key d = i then f d else d) ds) = map key ds"
  by (induction ds) auto

lemma upd_dev_at:
  "(\<And>d. rd_id (f d) = rd_id d) \<Longrightarrow> dev_at j (upd_dev i f s) = (if j = i then map_option f (dev_at j s) else dev_at j s)"
  by (simp add: dev_at_def upd_dev_def find_map_id)

lemma upd_fn_at:
  "(\<And>x. rf_id (f x) = rf_id x) \<Longrightarrow> fn_at j (upd_fn i f s) = (if j = i then map_option f (fn_at j s) else fn_at j s)"
  by (simp add: fn_at_def upd_fn_def find_map_id)

lemma upd_other [simp]:
  "fn_at j (upd_dev i f s) = fn_at j s" "dev_at j (upd_fn i g s) = dev_at j s"
  "reg_fns (upd_dev i f s) = reg_fns s" "reg_devs (upd_fn i g s) = reg_devs s" "length (reg_devs (upd_dev i f s)) = length (reg_devs s)"
  "reg_next (upd_dev i f s) = reg_next s" "reg_next (upd_fn i g s) = reg_next s" "class_on (upd_dev i f s) = class_on s"
  "class_on (upd_fn i g s) = class_on s" "reg_devs (upd_dev i f s) = [] \<longleftrightarrow> reg_devs s = []"
  "reg_region (upd_dev i f s) = reg_region s" "reg_region (upd_fn i g s) = reg_region s"
  "reg_regions (upd_dev i f s) = reg_regions s" "reg_regions (upd_fn i g s) = reg_regions s"
  by (simp_all add: fn_at_def dev_at_def upd_dev_def upd_fn_def)

lemma upd_ids:
  "(\<And>d. rd_id (f d) = rd_id d) \<Longrightarrow> map rd_id (reg_devs (upd_dev i f s)) = map rd_id (reg_devs s)"
  "(\<And>x. rf_id (g x) = rf_id x) \<Longrightarrow> map rf_id (reg_fns (upd_fn i g s)) = map rf_id (reg_fns s)"
  by (simp_all add: upd_dev_def upd_fn_def map_upd_id del: map_map)

lemma at_ids: "dev_at i s = Some d \<Longrightarrow> rd_id d = i" "fn_at f s = Some x \<Longrightarrow> rf_id x = f"
  by (auto simp: dev_at_def fn_at_def find_Some_iff)

lemma at_other [simp]:
  "dev_at i (s\<lparr>reg_fns := a\<rparr>) = dev_at i s" "fn_at i (s\<lparr>reg_devs := b\<rparr>) = fn_at i s"
  "dev_at i (s\<lparr>reg_region := c\<rparr>) = dev_at i s" "fn_at i (s\<lparr>reg_region := c\<rparr>) = fn_at i s"
  "dev_at i (s\<lparr>reg_regions := e\<rparr>) = dev_at i s" "fn_at i (s\<lparr>reg_regions := e\<rparr>) = fn_at i s"
  "dev_at i (s\<lparr>reg_next := n\<rparr>) = dev_at i s" "fn_at i (s\<lparr>reg_next := n\<rparr>) = fn_at i s"
  "dev_at i (s\<lparr>class_on := g\<rparr>) = dev_at i s" "fn_at i (s\<lparr>class_on := g\<rparr>) = fn_at i s"
  "dev_at i (s\<lparr>misc_on := h\<rparr>) = dev_at i s" "fn_at i (s\<lparr>misc_on := h\<rparr>) = fn_at i s"
  by (simp_all add: dev_at_def fn_at_def)

lemma find_in: "distinct (map key ds) \<Longrightarrow> d \<in> set ds \<Longrightarrow> find (\<lambda>e. key e = key d) ds = Some d"
  by (induction ds) auto

lemma find_none_iff: "find (\<lambda>e. key e = i) ds = None \<longleftrightarrow> i \<notin> key ` set ds"
  by (auto simp: find_None_iff)

lemma dev_at_in: "distinct (map rd_id (reg_devs s)) \<Longrightarrow> d \<in> set (reg_devs s) \<Longrightarrow> dev_at (rd_id d) s = Some d"
  by (simp add: dev_at_def find_in)

subsection \<open>A registry in order\<close>

text \<open>
  Pointers lead to live objects and back; names that are set are different; a single device is the only
  one; the class exists while there are devices.
\<close>

definition links :: "(nat \<Rightarrow> nat option) \<Rightarrow> (nat \<Rightarrow> reg_dev option) \<Rightarrow> bool" where
  "links m D \<longleftrightarrow>
     (\<forall>f i. m f = Some i \<longrightarrow> (\<exists>d. D i = Some d \<and> rd_mounted d))
   \<and> (\<forall>f g i. m f = Some i \<longrightarrow> m g = Some i \<longrightarrow> f = g)
   \<and> (\<forall>i d. D i = Some d \<longrightarrow> rd_mounted d \<longrightarrow> (\<exists>f. m f = Some i))
   \<and> (\<forall>i d. D i = Some d \<longrightarrow> (rd_ready d \<longleftrightarrow> rd_data d \<noteq> None))
   \<and> (\<forall>i d f. D i = Some d \<longrightarrow> rd_data d = Some f \<longrightarrow> m f = Some i)"

definition fn_dev :: "registry \<Rightarrow> nat \<Rightarrow> nat option" where
  "fn_dev s f = Option.bind (fn_at f s) rf_dev"

definition devs_of :: "registry \<Rightarrow> nat \<Rightarrow> reg_dev option" where
  "devs_of s i = dev_at i s"

definition links_ok :: "registry \<Rightarrow> bool" where
  "links_ok s \<longleftrightarrow> links (fn_dev s) (devs_of s)"

definition dev_names_ok :: "registry \<Rightarrow> bool" where
  "dev_names_ok s \<longleftrightarrow> (\<forall>i j d e. dev_at i s = Some d \<longrightarrow> dev_at j s = Some e \<longrightarrow> rd_name d \<noteq> [] \<longrightarrow> rd_name d = rd_name e \<longrightarrow> i = j)
   \<and> (\<forall>i d. dev_at i s = Some d \<longrightarrow> length (rd_name d) < MAX_NAMELEN)
   \<and> (\<forall>i d. dev_at i s = Some d \<longrightarrow> rd_single d \<longrightarrow> length (reg_devs s) = 1)"

definition ids_ok :: "registry \<Rightarrow> bool" where
  "ids_ok s \<longleftrightarrow> distinct (map rd_id (reg_devs s)) \<and> distinct (map rf_id (reg_fns s))
   \<and> (\<forall>i d. dev_at i s = Some d \<longrightarrow> i < reg_next s) \<and> (\<forall>f x. fn_at f s = Some x \<longrightarrow> f < reg_next s)
   \<and> (reg_devs s \<noteq> [] \<longrightarrow> class_on s)"

definition reg_ok :: "registry \<Rightarrow> bool" where
  "reg_ok s \<longleftrightarrow> ids_ok s \<and> dev_names_ok s \<and> links_ok s"

lemma do_find_in: "ffs_do_find_dev name s = Some d \<Longrightarrow> d \<in> set (reg_devs s) \<and> rd_name d = name"
  by (auto simp: ffs_do_find_dev_def find_Some_iff)

lemma single_in: "ffs_get_single_dev s = Some d \<Longrightarrow> reg_devs s = [d] \<and> rd_single d"
  by (auto simp: ffs_get_single_dev_def split: list.splits if_splits)

lemma find_dev_in: "ffs_find_dev name s = Some d \<Longrightarrow> d \<in> set (reg_devs s)"
  by (auto simp: ffs_find_dev_def dest: do_find_in single_in split: option.splits)

lemma find_dev_at: "ids_ok s \<Longrightarrow> ffs_find_dev name s = Some d \<Longrightarrow> dev_at (rd_id d) s = Some d"
  by (simp add: ids_ok_def dev_at_in find_dev_in)

subsection \<open>The links through each kind of change\<close>

lemma linksD:
  assumes "links m D"
  shows "m f = Some i \<Longrightarrow> \<exists>d. D i = Some d \<and> rd_mounted d" "m f = Some i \<Longrightarrow> m g = Some i \<Longrightarrow> f = g"
    "D i = Some d \<Longrightarrow> rd_mounted d \<Longrightarrow> \<exists>f. m f = Some i" "D i = Some d \<Longrightarrow> rd_ready d \<longleftrightarrow> rd_data d \<noteq> None"
    "D i = Some d \<Longrightarrow> rd_data d = Some f \<Longrightarrow> m f = Some i"
  using assms unfolding links_def by blast+

lemma linksI:
  assumes "\<And>f i. m f = Some i \<Longrightarrow> \<exists>d. D i = Some d \<and> rd_mounted d" "\<And>f g i. m f = Some i \<Longrightarrow> m g = Some i \<Longrightarrow> f = g"
    "\<And>i d. D i = Some d \<Longrightarrow> rd_mounted d \<Longrightarrow> \<exists>f. m f = Some i" "\<And>i d. D i = Some d \<Longrightarrow> rd_ready d \<longleftrightarrow> rd_data d \<noteq> None"
    "\<And>i d f. D i = Some d \<Longrightarrow> rd_data d = Some f \<Longrightarrow> m f = Some i"
  shows "links m D"
  using assms unfolding links_def by blast

text \<open>Changing a device that keeps its function, or its lack of one.\<close>

lemma links_dev:
  assumes L: "links m D" and d: "D i = Some d \<or> (D i = None \<and> \<not> rd_mounted d)"
    and e: "rd_mounted e = rd_mounted d" "rd_ready e \<longleftrightarrow> rd_data e \<noteq> None" "\<And>f. rd_data e = Some f \<Longrightarrow> m f = Some i"
  shows "links m (D(i \<mapsto> e))"
proof (rule linksI)
  fix f j assume m: "m f = Some j"
  show "\<exists>d. (D(i \<mapsto> e)) j = Some d \<and> rd_mounted d" using linksD(1) [OF L m] d e(1) by (cases "j = i") auto
next
  fix j x assume "(D(i \<mapsto> e)) j = Some x" "rd_mounted x"
  then show "\<exists>f. m f = Some j" using linksD(3) [OF L, of j] d e(1) by (cases "j = i") auto
next
  fix j x f assume x: "(D(i \<mapsto> e)) j = Some x"
  then show "rd_ready x \<longleftrightarrow> rd_data x \<noteq> None" using linksD(4) [OF L, of j x] e(2) by (cases "j = i") auto
  show "rd_data x = Some f \<Longrightarrow> m f = Some j" using x linksD(5) [OF L, of j x] e(3) by (cases "j = i") auto
qed (rule linksD(2) [OF L])

lemma links_new: "links m D \<Longrightarrow> D i = None \<Longrightarrow> links m (D(i \<mapsto> new_dev i))"
  by (rule links_dev [where d = "new_dev i"]) (simp_all add: new_dev_def)

lemma links_ready: "links m D \<Longrightarrow> m f = Some i \<Longrightarrow> D i = Some d \<Longrightarrow> links m (D(i \<mapsto> d\<lparr>rd_ready := True, rd_data := Some f\<rparr>))"
  by (rule links_dev [where d = d]) auto

lemma links_closed: "links m D \<Longrightarrow> D i = Some d \<Longrightarrow> links m (D(i \<mapsto> d\<lparr>rd_ready := False, rd_data := None\<rparr>))"
  by (rule links_dev [where d = d]) auto

lemma links_drop: "links m D \<Longrightarrow> D i = Some d \<Longrightarrow> rd_data d = None \<Longrightarrow> \<not> rd_mounted d \<Longrightarrow> links m (D(i := None))"
  by (rule linksI) (auto dest: linksD split: if_splits)

text \<open>A function and its device part.\<close>

lemma links_part:
  assumes L: "links m D" and f: "m f = Some i" and e: "\<And>x. e = Some x \<Longrightarrow> \<not> rd_mounted x \<and> \<not> rd_ready x \<and> rd_data x = None"
  shows "links (m(f := None)) (D(i := e))"
proof (rule linksI)
  fix g j assume "(m(f := None)) g = Some j"
  then have g: "m g = Some j" "g \<noteq> f" by (auto split: if_splits)
  then have "j \<noteq> i" using linksD(2) [OF L f] by blast
  then show "\<exists>d. (D(i := e)) j = Some d \<and> rd_mounted d" using linksD(1) [OF L g(1)] by simp
next
  fix g h j assume "(m(f := None)) g = Some j" "(m(f := None)) h = Some j"
  then show "g = h" using linksD(2) [OF L] by (auto split: if_splits)
next
  fix j x assume x: "(D(i := e)) j = Some x" "rd_mounted x"
  then have j: "j \<noteq> i" "D j = Some x" using e by (auto split: if_splits)
  then obtain g where "m g = Some j" using linksD(3) [OF L _ x(2)] by blast
  moreover have "g \<noteq> f" using calculation j(1) f by auto
  ultimately show "\<exists>g. (m(f := None)) g = Some j" by (intro exI [of _ g]) simp
next
  fix j x g assume x: "(D(i := e)) j = Some x"
  then show "rd_ready x \<longleftrightarrow> rd_data x \<noteq> None" using e linksD(4) [OF L, of j x] by (cases "j = i") auto
  assume data: "rd_data x = Some g"
  then have j: "j \<noteq> i" "D j = Some x" using e x by (auto split: if_splits)
  then have "m g = Some j" using linksD(5) [OF L _ data] by blast
  then show "(m(f := None)) g = Some j" using f j(1) by auto
qed

lemma links_link:
  assumes L: "links m D" and f: "m f = None" and d: "D i = Some d" "\<not> rd_mounted d"
  shows "links (m(f \<mapsto> i)) (D(i \<mapsto> d\<lparr>rd_mounted := True\<rparr>))"
proof -
  have no: "m g \<noteq> Some i" for g using linksD(1) [OF L, of g i] d by auto
  have data: "rd_data d = None" using linksD(5) [OF L d(1)] no by (cases "rd_data d") auto
  have ready: "\<not> rd_ready d" using linksD(4) [OF L d(1)] data by simp
  show ?thesis
  proof (rule linksI)
    fix g j assume "(m(f \<mapsto> i)) g = Some j"
    then show "\<exists>x. (D(i \<mapsto> d\<lparr>rd_mounted := True\<rparr>)) j = Some x \<and> rd_mounted x"
      using linksD(1) [OF L, of g j] by (cases "j = i") (auto split: if_splits)
  next
    fix g h j assume "(m(f \<mapsto> i)) g = Some j" "(m(f \<mapsto> i)) h = Some j"
    then show "g = h" using no linksD(2) [OF L] by (auto split: if_splits)
  next
    fix j x assume x: "(D(i \<mapsto> d\<lparr>rd_mounted := True\<rparr>)) j = Some x"
    then show "rd_ready x \<longleftrightarrow> rd_data x \<noteq> None" using data ready linksD(4) [OF L, of j x] by (cases "j = i") auto
    show "rd_data x = Some g \<Longrightarrow> (m(f \<mapsto> i)) g = Some j" for g
      using x data f linksD(5) [OF L, of j x g] by (cases "j = i") auto
    assume mounted: "rd_mounted x"
    show "\<exists>g. (m(f \<mapsto> i)) g = Some j"
    proof (cases "j = i")
      case False
      then obtain g where "m g = Some j" using x linksD(3) [OF L _ mounted] by auto
      then show ?thesis using f by (intro exI [of _ g]) auto
    qed auto
  qed
qed

subsection \<open>Devices come and go\<close>

lemma new_dev_fields [simp]:
  "rd_id (new_dev i) = i" "rd_name (new_dev i) = []" "\<not> rd_single (new_dev i)" "\<not> rd_mounted (new_dev i)"
  "\<not> rd_ready (new_dev i)" "rd_data (new_dev i) = None"
  by (simp_all add: new_dev_def)

lemma new_dev_at [simp]: "dev_at j (s\<lparr>reg_devs := new_dev i # reg_devs s\<rparr>) = (if j = i then Some (new_dev i) else dev_at j s)"
  by (simp add: dev_at_def)

lemma next_free:
  assumes "ids_ok s" shows "dev_at (reg_next s) s = None" "fn_at (reg_next s) s = None"
  using assms unfolding ids_ok_def by (meson less_irrefl not_None_eq)+

lemma not_single: "ffs_get_single_dev s = None \<Longrightarrow> dev_names_ok s \<Longrightarrow> dev_at i s = Some d \<Longrightarrow> \<not> rd_single d"
proof
  assume none: "ffs_get_single_dev s = None" "dev_names_ok s" "dev_at i s = Some d" "rd_single d"
  then have "length (reg_devs s) = 1" by (auto simp: dev_names_ok_def)
  then obtain e where "reg_devs s = [e]" by (auto simp: length_Suc_conv)
  then show False using none by (auto simp: ffs_get_single_dev_def dev_at_def split: if_splits)
qed

lemma drop_dev_at: "dev_at j (s\<lparr>reg_devs := filter (\<lambda>d. rd_id d \<noteq> i) (reg_devs s)\<rparr>) = (if j = i then None else dev_at j s)"
  by (simp add: dev_at_def find_filter_id)

lemma drop_fn_at: "fn_at j (s\<lparr>reg_fns := filter (\<lambda>x. rf_id x \<noteq> f) (reg_fns s)\<rparr>) = (if j = f then None else fn_at j s)"
  by (simp add: fn_at_def find_filter_id)

lemma maps_other [simp]:
  "devs_of (upd_fn j g s) = devs_of s" "fn_dev (upd_dev i f s) = fn_dev s"
  "devs_of (s\<lparr>reg_fns := a\<rparr>) = devs_of s" "fn_dev (s\<lparr>reg_devs := b\<rparr>) = fn_dev s"
  "devs_of (s\<lparr>reg_region := c\<rparr>) = devs_of s" "fn_dev (s\<lparr>reg_region := c\<rparr>) = fn_dev s"
  "devs_of (s\<lparr>reg_regions := e\<rparr>) = devs_of s" "fn_dev (s\<lparr>reg_regions := e\<rparr>) = fn_dev s"
  "devs_of (s\<lparr>reg_next := n\<rparr>) = devs_of s" "fn_dev (s\<lparr>reg_next := n\<rparr>) = fn_dev s"
  "devs_of (s\<lparr>class_on := k\<rparr>) = devs_of s" "fn_dev (s\<lparr>class_on := k\<rparr>) = fn_dev s"
  "devs_of (s\<lparr>misc_on := h\<rparr>) = devs_of s" "fn_dev (s\<lparr>misc_on := h\<rparr>) = fn_dev s"
  by (simp_all add: devs_of_def fn_dev_def fun_eq_iff)

lemma maps_upd:
  "(\<And>d. rd_id (f d) = rd_id d) \<Longrightarrow> dev_at i s = Some d \<Longrightarrow> devs_of (upd_dev i f s) = (devs_of s)(i \<mapsto> f d)"
  "(\<And>x. rf_id (g x) = rf_id x) \<Longrightarrow> fn_at j s = Some x \<Longrightarrow> fn_dev (upd_fn j g s) = (fn_dev s)(j := rf_dev (g x))"
  by (auto simp: devs_of_def fn_dev_def fun_eq_iff upd_dev_at upd_fn_at)

lemma maps_drop:
  "devs_of (s\<lparr>reg_devs := filter (\<lambda>d. rd_id d \<noteq> i) (reg_devs s)\<rparr>) = (devs_of s)(i := None)"
  "fn_dev (s\<lparr>reg_fns := filter (\<lambda>x. rf_id x \<noteq> f) (reg_fns s)\<rparr>) = (fn_dev s)(f := None)"
  by (auto simp: devs_of_def fn_dev_def fun_eq_iff drop_dev_at drop_fn_at)

lemma fn_dev_Some: "fn_dev s f = Some i \<longleftrightarrow> (\<exists>x. fn_at f s = Some x \<and> rf_dev x = Some i)"
  by (cases "fn_at f s") (auto simp: fn_dev_def)

lemma distinct_map_filter_id: "distinct (map key ds) \<Longrightarrow> distinct (map key (filter P ds))"
  by (induction ds) auto

lemma dev_at_member: "dev_at i s = Some d \<Longrightarrow> d \<in> set (reg_devs s) \<and> rd_id d = i"
  by (auto simp: dev_at_def find_Some_iff)

text \<open>Numbers and names through each kind of change.\<close>

lemma ids_changes:
  "ids_ok s \<Longrightarrow> (\<And>d. rd_id (f d) = rd_id d) \<Longrightarrow> ids_ok (upd_dev i f s)"
  "ids_ok s \<Longrightarrow> (\<And>x. rf_id (g x) = rf_id x) \<Longrightarrow> ids_ok (upd_fn j g s)"
  "ids_ok s \<Longrightarrow> ids_ok (s\<lparr>reg_devs := filter (\<lambda>d. rd_id d \<noteq> i) (reg_devs s)\<rparr>)"
  "ids_ok s \<Longrightarrow> ids_ok (s\<lparr>reg_fns := filter (\<lambda>x. rf_id x \<noteq> j) (reg_fns s)\<rparr>)"
  using upd_ids(1) [of f i s] upd_ids(2) [of g j s]
  by (auto simp: ids_ok_def upd_dev_at upd_fn_at drop_dev_at drop_fn_at distinct_map_filter_id split: if_splits)

lemma names_upd_dev: "dev_names_ok s \<Longrightarrow> (\<And>d. rd_id (f d) = rd_id d \<and> rd_name (f d) = rd_name d \<and> rd_single (f d) = rd_single d) \<Longrightarrow> dev_names_ok (upd_dev i f s)"
  unfolding dev_names_ok_def by (auto simp: upd_dev_at split: if_splits)

lemma names_other [simp]: "dev_names_ok (upd_fn j g s) = dev_names_ok s" "dev_names_ok (s\<lparr>reg_fns := xs\<rparr>) = dev_names_ok s"
  by (simp_all add: dev_names_ok_def)

lemma single_alone:
  assumes "dev_names_ok s" and d: "dev_at j s = Some d" and "rd_single d"
  shows "reg_devs s = [d]"
proof -
  have "length (reg_devs s) = 1" using assms by (auto simp: dev_names_ok_def)
  then show ?thesis using dev_at_member [OF d] by (auto simp: length_Suc_conv)
qed

lemma names_drop_dev:
  assumes s: "dev_names_ok s"
  shows "dev_names_ok (s\<lparr>reg_devs := filter (\<lambda>d. rd_id d \<noteq> i) (reg_devs s)\<rparr>)"
proof -
  have "length (filter (\<lambda>d. rd_id d \<noteq> i) (reg_devs s)) = 1" if "dev_at j s = Some d" "rd_single d" "j \<noteq> i" for j d
    using single_alone [OF s that(1,2)] dev_at_member [OF that(1)] that(3) by simp
  then show ?thesis using s unfolding dev_names_ok_def by (auto simp: drop_dev_at split: if_splits)
qed

subsection \<open>Every operation on devices keeps the registry in order\<close>

abbreviation keeps_ok :: "'a res \<times> registry \<Rightarrow> bool" where
  "keeps_ok p \<equiv> post p (\<lambda>_. reg_ok) (\<lambda>_. reg_ok)"

lemma reg_okD: "reg_ok s \<Longrightarrow> ids_ok s" "reg_ok s \<Longrightarrow> dev_names_ok s" "reg_ok s \<Longrightarrow> links (fn_dev s) (devs_of s)"
  by (simp_all add: reg_ok_def links_ok_def)

lemma reg_ok_empty: "reg_ok s \<Longrightarrow> reg_devs s = [] \<Longrightarrow> reg_ok (s\<lparr>class_on := c\<rparr>) \<and> reg_ok (s\<lparr>misc_on := m\<rparr>) \<and> reg_ok (s\<lparr>misc_on := m, class_on := c\<rparr>)"
  by (auto simp: reg_ok_def ids_ok_def dev_names_ok_def links_ok_def)

lemma reg_ok_cleanup: "reg_ok s \<Longrightarrow> reg_devs s = [] \<Longrightarrow> reg_ok (functionfs_cleanup s)"
  by (auto simp: reg_ok_def ids_ok_def dev_names_ok_def links_ok_def functionfs_cleanup_def)

lemma alloc_inst_ok:
  assumes s: "reg_ok s"
  shows "keeps_ok (ffs_alloc_inst env s)"
proof -
  have add: "reg_ok (t\<lparr>reg_devs := new_dev (reg_next t) # reg_devs t, reg_next := reg_next t + 1\<rparr>)" (is "reg_ok ?u")
    if t: "reg_ok t" "ffs_get_single_dev t = None" "class_on t" for t
  proof -
    have free: "dev_at (reg_next t) t = None" by (rule next_free(1) [OF reg_okD(1) [OF t(1)]])
    then have new: "reg_next t \<notin> rd_id ` set (reg_devs t)" by (simp add: dev_at_def find_none_iff)
    have at: "dev_at j ?u = (if j = reg_next t then Some (new_dev (reg_next t)) else dev_at j t)" for j by simp
    have "ids_ok ?u" using t new reg_okD(1) [OF t(1)] by (auto simp: ids_ok_def at less_Suc_eq)
    moreover have "dev_names_ok ?u"
      using reg_okD(2) [OF t(1)] not_single [OF t(2) reg_okD(2) [OF t(1)]] by (auto simp: dev_names_ok_def at)
    moreover have "devs_of ?u = (devs_of t)(reg_next t \<mapsto> new_dev (reg_next t))" by (simp add: devs_of_def fun_eq_iff)
    then have "links_ok ?u"
      using links_new [OF reg_okD(3) [OF t(1)]] free by (simp add: links_ok_def devs_of_def)
    ultimately show ?thesis by (simp add: reg_ok_def)
  qed
  have cls: "class_on s" if "reg_devs s \<noteq> []" using s that by (simp add: reg_ok_def ids_ok_def)
  show ?thesis
    using s cls add [of s] reg_ok_empty [OF s] add [of "s\<lparr>class_on := True\<rparr>"] add [of "s\<lparr>misc_on := True, class_on := True\<rparr>"]
    by (auto simp: ffs_alloc_inst_def ffs_alloc_dev_def functionfs_init_def Let_def ffs_get_single_dev_def split: option.split)
qed

text \<open>Fields that nothing depends on, and names.\<close>

lemma reg_ok_upd_fn:
  assumes s: "reg_ok s" and "\<And>x. rf_id (g x) = rf_id x" and "\<And>x. rf_dev (g x) = rf_dev x"
  shows "reg_ok (upd_fn f g s)"
proof -
  have "fn_dev (upd_fn f g s) = fn_dev s"
    using assms(2,3) by (cases "fn_at f s") (auto simp: fn_dev_def fun_eq_iff upd_fn_at)
  then show ?thesis using s assms(2) by (simp add: reg_ok_def links_ok_def ids_changes)
qed

lemma reg_ok_upd_dev:
  assumes s: "reg_ok s" and f: "\<And>d. rd_id (f d) = rd_id d"
    and same: "\<And>d. rd_mounted (f d) = rd_mounted d \<and> rd_ready (f d) = rd_ready d \<and> rd_data (f d) = rd_data d"
    and names: "dev_names_ok (upd_dev i f s)"
  shows "reg_ok (upd_dev i f s)"
proof -
  have "links (fn_dev s) (devs_of (upd_dev i f s))"
  proof (cases "dev_at i s")
    case None
    then have "devs_of (upd_dev i f s) = devs_of s" by (auto simp: devs_of_def upd_dev_at f)
    then show ?thesis using reg_okD(3) [OF s] by simp
  next
    case (Some d)
    then have d: "devs_of s i = Some d" by (simp add: devs_of_def)
    note L = reg_okD(3) [OF s]
    have "links (fn_dev s) ((devs_of s)(i \<mapsto> f d))"
    proof (rule links_dev [OF L])
      show "rd_ready (f d) = (rd_data (f d) \<noteq> None)" using linksD(4) [OF L d] same by simp
      show "rd_data (f d) = Some g \<Longrightarrow> fn_dev s g = Some i" for g using linksD(5) [OF L d] same by simp
    qed (use d same in auto)
    then show ?thesis using maps_upd(1) [OF f Some] by simp
  qed
  then show ?thesis using s f names by (simp add: reg_ok_def links_ok_def ids_changes)
qed

lemma set_name_ok:
  assumes s: "reg_ok s"
  shows "keeps_ok (ffs_set_inst_name i name s)"
proof -
  let ?n = "FUNCTION_GENERIC @ [46] @ name"
  have "dev_names_ok (upd_dev i (\<lambda>d. d\<lparr>rd_name := ?n\<rparr>) s)" if none: "ffs_do_find_dev ?n s = None" and len: "length ?n < MAX_NAMELEN"
  proof -
    have new: "rd_name d \<noteq> ?n" if "dev_at j s = Some d" for j d
      using none that by (auto simp: ffs_do_find_dev_def find_None_iff dev_at_def find_Some_iff)
    show ?thesis
      using s len new unfolding reg_ok_def dev_names_ok_def
      by (auto simp: upd_dev_at split: if_splits) blast+
  qed
  then show ?thesis
    using s by (auto simp: ffs_set_inst_name_def ffs_name_dev_adapter_def Let_def intro!: reg_ok_upd_dev split: option.split)
qed

lemma single_ok:
  assumes s: "reg_ok s"
  shows "keeps_ok (ffs_single_dev_adapter i s)"
proof -
  have "reg_ok (upd_dev i (\<lambda>d. d\<lparr>rd_single := True\<rparr>) s)" if "length (reg_devs s) = 1"
    by (rule reg_ok_upd_dev [OF s]) (use s that in \<open>auto simp: reg_ok_def dev_names_ok_def upd_dev_at split: if_splits\<close>)
  then show ?thesis using s by (simp add: ffs_single_dev_adapter_def)
qed

text \<open>A device that has a function must have a ready one, or the function keeps a pointer to the freed device.\<close>

definition may_free :: "nat \<Rightarrow> registry \<Rightarrow> bool" where
  "may_free i s \<longleftrightarrow> (\<exists>d. dev_at i s = Some d \<and> (rd_mounted d \<longrightarrow> rd_data d \<noteq> None))"

lemma free_inst_ok:
  assumes s: "reg_ok s" and i: "may_free i s"
  shows "keeps_ok (ffs_free_inst i s)"
proof -
  obtain d where d: "dev_at i s = Some d" "rd_mounted d \<longrightarrow> rd_data d \<noteq> None" using i by (auto simp: may_free_def)
  have L: "links (fn_dev s) (devs_of s)" "devs_of s i = Some d" using s d(1) by (simp_all add: reg_okD devs_of_def)
  let ?drop = "\<lambda>s. s\<lparr>reg_devs := filter (\<lambda>d. rd_id d \<noteq> i) (reg_devs s)\<rparr>"
  have fin: "keeps_ok (Ok (), if reg_devs (?drop t) = [] then functionfs_cleanup (?drop t) else ?drop t)"
    if "ids_ok t" "dev_names_ok t" "links (fn_dev t) ((devs_of t)(i := None))" for t
  proof -
    have "reg_ok (?drop t)" unfolding reg_ok_def links_ok_def using that by (simp add: ids_changes names_drop_dev maps_drop)
    then show ?thesis using reg_ok_cleanup [of "?drop t"] by simp
  qed
  show ?thesis
  proof (cases "rd_data d")
    case None
    then have "links (fn_dev s) ((devs_of s)(i := None))" using L d(2) by (intro links_drop) auto
    from fin [OF reg_okD(1,2) [OF s] this] show ?thesis using d(1) None by (simp add: ffs_free_inst_def ffs_free_dev_def Let_def)
  next
    case (Some f)
    have f: "fn_dev s f = Some i" by (rule linksD(5) [OF L Some])
    then obtain x where x: "fn_at f s = Some x" by (auto simp: fn_dev_Some)
    let ?t = "upd_fn f (\<lambda>x. x\<lparr>rf_dev := None\<rparr>) s"
    have "fn_dev ?t = (fn_dev s)(f := None)" using maps_upd(2) [OF _ x, of "\<lambda>x. x\<lparr>rf_dev := None\<rparr>"] by simp
    moreover have "links ((fn_dev s)(f := None)) ((devs_of s)(i := None))" by (rule links_part [OF L(1) f]) simp
    ultimately have "keeps_ok (Ok (), if reg_devs (?drop ?t) = [] then functionfs_cleanup (?drop ?t) else ?drop ?t)"
      using s by (intro fin) (simp_all add: reg_okD ids_changes)
    then show ?thesis using d(1) Some x by (simp add: ffs_free_inst_def ffs_free_dev_def Let_def)
  qed
qed

subsection \<open>Functions\<close>

lemma with_dev_at:
  assumes "reg_ok s" and x: "fn_at f s = Some x"
  shows "with_dev f without g s = (case rf_dev x of None \<Rightarrow> (without, s) | Some i \<Rightarrow> g x (the (dev_at i s)) s)
    \<and> (\<forall>i. rf_dev x = Some i \<longrightarrow> (\<exists>d. dev_at i s = Some d \<and> rd_id d = i \<and> rd_mounted d))"
proof -
  have "\<exists>d. dev_at i s = Some d \<and> rd_id d = i \<and> rd_mounted d" if "rf_dev x = Some i" for i
  proof -
    have "fn_dev s f = Some i" using x that by (simp add: fn_dev_Some)
    from linksD(1) [OF reg_okD(3) [OF assms(1)] this] obtain d where "dev_at i s = Some d" "rd_mounted d" by (auto simp: devs_of_def)
    then show ?thesis using at_ids by blast
  qed
  then show ?thesis using x by (auto simp: with_dev_def split: option.split)
qed

lemma ready_ok:
  assumes s: "reg_ok s" and f: "fn_at f s = Some x"
  shows "keeps_ok (reg_ready f s)"
proof (cases "rf_dev x")
  case None
  then show ?thesis using s f by (simp add: reg_ready_def with_dev_def)
next
  case (Some i)
  then obtain d where d: "dev_at i s = Some d" "rd_id d = i" using with_dev_at [OF s f] by blast
  let ?t = "upd_dev i (\<lambda>d. d\<lparr>rd_ready := True, rd_data := Some f\<rparr>) s"
  have m: "fn_dev s f = Some i" "devs_of s i = Some d" using f Some d by (simp_all add: fn_dev_Some devs_of_def)
  have "devs_of ?t = (devs_of s)(i \<mapsto> d\<lparr>rd_ready := True, rd_data := Some f\<rparr>)" by (rule maps_upd(1)) (use d in simp_all)
  then have "links_ok ?t" using links_ready [OF reg_okD(3) [OF s] m] by (simp add: links_ok_def)
  then have "reg_ok ?t" unfolding reg_ok_def using s by (simp add: reg_okD ids_changes names_upd_dev)
  then show ?thesis using s f Some d by (simp add: reg_ready_def with_dev_def)
qed

lemma closed_ok:
  assumes s: "reg_ok s" and f: "fn_at f s = Some x"
  shows "keeps_ok (reg_closed env f s)"
proof (cases "rf_dev x")
  case None
  then show ?thesis using s f by (simp add: reg_closed_def with_dev_def)
next
  case (Some i)
  then obtain d where d: "dev_at i s = Some d" "rd_id d = i" using with_dev_at [OF s f] by blast
  let ?t = "upd_dev i (\<lambda>d. d\<lparr>rd_ready := False, rd_data := None\<rparr>) s"
  have "devs_of ?t = (devs_of s)(i \<mapsto> d\<lparr>rd_ready := False, rd_data := None\<rparr>)" by (rule maps_upd(1)) (use d in simp_all)
  then have "links_ok ?t" using links_closed [OF reg_okD(3) [OF s], of i d] d by (simp add: links_ok_def devs_of_def)
  then have t: "reg_ok ?t" unfolding reg_ok_def using s by (simp add: reg_okD ids_changes names_upd_dev)
  then show ?thesis
    using reg_ok_upd_fn [OF t, of "\<lambda>x. x\<lparr>rf_bound := False\<rparr>" f] s f Some d by (simp add: reg_closed_def with_dev_def Let_def)
qed

text \<open>Giving back the device and freeing the function, which belong together.\<close>

definition drop_fn :: "nat \<Rightarrow> registry \<Rightarrow> registry" where
  "drop_fn f s = s\<lparr>reg_fns := filter (\<lambda>x. rf_id x \<noteq> f) (reg_fns s)\<rparr>"

lemma drop_fn_none: "fn_at f (drop_fn f t) = None"
  by (simp add: drop_fn_def drop_fn_at)

lemma drop_loose_ok: "reg_ok s \<Longrightarrow> fn_dev s f = None \<Longrightarrow> reg_ok (drop_fn f s)"
  unfolding reg_ok_def links_ok_def drop_fn_def maps_drop by (simp add: ids_changes fun_upd_idem)

lemma drop_linked_ok:
  assumes s: "reg_ok s" and f: "fn_dev s f = Some i"
    and g: "\<And>d. rd_id (g d) = rd_id d \<and> rd_name (g d) = rd_name d \<and> rd_single (g d) = rd_single d
         \<and> \<not> rd_mounted (g d) \<and> \<not> rd_ready (g d) \<and> rd_data (g d) = None"
  shows "reg_ok (drop_fn f (upd_dev i g s))"
proof -
  obtain d where d: "dev_at i s = Some d" using linksD(1) [OF reg_okD(3) [OF s] f] by (auto simp: devs_of_def)
  have "devs_of (upd_dev i g s) = (devs_of s)(i \<mapsto> g d)" by (rule maps_upd(1)) (use d g in simp_all)
  moreover have "links ((fn_dev s)(f := None)) ((devs_of s)(i := Some (g d)))"
    by (rule links_part [OF reg_okD(3) [OF s] f]) (use g in auto)
  ultimately have "links_ok (drop_fn f (upd_dev i g s))"
    using maps_drop(2) [of f "upd_dev i g s"] by (simp add: links_ok_def drop_fn_def)
  moreover have "ids_ok (drop_fn f (upd_dev i g s))" unfolding drop_fn_def using s g by (intro ids_changes(4) ids_changes(1) reg_okD) simp_all
  moreover have "dev_names_ok (drop_fn f (upd_dev i g s))" unfolding drop_fn_def using s g by (simp add: reg_okD names_upd_dev)
  ultimately show ?thesis by (simp add: reg_ok_def)
qed

lemma upd_fn_drop: "drop_fn f (upd_fn f g s) = drop_fn f s" if "\<And>x. rf_id (g x) = rf_id x"
proof -
  have "filter (\<lambda>x. rf_id x \<noteq> f) (map (\<lambda>x. if rf_id x = f then g x else x) xs) = filter (\<lambda>x. rf_id x \<noteq> f) xs" for xs
    by (induction xs) (auto simp: that)
  then show ?thesis by (simp add: drop_fn_def upd_fn_def)
qed

lemma upd_dev_twice: "(\<And>d. rd_id (g d) = rd_id d) \<Longrightarrow> upd_dev i h (upd_dev i g s) = upd_dev i (\<lambda>d. h (g d)) s"
  by (auto simp: upd_dev_def)

lemma free_loose:
  assumes f: "fn_at f s = Some x" "rf_dev x = None" "\<not> rf_bound x"
  shows "bindS (ffs_release_dev f s) (\<lambda>_ s. reg_free env f s) = (Ok (), drop_fn f s)" "reg_free env f s = (Ok (), drop_fn f s)"
  using f by (simp_all add: ffs_release_dev_def reg_free_def reg_closed_def with_dev_def drop_fn_def)

lemma release_free:
  assumes s: "reg_ok s" and f: "fn_at f s = Some x" "rf_dev x = Some i" and b: "rf_bound x \<longrightarrow> in_configfs env"
  shows "bindS (ffs_release_dev f s) (\<lambda>_ s. reg_free env f s) =
    (Ok (), drop_fn f (upd_dev i (\<lambda>d. d\<lparr>rd_mounted := False, rd_ready := False, rd_data := None\<rparr>) s))"
proof -
  obtain d where d: "dev_at i s = Some d" "rd_id d = i" using with_dev_at [OF s f(1)] f(2) by blast
  let ?t = "upd_dev i (\<lambda>d. d\<lparr>rd_mounted := False\<rparr>) s"
  have t: "fn_at f ?t = Some x" "dev_at i ?t = Some (d\<lparr>rd_mounted := False\<rparr>)" using f d by (simp_all add: upd_dev_at)
  let ?u = "upd_dev i (\<lambda>d. d\<lparr>rd_mounted := False, rd_ready := False, rd_data := None\<rparr>) s"
  have u: "upd_dev i (\<lambda>d. d\<lparr>rd_ready := False, rd_data := None\<rparr>) ?t = ?u" by (simp add: upd_dev_twice)
  have closed: "reg_closed env f ?t = (Ok (), if rf_bound x then upd_fn f (\<lambda>x. x\<lparr>rf_bound := False\<rparr>) ?u else ?u)"
    using t f(2) b d(2) u by (simp add: reg_closed_def with_dev_def Let_def)
  have "reg_free env f ?t = (Ok (), drop_fn f ?u)"
  proof (cases "rf_bound x")
    case True
    have "fn_at f (upd_fn f (\<lambda>x. x\<lparr>rf_bound := False\<rparr>) ?u) = Some (x\<lparr>rf_bound := False\<rparr>)" using f by (simp add: upd_fn_at)
    moreover have "drop_fn f (upd_fn f (\<lambda>x. x\<lparr>rf_bound := False\<rparr>) ?u) = drop_fn f ?u" by (rule upd_fn_drop) simp
    ultimately show ?thesis using True closed by (simp add: reg_free_def drop_fn_def)
  next
    case False
    then show ?thesis using f closed by (simp add: reg_free_def drop_fn_def)
  qed
  then show ?thesis using d f by (simp add: ffs_release_dev_def with_dev_def)
qed

lemma release_free_ok:
  assumes s: "reg_ok s" and f: "fn_at f s = Some x" and b: "rf_bound x \<longrightarrow> in_configfs env \<and> rf_dev x \<noteq> None"
  obtains t where "bindS (ffs_release_dev f s) (\<lambda>_ s. reg_free env f s) = (Ok (), t)" "reg_ok t" "fn_at f t = None"
proof (cases "rf_dev x")
  case None
  then have "\<not> rf_bound x" using b by blast
  then show thesis
    using that [OF free_loose(1) [OF f None]] drop_loose_ok [OF s] f None by (simp add: fn_dev_def drop_fn_def drop_fn_at)
next
  case (Some i)
  then have "fn_dev s f = Some i" using f by (simp add: fn_dev_Some)
  from drop_linked_ok [OF s this, of "\<lambda>d. d\<lparr>rd_mounted := False, rd_ready := False, rd_data := None\<rparr>"]
  have "reg_ok (drop_fn f (upd_dev i (\<lambda>d. d\<lparr>rd_mounted := False, rd_ready := False, rd_data := None\<rparr>) s))" by simp
  then show thesis using that release_free [OF s f Some] b drop_fn_none by blast
qed

lemma reg_ok_region [simp]: "reg_ok (s\<lparr>reg_region := r\<rparr>) = reg_ok s" "reg_ok (s\<lparr>reg_regions := rs\<rparr>) = reg_ok s"
  by (simp_all add: reg_ok_def ids_ok_def dev_names_ok_def links_ok_def)

lemma release_new_ok:
  assumes s: "reg_ok s" and f: "fn_at f s = Some x" "\<not> rf_bound x"
  shows "keeps_ok (release_new env f s)"
proof -
  obtain t where t: "bindS (ffs_release_dev f s) (\<lambda>_ s. reg_free env f s) = (Ok (), t)" "reg_ok t"
    by (rule release_free_ok [OF s f(1), of env]) (use f(2) in auto)
  have "release_new env f s = bindS (bindS (ffs_release_dev f s) (\<lambda>_ s. reg_free env f s)) (\<lambda>_ s. (Err EBUSY, s))"
    by (cases "ffs_release_dev f s"; cases "fst (ffs_release_dev f s)") (auto simp: release_new_def fail_new_def)
  then show ?thesis using t by simp
qed

lemma chrdev_ok:
  assumes s: "reg_ok s" and f: "fn_at f s = Some x" "\<not> rf_bound x"
  shows "keeps_ok (newfn_chrdev env f s)"
proof -
  have step: "reg_ok (upd_fn f g t) \<and> (\<exists>y. fn_at f (upd_fn f g t) = Some y \<and> \<not> rf_bound y)"
    if "reg_ok t" "\<exists>y. fn_at f t = Some y \<and> \<not> rf_bound y" "\<And>x. rf_id (g x) = rf_id x" "\<And>x. rf_dev (g x) = rf_dev x" "\<And>x. rf_bound (g x) = rf_bound x" for g t
    using that by (auto simp: reg_ok_upd_fn upd_fn_at)
  have release: "keeps_ok (release_new env f t)" if "reg_ok t \<and> (\<exists>y. fn_at f t = Some y \<and> \<not> rf_bound y)" for t
    using that release_new_ok by blast
  show ?thesis
  proof (cases "region env")
    case None
    then show ?thesis using release_new_ok [OF s f] by (simp add: newfn_chrdev_def)
  next
    case (Some r)
    let ?t = "upd_fn f (\<lambda>x. x\<lparr>rf_region := Some r\<rparr>) (s\<lparr>reg_region := Some r, reg_regions := reg_regions s @ [r]\<rparr>)"
    let ?u = "upd_fn f (\<lambda>x. x\<lparr>rf_cdev := True\<rparr>) ?t"
    have t: "reg_ok ?t \<and> (\<exists>y. fn_at f ?t = Some y \<and> \<not> rf_bound y)" using s f by (intro step) auto
    have u: "reg_ok ?u \<and> (\<exists>y. fn_at f ?u = Some y \<and> \<not> rf_bound y)" using t by (intro step) auto
    have v: "reg_ok (upd_fn f (\<lambda>x. x\<lparr>rf_cdev := False\<rparr>) ?u) \<and> (\<exists>y. fn_at f (upd_fn f (\<lambda>x. x\<lparr>rf_cdev := False\<rparr>) ?u) = Some y \<and> \<not> rf_bound y)"
      "reg_ok (upd_fn f (\<lambda>x. x\<lparr>rf_node := True\<rparr>) ?u)" using u step [of ?u] by auto
    show ?thesis using Some release [OF t] release [OF v(1)] v(2) by (simp add: newfn_chrdev_def Let_def)
  qed
qed

text \<open>A new function, and the device it takes.\<close>

definition new_fn :: "nat \<Rightarrow> u8 list \<Rightarrow> reg_fn" where
  "new_fn f name = \<lparr>rf_id = f, rf_name = name, rf_dev = None, rf_region = None, rf_cdev = False, rf_node = False, rf_bound = False\<rparr>"

definition add_fn :: "u8 list \<Rightarrow> registry \<Rightarrow> registry" where
  "add_fn name s = s\<lparr>reg_fns := reg_fns s @ [new_fn (reg_next s) name], reg_next := reg_next s + 1\<rparr>"

lemma add_fn_ok:
  assumes s: "reg_ok s"
  shows "reg_ok (add_fn name s)" "fn_at (reg_next s) (add_fn name s) = Some (new_fn (reg_next s) name)" "fn_dev (add_fn name s) (reg_next s) = None"
proof -
  have free: "fn_at (reg_next s) s = None" by (rule next_free(2) [OF reg_okD(1) [OF s]])
  then have new: "reg_next s \<notin> rf_id ` set (reg_fns s)" by (simp add: fn_at_def find_none_iff)
  have find_last: "find P (xs @ [y]) = (case find P xs of None \<Rightarrow> if P y then Some y else None | Some x \<Rightarrow> Some x)" for P xs and y :: reg_fn
    by (induction xs) auto
  have at: "fn_at f (add_fn name s) = (if f = reg_next s then Some (new_fn f name) else fn_at f s)" for f
    using free by (auto simp: fn_at_def add_fn_def find_last new_fn_def split: option.split)
  show here: "fn_at (reg_next s) (add_fn name s) = Some (new_fn (reg_next s) name)" by (simp add: at)
  show none: "fn_dev (add_fn name s) (reg_next s) = None" by (simp add: fn_dev_def here) (simp add: new_fn_def)
  have m: "fn_dev (add_fn name s) = fn_dev s"
    using free by (auto simp: fn_dev_def fun_eq_iff at new_fn_def)
  have D: "dev_at i (add_fn name s) = dev_at i s" "devs_of (add_fn name s) = devs_of s" for i by (simp_all add: add_fn_def)
  have "ids_ok (add_fn name s)"
    using reg_okD(1) [OF s] new unfolding ids_ok_def at D by (auto simp: add_fn_def new_fn_def less_Suc_eq)
  moreover have "dev_names_ok (add_fn name s)" using reg_okD(2) [OF s] unfolding dev_names_ok_def D by (elim conjE, intro conjI) (simp_all add: add_fn_def)
  ultimately show "reg_ok (add_fn name s)" using reg_okD(3) [OF s] by (simp add: reg_ok_def links_ok_def m D)
qed

lemma acquire_ok:
  assumes s: "reg_ok s" and f: "fn_at f s = Some x" "rf_dev x = None" and a: "ffs_acquire_dev name s = (Ok i, t)"
  shows "reg_ok (upd_fn f (\<lambda>x. x\<lparr>rf_dev := Some i\<rparr>) t)" "fn_at f (upd_fn f (\<lambda>x. x\<lparr>rf_dev := Some i\<rparr>) t) = Some (x\<lparr>rf_dev := Some i\<rparr>)"
proof -
  obtain d where d: "ffs_find_dev name s = Some d" "\<not> rd_mounted d" "i = rd_id d"
    and t: "t = upd_dev i (\<lambda>d. d\<lparr>rd_mounted := True\<rparr>) s"
    using a by (auto simp: ffs_acquire_dev_def split: option.splits if_splits)
  have at: "dev_at i s = Some d" using find_dev_at [OF reg_okD(1) [OF s] d(1)] d(3) by simp
  let ?u = "upd_fn f (\<lambda>x. x\<lparr>rf_dev := Some i\<rparr>) t"
  have ft: "fn_at f t = Some x" using f(1) t by simp
  show "fn_at f ?u = Some (x\<lparr>rf_dev := Some i\<rparr>)" using ft by (simp add: upd_fn_at)
  have "fn_dev ?u = (fn_dev s)(f \<mapsto> i)" using maps_upd(2) [OF _ ft, of "\<lambda>x. x\<lparr>rf_dev := Some i\<rparr>"] t by simp
  moreover have "devs_of ?u = (devs_of s)(i \<mapsto> d\<lparr>rd_mounted := True\<rparr>)" unfolding t maps_other by (rule maps_upd(1)) (use at in simp_all)
  moreover have "links ((fn_dev s)(f \<mapsto> i)) ((devs_of s)(i \<mapsto> d\<lparr>rd_mounted := True\<rparr>))"
    by (rule links_link [OF reg_okD(3) [OF s]]) (use f at d(2) in \<open>simp_all add: fn_dev_def devs_of_def\<close>)
  ultimately have "links_ok ?u" by (simp add: links_ok_def)
  moreover have "ids_ok ?u" "dev_names_ok ?u" unfolding t using s by (simp_all add: ids_changes reg_okD names_upd_dev)
  ultimately show "reg_ok ?u" by (simp add: reg_ok_def)
qed

lemma newfn_ok:
  assumes s: "reg_ok s" and name: "0 \<in> set (nf_name nf)"
  shows "keeps_ok (usbfn_newfn env nf s)"
proof -
  define nm where "nm = c_string (take (unat (nf_len nf)) (nf_name nf))"
  let ?f = "reg_next s" and ?t = "add_fn nm s"
  note t = add_fn_ok [OF s, of nm]
  have free: "reg_free env ?f ?t = (Ok (), drop_fn ?f ?t)" using free_loose(2) [OF t(2)] by (simp add: new_fn_def)
  have drop: "reg_ok (drop_fn ?f ?t)" by (rule drop_loose_ok [OF t(1,3)])
  have failing: "keeps_ok (fail_new env ?f r ?t)" if "r \<noteq> Fault" for r using that drop by (cases r) (simp_all add: fail_new_def free)
  have acquired: "keeps_ok (case ffs_acquire_dev (c_string (nf_name nf)) ?t of
                  (Ok i, s) \<Rightarrow> newfn_chrdev env ?f (upd_fn ?f (\<lambda>x. x\<lparr>rf_dev := Some i\<rparr>) s)
                | (Err e, s) \<Rightarrow> fail_new env ?f (Err ENODEV) s
                | (Fault, s) \<Rightarrow> (Fault, s))"
  proof (cases "fst (ffs_acquire_dev (c_string (nf_name nf)) ?t)")
    case (Ok i)
    then obtain u where u: "ffs_acquire_dev (c_string (nf_name nf)) ?t = (Ok i, u)" by (metis prod.collapse)
    have "rf_dev (new_fn ?f nm) = None" "\<not> rf_bound (new_fn ?f nm)" by (simp_all add: new_fn_def)
    with acquire_ok [OF t(1,2) _ u] show ?thesis using u by (simp add: chrdev_ok)
  next
    case (Err e)
    then have "ffs_acquire_dev (c_string (nf_name nf)) ?t = (Err e, ?t)" by (auto simp: ffs_acquire_dev_def split: option.splits if_splits)
    then show ?thesis using failing by simp
  next
    case Fault
    then show ?thesis by (auto simp: ffs_acquire_dev_def split: option.splits if_splits)
  qed
  have t_eq: "s\<lparr>reg_fns := reg_fns s @ [\<lparr>rf_id = ?f, rf_name = nm, rf_dev = None, rf_region = None,
                       rf_cdev = False, rf_node = False, rf_bound = False\<rparr>], reg_next := ?f + 1\<rparr> = ?t"
    by (simp add: add_fn_def new_fn_def)
  show ?thesis
    using s name failing acquired unfolding usbfn_newfn_def Let_def t_eq [unfolded nm_def] nm_def
    by (auto simp: nm_def)
qed

text \<open>Deleting needs a device that is found and ready.\<close>

definition may_delete :: "reg_env \<Rightarrow> func_new \<Rightarrow> registry \<Rightarrow> bool" where
  "may_delete env nf s \<longleftrightarrow> (case ffs_find_dev (c_string (nf_name nf)) s of None \<Rightarrow> False
     | Some d \<Rightarrow> (case rd_data d of None \<Rightarrow> False | Some f \<Rightarrow> (case fn_at f s of None \<Rightarrow> False | Some x \<Rightarrow> rf_bound x \<longrightarrow> in_configfs env)))"

lemma delfn_ok:
  assumes s: "reg_ok s" and may: "may_delete env nf s"
  shows "keeps_ok (usbfn_delfn env nf s)"
proof -
  obtain d f x where d: "ffs_find_dev (c_string (nf_name nf)) s = Some d" "rd_data d = Some f" and x: "fn_at f s = Some x" "rf_bound x \<longrightarrow> in_configfs env"
    using may by (auto simp: may_delete_def split: option.splits)
  have "dev_at (rd_id d) s = Some d" by (rule find_dev_at [OF reg_okD(1) [OF s] d(1)])
  then have "fn_dev s f = Some (rd_id d)" using linksD(5) [OF reg_okD(3) [OF s]] d(2) by (simp add: devs_of_def)
  then have dev: "rf_dev x \<noteq> None" using x(1) by (simp add: fn_dev_def)
  let ?t = "(upd_fn f (\<lambda>x. x\<lparr>rf_node := False, rf_cdev := False\<rparr>) s)\<lparr>reg_regions := rs\<rparr>"
  define t where "t rs = (upd_fn f (\<lambda>x. x\<lparr>rf_node := False, rf_cdev := False\<rparr>) s)\<lparr>reg_regions := rs\<rparr>" for rs
  have t: "reg_ok (t rs)" "fn_at f (t rs) = Some (x\<lparr>rf_node := False, rf_cdev := False\<rparr>)" for rs
    using s x(1) by (simp_all add: t_def reg_ok_upd_fn upd_fn_at)
  have run: "keeps_ok (bindS (ffs_release_dev f (t rs)) (\<lambda>_ s. bindS (reg_free env f s) (\<lambda>_ s. (Ok (0 :: int), s))))" for rs
  proof -
    obtain u where u: "bindS (ffs_release_dev f (t rs)) (\<lambda>_ s. reg_free env f s) = (Ok (), u)" "reg_ok u"
      by (rule release_free_ok [OF t, of env]) (use x(2) dev in auto)
    have "bindS (ffs_release_dev f (t rs)) (\<lambda>_ s. bindS (reg_free env f s) (\<lambda>_ s. (Ok (0 :: int), s)))
        = bindS (bindS (ffs_release_dev f (t rs)) (\<lambda>_ s. reg_free env f s)) (\<lambda>_ s. (Ok 0, s))"
      by (cases "ffs_release_dev f (t rs)"; cases "fst (ffs_release_dev f (t rs))") auto
    then show ?thesis using u by simp
  qed
  show ?thesis
    using s d x(1) run by (simp add: usbfn_delfn_def Let_def t_def split: option.split)
qed

subsection \<open>Every run of the registry\<close>

definition reg_empty :: registry where
  "reg_empty = \<lparr>reg_devs = [], reg_fns = [], reg_region = None, reg_regions = [], misc_on = False, class_on = False, reg_next = 0\<rparr>"

text \<open>
  Instances come, are named and go, functions are created, become ready, are bound to gadgets, closed and
  deleted, in any order. Only what the code relies on without asking is required of a step.
\<close>

inductive reg_step :: "registry \<Rightarrow> registry \<Rightarrow> bool" where
  by_alloc: "reg_step s (snd (ffs_alloc_inst env s))"
| by_name: "reg_step s (snd (ffs_set_inst_name i name s))"
| by_single: "reg_step s (snd (ffs_single_dev_adapter i s))"
| by_free: "may_free i s \<Longrightarrow> reg_step s (snd (ffs_free_inst i s))"
| by_newfn: "0 \<in> set (nf_name nf) \<Longrightarrow> reg_step s (snd (usbfn_newfn env nf s))"
| by_delfn: "may_delete env nf s \<Longrightarrow> reg_step s (snd (usbfn_delfn env nf s))"
| by_ready: "fn_at f s \<noteq> None \<Longrightarrow> reg_step s (snd (reg_ready f s))"
| by_closed: "fn_at f s \<noteq> None \<Longrightarrow> reg_step s (snd (reg_closed env f s))"
| by_gadget: "reg_step s (upd_fn f (\<lambda>x. x\<lparr>rf_bound := b\<rparr>) s)"

inductive reg_reachable :: "registry \<Rightarrow> bool" where
  start: "reg_reachable reg_empty"
| step: "reg_reachable s \<Longrightarrow> reg_step s s' \<Longrightarrow> reg_reachable s'"

lemma reg_step_ok: "reg_step s s' \<Longrightarrow> reg_ok s \<Longrightarrow> reg_ok s'"
proof (induction rule: reg_step.induct)
  case (by_ready f s)
  then show ?case using postD(2) [OF ready_ok] by blast
next
  case (by_closed f s env)
  then show ?case using postD(2) [OF closed_ok] by blast
qed (rule postD(2), (erule alloc_inst_ok set_name_ok single_ok free_inst_ok newfn_ok delfn_ok; assumption?)[1] | (rule reg_ok_upd_fn; simp))+

lemma reg_reachable_ok: "reg_reachable s \<Longrightarrow> reg_ok s"
proof (induction rule: reg_reachable.induct)
  case start
  then show ?case by (simp add: reg_ok_def ids_ok_def dev_names_ok_def links_ok_def links_def reg_empty_def dev_at_def fn_at_def fn_dev_def devs_of_def)
qed (rule reg_step_ok)

end
