(* ===== verification/Ffs_Registry_Properties.thy ===== *)
theory Ffs_Registry_Properties
  imports Ffs_Registry_Inv
begin

section \<open>Generic USB function: properties of the registry\<close>

text \<open>
  No run of the registry that frees and deletes with care follows a stale pointer; a function that is created and deleted leaves nothing
  behind; and what happens in the cases the code does not look at.
\<close>

text \<open>
  C8. The code frees and deletes without looking; this is about runs in which an instance is freed only
  when it is there and its device is not that of a function still waiting for its descriptors
  (\<open>may_free\<close>), and a function is deleted only by the name of a device that is ready and, when it is
  bound, through configfs (\<open>may_delete\<close>). In such runs, whatever instances are made and named and
  whatever functions are created, no operation follows a pointer to a freed object. Every function's device is there, taken, and no other function's;
  a device that is ready points back at its function; two devices never have the same name; and a single
  device is the only one.
\<close>
theorem registry_safe:
  assumes run: "reg_reachable s" and pre: "0 \<in> set (nf_name nf)" "may_free i s" "may_delete env nf' s" "fn_at f s \<noteq> None"
  shows "no_fault (ffs_alloc_inst env s) \<and> no_fault (ffs_set_inst_name j name s) \<and> no_fault (usbfn_newfn env nf s)
    \<and> no_fault (ffs_free_inst i s) \<and> no_fault (usbfn_delfn env nf' s) \<and> no_fault (reg_ready f s) \<and> no_fault (reg_closed env f s)
    \<and> (\<forall>g x k. fn_at g s = Some x \<longrightarrow> rf_dev x = Some k \<longrightarrow> (\<exists>d. dev_at k s = Some d \<and> rd_mounted d)
         \<and> (\<forall>h y. fn_at h s = Some y \<longrightarrow> rf_dev y = Some k \<longrightarrow> g = h))
    \<and> (\<forall>k d g. dev_at k s = Some d \<longrightarrow> rd_data d = Some g \<longrightarrow> (\<exists>x. fn_at g s = Some x \<and> rf_dev x = Some k))
    \<and> (\<forall>k l d e. dev_at k s = Some d \<longrightarrow> dev_at l s = Some e \<longrightarrow> rd_name d \<noteq> [] \<longrightarrow> rd_name d = rd_name e \<longrightarrow> k = l)
    \<and> (\<forall>k d. dev_at k s = Some d \<longrightarrow> rd_single d \<longrightarrow> reg_devs s = [d])"
proof -
  have s: "reg_ok s" by (rule reg_reachable_ok [OF run])
  obtain x where x: "fn_at f s = Some x" using pre(4) by blast
  note L = linksD [OF reg_okD(3) [OF s], unfolded fn_dev_Some devs_of_def]
  have "\<forall>g x k. fn_at g s = Some x \<longrightarrow> rf_dev x = Some k \<longrightarrow> (\<exists>d. dev_at k s = Some d \<and> rd_mounted d)
         \<and> (\<forall>h y. fn_at h s = Some y \<longrightarrow> rf_dev y = Some k \<longrightarrow> g = h)" using L(1,2) by blast
  moreover have "\<forall>k d g. dev_at k s = Some d \<longrightarrow> rd_data d = Some g \<longrightarrow> (\<exists>x. fn_at g s = Some x \<and> rf_dev x = Some k)" using L(5) by blast
  moreover have "\<forall>k l d e. dev_at k s = Some d \<longrightarrow> dev_at l s = Some e \<longrightarrow> rd_name d \<noteq> [] \<longrightarrow> rd_name d = rd_name e \<longrightarrow> k = l"
    using reg_okD(2) [OF s] unfolding dev_names_ok_def by blast
  moreover have "\<forall>k d. dev_at k s = Some d \<longrightarrow> rd_single d \<longrightarrow> reg_devs s = [d]"
    using single_alone [OF reg_okD(2) [OF s]] by blast
  ultimately show ?thesis
    using postD(1) [OF alloc_inst_ok [OF s]] postD(1) [OF set_name_ok [OF s]] postD(1) [OF newfn_ok [OF s pre(1)]]
      postD(1) [OF free_inst_ok [OF s pre(2)]] postD(1) [OF delfn_ok [OF s pre(3)]] postD(1) [OF ready_ok [OF s x]] postD(1) [OF closed_ok [OF s x]]
    by (intro conjI)
qed

text \<open>Two instances, \<open>f_generic.a\<close> and \<open>f_generic.b\<close>, and a function on each.\<close>

definition reg_sample_env :: "nat \<Rightarrow> reg_env" where
  "reg_sample_env r = \<lparr>func_copy_ok = True, inst_alloc_ok = True, dev_alloc_ok = True, fn_alloc_ok = True, fn_wq_ok = True, name_copy_ret = 0,
     region = Some r, cdev_ret = 0, node_ok = True, misc_ret = 0, class_err = None, in_configfs = True\<rparr>"

definition func_named :: "u8 \<Rightarrow> func_new" where
  "func_named c = \<lparr>nf_len = 12, nf_name = FUNCTION_GENERIC @ [46, c] @ replicate 53 0\<rparr>"

definition two_insts :: registry where
  "two_insts = snd (ffs_set_inst_name 1 [98] (snd (ffs_alloc_inst (reg_sample_env 0)
     (snd (ffs_set_inst_name 0 [97] (snd (ffs_alloc_inst (reg_sample_env 0) reg_empty)))))))"

definition two_funcs :: registry where
  "two_funcs = snd (reg_ready 3 (snd (usbfn_newfn (reg_sample_env 241) (func_named 98)
     (snd (reg_ready 2 (snd (usbfn_newfn (reg_sample_env 240) (func_named 97) two_insts)))))))"

lemma name_terminated: "0 \<in> set (nf_name (func_named c))"
  by (simp add: func_named_def)

lemma two_insts_reachable: "reg_reachable two_insts"
  unfolding two_insts_def by (intro reg_reachable.step [OF _ reg_step.by_name] reg_reachable.step [OF _ reg_step.by_alloc] reg_reachable.start)

lemma two_funcs_reachable: "reg_reachable two_funcs"
proof -
  let ?s = "snd (usbfn_newfn (reg_sample_env 240) (func_named 97) two_insts)"
  let ?t = "snd (usbfn_newfn (reg_sample_env 241) (func_named 98) (snd (reg_ready 2 ?s)))"
  have "fn_at 2 ?s \<noteq> None" "fn_at 3 ?t \<noteq> None" by code_simp+
  then show ?thesis unfolding two_funcs_def
    by (intro reg_reachable.step [OF _ reg_step.by_ready] reg_reachable.step [OF _ reg_step.by_newfn] name_terminated two_insts_reachable)
qed

lemma registry_safe_witness:
  "no_fault (usbfn_delfn (reg_sample_env 0) (func_named 97) two_funcs) \<and> length (reg_fns two_funcs) = 2"
proof -
  have pre: "may_free 0 two_funcs" "may_delete (reg_sample_env 0) (func_named 97) two_funcs" "fn_at 2 two_funcs \<noteq> None"
  proof -
    have "map_option (\<lambda>d. rd_mounted d \<longrightarrow> rd_data d \<noteq> None) (dev_at 0 two_funcs) = Some True" by code_simp
    then show "may_free 0 two_funcs" by (auto simp: may_free_def)
    show "may_delete (reg_sample_env 0) (func_named 97) two_funcs" by code_simp
    show "fn_at 2 two_funcs \<noteq> None" by code_simp
  qed
  have "length (reg_fns two_funcs) = 2" by code_simp
  then show ?thesis using registry_safe [OF two_funcs_reachable name_terminated pre] by blast
qed

subsection \<open>Creating and deleting\<close>

lemma find_dev_upd:
  assumes "\<And>d. rd_name (g d) = rd_name d \<and> rd_single (g d) = rd_single d"
  shows "ffs_find_dev n (upd_dev i g s) = map_option (\<lambda>d. if rd_id d = i then g d else d) (ffs_find_dev n s)"
proof -
  have "find (\<lambda>d. rd_name d = n) (map (\<lambda>d. if rd_id d = i then g d else d) ds) = map_option (\<lambda>d. if rd_id d = i then g d else d) (find (\<lambda>d. rd_name d = n) ds)" for ds
    using assms by (induction ds) auto
  moreover have "ffs_get_single_dev (upd_dev i g s) = map_option (\<lambda>d. if rd_id d = i then g d else d) (ffs_get_single_dev s)"
    using assms by (auto simp: ffs_get_single_dev_def upd_dev_def split: list.split)
  ultimately show ?thesis
    by (auto simp: ffs_find_dev_def ffs_do_find_dev_def split: option.split) (simp_all add: upd_dev_def)
qed

lemma find_dev_cong: "reg_devs t = reg_devs s \<Longrightarrow> ffs_find_dev n t = ffs_find_dev n s"
proof -
  assume "reg_devs t = reg_devs s"
  then have "ffs_get_single_dev t = ffs_get_single_dev s" "ffs_do_find_dev n t = ffs_do_find_dev n s"
    by (simp_all only: ffs_get_single_dev_def ffs_do_find_dev_def)
  then show ?thesis by (simp only: ffs_find_dev_def)
qed

lemma find_dev_upd_fn [simp]: "ffs_find_dev n (upd_fn f g s) = ffs_find_dev n s"
  "ffs_find_dev n (s\<lparr>reg_regions := rs\<rparr>) = ffs_find_dev n s" "ffs_find_dev n (s\<lparr>reg_region := r\<rparr>) = ffs_find_dev n s"
  "ffs_find_dev n (s\<lparr>reg_fns := xs\<rparr>) = ffs_find_dev n s" "ffs_find_dev n (s\<lparr>reg_next := k\<rparr>) = ffs_find_dev n s"
  by (rule find_dev_cong, simp)+

lemma upd_fn_twice: "(\<And>x. rf_id (g x) = rf_id x) \<Longrightarrow> upd_fn f h (upd_fn f g s) = upd_fn f (\<lambda>x. h (g x)) s"
  by (auto simp: upd_fn_def)

lemma upd_commute [simp]: "upd_dev i g (upd_fn f h s) = upd_fn f h (upd_dev i g s)"
  "upd_dev i g (s\<lparr>reg_regions := rs\<rparr>) = (upd_dev i g s)\<lparr>reg_regions := rs\<rparr>" "upd_dev i g (s\<lparr>reg_region := r\<rparr>) = (upd_dev i g s)\<lparr>reg_region := r\<rparr>"
  "upd_fn f h (s\<lparr>reg_regions := rs\<rparr>) = (upd_fn f h s)\<lparr>reg_regions := rs\<rparr>" "upd_fn f h (s\<lparr>reg_region := r\<rparr>) = (upd_fn f h s)\<lparr>reg_region := r\<rparr>"
  by (simp_all add: upd_dev_def upd_fn_def)

text \<open>The kernel grants everything a new function asks for; the names fit.\<close>

definition grants :: "reg_env \<Rightarrow> nat \<Rightarrow> bool" where
  "grants env r \<longleftrightarrow> func_copy_ok env \<and> fn_alloc_ok env \<and> fn_wq_ok env \<and> name_copy_ret env = 0 \<and> region env = Some r \<and> cdev_ret env = 0 \<and> node_ok env"

definition name_fits :: "func_new \<Rightarrow> bool" where
  "name_fits nf \<longleftrightarrow> 0 \<in> set (nf_name nf) \<and> length (c_string (take (unat (nf_len nf)) (nf_name nf))) + 4 < MAX_NAMELEN"

text \<open>The function that a granted call makes.\<close>

definition made_fn :: "nat \<Rightarrow> func_new \<Rightarrow> nat \<Rightarrow> nat \<Rightarrow> reg_fn" where
  "made_fn f nf i r = \<lparr>rf_id = f, rf_name = c_string (take (unat (nf_len nf)) (nf_name nf)), rf_dev = Some i, rf_region = Some r,
     rf_cdev = True, rf_node = True, rf_bound = False\<rparr>"

lemma upd_fn_last:
  assumes "f \<notin> rf_id ` set xs" and "rf_id x = f"
  shows "upd_fn f g (s\<lparr>reg_fns := xs @ [x], reg_next := n\<rparr>) = s\<lparr>reg_fns := xs @ [g x], reg_next := n\<rparr>"
proof -
  have "map (\<lambda>x. if rf_id x = f then g x else x) xs = xs" using assms(1) by (induction xs) auto
  then show ?thesis using assms(2) by (simp add: upd_fn_def)
qed

lemma newfn_granted:
  assumes s: "reg_ok s" and env: "grants env r" and nf: "name_fits nf"
    and d: "ffs_find_dev (c_string (nf_name nf)) s = Some d" "\<not> rd_mounted d"
  shows "usbfn_newfn env nf s = (Ok 0, (upd_dev (rd_id d) (\<lambda>d. d\<lparr>rd_mounted := True\<rparr>) s)
     \<lparr>reg_fns := reg_fns s @ [made_fn (reg_next s) nf (rd_id d) r], reg_next := reg_next s + 1,
      reg_region := Some r, reg_regions := reg_regions s @ [r]\<rparr>)"
proof -
  have new: "reg_next s \<notin> rf_id ` set (reg_fns s)"
    using next_free(2) [OF reg_okD(1) [OF s]] by (simp add: fn_at_def find_none_iff)
  have dev: "upd_dev i g (s\<lparr>reg_fns := xs, reg_next := k\<rparr>) = (upd_dev i g s)\<lparr>reg_fns := xs, reg_next := k\<rparr>" for i g xs k
    by (simp add: upd_dev_def)
  show ?thesis
    using env nf d
    by (simp add: usbfn_newfn_def grants_def name_fits_def Let_def ffs_acquire_dev_def dev newfn_chrdev_def upd_fn_last [OF new] made_fn_def)
qed

text \<open>Marking a free device and unmarking it again leaves it as it was.\<close>

lemma unmark_dev:
  assumes s: "reg_ok s" and d: "dev_at i s = Some d" "\<not> rd_mounted d"
    and h: "\<And>d. h d = d\<lparr>rd_mounted := False, rd_ready := False, rd_data := None\<rparr>"
    and g: "\<And>d. rd_id (g d) = rd_id d \<and> rd_name (g d) = rd_name d \<and> rd_single (g d) = rd_single d"
  shows "reg_devs (upd_dev i h (upd_dev i g s)) = reg_devs s"
proof -
  note L = linksD [OF reg_okD(3) [OF s], unfolded devs_of_def fn_dev_Some]
  have "fn_dev s f \<noteq> Some i" for f using L(1) [of f i] d by (auto simp: fn_dev_Some)
  then have data: "rd_data d = None" using L(5) [OF d(1)] by (cases "rd_data d") (auto simp: fn_dev_Some)
  then have ready: "\<not> rd_ready d" using L(4) [OF d(1)] by simp
  have only: "e = d" if "e \<in> set (reg_devs s)" "rd_id e = i" for e
    using dev_at_in [of s e] reg_okD(1) [OF s] that d(1) by (simp add: ids_ok_def)
  have "h (g e) = e" if "e \<in> set (reg_devs s)" "rd_id e = i" for e
    using only [OF that] data ready d(2) g [of e] by (simp add: h)
  then show ?thesis using g by (auto simp: upd_dev_def intro!: map_idI)
qed

text \<open>A taken instance refuses another function.\<close>

lemma newfn_taken:
  assumes s: "reg_ok s" and env: "grants env r" and nf: "name_fits nf"
    and e: "ffs_find_dev (c_string (nf_name nf)) s = Some e" "rd_mounted e"
  obtains t where "usbfn_newfn env nf s = (Err ENODEV, t)" "reg_devs t = reg_devs s" "reg_fns t = reg_fns s" "reg_regions t = reg_regions s"
proof -
  let ?u = "add_fn (c_string (take (unat (nf_len nf)) (nf_name nf))) s"
  have "ffs_acquire_dev (c_string (nf_name nf)) ?u = (Err EBUSY, ?u)" using e by (simp add: ffs_acquire_dev_def add_fn_def)
  moreover have "reg_free env (reg_next s) ?u = (Ok (), drop_fn (reg_next s) ?u)"
    using free_loose(2) [OF add_fn_ok(2) [OF s]] by (simp add: new_fn_def)
  ultimately have "usbfn_newfn env nf s = (Err ENODEV, drop_fn (reg_next s) ?u)" using env nf
    by (simp add: usbfn_newfn_def grants_def name_fits_def Let_def fail_new_def add_fn_def new_fn_def)
  moreover have "reg_fns (drop_fn (reg_next s) ?u) = reg_fns s"
  proof -
    have "reg_next s \<notin> rf_id ` set (reg_fns s)" using next_free(2) [OF reg_okD(1) [OF s]] by (simp add: fn_at_def find_none_iff)
    then have "filter (\<lambda>x. rf_id x \<noteq> reg_next s) (reg_fns s) = reg_fns s" by (intro filter_True ballI) (metis image_eqI)
    then show ?thesis by (simp add: drop_fn_def add_fn_def new_fn_def)
  qed
  ultimately show thesis using that by (simp add: drop_fn_def add_fn_def)
qed

text \<open>Deleting a ready function.\<close>

lemma delfn_ready:
  assumes s: "reg_ok s" and d: "ffs_find_dev (c_string (nf_name nf)) s = Some d" "rd_data d = Some f"
    and x: "fn_at f s = Some x" "rf_dev x = Some i" "rf_bound x \<longrightarrow> in_configfs env" and "func_copy_ok env" "reg_region s = Some r"
  shows "usbfn_delfn env nf s = (Ok 0, drop_fn f (upd_dev i (\<lambda>d. d\<lparr>rd_mounted := False, rd_ready := False, rd_data := None\<rparr>)
     (s\<lparr>reg_regions := remove1 r (reg_regions s)\<rparr>)))"
proof -
  let ?g = "\<lambda>x. x\<lparr>rf_node := False, rf_cdev := False\<rparr>"
  let ?h = "\<lambda>d. d\<lparr>rd_mounted := False, rd_ready := False, rd_data := None\<rparr>"
  let ?s = "s\<lparr>reg_regions := remove1 r (reg_regions s)\<rparr>"
  let ?t = "upd_fn f ?g ?s"
  have t: "reg_ok ?t" "fn_at f ?t = Some (?g x)" using s x(1) by (simp_all add: reg_ok_upd_fn upd_fn_at)
  have gx: "rf_dev (?g x) = Some i" "rf_bound (?g x) \<longrightarrow> in_configfs env" using x by simp_all
  have "usbfn_delfn env nf s = bindS (ffs_release_dev f ?t) (\<lambda>_ s. bindS (reg_free env f s) (\<lambda>_ s. (Ok 0, s)))"
    using assms by (simp add: usbfn_delfn_def Let_def)
  also have "\<dots> = bindS (bindS (ffs_release_dev f ?t) (\<lambda>_ s. reg_free env f s)) (\<lambda>_ s. (Ok 0, s))"
    by (cases "ffs_release_dev f ?t"; cases "fst (ffs_release_dev f ?t)") auto
  also have "\<dots> = (Ok 0, drop_fn f (upd_dev i ?h ?t))" unfolding release_free [OF t gx] by simp
  also have "drop_fn f (upd_dev i ?h ?t) = drop_fn f (upd_fn f ?g (upd_dev i ?h ?s))" by simp
  also have "\<dots> = drop_fn f (upd_dev i ?h ?s)" by (rule upd_fn_drop) simp
  finally show ?thesis .
qed

text \<open>
  C19. The life of a function on a free instance, when the kernel grants everything: it is created with a
  region of its own, a second creation on the instance is refused and changes neither instances nor
  functions nor regions, its descriptors can be announced, and deleting it by name leaves
  all instances, functions and regions as they were before.
\<close>
theorem function_created_and_deleted:
  assumes run: "reg_reachable s" and env: "grants env r" "grants env' r'" "r \<notin> set (reg_regions s)" and nf: "name_fits nf"
    and d: "ffs_find_dev (c_string (nf_name nf)) s = Some d" "\<not> rd_mounted d"
  shows "let s1 = snd (usbfn_newfn env nf s); s2 = snd (reg_ready (reg_next s) s1); s3 = snd (usbfn_delfn env' nf s2);
             again = usbfn_newfn env' nf s1
         in fst (usbfn_newfn env nf s) = Ok 0 \<and> reg_fns s1 = reg_fns s @ [made_fn (reg_next s) nf (rd_id d) r]
          \<and> fst again = Err ENODEV \<and> reg_devs (snd again) = reg_devs s1 \<and> reg_fns (snd again) = reg_fns s1 \<and> reg_regions (snd again) = reg_regions s1
          \<and> fst (reg_ready (reg_next s) s1) = Ok () \<and> fst (usbfn_delfn env' nf s2) = Ok 0
          \<and> reg_devs s3 = reg_devs s \<and> reg_fns s3 = reg_fns s \<and> reg_regions s3 = reg_regions s"
proof -
  have s: "reg_ok s" by (rule reg_reachable_ok [OF run])
  let ?f = "reg_next s" and ?i = "rd_id d"
  let ?x = "made_fn ?f nf ?i r"
  define s1 where "s1 = snd (usbfn_newfn env nf s)"
  have new: "usbfn_newfn env nf s = (Ok 0, s1)" using newfn_granted [OF s env(1) nf d] by (simp add: s1_def)
  have s1: "s1 = (upd_dev ?i (\<lambda>d. d\<lparr>rd_mounted := True\<rparr>) s)
     \<lparr>reg_fns := reg_fns s @ [?x], reg_next := ?f + 1, reg_region := Some r, reg_regions := reg_regions s @ [r]\<rparr>"
    using newfn_granted [OF s env(1) nf d] by (simp add: s1_def)
  have z: "0 \<in> set (nf_name nf)" using nf by (simp add: name_fits_def)
  have ok1: "reg_ok s1" using newfn_ok [OF s z, of env] new by simp
  have at: "dev_at ?i s = Some d" by (rule find_dev_at [OF reg_okD(1) [OF s] d(1)])
  have new_id: "?f \<notin> rf_id ` set (reg_fns s)" using next_free(2) [OF reg_okD(1) [OF s]] by (simp add: fn_at_def find_none_iff)
  have x: "rf_id ?x = ?f" "rf_dev ?x = Some ?i" "\<not> rf_bound ?x" by (simp_all add: made_fn_def)
  have "find (\<lambda>x. rf_id x = ?f) (xs @ [?x]) = Some ?x" if "?f \<notin> rf_id ` set xs" for xs
    using that x(1) by (induction xs) auto
  then have fn1: "fn_at ?f s1 = Some ?x" using new_id by (simp add: fn_at_def s1)
  have dev1: "dev_at ?i s1 = Some (d\<lparr>rd_mounted := True\<rparr>)" using at by (simp add: s1 upd_dev_at)
  have find1: "ffs_find_dev (c_string (nf_name nf)) s1 = Some (d\<lparr>rd_mounted := True\<rparr>)" using d by (simp add: s1 find_dev_upd)
  obtain u where again: "usbfn_newfn env' nf s1 = (Err ENODEV, u)" and same: "reg_devs u = reg_devs s1" "reg_fns u = reg_fns s1" "reg_regions u = reg_regions s1"
    by (rule newfn_taken [OF ok1 env(2) nf find1]) simp
  have "\<not> rd_ready d"
  proof -
    note L = linksD [OF reg_okD(3) [OF s], unfolded devs_of_def fn_dev_Some]
    show ?thesis using L(4,5) [OF at] L(1) at d(2) by (cases "rd_data d") fastforce+
  qed
  then have ready: "reg_ready ?f s1 = (Ok (), upd_dev ?i (\<lambda>d. d\<lparr>rd_ready := True, rd_data := Some ?f\<rparr>) s1)" (is "_ = (_, ?s2)")
    using fn1 dev1 x(2) by (simp add: reg_ready_def with_dev_def)
  have ok2: "reg_ok ?s2" using ready_ok [OF ok1 fn1] ready by simp
  have find2: "ffs_find_dev (c_string (nf_name nf)) ?s2 = Some (d\<lparr>rd_mounted := True, rd_ready := True, rd_data := Some ?f\<rparr>)"
    using find1 by (simp add: find_dev_upd)
  let ?h = "\<lambda>d. d\<lparr>rd_mounted := False, rd_ready := False, rd_data := None\<rparr>"
  let ?t = "?s2\<lparr>reg_regions := remove1 r (reg_regions ?s2)\<rparr>"
  have del: "usbfn_delfn env' nf ?s2 = (Ok 0, drop_fn ?f (upd_dev ?i ?h ?t))"
  proof (rule delfn_ready [OF ok2 find2])
    show "fn_at ?f ?s2 = Some ?x" using fn1 by simp
    show "func_copy_ok env'" using env(2) by (simp add: grants_def)
    show "reg_region ?s2 = Some r" by (simp add: s1)
  qed (simp_all add: made_fn_def)
  have "reg_devs (drop_fn ?f (upd_dev ?i ?h ?t)) = reg_devs (upd_dev ?i ?h (upd_dev ?i (\<lambda>d. d\<lparr>rd_mounted := True, rd_ready := True, rd_data := Some ?f\<rparr>) s))"
    by (simp add: drop_fn_def s1 upd_dev_def upd_fn_def)
  also have "\<dots> = reg_devs s" by (rule unmark_dev [OF s at d(2)]) simp_all
  finally have devs: "reg_devs (drop_fn ?f (upd_dev ?i ?h ?t)) = reg_devs s" .
  have "filter (\<lambda>x. rf_id x \<noteq> ?f) (reg_fns s) = reg_fns s" using new_id by (intro filter_True ballI) (metis image_eqI)
  then have fns: "reg_fns (drop_fn ?f (upd_dev ?i ?h ?t)) = reg_fns s" using x(1) by (simp add: drop_fn_def s1 upd_dev_def)
  have "reg_regions (drop_fn ?f (upd_dev ?i ?h ?t)) = reg_regions s"
    using env(3) by (simp add: drop_fn_def s1 upd_dev_def upd_fn_def remove1_append)
  then show ?thesis
    unfolding Let_def s1_def [symmetric] ready snd_conv del again using new devs fns same s1 by simp
qed

lemma function_created_and_deleted_witness:
  "let s1 = snd (usbfn_newfn (reg_sample_env 240) (func_named 97) two_insts);
       s3 = snd (usbfn_delfn (reg_sample_env 0) (func_named 97) (snd (reg_ready 2 s1)))
   in fst (usbfn_newfn (reg_sample_env 0) (func_named 97) s1) = Err ENODEV \<and> reg_devs s3 = reg_devs two_insts \<and> reg_regions s3 = []"
proof -
  obtain d where d: "ffs_find_dev (c_string (nf_name (func_named 97))) two_insts = Some d" "\<not> rd_mounted d"
  proof -
    have "map_option rd_mounted (ffs_find_dev (c_string (nf_name (func_named 97))) two_insts) = Some False" by code_simp
    then show thesis using that by auto
  qed
  have env: "grants (reg_sample_env 240) 240" "grants (reg_sample_env 0) 0" by (simp_all add: grants_def reg_sample_env_def)
  have start: "reg_regions two_insts = []" "reg_next two_insts = 2" "name_fits (func_named 97)" by code_simp+
  have "240 \<notin> set (reg_regions two_insts)" by (simp add: start)
  from function_created_and_deleted [OF two_insts_reachable env this start(3) d] show ?thesis by (simp add: Let_def start)
qed

subsection \<open>What the registry does not look at\<close>

text \<open>
  C35. Three things the registry gets wrong. A name that no instance has makes deleting follow a null pointer, and so
  does an instance whose function has not announced its descriptors. Freeing an instance before its function
  has announced them leaves the function with a pointer to freed memory, which its next message follows. And
  when the character device of a new function cannot be added, its region stays registered although
  the function is gone.
\<close>
theorem registry_unchecked:
  assumes run: "reg_reachable s"
  shows "(func_copy_ok env \<and> (\<forall>d. ffs_find_dev (c_string (nf_name nf)) s = Some d \<longrightarrow> rd_data d = None) \<longrightarrow> fst (usbfn_delfn env nf s) = Fault)
    \<and> (dev_at i s = Some d \<and> rd_mounted d \<and> rd_data d = None \<longrightarrow>
        (\<exists>f. fn_at f s \<noteq> None \<and> fst (reg_ready f (snd (ffs_free_inst i s))) = Fault))
    \<and> (grants (env\<lparr>cdev_ret := 0\<rparr>) r \<and> cdev_ret env \<noteq> 0 \<and> name_fits nf
        \<and> ffs_find_dev (c_string (nf_name nf)) s = Some e \<and> \<not> rd_mounted e \<longrightarrow>
        fst (usbfn_newfn env nf s) = Err EBUSY \<and> fn_at (reg_next s) (snd (usbfn_newfn env nf s)) = None
        \<and> reg_regions (snd (usbfn_newfn env nf s)) = reg_regions s @ [r])"
proof (intro conjI impI)
  assume "func_copy_ok env \<and> (\<forall>d. ffs_find_dev (c_string (nf_name nf)) s = Some d \<longrightarrow> rd_data d = None)"
  then show "fst (usbfn_delfn env nf s) = Fault" by (auto simp: usbfn_delfn_def split: option.split)
next
  assume d: "dev_at i s = Some d \<and> rd_mounted d \<and> rd_data d = None"
  note L = linksD [OF reg_okD(3) [OF reg_reachable_ok [OF run]], unfolded devs_of_def fn_dev_Some]
  obtain f x where x: "fn_at f s = Some x" "rf_dev x = Some i" using L(3) d by blast
  let ?t = "snd (ffs_free_inst i s)"
  have "fn_at f ?t = Some x" "dev_at i ?t = None"
    using d x(1) by (simp_all add: ffs_free_inst_def ffs_free_dev_def functionfs_cleanup_def drop_dev_at Let_def) (simp add: dev_at_def)
  then have "fst (reg_ready f ?t) = Fault" using x(2) by (simp add: reg_ready_def with_dev_def)
  then show "\<exists>f. fn_at f s \<noteq> None \<and> fst (reg_ready f ?t) = Fault" using x(1) by blast
next
  assume c: "grants (env\<lparr>cdev_ret := 0\<rparr>) r \<and> cdev_ret env \<noteq> 0 \<and> name_fits nf
        \<and> ffs_find_dev (c_string (nf_name nf)) s = Some e \<and> \<not> rd_mounted e"
  have s: "reg_ok s" by (rule reg_reachable_ok [OF run])
  let ?f = "reg_next s" and ?n = "c_string (take (unat (nf_len nf)) (nf_name nf))"
  let ?t = "add_fn ?n s"
  note t = add_fn_ok [OF s, of ?n]
  obtain u where u: "ffs_acquire_dev (c_string (nf_name nf)) ?t = (Ok (rd_id e), u)" "reg_regions u = reg_regions s"
    using c by (simp add: ffs_acquire_dev_def add_fn_def upd_dev_def)
  let ?v = "upd_fn ?f (\<lambda>x. x\<lparr>rf_dev := Some (rd_id e)\<rparr>) u"
  have v: "reg_ok ?v" "fn_at ?f ?v = Some (new_fn ?f ?n\<lparr>rf_dev := Some (rd_id e)\<rparr>)" by (rule acquire_ok [OF t(1,2) _ u(1)], simp add: new_fn_def)+
  let ?w = "upd_fn ?f (\<lambda>x. x\<lparr>rf_region := Some r\<rparr>) (?v\<lparr>reg_region := Some r, reg_regions := reg_regions s @ [r]\<rparr>)"
  have w: "reg_ok ?w" "fn_at ?f ?w = Some (new_fn ?f ?n\<lparr>rf_dev := Some (rd_id e), rf_region := Some r\<rparr>)"
    by (simp add: reg_ok_upd_fn v(1)) (subst upd_fn_at, simp_all add: v(2))
  have fail: "release_new env ?f ?w = (Err EBUSY, drop_fn ?f (upd_dev (rd_id e) (\<lambda>d. d\<lparr>rd_mounted := False, rd_ready := False, rd_data := None\<rparr>) ?w))"
  proof -
    have "release_new env ?f ?w = bindS (bindS (ffs_release_dev ?f ?w) (\<lambda>_ s. reg_free env ?f s)) (\<lambda>_ s. (Err EBUSY, s))"
      by (cases "ffs_release_dev ?f ?w"; cases "fst (ffs_release_dev ?f ?w)") (auto simp: release_new_def fail_new_def)
    also have "bindS (ffs_release_dev ?f ?w) (\<lambda>_ s. reg_free env ?f s) =
        (Ok (), drop_fn ?f (upd_dev (rd_id e) (\<lambda>d. d\<lparr>rd_mounted := False, rd_ready := False, rd_data := None\<rparr>) ?w))"
      by (rule release_free [OF w]) (simp_all add: new_fn_def)
    finally show ?thesis by simp
  qed
  have run: "usbfn_newfn env nf s = release_new env ?f ?w"
    using c u by (simp add: usbfn_newfn_def grants_def name_fits_def Let_def newfn_chrdev_def add_fn_def new_fn_def)
  show "fst (usbfn_newfn env nf s) = Err EBUSY" unfolding run fail by simp
  show "fn_at ?f (snd (usbfn_newfn env nf s)) = None" unfolding run fail by (simp only: snd_conv drop_fn_none)
  show "reg_regions (snd (usbfn_newfn env nf s)) = reg_regions s @ [r]" unfolding run fail by (simp add: drop_fn_def)
qed

text \<open>An instance that was taken, and a kernel that refuses the character device.\<close>

definition one_func :: registry where
  "one_func = snd (usbfn_newfn (reg_sample_env 240) (func_named 97) two_insts)"

lemma registry_unchecked_witness:
  "fst (usbfn_delfn (reg_sample_env 0) (func_named 97) one_func) = Fault
   \<and> (\<exists>f. fst (reg_ready f (snd (ffs_free_inst 0 one_func))) = Fault)
   \<and> reg_regions (snd (usbfn_newfn (reg_sample_env 241\<lparr>cdev_ret := - 12\<rparr>) (func_named 98) one_func)) = [240, 241]"
proof -
  have run: "reg_reachable one_func"
    unfolding one_func_def by (intro reg_reachable.step [OF _ reg_step.by_newfn] name_terminated two_insts_reachable)
  have find: "map_option rd_data (ffs_find_dev (c_string (nf_name (func_named 97))) one_func) = Some None"
    "map_option rd_mounted (ffs_find_dev (c_string (nf_name (func_named 98))) one_func) = Some False"
    "map_option (\<lambda>d. (rd_mounted d, rd_data d)) (dev_at 0 one_func) = Some (True, None)" "reg_regions one_func = [240]"
    "name_fits (func_named 98)" by code_simp+
  then obtain d e where d: "dev_at 0 one_func = Some d" "rd_mounted d" "rd_data d = None"
    and e: "ffs_find_dev (c_string (nf_name (func_named 98))) one_func = Some e" "\<not> rd_mounted e" by auto
  have none: "\<forall>d. ffs_find_dev (c_string (nf_name (func_named 97))) one_func = Some d \<longrightarrow> rd_data d = None" using find(1) by auto
  have env: "grants ((reg_sample_env 241\<lparr>cdev_ret := - 12\<rparr>)\<lparr>cdev_ret := 0\<rparr>) 241" "func_copy_ok (reg_sample_env 0)"
    by (simp_all add: grants_def reg_sample_env_def)
  have ret: "cdev_ret (reg_sample_env 241\<lparr>cdev_ret := - 12\<rparr>) \<noteq> 0" by simp
  from registry_unchecked [OF run, of "reg_sample_env 0" "func_named 97" 0 d 0 e] none env(2) d
  have "fst (usbfn_delfn (reg_sample_env 0) (func_named 97) one_func) = Fault"
    "\<exists>f. fst (reg_ready f (snd (ffs_free_inst 0 one_func))) = Fault" by blast+
  moreover from registry_unchecked [OF run, of "reg_sample_env 241\<lparr>cdev_ret := - 12\<rparr>" "func_named 98" 0 d 241 e] env(1) ret find(4,5) e
  have "reg_regions (snd (usbfn_newfn (reg_sample_env 241\<lparr>cdev_ret := - 12\<rparr>) (func_named 98) one_func)) = [240, 241]" by simp
  ultimately show ?thesis by blast
qed

end
