(* ===== verification/Pnp.thy ===== *)
theory Pnp
  imports Results
begin

section \<open>USB plug and play notifications of the host\<close>

text \<open>
  \<open>model/usb/host/src/usb_pnp_notify.c\<close>: the kernel's notifier tells of devices that come and go, clients
  tell of interfaces that are bound and released, and one thread reports to the device host. Callback, clients
  and thread meet in one slot (\<open>g_usbDevice\<close>, with the command in \<open>g_usbPnpNotifyCmdType\<close>) and in the list of
  known devices. A callback, a call of a client and a turn of the thread are one step each: what they do to the slot
  does not interleave within a step. The test mode of the file is off, as it is by default.

  \<open>UsbPnpNotifyMatchInfoTable\<close> is of a header of the framework; its fields have the widths of what is stored
  into them, and \<open>max_ifs\<close> stands for \<open>USB_PNP_INFO_MAX_INTERFACES\<close>. Status codes are the result \<open>Ok\<close>; \<open>Fault\<close> is an
  access through a pointer that is null, stale or of another type, or out of bounds.
\<close>

subsection \<open>Data\<close>

record usb_if =
  ifClass :: u8
  ifSubClass :: u8
  ifProtocol :: u8
  ifNumber :: u8

text \<open>\<open>bcdDeviceLow\<close> and \<open>bcdDeviceHigh\<close> of the code both receive the whole \<open>bcdDevice\<close>: one field here.\<close>

record dev_desc =
  vendorId :: u16
  productId :: u16
  bcdDevice :: u16
  devClass :: u8
  devSubClass :: u8
  devProtocol :: u8

text \<open>A device of the kernel: an interface is \<open>None\<close> when it or its setting is null.\<close>

record usb_device =
  devnum :: int
  busnum :: "int option"
  descriptor :: dev_desc
  actconfig :: "(u8 \<times> usb_if option list) option"

datatype remove_type = REMOVE_BUS_DEV_NUM | REMOVE_INTERFACE_NUM

record match_table =
  usbDevAddr :: u64
  devNum :: int
  busNum :: int
  devDesc :: dev_desc
  removeType :: remove_type
  numInfos :: u8
  ifInfo :: "usb_if list"

datatype pnp_status = INIT_STATUS | ADD_STATUS | REMOVE_STATUS | INTERFACE_STATUS

text \<open>\<open>struct UsbPnpDeviceInfo\<close>; \<open>info_at\<close> is its address.\<close>

record device_info =
  info_at :: nat
  info_id :: int
  pnp_status :: pnp_status
  ifRemoved :: "bool list"
  info :: match_table

text \<open>\<open>struct UsbPnpAddRemoveInfo\<close>.\<close>

record add_remove =
  ar_devNum :: int
  ar_busNum :: int
  ar_if :: usb_if

datatype pnp_cmd =
    NOTIFY_ADD_INTERFACE | NOTIFY_REMOVE_INTERFACE | NOTIFY_REPORT_INTERFACE
  | NOTIFY_ADD_DEVICE | NOTIFY_REMOVE_DEVICE | GETDEVICES | OTHER_CMD int

text \<open>What \<open>g_usbDevice\<close> points to: a device, or \<open>g_usbPnpInfo\<close> cast to one.\<close>

datatype pnp_target = Usb_device u64 | Pnp_info

datatype gadget_type = GADGET_ADD | GADGET_REMOVE

text \<open>
  The variables of the file. \<open>add_table\<close> is the static table of \<open>UsbPnpNotifyInitInfo\<close>; \<open>pnp_sent\<close> and
  \<open>gadget_sent\<close> are the events that were sent. The last six describe threads and notifier: whether the variable
  is set, whether the thread runs, how often the notifier is registered.
\<close>

record pnp =
  infos :: "device_info list"
  idNum :: int
  next_at :: nat
  g_cmd :: pnp_cmd
  g_remove :: remove_type
  g_usbDevice :: "pnp_target option"
  g_usbPnpInfo :: add_remove
  add_table :: match_table
  g_gadget :: "gadget_type option"
  g_preAction :: "gadget_type option"
  pnp_sent :: "(pnp_cmd \<times> match_table) list"
  gadget_sent :: "gadget_type list"
  usb_thread :: bool
  usb_thread_runs :: bool
  gadget_thread :: bool
  gadget_thread_runs :: bool
  nb_registered :: nat
  list_ready :: bool

text \<open>What the kernel and the framework answer. \<open>usb_devs\<close> is the memory of the kernel's devices, \<open>usb_list\<close> their list.\<close>

record pnp_env =
  max_ifs :: nat
  usb_devs :: "u64 \<Rightarrow> usb_device option"
  usb_list :: "u64 list"
  info_addr :: u64
  object_ok :: bool
  calloc_ok :: bool
  sbuf_ok :: bool
  sbuf_write_ok :: bool
  send_ret :: hdf_status
  thread_ok :: bool
  reply_ok :: "nat \<Rightarrow> bool"

abbreviation (input) INT32_MAX :: int where "INT32_MAX \<equiv> 2147483647"

definition zero_if :: usb_if where
  "zero_if = \<lparr>ifClass = 0, ifSubClass = 0, ifProtocol = 0, ifNumber = 0\<rparr>"

definition zero_table :: "nat \<Rightarrow> match_table" where
  "zero_table n = \<lparr>usbDevAddr = 0, devNum = 0, busNum = 0, devDesc = \<lparr>vendorId = 0, productId = 0, bcdDevice = 0, devClass = 0,
     devSubClass = 0, devProtocol = 0\<rparr>, removeType = REMOVE_BUS_DEV_NUM, numInfos = 0, ifInfo = replicate n zero_if\<rparr>"

definition upd_info :: "nat \<Rightarrow> (device_info \<Rightarrow> device_info) \<Rightarrow> pnp \<Rightarrow> pnp" where
  "upd_info a f s = s\<lparr>infos := map (\<lambda>i. if info_at i = a then f i else i) (infos s)\<rparr>"

definition info_of :: "nat \<Rightarrow> pnp \<Rightarrow> device_info option" where
  "info_of a s = find (\<lambda>i. info_at i = a) (infos s)"

subsection \<open>The list of known devices\<close>

definition UsbPnpNotifyCreateInfo :: "pnp_env \<Rightarrow> pnp \<Rightarrow> nat option \<times> pnp" where
  "UsbPnpNotifyCreateInfo env s =
     (if \<not> calloc_ok env then (None, s)
      else let n = (if idNum s = INT32_MAX then 1 else idNum s)
        in (Some (next_at s), s\<lparr>infos := infos s @ [\<lparr>info_at = next_at s, info_id = n, pnp_status = INIT_STATUS,
              ifRemoved = replicate (max_ifs env) False, info = zero_table (max_ifs env)\<rparr>], idNum := n + 1, next_at := next_at s + 1\<rparr>))"

datatype info_query = By_num int int | By_id int | By_addr u64

fun query_matches :: "info_query \<Rightarrow> device_info \<Rightarrow> bool" where
  "query_matches (By_num dev bus) i \<longleftrightarrow> devNum (info i) = dev \<and> busNum (info i) = bus"
| "query_matches (By_id n) i \<longleftrightarrow> info_id i = n"
| "query_matches (By_addr a) i \<longleftrightarrow> usbDevAddr (info i) = a"

definition UsbPnpNotifyFindInfo :: "info_query \<Rightarrow> pnp \<Rightarrow> device_info option" where
  "UsbPnpNotifyFindInfo q s = find (query_matches q) (infos s)"

text \<open>A record is removed by its identifier: the first one that has it.\<close>

fun remove_id :: "int \<Rightarrow> device_info list \<Rightarrow> device_info list" where
  "remove_id n [] = []"
| "remove_id n (i # is) = (if info_id i = n then is else i # remove_id n is)"

definition UsbPnpNotifyDestroyInfo :: "nat \<Rightarrow> pnp \<Rightarrow> hdf_status res \<times> pnp" where
  "UsbPnpNotifyDestroyInfo a s = (case info_of a s of
     None \<Rightarrow> (Fault, s)
   | Some i \<Rightarrow> (Ok HDF_SUCCESS, s\<lparr>infos := remove_id (info_id i) (infos s)\<rparr>))"

subsection \<open>Tables\<close>

text \<open>The interfaces of a device: \<open>i\<close> is the index of the first of the \<open>count\<close> ones left.\<close>

fun if_loop :: "nat \<Rightarrow> nat \<Rightarrow> usb_if option list \<Rightarrow> usb_if list \<Rightarrow> hdf_status res \<times> usb_if list" where
  "if_loop 0 i cfg ifs = (Ok HDF_SUCCESS, ifs)"
| "if_loop (Suc count) i cfg ifs =
     (if length cfg \<le> i then (Fault, ifs)
      else case cfg ! i of
        None \<Rightarrow> (Ok HDF_ERR_INVALID_PARAM, ifs)
      | Some x \<Rightarrow> if length ifs \<le> i then (Fault, ifs) else if_loop count (i + 1) cfg (ifs[i := x]))"

definition UsbPnpNotifyAddInitInfo :: "pnp_env \<Rightarrow> nat \<Rightarrow> u64 \<Rightarrow> pnp \<Rightarrow> hdf_status res \<times> pnp" where
  "UsbPnpNotifyAddInitInfo env a addr s = (case usb_devs env addr of
     None \<Rightarrow> (Fault, s)
   | Some d \<Rightarrow>
       let set = (\<lambda>f s. upd_info a (\<lambda>i. i\<lparr>info := f (info i)\<rparr>) s);
           s = set (\<lambda>t. t\<lparr>usbDevAddr := addr, devNum := devnum d\<rparr>) s
       in case busnum d of
            None \<Rightarrow> (Ok HDF_ERR_INVALID_PARAM, s)
          | Some bus \<Rightarrow>
              let s = set (\<lambda>t. t\<lparr>busNum := bus, devDesc := descriptor d\<rparr>) s
              in case actconfig d of
                   None \<Rightarrow> (Ok HDF_ERR_INVALID_PARAM, s)
                 | Some (n, cfg) \<Rightarrow>
                     let s = set (\<lambda>t. t\<lparr>numInfos := n\<rparr>) s
                     in case info_of a s of
                          None \<Rightarrow> (Fault, s)
                        | Some i \<Rightarrow> let (r, ifs) = if_loop (unat n) 0 cfg (ifInfo (info i)) in (r, set (\<lambda>t. t\<lparr>ifInfo := ifs\<rparr>) s))"

text \<open>The flags of the interfaces that equal the one in the command.\<close>

definition mark_removed :: "bool \<Rightarrow> usb_if \<Rightarrow> nat \<Rightarrow> usb_if list \<Rightarrow> bool list \<Rightarrow> bool list" where
  "mark_removed b x n ifs removed = map (\<lambda>i. if i < n \<and> ifs ! i = x then b else removed ! i) [0..<length removed]"

text \<open>The loop that copies the interfaces that are not removed; what is behind the \<open>j\<close>-th entry stays.\<close>

fun fill_loop :: "nat \<Rightarrow> nat \<Rightarrow> nat \<Rightarrow> usb_if list \<Rightarrow> bool list \<Rightarrow> usb_if list \<Rightarrow> nat \<times> usb_if list" where
  "fill_loop 0 i j ifs removed out = (j, out)"
| "fill_loop (Suc count) i j ifs removed out =
     (if removed ! i then fill_loop count (i + 1) j ifs removed out
      else fill_loop count (i + 1) (j + 1) ifs removed (out[j := ifs ! i]))"

text \<open>Arrays are accessed below \<open>numInfos\<close>; the device's and the table's have the same length.\<close>

definition UsbPnpNotifyAddInterfaceInitInfo :: "nat \<Rightarrow> pnp \<Rightarrow> unit res \<times> pnp" where
  "UsbPnpNotifyAddInterfaceInitInfo a s = (case info_of a s of
     None \<Rightarrow> (Fault, s)
   | Some i \<Rightarrow>
       let n = unat (numInfos (info i)); ifs = ifInfo (info i); x = ar_if (g_usbPnpInfo s)
       in if length ifs < n \<or> length (ifRemoved i) < n \<or> length (ifInfo (add_table s)) < n then (Fault, s)
          else let removed = mark_removed (g_cmd s = NOTIFY_REMOVE_INTERFACE) x n ifs (ifRemoved i);
                   s = upd_info a (\<lambda>i. i\<lparr>ifRemoved := removed\<rparr>) s
            in if g_cmd s = NOTIFY_REMOVE_INTERFACE
               then (if ifInfo (add_table s) = [] then (Fault, s)
                     else (Ok (), s\<lparr>add_table := (add_table s)\<lparr>numInfos := 1, ifInfo := (ifInfo (add_table s))[0 := x]\<rparr>\<rparr>))
               else let (j, out) = fill_loop n 0 0 ifs removed (ifInfo (add_table s))
                 in (Ok (), s\<lparr>add_table := (add_table s)\<lparr>numInfos := of_nat j, ifInfo := out\<rparr>\<rparr>))"

definition is_if_cmd :: "pnp_cmd \<Rightarrow> bool" where
  "is_if_cmd c \<longleftrightarrow> c = NOTIFY_ADD_INTERFACE \<or> c = NOTIFY_REMOVE_INTERFACE"

definition target_addr :: "pnp_env \<Rightarrow> pnp_target \<Rightarrow> u64" where
  "target_addr env t = (case t of Usb_device addr \<Rightarrow> addr | Pnp_info \<Rightarrow> info_addr env)"

text \<open>The result is a status and the table in the buffer.\<close>

definition UsbPnpNotifyInitInfo :: "pnp_env \<Rightarrow> nat \<Rightarrow> pnp_target \<Rightarrow> pnp \<Rightarrow> (hdf_status \<times> match_table) res \<times> pnp" where
  "UsbPnpNotifyInitInfo env a t s =
     (let put = (\<lambda>table s. (Ok (if sbuf_write_ok env then HDF_SUCCESS else HDF_FAILURE, table), s));
          own = (\<lambda>s. case info_of a s of None \<Rightarrow> (Fault, s) | Some i \<Rightarrow> put (info i) s)
      in if is_if_cmd (g_cmd s) then
           case info_of a s of None \<Rightarrow> (Fault, s)
           | Some i \<Rightarrow>
               let s = s\<lparr>add_table := (info i)\<lparr>removeType := g_remove s, numInfos := numInfos (add_table s), ifInfo := ifInfo (add_table s)\<rparr>\<rparr>
               in bindS (UsbPnpNotifyAddInterfaceInitInfo a s) (\<lambda>_ s. put (add_table s) s)
         else if g_cmd s = NOTIFY_REPORT_INTERFACE then
           (case t of Pnp_info \<Rightarrow> (Fault, s)
            | Usb_device addr \<Rightarrow> bindS (UsbPnpNotifyAddInitInfo env a addr s) (\<lambda>r s.
                if r \<noteq> HDF_SUCCESS then (Ok (r, zero_table (max_ifs env)), s) else own s))
         else own s)"

subsection \<open>Sending\<close>

text \<open>Which record an event is about. A device where an interface is expected is another type.\<close>

definition UsbPnpNotifyGetDeviceInfo :: "pnp_env \<Rightarrow> pnp_target \<Rightarrow> pnp \<Rightarrow> nat option res \<times> pnp" where
  "UsbPnpNotifyGetDeviceInfo env t s =
     (let found = (\<lambda>i s. case i of None \<Rightarrow> (Ok None, s)
            | Some a \<Rightarrow> (Ok (Some a), upd_info a (\<lambda>i. i\<lparr>info := (info i)\<lparr>removeType := g_remove s\<rparr>\<rparr>) s))
      in if is_if_cmd (g_cmd s) then
           (if t \<noteq> Pnp_info then (Fault, s)
            else found (map_option info_at (UsbPnpNotifyFindInfo (By_num (ar_devNum (g_usbPnpInfo s)) (ar_busNum (g_usbPnpInfo s))) s)) s)
         else if g_cmd s = NOTIFY_ADD_DEVICE \<or> g_cmd s = NOTIFY_REMOVE_DEVICE then
           found (map_option info_at (UsbPnpNotifyFindInfo (By_addr (target_addr env t)) s)) s
         else let (i, s) = UsbPnpNotifyCreateInfo env s in found i s)"

text \<open>The part between the buffer and the label \<open>OUT\<close>: sent only in the first state.\<close>

definition send_table :: "pnp_env \<Rightarrow> nat \<Rightarrow> match_table \<Rightarrow> pnp \<Rightarrow> hdf_status res \<times> pnp" where
  "send_table env a table s = (case info_of a s of
     None \<Rightarrow> (Fault, s)
   | Some i \<Rightarrow>
       if pnp_status i = INIT_STATUS then
         (if send_ret env \<noteq> HDF_SUCCESS then (Ok (send_ret env), s)
          else (Ok HDF_SUCCESS, upd_info a (\<lambda>i. i\<lparr>pnp_status := ADD_STATUS\<rparr>) (s\<lparr>pnp_sent := pnp_sent s @ [(g_cmd s, table)]\<rparr>)))
       else (Ok HDF_ERR_INVALID_OBJECT, s))"

definition UsbPnpNotifyHdfSendEvent :: "pnp_env \<Rightarrow> pnp_target \<Rightarrow> pnp \<Rightarrow> hdf_status res \<times> pnp" where
  "UsbPnpNotifyHdfSendEvent env t s =
     (if \<not> object_ok env then (Ok HDF_ERR_INVALID_PARAM, s)
      else if \<not> sbuf_ok env then (Ok HDF_FAILURE, s)
      else bindS (UsbPnpNotifyGetDeviceInfo env t s) (\<lambda>found s. case found of
        None \<Rightarrow> (Ok HDF_FAILURE, s)
      | Some a \<Rightarrow>
          bindS (bindS (UsbPnpNotifyInitInfo env a t s) (\<lambda>(r, table) s.
            if r \<noteq> HDF_SUCCESS then (Ok r, s) else send_table env a table s)) (\<lambda>r s.
          if r \<noteq> HDF_SUCCESS \<or> g_cmd s = NOTIFY_REMOVE_DEVICE
          then bindS (UsbPnpNotifyDestroyInfo a s) (\<lambda>_ s. (Ok r, s))
          else (Ok r, s))))"

text \<open>One turn of the thread, which waits for \<open>g_usbDevice\<close>.\<close>

definition UsbPnpNotifyReportThread :: "pnp_env \<Rightarrow> pnp \<Rightarrow> unit res \<times> pnp" where
  "UsbPnpNotifyReportThread env s = (case g_usbDevice s of
     None \<Rightarrow> (Ok (), s)
   | Some t \<Rightarrow> bindS (UsbPnpNotifyHdfSendEvent env (if is_if_cmd (g_cmd s) then Pnp_info else t) s) (\<lambda>_ s.
       (Ok (), s\<lparr>g_usbDevice := None\<rparr>)))"

definition GadgetPnpNotifyHdfSendEvent :: "pnp_env \<Rightarrow> gadget_type \<Rightarrow> pnp \<Rightarrow> hdf_status \<times> pnp" where
  "GadgetPnpNotifyHdfSendEvent env g s =
     (if \<not> object_ok env then (HDF_ERR_INVALID_PARAM, s)
      else if \<not> sbuf_ok env then (HDF_FAILURE, s)
      else if \<not> sbuf_write_ok env then (HDF_FAILURE, s)
      else (send_ret env, if send_ret env = HDF_SUCCESS then s\<lparr>gadget_sent := gadget_sent s @ [g]\<rparr> else s))"

definition GadgetPnpNotifyReportThread :: "pnp_env \<Rightarrow> pnp \<Rightarrow> pnp" where
  "GadgetPnpNotifyReportThread env s = (case g_gadget s of
     None \<Rightarrow> s
   | Some g \<Rightarrow> (snd (GadgetPnpNotifyHdfSendEvent env g s))\<lparr>g_gadget := None\<rparr>)"

subsection \<open>The notifier\<close>

datatype usb_action = USB_DEVICE_ADD u64 | USB_DEVICE_REMOVE u64 | USB_GADGET gadget_type | OTHER_ACTION

definition UsbPnpNotifyCallback :: "pnp_env \<Rightarrow> usb_action \<Rightarrow> pnp \<Rightarrow> unit res \<times> pnp" where
  "UsbPnpNotifyCallback env action s = (case action of
     USB_DEVICE_ADD addr \<Rightarrow>
       (case UsbPnpNotifyCreateInfo env s of
          (None, s) \<Rightarrow> (Ok (), s)
        | (Some a, s) \<Rightarrow> bindS (UsbPnpNotifyAddInitInfo env a addr s) (\<lambda>r s.
            if r \<noteq> HDF_SUCCESS then (Ok (), s)
            else (Ok (), s\<lparr>g_usbDevice := Some (Usb_device addr), g_cmd := NOTIFY_ADD_DEVICE\<rparr>)))
   | USB_DEVICE_REMOVE addr \<Rightarrow>
       (case UsbPnpNotifyFindInfo (By_addr addr) s of
          None \<Rightarrow> (Ok (), s)
        | Some i \<Rightarrow>
            let st = (if pnp_status i \<noteq> INIT_STATUS then INIT_STATUS else REMOVE_STATUS);
                s = upd_info (info_at i) (\<lambda>i. i\<lparr>pnp_status := st\<rparr>) s
            in (Ok (), s\<lparr>g_usbDevice := Some (Usb_device addr), g_cmd := NOTIFY_REMOVE_DEVICE, g_remove := REMOVE_BUS_DEV_NUM\<rparr>))
   | USB_GADGET g \<Rightarrow>
       (if g_preAction s = Some g then (Ok (), s) else (Ok (), s\<lparr>g_gadget := Some g, g_preAction := Some g\<rparr>))
   | OTHER_ACTION \<Rightarrow> (Ok (), s))"

subsection \<open>The calls of clients\<close>

definition UsbPnpNotifyReadPnpInfo :: "add_remove option \<Rightarrow> pnp \<Rightarrow> pnp" where
  "UsbPnpNotifyReadPnpInfo data s = (case data of
     None \<Rightarrow> s
   | Some ar \<Rightarrow>
       let s = s\<lparr>g_usbPnpInfo := ar, g_usbDevice := Some Pnp_info\<rparr>
       in case UsbPnpNotifyFindInfo (By_num (ar_devNum ar) (ar_busNum ar)) s of
            None \<Rightarrow> s
          | Some i \<Rightarrow> upd_info (info_at i) (\<lambda>i. i\<lparr>pnp_status := (if pnp_status i \<noteq> INIT_STATUS then INIT_STATUS else INTERFACE_STATUS)\<rparr>) s)"

text \<open>\<open>reply_ok n\<close> is whether the \<open>n\<close>-th write into the reply works; the walk over the devices ends at the first that does not.\<close>

fun write_all :: "(nat \<Rightarrow> bool) \<Rightarrow> int list \<Rightarrow> int list \<Rightarrow> bool \<times> int list" where
  "write_all ok [] reply = (True, reply)"
| "write_all ok (v # vs) reply = (if ok (length reply) then write_all ok vs (reply @ [v]) else (False, reply))"

definition status_code :: "pnp_status \<Rightarrow> int" where
  "status_code st = (case st of INIT_STATUS \<Rightarrow> 0 | ADD_STATUS \<Rightarrow> 1 | REMOVE_STATUS \<Rightarrow> 2 | INTERFACE_STATUS \<Rightarrow> 3)"

definition device_fields :: "device_info \<Rightarrow> int list" where
  "device_fields i = [busNum (info i), devNum (info i), uint (devClass (devDesc (info i))), uint (devSubClass (devDesc (info i))),
     uint (devProtocol (devDesc (info i))), status_code (pnp_status i)]"

fun UsbPnpGetDevices :: "(nat \<Rightarrow> bool) \<Rightarrow> device_info list \<Rightarrow> int list \<Rightarrow> int list" where
  "UsbPnpGetDevices ok [] reply = reply"
| "UsbPnpGetDevices ok (i # is) reply =
     (let (all, reply) = write_all ok (device_fields i) reply in if all then UsbPnpGetDevices ok is reply else reply)"

text \<open>\<open>usb_for_each_dev\<close> ends at the first device whose report fails.\<close>

fun report_all :: "pnp_env \<Rightarrow> u64 list \<Rightarrow> pnp \<Rightarrow> unit res \<times> pnp" where
  "report_all env [] s = (Ok (), s)"
| "report_all env (addr # rest) s = bindS (UsbPnpNotifyHdfSendEvent env (Usb_device addr) s) (\<lambda>r s.
     if r \<noteq> HDF_SUCCESS then (Ok (), s) else report_all env rest s)"

text \<open>The result: the status and the reply, without its last number, which is always written last.\<close>

definition UsbPnpNotifyDispatch :: "pnp_env \<Rightarrow> pnp_cmd \<Rightarrow> add_remove option \<Rightarrow> pnp \<Rightarrow> (hdf_status \<times> int list) res \<times> pnp" where
  "UsbPnpNotifyDispatch env cmd data s =
     (let s = (if cmd \<noteq> GETDEVICES then s\<lparr>g_cmd := cmd\<rparr> else s)
      in case cmd of
           NOTIFY_ADD_INTERFACE \<Rightarrow> (Ok (HDF_SUCCESS, []), UsbPnpNotifyReadPnpInfo data s)
         | NOTIFY_REMOVE_INTERFACE \<Rightarrow> (Ok (HDF_SUCCESS, []), (UsbPnpNotifyReadPnpInfo data s)\<lparr>g_remove := REMOVE_INTERFACE_NUM\<rparr>)
         | NOTIFY_REPORT_INTERFACE \<Rightarrow> bindS (report_all env (usb_list env) s) (\<lambda>_ s. (Ok (HDF_SUCCESS, []), s))
         | GETDEVICES \<Rightarrow> (Ok (HDF_SUCCESS, UsbPnpGetDevices (reply_ok env) (infos s) []), s)
         | _ \<Rightarrow> (Ok (HDF_ERR_NOT_SUPPORT, []), s))"

subsection \<open>Start and end\<close>

definition UsbPnpNotifyBind :: "pnp_env \<Rightarrow> hdf_status" where
  "UsbPnpNotifyBind env = (if \<not> object_ok env then HDF_ERR_INVALID_OBJECT else HDF_SUCCESS)"

text \<open>\<open>kthread_run\<close> never returns null: a thread that could not be made leaves an error in the variable.\<close>

definition UsbPnpNotifyInit :: "pnp_env \<Rightarrow> pnp \<Rightarrow> hdf_status \<times> pnp" where
  "UsbPnpNotifyInit env s =
     (if \<not> object_ok env then (HDF_ERR_INVALID_OBJECT, s)
      else let s = (if list_ready s then s else s\<lparr>list_ready := True, infos := []\<rparr>);
          s = s\<lparr>nb_registered := nb_registered s + 1\<rparr>;
          s = (if usb_thread s then s else s\<lparr>usb_thread := True, usb_thread_runs := thread_ok env\<rparr>);
          s = (if gadget_thread s then s else s\<lparr>gadget_thread := True, gadget_thread_runs := thread_ok env\<rparr>)
      in (HDF_SUCCESS, s))"

text \<open>
  Stopping a thread waits until it ends, and a thread that waits for an event ends only after one: \<open>None\<close> is a call that
  waits forever. (A thread in its pause after an event would end at once.) A thread that does not run any more cannot be stopped.
\<close>

definition UsbPnpNotifyRelease :: "pnp_env \<Rightarrow> pnp \<Rightarrow> unit option res \<times> pnp" where
  "UsbPnpNotifyRelease env s =
     (if \<not> object_ok env then (Ok (Some ()), s)
      else bindS (if \<not> usb_thread s then (Ok (Some ()), s)
            else if \<not> usb_thread_runs s then (Fault, s)
            else if g_usbDevice s = None then (Ok None, s)
            else bindS (UsbPnpNotifyReportThread env s) (\<lambda>_ s. (Ok (Some ()), s\<lparr>usb_thread_runs := False\<rparr>))) (\<lambda>r s.
     if r = None then (Ok None, s)
     else bindS (if \<not> gadget_thread s then (Ok (Some ()), s)
            else if \<not> gadget_thread_runs s then (Fault, s)
            else if g_gadget s = None then (Ok None, s)
            else (Ok (Some ()), (GadgetPnpNotifyReportThread env s)\<lparr>gadget_thread_runs := False\<rparr>)) (\<lambda>r s.
     if r = None then (Ok None, s) else (Ok (Some ()), s\<lparr>nb_registered := nb_registered s - 1\<rparr>))))"

end
