(* ===== verification/Pnp_Inv.thy ===== *)
theory Pnp_Inv
  imports Pnp
begin

section \<open>USB plug and play notifications: what every function keeps\<close>

text \<open>
  Records have addresses of their own and arrays of the length of the table (\<open>pnp_ok\<close>), whatever the
  notifier, the clients and the thread do, and in whichever order (\<open>pnp_reachable\<close>).
\<close>

subsection \<open>Records as a map\<close>

lemma info_of_upd: "(\<And>i. info_at (f i) = info_at i) \<Longrightarrow>
    info_of b (upd_info a f s) = (if b = a then map_option f (info_of b s) else info_of b s)"
proof -
  assume f: "\<And>i. info_at (f i) = info_at i"
  have "find (\<lambda>i. info_at i = b) (map (\<lambda>i. if info_at i = a then f i else i) is) =
      (if b = a then map_option f (find (\<lambda>i. info_at i = b) is) else find (\<lambda>i. info_at i = b) is)" for "is"
    by (induction "is") (auto simp: f)
  then show ?thesis by (simp add: info_of_def upd_info_def)
qed

lemma upd_info_other [simp]:
  "g_cmd (upd_info a f s) = g_cmd s" "g_remove (upd_info a f s) = g_remove s" "g_usbDevice (upd_info a f s) = g_usbDevice s"
  "g_usbPnpInfo (upd_info a f s) = g_usbPnpInfo s" "add_table (upd_info a f s) = add_table s" "pnp_sent (upd_info a f s) = pnp_sent s"
  "next_at (upd_info a f s) = next_at s" "idNum (upd_info a f s) = idNum s"
  by (simp_all add: upd_info_def)

lemma info_of_other [simp]:
  "info_of a (s\<lparr>add_table := t\<rparr>) = info_of a s" "info_of a (s\<lparr>pnp_sent := e\<rparr>) = info_of a s" "info_of a (s\<lparr>g_cmd := c\<rparr>) = info_of a s"
  "info_of a (s\<lparr>g_usbDevice := d\<rparr>) = info_of a s" "info_of a (s\<lparr>g_remove := r\<rparr>) = info_of a s" "info_of a (s\<lparr>g_usbPnpInfo := x\<rparr>) = info_of a s"
  by (simp_all add: info_of_def)

lemma upd_info_twice: "(\<And>i. info_at (f i) = info_at i) \<Longrightarrow> upd_info a g (upd_info a f s) = upd_info a (\<lambda>i. g (f i)) s"
  by (auto simp: upd_info_def)

lemma info_of_at: "info_of a s = Some i \<Longrightarrow> info_at i = a \<and> i \<in> set (infos s)"
  by (auto simp: info_of_def find_Some_iff)

lemma info_of_in: "distinct (map info_at (infos s)) \<Longrightarrow> i \<in> set (infos s) \<Longrightarrow> info_of (info_at i) s = Some i"
proof -
  have "distinct (map info_at is) \<Longrightarrow> i \<in> set is \<Longrightarrow> find (\<lambda>j. info_at j = info_at i) is = Some i" for "is"
    by (induction "is") (auto simp: image_iff)
  then show "distinct (map info_at (infos s)) \<Longrightarrow> i \<in> set (infos s) \<Longrightarrow> info_of (info_at i) s = Some i"
    by (simp add: info_of_def)
qed

lemma found_in: "UsbPnpNotifyFindInfo q s = Some i \<Longrightarrow> i \<in> set (infos s)"
  by (auto simp: UsbPnpNotifyFindInfo_def find_Some_iff)

subsection \<open>The state in order\<close>

text \<open>Arrays have \<open>n\<close> entries and no record or event counts more interfaces; a record has an address of its own.\<close>

definition table_ok :: "nat \<Rightarrow> match_table \<Rightarrow> bool" where
  "table_ok n t \<longleftrightarrow> length (ifInfo t) = n \<and> unat (numInfos t) \<le> n"

definition info_ok :: "nat \<Rightarrow> device_info \<Rightarrow> bool" where
  "info_ok n i \<longleftrightarrow> length (ifRemoved i) = n \<and> table_ok n (info i)"

definition pnp_ok :: "nat \<Rightarrow> pnp \<Rightarrow> bool" where
  "pnp_ok n s \<longleftrightarrow> 0 < n \<and> n < 256 \<and> distinct (map info_at (infos s)) \<and> (\<forall>i \<in> set (infos s). info_at i < next_at s \<and> info_ok n i)
     \<and> length (ifInfo (add_table s)) = n \<and> (\<forall>e \<in> set (pnp_sent s). table_ok n (snd e))"

text \<open>The kernel's devices: no configuration has more interfaces than it lists, nor than fit.\<close>

definition device_fits :: "nat \<Rightarrow> usb_device \<Rightarrow> bool" where
  "device_fits n d \<longleftrightarrow> (\<forall>m cfg. actconfig d = Some (m, cfg) \<longrightarrow> unat m \<le> length cfg \<and> unat m \<le> n)"

definition kernel_ok :: "nat \<Rightarrow> pnp_env \<Rightarrow> bool" where
  "kernel_ok n env \<longleftrightarrow> max_ifs env = n \<and> (\<forall>addr d. usb_devs env addr = Some d \<longrightarrow> device_fits n d)"

lemma pnp_ok_globals [simp]:
  "pnp_ok n (s\<lparr>g_cmd := c\<rparr>) = pnp_ok n s" "pnp_ok n (s\<lparr>g_usbDevice := d\<rparr>) = pnp_ok n s" "pnp_ok n (s\<lparr>g_remove := r\<rparr>) = pnp_ok n s"
  "pnp_ok n (s\<lparr>g_usbPnpInfo := x\<rparr>) = pnp_ok n s" "pnp_ok n (s\<lparr>g_gadget := g\<rparr>) = pnp_ok n s" "pnp_ok n (s\<lparr>g_preAction := p\<rparr>) = pnp_ok n s"
  "pnp_ok n (s\<lparr>gadget_sent := l\<rparr>) = pnp_ok n s"
  by (simp_all add: pnp_ok_def)

lemma pnp_ok_upd:
  assumes "pnp_ok n s" and "\<And>i. info_at (f i) = info_at i" and "\<And>i. info_ok n i \<Longrightarrow> info_ok n (f i)"
  shows "pnp_ok n (upd_info a f s)"
proof -
  have "map info_at (map (\<lambda>i. if info_at i = a then f i else i) is) = map info_at is" for "is" by (simp add: assms(2))
  moreover have "\<forall>i \<in> set (infos s). info_at i < next_at s \<and> info_ok n i" using assms(1) by (simp add: pnp_ok_def)
  then have "\<forall>i \<in> set (infos (upd_info a f s)). info_at i < next_at s \<and> info_ok n i" using assms(2,3) by (auto simp: upd_info_def)
  ultimately show ?thesis using assms(1) unfolding pnp_ok_def by (simp add: upd_info_def del: map_map)
qed

lemma pnp_ok_info: "pnp_ok n s \<Longrightarrow> info_of a s = Some i \<Longrightarrow> info_ok n i"
  using info_of_at [of a s i] by (simp add: pnp_ok_def)

subsection \<open>Every function keeps it\<close>

abbreviation pnp_post :: "nat \<Rightarrow> 'a res \<times> pnp \<Rightarrow> ('a \<Rightarrow> pnp \<Rightarrow> bool) \<Rightarrow> bool" where
  "pnp_post n p A \<equiv> post p (\<lambda>x s. pnp_ok n s \<and> A x s) (\<lambda>_ _. False)"

lemma create_ok:
  assumes s: "pnp_ok n s" and n: "max_ifs env = n" and c: "UsbPnpNotifyCreateInfo env s = (Some a, t)"
  shows "pnp_ok n t" "\<exists>i. info_of a t = Some i" "g_cmd t = g_cmd s" "g_usbDevice t = g_usbDevice s" "g_usbPnpInfo t = g_usbPnpInfo s" "pnp_sent t = pnp_sent s"
proof -
  have t: "calloc_ok env" "a = next_at s" using c by (auto simp: UsbPnpNotifyCreateInfo_def Let_def split: if_splits)
  have new: "next_at s \<notin> info_at ` set (infos s)" using s by (force simp: pnp_ok_def)
  have app: "find (\<lambda>i. info_at i = next_at s) (is @ [j]) = Some j" if "next_at s \<notin> info_at ` set is" "info_at j = next_at s" for "is" and j :: device_info
    using that by (induction "is") auto
  show "\<exists>i. info_of a t = Some i" using c t new app by (auto simp: UsbPnpNotifyCreateInfo_def Let_def info_of_def)
  show "pnp_ok n t"
    using s n c t new by (auto simp: UsbPnpNotifyCreateInfo_def Let_def pnp_ok_def info_ok_def table_ok_def zero_table_def less_Suc_eq)
  show "g_cmd t = g_cmd s" "g_usbDevice t = g_usbDevice s" "g_usbPnpInfo t = g_usbPnpInfo s" "pnp_sent t = pnp_sent s"
    using c by (auto simp: UsbPnpNotifyCreateInfo_def Let_def split: if_splits)
qed

lemma if_loop_ok:
  "i + count \<le> length cfg \<Longrightarrow> i + count \<le> length ifs \<Longrightarrow> post (if_loop count i cfg ifs) (\<lambda>_ out. length out = length ifs) (\<lambda>_ _. False)"
proof (induction count arbitrary: i ifs)
  case (Suc count)
  then show ?case using Suc.IH [of "Suc i" "ifs[i := the (cfg ! i)]"] by (cases "cfg ! i") auto
qed simp

lemma upd_table_ok: "pnp_ok n s \<Longrightarrow> (\<And>t. table_ok n t \<Longrightarrow> table_ok n (f t)) \<Longrightarrow> pnp_ok n (upd_info a (\<lambda>i. i\<lparr>info := f (info i)\<rparr>) s)"
  by (rule pnp_ok_upd) (auto simp: info_ok_def)

lemma table_ok_upd [simp]:
  "table_ok n (t\<lparr>usbDevAddr := x1\<rparr>) = table_ok n t" "table_ok n (t\<lparr>devNum := x2\<rparr>) = table_ok n t" "table_ok n (t\<lparr>busNum := x3\<rparr>) = table_ok n t"
  "table_ok n (t\<lparr>devDesc := x4\<rparr>) = table_ok n t" "table_ok n (t\<lparr>removeType := x5\<rparr>) = table_ok n t"
  by (simp_all add: table_ok_def)

lemma upd_info_live: "(\<And>i. info_at (f i) = info_at i) \<Longrightarrow> (\<exists>i. info_of b (upd_info a f s) = Some i) \<longleftrightarrow> (\<exists>i. info_of b s = Some i)"
  by (cases "b = a") (auto simp: info_of_upd)

lemma init_info_ok:
  assumes s: "pnp_ok n s" and env: "kernel_ok n env" and d: "usb_devs env addr = Some d" and a: "\<exists>i. info_of a s = Some i"
  shows "pnp_post n (UsbPnpNotifyAddInitInfo env a addr s) (\<lambda>_ t. \<exists>i. info_of a t = Some i)"
proof -
  let ?set = "\<lambda>f s. upd_info a (\<lambda>i. i\<lparr>info := f (info i)\<rparr>) s"
  have ok: "pnp_ok n (?set f t) \<and> (\<exists>i. info_of a (?set f t) = Some i)"
    if "pnp_ok n t \<and> (\<exists>i. info_of a t = Some i)" "\<And>t. table_ok n t \<Longrightarrow> table_ok n (f t)" for f t
    using that by (simp add: upd_table_ok upd_info_live)
  let ?s1 = "?set (\<lambda>t. t\<lparr>usbDevAddr := addr, devNum := devnum d\<rparr>) s"
  have s1: "pnp_ok n ?s1 \<and> (\<exists>i. info_of a ?s1 = Some i)" using s a by (intro ok) simp_all
  show ?thesis
  proof (cases "busnum d")
    case None
    then show ?thesis using s1 d by (simp add: UsbPnpNotifyAddInitInfo_def Let_def)
  next
    case (Some bus)
    let ?s2 = "?set (\<lambda>t. t\<lparr>busNum := bus, devDesc := descriptor d\<rparr>) ?s1"
    have s2: "pnp_ok n ?s2 \<and> (\<exists>i. info_of a ?s2 = Some i)" by (rule ok [OF s1]) simp
    show ?thesis
    proof (cases "actconfig d")
      case None
      then show ?thesis using Some s2 d by (simp add: UsbPnpNotifyAddInitInfo_def Let_def)
    next
      case cfg: (Some c)
      obtain m cs where c: "actconfig d = Some (m, cs)" using cfg by (cases c) simp
      have m: "unat m \<le> length cs" "unat m \<le> n" using env d c by (auto simp: kernel_ok_def device_fits_def)
      let ?s3 = "?set (\<lambda>t. t\<lparr>numInfos := m\<rparr>) ?s2"
      have s3: "pnp_ok n ?s3 \<and> (\<exists>i. info_of a ?s3 = Some i)" by (rule ok [OF s2]) (use m in \<open>simp add: table_ok_def\<close>)
      then obtain i where i: "info_of a ?s3 = Some i" by blast
      then have len: "length (ifInfo (info i)) = n" using s3 pnp_ok_info [of n ?s3 a i] by (simp add: info_ok_def table_ok_def)
      obtain r ifs where run: "if_loop (unat m) 0 cs (ifInfo (info i)) = (r, ifs)" by fastforce
      have "post (r, ifs) (\<lambda>_ out. length out = length (ifInfo (info i))) (\<lambda>_ _. False)"
        using if_loop_ok [of 0 "unat m" cs "ifInfo (info i)"] m len run by simp
      then obtain v where v: "r = Ok v" "length ifs = n" using len by (cases r) auto
      have "pnp_ok n (?set (\<lambda>t. t\<lparr>ifInfo := ifs\<rparr>) ?s3) \<and> (\<exists>i. info_of a (?set (\<lambda>t. t\<lparr>ifInfo := ifs\<rparr>) ?s3) = Some i)"
        by (rule ok [OF s3]) (use v in \<open>simp add: table_ok_def\<close>)
      then show ?thesis using Some c d i run v by (simp add: UsbPnpNotifyAddInitInfo_def Let_def)
    qed
  qed
qed

lemma fill_loop_length: "length (snd (fill_loop count i j ifs removed out)) = length out"
  by (induction count i j ifs removed out rule: fill_loop.induct) auto

lemma fill_loop_count: "fst (fill_loop count i j ifs removed out) \<le> j + count"
proof (induction count i j ifs removed out rule: fill_loop.induct)
  case (2 count i j ifs removed out)
  then show ?case by (cases "removed ! i") auto
qed simp

lemma if_table_ok:
  assumes s: "pnp_ok n s" and a: "\<exists>i. info_of a s = Some i"
  shows "pnp_post n (UsbPnpNotifyAddInterfaceInitInfo a s) (\<lambda>_ t. (\<exists>i. info_of a t = Some i) \<and> table_ok n (add_table t))"
proof -
  obtain i where i: "info_of a s = Some i" using a by blast
  have ok: "info_ok n i" by (rule pnp_ok_info [OF s i])
  let ?m = "unat (numInfos (info i))" and ?x = "ar_if (g_usbPnpInfo s)"
  let ?removed = "mark_removed (g_cmd s = NOTIFY_REMOVE_INTERFACE) ?x ?m (ifInfo (info i)) (ifRemoved i)"
  have n: "0 < n" "n < 256" "length (ifInfo (add_table s)) = n" "?m \<le> n" "length (ifInfo (info i)) = n" "length (ifRemoved i) = n"
    using s ok by (simp_all add: pnp_ok_def info_ok_def table_ok_def)
  let ?t = "upd_info a (\<lambda>i. i\<lparr>ifRemoved := ?removed\<rparr>) s"
  have t: "pnp_ok n ?t" "\<exists>i. info_of a ?t = Some i"
    using s a n by (auto simp: upd_info_live mark_removed_def info_ok_def intro!: pnp_ok_upd)
  have tab: "pnp_ok n (?t\<lparr>add_table := tab\<rparr>)" if "length (ifInfo tab) = n" for tab using t that by (simp add: pnp_ok_def)
  have first: "ifInfo (add_table s) \<noteq> []" using n by auto
  show ?thesis
  proof (cases "g_cmd s = NOTIFY_REMOVE_INTERFACE")
    case True
    then show ?thesis using i n t first tab by (simp add: UsbPnpNotifyAddInterfaceInitInfo_def Let_def table_ok_def)
  next
    case False
    obtain j out where run: "fill_loop ?m 0 0 (ifInfo (info i)) ?removed (ifInfo (add_table s)) = (j, out)" by fastforce
    have "length out = n" using fill_loop_length [of ?m 0 0 "ifInfo (info i)" ?removed "ifInfo (add_table s)"] run n by simp
    moreover have "j \<le> n" using fill_loop_count [of ?m 0 0 "ifInfo (info i)" ?removed "ifInfo (add_table s)"] run n by simp
    moreover have "unat (of_nat j :: u8) \<le> j" by (simp add: unat_of_nat)
    ultimately show ?thesis using False i n t run tab by (simp add: UsbPnpNotifyAddInterfaceInitInfo_def Let_def table_ok_def)
  qed
qed

text \<open>A report reads the device that the slot points to.\<close>

definition target_ok :: "pnp_env \<Rightarrow> pnp_cmd \<Rightarrow> pnp_target \<Rightarrow> bool" where
  "target_ok env c t \<longleftrightarrow> (is_if_cmd c \<longrightarrow> t = Pnp_info)
     \<and> (c = NOTIFY_REPORT_INTERFACE \<longrightarrow> (case t of Pnp_info \<Rightarrow> False | Usb_device addr \<Rightarrow> usb_devs env addr \<noteq> None))"

lemma init_table_ok:
  assumes s: "pnp_ok n s" and env: "kernel_ok n env" and a: "\<exists>i. info_of a s = Some i" and t: "target_ok env (g_cmd s) t"
  shows "pnp_post n (UsbPnpNotifyInitInfo env a t s) (\<lambda>(r, table) t. (\<exists>i. info_of a t = Some i) \<and> table_ok n table)"
proof -
  have own: "pnp_post n (case info_of a u of None \<Rightarrow> (Fault, u) | Some i \<Rightarrow> (Ok (if sbuf_write_ok env then HDF_SUCCESS else HDF_FAILURE, info i), u))
      (\<lambda>(r, table) t. (\<exists>i. info_of a t = Some i) \<and> table_ok n table)" if "pnp_ok n u" "\<exists>i. info_of a u = Some i" for u
    using that pnp_ok_info [OF that(1)] by (auto simp: info_ok_def)
  consider "is_if_cmd (g_cmd s)" | "g_cmd s = NOTIFY_REPORT_INTERFACE" | "\<not> is_if_cmd (g_cmd s)" "g_cmd s \<noteq> NOTIFY_REPORT_INTERFACE" by blast
  then show ?thesis
  proof cases
    case 1
    obtain i where i: "info_of a s = Some i" using a by blast
    let ?u = "s\<lparr>add_table := (info i)\<lparr>removeType := g_remove s, numInfos := numInfos (add_table s), ifInfo := ifInfo (add_table s)\<rparr>\<rparr>"
    have u: "pnp_ok n ?u" "\<exists>i. info_of a ?u = Some i" using s i by (simp_all add: pnp_ok_def)
    have "pnp_post n (bindS (UsbPnpNotifyAddInterfaceInitInfo a ?u)
        (\<lambda>_ s. (Ok (if sbuf_write_ok env then HDF_SUCCESS else HDF_FAILURE, add_table s), s))) (\<lambda>(r, table) t. (\<exists>i. info_of a t = Some i) \<and> table_ok n table)"
      by (rule post_bindS [OF if_table_ok [OF u]]) simp
    then show ?thesis using 1 i by (simp add: UsbPnpNotifyInitInfo_def Let_def)
  next
    case 2
    then obtain addr d where addr: "t = Usb_device addr" "usb_devs env addr = Some d" using t by (cases t) (auto simp: target_ok_def)
    have zero: "table_ok n (zero_table (max_ifs env))" using env by (simp add: kernel_ok_def table_ok_def zero_table_def)
    have "pnp_post n (bindS (UsbPnpNotifyAddInitInfo env a addr s) (\<lambda>r s. if r \<noteq> HDF_SUCCESS then (Ok (r, zero_table (max_ifs env)), s)
         else case info_of a s of None \<Rightarrow> (Fault, s) | Some i \<Rightarrow> (Ok (if sbuf_write_ok env then HDF_SUCCESS else HDF_FAILURE, info i), s)))
      (\<lambda>(r, table) t. (\<exists>i. info_of a t = Some i) \<and> table_ok n table)"
      by (rule post_bindS [OF init_info_ok [OF s env addr(2) a]]) (use own zero in auto)
    then show ?thesis using 2 addr(1) by (simp add: UsbPnpNotifyInitInfo_def is_if_cmd_def Let_def)
  next
    case 3
    then show ?thesis using own [OF s a] by (simp add: UsbPnpNotifyInitInfo_def Let_def)
  qed
qed

lemma found_ok:
  assumes "pnp_ok n s" and "UsbPnpNotifyFindInfo q s = Some i"
  shows "info_of (info_at i) s = Some i"
  using assms found_in info_of_in by (simp add: pnp_ok_def)

lemma get_info_ok:
  assumes s: "pnp_ok n s" and env: "kernel_ok n env" and t: "target_ok env (g_cmd s) t"
  shows "pnp_post n (UsbPnpNotifyGetDeviceInfo env t s) (\<lambda>found u. g_cmd u = g_cmd s \<and> (\<forall>a. found = Some a \<longrightarrow> (\<exists>i. info_of a u = Some i)))"
proof -
  have found: "pnp_post n (case i of None \<Rightarrow> (Ok None, v) | Some a \<Rightarrow> (Ok (Some a), upd_info a (\<lambda>i. i\<lparr>info := (info i)\<lparr>removeType := g_remove v\<rparr>\<rparr>) v))
      (\<lambda>found u. g_cmd u = g_cmd v \<and> (\<forall>a. found = Some a \<longrightarrow> (\<exists>i. info_of a u = Some i)))"
    if "pnp_ok n v" "\<And>a. i = Some a \<Longrightarrow> \<exists>x. info_of a v = Some x" for i v
    using that by (auto simp: upd_info_live intro!: upd_table_ok split: option.split)
  have by_query: "\<exists>x. info_of a s = Some x" if "map_option info_at (UsbPnpNotifyFindInfo q s) = Some a" for q a
    using that found_ok [OF s] by auto
  note query = found [OF s, of "map_option info_at (UsbPnpNotifyFindInfo q s)" for q, OF by_query]
  consider "is_if_cmd (g_cmd s)" | "\<not> is_if_cmd (g_cmd s)" "g_cmd s = NOTIFY_ADD_DEVICE \<or> g_cmd s = NOTIFY_REMOVE_DEVICE"
    | "\<not> is_if_cmd (g_cmd s)" "\<not> (g_cmd s = NOTIFY_ADD_DEVICE \<or> g_cmd s = NOTIFY_REMOVE_DEVICE)" by blast
  then show ?thesis
  proof cases
    case 1
    then show ?thesis using query [of "By_num (ar_devNum (g_usbPnpInfo s)) (ar_busNum (g_usbPnpInfo s))"] t
      by (simp add: UsbPnpNotifyGetDeviceInfo_def target_ok_def Let_def del: case_map_option)
  next
    case 2
    then show ?thesis using query [of "By_addr (target_addr env t)"]
      by (simp add: UsbPnpNotifyGetDeviceInfo_def Let_def del: case_map_option)
  next
    case 3
    obtain i u where c: "UsbPnpNotifyCreateInfo env s = (i, u)" by fastforce
    have n: "max_ifs env = n" using env by (simp add: kernel_ok_def)
    have u: "pnp_ok n u" "g_cmd u = g_cmd s" "\<And>a. i = Some a \<Longrightarrow> \<exists>x. info_of a u = Some x"
      using create_ok [OF s n] c s by (cases i; auto simp: UsbPnpNotifyCreateInfo_def Let_def split: if_splits)+
    then show ?thesis using 3 c found [OF u(1,3)] by (simp add: UsbPnpNotifyGetDeviceInfo_def Let_def)
  qed
qed

lemma send_table_ok:
  assumes s: "pnp_ok n s" and a: "\<exists>i. info_of a s = Some i" and table: "table_ok n table"
  shows "pnp_post n (send_table env a table s) (\<lambda>_ t. \<exists>i. info_of a t = Some i)"
proof -
  have "pnp_ok n (s\<lparr>pnp_sent := pnp_sent s @ [(g_cmd s, table)]\<rparr>)" using s table by (auto simp: pnp_ok_def)
  then have "pnp_ok n (upd_info a (\<lambda>i. i\<lparr>pnp_status := ADD_STATUS\<rparr>) (s\<lparr>pnp_sent := pnp_sent s @ [(g_cmd s, table)]\<rparr>))"
    by (rule pnp_ok_upd) (simp_all add: info_ok_def)
  then show ?thesis using s a by (auto simp: send_table_def info_of_upd)
qed

lemma remove_id_subset: "set (remove_id m is) \<subseteq> set is" "distinct (map f is) \<Longrightarrow> distinct (map f (remove_id m is))"
proof -
  show sub: "set (remove_id m is) \<subseteq> set is" for "is" by (induction m "is" rule: remove_id.induct) auto
  show "distinct (map f is) \<Longrightarrow> distinct (map f (remove_id m is))"
    using sub by (induction m "is" rule: remove_id.induct) auto
qed

lemma destroy_ok:
  assumes s: "pnp_ok n s" and a: "\<exists>i. info_of a s = Some i"
  shows "pnp_post n (UsbPnpNotifyDestroyInfo a s) (\<lambda>_ _. True)"
  using s a remove_id_subset(2) by (auto simp: UsbPnpNotifyDestroyInfo_def pnp_ok_def dest!: subsetD [OF remove_id_subset(1)])

lemma send_event_ok:
  assumes s: "pnp_ok n s" and env: "kernel_ok n env" and t: "target_ok env (g_cmd s) t"
  shows "pnp_post n (UsbPnpNotifyHdfSendEvent env t s) (\<lambda>_ _. True)"
proof (cases "object_ok env \<and> sbuf_ok env")
  case False
  then show ?thesis using s by (simp add: UsbPnpNotifyHdfSendEvent_def)
next
  case True
  have rest: "pnp_post n (bindS (bindS (UsbPnpNotifyInitInfo env a t u) (\<lambda>(r, table) s. if r \<noteq> HDF_SUCCESS then (Ok r, s) else send_table env a table s)) (\<lambda>r s.
          if r \<noteq> HDF_SUCCESS \<or> g_cmd s = NOTIFY_REMOVE_DEVICE then bindS (UsbPnpNotifyDestroyInfo a s) (\<lambda>_ s. (Ok r, s)) else (Ok r, s))) (\<lambda>_ _. True)"
    if u: "pnp_ok n u" "\<exists>i. info_of a u = Some i" "target_ok env (g_cmd u) t" for a u
  proof -
    have "pnp_post n (bindS (UsbPnpNotifyInitInfo env a t u) (\<lambda>(r, table) s. if r \<noteq> HDF_SUCCESS then (Ok r, s) else send_table env a table s))
        (\<lambda>_ t. \<exists>i. info_of a t = Some i)"
      by (rule post_bindS [OF init_table_ok [OF u(1) env u(2,3)]]) (auto intro!: send_table_ok)
    then show ?thesis
    proof (rule post_bindS)
      fix r :: hdf_status and v assume v: "pnp_ok n v \<and> (\<exists>i. info_of a v = Some i)"
      have "pnp_post n (bindS (UsbPnpNotifyDestroyInfo a v) (\<lambda>_ s. (Ok r, s))) (\<lambda>_ _. True)"
        by (rule post_bindS [OF destroy_ok]) (use v in auto)
      then show "pnp_post n (if r \<noteq> HDF_SUCCESS \<or> g_cmd v = NOTIFY_REMOVE_DEVICE then bindS (UsbPnpNotifyDestroyInfo a v) (\<lambda>_ s. (Ok r, s)) else (Ok r, v)) (\<lambda>_ _. True)"
        using v by simp
    qed
  qed
  have "pnp_post n (bindS (UsbPnpNotifyGetDeviceInfo env t s) (\<lambda>found s. case found of
        None \<Rightarrow> (Ok HDF_FAILURE, s)
      | Some a \<Rightarrow>
          bindS (bindS (UsbPnpNotifyInitInfo env a t s) (\<lambda>(r, table) s.
            if r \<noteq> HDF_SUCCESS then (Ok r, s) else send_table env a table s)) (\<lambda>r s.
          if r \<noteq> HDF_SUCCESS \<or> g_cmd s = NOTIFY_REMOVE_DEVICE
          then bindS (UsbPnpNotifyDestroyInfo a s) (\<lambda>_ s. (Ok r, s))
          else (Ok r, s)))) (\<lambda>_ _. True)"
  proof (rule post_bindS [OF get_info_ok [OF s env t]])
    fix found :: "nat option" and u assume u: "pnp_ok n u \<and> g_cmd u = g_cmd s \<and> (\<forall>a. found = Some a \<longrightarrow> (\<exists>i. info_of a u = Some i))"
    then show "pnp_post n (case found of
        None \<Rightarrow> (Ok HDF_FAILURE, u)
      | Some a \<Rightarrow>
          bindS (bindS (UsbPnpNotifyInitInfo env a t u) (\<lambda>(r, table) s.
            if r \<noteq> HDF_SUCCESS then (Ok r, s) else send_table env a table s)) (\<lambda>r s.
          if r \<noteq> HDF_SUCCESS \<or> g_cmd s = NOTIFY_REMOVE_DEVICE
          then bindS (UsbPnpNotifyDestroyInfo a s) (\<lambda>_ s. (Ok r, s))
          else (Ok r, s))) (\<lambda>_ _. True)"
      using rest [of u] t by (cases found) auto
  qed
  then show ?thesis using True by (simp add: UsbPnpNotifyHdfSendEvent_def)
qed

subsection \<open>Steps\<close>

text \<open>What the thread relies on: a report finds a device in the slot that is still there.\<close>

definition slot_ok :: "pnp_env \<Rightarrow> pnp \<Rightarrow> bool" where
  "slot_ok env s \<longleftrightarrow> (g_cmd s = NOTIFY_REPORT_INTERFACE \<longrightarrow> (\<forall>t. g_usbDevice s = Some t \<longrightarrow> target_ok env NOTIFY_REPORT_INTERFACE t))"

lemma thread_keeps:
  assumes s: "pnp_ok n s" and env: "kernel_ok n env" and slot: "slot_ok env s"
  shows "pnp_post n (UsbPnpNotifyReportThread env s) (\<lambda>_ _. True)"
proof (cases "g_usbDevice s")
  case None
  then show ?thesis using s by (simp add: UsbPnpNotifyReportThread_def)
next
  case (Some t)
  have "target_ok env (g_cmd s) (if is_if_cmd (g_cmd s) then Pnp_info else t)"
    using slot Some by (auto simp: slot_ok_def target_ok_def is_if_cmd_def)
  then have "pnp_post n (bindS (UsbPnpNotifyHdfSendEvent env (if is_if_cmd (g_cmd s) then Pnp_info else t) s) (\<lambda>_ s. (Ok (), s\<lparr>g_usbDevice := None\<rparr>))) (\<lambda>_ _. True)"
    by (intro post_bindS [OF send_event_ok [OF s env]]) simp_all
  then show ?thesis using Some by (simp add: UsbPnpNotifyReportThread_def)
qed

lemma callback_keeps:
  assumes s: "pnp_ok n s" and env: "kernel_ok n env" and live: "\<And>addr. action = USB_DEVICE_ADD addr \<Longrightarrow> usb_devs env addr \<noteq> None"
  shows "pnp_post n (UsbPnpNotifyCallback env action s) (\<lambda>_ _. True)"
proof (cases action)
  case (USB_DEVICE_ADD addr)
  then obtain d where d: "usb_devs env addr = Some d" using live by blast
  have n: "max_ifs env = n" using env by (simp add: kernel_ok_def)
  show ?thesis
  proof (cases "fst (UsbPnpNotifyCreateInfo env s)")
    case None
    then have "UsbPnpNotifyCreateInfo env s = (None, s)" by (auto simp: UsbPnpNotifyCreateInfo_def Let_def split: if_splits)
    then show ?thesis using USB_DEVICE_ADD s by (simp add: UsbPnpNotifyCallback_def)
  next
    case (Some a)
    then obtain u where c: "UsbPnpNotifyCreateInfo env s = (Some a, u)" by (metis prod.collapse)
    have u: "pnp_ok n u" "\<exists>i. info_of a u = Some i" by (rule create_ok [OF s n c])+
    have "pnp_post n (bindS (UsbPnpNotifyAddInitInfo env a addr u) (\<lambda>r s.
            if r \<noteq> HDF_SUCCESS then (Ok (), s)
            else (Ok (), s\<lparr>g_usbDevice := Some (Usb_device addr), g_cmd := NOTIFY_ADD_DEVICE\<rparr>))) (\<lambda>_ _. True)"
      by (rule post_bindS [OF init_info_ok [OF u(1) env d u(2)]]) simp
    then show ?thesis using USB_DEVICE_ADD c by (simp add: UsbPnpNotifyCallback_def)
  qed
next
  case (USB_DEVICE_REMOVE addr)
  have "pnp_ok n (upd_info a (\<lambda>i. i\<lparr>pnp_status := st\<rparr>) s)" for a st by (rule pnp_ok_upd [OF s]) (simp_all add: info_ok_def)
  then show ?thesis using USB_DEVICE_REMOVE s by (simp add: UsbPnpNotifyCallback_def Let_def split: option.split)
qed (use s in \<open>simp_all add: UsbPnpNotifyCallback_def\<close>)

lemma read_info_keeps:
  assumes s: "pnp_ok n s"
  shows "pnp_ok n (UsbPnpNotifyReadPnpInfo data s)"
proof (cases data)
  case (Some ar)
  have u: "pnp_ok n (s\<lparr>g_usbPnpInfo := ar, g_usbDevice := Some Pnp_info\<rparr>)" using s by simp
  have "pnp_ok n (upd_info a (\<lambda>i. i\<lparr>pnp_status := (if pnp_status i \<noteq> INIT_STATUS then INIT_STATUS else INTERFACE_STATUS)\<rparr>)
      (s\<lparr>g_usbPnpInfo := ar, g_usbDevice := Some Pnp_info\<rparr>))" for a
    by (rule pnp_ok_upd [OF u]) (simp_all add: info_ok_def)
  then show ?thesis using s Some by (simp add: UsbPnpNotifyReadPnpInfo_def Let_def split: option.split)
qed (use s in \<open>simp add: UsbPnpNotifyReadPnpInfo_def\<close>)

lemma get_info_slot: "snd (UsbPnpNotifyGetDeviceInfo env t s) = u \<Longrightarrow> g_cmd u = g_cmd s"
  by (auto simp: UsbPnpNotifyGetDeviceInfo_def UsbPnpNotifyCreateInfo_def Let_def split: option.split)

text \<open>A report does not change the command.\<close>

abbreviation same_cmd :: "pnp_cmd \<Rightarrow> 'a res \<times> pnp \<Rightarrow> bool" where
  "same_cmd c \<equiv> leaves (\<lambda>s. g_cmd s = c)"

lemma leaves_case_option:
  "(x = None \<Longrightarrow> leaves P p) \<Longrightarrow> (\<And>y. x = Some y \<Longrightarrow> leaves P (f y)) \<Longrightarrow> leaves P (case x of None \<Rightarrow> p | Some y \<Rightarrow> f y)"
  by (simp split: option.split)

lemma cmd_init: "g_cmd s = c \<Longrightarrow> same_cmd c (UsbPnpNotifyAddInitInfo env a addr s)"
  by (auto simp: UsbPnpNotifyAddInitInfo_def leaves_def Let_def split: option.split prod.split)

lemma cmd_if_table: "g_cmd s = c \<Longrightarrow> same_cmd c (UsbPnpNotifyAddInterfaceInitInfo a s)"
  by (auto simp: UsbPnpNotifyAddInterfaceInitInfo_def leaves_def Let_def split: option.split prod.split)

lemma cmd_table: "g_cmd s = c \<Longrightarrow> same_cmd c (UsbPnpNotifyInitInfo env a t s)"
  unfolding UsbPnpNotifyInitInfo_def Let_def
  by (auto intro!: leaves_intros leaves_case_option cmd_init cmd_if_table split: pnp_target.split)

lemma cmd_get: "g_cmd s = c \<Longrightarrow> same_cmd c (UsbPnpNotifyGetDeviceInfo env t s)"
  by (auto simp: UsbPnpNotifyGetDeviceInfo_def UsbPnpNotifyCreateInfo_def leaves_def Let_def split: option.split)

lemma cmd_send_table: "g_cmd s = c \<Longrightarrow> same_cmd c (send_table env a table s)"
  unfolding send_table_def by (auto intro!: leaves_intros leaves_case_option)

lemma cmd_destroy: "g_cmd s = c \<Longrightarrow> same_cmd c (UsbPnpNotifyDestroyInfo a s)"
  unfolding UsbPnpNotifyDestroyInfo_def by (auto intro!: leaves_intros leaves_case_option)

lemma cmd_send: "g_cmd s = c \<Longrightarrow> same_cmd c (UsbPnpNotifyHdfSendEvent env t s)"
  unfolding UsbPnpNotifyHdfSendEvent_def
  by (auto intro!: leaves_intros leaves_case_option cmd_get cmd_table cmd_send_table cmd_destroy)

lemma report_all_keeps:
  "pnp_ok n s \<Longrightarrow> kernel_ok n env \<Longrightarrow> g_cmd s = NOTIFY_REPORT_INTERFACE \<Longrightarrow> list_all (\<lambda>addr. usb_devs env addr \<noteq> None) addrs
   \<Longrightarrow> pnp_post n (report_all env addrs s) (\<lambda>_ _. True)"
proof (induction addrs arbitrary: s)
  case (Cons addr rest)
  have "target_ok env (g_cmd s) (Usb_device addr)" using Cons.prems(3,4) by (simp add: target_ok_def is_if_cmd_def)
  note send = send_event_ok [OF Cons.prems(1,2) this]
  have cmd: "g_cmd (snd (UsbPnpNotifyHdfSendEvent env (Usb_device addr) s)) = NOTIFY_REPORT_INTERFACE"
    using cmd_send [OF Cons.prems(3)] by (simp add: leaves_def)
  have "pnp_post n (UsbPnpNotifyHdfSendEvent env (Usb_device addr) s) (\<lambda>_ t. g_cmd t = NOTIFY_REPORT_INTERFACE)"
    using send cmd by (auto simp: post_def split: res.splits)
  then have "pnp_post n (bindS (UsbPnpNotifyHdfSendEvent env (Usb_device addr) s) (\<lambda>r s.
     if r \<noteq> HDF_SUCCESS then (Ok (), s) else report_all env rest s)) (\<lambda>_ _. True)"
    by (rule post_bindS) (use Cons in auto)
  then show ?case by simp
qed simp

lemma dispatch_keeps:
  assumes s: "pnp_ok n s" and env: "kernel_ok n env" and live: "list_all (\<lambda>addr. usb_devs env addr \<noteq> None) (usb_list env)"
  shows "pnp_post n (UsbPnpNotifyDispatch env cmd data s) (\<lambda>_ _. True)"
proof -
  have report: "pnp_post n (bindS (report_all env (usb_list env) (s\<lparr>g_cmd := NOTIFY_REPORT_INTERFACE\<rparr>)) (\<lambda>_ s. (Ok (HDF_SUCCESS, []), s))) (\<lambda>_ _. True)"
    by (rule post_bindS [OF report_all_keeps]) (use s env live in auto)
  have read: "pnp_ok n (UsbPnpNotifyReadPnpInfo data (s\<lparr>g_cmd := c\<rparr>))" for c by (rule read_info_keeps) (use s in simp)
  show ?thesis
    by (cases cmd) (use s report read in \<open>simp_all add: UsbPnpNotifyDispatch_def Let_def\<close>)
qed

text \<open>
  Devices come and go, clients call, the two threads take turns, in any order, with a kernel whose devices
  fit the table. A report has to find a device that is still there.
\<close>

inductive pnp_step :: "nat \<Rightarrow> pnp \<Rightarrow> pnp \<Rightarrow> bool" for n where
  by_callback: "kernel_ok n env \<Longrightarrow> (\<And>addr. action = USB_DEVICE_ADD addr \<Longrightarrow> usb_devs env addr \<noteq> None) \<Longrightarrow>
    pnp_step n s (snd (UsbPnpNotifyCallback env action s))"
| by_client: "kernel_ok n env \<Longrightarrow> list_all (\<lambda>addr. usb_devs env addr \<noteq> None) (usb_list env) \<Longrightarrow>
    pnp_step n s (snd (UsbPnpNotifyDispatch env cmd data s))"
| by_thread: "kernel_ok n env \<Longrightarrow> slot_ok env s \<Longrightarrow> pnp_step n s (snd (UsbPnpNotifyReportThread env s))"
| by_gadget_thread: "pnp_step n s (GadgetPnpNotifyReportThread env s)"

inductive pnp_reachable :: "nat \<Rightarrow> pnp \<Rightarrow> pnp \<Rightarrow> bool" for n s0 where
  start: "pnp_reachable n s0 s0"
| step: "pnp_reachable n s0 s \<Longrightarrow> pnp_step n s s' \<Longrightarrow> pnp_reachable n s0 s'"

lemma post_snd: "pnp_post n p (\<lambda>_ _. True) \<Longrightarrow> pnp_ok n (snd p)"
  by (auto simp: post_def split: res.splits)

lemma pnp_step_ok: "pnp_step n s s' \<Longrightarrow> pnp_ok n s \<Longrightarrow> pnp_ok n s'"
proof (induction rule: pnp_step.induct)
  case (by_callback env action s)
  then show ?case by (blast intro: post_snd callback_keeps)
next
  case (by_client env cmd data s)
  then show ?case by (blast intro: post_snd dispatch_keeps)
next
  case (by_thread env s)
  then show ?case by (blast intro: post_snd thread_keeps)
next
  case (by_gadget_thread s env)
  then show ?case by (auto simp: GadgetPnpNotifyReportThread_def GadgetPnpNotifyHdfSendEvent_def split: option.split)
qed

lemma pnp_reachable_ok: "pnp_reachable n s0 s \<Longrightarrow> pnp_ok n s0 \<Longrightarrow> pnp_ok n s"
  by (induction rule: pnp_reachable.induct) (auto intro: pnp_step_ok)

end
