(* ===== verification/Pnp_Properties.thy ===== *)
theory Pnp_Properties
  imports Pnp_Inv
begin

section \<open>USB plug and play notifications: properties\<close>

text \<open>
  No run of the notifier accesses anything stale; what is reported when devices and interfaces come and
  go one at a time; and what happens when events meet in the one slot.
\<close>

subsection \<open>Safety\<close>

text \<open>
  Whatever devices came and went, whatever clients called and in whichever order the threads ran: the
  notifier, the calls of clients and the thread never access anything stale or out of bounds, and
  every table that was sent counts no more interfaces than it has. This takes a kernel whose devices have no more interfaces
  than the table has entries, and, for a turn of the thread under a report command, a device that is still there in the slot.
\<close>
theorem pnp_safe:
  assumes run: "pnp_reachable n s0 s" and s0: "pnp_ok n s0" and env: "kernel_ok n env"
    and live: "usb_devs env addr \<noteq> None" "list_all (\<lambda>addr. usb_devs env addr \<noteq> None) (usb_list env)" "slot_ok env s"
  shows "no_fault (UsbPnpNotifyCallback env (USB_DEVICE_ADD addr) s) \<and> no_fault (UsbPnpNotifyCallback env (USB_DEVICE_REMOVE addr') s)
    \<and> no_fault (UsbPnpNotifyDispatch env cmd data s) \<and> no_fault (UsbPnpNotifyReportThread env s)
    \<and> (\<forall>e \<in> set (pnp_sent s). unat (numInfos (snd e)) \<le> length (ifInfo (snd e)))"
proof -
  have s: "pnp_ok n s" by (rule pnp_reachable_ok [OF run s0])
  have "\<forall>e \<in> set (pnp_sent s). unat (numInfos (snd e)) \<le> length (ifInfo (snd e))" using s by (simp add: pnp_ok_def table_ok_def)
  then show ?thesis
    using postD(1) [OF callback_keeps [OF s env, of "USB_DEVICE_ADD addr"]] postD(1) [OF callback_keeps [OF s env, of "USB_DEVICE_REMOVE addr'"]]
      postD(1) [OF dispatch_keeps [OF s env live(2)]] postD(1) [OF thread_keeps [OF s env live(3)]] live(1) by auto
qed

text \<open>A device with two interfaces, in a table of 32.\<close>

definition iface :: "u8 \<Rightarrow> usb_if" where
  "iface k = \<lparr>ifClass = 3, ifSubClass = 1, ifProtocol = 2, ifNumber = k\<rparr>"

definition keyboard :: usb_device where
  "keyboard = \<lparr>devnum = 4, busnum = Some 1, descriptor = \<lparr>vendorId = 0x1234, productId = 0x5678, bcdDevice = 0x100, devClass = 0,
     devSubClass = 0, devProtocol = 0\<rparr>, actconfig = Some (2, [Some (iface 0), Some (iface 1)])\<rparr>"

definition pnp_sample_env :: pnp_env where
  "pnp_sample_env = \<lparr>max_ifs = 32, usb_devs = (\<lambda>addr. if addr = 0x8000 \<or> addr = 0x9000 then Some keyboard else None), usb_list = [0x8000],
     info_addr = 0x10, object_ok = True, calloc_ok = True, sbuf_ok = True, sbuf_write_ok = True, send_ret = HDF_SUCCESS, thread_ok = True,
     reply_ok = (\<lambda>_. True)\<rparr>"

definition pnp_start :: "nat \<Rightarrow> pnp" where
  "pnp_start n = \<lparr>infos = [], idNum = 1, next_at = 0, g_cmd = NOTIFY_ADD_INTERFACE, g_remove = REMOVE_BUS_DEV_NUM, g_usbDevice = None,
     g_usbPnpInfo = \<lparr>ar_devNum = 0, ar_busNum = 0, ar_if = zero_if\<rparr>, add_table = zero_table n, g_gadget = None, g_preAction = None,
     pnp_sent = [], gadget_sent = [], usb_thread = False, usb_thread_runs = False, gadget_thread = False, gadget_thread_runs = False,
     nb_registered = 0, list_ready = False\<rparr>"

definition pnp_plugged :: pnp where
  "pnp_plugged = snd (UsbPnpNotifyReportThread pnp_sample_env (snd (UsbPnpNotifyCallback pnp_sample_env (USB_DEVICE_ADD 0x8000) (pnp_start 32))))"

lemma pnp_sample_kernel: "kernel_ok 32 pnp_sample_env"
  by (auto simp: kernel_ok_def pnp_sample_env_def device_fits_def keyboard_def split: if_splits)

lemma pnp_start_ok: "0 < n \<Longrightarrow> n < 256 \<Longrightarrow> pnp_ok n (pnp_start n)"
  by (simp add: pnp_ok_def pnp_start_def zero_table_def)

lemma pnp_plugged_reachable: "pnp_reachable 32 (pnp_start 32) pnp_plugged"
proof -
  let ?s = "snd (UsbPnpNotifyCallback pnp_sample_env (USB_DEVICE_ADD 0x8000) (pnp_start 32))"
  have s: "pnp_reachable 32 (pnp_start 32) ?s"
    by (rule pnp_reachable.step [OF pnp_reachable.start pnp_step.by_callback [OF pnp_sample_kernel]]) (simp add: pnp_sample_env_def)
  have "g_cmd ?s = NOTIFY_ADD_DEVICE" by code_simp
  then have "slot_ok pnp_sample_env ?s" by (simp add: slot_ok_def)
  then show ?thesis unfolding pnp_plugged_def by (rule pnp_reachable.step [OF s pnp_step.by_thread [OF pnp_sample_kernel]])
qed

lemma pnp_safe_witness:
  "no_fault (UsbPnpNotifyCallback pnp_sample_env (USB_DEVICE_REMOVE 0x8000) pnp_plugged) \<and> length (pnp_sent pnp_plugged) = 1"
proof -
  have live: "usb_devs pnp_sample_env 0x8000 \<noteq> None" "list_all (\<lambda>addr. usb_devs pnp_sample_env addr \<noteq> None) (usb_list pnp_sample_env)"
    by (simp_all add: pnp_sample_env_def)
  have "g_cmd pnp_plugged = NOTIFY_ADD_DEVICE" "length (pnp_sent pnp_plugged) = 1" by code_simp+
  then show ?thesis
    using pnp_safe [OF pnp_plugged_reachable pnp_start_ok pnp_sample_kernel live] by (simp add: slot_ok_def)
qed

subsection \<open>A device comes and goes\<close>

lemma if_loop_all:
  "i + count \<le> length cfg \<Longrightarrow> i + count \<le> length ifs \<Longrightarrow> list_all (\<lambda>x. x \<noteq> None) (take count (drop i cfg)) \<Longrightarrow>
   if_loop count i cfg ifs = (Ok HDF_SUCCESS, take i ifs @ map the (take count (drop i cfg)) @ drop (i + count) ifs)"
proof (induction count arbitrary: i ifs)
  case (Suc count)
  have d: "drop i cfg = cfg ! i # drop (Suc i) cfg" using Suc.prems(1) by (simp add: Cons_nth_drop_Suc)
  then obtain x where x: "cfg ! i = Some x" using Suc.prems(3) by auto
  have "if_loop count (Suc i) cfg (ifs[i := x]) = (Ok HDF_SUCCESS, take (Suc i) (ifs[i := x]) @ map the (take count (drop (Suc i) cfg)) @ drop (Suc i + count) (ifs[i := x]))"
    using Suc.prems d by (intro Suc.IH) auto
  moreover have "take (Suc i) (ifs[i := x]) = take i ifs @ [x]" using Suc.prems(2) by (simp add: take_Suc_conv_app_nth)
  ultimately show ?case using Suc.prems d x by simp
qed simp

text \<open>The table of a device, and a device that can be described.\<close>

definition table_of :: "nat \<Rightarrow> u64 \<Rightarrow> usb_device \<Rightarrow> match_table" where
  "table_of n addr d = (case actconfig d of None \<Rightarrow> zero_table n
     | Some (m, cfg) \<Rightarrow> \<lparr>usbDevAddr = addr, devNum = devnum d, busNum = the (busnum d), devDesc = descriptor d, removeType = REMOVE_BUS_DEV_NUM,
         numInfos = m, ifInfo = map the (take (unat m) cfg) @ replicate (n - unat m) zero_if\<rparr>)"

definition describable :: "nat \<Rightarrow> usb_device \<Rightarrow> bool" where
  "describable n d \<longleftrightarrow> busnum d \<noteq> None \<and> (case actconfig d of None \<Rightarrow> False
     | Some (m, cfg) \<Rightarrow> unat m \<le> length cfg \<and> unat m \<le> n \<and> list_all (\<lambda>x. x \<noteq> None) (take (unat m) cfg))"

lemma upd_info_eq:
  "distinct (map info_at (infos s)) \<Longrightarrow> info_of a s = Some i \<Longrightarrow> f i = g i \<Longrightarrow> upd_info a f s = upd_info a g s"
  using info_of_in [of s] by (auto simp: upd_info_def intro!: pnp.fold_congs map_cong)

lemma init_info_table:
  assumes s: "distinct (map info_at (infos s))" and d: "usb_devs env addr = Some d" "describable n d"
    and i: "info_of a s = Some i" "info i = zero_table n"
  shows "UsbPnpNotifyAddInitInfo env a addr s = (Ok HDF_SUCCESS, upd_info a (\<lambda>i. i\<lparr>info := table_of n addr d\<rparr>) s)"
proof -
  obtain bus m cfg where b: "busnum d = Some bus" and c: "actconfig d = Some (m, cfg)" "unat m \<le> length cfg" "unat m \<le> n" "list_all (\<lambda>x. x \<noteq> None) (take (unat m) cfg)"
    using d(2) by (auto simp: describable_def split: option.splits)
  have loop: "if_loop (unat m) 0 cfg (replicate n zero_if) = (Ok HDF_SUCCESS, map the (take (unat m) cfg) @ replicate (n - unat m) zero_if)"
    using if_loop_all [of 0 "unat m" cfg "replicate n zero_if"] c by simp
  have ifs: "ifInfo (info i) = replicate n zero_if" by (simp add: i(2) zero_table_def)
  show ?thesis unfolding UsbPnpNotifyAddInitInfo_def
    by (simp add: d(1) b c(1) Let_def upd_info_twice info_of_upd i(1) ifs loop)
      (rule upd_info_eq [OF s i(1)], simp add: i(2) zero_table_def table_of_def b c(1))
qed

text \<open>What happens to the last record of the list, when its address is its own.\<close>

lemma last_info:
  assumes "infos t = is @ [r]" "info_at r \<notin> info_at ` set is"
  shows "info_of (info_at r) t = Some r" "upd_info (info_at r) f t = t\<lparr>infos := is @ [f r]\<rparr>"
proof -
  have "find (\<lambda>i. info_at i = info_at r) (is @ [r]) = Some r" using assms(2) by (induction "is") auto
  then show "info_of (info_at r) t = Some r" using assms(1) by (simp add: info_of_def)
  have "map (\<lambda>i. if info_at i = info_at r then f i else i) is = is" using assms(2) by (intro map_idI) (auto simp: image_iff)
  then show "upd_info (info_at r) f t = t\<lparr>infos := is @ [f r]\<rparr>" using assms(1) by (simp add: upd_info_def)
qed

lemma last_found:
  "infos t = is @ [r] \<Longrightarrow> list_all (\<lambda>i. usbDevAddr (info i) \<noteq> addr) is \<Longrightarrow> usbDevAddr (info r) = addr \<Longrightarrow> UsbPnpNotifyFindInfo (By_addr addr) t = Some r"
proof -
  have "list_all (\<lambda>i. usbDevAddr (info i) \<noteq> addr) is \<Longrightarrow> usbDevAddr (info r) = addr \<Longrightarrow> find (query_matches (By_addr addr)) (is @ [r]) = Some r"
    by (induction "is") auto
  then show "infos t = is @ [r] \<Longrightarrow> list_all (\<lambda>i. usbDevAddr (info i) \<noteq> addr) is \<Longrightarrow> usbDevAddr (info r) = addr \<Longrightarrow> ?thesis"
    by (simp add: UsbPnpNotifyFindInfo_def)
qed

lemma last_removed: "list_all (\<lambda>i. info_id i \<noteq> info_id r) is \<Longrightarrow> remove_id (info_id r) (is @ [r]) = is"
  by (induction "is") auto

text \<open>A kernel and a framework in which nothing fails.\<close>

definition nothing_fails :: "pnp_env \<Rightarrow> bool" where
  "nothing_fails env \<longleftrightarrow> object_ok env \<and> calloc_ok env \<and> sbuf_ok env \<and> sbuf_write_ok env \<and> send_ret env = HDF_SUCCESS"

text \<open>The records before the last one are not about the same device.\<close>

definition others_differ :: "device_info list \<Rightarrow> device_info \<Rightarrow> bool" where
  "others_differ is r \<longleftrightarrow> info_at r \<notin> info_at ` set is \<and> list_all (\<lambda>i. usbDevAddr (info i) \<noteq> usbDevAddr (info r)) is
     \<and> list_all (\<lambda>i. info_id i \<noteq> info_id r) is"

lemma thread_on_last:
  assumes t: "infos t = is @ [r]" "others_differ is r" and env: "nothing_fails env"
    and slot: "g_usbDevice t = Some (Usb_device (usbDevAddr (info r)))" "g_cmd t = NOTIFY_ADD_DEVICE \<or> g_cmd t = NOTIFY_REMOVE_DEVICE"
  shows "snd (UsbPnpNotifyReportThread env t) =
    (if pnp_status r = INIT_STATUS
     then t\<lparr>infos := (if g_cmd t = NOTIFY_REMOVE_DEVICE then is else is @ [r\<lparr>info := (info r)\<lparr>removeType := g_remove t\<rparr>, pnp_status := ADD_STATUS\<rparr>]),
        pnp_sent := pnp_sent t @ [(g_cmd t, (info r)\<lparr>removeType := g_remove t\<rparr>)], g_usbDevice := None\<rparr>
     else t\<lparr>infos := is, g_usbDevice := None\<rparr>)"
proof -
  let ?r = "r\<lparr>info := (info r)\<lparr>removeType := g_remove t\<rparr>\<rparr>"
  let ?t = "t\<lparr>infos := is @ [?r]\<rparr>"
  have fresh: "info_at r \<notin> info_at ` set is" and found: "UsbPnpNotifyFindInfo (By_addr (usbDevAddr (info r))) t = Some r"
    using t last_found [OF t(1)] by (simp_all add: others_differ_def)
  have get: "UsbPnpNotifyGetDeviceInfo env (Usb_device (usbDevAddr (info r))) t = (Ok (Some (info_at r)), ?t)"
    using slot(2) by (auto simp: UsbPnpNotifyGetDeviceInfo_def is_if_cmd_def target_addr_def found last_info(2) [OF t(1) fresh])
  have own: "info_of (info_at r) (?t\<lparr>pnp_sent := e\<rparr>) = Some ?r" for e
    using last_info(1) [of "?t\<lparr>pnp_sent := e\<rparr>" "is" ?r] fresh by simp
  have put: "UsbPnpNotifyInitInfo env (info_at r) (Usb_device (usbDevAddr (info r))) ?t = (Ok (HDF_SUCCESS, info ?r), ?t)"
    using slot(2) env own [of "pnp_sent t"] by (auto simp: UsbPnpNotifyInitInfo_def is_if_cmd_def nothing_fails_def)
  have gone: "UsbPnpNotifyDestroyInfo (info_at r) u = (Ok HDF_SUCCESS, u\<lparr>infos := is\<rparr>)" if "infos u = is @ [r']" "info_at r' = info_at r" "info_id r' = info_id r" for u r'
    using last_info(1) [of u "is" r'] last_removed [of r' "is"] that t(2) by (simp add: UsbPnpNotifyDestroyInfo_def others_differ_def)
  have st: "upd_info (info_at r) (\<lambda>i. i\<lparr>pnp_status := ADD_STATUS\<rparr>) (?t\<lparr>pnp_sent := e\<rparr>) = ?t\<lparr>infos := is @ [?r\<lparr>pnp_status := ADD_STATUS\<rparr>], pnp_sent := e\<rparr>" for e
    using last_info(2) [of "?t\<lparr>pnp_sent := e\<rparr>" "is" ?r] fresh by simp
  show ?thesis
  proof (cases "pnp_status r = INIT_STATUS")
    case True
    then have "send_table env (info_at r) (info ?r) ?t =
        (Ok HDF_SUCCESS, ?t\<lparr>infos := is @ [?r\<lparr>pnp_status := ADD_STATUS\<rparr>], pnp_sent := pnp_sent t @ [(g_cmd t, info ?r)]\<rparr>)"
      using own [of "pnp_sent t"] st env by (simp add: send_table_def nothing_fails_def)
    then show ?thesis
      using True slot env get put gone [of _ "?r\<lparr>pnp_status := ADD_STATUS\<rparr>"]
      by (auto simp: UsbPnpNotifyReportThread_def UsbPnpNotifyHdfSendEvent_def nothing_fails_def is_if_cmd_def)
  next
    case False
    then have "send_table env (info_at r) (info ?r) ?t = (Ok HDF_ERR_INVALID_OBJECT, ?t)"
      using own [of "pnp_sent t"] by (simp add: send_table_def)
    then show ?thesis
      using False slot env get put gone [of _ ?r]
      by (auto simp: UsbPnpNotifyReportThread_def UsbPnpNotifyHdfSendEvent_def nothing_fails_def is_if_cmd_def)
  qed
qed

text \<open>A device is added, or removed, and the thread has its turn.\<close>

definition plugged :: "pnp_env \<Rightarrow> u64 \<Rightarrow> pnp \<Rightarrow> pnp" where
  "plugged env addr s = snd (UsbPnpNotifyReportThread env (snd (UsbPnpNotifyCallback env (USB_DEVICE_ADD addr) s)))"

definition unplugged :: "pnp_env \<Rightarrow> u64 \<Rightarrow> pnp \<Rightarrow> pnp" where
  "unplugged env addr s = snd (UsbPnpNotifyReportThread env (snd (UsbPnpNotifyCallback env (USB_DEVICE_REMOVE addr) s)))"

text \<open>A device that no record is about, and a number that no record has.\<close>

definition unknown_device :: "u64 \<Rightarrow> pnp \<Rightarrow> bool" where
  "unknown_device addr s \<longleftrightarrow> list_all (\<lambda>i. usbDevAddr (info i) \<noteq> addr) (infos s)
     \<and> list_all (\<lambda>i. info_id i < idNum s) (infos s) \<and> idNum s < INT32_MAX"

definition new_record :: "nat \<Rightarrow> u64 \<Rightarrow> usb_device \<Rightarrow> pnp \<Rightarrow> device_info" where
  "new_record n addr d s = \<lparr>info_at = next_at s, info_id = idNum s, pnp_status = INIT_STATUS, ifRemoved = replicate n False, info = table_of n addr d\<rparr>"

lemma new_differs: "pnp_ok n s \<Longrightarrow> unknown_device addr s \<Longrightarrow> describable n d \<Longrightarrow> others_differ (infos s) (new_record n addr d s)"
  by (force simp: others_differ_def new_record_def pnp_ok_def unknown_device_def describable_def table_of_def list_all_iff split: option.splits)

lemma callback_adds:
  assumes s: "pnp_ok n s" "unknown_device addr s" and d: "usb_devs env addr = Some d" "describable n d" and env: "max_ifs env = n" "calloc_ok env"
  shows "snd (UsbPnpNotifyCallback env (USB_DEVICE_ADD addr) s) =
    s\<lparr>infos := infos s @ [new_record n addr d s], idNum := idNum s + 1, next_at := next_at s + 1,
      g_usbDevice := Some (Usb_device addr), g_cmd := NOTIFY_ADD_DEVICE\<rparr>"
proof -
  let ?i = "\<lparr>info_at = next_at s, info_id = idNum s, pnp_status = INIT_STATUS, ifRemoved = replicate n False, info = zero_table n\<rparr>"
  let ?t = "s\<lparr>infos := infos s @ [?i], idNum := idNum s + 1, next_at := next_at s + 1\<rparr>"
  have new: "UsbPnpNotifyCreateInfo env s = (Some (next_at s), ?t)"
    using env s(2) by (simp add: UsbPnpNotifyCreateInfo_def unknown_device_def Let_def)
  have fresh: "next_at s \<notin> info_at ` set (infos s)" using s(1) by (force simp: pnp_ok_def)
  have dist: "distinct (map info_at (infos ?t))" using s(1) fresh by (simp add: pnp_ok_def)
  have "UsbPnpNotifyAddInitInfo env (next_at s) addr ?t = (Ok HDF_SUCCESS, upd_info (next_at s) (\<lambda>i. i\<lparr>info := table_of n addr d\<rparr>) ?t)"
    using init_info_table [OF dist d, of "next_at s" ?i] last_info(1) [of ?t "infos s" ?i] fresh by simp
  then show ?thesis
    using last_info(2) [of ?t "infos s" ?i] fresh new by (simp add: UsbPnpNotifyCallback_def new_record_def)
qed

lemma addr_table: "describable n d \<Longrightarrow> usbDevAddr (table_of n addr d) = addr"
  by (simp add: describable_def table_of_def split: option.splits)

lemma plugged_state:
  assumes s: "pnp_ok n s" "unknown_device addr s" and d: "usb_devs env addr = Some d" "describable n d" and env: "max_ifs env = n" "nothing_fails env"
  defines "t \<equiv> (table_of n addr d)\<lparr>removeType := g_remove s\<rparr>"
  shows "plugged env addr s =
    s\<lparr>infos := infos s @ [(new_record n addr d s)\<lparr>info := t, pnp_status := ADD_STATUS\<rparr>], idNum := idNum s + 1, next_at := next_at s + 1,
      g_usbDevice := None, g_cmd := NOTIFY_ADD_DEVICE, pnp_sent := pnp_sent s @ [(NOTIFY_ADD_DEVICE, t)]\<rparr>"
proof -
  let ?r = "new_record n addr d s"
  let ?t = "s\<lparr>infos := infos s @ [?r], idNum := idNum s + 1, next_at := next_at s + 1, g_usbDevice := Some (Usb_device addr), g_cmd := NOTIFY_ADD_DEVICE\<rparr>"
  have "snd (UsbPnpNotifyCallback env (USB_DEVICE_ADD addr) s) = ?t" using callback_adds [OF s d] env by (simp add: nothing_fails_def)
  then show ?thesis
    using thread_on_last [of ?t "infos s" ?r env, OF _ new_differs [OF s d(2)] env(2)] addr_table [OF d(2)]
    by (simp add: plugged_def t_def new_record_def)
qed

text \<open>The callback of a removal, on the last record.\<close>

lemma callback_removes:
  assumes t: "infos t = is @ [r]" "others_differ is r" "usbDevAddr (info r) = addr"
  shows "snd (UsbPnpNotifyCallback env (USB_DEVICE_REMOVE addr) t) =
    t\<lparr>infos := is @ [r\<lparr>pnp_status := (if pnp_status r \<noteq> INIT_STATUS then INIT_STATUS else REMOVE_STATUS)\<rparr>],
      g_usbDevice := Some (Usb_device addr), g_cmd := NOTIFY_REMOVE_DEVICE, g_remove := REMOVE_BUS_DEV_NUM\<rparr>"
  using last_found [of t "is" r addr] last_info(2) [OF t(1)] t by (simp add: UsbPnpNotifyCallback_def others_differ_def)

lemma unplugged_state:
  assumes t: "infos t = is @ [r]" "others_differ is r" "usbDevAddr (info r) = addr" and env: "nothing_fails env"
  shows "unplugged env addr t =
    (if pnp_status r \<noteq> INIT_STATUS
     then t\<lparr>infos := is, g_usbDevice := None, g_cmd := NOTIFY_REMOVE_DEVICE, g_remove := REMOVE_BUS_DEV_NUM,
       pnp_sent := pnp_sent t @ [(NOTIFY_REMOVE_DEVICE, (info r)\<lparr>removeType := REMOVE_BUS_DEV_NUM\<rparr>)]\<rparr>
     else t\<lparr>infos := is, g_usbDevice := None, g_cmd := NOTIFY_REMOVE_DEVICE, g_remove := REMOVE_BUS_DEV_NUM\<rparr>)"
proof -
  let ?r = "r\<lparr>pnp_status := (if pnp_status r \<noteq> INIT_STATUS then INIT_STATUS else REMOVE_STATUS)\<rparr>"
  let ?t = "t\<lparr>infos := is @ [?r], g_usbDevice := Some (Usb_device addr), g_cmd := NOTIFY_REMOVE_DEVICE, g_remove := REMOVE_BUS_DEV_NUM\<rparr>"
  have "others_differ is ?r" using t(2) by (simp add: others_differ_def)
  then show ?thesis
    using thread_on_last [of ?t "is" ?r env] callback_removes [OF t] t(3) env by (simp add: unplugged_def)
qed

text \<open>
  C37. A device that is plugged in and is not known yet is reported once, with the description that the kernel gives of
  it, and stands in the list as reported; when it is unplugged the removal is reported once, with the
  same description, and the list is as it was. A device that is unplugged before the thread ran is not reported at all.
\<close>
theorem plug_unplug:
  assumes s: "pnp_ok n s" "unknown_device addr s" and d: "usb_devs env addr = Some d" "describable n d" and env: "max_ifs env = n" "nothing_fails env"
  shows "pnp_sent (plugged env addr s) = pnp_sent s @ [(NOTIFY_ADD_DEVICE, (table_of n addr d)\<lparr>removeType := g_remove s\<rparr>)]
    \<and> map (\<lambda>i. (usbDevAddr (info i), pnp_status i)) (infos (plugged env addr s)) =
      map (\<lambda>i. (usbDevAddr (info i), pnp_status i)) (infos s) @ [(addr, ADD_STATUS)]
    \<and> pnp_sent (unplugged env addr (plugged env addr s)) =
      pnp_sent (plugged env addr s) @ [(NOTIFY_REMOVE_DEVICE, (table_of n addr d)\<lparr>removeType := REMOVE_BUS_DEV_NUM\<rparr>)]
    \<and> infos (unplugged env addr (plugged env addr s)) = infos s
    \<and> pnp_sent (unplugged env addr (snd (UsbPnpNotifyCallback env (USB_DEVICE_ADD addr) s))) = pnp_sent s
    \<and> infos (unplugged env addr (snd (UsbPnpNotifyCallback env (USB_DEVICE_ADD addr) s))) = infos s"
proof -
  let ?r = "new_record n addr d s"
  let ?q = "?r\<lparr>info := (table_of n addr d)\<lparr>removeType := g_remove s\<rparr>, pnp_status := ADD_STATUS\<rparr>"
  have diff: "others_differ (infos s) ?r" by (rule new_differs [OF s d(2)])
  have addr: "usbDevAddr (info ?r) = addr" "usbDevAddr (info ?q) = addr" using addr_table [OF d(2)] by (simp_all add: new_record_def)
  have diffq: "others_differ (infos s) ?q" using diff addr by (simp add: others_differ_def)
  show ?thesis
    using unplugged_state [of "plugged env addr s" "infos s" ?q addr env] unplugged_state [of _ "infos s" ?r addr env]
      plugged_state [OF s d env] callback_adds [OF s d env(1)] diff diffq addr env
    by (simp add: nothing_fails_def new_record_def)
qed

lemma plug_unplug_witness:
  "map fst (pnp_sent (plugged pnp_sample_env 0x8000 (pnp_start 32))) = [NOTIFY_ADD_DEVICE]
    \<and> infos (unplugged pnp_sample_env 0x8000 (plugged pnp_sample_env 0x8000 (pnp_start 32))) = []"
proof -
  have u: "unknown_device 0x8000 (pnp_start 32)" by (simp add: unknown_device_def pnp_start_def)
  have d: "usb_devs pnp_sample_env 0x8000 = Some keyboard" "describable 32 keyboard" "max_ifs pnp_sample_env = 32" "nothing_fails pnp_sample_env"
    by (simp_all add: pnp_sample_env_def describable_def keyboard_def nothing_fails_def)
  show ?thesis using plug_unplug [OF pnp_start_ok u d] by (simp add: pnp_start_def)
qed

subsection \<open>Interfaces come and go\<close>

text \<open>The interfaces of a device that are not removed, in the order of the device.\<close>

definition present :: "device_info \<Rightarrow> usb_if list" where
  "present i = [ifInfo (info i) ! k. k \<leftarrow> [0..<unat (numInfos (info i))], \<not> ifRemoved i ! k]"

lemma fill_loop_eq:
  "i + count \<le> length ifs \<Longrightarrow> j + count \<le> length out \<Longrightarrow>
   fill_loop count i j ifs removed out =
     (let ys = [ifs ! k. k \<leftarrow> [i..<i + count], \<not> removed ! k] in (j + length ys, take j out @ ys @ drop (j + length ys) out))"
proof (induction count arbitrary: i j out)
  case (Suc count)
  have up: "[i..<i + Suc count] = i # [Suc i..<Suc i + count]" by (simp add: upt_rec)
  show ?case
  proof (cases "removed ! i")
    case True
    then show ?thesis using Suc.IH [of "Suc i" j out] Suc.prems up by simp
  next
    case False
    then show ?thesis
      using Suc.IH [of "Suc i" "Suc j" "out[j := ifs ! i]"] Suc.prems up by (simp add: Let_def take_Suc_conv_app_nth drop_update_cancel)
  qed
qed simp

lemma mark_removed_nth: "k < length removed \<Longrightarrow> mark_removed b x n ifs removed ! k = (if k < n \<and> ifs ! k = x then b else removed ! k)"
  by (simp add: mark_removed_def)

text \<open>A record that is found keeps being found when only other fields of it are written.\<close>

lemma found_upd:
  assumes "\<And>i. query_matches q (f i) = query_matches q i"
  shows "UsbPnpNotifyFindInfo q (upd_info a f s) = map_option (\<lambda>i. if info_at i = a then f i else i) (UsbPnpNotifyFindInfo q s)"
proof -
  have "find (query_matches q) (map (\<lambda>i. if info_at i = a then f i else i) is) = map_option (\<lambda>i. if info_at i = a then f i else i) (find (query_matches q) is)" for "is"
    by (induction "is") (auto simp: assms)
  then show ?thesis by (simp add: UsbPnpNotifyFindInfo_def upd_info_def)
qed

lemma found_other [simp]:
  "UsbPnpNotifyFindInfo q (s\<lparr>add_table := t\<rparr>) = UsbPnpNotifyFindInfo q s" "UsbPnpNotifyFindInfo q (s\<lparr>g_cmd := c\<rparr>) = UsbPnpNotifyFindInfo q s"
  "UsbPnpNotifyFindInfo q (s\<lparr>g_usbDevice := d\<rparr>) = UsbPnpNotifyFindInfo q s" "UsbPnpNotifyFindInfo q (s\<lparr>g_remove := r\<rparr>) = UsbPnpNotifyFindInfo q s"
  "UsbPnpNotifyFindInfo q (s\<lparr>g_usbPnpInfo := x\<rparr>) = UsbPnpNotifyFindInfo q s"
  by (simp_all add: UsbPnpNotifyFindInfo_def)

lemma upd_info_add_table [simp]: "upd_info a f (s\<lparr>add_table := t\<rparr>) = (upd_info a f s)\<lparr>add_table := t\<rparr>"
  by (simp add: upd_info_def)

text \<open>What a command about an interface leaves behind: the slot, and the record waiting to be sent.\<close>

definition commanded :: "pnp_cmd \<Rightarrow> add_remove \<Rightarrow> device_info \<Rightarrow> pnp \<Rightarrow> bool" where
  "commanded cmd ar i t \<longleftrightarrow> g_cmd t = cmd \<and> g_usbDevice t = Some Pnp_info \<and> g_usbPnpInfo t = ar
     \<and> UsbPnpNotifyFindInfo (By_num (ar_devNum ar) (ar_busNum ar)) t = Some i \<and> info_of (info_at i) t = Some i \<and> pnp_status i = INIT_STATUS"

lemma dispatch_commands:
  fixes env :: pnp_env
  assumes s: "pnp_ok n s" and i: "UsbPnpNotifyFindInfo (By_num (ar_devNum ar) (ar_busNum ar)) s = Some i" "pnp_status i \<noteq> INIT_STATUS"
    and cmd: "is_if_cmd cmd"
  defines "t \<equiv> snd (UsbPnpNotifyDispatch env cmd (Some ar) s)"
  shows "commanded cmd ar (i\<lparr>pnp_status := INIT_STATUS\<rparr>) t"
    and "g_remove t = (if cmd = NOTIFY_REMOVE_INTERFACE then REMOVE_INTERFACE_NUM else g_remove s)" and "pnp_sent t = pnp_sent s" and "pnp_ok n t"
    and "b \<noteq> info_at i \<Longrightarrow> info_of b t = info_of b s"
proof -
  have own: "info_of (info_at i) s = Some i" using s found_in [OF i(1)] by (intro info_of_in) (simp_all add: pnp_ok_def)
  let ?f = "\<lambda>i. i\<lparr>pnp_status := (if pnp_status i \<noteq> INIT_STATUS then INIT_STATUS else INTERFACE_STATUS)\<rparr>"
  let ?u = "upd_info (info_at i) ?f (s\<lparr>g_cmd := cmd, g_usbPnpInfo := ar, g_usbDevice := Some Pnp_info\<rparr>)"
  have t: "t = (if cmd = NOTIFY_REMOVE_INTERFACE then ?u\<lparr>g_remove := REMOVE_INTERFACE_NUM\<rparr> else ?u)"
    using cmd i(1) by (auto simp: t_def is_if_cmd_def UsbPnpNotifyDispatch_def UsbPnpNotifyReadPnpInfo_def Let_def)
  have q: "query_matches (By_num (ar_devNum ar) (ar_busNum ar)) (?f j) = query_matches (By_num (ar_devNum ar) (ar_busNum ar)) j" for j by simp
  have at: "info_at (?f j) = info_at j" for j by simp
  show "commanded cmd ar (i\<lparr>pnp_status := INIT_STATUS\<rparr>) t"
    using own i by (auto simp: t commanded_def found_upd [OF q] info_of_upd [OF at])
  show "g_remove t = (if cmd = NOTIFY_REMOVE_INTERFACE then REMOVE_INTERFACE_NUM else g_remove s)" "pnp_sent t = pnp_sent s"
    by (simp_all add: t)
  show "pnp_ok n t" using s by (auto simp: t info_ok_def intro!: pnp_ok_upd)
  show "b \<noteq> info_at i \<Longrightarrow> info_of b t = info_of b s" by (auto simp: t info_of_upd [OF at])
qed

text \<open>The record after the command was sent: the flags of the interfaces that are meant.\<close>

definition flags_after :: "pnp_cmd \<Rightarrow> add_remove \<Rightarrow> device_info \<Rightarrow> bool list" where
  "flags_after cmd ar i = mark_removed (cmd = NOTIFY_REMOVE_INTERFACE) (ar_if ar) (unat (numInfos (info i))) (ifInfo (info i)) (ifRemoved i)"

lemma present_flags: "present (i\<lparr>ifRemoved := f\<rparr>) = [ifInfo (info i) ! k. k \<leftarrow> [0..<unat (numInfos (info i))], \<not> f ! k]"
  by (simp add: present_def cong: if_cong)

lemma present_after:
  assumes "info_ok n i"
  shows "present (i\<lparr>ifRemoved := flags_after cmd ar i\<rparr>) =
    (if cmd = NOTIFY_REMOVE_INTERFACE then filter (\<lambda>x. x \<noteq> ar_if ar) (present i)
     else [ifInfo (info i) ! k. k \<leftarrow> [0..<unat (numInfos (info i))], \<not> ifRemoved i ! k \<or> ifInfo (info i) ! k = ar_if ar])"
proof -
  have len: "unat (numInfos (info i)) \<le> length (ifRemoved i)" using assms by (simp add: info_ok_def table_ok_def)
  have flag: "flags_after c ar i ! k = (if ifInfo (info i) ! k = ar_if ar then c = NOTIFY_REMOVE_INTERFACE else ifRemoved i ! k)"
    if "k < unat (numInfos (info i))" for c k
    using that len by (auto simp: flags_after_def mark_removed_nth)
  have filt: "filter (\<lambda>x. x \<noteq> a) (concat (map (\<lambda>k. if p k then [f k] else []) ks)) = concat (map (\<lambda>k. if p k \<and> f k \<noteq> a then [f k] else []) ks)"
    for a p and f :: "nat \<Rightarrow> usb_if" and ks by (induction ks) auto
  have eq: "concat (map f [0..<m]) = concat (map g [0..<m])" if "\<And>k. k < m \<Longrightarrow> f k = g k" for f g :: "nat \<Rightarrow> usb_if list" and m
    using that by (intro arg_cong [where f = concat] map_cong) auto
  show ?thesis
  proof (cases "cmd = NOTIFY_REMOVE_INTERFACE")
    case True
    then show ?thesis unfolding present_flags unfolding present_def filt by (simp only: if_True simp_thms) (rule eq, simp add: flag)
  next
    case False
    then show ?thesis unfolding present_flags by (simp only: if_False simp_thms) (rule eq, simp add: flag)
  qed
qed

lemma thread_sends_interface:
  assumes t: "pnp_ok n t" "commanded cmd ar i t" and cmd: "is_if_cmd cmd" and env: "nothing_fails env"
  defines "u \<equiv> snd (UsbPnpNotifyReportThread env t)"
  shows "info_of (info_at i) u = Some (i\<lparr>pnp_status := ADD_STATUS, ifRemoved := flags_after cmd ar i, info := (info i)\<lparr>removeType := g_remove t\<rparr>\<rparr>)"
    and "b \<noteq> info_at i \<Longrightarrow> info_of b u = info_of b t"
    and "\<exists>rest. pnp_sent u = pnp_sent t @ [(cmd, (info i)\<lparr>removeType := g_remove t,
        numInfos := (if cmd = NOTIFY_REMOVE_INTERFACE then 1 else of_nat (length (present (i\<lparr>ifRemoved := flags_after cmd ar i\<rparr>)))),
        ifInfo := (if cmd = NOTIFY_REMOVE_INTERFACE then [ar_if ar] else present (i\<lparr>ifRemoved := flags_after cmd ar i\<rparr>)) @ rest\<rparr>)]"
proof -
  let ?a = "info_at i"
  let ?i = "i\<lparr>info := (info i)\<lparr>removeType := g_remove t\<rparr>\<rparr>"
  let ?t = "upd_info ?a (\<lambda>i. i\<lparr>info := (info i)\<lparr>removeType := g_remove t\<rparr>\<rparr>) t"
  have c: "g_cmd t = cmd" "g_usbDevice t = Some Pnp_info" "g_usbPnpInfo t = ar" "info_of ?a t = Some i" "pnp_status i = INIT_STATUS"
    and found: "UsbPnpNotifyFindInfo (By_num (ar_devNum ar) (ar_busNum ar)) t = Some i" using t(2) by (simp_all add: commanded_def)
  have i: "info_ok n i" "0 < n" "n < 256" "length (ifInfo (add_table t)) = n" using t(1) pnp_ok_info [OF t(1) c(4)] by (simp_all add: pnp_ok_def)
  have get: "UsbPnpNotifyGetDeviceInfo env Pnp_info t = (Ok (Some ?a), ?t)"
    using cmd c found by (simp add: UsbPnpNotifyGetDeviceInfo_def)
  let ?xs = "present (i\<lparr>ifRemoved := flags_after cmd ar i\<rparr>)"
  let ?v = "upd_info ?a (\<lambda>r. r\<lparr>info := (info r)\<lparr>removeType := g_remove t\<rparr>, ifRemoved := flags_after cmd ar i\<rparr>) t"
  have fill: "fill_loop (unat (numInfos (info i))) 0 0 (ifInfo (info i)) (flags_after cmd ar i) (ifInfo (add_table t)) =
      (length ?xs, ?xs @ drop (length ?xs) (ifInfo (add_table t)))"
    using fill_loop_eq [of 0 "unat (numInfos (info i))" "ifInfo (info i)" 0 "ifInfo (add_table t)" "flags_after cmd ar i"] i
    by (simp add: present_flags info_ok_def table_ok_def Let_def)
  define rest where "rest = (if cmd = NOTIFY_REMOVE_INTERFACE then tl (ifInfo (add_table t)) else drop (length ?xs) (ifInfo (add_table t)))"
  define T where "T = (info i)\<lparr>removeType := g_remove t,
      numInfos := (if cmd = NOTIFY_REMOVE_INTERFACE then 1 else of_nat (length ?xs)),
      ifInfo := (if cmd = NOTIFY_REMOVE_INTERFACE then [ar_if ar] else ?xs) @ rest\<rparr>"
  have ne: "ifInfo (add_table t) \<noteq> []" using i by auto
  then have upd0: "(ifInfo (add_table t))[0 := x] = x # tl (ifInfo (add_table t))" for x by (cases "ifInfo (add_table t)") auto
  have sizes: "unat (numInfos (info i)) \<le> length (ifInfo (info i))" "unat (numInfos (info i)) \<le> length (ifRemoved i)" "unat (numInfos (info i)) \<le> length (ifInfo (add_table t))"
    using i by (simp_all add: info_ok_def table_ok_def)
  have marked: "mark_removed (cmd = NOTIFY_REMOVE_INTERFACE) (ar_if ar) (unat (numInfos (info i))) (ifInfo (info i)) (ifRemoved i) = flags_after cmd ar i"
    by (simp add: flags_after_def)
  have put: "UsbPnpNotifyInitInfo env ?a Pnp_info ?t = (Ok (HDF_SUCCESS, T), ?v\<lparr>add_table := T\<rparr>)"
    using cmd c env sizes ne marked
    by (simp add: UsbPnpNotifyInitInfo_def UsbPnpNotifyAddInterfaceInitInfo_def info_of_upd upd_info_twice nothing_fails_def
        Let_def fill upd0 T_def rest_def not_less [symmetric])
  let ?u = "upd_info ?a (\<lambda>i. i\<lparr>pnp_status := ADD_STATUS\<rparr>) (?v\<lparr>add_table := T, pnp_sent := pnp_sent t @ [(cmd, T)]\<rparr>)"
  have send: "UsbPnpNotifyHdfSendEvent env Pnp_info t = (Ok HDF_SUCCESS, ?u)"
    using env get put cmd c
    by (auto simp: UsbPnpNotifyHdfSendEvent_def send_table_def nothing_fails_def info_of_upd is_if_cmd_def)
  then have u: "u = ?u\<lparr>g_usbDevice := None\<rparr>"
    using c cmd by (simp add: u_def UsbPnpNotifyReportThread_def)
  show "info_of ?a u = Some (i\<lparr>pnp_status := ADD_STATUS, ifRemoved := flags_after cmd ar i, info := (info i)\<lparr>removeType := g_remove t\<rparr>\<rparr>)"
    using c by (simp add: u info_of_upd)
  show "b \<noteq> ?a \<Longrightarrow> info_of b u = info_of b t" by (simp add: u info_of_upd)
  show "\<exists>rest. pnp_sent u = pnp_sent t @ [(cmd, (info i)\<lparr>removeType := g_remove t,
        numInfos := (if cmd = NOTIFY_REMOVE_INTERFACE then 1 else of_nat (length ?xs)),
        ifInfo := (if cmd = NOTIFY_REMOVE_INTERFACE then [ar_if ar] else ?xs) @ rest\<rparr>)]"
    by (rule exI [of _ rest]) (simp add: u T_def)
qed

text \<open>A client's command about an interface, and the turn of the thread.\<close>

definition interface_command :: "pnp_env \<Rightarrow> pnp_cmd \<Rightarrow> add_remove \<Rightarrow> pnp \<Rightarrow> pnp" where
  "interface_command env cmd ar s = snd (UsbPnpNotifyReportThread env (snd (UsbPnpNotifyDispatch env cmd (Some ar) s)))"

definition table_ifs :: "match_table \<Rightarrow> usb_if list" where
  "table_ifs t = take (unat (numInfos t)) (ifInfo t)"

lemma present_length: "info_ok n i \<Longrightarrow> length (present i) \<le> unat (numInfos (info i))"
proof -
  have "length (concat (map (\<lambda>k. if p k then [f k] else []) ks)) \<le> length ks" for p and f :: "nat \<Rightarrow> usb_if" and ks by (induction ks) auto
  from this [of "\<lambda>k. \<not> ifRemoved i ! k" "\<lambda>k. ifInfo (info i) ! k" "[0..<unat (numInfos (info i))]"] show ?thesis by (simp add: present_def)
qed

lemma commanded_state:
  assumes s: "pnp_ok n s" and i: "UsbPnpNotifyFindInfo (By_num (ar_devNum ar) (ar_busNum ar)) s = Some i" "pnp_status i \<noteq> INIT_STATUS"
    and cmd: "is_if_cmd cmd" and env: "nothing_fails env"
  defines "u \<equiv> interface_command env cmd ar s" and "r \<equiv> (if cmd = NOTIFY_REMOVE_INTERFACE then REMOVE_INTERFACE_NUM else g_remove s)"
  shows "\<exists>t i'. pnp_sent u = pnp_sent s @ [(cmd, t)] \<and> usbDevAddr t = usbDevAddr (info i) \<and> removeType t = r
      \<and> table_ifs t = (if cmd = NOTIFY_REMOVE_INTERFACE then [ar_if ar] else present i')
      \<and> info_of (info_at i) u = Some i' \<and> pnp_status i' = ADD_STATUS \<and> present i' = present (i\<lparr>ifRemoved := flags_after cmd ar i\<rparr>)"
    and "b \<noteq> info_at i \<Longrightarrow> info_of b u = info_of b s"
proof -
  let ?t = "snd (UsbPnpNotifyDispatch env cmd (Some ar) s)" and ?j = "i\<lparr>pnp_status := INIT_STATUS\<rparr>"
  note d = dispatch_commands [OF s i cmd, where env = env]
  note sent = thread_sends_interface [OF d(4) d(1) cmd env, folded interface_command_def u_def]
  let ?p = "i\<lparr>ifRemoved := flags_after cmd ar i\<rparr>"
  have j: "info_at ?j = info_at i" "info ?j = info i" "flags_after cmd ar ?j = flags_after cmd ar i" by (simp_all add: flags_after_def)
  have p: "present (i\<lparr>pnp_status := st, ifRemoved := f, info := (info i)\<lparr>removeType := x\<rparr>\<rparr>) = present (i\<lparr>ifRemoved := f\<rparr>)"
    "present (i\<lparr>pnp_status := st, ifRemoved := f\<rparr>) = present (i\<lparr>ifRemoved := f\<rparr>)" for st f x
    by (simp_all add: present_def cong: if_cong)
  have ok: "info_ok n i" using s found_in [OF i(1)] by (simp add: pnp_ok_def)
  have n: "n < 256" using s by (simp add: pnp_ok_def)
  have "info_ok n ?p" using ok by (simp add: info_ok_def flags_after_def mark_removed_def)
  then have len: "length (present ?p) < 256" using present_length [of n ?p] ok n by (simp add: info_ok_def table_ok_def)
  have pj: "present (?j\<lparr>ifRemoved := flags_after cmd ar i\<rparr>) = present ?p" by (simp add: p)
  obtain rest where rest: "pnp_sent u = pnp_sent ?t @ [(cmd, (info i)\<lparr>removeType := g_remove ?t,
        numInfos := (if cmd = NOTIFY_REMOVE_INTERFACE then 1 else of_nat (length (present ?p))),
        ifInfo := (if cmd = NOTIFY_REMOVE_INTERFACE then [ar_if ar] else present ?p) @ rest\<rparr>)]"
    using sent(3) unfolding j pj by blast
  have "unat (of_nat (length (present ?p)) :: u8) = length (present ?p)" using len by (simp add: unat_of_nat take_bit_nat_eq_self)
  then show "\<exists>t i'. pnp_sent u = pnp_sent s @ [(cmd, t)] \<and> usbDevAddr t = usbDevAddr (info i) \<and> removeType t = r
      \<and> table_ifs t = (if cmd = NOTIFY_REMOVE_INTERFACE then [ar_if ar] else present i')
      \<and> info_of (info_at i) u = Some i' \<and> pnp_status i' = ADD_STATUS \<and> present i' = present ?p"
    using rest sent(1) d(2,3) by (simp add: j p table_ifs_def r_def)
  show "b \<noteq> info_at i \<Longrightarrow> info_of b u = info_of b s" using sent(2) d(5) by (simp add: j)
qed

text \<open>
  When a client says that an interface of a reported device was released, the table that is sent holds
  that interface alone, and from then on it is not among the interfaces that are present; when a client says that an interface was bound, the
  table holds, in the order of the device, the interfaces that are present, among them every one equal to the one that was meant. The
  device stays known as reported, and the records of other devices stay as they are.
\<close>
theorem interface_commands:
  assumes s: "pnp_ok n s" and i: "UsbPnpNotifyFindInfo (By_num (ar_devNum ar) (ar_busNum ar)) s = Some i" "pnp_status i \<noteq> INIT_STATUS"
    and env: "nothing_fails env"
  shows "(\<exists>t i'. pnp_sent (interface_command env NOTIFY_REMOVE_INTERFACE ar s) = pnp_sent s @ [(NOTIFY_REMOVE_INTERFACE, t)]
      \<and> table_ifs t = [ar_if ar] \<and> usbDevAddr t = usbDevAddr (info i) \<and> removeType t = REMOVE_INTERFACE_NUM
      \<and> info_of (info_at i) (interface_command env NOTIFY_REMOVE_INTERFACE ar s) = Some i' \<and> pnp_status i' = ADD_STATUS
      \<and> present i' = filter (\<lambda>x. x \<noteq> ar_if ar) (present i))
    \<and> (\<exists>t i'. pnp_sent (interface_command env NOTIFY_ADD_INTERFACE ar s) = pnp_sent s @ [(NOTIFY_ADD_INTERFACE, t)]
      \<and> table_ifs t = present i' \<and> usbDevAddr t = usbDevAddr (info i)
      \<and> info_of (info_at i) (interface_command env NOTIFY_ADD_INTERFACE ar s) = Some i' \<and> pnp_status i' = ADD_STATUS
      \<and> present i' = [ifInfo (info i) ! k. k \<leftarrow> [0..<unat (numInfos (info i))], \<not> ifRemoved i ! k \<or> ifInfo (info i) ! k = ar_if ar])
    \<and> (b = info_at i \<or> info_of b (interface_command env NOTIFY_REMOVE_INTERFACE ar s) = info_of b s
      \<and> info_of b (interface_command env NOTIFY_ADD_INTERFACE ar s) = info_of b s)"
proof -
  have cmd: "is_if_cmd NOTIFY_REMOVE_INTERFACE" "is_if_cmd NOTIFY_ADD_INTERFACE" by (simp_all add: is_if_cmd_def)
  have "info_ok n i" using s found_in [OF i(1)] by (simp add: pnp_ok_def)
  note after = present_after [OF this]
  show ?thesis
    using commanded_state(1) [OF s i cmd(1) env] commanded_state(1) [OF s i cmd(2) env]
      commanded_state(2) [OF s i cmd(1) env, of b] commanded_state(2) [OF s i cmd(2) env, of b]
    unfolding after by (simp only: if_True simp_thms pnp_cmd.distinct if_False) blast
qed

definition second_if :: add_remove where
  "second_if = \<lparr>ar_devNum = 4, ar_busNum = 1, ar_if = iface 1\<rparr>"

lemma interface_commands_witness:
  "\<exists>t. pnp_sent (interface_command pnp_sample_env NOTIFY_REMOVE_INTERFACE second_if pnp_plugged) = pnp_sent pnp_plugged @ [(NOTIFY_REMOVE_INTERFACE, t)]
    \<and> table_ifs t = [iface 1]"
proof -
  have ok: "pnp_ok 32 pnp_plugged" using pnp_reachable_ok [OF pnp_plugged_reachable] by (simp add: pnp_start_ok)
  have env: "nothing_fails pnp_sample_env" by (simp add: nothing_fails_def pnp_sample_env_def)
  have "map_option pnp_status (UsbPnpNotifyFindInfo (By_num (ar_devNum second_if) (ar_busNum second_if)) pnp_plugged) = Some ADD_STATUS" by code_simp
  then obtain i where i: "UsbPnpNotifyFindInfo (By_num (ar_devNum second_if) (ar_busNum second_if)) pnp_plugged = Some i" "pnp_status i \<noteq> INIT_STATUS"
    by auto
  have x: "ar_if second_if = iface 1" by (simp add: second_if_def)
  show ?thesis using interface_commands [OF ok i env, of 0] unfolding x by (elim conjE exE) (intro exI conjI)
qed

subsection \<open>Where the parts race\<close>

definition sent_cmds :: "pnp \<Rightarrow> (pnp_cmd \<times> u64 \<times> nat) list" where
  "sent_cmds s = map (\<lambda>(c, t). (c, usbDevAddr t, unat (numInfos t))) (pnp_sent s)"

definition dispatched :: "pnp_cmd \<Rightarrow> pnp \<Rightarrow> pnp" where
  "dispatched cmd s = snd (UsbPnpNotifyDispatch pnp_sample_env cmd (Some second_if) s)"

definition threaded :: "pnp \<Rightarrow> pnp" where
  "threaded s = snd (UsbPnpNotifyReportThread pnp_sample_env s)"

definition called_back :: "usb_action \<Rightarrow> pnp \<Rightarrow> pnp" where
  "called_back action s = snd (UsbPnpNotifyCallback pnp_sample_env action s)"

text \<open>
  One slot holds what the thread has to do. Two devices that are added before the thread runs: only the second
  is reported. A second command about an interface before the thread ran: nothing is sent and
  the record of the device is destroyed. A command that is not known, while a device waits to be reported: the
  device is reported under that command with a table of no device. A command about an interface and
  one to report all, before the thread ran: the thread takes what describes the interface for a device.
\<close>
theorem slot_is_overwritten:
  "sent_cmds (threaded (called_back (USB_DEVICE_ADD 0x9000) (called_back (USB_DEVICE_ADD 0x8000) (pnp_start 32)))) = [(NOTIFY_ADD_DEVICE, 0x9000, 2)]
    \<and> infos (threaded (dispatched NOTIFY_ADD_INTERFACE (dispatched NOTIFY_REMOVE_INTERFACE pnp_plugged))) = []
    \<and> sent_cmds (threaded (dispatched NOTIFY_ADD_INTERFACE (dispatched NOTIFY_REMOVE_INTERFACE pnp_plugged))) = sent_cmds pnp_plugged
    \<and> sent_cmds (threaded (dispatched (OTHER_CMD 77) (called_back (USB_DEVICE_ADD 0x8000) (pnp_start 32)))) = [(OTHER_CMD 77, 0, 0)]
    \<and> fst (UsbPnpNotifyReportThread pnp_sample_env (dispatched NOTIFY_REPORT_INTERFACE (dispatched NOTIFY_ADD_INTERFACE pnp_plugged))) = Fault"
  by (intro conjI; code_simp)

text \<open>Releasing the driver waits for an event, and the threads it stopped are not started again.\<close>

lemma release_waits:
  "object_ok env \<Longrightarrow> usb_thread s \<Longrightarrow> usb_thread_runs s \<Longrightarrow> g_usbDevice s = None \<Longrightarrow> UsbPnpNotifyRelease env s = (Ok None, s)"
  by (simp add: UsbPnpNotifyRelease_def)

lemma threads_not_restarted:
  "usb_thread s \<Longrightarrow> gadget_thread s \<Longrightarrow>
   usb_thread_runs (snd (UsbPnpNotifyInit env s)) = usb_thread_runs s \<and> gadget_thread_runs (snd (UsbPnpNotifyInit env s)) = gadget_thread_runs s"
  by (simp add: UsbPnpNotifyInit_def)

end
