(* ===== verification/Wlan_Queue.thy ===== *)
theory Wlan_Queue
  imports Results
begin

section \<open>The message queue of the wireless driver\<close>

text \<open>
  \<open>model/network/wifi/platform/src/hdf_wlan_queue.c\<close>: a ring of pointers under a mutex, with indices of 16 bits.
  A queue is \<open>None\<close> where the code has a null pointer; \<open>0\<close> is the null pointer among the elements. \<open>Fault\<close> is
  an access behind the elements. What the mutex and the allocator answer are parameters.

  The locale \<open>bounded_fifo\<close> is what a user of a bounded queue relies on; the ring is one.
\<close>

subsection \<open>The code\<close>

record wlan_queue =
  elementCount :: u16
  maxElements :: u16
  tailIndex :: u16
  headIndex :: u16
  elements :: "u64 list"

record queue_env =
  alloc_ok :: bool
  mutex_init :: hdf_status
  mutex_lock :: hdf_status
  mutex_unlock :: hdf_status

abbreviation (input) MAX_QUEUE_SIZE :: u16 where "MAX_QUEUE_SIZE \<equiv> 30000"

definition CreateQueue :: "queue_env \<Rightarrow> u16 \<Rightarrow> wlan_queue option" where
  "CreateQueue env maxQueueSize =
     (if maxQueueSize > MAX_QUEUE_SIZE then None
      else if \<not> alloc_ok env then None
      else if mutex_init env \<noteq> HDF_SUCCESS then None
      else Some \<lparr>elementCount = 0, maxElements = maxQueueSize, tailIndex = 0, headIndex = 0,
        elements = replicate (unat maxQueueSize) 0\<rparr>)"

text \<open>An index moves on, and back to the start behind the last element.\<close>

definition next_index :: "wlan_queue \<Rightarrow> u16 \<Rightarrow> u16" where
  "next_index q i = (if i + 1 \<ge> maxElements q then 0 else i + 1)"

definition PopQueue :: "queue_env \<Rightarrow> wlan_queue option \<Rightarrow> u64 res \<times> wlan_queue option" where
  "PopQueue env queue = (case queue of
     None \<Rightarrow> (Ok 0, None)
   | Some q \<Rightarrow>
       if mutex_lock env \<noteq> HDF_SUCCESS then (Ok 0, Some q)
       else if elementCount q > 0 then
         (if unat (headIndex q) \<ge> length (elements q) then (Fault, Some q)
          else (Ok (elements q ! unat (headIndex q)),
            Some (q\<lparr>headIndex := next_index q (headIndex q), elementCount := elementCount q - 1\<rparr>)))
       else (Ok 0, Some q))"

text \<open>The status of a full queue is overwritten by the one of the unlocking.\<close>

definition PushQueue :: "queue_env \<Rightarrow> wlan_queue option \<Rightarrow> u64 \<Rightarrow> hdf_status res \<times> wlan_queue option" where
  "PushQueue env queue context = (case queue of
     None \<Rightarrow> (Ok HDF_FAILURE, None)
   | Some q \<Rightarrow>
       if mutex_lock env \<noteq> HDF_SUCCESS then (Ok HDF_FAILURE, Some q)
       else if elementCount q \<ge> maxElements q then (Ok (mutex_unlock env), Some q)
       else if unat (tailIndex q) \<ge> length (elements q) then (Fault, Some q)
       else (Ok (mutex_unlock env), Some (q\<lparr>elements := (elements q)[unat (tailIndex q) := context],
         tailIndex := next_index q (tailIndex q), elementCount := elementCount q + 1\<rparr>)))"

text \<open>Destroying frees the queue whatever the mutex answers: its pointer is not to be used any more.\<close>

definition DestroyQueue :: "queue_env \<Rightarrow> wlan_queue option \<Rightarrow> wlan_queue option" where
  "DestroyQueue env queue = None"

subsection \<open>What a bounded queue promises\<close>

datatype 'a queue_op = Push 'a | Pop

text \<open>A sequence of calls, and what the pops return.\<close>

fun run_queue :: "('a \<Rightarrow> 'q \<Rightarrow> 'q) \<Rightarrow> ('q \<Rightarrow> 'a \<times> 'q) \<Rightarrow> 'a queue_op list \<Rightarrow> 'q \<Rightarrow> 'a list \<times> 'q" where
  "run_queue push pop [] q = ([], q)"
| "run_queue push pop (Push x # ops) q = run_queue push pop ops (push x q)"
| "run_queue push pop (Pop # ops) q = (let (x, q) = pop q; (xs, q) = run_queue push pop ops q in (x # xs, q))"

text \<open>The abstract queue: a list of at most \<open>n\<close> entries, which drops what does not fit; \<open>null\<close> stands for nothing.\<close>

definition push_list :: "nat \<Rightarrow> 'a \<Rightarrow> 'a list \<Rightarrow> 'a list" where
  "push_list n x xs = (if length xs < n then xs @ [x] else xs)"

definition pop_list :: "'a \<Rightarrow> 'a list \<Rightarrow> 'a \<times> 'a list" where
  "pop_list null xs = (case xs of [] \<Rightarrow> (null, []) | x # xs \<Rightarrow> (x, xs))"

locale bounded_fifo =
  fixes push :: "'a \<Rightarrow> 'q \<Rightarrow> 'q"
    and pop :: "'q \<Rightarrow> 'a \<times> 'q"
    and content :: "'q \<Rightarrow> 'a list"
    and capacity :: "'q \<Rightarrow> nat"
    and ok :: "'q \<Rightarrow> bool"
    and null :: 'a
  assumes ok_push: "ok q \<Longrightarrow> ok (push x q)"
    and ok_pop: "ok q \<Longrightarrow> ok (snd (pop q))"
    and content_push: "ok q \<Longrightarrow> content (push x q) = push_list (capacity q) x (content q)"
    and content_pop: "ok q \<Longrightarrow> (fst (pop q), content (snd (pop q))) = pop_list null (content q)"
    and capacity_push: "ok q \<Longrightarrow> capacity (push x q) = capacity q"
    and capacity_pop: "ok q \<Longrightarrow> capacity (snd (pop q)) = capacity q"
    and content_capacity: "ok q \<Longrightarrow> length (content q) \<le> capacity q"
begin

lemma run_refines:
  "ok q \<Longrightarrow> run_queue (push_list (capacity q)) (pop_list null) ops (content q) =
     (fst (run_queue push pop ops q), content (snd (run_queue push pop ops q)))
   \<and> ok (snd (run_queue push pop ops q)) \<and> capacity (snd (run_queue push pop ops q)) = capacity q"
proof (induction ops arbitrary: q rule: list.induct)
  case (Cons op ops)
  show ?case
  proof (cases op)
    case (Push x)
    then show ?thesis using Cons.IH [OF ok_push, OF Cons.prems, of x] Cons.prems by (simp add: content_push capacity_push)
  next
    case Pop
    have "pop_list null (content q) = (fst (pop q), content (snd (pop q)))" using content_pop [OF Cons.prems] by simp
    then show ?thesis
      using Pop Cons.IH [OF ok_pop, OF Cons.prems] Cons.prems
      by (simp add: capacity_pop Let_def case_prod_beta)
  qed
qed simp

lemma pushes:
  "ok q \<Longrightarrow> length (content q) + length xs \<le> capacity q \<Longrightarrow>
   content (fold push xs q) = content q @ xs \<and> ok (fold push xs q) \<and> capacity (fold push xs q) = capacity q"
proof (induction xs arbitrary: q)
  case (Cons x xs)
  have "content (push x q) = content q @ [x]" using Cons.prems by (simp add: content_push push_list_def)
  then show ?case using Cons.IH [of "push x q"] Cons.prems by (simp add: ok_push capacity_push)
qed simp

lemma pops:
  "ok q \<Longrightarrow> n \<le> length (content q) \<Longrightarrow>
   fst (run_queue push pop (replicate n Pop) q) = take n (content q) \<and> content (snd (run_queue push pop (replicate n Pop) q)) = drop n (content q)"
proof (induction n arbitrary: q)
  case (Suc n)
  then obtain x xs where c: "content q = x # xs" by (cases "content q") auto
  then have "fst (pop q) = x" "content (snd (pop q)) = xs" using content_pop [OF Suc.prems(1)] by (simp_all add: pop_list_def)
  then show ?case using Suc.IH [OF ok_pop, OF Suc.prems(1)] Suc.prems(2) c by (simp add: Let_def case_prod_beta)
qed simp

text \<open>What was pushed into an empty queue that has space for it comes out in order.\<close>

lemma push_then_pop:
  "ok q \<Longrightarrow> content q = [] \<Longrightarrow> length xs \<le> capacity q \<Longrightarrow> fst (run_queue push pop (replicate (length xs) Pop) (fold push xs q)) = xs"
  using pushes [of q xs] pops [of "fold push xs q" "length xs"] by simp

end

subsection \<open>The ring is a bounded queue\<close>

definition queue_ok :: "wlan_queue \<Rightarrow> bool" where
  "queue_ok q \<longleftrightarrow> length (elements q) = unat (maxElements q) \<and> unat (maxElements q) \<le> 30000 \<and> elementCount q \<le> maxElements q
     \<and> (maxElements q > 0 \<longrightarrow> headIndex q < maxElements q
       \<and> unat (tailIndex q) = (unat (headIndex q) + unat (elementCount q)) mod unat (maxElements q))"

definition queue_list :: "wlan_queue \<Rightarrow> u64 list" where
  "queue_list q = map (\<lambda>i. elements q ! ((unat (headIndex q) + i) mod unat (maxElements q))) [0..<unat (elementCount q)]"

definition locks_work :: "queue_env \<Rightarrow> bool" where
  "locks_work env \<longleftrightarrow> mutex_lock env = HDF_SUCCESS"

lemma next_index_nat:
  assumes "unat (maxElements q) \<le> 30000" "i < maxElements q"
  shows "unat (next_index q i) = (unat i + 1) mod unat (maxElements q)"
proof -
  have i: "unat i < unat (maxElements q)" using assms(2) by (simp add: word_less_nat_alt)
  then have s: "unat (i + 1) = unat i + 1" using assms(1) by (subst unat_add_lem [THEN iffD1]) auto
  show ?thesis
  proof (cases "unat i + 1 = unat (maxElements q)")
    case True
    then show ?thesis by (simp add: next_index_def word_le_nat_alt s)
  next
    case False
    then show ?thesis using i by (simp add: next_index_def word_le_nat_alt s)
  qed
qed

lemma count_up: "elementCount q < maxElements q \<Longrightarrow> unat (elementCount q + 1) = unat (elementCount q) + 1"
  by unat_arith

lemma count_down: "elementCount q > 0 \<Longrightarrow> unat (elementCount q - 1) = unat (elementCount q) - 1"
  by (metis unat_minus_one word_gt_0)

text \<open>Pushing: a full ring stays, one with space gets its new last element.\<close>

lemma push_full: "locks_work env \<Longrightarrow> elementCount q \<ge> maxElements q \<Longrightarrow> PushQueue env (Some q) x = (Ok (mutex_unlock env), Some q)"
  by (simp add: PushQueue_def locks_work_def)

lemma push_space:
  assumes q: "queue_ok q" "elementCount q < maxElements q" and env: "locks_work env"
  shows "\<exists>q'. PushQueue env (Some q) x = (Ok (mutex_unlock env), Some q') \<and> queue_ok q' \<and> maxElements q' = maxElements q
    \<and> queue_list q' = queue_list q @ [x]"
proof -
  let ?n = "unat (maxElements q)" and ?h = "unat (headIndex q)" and ?c = "unat (elementCount q)" and ?t = "unat (tailIndex q)"
  let ?q = "q\<lparr>elements := (elements q)[?t := x], tailIndex := next_index q (tailIndex q), elementCount := elementCount q + 1\<rparr>"
  have c: "?c < ?n" using q(2) by (simp add: word_less_nat_alt)
  have pos: "maxElements q > 0" using c by (simp add: word_gt_0_no word_less_nat_alt)
  have h: "?h < ?n" and t: "?t = (?h + ?c) mod ?n" and len: "length (elements q) = ?n" and n: "?n \<le> 30000"
    using q(1) pos by (simp_all add: queue_ok_def word_less_nat_alt)
  have tn: "?t < ?n" using t c by simp
  then have ti: "unat (next_index q (tailIndex q)) = (?t + 1) mod ?n" using next_index_nat [of q "tailIndex q"] n by (simp add: word_less_nat_alt)
  have cu: "unat (elementCount q + 1) = ?c + 1" by (rule count_up [OF q(2)])
  have push: "PushQueue env (Some q) x = (Ok (mutex_unlock env), Some ?q)"
    using env q(2) tn len by (simp add: PushQueue_def locks_work_def not_le [symmetric])
  have "queue_ok ?q"
    using q(1) pos c cu t by (simp add: queue_ok_def word_le_nat_alt ti mod_simps)
  moreover have "?t \<noteq> (?h + i) mod ?n" if "i < ?c" for i
  proof
    assume "?t = (?h + i) mod ?n"
    then have "(?h + ?c) mod ?n = (?h + i) mod ?n" using t by simp
    then have "?n dvd (?h + ?c) - (?h + i)" using that by (subst mod_eq_dvd_iff_nat [symmetric]) simp_all
    then have "?n dvd ?c - i" by simp
    then show False using that c by (auto dest: dvd_imp_le)
  qed
  then have "queue_list ?q = queue_list q @ [x]"
    using tn len by (simp add: queue_list_def cu t [symmetric] nth_list_update_neq)
  ultimately show ?thesis using push by auto
qed

lemma pop_empty: "elementCount q = 0 \<Longrightarrow> PopQueue env (Some q) = (Ok 0, Some q)"
  by (simp add: PopQueue_def)

lemma pop_some:
  assumes q: "queue_ok q" "elementCount q > 0" and env: "locks_work env"
  shows "\<exists>q'. PopQueue env (Some q) = (Ok (hd (queue_list q)), Some q') \<and> queue_ok q' \<and> maxElements q' = maxElements q
    \<and> queue_list q = hd (queue_list q) # queue_list q'"
proof -
  let ?n = "unat (maxElements q)" and ?h = "unat (headIndex q)" and ?c = "unat (elementCount q)" and ?t = "unat (tailIndex q)"
  let ?q = "q\<lparr>headIndex := next_index q (headIndex q), elementCount := elementCount q - 1\<rparr>"
  have c: "0 < ?c" using q(2) by (simp add: word_less_nat_alt)
  have cn: "?c \<le> ?n" using q(1) by (simp add: queue_ok_def word_le_nat_alt)
  have pos: "maxElements q > 0" using c cn by (simp add: word_less_nat_alt)
  have h: "?h < ?n" and t: "?t = (?h + ?c) mod ?n" and len: "length (elements q) = ?n" and n: "?n \<le> 30000" and hw: "headIndex q < maxElements q"
    using q(1) pos by (simp_all add: queue_ok_def word_less_nat_alt)
  have hi: "unat (next_index q (headIndex q)) = (?h + 1) mod ?n" by (rule next_index_nat [OF n hw])
  have cd: "unat (elementCount q - 1) = ?c - 1" by (rule count_down [OF q(2)])
  have up: "[0..<?c] = 0 # map Suc [0..<?c - 1]" using c by (metis Suc_diff_1 map_Suc_upt upt_conv_Cons)
  have list: "queue_list q = elements q ! ?h # queue_list ?q"
    unfolding queue_list_def up using h by (simp add: cd hi mod_simps)
  then have hd: "hd (queue_list q) = elements q ! ?h" by simp
  have "PopQueue env (Some q) = (Ok (hd (queue_list q)), Some ?q)"
    using env q(2) h len by (simp add: PopQueue_def locks_work_def hd not_le [symmetric])
  moreover have "(?h + ?c) mod ?n = ((?h + 1) mod ?n + (?c - 1)) mod ?n"
    using c by (simp only: mod_add_left_eq) simp
  then have "queue_ok ?q"
    using q(1) pos c cn t h by (simp add: queue_ok_def word_le_nat_alt word_less_nat_alt hi cd)
  ultimately show ?thesis using list hd by auto
qed

text \<open>The interface, over the pointer to a queue: a null pointer is a queue without space.\<close>

definition queue_push :: "queue_env \<Rightarrow> u64 \<Rightarrow> wlan_queue option \<Rightarrow> wlan_queue option" where
  "queue_push env x queue = snd (PushQueue env queue x)"

definition queue_pop :: "queue_env \<Rightarrow> wlan_queue option \<Rightarrow> u64 \<times> wlan_queue option" where
  "queue_pop env queue = (case PopQueue env queue of (Ok x, q) \<Rightarrow> (x, q) | (_, q) \<Rightarrow> (0, q))"

definition queue_content :: "wlan_queue option \<Rightarrow> u64 list" where
  "queue_content queue = (case queue of None \<Rightarrow> [] | Some q \<Rightarrow> queue_list q)"

definition queue_capacity :: "wlan_queue option \<Rightarrow> nat" where
  "queue_capacity queue = (case queue of None \<Rightarrow> 0 | Some q \<Rightarrow> unat (maxElements q))"

definition queue_usable :: "queue_env \<Rightarrow> wlan_queue option \<Rightarrow> bool" where
  "queue_usable env queue \<longleftrightarrow> locks_work env \<and> (case queue of None \<Rightarrow> True | Some q \<Rightarrow> queue_ok q)"

lemma queue_list_length: "length (queue_list q) = unat (elementCount q)"
  by (simp add: queue_list_def)

lemma ring_pushes:
  assumes "queue_usable env queue"
  shows "queue_usable env (queue_push env x queue) \<and> queue_capacity (queue_push env x queue) = queue_capacity queue
    \<and> queue_content (queue_push env x queue) = push_list (queue_capacity queue) x (queue_content queue)"
proof (cases queue)
  case None
  then show ?thesis using assms by (simp add: queue_push_def PushQueue_def queue_content_def queue_capacity_def push_list_def)
next
  case (Some q)
  have q: "queue_ok q" "locks_work env" using assms Some by (simp_all add: queue_usable_def)
  show ?thesis
  proof (cases "elementCount q < maxElements q")
    case True
    then show ?thesis using push_space [OF q(1) True q(2), of x] Some q(2)
      by (auto simp: queue_push_def queue_usable_def queue_content_def queue_capacity_def push_list_def queue_list_length word_less_nat_alt)
  next
    case False
    then show ?thesis using push_full [OF q(2), of q x] Some q not_less [of "elementCount q" "maxElements q"]
      by (auto simp: queue_push_def queue_usable_def queue_content_def queue_capacity_def push_list_def queue_list_length word_less_nat_alt)
  qed
qed

lemma ring_pops:
  assumes "queue_usable env queue"
  shows "queue_usable env (snd (queue_pop env queue)) \<and> queue_capacity (snd (queue_pop env queue)) = queue_capacity queue
    \<and> (fst (queue_pop env queue), queue_content (snd (queue_pop env queue))) = pop_list 0 (queue_content queue)"
proof (cases queue)
  case None
  then show ?thesis using assms by (simp add: queue_pop_def PopQueue_def queue_content_def queue_capacity_def pop_list_def)
next
  case (Some q)
  have q: "queue_ok q" "locks_work env" using assms Some by (simp_all add: queue_usable_def)
  show ?thesis
  proof (cases "elementCount q > 0")
    case True
    obtain q' where q': "PopQueue env (Some q) = (Ok (hd (queue_list q)), Some q')" "queue_ok q'" "maxElements q' = maxElements q"
        and list: "queue_list q = hd (queue_list q) # queue_list q'"
      using pop_some [OF q(1) True q(2)] by blast
    have "pop_list 0 (queue_list q) = (hd (queue_list q), queue_list q')" by (subst list) (simp add: pop_list_def)
    then show ?thesis using q' Some q(2) by (simp add: queue_pop_def queue_usable_def queue_content_def queue_capacity_def)
  next
    case False
    then have "queue_list q = []" by (simp add: queue_list_def word_gt_0)
    then show ?thesis using pop_empty [of q env] False Some q
      by (simp add: queue_pop_def queue_usable_def queue_content_def queue_capacity_def pop_list_def word_gt_0)
  qed
qed

interpretation wlan: bounded_fifo "queue_push env" "queue_pop env" queue_content queue_capacity "queue_usable env" 0 for env
proof
  fix q :: "wlan_queue option" and x :: u64
  assume q: "queue_usable env q"
  note push = ring_pushes [OF q, of x] and pop = ring_pops [OF q]
  show "queue_usable env (queue_push env x q)" "queue_usable env (snd (queue_pop env q))"
    "queue_content (queue_push env x q) = push_list (queue_capacity q) x (queue_content q)"
    "(fst (queue_pop env q), queue_content (snd (queue_pop env q))) = pop_list 0 (queue_content q)"
    "queue_capacity (queue_push env x q) = queue_capacity q" "queue_capacity (snd (queue_pop env q)) = queue_capacity q"
    using push pop by simp_all
  show "length (queue_content q) \<le> queue_capacity q"
    using q by (cases q) (auto simp: queue_content_def queue_capacity_def queue_usable_def queue_ok_def queue_list_length word_le_nat_alt)
qed

subsection \<open>Properties\<close>

lemma created_queue: "locks_work env \<Longrightarrow> queue_usable env (CreateQueue env n) \<and> queue_content (CreateQueue env n) = []"
  by (simp add: CreateQueue_def queue_usable_def queue_ok_def queue_content_def queue_list_def word_le_nat_alt word_less_nat_alt not_less)

lemma created_capacity: "CreateQueue env n \<noteq> None \<Longrightarrow> queue_capacity (CreateQueue env n) = unat n"
  by (auto simp: CreateQueue_def queue_capacity_def split: if_splits)

lemma ring_no_fault:
  assumes "queue_usable env queue"
  shows "fst (PopQueue env' queue) \<noteq> Fault \<and> fst (PushQueue env' queue x) \<noteq> Fault"
proof (cases queue)
  case (Some q)
  have q: "queue_ok q" using assms Some by (simp add: queue_usable_def)
  show ?thesis
  proof (cases "locks_work env'")
    case True
    have "fst (PopQueue env' (Some q)) \<noteq> Fault"
      using pop_some [OF q _ True] pop_empty [of q env'] by (cases "elementCount q > 0") (auto simp: word_gt_0)
    moreover have "fst (PushQueue env' (Some q) x) \<noteq> Fault"
      using push_space [OF q _ True, of x] push_full [OF True, of q x] by (cases "elementCount q < maxElements q") auto
    ultimately show ?thesis using Some by simp
  qed (simp add: Some PopQueue_def PushQueue_def locks_work_def)
qed (simp add: PopQueue_def PushQueue_def)

text \<open>
  C38. A queue of the wireless driver refines a list of at most as many entries as it was created for: whatever
  sequence of pushes and pops runs on it, the pops return what they return on the list, and an element is lost only when it is
  pushed into a full queue. No push and no pop on it accesses anything out of bounds.
\<close>
theorem wlan_queue_refines:
  assumes "locks_work env" and "CreateQueue env n \<noteq> None"
  shows "fst (run_queue (queue_push env) (queue_pop env) ops (CreateQueue env n)) = fst (run_queue (push_list (unat n)) (pop_list 0) ops [])
    \<and> queue_content (snd (run_queue (queue_push env) (queue_pop env) ops (CreateQueue env n))) = snd (run_queue (push_list (unat n)) (pop_list 0) ops [])
    \<and> fst (PopQueue env' (snd (run_queue (queue_push env) (queue_pop env) ops (CreateQueue env n)))) \<noteq> Fault
    \<and> fst (PushQueue env' (snd (run_queue (queue_push env) (queue_pop env) ops (CreateQueue env n))) x) \<noteq> Fault"
proof -
  let ?q = "CreateQueue env n"
  have q: "queue_usable env ?q" "queue_content ?q = []" "queue_capacity ?q = unat n"
    using created_queue [OF assms(1)] created_capacity [OF assms(2)] by simp_all
  note run = wlan.run_refines [OF q(1), of ops, unfolded q(2,3)]
  show ?thesis using run ring_no_fault [of env "snd (run_queue (queue_push env) (queue_pop env) ops ?q)" env' x] by simp
qed

definition queue_sample_env :: queue_env where
  "queue_sample_env = \<lparr>alloc_ok = True, mutex_init = HDF_SUCCESS, mutex_lock = HDF_SUCCESS, mutex_unlock = HDF_SUCCESS\<rparr>"

lemma wlan_queue_refines_witness:
  "fst (run_queue (queue_push queue_sample_env) (queue_pop queue_sample_env) [Push 7, Push 8, Push 9, Pop, Push 10, Pop, Pop, Pop] (CreateQueue queue_sample_env 2)) = [7, 8, 10, 0]"
proof -
  have "locks_work queue_sample_env" "CreateQueue queue_sample_env 2 \<noteq> None" by (simp_all add: locks_work_def queue_sample_env_def CreateQueue_def)
  moreover have "fst (run_queue (push_list (unat (2 :: u16))) (pop_list 0) [Push 7, Push 8, Push 9, Pop, Push 10, Pop, Pop, Pop] ([] :: u64 list)) = [7, 8, 10, 0]"
    by (simp add: push_list_def pop_list_def Let_def)
  ultimately show ?thesis
    using wlan_queue_refines [of queue_sample_env 2 "[Push 7, Push 8, Push 9, Pop, Push 10, Pop, Pop, Pop]"] by simp
qed

text \<open>
  What fits into a new queue is kept in order; what is pushed behind it is lost, and yet the push
  reports success, because the status of the unlocking overwrites the failure.
\<close>
theorem full_queue_reports_success:
  assumes "locks_work env" "mutex_unlock env = HDF_SUCCESS" and "CreateQueue env n \<noteq> None" and "length xs = unat n"
  shows "fst (run_queue (queue_push env) (queue_pop env) (replicate (length xs) Pop) (fold (queue_push env) xs (CreateQueue env n))) = xs
    \<and> PushQueue env (fold (queue_push env) xs (CreateQueue env n)) y = (Ok HDF_SUCCESS, fold (queue_push env) xs (CreateQueue env n))"
proof -
  let ?q = "CreateQueue env n" and ?f = "fold (queue_push env) xs (CreateQueue env n)"
  have q: "queue_usable env ?q" "queue_content ?q = []" "queue_capacity ?q = unat n"
    using created_queue [OF assms(1)] created_capacity [OF assms(3)] by simp_all
  have f: "queue_content ?f = xs" "queue_capacity ?f = unat n"
    using wlan.pushes [OF q(1), of xs] q assms(4) by simp_all
  have "?f \<noteq> None"
  proof -
    have "queue_push env x (Some r) \<noteq> None" for x r by (simp add: queue_push_def PushQueue_def)
    then have "fold (queue_push env) ys (Some r) \<noteq> None" for ys r by (induction ys arbitrary: r) (auto, metis not_None_eq)
    then show ?thesis using assms(3) by auto
  qed
  then obtain r where r: "?f = Some r" by auto
  then have "unat (elementCount r) = unat (maxElements r)" using f assms(4) by (simp add: queue_content_def queue_capacity_def queue_list_length [symmetric])
  then have "elementCount r \<ge> maxElements r" by (simp add: word_le_nat_alt)
  then show ?thesis
    using push_full [OF assms(1), of r y] wlan.push_then_pop [OF q(1,2), of xs] q(3) assms(2,4) r by simp
qed

lemma full_queue_reports_success_witness:
  "PushQueue queue_sample_env (fold (queue_push queue_sample_env) [7, 8] (CreateQueue queue_sample_env 2)) 9 =
     (Ok HDF_SUCCESS, fold (queue_push queue_sample_env) [7, 8] (CreateQueue queue_sample_env 2))"
  using full_queue_reports_success [of queue_sample_env 2 "[7, 8]" 9]
  by (simp add: locks_work_def queue_sample_env_def CreateQueue_def)

end
