(* ===== verification/Uart.thy ===== *)
theory Uart
  imports Results
begin

section \<open>The serial port adapter\<close>

text \<open>
  \<open>platform/uart/uart_adapter.c\<close>: a serial port of the framework on a terminal device of the kernel, which is opened as
  a file and driven by \<open>vfs_read\<close>, \<open>vfs_write\<close> and terminal ioctls under a widened address limit. The bits of the
  control flags are those of the Linux header \<open>asm-generic/termbits.h\<close>. What file system and terminal answer
  are parameters. \<open>Fault\<close> is a null or closed file, or an access behind the caller's buffer.
\<close>

subsection \<open>Data\<close>

abbreviation (input) CBAUD :: u32 where "CBAUD \<equiv> 0x100F"
abbreviation (input) CSIZE :: u32 where "CSIZE \<equiv> 0x30"
abbreviation (input) CS5 :: u32 where "CS5 \<equiv> 0"
abbreviation (input) CS6 :: u32 where "CS6 \<equiv> 0x10"
abbreviation (input) CS7 :: u32 where "CS7 \<equiv> 0x20"
abbreviation (input) CS8 :: u32 where "CS8 \<equiv> 0x30"
abbreviation (input) CSTOPB :: u32 where "CSTOPB \<equiv> 0x40"
abbreviation (input) CREAD :: u32 where "CREAD \<equiv> 0x80"
abbreviation (input) PARENB :: u32 where "PARENB \<equiv> 0x100"
abbreviation (input) PARODD :: u32 where "PARODD \<equiv> 0x200"
abbreviation (input) CLOCAL :: u32 where "CLOCAL \<equiv> 0x800"
abbreviation (input) CRTSCTS :: u32 where "CRTSCTS \<equiv> 0x80000000"
abbreviation (input) ASYNC_LOW_LATENCY :: u32 where "ASYNC_LOW_LATENCY \<equiv> 0x2000"

text \<open>The rates of both switches with their codes \<open>B1800\<close>, \<open>B2400\<close> and so on.\<close>

definition baud_codes :: "(u32 \<times> u32) list" where
  "baud_codes = [(1800, 0xA), (2400, 0xB), (4800, 0xC), (9600, 0xD), (19200, 0xE), (38400, 0xF), (57600, 0x1001), (115200, 0x1002),
     (230400, 0x1003), (460800, 0x1004), (500000, 0x1005), (576000, 0x1006), (921600, 0x1007)]"

text \<open>The codes of \<open>struct UartAttribute\<close> belong to a header of the framework: their names, and any other value.\<close>

datatype data_bits = DATABIT_5 | DATABIT_6 | DATABIT_7 | DATABIT_8 | DATABIT_OTHER u8
datatype uart_parity = PARITY_NONE | PARITY_ODD | PARITY_EVEN | PARITY_OTHER u8
datatype stop_bits = STOPBIT_1 | STOPBIT_2 | STOPBIT_OTHER u8

record uart_attribute =
  dataBits :: data_bits
  parity :: uart_parity
  stopBits :: stop_bits
  rts :: bool
  cts :: bool

text \<open>The parts of \<open>struct termios\<close> that are written.\<close>

record termios =
  c_cflag :: u32
  c_vmin :: u8
  c_vtime :: u8

datatype addr_limit = USER_DS | KERNEL_DS

text \<open>The file behind \<open>host->priv\<close>, with the name it was opened by: the driver's name and a number.\<close>

datatype uart_file = No_file | Open_file "char list" u32 | Closed_file

text \<open>Host, terminal, the address limit of the thread, and what the terminal was given to send.\<close>

record uart =
  u_num :: u32
  u_file :: uart_file
  u_method :: bool
  u_name :: "char list"
  u_termios :: termios
  u_serial :: u32
  u_limit :: addr_limit
  u_sent :: "u8 list"

datatype read_answer = Read_error | Read_nothing | Read_byte u8

text \<open>\<open>has_ioctl\<close>: the file has an ioctl. A write that works says how many bytes it took.\<close>

record uart_env =
  sprintf_ok :: bool
  open_ok :: bool
  close_ret :: hdf_status
  has_ioctl :: bool
  tcgets :: hdf_status
  tcsets :: hdf_status
  tiocgserial :: hdf_status
  tiocsserial :: hdf_status
  read_answers :: "nat \<Rightarrow> read_answer"
  write_answer :: "nat option"

text \<open>A negative status: the framework's failures are, its success is not.\<close>

fun negative :: "hdf_status \<Rightarrow> bool" where
  "negative (HDF_CODE i) \<longleftrightarrow> i < 0"
| "negative HDF_SUCCESS \<longleftrightarrow> False"
| "negative _ \<longleftrightarrow> True"

subsection \<open>Opening and closing\<close>

text \<open>The name in the global buffer ends at the first zero.\<close>

definition name_string :: "char list \<Rightarrow> char list" where
  "name_string cs = takeWhile (\<lambda>c. c \<noteq> CHR 0x00) cs"

definition UartAdapterInit :: "uart_env \<Rightarrow> uart option \<Rightarrow> hdf_status \<times> uart option" where
  "UartAdapterInit env host = (case host of
     None \<Rightarrow> (HDF_ERR_INVALID_OBJECT, None)
   | Some u \<Rightarrow>
       if \<not> sprintf_ok env then (HDF_FAILURE, Some u)
       else let oldfs = u_limit u; u = u\<lparr>u_limit := KERNEL_DS\<rparr>
         in if \<not> open_ok env then (HDF_FAILURE, Some (u\<lparr>u_limit := oldfs\<rparr>))
            else (HDF_SUCCESS, Some (u\<lparr>u_limit := oldfs, u_file := Open_file (name_string (u_name u)) (u_num u)\<rparr>)))"

text \<open>The pointer to the file is not cleared.\<close>

definition UartAdapterDeInit :: "uart_env \<Rightarrow> uart option \<Rightarrow> hdf_status res \<times> uart option" where
  "UartAdapterDeInit env host = (case host of
     None \<Rightarrow> (Ok HDF_ERR_INVALID_OBJECT, None)
   | Some u \<Rightarrow>
       let oldfs = u_limit u; u = u\<lparr>u_limit := KERNEL_DS\<rparr>
       in (case u_file u of
            No_file \<Rightarrow> (Ok HDF_SUCCESS, Some (u\<lparr>u_limit := oldfs\<rparr>))
          | Open_file _ _ \<Rightarrow> (Ok (close_ret env), Some (u\<lparr>u_file := Closed_file, u_limit := oldfs\<rparr>))
          | Closed_file \<Rightarrow> (Fault, Some u)))"

subsection \<open>Reading and writing\<close>

text \<open>
  The loop reads a byte at a time while \<open>size >= tmp\<close>: once more than the buffer has bytes. A read that yields nothing is
  counted too. (For a size of \<open>2^32 - 1\<close> the condition of the code would always hold.)
\<close>

fun read_loop :: "(nat \<Rightarrow> read_answer) \<Rightarrow> nat \<Rightarrow> nat \<Rightarrow> u8 list \<Rightarrow> nat res \<times> u8 list" where
  "read_loop answer 0 tmp buf = (Ok tmp, buf)"
| "read_loop answer (Suc count) tmp buf = (case answer tmp of
     Read_error \<Rightarrow> (Ok tmp, buf)
   | Read_nothing \<Rightarrow> read_loop answer count (tmp + 1) buf
   | Read_byte b \<Rightarrow> if tmp \<ge> length buf then (Fault, buf) else read_loop answer count (tmp + 1) (buf[tmp := b]))"

text \<open>A status, or the number of bytes.\<close>

definition UartAdapterRead :: "uart_env \<Rightarrow> uart option \<Rightarrow> u8 list option \<Rightarrow> u32 \<Rightarrow> (hdf_status + nat) res \<times> u8 list option \<times> uart option" where
  "UartAdapterRead env host data sz = (case host of
     None \<Rightarrow> (Ok (Inl HDF_ERR_INVALID_OBJECT), data, None)
   | Some u \<Rightarrow>
       (case data of
          None \<Rightarrow> (Ok (Inl HDF_ERR_INVALID_PARAM), None, Some u)
        | Some buf \<Rightarrow>
            if sz = 0 then (Ok (Inl HDF_ERR_INVALID_PARAM), data, Some u)
            else let oldfs = u_limit u; u = u\<lparr>u_limit := KERNEL_DS\<rparr>
              in (case u_file u of
                   Open_file _ _ \<Rightarrow>
                     (case read_loop (read_answers env) (unat sz + 1) 0 buf of
                        (Ok n, buf) \<Rightarrow> (Ok (Inr n), Some buf, Some (u\<lparr>u_limit := oldfs\<rparr>))
                      | (_, buf) \<Rightarrow> (Fault, Some buf, Some u))
                 | _ \<Rightarrow> (Fault, data, Some u))))"

definition UartAdapterWrite :: "uart_env \<Rightarrow> uart option \<Rightarrow> u8 list option \<Rightarrow> u32 \<Rightarrow> hdf_status res \<times> uart option" where
  "UartAdapterWrite env host data sz = (case host of
     None \<Rightarrow> (Ok HDF_ERR_INVALID_OBJECT, None)
   | Some u \<Rightarrow>
       (case data of
          None \<Rightarrow> (Ok HDF_ERR_INVALID_PARAM, Some u)
        | Some buf \<Rightarrow>
            if sz = 0 then (Ok HDF_ERR_INVALID_PARAM, Some u)
            else let oldfs = u_limit u; u = u\<lparr>u_limit := KERNEL_DS\<rparr>
              in (case u_file u of
                   Open_file _ _ \<Rightarrow>
                     (if length buf < unat sz then (Fault, Some u)
                      else (case write_answer env of
                              None \<Rightarrow> (Ok HDF_FAILURE, Some (u\<lparr>u_limit := oldfs\<rparr>))
                            | Some n \<Rightarrow> (Ok HDF_SUCCESS, Some (u\<lparr>u_limit := oldfs, u_sent := u_sent u @ take n (take (unat sz) buf)\<rparr>))))
                 | _ \<Rightarrow> (Fault, Some u))))"

subsection \<open>Terminal settings\<close>

text \<open>The ioctls that the adapter uses: \<open>ok\<close> is what the terminal does when it accepts.\<close>

definition UartAdapterIoctlInner :: "uart_env \<Rightarrow> hdf_status \<Rightarrow> (uart \<Rightarrow> uart) \<Rightarrow> uart \<Rightarrow> hdf_status res \<times> uart" where
  "UartAdapterIoctlInner env answer ok u =
     (let oldfs = u_limit u; u = u\<lparr>u_limit := KERNEL_DS\<rparr>
      in case u_file u of
           Open_file _ _ \<Rightarrow>
             (if has_ioctl env then (Ok answer, (if negative answer then u else ok u)\<lparr>u_limit := oldfs\<rparr>)
              else (Ok HDF_FAILURE, u\<lparr>u_limit := oldfs\<rparr>))
         | _ \<Rightarrow> (Fault, u))"

text \<open>The argument is cut to 16 bits. Every code is compared with a number that has all bits of \<open>CBAUD\<close>.\<close>

definition CflagToBaudRate :: "u16 \<Rightarrow> u32" where
  "CflagToBaudRate flag = (case find (\<lambda>(_, code). ucast flag OR CBAUD = code) baud_codes of None \<Rightarrow> 9600 | Some (rate, _) \<Rightarrow> rate)"

definition UartAdapterGetBaud :: "uart_env \<Rightarrow> uart option \<Rightarrow> bool \<Rightarrow> (hdf_status \<times> u32 option) res \<times> uart option" where
  "UartAdapterGetBaud env host baudRate = (case host of
     None \<Rightarrow> (Ok (HDF_ERR_INVALID_OBJECT, None), None)
   | Some u \<Rightarrow>
       if \<not> baudRate then (Ok (HDF_ERR_INVALID_PARAM, None), Some u)
       else (case UartAdapterIoctlInner env (tcgets env) id u of
              (Ok r, u) \<Rightarrow> (if negative r then (Ok (HDF_FAILURE, None), Some u)
                 else (Ok (HDF_SUCCESS, Some (CflagToBaudRate (ucast (c_cflag (u_termios u))))), Some u))
            | (_, u) \<Rightarrow> (Fault, Some u)))"

definition BaudRateToCflag :: "u32 \<Rightarrow> u16" where
  "BaudRateToCflag baudRate = ucast (case find (\<lambda>(rate, _). baudRate = rate) baud_codes of None \<Rightarrow> 0xD | Some (_, code) \<Rightarrow> code)"

text \<open>The result of setting the terminal is overwritten by the one of setting the serial port.\<close>

definition UartAdapterSetBaud :: "uart_env \<Rightarrow> uart option \<Rightarrow> u32 \<Rightarrow> hdf_status res \<times> uart option" where
  "UartAdapterSetBaud env host baudRate = (case host of
     None \<Rightarrow> (Ok HDF_ERR_INVALID_OBJECT, None)
   | Some u \<Rightarrow> (\<lambda>(r, u). (r, Some u))
       (bindS (UartAdapterIoctlInner env (tcgets env) id u) (\<lambda>r u.
        if negative r then (Ok HDF_FAILURE, u)
        else
          let t = u_termios u;
              t = t\<lparr>c_cflag := c_cflag t AND NOT CBAUD\<rparr>;
              t = t\<lparr>c_cflag := c_cflag t OR ucast (BaudRateToCflag baudRate), c_vmin := 0, c_vtime := 0\<rparr>
          in bindS (UartAdapterIoctlInner env (tcsets env) (\<lambda>u. u\<lparr>u_termios := t\<rparr>) u) (\<lambda>_ u.
             bindS (UartAdapterIoctlInner env (tiocgserial env) id u) (\<lambda>r u.
             if negative r then (Ok HDF_FAILURE, u)
             else UartAdapterIoctlInner env (tiocsserial env) (\<lambda>u. u\<lparr>u_serial := u_serial u OR ASYNC_LOW_LATENCY\<rparr>) u)))))"

definition CSToAttr :: "u16 \<Rightarrow> data_bits" where
  "CSToAttr cs =
     (let t = ucast (ucast cs AND NOT CSIZE) :: u16
      in if ucast t = CS7 then DATABIT_7
         else if ucast t = CS8 then DATABIT_8
         else if ucast t = CS6 then DATABIT_6
         else if ucast t = CS5 then DATABIT_5
         else DATABIT_8)"

definition AttrToCs :: "data_bits \<Rightarrow> u16" where
  "AttrToCs attr = ucast (case attr of DATABIT_7 \<Rightarrow> CS7 | DATABIT_8 \<Rightarrow> CS8 | DATABIT_6 \<Rightarrow> CS6 | DATABIT_5 \<Rightarrow> CS5 | _ \<Rightarrow> CS8)"

definition PariTyToAttr :: "u16 \<Rightarrow> uart_parity" where
  "PariTyToAttr ps =
     (if ucast ps AND (PARENB OR PARODD) \<noteq> 0 then PARITY_ODD
      else if ucast ps AND PARODD = 0 \<and> ucast ps AND PARENB \<noteq> 0 then PARITY_EVEN
      else PARITY_NONE)"

definition StopBitToAttr :: "u16 \<Rightarrow> stop_bits" where
  "StopBitToAttr st = (if ucast st AND CSTOPB = 0 then STOPBIT_1 else STOPBIT_2)"

definition CtsRtsToAttr :: "u16 \<Rightarrow> bool" where
  "CtsRtsToAttr cr \<longleftrightarrow> ucast cr AND CRTSCTS \<noteq> 0"

definition UartAdapterGetAttribute :: "uart_env \<Rightarrow> uart option \<Rightarrow> bool \<Rightarrow> (hdf_status \<times> uart_attribute option) res \<times> uart option" where
  "UartAdapterGetAttribute env host attribute = (case host of
     None \<Rightarrow> (Ok (HDF_ERR_INVALID_OBJECT, None), None)
   | Some u \<Rightarrow>
       if \<not> attribute then (Ok (HDF_ERR_INVALID_PARAM, None), Some u)
       else (case UartAdapterIoctlInner env (tcgets env) id u of
              (Ok r, u) \<Rightarrow>
                (if negative r then (Ok (HDF_FAILURE, None), Some u)
                 else let f = ucast (c_cflag (u_termios u))
                   in (Ok (HDF_SUCCESS, Some \<lparr>dataBits = CSToAttr f, parity = PariTyToAttr f, stopBits = StopBitToAttr f,
                      rts = CtsRtsToAttr f, cts = CtsRtsToAttr f\<rparr>), Some u))
            | (_, u) \<Rightarrow> (Fault, Some u)))"

text \<open>The control flags that an attribute asks for.\<close>

definition attribute_cflag :: "uart_attribute \<Rightarrow> u32 \<Rightarrow> u32" where
  "attribute_cflag a f =
     (let f = f OR (CLOCAL OR CREAD);
          f = f AND NOT CSIZE;
          f = f OR ucast (AttrToCs (dataBits a));
          f = (if cts a \<or> rts a then f OR CRTSCTS else f AND NOT CRTSCTS);
          f = (case parity a of
                 PARITY_ODD \<Rightarrow> f OR (PARODD OR PARENB)
               | PARITY_EVEN \<Rightarrow> (f OR PARENB) AND NOT PARODD
               | _ \<Rightarrow> f AND NOT (PARENB OR PARODD))
      in case stopBits a of STOPBIT_2 \<Rightarrow> f OR CSTOPB | _ \<Rightarrow> f AND NOT CSTOPB)"

definition UartAdapterSetAttribute :: "uart_env \<Rightarrow> uart option \<Rightarrow> uart_attribute option \<Rightarrow> hdf_status res \<times> uart option" where
  "UartAdapterSetAttribute env host attribute = (case host of
     None \<Rightarrow> (Ok HDF_ERR_INVALID_OBJECT, None)
   | Some u \<Rightarrow>
       (case attribute of
          None \<Rightarrow> (Ok HDF_ERR_INVALID_PARAM, Some u)
        | Some a \<Rightarrow> (\<lambda>(r, u). (r, Some u))
            (bindS (UartAdapterIoctlInner env (tcgets env) id u) (\<lambda>r u.
             if negative r then (Ok HDF_FAILURE, u)
             else let t = u_termios u; t = t\<lparr>c_cflag := attribute_cflag a (c_cflag t)\<rparr>
               in UartAdapterIoctlInner env (tcsets env) (\<lambda>u. u\<lparr>u_termios := t\<rparr>) u))))"

definition UartAdapterSetTransMode :: "uart option \<Rightarrow> nat \<Rightarrow> hdf_status" where
  "UartAdapterSetTransMode host mode = HDF_SUCCESS"

subsection \<open>The driver\<close>

text \<open>What the device and its configuration answer; the name has no zero in it.\<close>

record uart_config =
  object_null :: bool
  host_made :: bool
  iface_ok :: bool
  num_cfg :: "u32 option"
  name_cfg :: "char list option"

abbreviation (input) UART_NAME_LEN :: nat where "UART_NAME_LEN \<equiv> 20"

definition HdfUartBind :: "uart_config \<Rightarrow> hdf_status" where
  "HdfUartBind c = (if object_null c then HDF_ERR_INVALID_OBJECT else if host_made c then HDF_SUCCESS else HDF_FAILURE)"

text \<open>
  The name is copied into the buffer that all ports share (\<open>u_name\<close>), without its zero; \<open>g_driverName[19]\<close> is cleared
  before.
\<close>

definition HdfUartInit :: "uart_config \<Rightarrow> uart \<Rightarrow> hdf_status \<times> uart" where
  "HdfUartInit c u =
     (if object_null c then (HDF_ERR_INVALID_OBJECT, u)
      else if \<not> host_made c then (HDF_FAILURE, u)
      else if \<not> iface_ok c then (HDF_FAILURE, u)
      else case num_cfg c of
             None \<Rightarrow> (HDF_FAILURE, u)
           | Some n \<Rightarrow>
               let u = u\<lparr>u_num := n\<rparr>
               in (case name_cfg c of
                    None \<Rightarrow> (HDF_FAILURE, u)
                  | Some drName \<Rightarrow>
                      let u = u\<lparr>u_name := (u_name u)[UART_NAME_LEN - 1 := CHR 0x00]\<rparr>
                      in if length drName > UART_NAME_LEN - 1 then (HDF_FAILURE, u)
                         else (HDF_SUCCESS, u\<lparr>u_name := drName @ drop (length drName) (u_name u), u_method := True\<rparr>)))"

text \<open>Releasing destroys the host; the file stays open.\<close>

definition HdfUartRelease :: "uart_config \<Rightarrow> uart option \<Rightarrow> uart option" where
  "HdfUartRelease c host = (if object_null c then host else None)"

end
