(* ===== verification/Uart_Properties.thy ===== *)
theory Uart_Properties
  imports Uart
begin

section \<open>Properties\<close>

subsection \<open>The address limit\<close>

lemma ioctl_inner:
  "u_file u = Open_file nm k \<Longrightarrow> UartAdapterIoctlInner env answer ok u =
     (if has_ioctl env then (Ok answer, (if negative answer then u\<lparr>u_limit := KERNEL_DS\<rparr> else ok (u\<lparr>u_limit := KERNEL_DS\<rparr>))\<lparr>u_limit := u_limit u\<rparr>)
      else (Ok HDF_FAILURE, u))"
  by (cases u) (simp add: UartAdapterIoctlInner_def)

text \<open>An open port whose calls leave the limit as it was.\<close>

definition port_ok :: "addr_limit \<Rightarrow> uart \<Rightarrow> bool" where
  "port_ok l u \<longleftrightarrow> u_limit u = l \<and> (\<exists>nm k. u_file u = Open_file nm k)"

text \<open>The loop of a read: it stores what arrives, up to the first error.\<close>

fun read_prefix :: "(nat \<Rightarrow> read_answer) \<Rightarrow> nat \<Rightarrow> nat \<Rightarrow> nat" where
  "read_prefix answer 0 k = 0"
| "read_prefix answer (Suc count) k = (if answer k = Read_error then 0 else Suc (read_prefix answer count (k + 1)))"

lemma read_loop_fits:
  "tmp + read_prefix answer count tmp \<le> length buf \<Longrightarrow>
   read_loop answer count tmp buf = (Ok (tmp + read_prefix answer count tmp),
     map (\<lambda>i. if tmp \<le> i \<and> i < tmp + read_prefix answer count tmp then (case answer i of Read_byte b \<Rightarrow> b | _ \<Rightarrow> buf ! i) else buf ! i) [0..<length buf])"
proof (induction count arbitrary: tmp buf)
  case 0
  then show ?case by (auto intro!: nth_equalityI)
next
  case (Suc count)
  show ?case
  proof (cases "answer tmp")
    case Read_error
    then show ?thesis by (auto intro!: nth_equalityI)
  next
    case Read_nothing
    then show ?thesis using Suc.IH [of "Suc tmp" buf] Suc.prems by (auto simp: le_eq_less_or_eq [of tmp] intro!: map_cong)
  next
    case (Read_byte b)
    then have "\<not> length buf \<le> tmp" using Suc.prems by simp
    then show ?thesis using Read_byte Suc.IH [of "Suc tmp" "buf[tmp := b]"] Suc.prems
      by (auto simp: nth_list_update intro!: map_cong split: read_answer.split)
  qed
qed

lemma read_prefix_le: "read_prefix answer count k \<le> count"
  by (induction count arbitrary: k) (auto simp: less_Suc_eq_le)

lemma read_loop_last:
  "tmp \<le> length buf \<Longrightarrow> tmp + count = Suc (length buf) \<Longrightarrow> read_prefix answer count tmp = count \<Longrightarrow>
   fst (read_loop answer count tmp buf) = (case answer (length buf) of Read_byte _ \<Rightarrow> Fault | _ \<Rightarrow> Ok (Suc (length buf)))"
proof (induction count arbitrary: tmp buf)
  case (Suc count)
  have ne: "answer tmp \<noteq> Read_error" and all: "read_prefix answer count (Suc tmp) = count" using Suc.prems(3) by (auto split: if_splits)
  show ?case
  proof (cases count)
    case 0
    then have "tmp = length buf" using Suc.prems(1,2) by simp
    then show ?thesis using ne 0 by (auto split: read_answer.split)
  next
    case (Suc c)
    then have "tmp < length buf" using Suc.prems(2) by simp
    then show ?thesis
      using ne all Suc.IH [of "Suc tmp" buf] Suc.IH [of "Suc tmp" "buf[tmp := _]"] Suc.prems(2)
      by (cases "answer tmp") (auto split: read_answer.split)
  qed
qed simp

text \<open>
  A read of an open port, of less than \<open>2 ^ 31 - 1\<close> bytes, asks for one byte more than the caller's buffer has. When the terminal fails before that, the
  buffer holds the bytes up to the failure and their number is returned (reads that yielded nothing are counted too), and
  the address limit is as before; when every read yields a byte, the last one is written behind the buffer.
\<close>
theorem uart_read_one_too_many:
  fixes env :: uart_env
  assumes port: "u_file u = Open_file nm k" and sz: "0 < sz" "sz < 0x7FFFFFFF" "length buf = unat sz"
  defines "n \<equiv> read_prefix (read_answers env) (unat sz + 1) 0"
  shows "fst (UartAdapterRead env (Some u) (Some buf) sz) =
      (if n = unat sz + 1 \<and> (\<exists>b. read_answers env (unat sz) = Read_byte b) then Fault else Ok (Inr n))
    \<and> (n \<le> unat sz \<longrightarrow> snd (UartAdapterRead env (Some u) (Some buf) sz) =
        (Some (map (\<lambda>i. if i < n then (case read_answers env i of Read_byte b \<Rightarrow> b | _ \<Rightarrow> buf ! i) else buf ! i) [0..<length buf]), Some u))"
proof (cases "n \<le> unat sz")
  case True
  then have "read_loop (read_answers env) (unat sz + 1) 0 buf = (Ok n,
      map (\<lambda>i. if i < n then (case read_answers env i of Read_byte b \<Rightarrow> b | _ \<Rightarrow> buf ! i) else buf ! i) [0..<length buf])"
    using read_loop_fits [of 0 "read_answers env" "unat sz + 1" buf, folded n_def] sz(3) by simp
  then show ?thesis using True port sz by (cases u) (simp add: UartAdapterRead_def)
next
  case False
  then have n: "n = unat sz + 1" using read_prefix_le [of "read_answers env" "unat sz + 1" 0] by (simp add: n_def)
  have "fst (read_loop (read_answers env) (unat sz + 1) 0 buf) = (case read_answers env (unat sz) of Read_byte _ \<Rightarrow> Fault | _ \<Rightarrow> Ok n)"
    using read_loop_last [of 0 buf "unat sz + 1" "read_answers env", folded n_def] n sz(3) by (simp del: read_loop.simps split: read_answer.split)
  then show ?thesis using n port sz
    by (cases "read_loop (read_answers env) (unat sz + 1) 0 buf") (auto simp: UartAdapterRead_def split: read_answer.splits)
qed

subsection \<open>Attributes\<close>

lemma attribute_bits:
  "attribute_cflag a f AND CSIZE = (case dataBits a of DATABIT_5 \<Rightarrow> CS5 | DATABIT_6 \<Rightarrow> CS6 | DATABIT_7 \<Rightarrow> CS7 | _ \<Rightarrow> CS8)"
  "attribute_cflag a f AND PARENB = (case parity a of PARITY_ODD \<Rightarrow> PARENB | PARITY_EVEN \<Rightarrow> PARENB | _ \<Rightarrow> 0)"
  "attribute_cflag a f AND PARODD = (if parity a = PARITY_ODD then PARODD else 0)"
  "attribute_cflag a f AND CSTOPB = (if stopBits a = STOPBIT_2 then CSTOPB else 0)"
  "attribute_cflag a f AND CRTSCTS = (if cts a \<or> rts a then CRTSCTS else 0)"
  "attribute_cflag a f AND (CLOCAL OR CREAD) = (CLOCAL OR CREAD)"
  "attribute_cflag a f AND 0x7FFFF40F = f AND 0x7FFFF40F"
  by (simp_all add: attribute_cflag_def Let_def AttrToCs_def bit.conj_disj_distrib2 and.assoc split: data_bits.split uart_parity.split stop_bits.split)

text \<open>
  Setting the attributes of an open port programs exactly the bits they mean: data bits, parity, stop bits and flow
  control, with the receiver enabled and the modem lines ignored, and every other bit, the rate among them, stays.
\<close>
theorem uart_attributes_programmed:
  assumes port: "u_file u = Open_file nm k" and env: "has_ioctl env" "\<not> negative (tcgets env)" "\<not> negative (tcsets env)"
  shows "\<exists>f. UartAdapterSetAttribute env (Some u) (Some a) = (Ok (tcsets env), Some (u\<lparr>u_termios := (u_termios u)\<lparr>c_cflag := f\<rparr>\<rparr>))
    \<and> f AND CSIZE = (case dataBits a of DATABIT_5 \<Rightarrow> CS5 | DATABIT_6 \<Rightarrow> CS6 | DATABIT_7 \<Rightarrow> CS7 | _ \<Rightarrow> CS8)
    \<and> f AND PARENB = (case parity a of PARITY_ODD \<Rightarrow> PARENB | PARITY_EVEN \<Rightarrow> PARENB | _ \<Rightarrow> 0)
    \<and> f AND PARODD = (if parity a = PARITY_ODD then PARODD else 0)
    \<and> f AND CSTOPB = (if stopBits a = STOPBIT_2 then CSTOPB else 0)
    \<and> f AND CRTSCTS = (if cts a \<or> rts a then CRTSCTS else 0)
    \<and> f AND (CLOCAL OR CREAD) = (CLOCAL OR CREAD)
    \<and> f AND 0x7FFFF40F = c_cflag (u_termios u) AND 0x7FFFF40F"
proof -
  have "UartAdapterSetAttribute env (Some u) (Some a) =
      (Ok (tcsets env), Some (u\<lparr>u_termios := (u_termios u)\<lparr>c_cflag := attribute_cflag a (c_cflag (u_termios u))\<rparr>\<rparr>))"
    using port env by (cases u) (simp add: UartAdapterSetAttribute_def ioctl_inner Let_def)
  then show ?thesis using attribute_bits [of a "c_cflag (u_termios u)"] by blast
qed

subsection \<open>What is read back\<close>

text \<open>Masks survive the cut to 16 bits where they have no bits above.\<close>

lemma cut_low: "(ucast (ucast (f :: u32) :: u16) :: u32) = f AND 0xFFFF"
proof -
  have "(ucast (ucast f :: u16) :: u32) = take_bit 16 f" by (simp add: bit_eq_iff bit_simps)
  also have "\<dots> = f AND mask 16" by (simp add: take_bit_eq_mask)
  also have "(mask 16 :: u32) = 0xFFFF" by (simp add: mask_eq_exp_minus_1)
  finally show ?thesis .
qed

lemma baud_constant: "CflagToBaudRate flag = 9600"
proof -
  have "ucast flag OR CBAUD \<noteq> code" if "code AND CBAUD \<noteq> CBAUD" for code :: u32
  proof
    assume "ucast flag OR CBAUD = code"
    then have "code AND CBAUD = CBAUD" by (simp add: bit_eq_iff bit_simps) blast
    then show False using that by simp
  qed
  then have "find (\<lambda>(_, code). ucast flag OR CBAUD = code) baud_codes = None"
    by (auto simp: find_None_iff baud_codes_def)
  then show ?thesis by (simp add: CflagToBaudRate_def)
qed

lemma flow_constant: "\<not> CtsRtsToAttr (ucast (f :: u32))"
  by (simp add: CtsRtsToAttr_def cut_low and.assoc)

lemma parity_read:
  "PariTyToAttr (ucast (f :: u32)) = (if f AND PARENB = 0 \<and> f AND PARODD = 0 then PARITY_NONE else PARITY_ODD)"
proof -
  have "f AND 0x300 = (f AND 0x100) OR (f AND 0x200)" by (simp flip: bit.conj_disj_distrib)
  then have "f AND 0x300 = 0 \<longleftrightarrow> f AND 0x100 = 0 \<and> f AND 0x200 = 0" by (simp add: or_eq_0_iff)
  then show ?thesis by (auto simp: PariTyToAttr_def cut_low and.assoc)
qed

lemma stop_read: "StopBitToAttr (ucast (f :: u32)) = (if f AND CSTOPB = 0 then STOPBIT_1 else STOPBIT_2)"
  by (simp add: StopBitToAttr_def cut_low and.assoc)

lemma data_read:
  assumes "f AND (CLOCAL OR CREAD) = (CLOCAL OR CREAD)"
  shows "CSToAttr (ucast (f :: u32)) = DATABIT_8"
proof -
  have "f AND 0xFFCF \<noteq> v" if "v AND 0x880 = 0" for v
  proof
    assume "f AND 0xFFCF = v"
    then have "(f AND 0xFFCF) AND 0x880 = 0" using that by simp
    then show False using assms by (simp add: and.assoc)
  qed
  then show ?thesis by (simp add: CSToAttr_def Let_def cut_low and.assoc)
qed

text \<open>The code of a rate, 9600 for an unknown one, and the flags it is written into.\<close>

definition code_of_rate :: "u32 \<Rightarrow> u32" where
  "code_of_rate rate = (case map_of baud_codes rate of None \<Rightarrow> 0xD | Some code \<Rightarrow> code)"

lemma rate_code: "(ucast (BaudRateToCflag rate) :: u32) = code_of_rate rate" "code_of_rate rate AND NOT CBAUD = 0"
proof -
  have "find (\<lambda>(r, _). rate = r) xs = (case map_of xs rate of None \<Rightarrow> None | Some c \<Rightarrow> Some (rate, c))" for xs :: "(u32 \<times> u32) list"
    by (induction xs) auto
  then have f: "BaudRateToCflag rate = ucast (code_of_rate rate)"
    by (simp add: BaudRateToCflag_def code_of_rate_def split: option.split)
  have "code_of_rate rate \<in> insert 0xD (snd ` set baud_codes)"
    by (auto simp: code_of_rate_def split: option.split dest: map_of_SomeD intro: rev_image_eqI)
  then have "code_of_rate rate AND 0xFFFF = code_of_rate rate \<and> code_of_rate rate AND NOT CBAUD = 0"
    by (auto simp: baud_codes_def)
  then show "(ucast (BaudRateToCflag rate) :: u32) = code_of_rate rate" "code_of_rate rate AND NOT CBAUD = 0"
    by (simp_all only: f cut_low)
qed

definition rate_flags :: "u32 \<Rightarrow> u32 \<Rightarrow> u32" where
  "rate_flags rate f = (f AND NOT CBAUD) OR code_of_rate rate"

lemma rate_bits: "rate_flags rate f AND CBAUD = code_of_rate rate" "rate_flags rate f AND NOT CBAUD = f AND NOT CBAUD"
proof -
  have c: "code_of_rate rate AND CBAUD = code_of_rate rate"
  proof -
    have "code_of_rate rate = (code_of_rate rate AND CBAUD) OR (code_of_rate rate AND NOT CBAUD)" by (simp add: bit_eq_iff bit_simps) blast
    then show ?thesis using rate_code(2) by simp
  qed
  show "rate_flags rate f AND CBAUD = code_of_rate rate"
    unfolding rate_flags_def bit.conj_disj_distrib2 c by (simp add: and.assoc)
  show "rate_flags rate f AND NOT CBAUD = f AND NOT CBAUD"
    unfolding rate_flags_def bit.conj_disj_distrib2 rate_code(2) by (simp add: and.assoc)
qed

text \<open>The terminal accepts everything.\<close>

definition terminal_accepts :: "uart_env \<Rightarrow> bool" where
  "terminal_accepts env \<longleftrightarrow> has_ioctl env \<and> \<not> negative (tcgets env) \<and> \<not> negative (tcsets env)
     \<and> \<not> negative (tiocgserial env) \<and> \<not> negative (tiocsserial env)"

lemma baud_set:
  assumes port: "u_file u = Open_file nm k" and env: "terminal_accepts env"
  shows "UartAdapterSetBaud env (Some u) rate = (Ok (tiocsserial env),
    Some (u\<lparr>u_termios := (u_termios u)\<lparr>c_cflag := rate_flags rate (c_cflag (u_termios u)), c_vmin := 0, c_vtime := 0\<rparr>,
      u_serial := u_serial u OR ASYNC_LOW_LATENCY\<rparr>))"
  using port env by (cases u) (simp add: UartAdapterSetBaud_def terminal_accepts_def ioctl_inner Let_def rate_flags_def rate_code(1))

text \<open>
  Setting the rate of an open port programs the code of the rate (of 9600 when it is unknown) and leaves the other control flags
  alone. But what is read back is wrong: the rate always reads as 9600, the data bits as 8, even parity as odd parity, and
  flow control as off, whatever was set; only the stop bits are right.
\<close>
theorem uart_settings_read_back:
  assumes port: "u_file u = Open_file nm k" and env: "terminal_accepts env"
  shows "(\<exists>u'. snd (UartAdapterSetBaud env (Some u) rate) = Some u'
      \<and> c_cflag (u_termios u') AND CBAUD = code_of_rate rate \<and> c_cflag (u_termios u') AND NOT CBAUD = c_cflag (u_termios u) AND NOT CBAUD)
    \<and> fst (UartAdapterGetBaud env (snd (UartAdapterSetBaud env (Some u) rate)) True) = Ok (HDF_SUCCESS, Some 9600)
    \<and> fst (UartAdapterGetAttribute env (snd (UartAdapterSetAttribute env (Some u) (Some a))) True) =
      Ok (HDF_SUCCESS, Some \<lparr>dataBits = DATABIT_8, parity = (if parity a = PARITY_ODD \<or> parity a = PARITY_EVEN then PARITY_ODD else PARITY_NONE),
        stopBits = (if stopBits a = STOPBIT_2 then STOPBIT_2 else STOPBIT_1), rts = False, cts = False\<rparr>)"
proof -
  have acc: "has_ioctl env" "\<not> negative (tcgets env)" "\<not> negative (tcsets env)" using env by (simp_all add: terminal_accepts_def)
  let ?f = "attribute_cflag a (c_cflag (u_termios u))"
  note bits = attribute_bits [of a "c_cflag (u_termios u)"]
  have set: "UartAdapterSetAttribute env (Some u) (Some a) = (Ok (tcsets env), Some (u\<lparr>u_termios := (u_termios u)\<lparr>c_cflag := ?f\<rparr>\<rparr>))"
    using port acc by (cases u) (simp add: UartAdapterSetAttribute_def ioctl_inner Let_def)
  have par: "PariTyToAttr (ucast ?f) = (if parity a = PARITY_ODD \<or> parity a = PARITY_EVEN then PARITY_ODD else PARITY_NONE)"
    unfolding parity_read bits by (simp split: uart_parity.split)
  have stop: "StopBitToAttr (ucast ?f) = (if stopBits a = STOPBIT_2 then STOPBIT_2 else STOPBIT_1)"
    unfolding stop_read bits by simp
  have "fst (UartAdapterGetAttribute env (snd (UartAdapterSetAttribute env (Some u) (Some a))) True) =
      Ok (HDF_SUCCESS, Some \<lparr>dataBits = DATABIT_8, parity = (if parity a = PARITY_ODD \<or> parity a = PARITY_EVEN then PARITY_ODD else PARITY_NONE),
        stopBits = (if stopBits a = STOPBIT_2 then STOPBIT_2 else STOPBIT_1), rts = False, cts = False\<rparr>)"
    using port acc by (simp add: set UartAdapterGetAttribute_def ioctl_inner Let_def data_read [OF bits(6)] par stop flow_constant)
  moreover have "fst (UartAdapterGetBaud env (snd (UartAdapterSetBaud env (Some u) rate)) True) = Ok (HDF_SUCCESS, Some 9600)"
    using port acc by (simp add: baud_set [OF port env] UartAdapterGetBaud_def ioctl_inner baud_constant)
  moreover have "\<exists>u'. snd (UartAdapterSetBaud env (Some u) rate) = Some u'
      \<and> c_cflag (u_termios u') AND CBAUD = code_of_rate rate \<and> c_cflag (u_termios u') AND NOT CBAUD = c_cflag (u_termios u) AND NOT CBAUD"
  proof -
    have c: "c_cflag (u_termios (u\<lparr>u_termios := (u_termios u)\<lparr>c_cflag := x, c_vmin := 0, c_vtime := 0\<rparr>, u_serial := y\<rparr>)) = x" for x y
      by simp
    show ?thesis unfolding baud_set [OF port env] snd_conv option.inject
      by (rule exI, rule conjI, rule refl) (simp only: c rate_bits simp_thms)
  qed
  ultimately show ?thesis by blast
qed

subsection \<open>Calls and the address limit\<close>

text \<open>The call returned, and left the port open and the address limit as it was.\<close>

definition restored :: "addr_limit \<Rightarrow> 'a res \<times> uart option \<Rightarrow> bool" where
  "restored l p \<longleftrightarrow> fst p \<noteq> Fault \<and> (\<exists>u. snd p = Some u \<and> port_ok l u)"

text \<open>
  A call on an open port, other than a read, never faults and gives the address limit back, however the terminal
  answers. Closing keeps the pointer to the file: writing to the port or closing it again uses the closed file.
\<close>
theorem uart_limit_restored:
  assumes u: "port_ok l u" and buf: "unat sz \<le> length buf"
  shows "restored l (UartAdapterWrite env (Some u) (Some buf) sz) \<and> restored l (UartAdapterSetBaud env (Some u) rate)
    \<and> restored l (UartAdapterGetBaud env (Some u) True) \<and> restored l (UartAdapterSetAttribute env (Some u) (Some a))
    \<and> restored l (UartAdapterGetAttribute env (Some u) True)
    \<and> (\<exists>u'. snd (UartAdapterDeInit env (Some u)) = Some u' \<and> u_limit u' = l
      \<and> fst (UartAdapterDeInit env (Some u')) = Fault \<and> (sz = 0 \<or> fst (UartAdapterWrite env (Some u') (Some buf) sz) = Fault))"
proof -
  obtain nm k where f: "u_file u = Open_file nm k" and l: "u_limit u = l" using u by (auto simp: port_ok_def)
  have "restored l (UartAdapterWrite env (Some u) (Some buf) sz)"
    using f l buf by (cases "write_answer env") (auto simp: UartAdapterWrite_def restored_def port_ok_def Let_def)
  moreover have "restored l (UartAdapterSetBaud env (Some u) rate)"
    using f l by (cases u) (auto simp: UartAdapterSetBaud_def restored_def port_ok_def ioctl_inner Let_def)
  moreover have "restored l (UartAdapterSetAttribute env (Some u) (Some a))"
    using f l by (cases u) (auto simp: UartAdapterSetAttribute_def restored_def port_ok_def ioctl_inner Let_def)
  moreover have "restored l (UartAdapterGetBaud env (Some u) True)" "restored l (UartAdapterGetAttribute env (Some u) True)"
    using f l by (auto simp: UartAdapterGetBaud_def UartAdapterGetAttribute_def restored_def port_ok_def ioctl_inner Let_def)
  moreover have "\<exists>u'. snd (UartAdapterDeInit env (Some u)) = Some u' \<and> u_limit u' = l
      \<and> fst (UartAdapterDeInit env (Some u')) = Fault \<and> (sz = 0 \<or> fst (UartAdapterWrite env (Some u') (Some buf) sz) = Fault)"
    using f l by (simp add: UartAdapterDeInit_def UartAdapterWrite_def)
  ultimately show ?thesis by blast
qed

text \<open>A port on a terminal that accepts everything and has two bytes to read.\<close>

definition uart_sample :: uart where
  "uart_sample = \<lparr>u_num = 1, u_file = Open_file ''ttyAMA'' 1, u_method = True, u_name = ''ttyAMA'' @ replicate 14 CHR 0x00,
     u_termios = \<lparr>c_cflag = 0x8BD, c_vmin = 1, c_vtime = 0\<rparr>, u_serial = 0, u_limit = USER_DS, u_sent = []\<rparr>"

definition uart_sample_env :: "nat \<Rightarrow> uart_env" where
  "uart_sample_env n = \<lparr>sprintf_ok = True, open_ok = True, close_ret = HDF_SUCCESS, has_ioctl = True, tcgets = HDF_SUCCESS, tcsets = HDF_SUCCESS,
     tiocgserial = HDF_SUCCESS, tiocsserial = HDF_SUCCESS, read_answers = (\<lambda>i. if i < n then Read_byte (of_nat (65 + i)) else Read_error),
     write_answer = Some 3\<rparr>"

definition seven_even :: uart_attribute where
  "seven_even = \<lparr>dataBits = DATABIT_7, parity = PARITY_EVEN, stopBits = STOPBIT_2, rts = True, cts = True\<rparr>"

lemma uart_sample_port: "u_file uart_sample = Open_file ''ttyAMA'' 1" "terminal_accepts (uart_sample_env n)"
  by (simp_all add: uart_sample_def uart_sample_env_def terminal_accepts_def)

lemma uart_read_one_too_many_witness:
  "fst (UartAdapterRead (uart_sample_env 2) (Some uart_sample) (Some [0, 0, 0]) 3) = Ok (Inr 2)
    \<and> fst (UartAdapterRead (uart_sample_env 9) (Some uart_sample) (Some [0, 0, 0]) 3) = Fault"
proof -
  have "read_prefix (read_answers (uart_sample_env 2)) (unat (3 :: u32) + 1) 0 = 2" "read_prefix (read_answers (uart_sample_env 9)) (unat (3 :: u32) + 1) 0 = 4"
    "read_answers (uart_sample_env 9) (unat (3 :: u32)) = Read_byte 68" by code_simp+
  then show ?thesis
    using uart_read_one_too_many [OF uart_sample_port(1), of 3 "[0, 0, 0]" "uart_sample_env 2"]
      uart_read_one_too_many [OF uart_sample_port(1), of 3 "[0, 0, 0]" "uart_sample_env 9"] by simp
qed

lemma uart_attributes_programmed_witness:
  "\<exists>f. snd (UartAdapterSetAttribute (uart_sample_env 0) (Some uart_sample) (Some seven_even)) =
      Some (uart_sample\<lparr>u_termios := (u_termios uart_sample)\<lparr>c_cflag := f\<rparr>\<rparr>) \<and> f AND CSIZE = CS7 \<and> f AND PARENB = PARENB"
  using uart_attributes_programmed [OF uart_sample_port(1), of "uart_sample_env 0" seven_even]
  by (auto simp: seven_even_def uart_sample_env_def)

lemma uart_settings_read_back_witness:
  "fst (UartAdapterGetBaud (uart_sample_env 0) (snd (UartAdapterSetBaud (uart_sample_env 0) (Some uart_sample) 115200)) True) = Ok (HDF_SUCCESS, Some 9600)"
  using uart_settings_read_back [OF uart_sample_port, of 0 115200 seven_even] by (elim conjE)

lemma uart_limit_restored_witness:
  "restored USER_DS (UartAdapterWrite (uart_sample_env 0) (Some uart_sample) (Some [1, 2, 3]) 3)"
  using uart_limit_restored [of USER_DS uart_sample 3 "[1, 2, 3]" "uart_sample_env 0"] uart_sample_port(1)
  by (simp add: port_ok_def uart_sample_def)

subsection \<open>The name of the driver\<close>

text \<open>A shorter name that is configured after a longer one keeps the longer one's end, in the buffer that all ports share.\<close>

lemma name_keeps_tail:
  "name_string (u_name (snd (HdfUartInit \<lparr>object_null = False, host_made = True, iface_ok = True, num_cfg = Some 0, name_cfg = Some ''ttyS''\<rparr> uart_sample))) = ''ttySMA''"
  by code_simp

end
