(* ===== verification/Net_Buf.thy ===== *)
theory Net_Buf
  imports Results
begin

section \<open>Network buffers\<close>

text \<open>
  \<open>network/src/netbuf_adapter.c\<close>: the framework's network buffers are the kernel's \<open>sk_buff\<close>, one block of memory in which
  a head segment, the data and a tail segment follow each other. The adapter moves the borders itself,
  in machine arithmetic on the fields \<open>data\<close>, \<open>tail\<close> and \<open>len\<close>. The kernel's own functions on buffers are parameters
  (\<open>skb_ops\<close>); \<open>skb_helpers\<close> says what is documented of them, for a kernel of 64 bits, in which \<open>tail\<close> and \<open>end\<close> are offsets.
  A null pointer is \<open>None\<close>, \<open>0\<close> among addresses.
\<close>

subsection \<open>The code\<close>

text \<open>\<open>nb_mem\<close> is the memory from \<open>nb_head\<close> on.\<close>

record net_buf =
  nb_head :: u64
  nb_data :: u64
  nb_tail :: u32
  nb_end :: u32
  nb_len :: u32
  nb_paged :: bool
  nb_mem :: "u8 list"

record skb_ops =
  skb_tail_pointer :: "net_buf \<Rightarrow> u64"
  skb_headroom :: "net_buf \<Rightarrow> u32"
  skb_tailroom :: "net_buf \<Rightarrow> int"
  skb_is_nonlinear :: "net_buf \<Rightarrow> bool"
  skb_put :: "net_buf \<Rightarrow> u32 \<Rightarrow> net_buf"
  memcpy_ok :: bool

datatype buf_segment = E_HEAD_BUF | E_DATA_BUF | E_TAIL_BUF | OTHER_BUF

definition NetBufGetDataLen :: "net_buf option \<Rightarrow> u32" where
  "NetBufGetDataLen nb = (case nb of None \<Rightarrow> 0 | Some b \<Rightarrow> nb_len b)"

definition NetBufPush :: "net_buf option \<Rightarrow> buf_segment \<Rightarrow> u32 \<Rightarrow> u64 \<times> net_buf option" where
  "NetBufPush nb seg len = (case nb of
     None \<Rightarrow> (0, None)
   | Some b \<Rightarrow>
       (case seg of
          E_HEAD_BUF \<Rightarrow> let b = b\<lparr>nb_data := nb_data b + ucast len\<rparr> in (nb_data b, Some b)
        | E_DATA_BUF \<Rightarrow> let b = b\<lparr>nb_tail := nb_tail b + len, nb_len := nb_len b + len\<rparr> in (nb_data b, Some b)
        | E_TAIL_BUF \<Rightarrow>
            if len > nb_len b \<or> len > nb_tail b then (0, Some b)
            else let b = b\<lparr>nb_tail := nb_tail b - len, nb_len := nb_len b - len\<rparr> in (nb_data b, Some b)
        | OTHER_BUF \<Rightarrow> (nb_data b, Some b)))"

text \<open>The check of the head segment compares the length with the address of the data.\<close>

definition NetBufPop :: "net_buf option \<Rightarrow> buf_segment \<Rightarrow> u32 \<Rightarrow> u64 \<times> net_buf option" where
  "NetBufPop nb seg len = (case nb of
     None \<Rightarrow> (0, None)
   | Some b \<Rightarrow>
       (case seg of
          E_HEAD_BUF \<Rightarrow>
            if ucast len > nb_data b then (0, Some b)
            else let b = b\<lparr>nb_data := nb_data b - ucast len, nb_len := nb_len b + len\<rparr> in (nb_data b, Some b)
        | E_DATA_BUF \<Rightarrow>
            if len > nb_len b then (0, Some b)
            else let b = b\<lparr>nb_data := nb_data b + ucast len, nb_len := nb_len b - len\<rparr> in (nb_data b, Some b)
        | E_TAIL_BUF \<Rightarrow> let b = b\<lparr>nb_tail := nb_tail b + len, nb_len := nb_len b + len\<rparr> in (nb_data b, Some b)
        | OTHER_BUF \<Rightarrow> (nb_data b, Some b)))"

definition NetBufGetAddress :: "skb_ops \<Rightarrow> net_buf option \<Rightarrow> buf_segment \<Rightarrow> u64" where
  "NetBufGetAddress k nb seg = (case nb of
     None \<Rightarrow> 0
   | Some b \<Rightarrow> (case seg of E_HEAD_BUF \<Rightarrow> nb_head b | E_DATA_BUF \<Rightarrow> nb_data b | E_TAIL_BUF \<Rightarrow> skb_tail_pointer k b | OTHER_BUF \<Rightarrow> 0))"

definition NetBufGetRoom :: "skb_ops \<Rightarrow> net_buf option \<Rightarrow> buf_segment \<Rightarrow> u32" where
  "NetBufGetRoom k nb seg = (case nb of
     None \<Rightarrow> 0
   | Some b \<Rightarrow>
       (case seg of
          E_HEAD_BUF \<Rightarrow> skb_headroom k b
        | E_DATA_BUF \<Rightarrow> if skb_is_nonlinear k b then 0 else ucast (skb_tail_pointer k b - nb_data b)
        | E_TAIL_BUF \<Rightarrow> word_of_int (skb_tailroom k b)
        | OTHER_BUF \<Rightarrow> 0))"

text \<open>The bytes of the data, and writing bytes at an address of the buffer's memory; outside of it is a fault.\<close>

definition nb_bytes :: "net_buf \<Rightarrow> u8 list" where
  "nb_bytes b = take (unat (nb_len b)) (drop (unat (nb_data b - nb_head b)) (nb_mem b))"

definition write_mem :: "u64 \<Rightarrow> u8 list \<Rightarrow> net_buf \<Rightarrow> net_buf option" where
  "write_mem addr bs b =
     (let i = unat (addr - nb_head b)
      in if i + length bs \<le> length (nb_mem b) then Some (b\<lparr>nb_mem := take i (nb_mem b) @ bs @ drop (i + length bs) (nb_mem b)\<rparr>) else None)"

text \<open>
  The second buffer is freed after a success: \<open>None\<close>. Its data are read in one block, which must
  lie in its memory. \<open>skb_tailroom\<close> of the first one is taken before anything is checked.
\<close>

definition NetBufConcat :: "skb_ops \<Rightarrow> net_buf option \<Rightarrow> net_buf option \<Rightarrow> hdf_status res \<times> net_buf option \<times> net_buf option" where
  "NetBufConcat k nb cnb = (case nb of
     None \<Rightarrow> (Fault, nb, cnb)
   | Some b \<Rightarrow>
       let tailroom = (if skb_tailroom k b < 0 then 0 else word_of_int (skb_tailroom k b) :: u32)
       in (case cnb of
             None \<Rightarrow> (Ok HDF_ERR_INVALID_PARAM, nb, None)
           | Some c \<Rightarrow>
               if tailroom < nb_len c then (Ok HDF_FAILURE, nb, cnb)
               else if \<not> memcpy_ok k then (Ok HDF_FAILURE, nb, cnb)
               else if length (nb_bytes c) < unat (nb_len c) then (Fault, nb, cnb)
               else (case write_mem (skb_tail_pointer k b) (nb_bytes c) b of
                       None \<Rightarrow> (Fault, nb, cnb)
                     | Some b \<Rightarrow> (Ok HDF_SUCCESS, Some (skb_put k b (nb_len c)), None))))"

subsection \<open>Buffers in order\<close>

text \<open>What the kernel documents of its functions, on a buffer without pages.\<close>

definition skb_helpers :: "skb_ops \<Rightarrow> bool" where
  "skb_helpers k \<longleftrightarrow> (\<forall>b. \<not> nb_paged b \<longrightarrow> skb_tail_pointer k b = nb_head b + ucast (nb_tail b)
     \<and> skb_headroom k b = ucast (nb_data b - nb_head b) \<and> skb_tailroom k b = uint (nb_end b) - uint (nb_tail b) \<and> \<not> skb_is_nonlinear k b
     \<and> (\<forall>n. skb_put k b n = b\<lparr>nb_tail := nb_tail b + n, nb_len := nb_len b + n\<rparr>))"

text \<open>Where the data start, as an offset; and the order of the borders.\<close>

definition nb_offset :: "net_buf \<Rightarrow> nat" where
  "nb_offset b = unat (nb_data b - nb_head b)"

definition nb_ok :: "net_buf \<Rightarrow> bool" where
  "nb_ok b \<longleftrightarrow> \<not> nb_paged b \<and> length (nb_mem b) = unat (nb_end b) \<and> nb_offset b + unat (nb_len b) = unat (nb_tail b)
     \<and> nb_tail b \<le> nb_end b \<and> unat (nb_head b) + unat (nb_end b) < 2 ^ 64"

text \<open>The three segments.\<close>

definition segments :: "net_buf \<Rightarrow> u8 list \<times> u8 list \<times> u8 list" where
  "segments b = (take (nb_offset b) (nb_mem b), nb_bytes b, drop (unat (nb_tail b)) (nb_mem b))"

lemma nb_ok_facts:
  assumes "nb_ok b"
  shows "nb_offset b + unat (nb_len b) = unat (nb_tail b)" "unat (nb_tail b) \<le> unat (nb_end b)" "length (nb_mem b) = unat (nb_end b)"
    "unat (nb_head b) + unat (nb_end b) < 2 ^ 64" "unat (nb_data b) = unat (nb_head b) + nb_offset b" "unat (nb_end b) < 2 ^ 32"
proof -
  show f: "nb_offset b + unat (nb_len b) = unat (nb_tail b)" "unat (nb_tail b) \<le> unat (nb_end b)" "length (nb_mem b) = unat (nb_end b)"
    "unat (nb_head b) + unat (nb_end b) < 2 ^ 64"
    using assms by (simp_all add: nb_ok_def word_le_nat_alt)
  show "unat (nb_end b) < 2 ^ 32" by (rule order.strict_trans2 [OF unsigned_less]) simp
  have "unat (nb_head b + (nb_data b - nb_head b)) = unat (nb_head b) + unat (nb_data b - nb_head b)"
    using f by (subst unat_add_lem [THEN iffD1]) (auto simp: nb_offset_def)
  then show "unat (nb_data b) = unat (nb_head b) + nb_offset b" by (simp add: nb_offset_def)
qed

lemma seg_lengths:
  "nb_ok b \<Longrightarrow> segments b = (h, d, t) \<Longrightarrow> length h = nb_offset b \<and> length d = unat (nb_len b) \<and> length t = unat (nb_end b) - unat (nb_tail b)
    \<and> nb_mem b = h @ d @ t"
proof -
  assume b: "nb_ok b" and s: "segments b = (h, d, t)"
  note f = nb_ok_facts [OF b]
  have "drop (unat (nb_tail b)) (nb_mem b) = drop (unat (nb_len b)) (drop (nb_offset b) (nb_mem b))"
    using f(1) by (simp add: add.commute)
  then have "nb_mem b = take (nb_offset b) (nb_mem b) @ nb_bytes b @ drop (unat (nb_tail b)) (nb_mem b)"
    by (simp add: nb_bytes_def nb_offset_def del: drop_drop)
  moreover have "h = take (nb_offset b) (nb_mem b)" "d = nb_bytes b" "t = drop (unat (nb_tail b)) (nb_mem b)" using s by (simp_all add: segments_def)
  moreover have "length (nb_bytes b) = unat (nb_len b)" using f by (simp add: nb_bytes_def nb_offset_def)
  ultimately show ?thesis using f by simp
qed

text \<open>A buffer whose borders were moved within its memory is in order, and its segments are the memory cut anew.\<close>

lemma moved_borders:
  assumes b: "nb_ok b" and b': "nb_mem b' = nb_mem b" "nb_head b' = nb_head b" "nb_end b' = nb_end b" "\<not> nb_paged b'"
    and o': "unat (nb_data b') = unat (nb_head b) + o'" and t: "o' + unat (nb_len b') = unat (nb_tail b')" "unat (nb_tail b') \<le> unat (nb_end b)"
  shows "nb_ok b' \<and> segments b' = (take o' (nb_mem b), take (unat (nb_len b')) (drop o' (nb_mem b)), drop (unat (nb_tail b')) (nb_mem b))"
proof -
  note f = nb_ok_facts [OF b]
  have "unat (nb_data b' - nb_head b') = o'"
    using o' b'(2) by (subst unat_sub) (simp_all add: word_le_nat_alt)
  then have o: "nb_offset b' = o'" by (simp add: nb_offset_def)
  then show ?thesis using b b' t f by (simp add: nb_ok_def segments_def nb_bytes_def nb_offset_def word_le_nat_alt)
qed

subsection \<open>Moving the borders\<close>


definition border_call :: "bool \<Rightarrow> buf_segment \<Rightarrow> u32 \<Rightarrow> net_buf \<Rightarrow> u64 \<times> net_buf option" where
  "border_call push seg len b = (if push then NetBufPush (Some b) seg len else NetBufPop (Some b) seg len)"

text \<open>The call does what the segments say.\<close>

definition moves_to :: "u64 \<times> net_buf option \<Rightarrow> u8 list \<times> u8 list \<times> u8 list \<Rightarrow> bool" where
  "moves_to p x \<longleftrightarrow> (\<exists>b. p = (nb_data b, Some b) \<and> nb_ok b \<and> segments b = x)"

lemma tail_grows:
  assumes b: "nb_ok b" "segments b = (h, d, t)" and n: "unat len \<le> length t"
  shows "moves_to (nb_data b, Some (b\<lparr>nb_tail := nb_tail b + len, nb_len := nb_len b + len\<rparr>)) (h, d @ take (unat len) t, drop (unat len) t)"
proof -
  let ?b = "b\<lparr>nb_tail := nb_tail b + len, nb_len := nb_len b + len\<rparr>"
  note f = nb_ok_facts [OF b(1)] and l = seg_lengths [OF b]
  have t: "unat (nb_tail b + len) = unat (nb_tail b) + unat len" "unat (nb_len b + len) = unat (nb_len b) + unat len"
    using f l n by (subst unat_add_lem [THEN iffD1]; simp)+
  have "nb_ok ?b \<and> segments ?b = (take (nb_offset b) (nb_mem b), take (unat (nb_len b + len)) (drop (nb_offset b) (nb_mem b)), drop (unat (nb_tail b + len)) (nb_mem b))"
    using moved_borders [OF b(1), of ?b "nb_offset b"] b f l n t by (simp add: nb_ok_def)
  moreover have "(take (nb_offset b) (nb_mem b), take (unat (nb_len b + len)) (drop (nb_offset b) (nb_mem b)), drop (unat (nb_tail b + len)) (nb_mem b))
      = (h, d @ take (unat len) t, drop (unat len) t)"
    using l f by (simp add: t)
  ultimately show ?thesis by (auto simp: moves_to_def)
qed





text \<open>
  Pushing the head segment, the call a driver uses to leave room for headers, moves the start of the data without making them shorter, against
  its documentation: whatever the length, the buffer is not in order any more and its data seem to reach beyond their end. And a length beyond the
  room of a tail segment, or of the head segment, is accepted, although null is documented: again the buffer is out of order.
\<close>
theorem net_buf_unchecked:
  assumes b: "nb_ok b" and len: "0 < len"
  shows "(\<exists>b'. border_call True E_HEAD_BUF len b = (nb_data b', Some b') \<and> nb_len b' = nb_len b \<and> \<not> nb_ok b')
    \<and> (unat (nb_end b) < unat (nb_tail b) + unat len \<and> unat (nb_tail b) + unat len < 2 ^ 32 \<longrightarrow> (\<exists>b'. border_call True E_DATA_BUF len b = (nb_data b', Some b') \<and> \<not> nb_ok b')
        \<and> (\<exists>b'. border_call False E_TAIL_BUF len b = (nb_data b', Some b') \<and> \<not> nb_ok b'))
    \<and> (nb_offset b < unat len \<and> ucast len \<le> nb_data b \<longrightarrow> (\<exists>b'. border_call False E_HEAD_BUF len b = (nb_data b', Some b') \<and> \<not> nb_ok b'))"
proof -
  note f = nb_ok_facts [OF b]
  have u: "unat (ucast len :: u64) = unat len" by (simp add: unsigned_ucast_eq take_bit_nat_eq_self_iff) (rule order.strict_trans [OF unsigned_less], simp)
  have n: "0 < unat len" using len by (simp add: word_less_nat_alt)
  have n32: "unat len < 2 ^ 32" by (rule order.strict_trans2 [OF unsigned_less]) simp
  have "unat (nb_data b - nb_head b + ucast len) = nb_offset b + unat len"
    using f n32 u by (subst unat_add_lem [THEN iffD1]) (auto simp: nb_offset_def)
  then have "nb_offset (b\<lparr>nb_data := nb_data b + ucast len\<rparr>) = nb_offset b + unat len" by (simp add: nb_offset_def algebra_simps)
  then have head: "\<not> nb_ok (b\<lparr>nb_data := nb_data b + ucast len\<rparr>)" using f n by (auto simp: nb_ok_def)
  have tail: "\<not> nb_ok (b\<lparr>nb_tail := nb_tail b + len, nb_len := m\<rparr>)"
    if "unat (nb_end b) < unat (nb_tail b) + unat len" "unat (nb_tail b) + unat len < 2 ^ 32" for m
  proof -
    have "unat (nb_tail b + len) = unat (nb_tail b) + unat len" using that by (subst unat_add_lem [THEN iffD1]) simp_all
    then show ?thesis using that by (simp add: nb_ok_def word_le_nat_alt)
  qed
  have down: "\<not> nb_ok (b\<lparr>nb_data := nb_data b - ucast len, nb_len := m\<rparr>)" if "nb_offset b < unat len" for m
  proof -
    have "unat (nb_data b - nb_head b - ucast len) = 2 ^ 64 + nb_offset b - unat len"
      using that u by (simp add: unat_sub_if' nb_offset_def)
    then have "2 ^ 32 \<le> nb_offset (b\<lparr>nb_data := nb_data b - ucast len, nb_len := m\<rparr>)"
      using n32 by (simp add: nb_offset_def algebra_simps)
    then show ?thesis using nb_ok_facts(1,2,6) [of "b\<lparr>nb_data := nb_data b - ucast len, nb_len := m\<rparr>"] by auto
  qed
  show ?thesis
    using head tail down by (auto simp: border_call_def NetBufPush_def NetBufPop_def Let_def not_less)
qed

text \<open>A buffer of eight bytes, with two in front and three of data.\<close>

definition nb_sample :: net_buf where
  "nb_sample = \<lparr>nb_head = 0x1000, nb_data = 0x1002, nb_tail = 5, nb_end = 8, nb_len = 3, nb_paged = False, nb_mem = [0, 0, 1, 2, 3, 0, 0, 0]\<rparr>"

lemma nb_sample_ok: "nb_ok nb_sample" "segments nb_sample = ([0, 0], [1, 2, 3], [0, 0, 0])"
  by (simp_all add: nb_sample_def nb_ok_def segments_def nb_bytes_def nb_offset_def)


lemma net_buf_unchecked_witness:
  "\<exists>b. border_call True E_HEAD_BUF 1 nb_sample = (nb_data b, Some b) \<and> nb_len b = nb_len nb_sample \<and> \<not> nb_ok b"
  using net_buf_unchecked [OF nb_sample_ok(1), of 1] by simp

subsection \<open>Appending a buffer to another\<close>

text \<open>
  Appending a buffer to another puts its data behind the other's, if they fit into the tail segment, and frees it; head segment
  and the rest of the tail segment stay as they are. If they do not fit, a failure is returned and nothing has changed.
\<close>
theorem net_buf_concat:
  assumes k: "skb_helpers k" "memcpy_ok k" and b: "nb_ok b" "segments b = (h, d, t)" and c: "nb_ok c"
  shows "if length (nb_bytes c) \<le> length t
    then \<exists>b'. NetBufConcat k (Some b) (Some c) = (Ok HDF_SUCCESS, Some b', None) \<and> nb_ok b'
      \<and> segments b' = (h, d @ nb_bytes c, drop (length (nb_bytes c)) t)
    else NetBufConcat k (Some b) (Some c) = (Ok HDF_FAILURE, Some b, Some c)"
proof -
  note f = nb_ok_facts [OF b(1)] and l = seg_lengths [OF b] and fc = nb_ok_facts [OF c]
  have paged: "\<not> nb_paged b" using b by (simp add: nb_ok_def)
  have lenc: "length (nb_bytes c) = unat (nb_len c)" using fc by (simp add: nb_bytes_def nb_offset_def)
  have u: "unat (ucast (nb_tail b) :: u64) = unat (nb_tail b)"
    by (simp add: unsigned_ucast_eq take_bit_nat_eq_self_iff) (rule order.strict_trans [OF unsigned_less], simp)
  have room: "skb_tailroom k b = int (length t)"
    using k(1) paged l f by (simp add: skb_helpers_def of_nat_diff)
  have tail: "skb_tail_pointer k b = nb_head b + ucast (nb_tail b)" and put: "\<And>b n. \<not> nb_paged b \<Longrightarrow> skb_put k b n = b\<lparr>nb_tail := nb_tail b + n, nb_len := nb_len b + n\<rparr>"
    using k(1) paged by (simp_all add: skb_helpers_def)
  have "length t < 2 ^ 32" using l f by linarith
  then have roomw: "unat (word_of_int (int (length t)) :: u32) = length t"
    by (simp add: unat_of_nat take_bit_nat_eq_self_iff)
  show ?thesis
  proof (cases "length (nb_bytes c) \<le> length t")
    case False
    then have "(word_of_int (int (length t)) :: u32) < nb_len c" using lenc roomw by (simp add: word_less_nat_alt)
    then show ?thesis using False by (simp add: NetBufConcat_def room)
  next
    case True
    let ?n = "length (nb_bytes c)"
    let ?b = "b\<lparr>nb_mem := h @ d @ nb_bytes c @ drop ?n t\<rparr>"
    have mem: "take (unat (nb_tail b)) (nb_mem b) = h @ d" "drop (unat (nb_tail b) + ?n) (nb_mem b) = drop ?n t"
      using l by (simp_all add: f(1) [symmetric])
    have wr: "write_mem (skb_tail_pointer k b) (nb_bytes c) b = Some ?b"
    proof -
      have "unat (nb_tail b) + ?n \<le> length (nb_mem b)" using True l f by simp
      then show ?thesis by (simp add: write_mem_def tail u Let_def mem)
    qed
    have "length (h @ d @ nb_bytes c @ drop ?n t) = length (nb_mem b)" using True l by simp
    then have ok: "nb_ok ?b" using b(1) by (simp add: nb_ok_def nb_offset_def del: length_append)
    have seg: "segments ?b = (h, d, nb_bytes c @ drop ?n t)"
      using l f(1) [unfolded nb_offset_def, symmetric] by (simp add: segments_def nb_bytes_def nb_offset_def)
    have "moves_to (nb_data ?b, Some (?b\<lparr>nb_tail := nb_tail ?b + nb_len c, nb_len := nb_len ?b + nb_len c\<rparr>)) (h, d @ nb_bytes c, drop ?n t)"
      using tail_grows [OF ok seg, of "nb_len c"] lenc by simp
    moreover have "NetBufConcat k (Some b) (Some c) = (Ok HDF_SUCCESS, Some (skb_put k ?b (nb_len c)), None)"
      using True roomw lenc k(2) wr by (simp add: NetBufConcat_def room word_less_nat_alt)
    ultimately show ?thesis using True put [of ?b "nb_len c"] paged by (auto simp: moves_to_def)
  qed
qed

definition skb_sample_ops :: skb_ops where
  "skb_sample_ops = \<lparr>skb_tail_pointer = (\<lambda>b. nb_head b + ucast (nb_tail b)), skb_headroom = (\<lambda>b. ucast (nb_data b - nb_head b)),
     skb_tailroom = (\<lambda>b. uint (nb_end b) - uint (nb_tail b)), skb_is_nonlinear = (\<lambda>_. False),
     skb_put = (\<lambda>b n. b\<lparr>nb_tail := nb_tail b + n, nb_len := nb_len b + n\<rparr>), memcpy_ok = True\<rparr>"

lemma net_buf_concat_witness:
  "\<exists>b. NetBufConcat skb_sample_ops (Some nb_sample) (Some nb_sample) = (Ok HDF_SUCCESS, Some b, None) \<and> segments b = ([0, 0], [1, 2, 3, 1, 2, 3], [])"
proof -
  have k: "skb_helpers skb_sample_ops" "memcpy_ok skb_sample_ops" by (simp_all add: skb_helpers_def skb_sample_ops_def)
  have "nb_bytes nb_sample = [1, 2, 3]" using nb_sample_ok(2) by (simp add: segments_def)
  then show ?thesis using net_buf_concat [OF k nb_sample_ok nb_sample_ok(1)] by auto
qed

end
