(* ===== verification/Regulator.thy ===== *)
theory Regulator
  imports Results
begin

section \<open>The regulator adapter\<close>

text \<open>
  \<open>platform/regulator/regulator_adapter.c\<close>: each regulator of the framework is a consumer of a regulator of the kernel. A node's
  private data hold the handle of \<open>regulator_get\<close>. The calls that go to the kernel are kept in a
  list; what the kernel and the configuration answer are parameters. \<open>None\<close> is a null pointer, \<open>Fault\<close> one that is followed.
\<close>

subsection \<open>Data\<close>

datatype reg_status = REGULATOR_STATUS_ON | REGULATOR_STATUS_OFF

text \<open>\<open>struct LinuxRegulatorInfo\<close>: \<open>ri_dev\<close> and \<open>ri_reg\<close> say whether the pointers are set.\<close>

record reg_info =
  ri_devName :: string
  ri_supply :: string
  ri_dev :: bool
  ri_reg :: bool

text \<open>A call to enable is kept when it worked, one to disable in any case.\<close>

datatype reg_call =
    K_get | K_put | K_enable | K_disable | K_force_disable
  | K_set_voltage u32 u32 | K_set_current u32 u32

record reg_node =
  rn_name :: string
  rn_mode :: u8
  rn_minUv :: u32
  rn_maxUv :: u32
  rn_minUa :: u32
  rn_maxUa :: u32
  rn_status :: reg_status
  rn_priv :: "reg_info option"
  rn_calls :: "reg_call list"

datatype get_answer = Handle | Error_pointer | Null_handle

record regulator_env =
  kdev_name :: "string option"
  get_answer :: get_answer
  enable_ret :: int
  disable_ret :: int
  force_ret :: int
  is_enabled :: int
  set_ret :: int
  get_value :: int

definition kcall :: "reg_call \<Rightarrow> reg_node \<Rightarrow> reg_node" where
  "kcall c n = n\<lparr>rn_calls := rn_calls n @ [c]\<rparr>"

definition set_reg :: "bool \<Rightarrow> reg_info \<Rightarrow> reg_node \<Rightarrow> reg_node" where
  "set_reg b i n = n\<lparr>rn_priv := Some (i\<lparr>ri_reg := b\<rparr>)\<rparr>"

subsection \<open>Operations\<close>

definition LinuxRegulatorOpen :: "regulator_env \<Rightarrow> reg_node option \<Rightarrow> hdf_status res \<times> reg_node option" where
  "LinuxRegulatorOpen env node = (case node of
     None \<Rightarrow> (Ok HDF_ERR_INVALID_OBJECT, None)
   | Some n \<Rightarrow>
       (case rn_priv n of
          None \<Rightarrow> (Ok HDF_ERR_INVALID_OBJECT, Some n)
        | Some i \<Rightarrow>
            if ri_reg i then (Ok HDF_SUCCESS, Some n)
            else if \<not> ri_dev i then (Fault, Some n)
            else if kdev_name env \<noteq> Some (ri_devName i) then (Ok HDF_FAILURE, Some n)
            else (case get_answer env of
                    Handle \<Rightarrow> (Ok HDF_SUCCESS, Some (set_reg True i (kcall K_get n)))
                  | _ \<Rightarrow> (Ok HDF_FAILURE, Some n))))"

definition LinuxRegulatorClose :: "regulator_env \<Rightarrow> reg_node option \<Rightarrow> hdf_status \<times> reg_node option" where
  "LinuxRegulatorClose env node = (case node of
     None \<Rightarrow> (HDF_ERR_INVALID_OBJECT, None)
   | Some n \<Rightarrow>
       (case rn_priv n of
          None \<Rightarrow> (HDF_ERR_INVALID_OBJECT, Some n)
        | Some i \<Rightarrow>
            if ri_reg i then (HDF_SUCCESS, Some (set_reg False i (kcall K_put (kcall K_disable n))))
            else (HDF_SUCCESS, Some n)))"

definition LinuxRegulatorRemove :: "regulator_env \<Rightarrow> reg_node option \<Rightarrow> hdf_status \<times> reg_node option" where
  "LinuxRegulatorRemove env node = (case node of
     None \<Rightarrow> (HDF_ERR_INVALID_OBJECT, None)
   | Some n \<Rightarrow>
       (case rn_priv n of
          None \<Rightarrow> (HDF_ERR_INVALID_OBJECT, Some n)
        | Some i \<Rightarrow> (HDF_SUCCESS, map_option (\<lambda>n. n\<lparr>rn_priv := None\<rparr>) (snd (LinuxRegulatorClose env node)))))"

text \<open>The guards of the operations that follow; those with \<open>check\<close> off do not look at the private data.\<close>

definition with_reg :: "bool \<Rightarrow> (reg_node \<Rightarrow> 'a \<times> reg_node) \<Rightarrow> (hdf_status \<Rightarrow> 'a) \<Rightarrow> reg_node option \<Rightarrow> 'a res \<times> reg_node option" where
  "with_reg check body err node = (case node of
     None \<Rightarrow> (Ok (err HDF_ERR_INVALID_OBJECT), None)
   | Some n \<Rightarrow>
       (case rn_priv n of
          None \<Rightarrow> (if check then Ok (err HDF_ERR_INVALID_OBJECT) else Fault, Some n)
        | Some i \<Rightarrow>
            if \<not> ri_reg i then (Ok (err HDF_ERR_INVALID_OBJECT), Some n)
            else (case body n of (r, n) \<Rightarrow> (Ok r, Some n))))"

definition status_of :: "regulator_env \<Rightarrow> reg_status" where
  "status_of env = (if is_enabled env > 0 then REGULATOR_STATUS_ON else REGULATOR_STATUS_OFF)"

definition LinuxRegulatorEnable :: "regulator_env \<Rightarrow> reg_node option \<Rightarrow> hdf_status res \<times> reg_node option" where
  "LinuxRegulatorEnable env = with_reg True (\<lambda>n.
     if enable_ret env \<noteq> 0 then (HDF_FAILURE, n)
     else (HDF_SUCCESS, (kcall K_enable n)\<lparr>rn_status := status_of env\<rparr>)) id"

definition LinuxRegulatorDisable :: "regulator_env \<Rightarrow> reg_node option \<Rightarrow> hdf_status res \<times> reg_node option" where
  "LinuxRegulatorDisable env = with_reg True (\<lambda>n.
     if disable_ret env \<noteq> 0 then (HDF_FAILURE, kcall K_disable n)
     else (HDF_SUCCESS, (kcall K_disable n)\<lparr>rn_status := status_of env\<rparr>)) id"

definition LinuxRegulatorForceDisable :: "regulator_env \<Rightarrow> reg_node option \<Rightarrow> hdf_status res \<times> reg_node option" where
  "LinuxRegulatorForceDisable env = with_reg True (\<lambda>n.
     if force_ret env \<noteq> 0 then (HDF_FAILURE, kcall K_force_disable n)
     else (HDF_SUCCESS, (kcall K_force_disable n)\<lparr>rn_status := REGULATOR_STATUS_OFF\<rparr>)) id"

definition LinuxRegulatorSetVoltage :: "regulator_env \<Rightarrow> u32 \<Rightarrow> u32 \<Rightarrow> reg_node option \<Rightarrow> hdf_status res \<times> reg_node option" where
  "LinuxRegulatorSetVoltage env minUv maxUv = with_reg True (\<lambda>n.
     (if set_ret env \<noteq> 0 then HDF_FAILURE else HDF_SUCCESS, kcall (K_set_voltage minUv maxUv) n)) id"

text \<open>What is read is returned beside the status; the pointer to it may be null.\<close>

definition LinuxRegulatorGetVoltage :: "regulator_env \<Rightarrow> bool \<Rightarrow> reg_node option \<Rightarrow> (hdf_status \<times> u32 option) res \<times> reg_node option" where
  "LinuxRegulatorGetVoltage env voltage node =
     (if \<not> voltage then (Ok (HDF_ERR_INVALID_OBJECT, None), node)
      else with_reg True (\<lambda>n.
        (if get_value env < 0 then (HDF_FAILURE, None) else (HDF_SUCCESS, Some (word_of_int (get_value env))), n)) (\<lambda>r. (r, None)) node)"

definition LinuxRegulatorSetCurrent :: "regulator_env \<Rightarrow> u32 \<Rightarrow> u32 \<Rightarrow> reg_node option \<Rightarrow> hdf_status res \<times> reg_node option" where
  "LinuxRegulatorSetCurrent env minUa maxUa = with_reg False (\<lambda>n.
     (if set_ret env \<noteq> 0 then HDF_FAILURE else HDF_SUCCESS, kcall (K_set_current minUa maxUa) n)) id"

definition LinuxRegulatorGetCurrent :: "regulator_env \<Rightarrow> bool \<Rightarrow> reg_node option \<Rightarrow> (hdf_status \<times> u32 option) res \<times> reg_node option" where
  "LinuxRegulatorGetCurrent env regCurrent node =
     (if \<not> regCurrent then (Ok (HDF_ERR_INVALID_OBJECT, None), node)
      else with_reg False (\<lambda>n.
        (if get_value env < 0 then (HDF_FAILURE, None) else (HDF_SUCCESS, Some (word_of_int (get_value env))), n)) (\<lambda>r. (r, None)) node)"

definition LinuxRegulatorGetStatus :: "regulator_env \<Rightarrow> bool \<Rightarrow> reg_node option \<Rightarrow> (hdf_status \<times> reg_status option) res \<times> reg_node option" where
  "LinuxRegulatorGetStatus env status node =
     (if \<not> status then (Ok (HDF_ERR_INVALID_OBJECT, None), node)
      else with_reg False (\<lambda>n. ((HDF_SUCCESS, Some (status_of env)), n)) (\<lambda>r. (r, None)) node)"

subsection \<open>The driver\<close>

text \<open>The configuration of one regulator: an entry that cannot be read is \<open>None\<close>.\<close>

record reg_config =
  c_name :: "string option"
  c_mode :: "u8 option"
  c_minUv :: "u32 option"
  c_maxUv :: "u32 option"
  c_minUa :: "u32 option"
  c_maxUa :: "u32 option"
  c_devName :: "string option"
  c_supplyName :: "string option"

text \<open>
  \<open>g_consumer\<close>: whether \<open>g_consumer_dev\<close> is set; \<open>reg_nodes\<close>: the nodes given to the framework; \<open>reg_allocs\<close>: the blocks that are
  allocated. \<open>add_ret\<close> is what the framework answers to a node, \<open>remove_node\<close> what it does to remove one.
\<close>

record reg_driver =
  g_consumer :: bool
  reg_nodes :: "reg_node list"
  reg_allocs :: int

record reg_frame =
  drs_ok :: bool
  node_alloc_ok :: bool
  info_alloc_ok :: bool
  add_ret :: "string \<Rightarrow> hdf_status"
  remove_node :: "string \<Rightarrow> reg_node list \<Rightarrow> hdf_status \<times> reg_node list"

definition LinuxRegulatorSetConsumerDev :: "bool \<Rightarrow> reg_driver \<Rightarrow> hdf_status \<times> reg_driver" where
  "LinuxRegulatorSetConsumerDev dev s = (if \<not> dev then (HDF_ERR_INVALID_OBJECT, s) else (HDF_SUCCESS, s\<lparr>g_consumer := True\<rparr>))"

definition LinuxRegulatorReadHcs :: "reg_frame \<Rightarrow> reg_config \<Rightarrow> reg_node \<Rightarrow> hdf_status \<times> reg_node" where
  "LinuxRegulatorReadHcs fr c n =
     (if \<not> drs_ok fr then (HDF_FAILURE, n)
      else case (c_name c, c_mode c, c_minUv c, c_maxUv c, c_minUa c, c_maxUa c) of
        (Some nm, Some mode, Some minUv, Some maxUv, Some minUa, Some maxUa) \<Rightarrow>
          (HDF_SUCCESS, n\<lparr>rn_name := nm, rn_mode := mode, rn_minUv := minUv, rn_maxUv := maxUv, rn_minUa := minUa, rn_maxUa := maxUa,
             rn_status := REGULATOR_STATUS_OFF\<rparr>)
      | _ \<Rightarrow> (HDF_FAILURE, n))"

definition LinuxRegulatorReadAdapterHcs :: "reg_frame \<Rightarrow> reg_driver \<Rightarrow> reg_config \<Rightarrow> reg_info \<Rightarrow> hdf_status \<times> reg_info" where
  "LinuxRegulatorReadAdapterHcs fr s c i =
     (if \<not> drs_ok fr then (HDF_FAILURE, i)
      else case (c_devName c, c_supplyName c) of
        (Some dn, Some sn) \<Rightarrow> (HDF_SUCCESS, i\<lparr>ri_devName := dn, ri_supply := sn, ri_dev := g_consumer s\<rparr>)
      | _ \<Rightarrow> (HDF_FAILURE, i))"

text \<open>Fresh objects, zeroed.\<close>

definition node_new :: reg_node where
  "node_new = \<lparr>rn_name = [], rn_mode = 0, rn_minUv = 0, rn_maxUv = 0, rn_minUa = 0, rn_maxUa = 0, rn_status = REGULATOR_STATUS_OFF,
     rn_priv = None, rn_calls = []\<rparr>"

definition info_new :: reg_info where
  "info_new = \<lparr>ri_devName = [], ri_supply = [], ri_dev = False, ri_reg = False\<rparr>"

definition LinuxRegulatorParseAndInit :: "reg_frame \<Rightarrow> reg_config \<Rightarrow> reg_driver \<Rightarrow> hdf_status \<times> reg_driver" where
  "LinuxRegulatorParseAndInit fr c s =
     (if \<not> node_alloc_ok fr then (HDF_ERR_MALLOC_FAIL, s)
      else let s = s\<lparr>reg_allocs := reg_allocs s + 1\<rparr>
        in if \<not> info_alloc_ok fr then (HDF_ERR_MALLOC_FAIL, s\<lparr>reg_allocs := reg_allocs s - 1\<rparr>)
           else let s = s\<lparr>reg_allocs := reg_allocs s + 1\<rparr>; failed = (HDF_FAILURE, s\<lparr>reg_allocs := reg_allocs s - 2\<rparr>);
                    (ret, regNode) = LinuxRegulatorReadHcs fr c node_new
             in if ret \<noteq> HDF_SUCCESS then failed
                else let (ret, i) = LinuxRegulatorReadAdapterHcs fr s c info_new
                  in if ret \<noteq> HDF_SUCCESS then failed
                     else let regNode = regNode\<lparr>rn_priv := Some i\<rparr>
                       in if add_ret fr (rn_name regNode) \<noteq> HDF_SUCCESS then failed
                          else (HDF_SUCCESS, s\<lparr>reg_nodes := reg_nodes s @ [regNode]\<rparr>))"

text \<open>
  The loop over the children. Without a child the result was never set: \<open>None\<close>. The device may have no
  property; \<open>consumer\<close> is whether the kernel probed the platform device before.
\<close>

fun init_loop :: "reg_frame \<Rightarrow> reg_config list \<Rightarrow> hdf_status option \<Rightarrow> reg_driver \<Rightarrow> hdf_status option \<times> reg_driver" where
  "init_loop fr [] ret s = (ret, s)"
| "init_loop fr (c # cs) ret s =
     (let (ret, s) = LinuxRegulatorParseAndInit fr c s
      in if ret \<noteq> HDF_SUCCESS then (Some HDF_FAILURE, s) else init_loop fr cs (Some ret) s)"

definition LinuxRegulatorInit :: "reg_frame \<Rightarrow> bool \<Rightarrow> reg_config list option \<Rightarrow> reg_driver \<Rightarrow> hdf_status option \<times> reg_driver" where
  "LinuxRegulatorInit fr consumer device s =
     (let s = (if consumer then snd (LinuxRegulatorSetConsumerDev True s) else s)
      in case device of None \<Rightarrow> (Some HDF_ERR_INVALID_OBJECT, s) | Some cs \<Rightarrow> init_loop fr cs None s)"

definition LinuxRegulatorParseAndRelease :: "reg_frame \<Rightarrow> reg_config \<Rightarrow> reg_driver \<Rightarrow> hdf_status \<times> reg_driver" where
  "LinuxRegulatorParseAndRelease fr c s =
     (if \<not> drs_ok fr then (HDF_FAILURE, s)
      else case c_name c of
        None \<Rightarrow> (HDF_FAILURE, s)
      | Some nm \<Rightarrow>
          let (ret, ns) = remove_node fr nm (reg_nodes s); s = s\<lparr>reg_nodes := ns\<rparr>
          in (if ret \<noteq> HDF_SUCCESS then HDF_FAILURE else HDF_SUCCESS, s))"

definition LinuxRegulatorRelease :: "reg_frame \<Rightarrow> reg_config list option \<Rightarrow> reg_driver \<Rightarrow> reg_driver" where
  "LinuxRegulatorRelease fr device s = (case device of
     None \<Rightarrow> s
   | Some cs \<Rightarrow> fold (\<lambda>c s. snd (LinuxRegulatorParseAndRelease fr c s)) cs s)"

definition LinuxRegulatorBind :: hdf_status where
  "LinuxRegulatorBind = HDF_SUCCESS"

text \<open>\<open>regulator_adapter_consumer.c\<close>: the probe of the platform device; device and driver are registered with the kernel.\<close>

definition RegulatorAdapterConsumerPlatformProbe :: "bool \<Rightarrow> reg_driver \<Rightarrow> hdf_status \<times> reg_driver" where
  "RegulatorAdapterConsumerPlatformProbe dev s =
     (if dev then (HDF_SUCCESS, snd (LinuxRegulatorSetConsumerDev True s)) else (HDF_FAILURE, s))"

definition RegulatorAdapterConsumerPlatformRemove :: "bool \<Rightarrow> hdf_status" where
  "RegulatorAdapterConsumerPlatformRemove dev = (if dev then HDF_SUCCESS else HDF_FAILURE)"

definition RegulatorAdapterConsumerInit :: "int \<Rightarrow> int \<Rightarrow> int" where
  "RegulatorAdapterConsumerInit device_ret driver_ret = (if device_ret \<noteq> 0 then device_ret else driver_ret)"

subsection \<open>Sequences of operations\<close>

datatype reg_op =
    R_open | R_close | R_remove | R_enable | R_disable | R_force_disable
  | R_set_voltage u32 u32 | R_get_voltage | R_set_current u32 u32 | R_get_current | R_get_status

definition reg_do :: "regulator_env \<Rightarrow> reg_op \<Rightarrow> reg_node option \<Rightarrow> unit res \<times> reg_node option" where
  "reg_do env oper node =
     (let drop_result = (\<lambda>(r, n). (bindR r (\<lambda>_. Ok ()), n))
      in case oper of
           R_open \<Rightarrow> drop_result (LinuxRegulatorOpen env node)
         | R_close \<Rightarrow> (Ok (), snd (LinuxRegulatorClose env node))
         | R_remove \<Rightarrow> (Ok (), snd (LinuxRegulatorRemove env node))
         | R_enable \<Rightarrow> drop_result (LinuxRegulatorEnable env node)
         | R_disable \<Rightarrow> drop_result (LinuxRegulatorDisable env node)
         | R_force_disable \<Rightarrow> drop_result (LinuxRegulatorForceDisable env node)
         | R_set_voltage a b \<Rightarrow> drop_result (LinuxRegulatorSetVoltage env a b node)
         | R_get_voltage \<Rightarrow> (case LinuxRegulatorGetVoltage env True node of (r, n) \<Rightarrow> (bindR r (\<lambda>_. Ok ()), n))
         | R_set_current a b \<Rightarrow> drop_result (LinuxRegulatorSetCurrent env a b node)
         | R_get_current \<Rightarrow> (case LinuxRegulatorGetCurrent env True node of (r, n) \<Rightarrow> (bindR r (\<lambda>_. Ok ()), n))
         | R_get_status \<Rightarrow> (case LinuxRegulatorGetStatus env True node of (r, n) \<Rightarrow> (bindR r (\<lambda>_. Ok ()), n)))"

fun reg_run :: "(regulator_env \<times> reg_op) list \<Rightarrow> reg_node option \<Rightarrow> unit res \<times> reg_node option" where
  "reg_run [] node = (Ok (), node)"
| "reg_run ((env, oper) # ops) node = bindS (reg_do env oper node) (\<lambda>_ node. reg_run ops node)"

subsection \<open>Handles\<close>

text \<open>Whether a handle is held after calls that only use one while it is held; \<open>None\<close> after a use without.\<close>

fun held :: "bool \<Rightarrow> reg_call list \<Rightarrow> bool option" where
  "held b [] = Some b"
| "held b (K_get # cs) = (if b then None else held True cs)"
| "held b (K_put # cs) = (if b then held False cs else None)"
| "held b (c # cs) = (if b then held b cs else None)"

lemma held_append: "held b (cs @ ds) = (case held b cs of None \<Rightarrow> None | Some b \<Rightarrow> held b ds)"
  by (induction b cs rule: held.induct) auto

definition has_handle :: "reg_node \<Rightarrow> bool" where
  "has_handle n \<longleftrightarrow> (case rn_priv n of None \<Rightarrow> False | Some i \<Rightarrow> ri_reg i)"

definition node_ok :: "reg_node \<Rightarrow> bool" where
  "node_ok n \<longleftrightarrow> held False (rn_calls n) = Some (has_handle n) \<and> (case rn_priv n of None \<Rightarrow> True | Some i \<Rightarrow> ri_dev i)"

lemmas reg_defs = LinuxRegulatorOpen_def LinuxRegulatorClose_def LinuxRegulatorRemove_def LinuxRegulatorEnable_def LinuxRegulatorDisable_def
  LinuxRegulatorForceDisable_def LinuxRegulatorSetVoltage_def LinuxRegulatorGetVoltage_def LinuxRegulatorSetCurrent_def
  LinuxRegulatorGetCurrent_def LinuxRegulatorGetStatus_def with_reg_def kcall_def set_reg_def

lemma reg_do_ok:
  assumes "node_ok n"
  shows "\<exists>r n'. reg_do env oper (Some n) = (r, Some n') \<and> node_ok n' \<and> (rn_priv n \<noteq> None \<longrightarrow> r = Ok () \<and> (oper \<noteq> R_remove \<longrightarrow> rn_priv n' \<noteq> None))
    \<and> (oper = R_remove \<longrightarrow> rn_priv n' = None)"
  using assms
  by (cases oper; cases "rn_priv n"; cases "get_answer env")
    (auto simp: reg_do_def reg_defs node_ok_def has_handle_def held_append split: if_splits)

lemma reg_run_ok:
  "node_ok n \<Longrightarrow> rn_priv n \<noteq> None \<Longrightarrow> R_remove \<notin> snd ` set ops \<Longrightarrow> \<exists>n'. reg_run ops (Some n) = (Ok (), Some n') \<and> node_ok n' \<and> rn_priv n' \<noteq> None"
proof (induction ops arbitrary: n)
  case (Cons op ops)
  obtain env oper where op: "op = (env, oper)" by (cases op)
  obtain n' where "reg_do env oper (Some n) = (Ok (), Some n')" "node_ok n'" "rn_priv n' \<noteq> None"
    using reg_do_ok [OF Cons.prems(1), of env oper] Cons.prems(2,3) op by auto
  then show ?case using Cons.IH [of n'] Cons.prems(3) op by auto
qed simp

lemma reg_run_append: "reg_run (xs @ ys) node = bindS (reg_run xs node) (\<lambda>_. reg_run ys)"
proof (induction xs arbitrary: node)
  case (Cons x xs)
  then show ?case by (cases x; cases "reg_do (fst x) (snd x) node"; cases "fst (reg_do (fst x) (snd x) node)") auto
qed simp


text \<open>A node as it is registered.\<close>

definition reg_sample :: reg_node where
  "reg_sample = node_new\<lparr>rn_name := ''vdd'', rn_priv := Some \<lparr>ri_devName = ''dev'', ri_supply = ''core'', ri_dev = True, ri_reg = False\<rparr>\<rparr>"

definition regulator_sample_env :: regulator_env where
  "regulator_sample_env = \<lparr>kdev_name = Some ''dev'', get_answer = Handle, enable_ret = 0, disable_ret = 0, force_ret = 0, is_enabled = 1, set_ret = 0, get_value = 900\<rparr>"

definition calls_of :: "reg_op list \<Rightarrow> reg_call list" where
  "calls_of ops = (case snd (reg_run (map (\<lambda>x. (regulator_sample_env, x)) ops) (Some reg_sample)) of None \<Rightarrow> [] | Some n \<Rightarrow> rn_calls n)"


text \<open>
  Closing a regulator whose handle is held always disables it before the handle is given back, whatever calls came
  before: the kernel counts, so one that was only opened takes away what another consumer enabled, and one that
  was enabled and disabled is disabled once too often. After a removal the calls on the voltage and on enabling are
  refused, but those on current and status follow the null pointer to the private data.
\<close>
theorem regulator_close_disables:
  assumes n: "node_ok n" "rn_priv n \<noteq> None" and ops: "R_remove \<notin> snd ` set ops"
  shows "\<exists>n1 n2. reg_run ops (Some n) = (Ok (), Some n1) \<and> reg_run (ops @ [(env, R_close)]) (Some n) = (Ok (), Some n2)
    \<and> rn_calls n2 = rn_calls n1 @ (if has_handle n1 then [K_disable, K_put] else [])
    \<and> fst (reg_run (ops @ [(env, R_remove), (env', oper)]) (Some n)) =
      (case oper of R_set_current _ _ \<Rightarrow> Fault | R_get_current \<Rightarrow> Fault | R_get_status \<Rightarrow> Fault | _ \<Rightarrow> Ok ())"
proof -
  obtain n1 where run: "reg_run ops (Some n) = (Ok (), Some n1)" and n1: "node_ok n1" "rn_priv n1 \<noteq> None"
    using reg_run_ok [OF n ops] by auto
  obtain n2 where n2: "reg_do env R_close (Some n1) = (Ok (), Some n2)"
    "rn_calls n2 = rn_calls n1 @ (if has_handle n1 then [K_disable, K_put] else [])"
    using n1(2) by (cases "has_handle n1") (auto simp: reg_do_def reg_defs has_handle_def split: option.splits)
  obtain n3 where n3: "reg_do env R_remove (Some n1) = (Ok (), Some n3)" "rn_priv n3 = None"
    using reg_do_ok [OF n1(1), of env R_remove] n1(2) by auto
  have "fst (reg_do env' oper (Some n3)) =
      (case oper of R_set_current _ _ \<Rightarrow> Fault | R_get_current \<Rightarrow> Fault | R_get_status \<Rightarrow> Fault | _ \<Rightarrow> Ok ())"
    using n3(2) by (cases oper) (simp_all add: reg_do_def reg_defs)
  moreover have "fst (bindS (reg_do env' oper (Some n3)) (\<lambda>_. reg_run [])) = fst (reg_do env' oper (Some n3))"
    by (cases "reg_do env' oper (Some n3)"; cases "fst (reg_do env' oper (Some n3))") auto
  ultimately show ?thesis using run n2 n3(1) by (auto simp: reg_run_append)
qed

lemma regulator_close_disables_witness:
  "calls_of [R_open, R_close] = [K_get, K_disable, K_put]
    \<and> fst (reg_run [(regulator_sample_env, R_open), (regulator_sample_env, R_remove), (regulator_sample_env, R_get_current)] (Some reg_sample)) = Fault"
proof -
  have n: "node_ok reg_sample" "rn_priv reg_sample \<noteq> None" by (simp_all add: node_ok_def has_handle_def reg_sample_def node_new_def)
  have o: "\<exists>n1. reg_run [(regulator_sample_env, R_open)] (Some reg_sample) = (Ok (), Some n1) \<and> rn_calls n1 = [K_get] \<and> has_handle n1"
    by (simp add: reg_do_def reg_defs reg_sample_def regulator_sample_env_def node_new_def has_handle_def)
  show ?thesis
    using regulator_close_disables [OF n, of "[(regulator_sample_env, R_open)]" regulator_sample_env regulator_sample_env R_get_current] o
    by (auto simp: calls_of_def)
qed

subsection \<open>The driver\<close>

text \<open>A complete configuration, and the node that is made of it.\<close>

definition config_complete :: "reg_config \<Rightarrow> bool" where
  "config_complete c \<longleftrightarrow> c_name c \<noteq> None \<and> c_mode c \<noteq> None \<and> c_minUv c \<noteq> None \<and> c_maxUv c \<noteq> None \<and> c_minUa c \<noteq> None
     \<and> c_maxUa c \<noteq> None \<and> c_devName c \<noteq> None \<and> c_supplyName c \<noteq> None"

definition node_of :: "bool \<Rightarrow> reg_config \<Rightarrow> reg_node" where
  "node_of dev c = \<lparr>rn_name = the (c_name c), rn_mode = the (c_mode c), rn_minUv = the (c_minUv c), rn_maxUv = the (c_maxUv c),
     rn_minUa = the (c_minUa c), rn_maxUa = the (c_maxUa c), rn_status = REGULATOR_STATUS_OFF,
     rn_priv = Some \<lparr>ri_devName = the (c_devName c), ri_supply = the (c_supplyName c), ri_dev = dev, ri_reg = False\<rparr>, rn_calls = []\<rparr>"

definition child_works :: "reg_frame \<Rightarrow> reg_config \<Rightarrow> bool" where
  "child_works fr c \<longleftrightarrow> node_alloc_ok fr \<and> info_alloc_ok fr \<and> drs_ok fr \<and> config_complete c \<and> add_ret fr (the (c_name c)) = HDF_SUCCESS"

lemma parse_child:
  "LinuxRegulatorParseAndInit fr c s =
     (if child_works fr c then (HDF_SUCCESS, s\<lparr>reg_nodes := reg_nodes s @ [node_of (g_consumer s) c], reg_allocs := reg_allocs s + 2\<rparr>)
      else (if node_alloc_ok fr \<and> info_alloc_ok fr then HDF_FAILURE else HDF_ERR_MALLOC_FAIL, s))"
proof (cases "node_alloc_ok fr \<and> info_alloc_ok fr \<and> drs_ok fr")
  case False
  then show ?thesis
    by (auto simp: LinuxRegulatorParseAndInit_def child_works_def LinuxRegulatorReadHcs_def Let_def)
next
  case True
  have hcs: "LinuxRegulatorReadHcs fr c node_new = (if c_name c \<noteq> None \<and> c_mode c \<noteq> None \<and> c_minUv c \<noteq> None \<and> c_maxUv c \<noteq> None
      \<and> c_minUa c \<noteq> None \<and> c_maxUa c \<noteq> None then (HDF_SUCCESS, (node_of False c)\<lparr>rn_priv := None\<rparr>) else (HDF_FAILURE, node_new))"
    using True by (auto simp: LinuxRegulatorReadHcs_def node_of_def node_new_def split: option.split)
  have ada: "LinuxRegulatorReadAdapterHcs fr t c info_new = (if c_devName c \<noteq> None \<and> c_supplyName c \<noteq> None
      then (HDF_SUCCESS, \<lparr>ri_devName = the (c_devName c), ri_supply = the (c_supplyName c), ri_dev = g_consumer t, ri_reg = False\<rparr>) else (HDF_FAILURE, info_new))" for t
    using True by (auto simp: LinuxRegulatorReadAdapterHcs_def info_new_def split: option.split)
  show ?thesis using True
    by (auto simp: LinuxRegulatorParseAndInit_def child_works_def config_complete_def hcs ada node_of_def Let_def)
qed

lemma init_loop_eq:
  "init_loop fr cs ret s =
     (let works = takeWhile (child_works fr) cs
      in (if works \<noteq> cs then Some HDF_FAILURE else if cs = [] then ret else Some HDF_SUCCESS,
          s\<lparr>reg_nodes := reg_nodes s @ map (node_of (g_consumer s)) works, reg_allocs := reg_allocs s + 2 * int (length works)\<rparr>))"
  by (induction cs arbitrary: ret s) (auto simp: parse_child Let_def simp del: takeWhile_eq_all_conv)

text \<open>
  Starting the driver registers one node for each child of the configuration, in its order and with its values, switched off and without a
  handle, if all can be read and registered. At the first that cannot, a failure is returned, nothing of that child is left, but the ones before
  stay registered. Without children the result is not initialised.
\<close>
theorem regulator_init_registers:
  "\<exists>works. LinuxRegulatorInit fr consumer (Some cs) s =
      (if cs = [] then None else if works = cs then Some HDF_SUCCESS else Some HDF_FAILURE,
       s\<lparr>g_consumer := (consumer \<or> g_consumer s), reg_nodes := reg_nodes s @ map (node_of (consumer \<or> g_consumer s)) works,
         reg_allocs := reg_allocs s + 2 * int (length works)\<rparr>)
    \<and> works = takeWhile (child_works fr) cs"
proof -
  let ?t = "if consumer then s\<lparr>g_consumer := True\<rparr> else s"
  have t: "?t = s\<lparr>g_consumer := (consumer \<or> g_consumer s)\<rparr>" by (cases s) simp
  show ?thesis
    by (rule exI [of _ "takeWhile (child_works fr) cs"])
      (auto simp: LinuxRegulatorInit_def LinuxRegulatorSetConsumerDev_def init_loop_eq Let_def t)
qed

end
