(* ===== verification/Spec2Isabelle.thy ===== *)
theory Spec2Isabelle
  imports Mipi_Tx_Properties Kevent_Properties Ffs_Properties Ffs_Epfile_Properties Ffs_Registry_Properties Pnp_Properties Wlan_Queue
    Uart_Properties Net_Buf Regulator
begin

text \<open>
  Verification of the OpenHarmony KHDF Linux driver adapter (\<open>drivers_adapter_khdf_linux\<close>).

  \<^bold>\<open>The program.\<close> The repository adapts the Hardware Driver Foundation of OpenHarmony to the Linux
  kernel. Many of its files only forward calls between the two. The parts that keep state and make
  decisions of their own are modelled here:

  \<^item> the controller driver of the MIPI display interface (\<open>platform/mipi_dsi/mipi_tx_hi35xx.c\<close>), which
    computes and programs PHY timings and PLL settings and moves command packets through hardware FIFOs;
  \<^item> the event notification to user space (\<open>manager/src/hdf_kevent.c\<close>) with the power notifier of the
    device manager (\<open>manager/src/devmgr_pm_reg.c\<close>), in which senders block until acknowledgements have come;
  \<^item> the generic USB function (\<open>model/usb/device/f_generic.c\<close>): user space creates a function on an instance,
    writes descriptors and strings to endpoint zero, the function is bound to a gadget, which rewrites the
    descriptors, control requests and events travel between the gadget and user space, and the files of the
    endpoints move data between mapped buffers and the controller;
  \<^item> the notifier of USB devices that come and go on a host (\<open>model/usb/host/src/usb_pnp_notify.c\<close>);
  \<^item> the message queue of the wireless driver (\<open>model/network/wifi/platform/src/hdf_wlan_queue.c\<close>) and the
    network buffers (\<open>network/src/netbuf_adapter.c\<close>);
  \<^item> the adapters of the serial port (\<open>platform/uart/uart_adapter.c\<close>) and of the regulators
    (\<open>platform/regulator\<close>).

  The parts do not call each other; the USB function's own components do, and the later theories compose
  them: what the parser accepted is what the binding works on (\<open>Ffs_Bind_Accept\<close>), the hooks of the
  gadget run interleaved with the calls on endpoint zero (\<open>Ffs_Hooks\<close>), and the endpoints that an alternate
  setting connects are those that the endpoint files reach (\<open>Ffs_Epfile_Properties\<close>).

  \<^bold>\<open>Conventions.\<close> \<open>Prelude\<close> has the integer types, the status codes and generic lemmas; \<open>Results\<close> has the
  results of fallible functions and how they are composed. Machine integers are words of their width. The
  MIPI and kevent theories pass state with the library's state monad; the others pass it as a pair of a
  result and the state, where a result is \<open>Ok\<close> with a value, \<open>Err\<close> with an error number, or \<open>Fault\<close>: an
  access out of bounds, a null or dangling pointer, a lock taken twice, a \<open>BUG_ON\<close>. A theorem that excludes
  \<open>Fault\<close> is a theorem of memory and lock safety of the code as modelled. What the kernel, the gadget, the
  hardware and user memory answer are parameters, gathered in records (\<open>ep0_env\<close>, \<open>bind_env\<close> and the
  like); theorems quantify over them, with hypotheses only where the code relies on them (an allocator that
  refuses absurd sizes, \<open>memcpy_s\<close> on sufficient buffers).

  \<^bold>\<open>Safety and what it takes.\<close> Some code is safe only when its callers do what it does not check. The invariants
  of such parts then speak of restricted runs, with the restriction as a predicate of its own that the text
  of the theorem spells out: messages that are safe to bind (\<open>may_bind\<close>, \<open>complete_speeds\<close>), calls on an
  endpoint file (\<open>ep_call_ok\<close>), freeing and deleting in the registry (\<open>may_free\<close>, \<open>may_delete\<close>), devices
  that are still there when the notifier looks at them (\<open>slot_ok\<close>). What happens outside of these is
  stated by theorems on errors next to them.

  \<^bold>\<open>MIPI.\<close> \<open>Mipi_Tx_Bus\<close> (registers and the trace of accesses), \<open>Mipi_Tx_Phy\<close> (timing parameters and PLL,
  in the driver's word arithmetic), \<open>Mipi_Tx_Ctrl\<close> (register writes of a configuration, stream control),
  \<open>Mipi_Tx_Cmd\<close> (command packets, FIFO waits, read answers; the polling loops have the driver's own bounds),
  \<open>Mipi_Tx\<close> (the method table, loading, unloading, the calls of the core as a step relation). Lemmas: which
  registers an operation writes and in which order, exactness of the arithmetic in the rates where nothing
  wraps, bytes sent and received, invariants over all sequences of calls. The parameters are cut to the
  field widths of \<open>mipi_tx_reg.h\<close>.

  \<^bold>\<open>Events to user space.\<close> \<open>Kevent\<close> models every function of the two files. What the code does outside of its
  mutexes is a step of its own: a sender tests the client count and prepares its event (\<open>SendKevent_begin\<close>),
  sends under the locks (\<open>SendKevent_locked\<close>), waits (\<open>wait_for_completion_timeout\<close>) and takes its wait off
  the list (\<open>SendKevent_end\<close>); opening publishes the client before it is listed, closing reads it before it
  is removed. Other senders, acknowledgements, opens and closes come in between, with one close of every
  client after its open. The invariant says which waits are allocated, listed and owned.

  \<^bold>\<open>USB function.\<close>
  \<^item> \<open>Ffs_Types\<close>: the function's data (\<open>struct ffs_data\<close> of \<open>u_generic.h\<close>), byte access, and the kernel's
    byte queue, which may be zeroed (never allocated or freed), failed to allocate, or hold bytes.
  \<^item> \<open>Ffs_Desc\<close>: the parser of the descriptors message (\<open>__ffs_data_got_descs\<close>, \<open>ffs_do_descs\<close>,
    \<open>ffs_do_single_desc\<close>, OS descriptors), with a reference parser and what an accepted message means.
  \<^item> \<open>Ffs_Strings\<close>: the parser of the strings message, with the exact set of accepted messages.
  \<^item> \<open>Ffs_Event\<close>: the queue of events; the locale \<open>purging_queue\<close> states what its users rely on, and
    \<open>event_queue\<close> is its interpretation on the code's rules.
  \<^item> \<open>Ffs_Ep0\<close>, \<open>Ffs_Ep0_Inv\<close>: the calls on endpoint zero (write, read, ioctl, poll, mmap) and the invariant
    that each keeps; events that arrive while a call sleeps or copies are lists in its environment.
  \<^item> \<open>Ffs_Life\<close>: allocation, reference counting, clearing and resetting of the data.
  \<^item> \<open>Ffs_Bind\<close>: binding (\<open>functionfs_bind\<close>, \<open>_ffs_func_bind\<close> with its passes over the copy of the descriptors
    and the numbers of class-specific descriptors). The walk uses positions in the copy, because the
    callbacks write through their pointers. Lemmas in \<open>Ffs_Bind_Walk\<close> (the locale \<open>desc_pass\<close>: what a callback
    promises for one descriptor, and what a whole pass then does; interpreted for both callbacks),
    \<open>Ffs_Bind_Eps\<close>, \<open>Ffs_Bind_Cdc\<close>, \<open>Ffs_Bind_Whole\<close>, \<open>Ffs_Bind_Accept\<close>.
  \<^item> \<open>Ffs_Func\<close>, \<open>Ffs_Hooks\<close>: the hooks of the gadget on a bound function, the predicates \<open>attached\<close> and
    \<open>detached\<close>, and the relation of all hooks and endpoint zero calls that keeps them.
  \<^item> \<open>Ffs_Epfile\<close>, \<open>Ffs_Epfile_Inv\<close>: the files of the endpoints: mapping, synchronous and asynchronous transfers,
    completions and what is read back of them, and the control calls, with the locks in the state.
  \<^item> \<open>Ffs_Registry\<close>, \<open>Ffs_Registry_Inv\<close>: devices, instances and functions as objects with links between them;
    each change of a link is a lemma on maps, the operations are compositions of these.

  \<^bold>\<open>USB notifier.\<close> \<open>Pnp\<close>, \<open>Pnp_Inv\<close>: the list of known devices and the one slot in which the callback of the kernel,
  the calls of clients and the report thread meet; each of these is one step. Safety in all reachable states,
  and the reports for devices and interfaces that come and go one at a time.

  \<^bold>\<open>Queue, buffers, serial port, regulators.\<close> \<open>Wlan_Queue\<close>: the ring of 16-bit indices refines a bounded list; the
  contract is the locale \<open>bounded_fifo\<close>, interpreted on the code as \<open>wlan\<close>. \<open>Net_Buf\<close>: the borders of the three
  segments. \<open>Uart\<close>, \<open>Uart_Properties\<close>: reading, and what setting and getting attributes and rates do to the
  terminal's flags. \<open>Regulator\<close>: the handle of the kernel's regulator in any sequence of calls.

  The theorems about a part are in the theory whose name ends in \<open>_Properties\<close>, or at the end of a part that
  is one theory; one with hypotheses has a witness: an evaluation on concrete data that shows that they can hold.

  \<^bold>\<open>Bounds.\<close> No definition uses fuel that could run out: every loop of the code that is modelled recurses on
  a count that the code itself has (descriptors, strings, retries of a poll, words of a payload).

  \<^bold>\<open>Not modelled.\<close> OS descriptors at binding (they fill tables of the composite framework), configfs and module
  tables; the operating system abstraction, and the bus adapters that only forward to the kernel (SDIO, eMMC,
  SPI, GPIO, I2C, PWM, watchdog, RTC, ADC); network devices and queues of network buffers, which are calls of
  the kernel's functions; character devices around cores of other repositories; test code. The interval inside
  \<open>ffs_func_unbind\<close> between the loss of the gadget and the unbind event, in which endpoint zero could still run,
  is not a step of the relation in \<open>Ffs_Hooks\<close>, and the accesses of the USB notifier's callback and thread
  to the slot do not interleave within a step.
\<close>

end
